(* ===== verification/Prelude.thy ===== *)
theory Prelude
  imports Main "HOL-Library.Word"
begin

text \<open>
  Shared vocabulary of the AxeialOS development: the machine integers of the C sources, the
  two loop shapes that nearly every routine of the kernel is written with, bit-set and
  bit-clear facts, and the byte-addressed memory that the heap and the page tables live in.

  \<^item> \<open>for_range lo hi body s\<close> is \<^verbatim>\<open>for (i = lo; i < hi; i++) s = body(i, s)\<close> on unsigned
    words of any width; \<open>find_range lo hi P\<close> is the same loop left at the first index that
    satisfies \<open>P\<close>. Both run on the C type's own wrap-around arithmetic and are total.
  \<^item> \<open>memory\<close> is a map from 64-bit addresses to bytes, with little-endian 32-bit and 64-bit
    accesses built on it.
\<close>

unbundle bit_operations_syntax

type_synonym u8 = "8 word"
type_synonym u16 = "16 word"
type_synonym u32 = "32 word"
type_synonym u64 = "64 word"

named_theorems kdefs \<open>definitions of kernel routines, unfolded by name\<close>
named_theorems kinv \<open>preservation of component invariants\<close>
named_theorems kframe \<open>fields that a routine leaves alone\<close>

section \<open>Counting loops on machine words\<close>

lemma unat_Suc_less:
  fixes i hi :: "'a::len word"
  assumes "i < hi"
  shows "unat (i + 1) = Suc (unat i)"
proof -
  have "unat hi < 2 ^ LENGTH('a)" by (rule unsigned_less)
  moreover have "unat i < unat hi" using assms by (simp add: word_less_nat_alt)
  ultimately have "Suc (unat i) < 2 ^ LENGTH('a)" by linarith
  then show ?thesis
    by (simp add: unat_word_ariths)
qed

lemma unat_pred: "n \<noteq> 0 \<Longrightarrow> unat n = Suc (unat (n - 1))"
  for n :: "'a::len word"
proof -
  assume n: "n \<noteq> 0"
  then have "0 < unat n" by (simp add: unat_gt_0)
  then show ?thesis using unat_minus_one [OF n] by linarith
qed

function for_range :: "'a::len word \<Rightarrow> 'a word \<Rightarrow> ('a word \<Rightarrow> 's \<Rightarrow> 's) \<Rightarrow> 's \<Rightarrow> 's" where
  "for_range i hi body s = (if i < hi then for_range (i + 1) hi body (body i s) else s)"
  by pat_completeness auto
termination
proof (relation "measure (\<lambda>(i, hi, _, _). unat hi - unat i)")
  fix i hi :: "'a::len word" and body :: "'a word \<Rightarrow> 's \<Rightarrow> 's" and s :: 's
  assume "i < hi"
  then show "((i + 1, hi, body, body i s), i, hi, body, s) \<in> measure (\<lambda>(i, hi, _, _). unat hi - unat i)"
    using unat_Suc_less [of i hi] by (simp add: word_less_nat_alt)
qed simp

function find_range :: "'a::len word \<Rightarrow> 'a word \<Rightarrow> ('a word \<Rightarrow> bool) \<Rightarrow> 'a word option" where
  "find_range i hi P = (if i < hi then (if P i then Some i else find_range (i + 1) hi P) else None)"
  by pat_completeness auto
termination
proof (relation "measure (\<lambda>(i, hi, _). unat hi - unat i)")
  fix i hi :: "'a::len word" and P :: "'a word \<Rightarrow> bool"
  assume "i < hi"
  then show "((i + 1, hi, P), i, hi, P) \<in> measure (\<lambda>(i, hi, _). unat hi - unat i)"
    using unat_Suc_less [of i hi] by (simp add: word_less_nat_alt)
qed simp

declare for_range.simps [simp del] find_range.simps [simp del]

lemma for_range_done [simp]: "hi \<le> i \<Longrightarrow> for_range i hi body s = s"
  by (subst for_range.simps) (simp add: leD)

lemma for_range_step: "i < hi \<Longrightarrow> for_range i hi body s = for_range (i + 1) hi body (body i s)"
  by (subst for_range.simps) simp

lemma plus_one_le_iff:
  fixes i hi :: "'a::len word"
  assumes "i < hi"
  shows "i + 1 \<le> j \<longleftrightarrow> i < j"
  using assms by (simp add: word_less_nat_alt word_le_nat_alt unat_Suc_less Suc_le_eq)

lemma less_plus_one_iff:
  fixes i hi :: "'a::len word"
  assumes "i < hi"
  shows "j < i + 1 \<longleftrightarrow> j \<le> i"
  using plus_one_le_iff [OF assms, of j] by (simp add: not_le [symmetric])

text \<open>The invariant rule for a counting loop.\<close>

lemma for_range_invariant:
  assumes "lo \<le> hi" "I lo s"
    and "\<And>i s. lo \<le> i \<Longrightarrow> i < hi \<Longrightarrow> I i s \<Longrightarrow> I (i + 1) (body i s)"
  shows "I hi (for_range lo hi body s)"
  using assms
proof (induction lo hi body s rule: for_range.induct)
  case (1 i hi body s)
  show ?case
  proof (cases "i < hi")
    case True
    have "I hi (for_range (i + 1) hi body (body i s))"
    proof (rule "1.IH" [OF True])
      show "i + 1 \<le> hi" using True by (simp add: plus_one_le_iff)
      show "I (i + 1) (body i s)" using "1.prems" True by simp
      show "I (j + 1) (body j t)" if "i + 1 \<le> j" "j < hi" "I j t" for j t
        using that "1.prems"(3) True by (simp add: plus_one_le_iff)
    qed
    then show ?thesis using True by (simp add: for_range_step)
  next
    case False
    then show ?thesis using "1.prems" by simp
  qed
qed

text \<open>A property that every pass keeps is kept by the loop, whatever the bounds.\<close>

lemma for_range_keeps:
  assumes "I s" and "\<And>i s. lo \<le> i \<Longrightarrow> i < hi \<Longrightarrow> I s \<Longrightarrow> I (body i s)"
  shows "I (for_range lo hi body s)"
proof (cases "lo \<le> hi")
  case True
  show ?thesis by (rule for_range_invariant [OF True, where I = "\<lambda>_. I"]) (use assms in auto)
next
  case False
  then show ?thesis using assms by simp
qed

lemma for_range_same:
  assumes "\<And>i s. lo \<le> i \<Longrightarrow> i < hi \<Longrightarrow> f (body i s) = f s"
  shows "f (for_range lo hi body s) = f s"
  by (rule for_range_keeps [where I = "\<lambda>t. f t = f s"]) (use assms in auto)

lemma find_range_None_iff:
  "find_range lo hi P = None \<longleftrightarrow> (\<forall>j. lo \<le> j \<longrightarrow> j < hi \<longrightarrow> \<not> P j)"
proof (induction lo hi P rule: find_range.induct)
  case (1 i hi P)
  show ?case
  proof (cases "i < hi \<and> \<not> P i")
    case True
    then have "find_range i hi P = find_range (i + 1) hi P"
      by (subst find_range.simps) simp
    then show ?thesis
      using "1.IH" True plus_one_le_iff [of i hi] by (metis le_less)
  next
    case False
    then show ?thesis by (subst find_range.simps) auto
  qed
qed

lemma find_range_SomeD:
  assumes "find_range lo hi P = Some k"
  shows "lo \<le> k \<and> k < hi \<and> P k \<and> (\<forall>j. lo \<le> j \<longrightarrow> j < k \<longrightarrow> \<not> P j)"
  using assms
proof (induction lo hi P rule: find_range.induct)
  case (1 i hi P)
  show ?case
  proof (cases "i < hi \<and> \<not> P i")
    case True
    then have "find_range (i + 1) hi P = Some k"
      using "1.prems" by (subst (asm) find_range.simps) simp
    then have "i + 1 \<le> k \<and> k < hi \<and> P k \<and> (\<forall>j. i + 1 \<le> j \<longrightarrow> j < k \<longrightarrow> \<not> P j)"
      using "1.IH" True by blast
    then show ?thesis
      using True plus_one_le_iff [of i hi] by (metis le_less)
  next
    case False
    then show ?thesis using "1.prems" by (subst (asm) find_range.simps) (auto split: if_splits)
  qed
qed

section \<open>Repeated requests\<close>

text \<open>\<open>n\<close> calls of an operation that returns a value and the next state, with the values in order.\<close>

primrec iterate_alloc :: "('s \<Rightarrow> 'a \<times> 's) \<Rightarrow> nat \<Rightarrow> 's \<Rightarrow> 'a list \<times> 's" where
  "iterate_alloc f 0 s = ([], s)"
| "iterate_alloc f (Suc n) s = (let (a, s) = f s; (as, s) = iterate_alloc f n s in (a # as, s))"

section \<open>Single bits\<close>

text \<open>The simplifier writes \<open>push_bit b 1\<close> as \<open>2 ^ b\<close>, so the facts are stated in that form.\<close>

lemma bit_set_bit_word [simp]:
  "bit (w OR 2 ^ b) n \<longleftrightarrow> bit w n \<or> (n = b \<and> n < LENGTH('a))"
  for w :: "'a::len word"
  by (auto simp: bit_simps)

lemma bit_clear_bit_word [simp]:
  "bit (w AND NOT (2 ^ b)) n \<longleftrightarrow> bit w n \<and> n \<noteq> b"
  for w :: "'a::len word"
  by (auto simp: bit_simps dest: bit_imp_le_length)

lemma and_exp_eq_0_iff [simp]:
  "w AND 2 ^ b = 0 \<longleftrightarrow> \<not> bit w b"
  for w :: "'a::len word"
proof
  assume "w AND 2 ^ b = 0"
  then have "bit (w AND 2 ^ b) b \<longleftrightarrow> bit (0 :: 'a word) b" by (rule arg_cong)
  then show "\<not> bit w b" by (auto simp: bit_simps dest: bit_imp_le_length)
next
  assume "\<not> bit w b"
  then show "w AND 2 ^ b = 0" by (intro bit_word_eqI) (auto simp: bit_simps)
qed

section \<open>Byte-addressed memory\<close>

type_synonym memory = "u64 \<Rightarrow> u8"

fun store_bytes :: "memory \<Rightarrow> u64 \<Rightarrow> u8 list \<Rightarrow> memory" where
  "store_bytes m p [] = m"
| "store_bytes m p (b # bs) = store_bytes (m(p := b)) (p + 1) bs"

primrec load_bytes :: "memory \<Rightarrow> u64 \<Rightarrow> nat \<Rightarrow> u8 list" where
  "load_bytes m p 0 = []"
| "load_bytes m p (Suc n) = m p # load_bytes m (p + 1) n"

definition span :: "u64 \<Rightarrow> nat \<Rightarrow> u64 set" where
  "span p n = (\<lambda>i. p + word_of_nat i) ` {..<n}"

lemma span_0 [simp]: "span p 0 = {}"
  by (simp add: span_def)

lemma span_Suc: "span p (Suc n) = insert p (span (p + 1) n)"
  by (auto simp: span_def lessThan_Suc_eq_insert_0 image_image ac_simps)

lemma span_Suc_end: "span p (Suc n) = insert (p + word_of_nat n) (span p n)"
  by (auto simp: span_def lessThan_Suc)

lemma span_mono: "n \<le> k \<Longrightarrow> span p n \<subseteq> span p k"
  by (auto simp: span_def)

lemma unat_word_of_nat64: "i < 2 ^ 64 \<Longrightarrow> unat (word_of_nat i :: u64) = i"
  by (simp add: unsigned_of_nat take_bit_nat_eq_self)

lemma word_of_nat_inj64: "i < 2 ^ 64 \<Longrightarrow> j < 2 ^ 64 \<Longrightarrow> (word_of_nat i :: u64) = word_of_nat j \<Longrightarrow> i = j"
  by (metis unat_word_of_nat64)

lemma span_next_fresh: "n < 2 ^ 64 \<Longrightarrow> p \<notin> span (p + 1) n"
proof
  assume n: "n < 2 ^ 64" and "p \<in> span (p + 1) n"
  then obtain i where i: "i < n" "p = p + 1 + word_of_nat i" by (auto simp: span_def)
  then have "(word_of_nat (Suc i) :: u64) = word_of_nat 0" by (simp add: add.assoc)
  then have "Suc i = 0" by (rule word_of_nat_inj64 [rotated 2]) (use i n in auto)
  then show False by simp
qed

lemma span_end_fresh: "n < 2 ^ 64 \<Longrightarrow> p + word_of_nat n \<notin> span p n"
proof
  assume n: "n < 2 ^ 64" and "p + word_of_nat n \<in> span p n"
  then obtain i where i: "i < n" "(word_of_nat n :: u64) = word_of_nat i" by (auto simp: span_def)
  then show False using word_of_nat_inj64 [of n i] n by auto
qed

lemma store_bytes_other: "a \<notin> span p (length bs) \<Longrightarrow> store_bytes m p bs a = m a"
  by (induction bs arbitrary: m p) (auto simp: span_Suc)

lemma store_bytes_append:
  "store_bytes m p (bs @ cs) = store_bytes (store_bytes m p bs) (p + word_of_nat (length bs)) cs"
  by (induction bs arbitrary: m p) (auto simp: ac_simps)

lemma load_bytes_length [simp]: "length (load_bytes m p n) = n"
  by (induction n arbitrary: p) auto

lemma load_bytes_nth: "i < n \<Longrightarrow> load_bytes m p n ! i = m (p + word_of_nat i)"
proof (induction n arbitrary: p i)
  case (Suc n)
  then show ?case by (cases i) (auto simp: ac_simps)
qed simp

lemma load_bytes_cong: "(\<And>a. a \<in> span p n \<Longrightarrow> m a = m' a) \<Longrightarrow> load_bytes m p n = load_bytes m' p n"
  by (induction n arbitrary: p) (auto simp: span_Suc)

lemma load_store_same: "length bs \<le> 2 ^ 64 \<Longrightarrow> load_bytes (store_bytes m p bs) p (length bs) = bs"
proof (induction bs arbitrary: m p)
  case (Cons b bs)
  have "store_bytes (m(p := b)) (p + 1) bs p = b"
    using span_next_fresh [of "length bs" p] Cons.prems by (subst store_bytes_other) auto
  then show ?case using Cons by simp
qed simp

lemma load_store_other:
  "span p n \<inter> span q (length bs) = {} \<Longrightarrow> load_bytes (store_bytes m q bs) p n = load_bytes m p n"
  by (rule load_bytes_cong) (auto intro!: store_bytes_other)

lemma store_bytes_nth:
  "length bs \<le> 2 ^ 64 \<Longrightarrow> i < length bs \<Longrightarrow> store_bytes m p bs (p + word_of_nat i) = bs ! i"
  by (metis load_bytes_nth load_store_same)

end
