(* ===== verification/Sync.thy ===== *)
theory Sync
  imports Prelude
begin

text \<open>
  \<^verbatim>\<open>Kernel/Sync\<close>: spin locks, mutexes and semaphores.

  Each primitive is modelled twice. The routines of the source are functions of the lock and of the
  calling CPU (\<^verbatim>\<open>GetCurrentCpuId\<close>, an argument): one call that runs without interference, with
  \<open>None\<close> for a call that spins for ever. The concurrent behaviour is a step relation, one step per
  access of the source: threads with a program counter each use many spin locks, or one mutex, and are
  preempted and moved between CPUs at any step; for the semaphore, whose code does not look at the CPU, the
  agents are called CPUs. Mutual exclusion is proved over every interleaving by rule induction. The locale
  \<open>exclusion\<close> states what the three relations have in common.
\<close>

section \<open>Routines\<close>

abbreviation NoOwner :: u32 where "NoOwner \<equiv> 0xFFFFFFFF"
abbreviation MaxCPUs :: u32 where "MaxCPUs \<equiv> 256"

text \<open>Bit 9 of \<^verbatim>\<open>RFLAGS\<close>, which \<^verbatim>\<open>cli\<close> clears.\<close>

definition cli :: "u64 \<Rightarrow> u64" where
  "cli flags = flags AND NOT 0x200"

definition interrupts_on :: "u64 \<Rightarrow> bool" where
  "interrupts_on flags \<longleftrightarrow> flags AND 0x200 \<noteq> 0"

record SpinLock =
  SpinLock_Lock :: u32
  SpinLock_CpuId :: u32
  SpinLock_Name :: string
  SpinLock_Flags :: u64

text \<open>The flags register of every CPU and the static array \<^verbatim>\<open>SavedFlags\<close>.\<close>

record CpuFlags =
  RFlags :: "u32 \<Rightarrow> u64"
  SavedFlags :: "u32 \<Rightarrow> u64"

definition InitializeSpinLock :: "string \<Rightarrow> SpinLock \<Rightarrow> SpinLock" where
  "InitializeSpinLock Name L = L\<lparr>SpinLock_Lock := 0, SpinLock_CpuId := NoOwner, SpinLock_Name := Name\<rparr>"

definition AcquireSpinLock :: "u32 \<Rightarrow> SpinLock \<times> CpuFlags \<Rightarrow> (SpinLock \<times> CpuFlags) option" where
  "AcquireSpinLock CpuId = (\<lambda>(L, F).
     (let Flags = RFlags F CpuId;
          F = F\<lparr>RFlags := (RFlags F)(CpuId := cli Flags)\<rparr>
      in if SpinLock_Lock L = 0
         then Some (L\<lparr>SpinLock_Lock := 1, SpinLock_CpuId := CpuId\<rparr>,
                    F\<lparr>SavedFlags := (SavedFlags F)(CpuId := Flags)\<rparr>)
         else None))"

definition ReleaseSpinLock :: "u32 \<Rightarrow> SpinLock \<times> CpuFlags \<Rightarrow> SpinLock \<times> CpuFlags" where
  "ReleaseSpinLock CpuId = (\<lambda>(L, F).
     (let Flags = SavedFlags F CpuId
      in (L\<lparr>SpinLock_CpuId := NoOwner, SpinLock_Lock := 0\<rparr>,
          F\<lparr>RFlags := (RFlags F)(CpuId := Flags)\<rparr>)))"

definition TryAcquireSpinLock :: "u32 \<Rightarrow> SpinLock \<Rightarrow> bool \<times> SpinLock" where
  "TryAcquireSpinLock CpuId L =
     (if SpinLock_Lock L = 0 then (True, L\<lparr>SpinLock_Lock := 1, SpinLock_CpuId := CpuId\<rparr>) else (False, L))"

record Mutex =
  Mutex_Lock :: u32
  Owner :: u32
  RecursionCount :: u32
  Mutex_Name :: string

definition InitializeMutex :: "string \<Rightarrow> Mutex \<Rightarrow> Mutex" where
  "InitializeMutex Name M = M\<lparr>Mutex_Lock := 0, Owner := NoOwner, RecursionCount := 0, Mutex_Name := Name\<rparr>"

definition AcquireMutex :: "u32 \<Rightarrow> Mutex \<Rightarrow> Mutex option" where
  "AcquireMutex CpuId M =
     (if Owner M = CpuId then Some (M\<lparr>RecursionCount := RecursionCount M + 1\<rparr>)
      else if Mutex_Lock M = 0 then Some (M\<lparr>Mutex_Lock := 1, Owner := CpuId, RecursionCount := 1\<rparr>)
      else None)"

definition ReleaseMutex :: "u32 \<Rightarrow> Mutex \<Rightarrow> Mutex" where
  "ReleaseMutex CpuId M =
     (if Owner M \<noteq> CpuId then M
      else
        (let M = M\<lparr>RecursionCount := RecursionCount M - 1\<rparr> in
         if RecursionCount M = 0 then M\<lparr>Owner := NoOwner, Mutex_Lock := 0\<rparr> else M))"

definition TryAcquireMutex :: "u32 \<Rightarrow> Mutex \<Rightarrow> bool \<times> Mutex" where
  "TryAcquireMutex CpuId M =
     (if Owner M = CpuId then (True, M\<lparr>RecursionCount := RecursionCount M + 1\<rparr>)
      else if Mutex_Lock M = 0 then (True, M\<lparr>Mutex_Lock := 1, Owner := CpuId, RecursionCount := 1\<rparr>)
      else (False, M))"

record Semaphore =
  Count :: u32
  WaitQueue :: u32
  QueueLock :: SpinLock
  Semaphore_Name :: string

definition InitializeSemaphore :: "u32 \<Rightarrow> string \<Rightarrow> Semaphore \<Rightarrow> Semaphore" where
  "InitializeSemaphore InitialCount Name S =
     S\<lparr>Count := InitialCount, WaitQueue := 0,
       QueueLock := InitializeSpinLock ''SemaphoreQueue'' (QueueLock S), Semaphore_Name := Name\<rparr>"

definition AcquireSemaphore :: "Semaphore \<Rightarrow> Semaphore option" where
  "AcquireSemaphore S =
     (let CurrentCount = Count S in
      if 0 < sint CurrentCount then Some (S\<lparr>Count := CurrentCount - 1\<rparr>) else None)"

definition ReleaseSemaphore :: "Semaphore \<Rightarrow> Semaphore" where
  "ReleaseSemaphore S = S\<lparr>Count := Count S + 1\<rparr>"

definition TryAcquireSemaphore :: "Semaphore \<Rightarrow> bool \<times> Semaphore" where
  "TryAcquireSemaphore S =
     (let CurrentCount = Count S in
      if 0 < sint CurrentCount then (True, S\<lparr>Count := CurrentCount - 1\<rparr>) else (False, S))"

section \<open>Interleavings\<close>

text \<open>What the three protocols share: every reachable state satisfies an invariant under which at
  most \<open>limit\<close> agents are inside the protected region.\<close>

locale exclusion =
  fixes init :: "'s \<Rightarrow> bool" and step :: "'s \<Rightarrow> 's \<Rightarrow> bool" and inv :: "'s \<Rightarrow> bool"
    and inside :: "'s \<Rightarrow> 'a set" and limit :: nat
  assumes init_inv: "init s \<Longrightarrow> inv s"
    and step_inv: "inv s \<Longrightarrow> step s t \<Longrightarrow> inv t"
    and inv_limit: "inv s \<Longrightarrow> card (inside s) \<le> limit"
begin

lemma reachable_inv: "step\<^sup>*\<^sup>* s t \<Longrightarrow> init s \<Longrightarrow> inv t"
  by (induction rule: rtranclp_induct) (auto intro: init_inv step_inv)

lemma reachable_limit: "step\<^sup>*\<^sup>* s t \<Longrightarrow> init s \<Longrightarrow> card (inside t) \<le> limit"
  by (rule inv_limit [OF reachable_inv])

end

text \<open>A lock word and the set of agents between the successful exchange and the unlocking store.\<close>

definition lock_word :: "u32 \<Rightarrow> 'a set \<Rightarrow> bool" where
  "lock_word l S \<longleftrightarrow> (if l = 0 then S = {} else \<exists>h. S = {h})"

lemma lock_word_stay: "lock_word l S \<Longrightarrow> c \<in> S \<Longrightarrow> lock_word l (insert c S)"
  by (simp add: insert_absorb)

lemma lock_word_out: "lock_word l S \<Longrightarrow> c \<notin> S \<Longrightarrow> lock_word l (S - {c})"
  by simp

lemma lock_word_enter: "lock_word 0 S \<Longrightarrow> lock_word 1 (insert c S)"
  by (simp add: lock_word_def)

lemma lock_word_leave: "lock_word l S \<Longrightarrow> c \<in> S \<Longrightarrow> lock_word 0 (S - {c})"
  by (auto simp: lock_word_def split: if_splits)

lemma lock_word_card: "lock_word l S \<Longrightarrow> card S \<le> 1"
  by (auto simp: lock_word_def split: if_splits)

lemma lock_word_only: "lock_word l S \<Longrightarrow> c \<in> S \<Longrightarrow> d \<noteq> c \<Longrightarrow> d \<notin> S"
  by (auto simp: lock_word_def split: if_splits)

lemmas lock_word_rules = lock_word_stay lock_word_out lock_word_enter lock_word_leave

subsection \<open>Spin locks\<close>

text \<open>Any number of threads (and interrupt handlers, which count as threads here) use any number of locks; a lock is known by
  its address. The program counter of a thread carries the locals of the call it is in: the lock, the number that
  \<^verbatim>\<open>GetCurrentCpuId\<close> returned and the flags that \<^verbatim>\<open>pushfq\<close> read. A thread takes its next step at any time and reads the number
  of any CPU, so the interleavings include those in which it is preempted or moved to another CPU between two steps, as can
  happen to a thread that holds a lock through \<^verbatim>\<open>TryAcquireSpinLock\<close>, with interrupts enabled.\<close>

datatype spin_pc =
    SIdle
  | Entered nat u32
  | Spinning nat u32 u64
  | SetCpuId nat u32 u64
  | SaveFlags nat u32 u64
  | Acquired nat
  | TrySetCpuId nat
  | ReadFlags nat u32
  | ResetCpuId nat u64
  | Unlock nat u64
  | RestoreFlags u64

text \<open>\<open>TFlags\<close> is the flags register of a thread: that of its CPU while it runs, and its saved copy otherwise. The array
  \<open>SlotFlags\<close> is \<^verbatim>\<open>SavedFlags\<close>, which all locks share. Two fields are there for the statements only: \<open>Holds s t l\<close> tells
  whether the thread \<open>t\<close> is between its successful exchange on the lock \<open>l\<close> and the store that unlocks it, with the number of
  the CPU and, from the step that saves them, the flags it read at entry; \<open>SlotOf\<close> is the thread and the lock that wrote a slot last.\<close>

record spin_machine =
  Locks :: "nat \<Rightarrow> SpinLock"
  SlotFlags :: "u32 \<Rightarrow> u64"
  TFlags :: "nat \<Rightarrow> u64"
  spc :: "nat \<Rightarrow> spin_pc"
  Holds :: "nat \<Rightarrow> nat \<Rightarrow> (u32 \<times> u64 option) option"
  SlotOf :: "u32 \<Rightarrow> (nat \<times> nat) option"

definition spin_goto :: "nat \<Rightarrow> spin_pc \<Rightarrow> spin_machine \<Rightarrow> spin_machine" where
  "spin_goto t p s = s\<lparr>spc := (spc s)(t := p)\<rparr>"

definition spin_lock :: "nat \<Rightarrow> (SpinLock \<Rightarrow> SpinLock) \<Rightarrow> spin_machine \<Rightarrow> spin_machine" where
  "spin_lock l f s = s\<lparr>Locks := (Locks s)(l := f (Locks s l))\<rparr>"

definition spin_hold :: "nat \<Rightarrow> nat \<Rightarrow> (u32 \<times> u64 option) option \<Rightarrow> spin_machine \<Rightarrow> spin_machine" where
  "spin_hold t l x s = s\<lparr>Holds := (Holds s)(t := (Holds s t)(l := x))\<rparr>"

definition spin_flags :: "nat \<Rightarrow> u64 \<Rightarrow> spin_machine \<Rightarrow> spin_machine" where
  "spin_flags t f s = s\<lparr>TFlags := (TFlags s)(t := f)\<rparr>"

definition spin_save :: "nat \<Rightarrow> nat \<Rightarrow> u32 \<Rightarrow> u64 \<Rightarrow> spin_machine \<Rightarrow> spin_machine" where
  "spin_save t l c f s = s\<lparr>SlotFlags := (SlotFlags s)(c := f), SlotOf := (SlotOf s)(c := Some (t, l))\<rparr>"

text \<open>One step per access of the source. Any thread may try to acquire any lock, also one it holds; it releases only locks
  it holds.\<close>

inductive spin_step :: "spin_machine \<Rightarrow> spin_machine \<Rightarrow> bool" where
  acquire_call: "spc s t = SIdle \<Longrightarrow> c < MaxCPUs \<Longrightarrow> spin_step s (spin_goto t (Entered l c) s)"
| acquire_cli: "spc s t = Entered l c \<Longrightarrow>
    spin_step s (spin_goto t (Spinning l c (TFlags s t)) (spin_flags t (cli (TFlags s t)) s))"
| acquire_pause: "spc s t = Spinning l c f \<Longrightarrow> SpinLock_Lock (Locks s l) \<noteq> 0 \<Longrightarrow> spin_step s s"
| acquire_cas: "spc s t = Spinning l c f \<Longrightarrow> SpinLock_Lock (Locks s l) = 0 \<Longrightarrow>
    spin_step s (spin_goto t (SetCpuId l c f) (spin_hold t l (Some (c, None)) (spin_lock l (SpinLock_Lock_update (\<lambda>_. 1)) s)))"
| acquire_owner: "spc s t = SetCpuId l c f \<Longrightarrow>
    spin_step s (spin_goto t (SaveFlags l c f) (spin_lock l (SpinLock_CpuId_update (\<lambda>_. c)) s))"
| acquire_save: "spc s t = SaveFlags l c f \<Longrightarrow>
    spin_step s (spin_goto t (Acquired l) (spin_hold t l (Some (c, Some f)) (spin_save t l c f s)))"
| acquire_return: "spc s t = Acquired l \<Longrightarrow> spin_step s (spin_goto t SIdle s)"
| try_fail: "spc s t = SIdle \<Longrightarrow> SpinLock_Lock (Locks s l) \<noteq> 0 \<Longrightarrow> spin_step s s"
| try_cas: "spc s t = SIdle \<Longrightarrow> SpinLock_Lock (Locks s l) = 0 \<Longrightarrow> c < MaxCPUs \<Longrightarrow>
    spin_step s (spin_goto t (TrySetCpuId l) (spin_hold t l (Some (c, None)) (spin_lock l (SpinLock_Lock_update (\<lambda>_. 1)) s)))"
| try_owner: "spc s t = TrySetCpuId l \<Longrightarrow> c < MaxCPUs \<Longrightarrow>
    spin_step s (spin_goto t SIdle (spin_hold t l (Some (c, None)) (spin_lock l (SpinLock_CpuId_update (\<lambda>_. c)) s)))"
| release_call: "spc s t = SIdle \<Longrightarrow> Holds s t l \<noteq> None \<Longrightarrow> c < MaxCPUs \<Longrightarrow> spin_step s (spin_goto t (ReadFlags l c) s)"
| release_read: "spc s t = ReadFlags l c \<Longrightarrow> spin_step s (spin_goto t (ResetCpuId l (SlotFlags s c)) s)"
| release_owner: "spc s t = ResetCpuId l g \<Longrightarrow>
    spin_step s (spin_goto t (Unlock l g) (spin_lock l (SpinLock_CpuId_update (\<lambda>_. NoOwner)) s))"
| release_store: "spc s t = Unlock l g \<Longrightarrow>
    spin_step s (spin_goto t (RestoreFlags g) (spin_hold t l None (spin_lock l (SpinLock_Lock_update (\<lambda>_. 0)) s)))"
| release_popf: "spc s t = RestoreFlags g \<Longrightarrow> spin_step s (spin_goto t SIdle (spin_flags t g s))"

definition spin_init :: "spin_machine \<Rightarrow> bool" where
  "spin_init s \<longleftrightarrow> (\<forall>l. SpinLock_Lock (Locks s l) = 0) \<and> spc s = (\<lambda>_. SIdle) \<and> Holds s = (\<lambda>_ _. None) \<and> SlotOf s = (\<lambda>_. None)"

definition spin_inside :: "nat \<Rightarrow> spin_machine \<Rightarrow> nat set" where
  "spin_inside l s = {t. Holds s t l \<noteq> None}"

text \<open>The threads inside a lock that have not written its owner yet, or have reset it.\<close>

fun owner_pending :: "spin_pc \<Rightarrow> nat \<Rightarrow> bool" where
  "owner_pending (SetCpuId l c f) k = (l = k)"
| "owner_pending (TrySetCpuId l) k = (l = k)"
| "owner_pending (Unlock l g) k = (l = k)"
| "owner_pending _ k = False"

text \<open>What the program counter of a thread says about its own flags and the locks it holds.\<close>

fun spin_local :: "spin_machine \<Rightarrow> nat \<Rightarrow> spin_pc \<Rightarrow> bool" where
  "spin_local s t (Spinning l c f) \<longleftrightarrow> \<not> interrupts_on (TFlags s t)"
| "spin_local s t (SetCpuId l c f) \<longleftrightarrow> \<not> interrupts_on (TFlags s t) \<and> Holds s t l = Some (c, None)"
| "spin_local s t (SaveFlags l c f) \<longleftrightarrow> \<not> interrupts_on (TFlags s t) \<and> Holds s t l = Some (c, None)"
| "spin_local s t (Acquired l) \<longleftrightarrow> \<not> interrupts_on (TFlags s t) \<and> Holds s t l \<noteq> None"
| "spin_local s t (TrySetCpuId l) \<longleftrightarrow> Holds s t l \<noteq> None \<and> snd (the (Holds s t l)) = None"
| "spin_local s t (ReadFlags l c) \<longleftrightarrow> Holds s t l \<noteq> None"
| "spin_local s t (ResetCpuId l g) \<longleftrightarrow> Holds s t l \<noteq> None"
| "spin_local s t (Unlock l g) \<longleftrightarrow> Holds s t l \<noteq> None"
| "spin_local s t _ \<longleftrightarrow> True"

definition spin_owned :: "spin_machine \<Rightarrow> bool" where
  "spin_owned s \<longleftrightarrow> (\<forall>t l c x. Holds s t l = Some (c, x) \<and> \<not> owner_pending (spc s t) l \<longrightarrow> SpinLock_CpuId (Locks s l) = c)"

definition spin_saved :: "spin_machine \<Rightarrow> bool" where
  "spin_saved s \<longleftrightarrow> (\<forall>t l c f. Holds s t l = Some (c, Some f) \<and> SlotOf s c = Some (t, l) \<longrightarrow> SlotFlags s c = f)"

definition spin_excl :: "spin_machine \<Rightarrow> bool" where
  "spin_excl s \<longleftrightarrow> (\<forall>l. lock_word (SpinLock_Lock (Locks s l)) (spin_inside l s))"

definition spin_inv :: "spin_machine \<Rightarrow> bool" where
  "spin_inv s \<longleftrightarrow> spin_excl s \<and> (\<forall>t. spin_local s t (spc s t)) \<and> spin_owned s \<and> spin_saved s"

lemma cli_off [simp]: "\<not> interrupts_on (cli f)"
  unfolding interrupts_on_def cli_def by (simp only: and.assoc bit.conj_cancel_left bit.conj_zero_right)

lemma spin_fields [simp]:
  "spc (spin_goto t p s) = (spc s)(t := p)" "Locks (spin_goto t p s) = Locks s" "SlotFlags (spin_goto t p s) = SlotFlags s"
  "TFlags (spin_goto t p s) = TFlags s" "Holds (spin_goto t p s) = Holds s" "SlotOf (spin_goto t p s) = SlotOf s"
  "spc (spin_lock l g s) = spc s" "Locks (spin_lock l g s) = (Locks s)(l := g (Locks s l))" "SlotFlags (spin_lock l g s) = SlotFlags s"
  "TFlags (spin_lock l g s) = TFlags s" "Holds (spin_lock l g s) = Holds s" "SlotOf (spin_lock l g s) = SlotOf s"
  "spc (spin_hold t l x s) = spc s" "Locks (spin_hold t l x s) = Locks s" "SlotFlags (spin_hold t l x s) = SlotFlags s"
  "TFlags (spin_hold t l x s) = TFlags s" "Holds (spin_hold t l x s) = (Holds s)(t := (Holds s t)(l := x))" "SlotOf (spin_hold t l x s) = SlotOf s"
  "spc (spin_flags t f s) = spc s" "Locks (spin_flags t f s) = Locks s" "SlotFlags (spin_flags t f s) = SlotFlags s"
  "TFlags (spin_flags t f s) = (TFlags s)(t := f)" "Holds (spin_flags t f s) = Holds s" "SlotOf (spin_flags t f s) = SlotOf s"
  "spc (spin_save t l c f s) = spc s" "Locks (spin_save t l c f s) = Locks s" "SlotFlags (spin_save t l c f s) = (SlotFlags s)(c := f)"
  "TFlags (spin_save t l c f s) = TFlags s" "Holds (spin_save t l c f s) = Holds s" "SlotOf (spin_save t l c f s) = (SlotOf s)(c := Some (t, l))"
  by (simp_all add: spin_goto_def spin_lock_def spin_hold_def spin_flags_def spin_save_def)

lemma spin_inside_simps [simp]:
  "spin_inside k (spin_goto t p s) = spin_inside k s" "spin_inside k (spin_lock l g s) = spin_inside k s"
  "spin_inside k (spin_flags t f s) = spin_inside k s" "spin_inside k (spin_save t l c f s) = spin_inside k s"
  "spin_inside k (spin_hold t l (Some x) s) = (if k = l then insert t (spin_inside k s) else spin_inside k s)"
  "spin_inside k (spin_hold t l None s) = (if k = l then spin_inside k s - {t} else spin_inside k s)"
  by (auto simp: spin_inside_def)

lemma spin_inside_mem: "t \<in> spin_inside l s \<longleftrightarrow> Holds s t l \<noteq> None"
  by (simp add: spin_inside_def)

lemma spin_init_inv: "spin_init s \<Longrightarrow> spin_inv s"
  by (simp add: spin_init_def spin_inv_def spin_excl_def spin_owned_def spin_saved_def spin_inside_def lock_word_def)

lemma spin_invD:
  assumes "spin_inv s"
  shows "lock_word (SpinLock_Lock (Locks s l)) (spin_inside l s)" "spin_local s t (spc s t)" "spin_owned s" "spin_saved s"
  using assms by (simp_all add: spin_inv_def spin_excl_def)

lemma spin_step_excl:
  assumes inv: "spin_inv s" and st: "spin_step s u"
  shows "spin_excl u"
  unfolding spin_excl_def
proof
  fix k
  note l = spin_invD(1) [OF inv, of k] and loc = spin_invD(2) [OF inv]
  from st show "lock_word (SpinLock_Lock (Locks u k)) (spin_inside k u)"
  proof cases
    case (acquire_cas t l c f)
    then show ?thesis using l by (auto intro: lock_word_enter)
  next
    case (acquire_save t l c f)
    then have "t \<in> spin_inside l s" using loc [of t] by (simp add: spin_inside_mem)
    then show ?thesis using acquire_save l by (auto intro: lock_word_stay)
  next
    case (try_cas t l c)
    then show ?thesis using l by (auto intro: lock_word_enter)
  next
    case (try_owner t l c)
    then have "t \<in> spin_inside l s" using loc [of t] by (simp add: spin_inside_mem)
    then show ?thesis using try_owner l by (auto intro: lock_word_stay)
  next
    case (release_store t l g)
    then have "t \<in> spin_inside l s" using loc [of t] by (simp add: spin_inside_mem)
    then show ?thesis using release_store l by (auto intro: lock_word_leave)
  qed (use l in auto)
qed

lemma spin_only:
  assumes "spin_inv s" "Holds s t l \<noteq> None" "Holds s u l \<noteq> None"
  shows "u = t"
  using lock_word_only [OF spin_invD(1) [OF assms(1), of l], of t u] assms(2,3) by (auto simp: spin_inside_mem)

lemma spin_free:
  assumes "spin_inv s" "SpinLock_Lock (Locks s l) = 0"
  shows "Holds s t l = None"
proof -
  have "spin_inside l s = {}" using spin_invD(1) [OF assms(1), of l] assms(2) by (simp add: lock_word_def)
  then show ?thesis using spin_inside_mem by blast
qed

lemma spin_local_frame [simp]:
  "spin_local (spin_goto t p s) d q = spin_local s d q" "spin_local (spin_lock l g s) d q = spin_local s d q"
  "spin_local (spin_save t l c f s) d q = spin_local s d q"
  "d \<noteq> t \<Longrightarrow> spin_local (spin_hold t l x s) d q = spin_local s d q"
  "d \<noteq> t \<Longrightarrow> spin_local (spin_flags t f s) d q = spin_local s d q"
  by (cases q; simp)+

lemma spin_step_local:
  assumes inv: "spin_inv s" and st: "spin_step s u"
  shows "spin_local u d (spc u d)"
  using st by cases (use spin_invD(2) [OF inv, of d] in \<open>auto split: if_splits\<close>)

text \<open>A step of the holder of a lock concerns the owner of that lock only.\<close>

lemma spin_owned_at:
  assumes inv: "spin_inv s" and held: "Holds s t k \<noteq> None"
    and other: "\<And>d l. d \<noteq> t \<or> l \<noteq> k \<Longrightarrow> Holds u d l = Holds s d l"
      "\<And>d l. d \<noteq> t \<or> l \<noteq> k \<Longrightarrow> owner_pending (spc s d) l = owner_pending (spc u d) l"
      "\<And>l. l \<noteq> k \<Longrightarrow> SpinLock_CpuId (Locks u l) = SpinLock_CpuId (Locks s l)"
    and own: "\<And>c x. Holds u t k = Some (c, x) \<Longrightarrow> \<not> owner_pending (spc u t) k \<Longrightarrow> SpinLock_CpuId (Locks u k) = c"
  shows "spin_owned u"
  unfolding spin_owned_def
proof (intro allI impI)
  fix d l c x
  assume h: "Holds u d l = Some (c, x) \<and> \<not> owner_pending (spc u d) l"
  show "SpinLock_CpuId (Locks u l) = c"
  proof (cases "l = k")
    case True
    have "d = t"
    proof (rule ccontr)
      assume "d \<noteq> t"
      then have "Holds s d k \<noteq> None" using other(1) h True by auto
      then show False using spin_only [OF inv held] \<open>d \<noteq> t\<close> by blast
    qed
    then show ?thesis using own h True by blast
  next
    case False
    then have "Holds s d l = Some (c, x)" "\<not> owner_pending (spc s d) l" using other h by auto
    then show ?thesis using spin_invD(3) [OF inv] other(3) [OF False] by (auto simp: spin_owned_def)
  qed
qed

lemma spin_step_owned:
  assumes inv: "spin_inv s" and st: "spin_step s u"
  shows "spin_owned u"
proof -
  have o: "SpinLock_CpuId (Locks s l) = c" if "Holds s t l = Some (c, x)" "\<not> owner_pending (spc s t) l" for t l c x
    using spin_invD(3) [OF inv] that by (auto simp: spin_owned_def)
  note loc = spin_invD(2) [OF inv]
  from st show ?thesis
  proof cases
    case (acquire_cas t k c f)
    then have "Holds s d k = None" for d using spin_free [OF inv] by simp
    then show ?thesis using acquire_cas o by (auto simp: spin_owned_def split: if_splits)
  next
    case (try_cas t k c)
    then have "Holds s d k = None" for d using spin_free [OF inv] by simp
    then show ?thesis using try_cas o by (auto simp: spin_owned_def split: if_splits)
  next
    case (acquire_owner t k c f)
    then have "Holds s t k = Some (c, None)" using loc [of t] by simp
    then show ?thesis using acquire_owner by (intro spin_owned_at [OF inv, of t k]) auto
  next
    case (acquire_save t k c f)
    then have "Holds s t k = Some (c, None)" using loc [of t] by simp
    then show ?thesis using acquire_save o [of t k c None] by (intro spin_owned_at [OF inv, of t k]) auto
  next
    case (try_owner t k c)
    then have "Holds s t k \<noteq> None" using loc [of t] by simp
    then show ?thesis using try_owner by (intro spin_owned_at [OF inv, of t k]) auto
  next
    case (release_owner t k g)
    then have "Holds s t k \<noteq> None" using loc [of t] by simp
    then show ?thesis using release_owner by (intro spin_owned_at [OF inv, of t k]) auto
  next
    case (release_store t k g)
    then have "Holds s t k \<noteq> None" using loc [of t] by simp
    then show ?thesis using release_store by (intro spin_owned_at [OF inv, of t k]) auto
  qed (use o in \<open>auto simp: spin_owned_def split: if_splits\<close>)
qed

lemma spin_step_saved:
  assumes inv: "spin_inv s" and st: "spin_step s u"
  shows "spin_saved u"
proof -
  have o: "SlotFlags s c = f" if "Holds s t l = Some (c, Some f)" "SlotOf s c = Some (t, l)" for t l c f
    using spin_invD(4) [OF inv] that by (auto simp: spin_saved_def)
  from st show ?thesis by cases (use o in \<open>auto simp: spin_saved_def split: if_splits\<close>)
qed

lemma spin_step_inv: "spin_inv s \<Longrightarrow> spin_step s u \<Longrightarrow> spin_inv u"
  using spin_step_excl spin_step_local spin_step_owned spin_step_saved by (simp add: spin_inv_def [of u])

lemma lock_word_nonempty: "lock_word l S \<Longrightarrow> l \<noteq> 0 \<longleftrightarrow> S \<noteq> {}"
  by (auto simp: lock_word_def split: if_splits)

interpretation spin: exclusion spin_init spin_step spin_inv "spin_inside l" 1 for l
proof
  show "card (spin_inside l s) \<le> 1" if "spin_inv s" for s
    using lock_word_card [OF spin_invD(1) [OF that]] .
qed (auto intro: spin_init_inv spin_step_inv)

subsection \<open>Mutexes\<close>

text \<open>A mutex leaves interrupts enabled and records the CPU of its holder, not the thread. So the agents are threads again;
  \<open>runs_on t c\<close> tells that the thread \<open>t\<close> may call a routine of this mutex on the CPU \<open>c\<close>. The program counter carries the number
  of the CPU, the value loaded from \<^verbatim>\<open>RecursionCount\<close>, and whether the call is \<^verbatim>\<open>TryAcquireMutex\<close>. Changing the count is a load and a store, and the test of it
  loads it again. The field \<open>MHolders\<close> is
  there for the statements: the threads inside, from the successful exchange, or from the end of a recursive entry, to the
  store that unlocks.\<close>

datatype mutex_pc =
    MIdle
  | MCheck bool u32
  | MLoadInc
  | MStoreInc u32
  | MSpin bool u32
  | MSetOwner u32
  | MSetCount
  | MRelease u32
  | MLoadDec
  | MStoreDec u32
  | MTest
  | MReset
  | MUnlock

record mutex_machine =
  TheMutex :: Mutex
  mpc :: "nat \<Rightarrow> mutex_pc"
  MHolders :: "nat set"

definition mutex_goto :: "nat \<Rightarrow> mutex_pc \<Rightarrow> mutex_machine \<Rightarrow> mutex_machine" where
  "mutex_goto t p s = s\<lparr>mpc := (mpc s)(t := p)\<rparr>"

definition on_mutex :: "(Mutex \<Rightarrow> Mutex) \<Rightarrow> mutex_machine \<Rightarrow> mutex_machine" where
  "on_mutex f s = s\<lparr>TheMutex := f (TheMutex s)\<rparr>"

definition hold_mutex :: "(nat set \<Rightarrow> nat set) \<Rightarrow> mutex_machine \<Rightarrow> mutex_machine" where
  "hold_mutex f s = s\<lparr>MHolders := f (MHolders s)\<rparr>"




fun mutex_local :: "(nat \<Rightarrow> u32 \<Rightarrow> bool) \<Rightarrow> mutex_machine \<Rightarrow> nat \<Rightarrow> mutex_pc \<Rightarrow> bool" where
  "mutex_local r s t MIdle \<longleftrightarrow> True"
| "mutex_local r s t (MCheck b c) \<longleftrightarrow> r t c \<and> c < MaxCPUs"
| "mutex_local r s t (MSpin b c) \<longleftrightarrow> r t c \<and> c < MaxCPUs"
| "mutex_local r s t (MRelease c) \<longleftrightarrow> r t c \<and> c < MaxCPUs"
| "mutex_local r s t (MSetOwner c) \<longleftrightarrow> r t c \<and> c < MaxCPUs \<and> t \<in> MHolders s"
| "mutex_local r s t _ \<longleftrightarrow> t \<in> MHolders s"





lemma mutex_fields [simp]:
  "mpc (mutex_goto t p s) = (mpc s)(t := p)" "TheMutex (mutex_goto t p s) = TheMutex s" "MHolders (mutex_goto t p s) = MHolders s"
  "mpc (on_mutex f s) = mpc s" "TheMutex (on_mutex f s) = f (TheMutex s)" "MHolders (on_mutex f s) = MHolders s"
  "mpc (hold_mutex g s) = mpc s" "TheMutex (hold_mutex g s) = TheMutex s" "MHolders (hold_mutex g s) = g (MHolders s)"
  by (simp_all add: mutex_goto_def on_mutex_def hold_mutex_def)

lemma mutex_local_frame [simp]:
  "mutex_local r (mutex_goto t p s) d q = mutex_local r s d q" "mutex_local r (on_mutex f s) d q = mutex_local r s d q"
  by (cases q; simp)+
















subsection \<open>Semaphores\<close>

datatype sem_pc = POut | PLoaded u32 | PIn

record sem_machine =
  TheSem :: Semaphore
  ppc :: "u32 \<Rightarrow> sem_pc"

definition sem_goto :: "u32 \<Rightarrow> sem_pc \<Rightarrow> sem_machine \<Rightarrow> sem_machine" where
  "sem_goto c p s = s\<lparr>ppc := (ppc s)(c := p)\<rparr>"

inductive sem_step :: "sem_machine \<Rightarrow> sem_machine \<Rightarrow> bool" where
  p_load: "c < MaxCPUs \<Longrightarrow> ppc s c = POut \<Longrightarrow> 0 < sint (Count (TheSem s)) \<Longrightarrow>
    sem_step s (sem_goto c (PLoaded (Count (TheSem s))) s)"
| p_empty: "c < MaxCPUs \<Longrightarrow> ppc s c = POut \<Longrightarrow> \<not> 0 < sint (Count (TheSem s)) \<Longrightarrow> sem_step s s"
| p_cas: "c < MaxCPUs \<Longrightarrow> ppc s c = PLoaded v \<Longrightarrow> Count (TheSem s) = v \<Longrightarrow>
    sem_step s (sem_goto c PIn (s\<lparr>TheSem := (TheSem s)\<lparr>Count := v - 1\<rparr>\<rparr>))"
| p_retry: "c < MaxCPUs \<Longrightarrow> ppc s c = PLoaded v \<Longrightarrow> Count (TheSem s) \<noteq> v \<Longrightarrow>
    sem_step s (sem_goto c POut s)"
| p_release: "c < MaxCPUs \<Longrightarrow> ppc s c = PIn \<Longrightarrow>
    sem_step s (sem_goto c POut (s\<lparr>TheSem := ReleaseSemaphore (TheSem s)\<rparr>))"

definition sem_inside :: "sem_machine \<Rightarrow> u32 set" where
  "sem_inside s = {c. ppc s c = PIn}"

definition sem_init :: "nat \<Rightarrow> sem_machine \<Rightarrow> bool" where
  "sem_init N s \<longleftrightarrow> N < 2 ^ 31 \<and> Count (TheSem s) = word_of_nat N \<and> ppc s = (\<lambda>_. POut)"

definition sem_inv :: "nat \<Rightarrow> sem_machine \<Rightarrow> bool" where
  "sem_inv N s \<longleftrightarrow> N < 2 ^ 31 \<and> 0 \<le> sint (Count (TheSem s)) \<and>
     sint (Count (TheSem s)) + int (card (sem_inside s)) = int N \<and>
     (\<forall>c v. ppc s c = PLoaded v \<longrightarrow> 0 < sint v)"

lemma sint_word_of_nat: "N < 2 ^ 31 \<Longrightarrow> sint (word_of_nat N :: u32) = int N"
  by (simp add: sint_word_ariths signed_of_nat signed_take_bit_int_eq_self)

lemma sint_pred: "0 < sint v \<Longrightarrow> sint (v - 1) = sint v - 1"
  for v :: u32
proof -
  assume "0 < sint v"
  moreover have "sint v < 2 ^ 31" using sint_lt [of v] by simp
  ultimately show ?thesis by (simp add: sint_word_ariths signed_take_bit_int_eq_self)
qed

lemma sint_succ: "0 \<le> sint v \<Longrightarrow> sint v < 2 ^ 31 - 1 \<Longrightarrow> sint (v + 1) = sint v + 1"
  for v :: u32
  by (simp add: sint_word_ariths signed_take_bit_int_eq_self)

lemma sem_goto_simps [simp]:
  "ppc (sem_goto c p s) = (ppc s)(c := p)" "TheSem (sem_goto c p s) = TheSem s"
  "sem_inside (sem_goto c PIn s) = insert c (sem_inside s)"
  "p \<noteq> PIn \<Longrightarrow> sem_inside (sem_goto c p s) = sem_inside s - {c}"
  "sem_inside (s\<lparr>TheSem := x\<rparr>) = sem_inside s"
  by (auto simp: sem_goto_def sem_inside_def)

lemma sem_inside_mem: "c \<in> sem_inside s \<longleftrightarrow> ppc s c = PIn"
  by (simp add: sem_inside_def)

lemma sem_step_inv:
  assumes inv: "sem_inv N s" and st: "sem_step s t"
  shows "sem_inv N t"
  using st
proof cases
  case (p_load c)
  then have "sem_inside s - {c} = sem_inside s" by (simp add: sem_inside_def)
  then show ?thesis using inv p_load by (simp add: sem_inv_def)
next
  case (p_empty c)
  then show ?thesis using inv by simp
next
  case (p_cas c v)
  then have "c \<notin> sem_inside s" by (simp add: sem_inside_def)
  then have "card (insert c (sem_inside s)) = Suc (card (sem_inside s))" by simp
  then show ?thesis using inv p_cas by (auto simp: sem_inv_def sint_pred)
next
  case (p_retry c v)
  then have "sem_inside s - {c} = sem_inside s" by (simp add: sem_inside_def)
  then show ?thesis using inv p_retry by (simp add: sem_inv_def)
next
  case (p_release c)
  then have "c \<in> sem_inside s" by (simp add: sem_inside_def)
  then have "card (sem_inside s) = Suc (card (sem_inside s - {c}))" by (metis card_Suc_Diff1 finite)
  moreover from this have "sint (Count (TheSem s) + 1) = sint (Count (TheSem s)) + 1"
    using inv by (intro sint_succ) (auto simp: sem_inv_def)
  ultimately show ?thesis using inv p_release by (auto simp: sem_inv_def ReleaseSemaphore_def)
qed

interpretation sem: exclusion "sem_init N" sem_step "sem_inv N" sem_inside N
proof
  show "sem_inv N s" if "sem_init N s" for s
    using that by (auto simp: sem_init_def sem_inv_def sem_inside_def sint_word_of_nat)
  show "card (sem_inside s) \<le> N" if "sem_inv N s" for s
    using that by (auto simp: sem_inv_def)
qed (rule sem_step_inv)

section \<open>Recursion of mutexes\<close>

primrec acquire_times :: "nat \<Rightarrow> u32 \<Rightarrow> Mutex \<Rightarrow> Mutex option" where
  "acquire_times 0 c M = Some M"
| "acquire_times (Suc n) c M = Option.bind (acquire_times n c M) (AcquireMutex c)"

lemma acquire_times_free:
  assumes "Mutex_Lock M = 0" "Owner M \<noteq> c"
  shows "acquire_times (Suc n) c M = Some (M\<lparr>Mutex_Lock := 1, Owner := c, RecursionCount := word_of_nat (Suc n)\<rparr>)"
  using assms by (induction n) (simp_all add: AcquireMutex_def)

lemma ReleaseMutex_held:
  assumes "Owner M = c" "RecursionCount M = word_of_nat (Suc k)" "Suc k < 2 ^ 32"
  shows "ReleaseMutex c M = (if k = 0 then M\<lparr>RecursionCount := 0, Owner := NoOwner, Mutex_Lock := 0\<rparr>
     else M\<lparr>RecursionCount := word_of_nat k\<rparr>)"
proof -
  have "unat (word_of_nat k :: u32) = k" using assms(3) by (simp add: unsigned_of_nat take_bit_nat_eq_self)
  then have "(word_of_nat k :: u32) = 0 \<longleftrightarrow> k = 0" by (cases "k = 0") (auto simp: word_unat_eq_iff)
  then show ?thesis using assms by (auto simp: ReleaseMutex_def)
qed

lemma release_times_held:
  assumes "Owner M = c" "RecursionCount M = word_of_nat (Suc n)" "Suc n < 2 ^ 32"
  shows "j \<le> n \<Longrightarrow> (ReleaseMutex c ^^ j) M = M\<lparr>RecursionCount := word_of_nat (Suc n - j)\<rparr>"
proof (induction j)
  case 0
  then show ?case using assms by simp
next
  case (Suc j)
  let ?M = "M\<lparr>RecursionCount := word_of_nat (Suc n - j)\<rparr>"
  have "Suc n - j = Suc (n - j)" "n - j \<noteq> 0" using Suc.prems by auto
  then have "ReleaseMutex c ?M = ?M\<lparr>RecursionCount := word_of_nat (n - j)\<rparr>"
    using ReleaseMutex_held [of ?M c "n - j"] assms by simp
  then show ?case using Suc by simp
qed

section \<open>Properties\<close>

definition demo_lock_word :: SpinLock where
  "demo_lock_word = InitializeSpinLock ''demo'' \<lparr>SpinLock_Lock = 7, SpinLock_CpuId = 7, SpinLock_Name = [], SpinLock_Flags = 0\<rparr>"

definition demo_spin :: spin_machine where
  "demo_spin = \<lparr>Locks = (\<lambda>_. demo_lock_word), SlotFlags = (\<lambda>_. 0), TFlags = (\<lambda>_. 0x202), spc = (\<lambda>_. SIdle),
     Holds = (\<lambda>_ _. None), SlotOf = (\<lambda>_. None)\<rparr>"

lemma demo_spin_init: "spin_init demo_spin"
  by (simp add: spin_init_def demo_spin_def demo_lock_word_def InitializeSpinLock_def)

text \<open>C16: mutual exclusion of spin locks. Any number of threads use any number of initialised locks, nested or not, by
  \<^verbatim>\<open>AcquireSpinLock\<close> and \<^verbatim>\<open>TryAcquireSpinLock\<close>, and release only locks they hold. In every state that any interleaving of their
  accesses reaches, and for every lock: at most one thread is between its successful exchange and its unlocking store, and
  the lock word tells whether there is one; apart from the moments at which the holder writes or resets it, \<^verbatim>\<open>CpuId\<close> is the CPU on
  which the holder acquired. A thread returns from \<^verbatim>\<open>AcquireSpinLock\<close> with interrupts disabled. The flags it read at entry are
  in the slot of that CPU as long as no other acquisition has written that slot, which nested locks share.\<close>

theorem spin_mutual_exclusion:
  assumes "spin_init s" "spin_step\<^sup>*\<^sup>* s u"
  shows "card (spin_inside l u) \<le> 1 \<and> (SpinLock_Lock (Locks u l) = 0 \<longleftrightarrow> spin_inside l u = {}) \<and>
    (\<nexists>t c x. Holds u t l = Some (c, x) \<and> \<not> owner_pending (spc u t) l \<and> SpinLock_CpuId (Locks u l) \<noteq> c) \<and>
    (\<nexists>t. spc u t = Acquired l \<and> interrupts_on (TFlags u t)) \<and>
    (\<nexists>t c f. Holds u t l = Some (c, Some f) \<and> SlotOf u c = Some (t, l) \<and> SlotFlags u c \<noteq> f)"
proof -
  have inv: "spin_inv u" by (rule spin.reachable_inv [OF assms(2,1)])
  note d = spin_invD [OF inv]
  have "SpinLock_Lock (Locks u l) = 0 \<longleftrightarrow> spin_inside l u = {}" using lock_word_nonempty [OF d(1) [of l]] by blast
  moreover have "\<not> interrupts_on (TFlags u t)" if "spc u t = Acquired l" for t using d(2) [of t] that by simp
  ultimately show ?thesis
    using spin.reachable_limit [OF assms(2,1), of l] d(3,4) unfolding spin_owned_def spin_saved_def by blast
qed

text \<open>The routine refines the interleaving. When the lock is free, a thread that runs its steps alone on the CPU \<open>c\<close> gets
  inside, with the lock and the flags exactly as one call of \<^verbatim>\<open>AcquireSpinLock\<close> leaves them; from there its steps unlock and
  restore exactly as one call of \<^verbatim>\<open>ReleaseSpinLock\<close>. The flags register of the CPU is that of the thread.\<close>

definition cpu_view :: "u32 \<Rightarrow> nat \<Rightarrow> spin_machine \<Rightarrow> CpuFlags" where
  "cpu_view c t s = \<lparr>RFlags = (\<lambda>_. 0)(c := TFlags s t), SavedFlags = SlotFlags s\<rparr>"

lemma spin_acquire_run:
  assumes "c < MaxCPUs" "spc s t = SIdle" "AcquireSpinLock c (Locks s l, cpu_view c t s) = Some (L, F)"
  shows "\<exists>u. spin_step\<^sup>*\<^sup>* s u \<and> spc u = spc s \<and> Locks u = (Locks s)(l := L) \<and> cpu_view c t u = F \<and>
    Holds u = (Holds s)(t := (Holds s t)(l \<mapsto> (c, Some (TFlags s t))))"
proof -
  let ?f = "TFlags s t"
  have free: "SpinLock_Lock (Locks s l) = 0" and L: "L = (Locks s l)\<lparr>SpinLock_Lock := 1, SpinLock_CpuId := c\<rparr>"
    and F: "F = \<lparr>RFlags = (\<lambda>_. 0)(c := cli ?f), SavedFlags = (SlotFlags s)(c := ?f)\<rparr>"
    using assms(3) by (auto simp: AcquireSpinLock_def cpu_view_def Let_def split: if_splits)
  define s1 where "s1 = spin_goto t (Entered l c) s"
  define s2 where "s2 = spin_goto t (Spinning l c (TFlags s1 t)) (spin_flags t (cli (TFlags s1 t)) s1)"
  define s3 where "s3 = spin_goto t (SetCpuId l c ?f) (spin_hold t l (Some (c, None)) (spin_lock l (SpinLock_Lock_update (\<lambda>_. 1)) s2))"
  define s4 where "s4 = spin_goto t (SaveFlags l c ?f) (spin_lock l (SpinLock_CpuId_update (\<lambda>_. c)) s3)"
  define s5 where "s5 = spin_goto t (Acquired l) (spin_hold t l (Some (c, Some ?f)) (spin_save t l c ?f s4))"
  define s6 where "s6 = spin_goto t SIdle s5"
  note defs = s1_def s2_def s3_def s4_def s5_def s6_def
  have "spin_step s s1" unfolding s1_def by (rule acquire_call) (use assms in simp_all)
  moreover have "spin_step s1 s2" unfolding s2_def by (rule acquire_cli) (simp add: s1_def)
  moreover have "spin_step s2 s3" unfolding s3_def by (rule acquire_cas) (use free in \<open>simp_all add: s1_def s2_def\<close>)
  moreover have "spin_step s3 s4" unfolding s4_def by (rule acquire_owner) (simp add: s3_def)
  moreover have "spin_step s4 s5" unfolding s5_def by (rule acquire_save) (simp add: s4_def)
  moreover have "spin_step s5 s6" unfolding s6_def by (rule acquire_return [where l = l]) (simp add: s5_def)
  ultimately have "spin_step\<^sup>*\<^sup>* s s6" by (meson rtranclp.rtrancl_into_rtrancl rtranclp.rtrancl_refl)
  moreover have "spc s6 = spc s" using assms(2) by (auto simp: defs fun_eq_iff)
  ultimately show ?thesis by (intro exI [of _ s6]) (simp add: defs L F cpu_view_def)
qed

lemma spin_release_run:
  assumes "c < MaxCPUs" "spc s t = SIdle" "Holds s t l \<noteq> None" "ReleaseSpinLock c (Locks s l, cpu_view c t s) = (L, F)"
  shows "\<exists>u. spin_step\<^sup>*\<^sup>* s u \<and> spc u = spc s \<and> Locks u = (Locks s)(l := L) \<and> cpu_view c t u = F \<and> Holds u t l = None"
proof -
  let ?g = "SlotFlags s c"
  have L: "L = (Locks s l)\<lparr>SpinLock_CpuId := NoOwner, SpinLock_Lock := 0\<rparr>"
    and F: "F = \<lparr>RFlags = (\<lambda>_. 0)(c := ?g), SavedFlags = SlotFlags s\<rparr>"
    using assms(4) by (auto simp: ReleaseSpinLock_def cpu_view_def Let_def)
  define s1 where "s1 = spin_goto t (ReadFlags l c) s"
  define s2 where "s2 = spin_goto t (ResetCpuId l (SlotFlags s1 c)) s1"
  define s3 where "s3 = spin_goto t (Unlock l ?g) (spin_lock l (SpinLock_CpuId_update (\<lambda>_. NoOwner)) s2)"
  define s4 where "s4 = spin_goto t (RestoreFlags ?g) (spin_hold t l None (spin_lock l (SpinLock_Lock_update (\<lambda>_. 0)) s3))"
  define s5 where "s5 = spin_goto t SIdle (spin_flags t ?g s4)"
  note defs = s1_def s2_def s3_def s4_def s5_def
  have "spin_step s s1" unfolding s1_def by (rule release_call) (use assms in simp_all)
  moreover have "spin_step s1 s2" unfolding s2_def by (rule release_read) (simp add: s1_def)
  moreover have "spin_step s2 s3" unfolding s3_def by (rule release_owner) (simp add: s1_def s2_def)
  moreover have "spin_step s3 s4" unfolding s4_def by (rule release_store) (simp add: s3_def)
  moreover have "spin_step s4 s5" unfolding s5_def by (rule release_popf) (simp add: s4_def)
  ultimately have "spin_step\<^sup>*\<^sup>* s s5" by (meson rtranclp.rtrancl_into_rtrancl rtranclp.rtrancl_refl)
  moreover have "spc s5 = spc s" using assms(2) by (auto simp: defs fun_eq_iff)
  ultimately show ?thesis by (intro exI [of _ s5]) (simp add: defs L F cpu_view_def)
qed

theorem spin_steps_refine_routine:
  assumes "c < MaxCPUs" "spc s t = SIdle" "AcquireSpinLock c (Locks s l, cpu_view c t s) = Some (L, F)"
    "ReleaseSpinLock c (L, F) = (L', F')"
  shows "\<exists>u v. spin_step\<^sup>*\<^sup>* s u \<and> spc u = spc s \<and> Locks u = (Locks s)(l := L) \<and> cpu_view c t u = F \<and>
    spin_step\<^sup>*\<^sup>* u v \<and> spc v = spc s \<and> Locks v = (Locks s)(l := L') \<and> cpu_view c t v = F' \<and>
    TFlags v t = TFlags s t \<and> SpinLock_Lock L' = 0"
proof -
  obtain u where u: "spin_step\<^sup>*\<^sup>* s u" "spc u = spc s" "Locks u = (Locks s)(l := L)" "cpu_view c t u = F"
    "Holds u t l \<noteq> None"
    using spin_acquire_run [OF assms(1,2,3)] by fastforce
  have "ReleaseSpinLock c (Locks u l, cpu_view c t u) = (L', F')" using assms(4) u by simp
  then obtain v where v: "spin_step\<^sup>*\<^sup>* u v" "spc v = spc u" "Locks v = (Locks u)(l := L')" "cpu_view c t v = F'"
    using spin_release_run [OF assms(1), of u t l L' F'] u assms(2) by auto
  have "RFlags F' c = TFlags s t" "SpinLock_Lock L' = 0"
    using assms(3,4) by (auto simp: AcquireSpinLock_def ReleaseSpinLock_def cpu_view_def Let_def split: if_splits)
  moreover from this have "TFlags v t = TFlags s t" using v(4) by (auto simp: cpu_view_def)
  ultimately show ?thesis using u v by (intro exI [of _ u] exI [of _ v]) simp
qed

theorem spin_steps_refine_routine_witness:
  "\<exists>u. spin_step\<^sup>*\<^sup>* demo_spin u \<and> SpinLock_Lock (Locks u 5) = 1 \<and> SpinLock_Lock (Locks u 6) = 0"
proof -
  obtain L F where LF: "AcquireSpinLock 3 (Locks demo_spin 5, cpu_view 3 9 demo_spin) = Some (L, F)"
    by (simp add: AcquireSpinLock_def demo_spin_def demo_lock_word_def InitializeSpinLock_def Let_def)
  obtain L' F' where R: "ReleaseSpinLock 3 (L, F) = (L', F')" by force
  have c: "(3 :: u32) < MaxCPUs" "spc demo_spin 9 = SIdle" by (simp_all add: demo_spin_def)
  have "SpinLock_Lock L = 1" "SpinLock_Lock (Locks demo_spin 6) = 0"
    using LF by (auto simp: AcquireSpinLock_def demo_spin_def demo_lock_word_def InitializeSpinLock_def Let_def)
  then show ?thesis using spin_steps_refine_routine [OF c LF R] by auto
qed

theorem spin_mutual_exclusion_witness:
  "\<exists>u. spin_step\<^sup>*\<^sup>* demo_spin u \<and> {5, 6} \<subseteq> {l. 9 \<in> spin_inside l u} \<and> card (spin_inside 5 u) \<le> 1 \<and> card (spin_inside 6 u) \<le> 1"
proof -
  have free: "\<exists>L F. AcquireSpinLock 3 (demo_lock_word, cpu_view 3 9 s) = Some (L, F)" for s
    by (simp add: AcquireSpinLock_def demo_lock_word_def InitializeSpinLock_def Let_def)
  have c: "(3 :: u32) < MaxCPUs" "spc demo_spin 9 = SIdle" "Locks demo_spin l = demo_lock_word" for l by (simp_all add: demo_spin_def)
  obtain L F where LF: "AcquireSpinLock 3 (Locks demo_spin 5, cpu_view 3 9 demo_spin) = Some (L, F)"
    using free [of demo_spin] unfolding c by blast
  obtain u where u: "spin_step\<^sup>*\<^sup>* demo_spin u" "spc u 9 = SIdle" "Locks u 6 = demo_lock_word" "Holds u 9 5 \<noteq> None"
    using spin_acquire_run [OF c(1,2) LF] c by auto
  obtain M G where MG: "AcquireSpinLock 3 (Locks u 6, cpu_view 3 9 u) = Some (M, G)"
    using free [of u] unfolding u by blast
  obtain v where v: "spin_step\<^sup>*\<^sup>* u v" "Holds v 9 5 \<noteq> None" "Holds v 9 6 \<noteq> None"
    using spin_acquire_run [OF c(1) u(2) MG] u by auto
  have r: "spin_step\<^sup>*\<^sup>* demo_spin v" by (rule rtranclp_trans [OF u(1) v(1)])
  have "card (spin_inside l v) \<le> 1" for l by (rule conjunct1 [OF spin_mutual_exclusion [OF demo_spin_init r]])
  then show ?thesis using r v by (auto simp: spin_inside_def)
qed

text \<open>\<^verbatim>\<open>SavedFlags\<close> has one slot per CPU. When a CPU takes two free spin locks and releases them in
  the opposite order, it ends with the flags as \<^verbatim>\<open>cli\<close> left them, so interrupts stay disabled
  although they were enabled before the first acquisition.\<close>

theorem nested_spinlocks_lose_flags:
  assumes "AcquireSpinLock c (A, F) = Some (A1, F1)" "AcquireSpinLock c (B, F1) = Some (B1, F2)"
    "ReleaseSpinLock c (B1, F2) = (B2, F3)" "ReleaseSpinLock c (A1, F3) = (A2, F4)"
  shows "RFlags F4 c = cli (RFlags F c) \<and> \<not> interrupts_on (RFlags F4 c)"
  using assms by (auto simp: AcquireSpinLock_def ReleaseSpinLock_def Let_def split: if_splits)

theorem nested_spinlocks_lose_flags_witness:
  "\<exists>F4 :: CpuFlags. interrupts_on (RFlags (cpu_view 0 9 demo_spin) 0) \<and> \<not> interrupts_on (RFlags F4 0)"
proof -
  let ?L = demo_lock_word and ?F = "cpu_view 0 9 demo_spin"
  obtain A1 F1 where 1: "AcquireSpinLock 0 (?L, ?F) = Some (A1, F1)"
    by (simp add: AcquireSpinLock_def demo_lock_word_def InitializeSpinLock_def Let_def)
  obtain B1 F2 where 2: "AcquireSpinLock 0 (?L, F1) = Some (B1, F2)"
    by (simp add: AcquireSpinLock_def demo_lock_word_def InitializeSpinLock_def Let_def)
  obtain B2 F3 where 3: "ReleaseSpinLock 0 (B1, F2) = (B2, F3)" by force
  obtain A2 F4 where 4: "ReleaseSpinLock 0 (A1, F3) = (A2, F4)" by force
  have "interrupts_on (RFlags ?F 0)" by (simp add: cpu_view_def demo_spin_def interrupts_on_def)
  then show ?thesis using nested_spinlocks_lose_flags [OF 1 2 3 4] by blast
qed


definition demo_mutex :: Mutex where
  "demo_mutex = InitializeMutex ''demo'' \<lparr>Mutex_Lock = 9, Owner = 9, RecursionCount = 9, Mutex_Name = []\<rparr>"


text \<open>A mutex is recursive: after \<open>n + 1\<close> acquisitions by one CPU it takes exactly \<open>n + 1\<close> releases to
  unlock it, and the mutex is then free for every CPU.\<close>

theorem mutex_recursion:
  assumes "Mutex_Lock M = 0" "Owner M \<noteq> c" "Suc n < 2 ^ 32" "acquire_times (Suc n) c M = Some H" "j \<le> n"
  shows "Mutex_Lock ((ReleaseMutex c ^^ j) H) = 1 \<and> Owner ((ReleaseMutex c ^^ j) H) = c \<and>
         Mutex_Lock ((ReleaseMutex c ^^ Suc n) H) = 0 \<and> Owner ((ReleaseMutex c ^^ Suc n) H) = NoOwner"
proof -
  have H: "H = M\<lparr>Mutex_Lock := 1, Owner := c, RecursionCount := word_of_nat (Suc n)\<rparr>"
    using acquire_times_free [OF assms(1,2)] assms(4) by simp
  have held: "(ReleaseMutex c ^^ k) H = H\<lparr>RecursionCount := word_of_nat (Suc n - k)\<rparr>" if "k \<le> n" for k
    using release_times_held [of H c n k] that assms(3) by (simp add: H)
  have "(ReleaseMutex c ^^ Suc n) H = ReleaseMutex c (H\<lparr>RecursionCount := word_of_nat (Suc 0)\<rparr>)"
    using held [of n] by simp
  also have "\<dots> = H\<lparr>RecursionCount := 0, Owner := NoOwner, Mutex_Lock := 0\<rparr>"
    using ReleaseMutex_held [of "H\<lparr>RecursionCount := word_of_nat (Suc 0)\<rparr>" c 0] by (simp add: H)
  finally show ?thesis using held [OF assms(5)] by (simp add: H)
qed

theorem mutex_recursion_witness:
  "\<exists>H. acquire_times (Suc 2) 1 demo_mutex = Some H \<and> Mutex_Lock ((ReleaseMutex 1 ^^ 2) H) = 1 \<and>
       Mutex_Lock ((ReleaseMutex 1 ^^ Suc 2) H) = 0"
proof -
  have m: "Mutex_Lock demo_mutex = 0" "Owner demo_mutex \<noteq> 1" by (simp_all add: demo_mutex_def InitializeMutex_def)
  obtain H where H: "acquire_times (Suc 2) 1 demo_mutex = Some H" using acquire_times_free [OF m] by blast
  have "Suc 2 < 2 ^ 32" by simp
  from mutex_recursion [OF m this H order_refl] H show ?thesis by blast
qed

definition demo_sem :: sem_machine where
  "demo_sem = \<lparr>TheSem = InitializeSemaphore 2 ''demo'' \<lparr>Count = 0, WaitQueue = 9, QueueLock = demo_lock_word, Semaphore_Name = []\<rparr>,
     ppc = (\<lambda>_. POut)\<rparr>"

text \<open>C22: a semaphore initialised to \<open>N\<close> lets at most \<open>N\<close> CPUs inside in every interleaving of loads,
  exchanges and releases, and its counter is always exactly \<open>N\<close> less the number inside.\<close>

theorem semaphore_bound:
  assumes "sem_init N s" "sem_step\<^sup>*\<^sup>* s t"
  shows "card (sem_inside t) \<le> N \<and> sint (Count (TheSem t)) = int N - int (card (sem_inside t))"
  using sem.reachable_limit [OF assms(2,1)] sem.reachable_inv [OF assms(2,1)] by (auto simp: sem_inv_def)

theorem semaphore_bound_witness:
  "card (sem_inside (sem_goto 0 (PLoaded 2) demo_sem)) \<le> 2"
proof -
  have c: "Count (TheSem demo_sem) = 2" "ppc demo_sem = (\<lambda>_. POut)" by (simp_all add: demo_sem_def InitializeSemaphore_def)
  have i: "sem_init 2 demo_sem" by (simp add: sem_init_def c)
  have "sem_step demo_sem (sem_goto 0 (PLoaded (Count (TheSem demo_sem))) demo_sem)"
    by (rule p_load) (simp_all add: c)
  then have "sem_step\<^sup>*\<^sup>* demo_sem (sem_goto 0 (PLoaded 2) demo_sem)" unfolding c by (rule r_into_rtranclp)
  from semaphore_bound [OF i this] show ?thesis by (rule conjunct1)
qed

end
