(* ===== verification/VFS.thy ===== *)
theory VFS
  imports Sync "HOL-Library.Monad_Syntax"
begin

text \<open>
  The virtual file system switch, \<^verbatim>\<open>Kernel/VFS/VFS.c\<close>.

  The static variables of the file and the objects it allocates form the record \<open>vfs\<close>; a file
  system adds its own fields to it (\<open>'z\<close>). A \<^verbatim>\<open>Vnode*\<close>, \<^verbatim>\<open>Dentry*\<close>, \<^verbatim>\<open>File*\<close> or \<^verbatim>\<open>Superblock*\<close> is a
  number that indexes a store, 0 the null pointer; \<open>kmalloc\<close> hands out fresh numbers until the
  budget \<open>HeapLeft\<close> is used up and then returns null, which is how the source sees \<^verbatim>\<open>KMalloc\<close>. A
  \<^verbatim>\<open>char *\<close> argument that the source compares with null is a \<open>string option\<close>; an output buffer is
  a returned string, with a \<open>bool\<close> argument where its pointer is compared with null. The function
  tables of the file systems (\<^verbatim>\<open>VnodeOps\<close>, \<^verbatim>\<open>SuperOps\<close>, the \<^verbatim>\<open>Mount\<close> hooks) are the argument \<open>T\<close>.

  Every entry point takes \<^verbatim>\<open>VfsLock\<close>, and not every return releases it; the mutex is part of the
  state. \<open>None\<close> is a call that does not come back: it spins on the mutex held by another CPU, or
  follows a null pointer.
\<close>

section \<open>Data\<close>

datatype VnodeType = VNodeNONE | VNodeFILE | VNodeDIR | VNodeDEV | VNodeSYM | VNodeFIFO | VNodeSOCK

record VfsPerm =
  Mode :: int
  Uid :: int
  Gid :: int

record VfsTimespec =
  Sec :: int
  Nsec :: int

record VfsStat =
  StIno :: int
  StSize :: int
  StBlocks :: int
  StBlkSize :: int
  StNlink :: int
  StRdev :: int
  StDev :: int
  StFlags :: int
  StType :: VnodeType
  StPerm :: VfsPerm
  StAtime :: VfsTimespec
  StMtime :: VfsTimespec
  StCtime :: VfsTimespec

record VfsStatFs =
  TypeId :: int
  Bsize :: int
  Blocks :: int
  Bfree :: int
  Bavail :: int
  FsFiles :: int
  Ffree :: int
  Namelen :: int
  StatFsFlags :: int

record VfsDirEnt =
  DeName :: string
  DeType :: VnodeType
  DeIno :: int

record Vnode =
  vType :: VnodeType
  vOps :: nat
  vSb :: nat
  vPriv :: nat
  vRefcnt :: int

record Dentry =
  dName :: string
  dParent :: nat
  dNode :: nat
  dFlags :: u64

record File =
  fNode :: nat
  fOffset :: int
  fFlags :: int
  fRefcnt :: int
  fPriv :: nat

record Superblock =
  sbType :: nat
  sbDev :: nat
  sbFlags :: int
  sbRoot :: nat
  sbOps :: nat
  sbPriv :: nat

record FsType =
  FsName :: "string option"
  FsMount :: nat
  FsPriv :: nat

record MountEntry =
  mSb :: nat
  mPath :: string

record heap =
  NextPtr :: nat
  HeapLeft :: nat

record vfs = heap +
  CurCpu :: u32
  VfsLock :: Mutex
  FsReg :: "FsType list"
  Mounts :: "MountEntry list"
  RootNode :: nat
  RootDe :: nat
  Umask :: int
  MaxName :: int
  MaxPath :: int
  DirCacheLimit :: int
  FileCacheLimit :: int
  IoBlockSize :: int
  DefaultFs :: string
  Vnodes :: "nat \<Rightarrow> Vnode"
  Dentries :: "nat \<Rightarrow> Dentry"
  Files :: "nat \<Rightarrow> File"
  Superblocks :: "nat \<Rightarrow> Superblock"

text \<open>The tables of function pointers; a missing entry is a null pointer.\<close>

record 's VnodeOps =
  op_Open :: "(nat \<Rightarrow> nat \<Rightarrow> 's \<Rightarrow> int \<times> 's) option"
  op_Close :: "(nat \<Rightarrow> 's \<Rightarrow> int \<times> 's) option"
  op_Read :: "(nat \<Rightarrow> int \<Rightarrow> 's \<Rightarrow> (int \<times> string) \<times> 's) option"
  op_Write :: "(nat \<Rightarrow> string \<Rightarrow> int \<Rightarrow> 's \<Rightarrow> int \<times> 's) option"
  op_Lseek :: "(nat \<Rightarrow> int \<Rightarrow> int \<Rightarrow> 's \<Rightarrow> int \<times> 's) option"
  op_Ioctl :: "(nat \<Rightarrow> u64 \<Rightarrow> u64 \<Rightarrow> 's \<Rightarrow> int \<times> 's) option"
  op_Stat :: "(nat \<Rightarrow> 's \<Rightarrow> (int \<times> VfsStat option) \<times> 's) option"
  op_Readdir :: "(nat \<Rightarrow> int \<Rightarrow> 's \<Rightarrow> (int \<times> VfsDirEnt list) \<times> 's) option"
  op_Lookup :: "(nat \<Rightarrow> string \<Rightarrow> 's \<Rightarrow> nat \<times> 's) option"
  op_Create :: "(nat \<Rightarrow> string \<Rightarrow> int \<Rightarrow> VfsPerm \<Rightarrow> 's \<Rightarrow> int \<times> 's) option"
  op_Unlink :: "(nat \<Rightarrow> string \<Rightarrow> 's \<Rightarrow> int \<times> 's) option"
  op_Mkdir :: "(nat \<Rightarrow> string \<Rightarrow> VfsPerm \<Rightarrow> 's \<Rightarrow> int \<times> 's) option"
  op_Rmdir :: "(nat \<Rightarrow> string \<Rightarrow> 's \<Rightarrow> int \<times> 's) option"
  op_Symlink :: "(nat \<Rightarrow> string \<Rightarrow> string \<Rightarrow> VfsPerm \<Rightarrow> 's \<Rightarrow> int \<times> 's) option"
  op_Readlink :: "(nat \<Rightarrow> int \<Rightarrow> 's \<Rightarrow> (int \<times> string) \<times> 's) option"
  op_Link :: "(nat \<Rightarrow> nat \<Rightarrow> string \<Rightarrow> 's \<Rightarrow> int \<times> 's) option"
  op_Rename :: "(nat \<Rightarrow> string \<Rightarrow> nat \<Rightarrow> string \<Rightarrow> int \<Rightarrow> 's \<Rightarrow> int \<times> 's) option"
  op_Chmod :: "(nat \<Rightarrow> int \<Rightarrow> 's \<Rightarrow> int \<times> 's) option"
  op_Chown :: "(nat \<Rightarrow> int \<Rightarrow> int \<Rightarrow> 's \<Rightarrow> int \<times> 's) option"
  op_Truncate :: "(nat \<Rightarrow> int \<Rightarrow> 's \<Rightarrow> int \<times> 's) option"
  op_Sync :: "(nat \<Rightarrow> 's \<Rightarrow> int \<times> 's) option"
  op_Map :: "(nat \<Rightarrow> int \<Rightarrow> int \<Rightarrow> 's \<Rightarrow> (int \<times> nat) \<times> 's) option"
  op_Unmap :: "(nat \<Rightarrow> nat \<Rightarrow> int \<Rightarrow> 's \<Rightarrow> int \<times> 's) option"

record 's SuperOps =
  sop_Sync :: "(nat \<Rightarrow> 's \<Rightarrow> int \<times> 's) option"
  sop_StatFs :: "(nat \<Rightarrow> 's \<Rightarrow> (int \<times> VfsStatFs option) \<times> 's) option"
  sop_Release :: "(nat \<Rightarrow> 's \<Rightarrow> 's) option"
  sop_Umount :: "(nat \<Rightarrow> 's \<Rightarrow> int \<times> 's) option"

record 's tables =
  VOps :: "nat \<Rightarrow> 's VnodeOps"
  SOps :: "nat \<Rightarrow> 's SuperOps"
  MountHooks :: "nat \<Rightarrow> string option \<Rightarrow> string option \<Rightarrow> 's \<Rightarrow> nat \<times> 's"

definition kmalloc :: "'z heap_scheme \<Rightarrow> nat \<times> 'z heap_scheme" where
  "kmalloc s = (if HeapLeft s = 0 then (0, s)
     else (NextPtr s, s\<lparr>NextPtr := NextPtr s + 1, HeapLeft := HeapLeft s - 1\<rparr>))"

definition kfree :: "nat \<Rightarrow> 'z heap_scheme \<Rightarrow> 'z heap_scheme" where
  "kfree p s = (if p = 0 then s else s\<lparr>HeapLeft := HeapLeft s + 1\<rparr>)"

definition vfs_acquire :: "'z vfs_scheme \<Rightarrow> 'z vfs_scheme option" where
  "vfs_acquire s = (case AcquireMutex (CurCpu s) (VfsLock s) of
     None \<Rightarrow> None | Some m \<Rightarrow> Some (s\<lparr>VfsLock := m\<rparr>))"

definition vfs_release :: "'z vfs_scheme \<Rightarrow> 'z vfs_scheme" where
  "vfs_release s = s\<lparr>VfsLock := ReleaseMutex (CurCpu s) (VfsLock s)\<rparr>"

text \<open>\<^verbatim>\<open>n->Ops\<close> when neither pointer is null.\<close>

definition node_ops :: "'z vfs_scheme tables \<Rightarrow> nat \<Rightarrow> 'z vfs_scheme \<Rightarrow> 'z vfs_scheme VnodeOps option" where
  "node_ops T n s = (if n = 0 \<or> vOps (Vnodes s n) = 0 then None else Some (VOps T (vOps (Vnodes s n))))"

section \<open>Paths\<close>

definition is_sep :: "char \<Rightarrow> bool" where
  "is_sep c = (c = CHR ''/'')"

definition skip_sep :: "string \<Rightarrow> string" where
  "skip_sep p = dropWhile is_sep p"

text \<open>The component copied into a buffer of \<open>cap\<close> bytes, cut off where the buffer ends.\<close>

definition next_comp :: "nat \<Rightarrow> string \<Rightarrow> string" where
  "next_comp cap p = take (cap - 1) (takeWhile (\<lambda>c. \<not> is_sep c) p)"

definition after_comp :: "string \<Rightarrow> string" where
  "after_comp p = skip_sep (dropWhile (\<lambda>c. \<not> is_sep c) p)"

definition alloc_dentry :: "string \<Rightarrow> nat \<Rightarrow> nat \<Rightarrow> 'z vfs_scheme \<Rightarrow> nat \<times> 'z vfs_scheme" where
  "alloc_dentry Name Parent Node s =
     (let (De, s) = kmalloc s in
      if De = 0 then (0, s)
      else (De, s\<lparr>Dentries := (Dentries s)(De := \<lparr>dName = Name, dParent = Parent, dNode = Node, dFlags = 0\<rparr>)\<rparr>))"

lemma after_comp_shorter: "p \<noteq> [] \<Longrightarrow> length (after_comp p) < length p \<or> is_sep (hd p)"
proof (cases p)
  case (Cons c q)
  have "length (dropWhile is_sep (dropWhile (\<lambda>c. \<not> is_sep c) q)) \<le> length q"
    by (meson le_trans length_dropWhile_le)
  then show ?thesis using Cons by (auto simp: after_comp_def skip_sep_def)
qed simp

lemma next_comp_nonempty: "next_comp 256 p \<noteq> [] \<Longrightarrow> length (after_comp p) < length p"
  using after_comp_shorter [of p] by (cases p) (auto simp: next_comp_def)

text \<open>\<^verbatim>\<open>__walk__\<close> from its loop on: the current vnode, the dentry reached so far and the rest of the path.\<close>

function walk_loop ::
  "'z vfs_scheme tables \<Rightarrow> nat \<Rightarrow> nat \<Rightarrow> string \<Rightarrow> 'z vfs_scheme \<Rightarrow> nat \<times> 'z vfs_scheme"
where
  "walk_loop T Cur Parent Path s =
     (if Path = [] then (Parent, s)
      else
        (let Comp = next_comp 256 Path in
         if Comp = [] then (Parent, s)
         else
           (case Option.bind (node_ops T Cur s) op_Lookup of
              None \<Rightarrow> (0, s)
            | Some lookup \<Rightarrow>
                (let (Next, s) = lookup Cur Comp s in
                 if Next = 0 then (0, s)
                 else
                   (let (Dup, s) = kmalloc s in
                    if Dup = 0 then (0, s)
                    else
                      (let (De, s) = alloc_dentry Comp Parent Next s in
                       if De = 0 then (0, s)
                       else walk_loop T Next De (after_comp Path) s))))))"
  by pat_completeness auto
termination
  by (relation "measure (\<lambda>(_, _, _, p, _). length p)") (auto intro: next_comp_nonempty)

definition walk ::
  "'z vfs_scheme tables \<Rightarrow> nat \<Rightarrow> nat \<Rightarrow> string option \<Rightarrow> 'z vfs_scheme \<Rightarrow> nat \<times> 'z vfs_scheme"
where
  "walk T StartNode StartDe Path s =
     (case Path of
        None \<Rightarrow> (0, s)
      | Some p \<Rightarrow> if StartNode = 0 then (0, s) else walk_loop T StartNode StartDe (skip_sep p) s)"

text \<open>The longest mount path that is a prefix of the path, the first of equal length; the result is an
  index into the mount table.\<close>

definition has_prefix :: "string \<Rightarrow> string \<Rightarrow> bool" where
  "has_prefix path mp = (take (length mp) path = mp)"

fun find_mount_loop :: "string \<Rightarrow> MountEntry list \<Rightarrow> nat \<Rightarrow> int \<Rightarrow> int \<Rightarrow> int" where
  "find_mount_loop path [] I Best BestLen = Best"
| "find_mount_loop path (M # Ms) I Best BestLen =
     (let Ml = int (length (mPath M)) in
      if Ml \<le> 0 then find_mount_loop path Ms (I + 1) Best BestLen
      else if has_prefix path (mPath M) \<and> Ml > BestLen
      then find_mount_loop path Ms (I + 1) (int I) Ml
      else find_mount_loop path Ms (I + 1) Best BestLen)"

definition find_mount :: "string \<Rightarrow> 'z vfs_scheme \<Rightarrow> nat option" where
  "find_mount path s =
     (let Best = find_mount_loop path (Mounts s) 0 (-1) (-1) in
      if Best \<ge> 0 then Some (nat Best) else None)"

declare walk_loop.simps [simp del]

section \<open>Start-up, file-system types and mounts\<close>

definition VfsInit :: "'z vfs_scheme \<Rightarrow> (int \<times> 'z vfs_scheme) option" where
  "VfsInit s = do {
     s \<leftarrow> vfs_acquire s;
     let s = s\<lparr>VfsLock := InitializeMutex ''vfs-central'' (VfsLock s), FsReg := [], Mounts := [],
               RootNode := 0, RootDe := 0, Umask := 0, MaxName := 256, MaxPath := 1024,
               DirCacheLimit := 0, FileCacheLimit := 0, IoBlockSize := 0, DefaultFs := []\<rparr>;
     Some (0, vfs_release s) }"

text \<open>\<^verbatim>\<open>Umount\<close> and \<^verbatim>\<open>Release\<close> of one superblock.\<close>

definition drop_super :: "'z vfs_scheme tables \<Rightarrow> nat \<Rightarrow> 'z vfs_scheme \<Rightarrow> 'z vfs_scheme" where
  "drop_super T Sb s =
     (let s = (if Sb \<noteq> 0 \<and> sbOps (Superblocks s Sb) \<noteq> 0
               then (case sop_Umount (SOps T (sbOps (Superblocks s Sb))) of
                       None \<Rightarrow> s | Some f \<Rightarrow> snd (f Sb s))
               else s)
      in if Sb \<noteq> 0 \<and> sbOps (Superblocks s Sb) \<noteq> 0
         then (case sop_Release (SOps T (sbOps (Superblocks s Sb))) of
                 None \<Rightarrow> s | Some f \<Rightarrow> f Sb s)
         else s)"

definition VfsShutdown :: "'z vfs_scheme tables \<Rightarrow> 'z vfs_scheme \<Rightarrow> (int \<times> 'z vfs_scheme) option" where
  "VfsShutdown T s = do {
     s \<leftarrow> vfs_acquire s;
     let s = fold (\<lambda>M. drop_super T (mSb M)) (Mounts s) s;
     Some (0, vfs_release (s\<lparr>Mounts := [], FsReg := [], RootNode := 0, RootDe := 0\<rparr>)) }"

definition VfsRegisterFs :: "FsType option \<Rightarrow> 'z vfs_scheme \<Rightarrow> (int \<times> 'z vfs_scheme) option" where
  "VfsRegisterFs Fs s = do {
     s \<leftarrow> vfs_acquire s;
     case Fs of
       None \<Rightarrow> Some (-1, s)
     | Some fs \<Rightarrow>
         if FsName fs = None \<or> FsMount fs = 0 then Some (-1, s)
         else if 32 \<le> length (FsReg s) then Some (-1, s)
         else if list_ex (\<lambda>f. FsName f = FsName fs) (FsReg s) then Some (-1, s)
         else Some (0, vfs_release (s\<lparr>FsReg := FsReg s @ [fs]\<rparr>)) }"

text \<open>The first entry that satisfies a test is cut out and the later ones move down.\<close>

fun cut_first :: "('a \<Rightarrow> bool) \<Rightarrow> 'a list \<Rightarrow> 'a list" where
  "cut_first P [] = []"
| "cut_first P (x # xs) = (if P x then xs else x # cut_first P xs)"

definition VfsUnregisterFs :: "string option \<Rightarrow> 'z vfs_scheme \<Rightarrow> (int \<times> 'z vfs_scheme) option" where
  "VfsUnregisterFs Name s = do {
     s \<leftarrow> vfs_acquire s;
     case Name of
       None \<Rightarrow> Some (-1, s)
     | Some n \<Rightarrow>
         if list_ex (\<lambda>f. FsName f = Some n) (FsReg s)
         then Some (0, s\<lparr>FsReg := cut_first (\<lambda>f. FsName f = Some n) (FsReg s)\<rparr>)
         else Some (-1, vfs_release s) }"

definition VfsFindFs :: "string option \<Rightarrow> 'z vfs_scheme \<Rightarrow> FsType option" where
  "VfsFindFs Name s =
     (case Name of None \<Rightarrow> None | Some n \<Rightarrow> find (\<lambda>f. FsName f = Some n) (FsReg s))"

definition VfsListFs :: "bool \<Rightarrow> int \<Rightarrow> 'z vfs_scheme \<Rightarrow> ((int \<times> string option list) \<times> 'z vfs_scheme) option" where
  "VfsListFs Out Cap s = do {
     s \<leftarrow> vfs_acquire s;
     if \<not> Out \<or> Cap \<le> 0 then Some ((-1, []), s)
     else (let N = min (int (length (FsReg s))) Cap
           in Some ((N, map FsName (take (nat N) (FsReg s))), vfs_release s)) }"

definition VfsMount ::
  "'z vfs_scheme tables \<Rightarrow> string option \<Rightarrow> string option \<Rightarrow> string option \<Rightarrow> string option \<Rightarrow>
   'z vfs_scheme \<Rightarrow> (nat \<times> 'z vfs_scheme) option"
where
  "VfsMount T Dev Path Type Opts s = do {
     s \<leftarrow> vfs_acquire s;
     case VfsFindFs Type s of
       None \<Rightarrow> Some (0, s)
     | Some Fs \<Rightarrow>
         (case Path of
            None \<Rightarrow> Some (0, s)
          | Some p \<Rightarrow>
              if p = [] then Some (0, s)
              else if int (length p) \<ge> MaxPath s then Some (0, s)
              else if 64 \<le> length (Mounts s) then Some (0, s)
              else
                (let (Sb, s) = MountHooks T (FsMount Fs) Dev Opts s in
                 if Sb = 0 \<or> sbRoot (Superblocks s Sb) = 0 then Some (0, s)
                 else
                   (let s = s\<lparr>Mounts := Mounts s @ [\<lparr>mSb = Sb, mPath = p\<rparr>]\<rparr>;
                        s = (if RootNode s = 0 \<and> p = ''/''
                             then (let s = s\<lparr>RootNode := sbRoot (Superblocks s Sb)\<rparr>;
                                       (De, s) = alloc_dentry ''/'' 0 (RootNode s) s
                                   in s\<lparr>RootDe := De\<rparr>)
                             else s)
                    in Some (Sb, vfs_release s)))) }"

definition VfsUnmount :: "'z vfs_scheme tables \<Rightarrow> string option \<Rightarrow> 'z vfs_scheme \<Rightarrow> (int \<times> 'z vfs_scheme) option" where
  "VfsUnmount T Path s = do {
     s \<leftarrow> vfs_acquire s;
     case Path of
       None \<Rightarrow> Some (-1, s)
     | Some p \<Rightarrow>
         (case find (\<lambda>M. mPath M = p) (Mounts s) of
            None \<Rightarrow> Some (-1, vfs_release s)
          | Some M \<Rightarrow>
              (let s = drop_super T (mSb M) s;
                   s = s\<lparr>Mounts := cut_first (\<lambda>M. mPath M = p) (Mounts s)\<rparr>;
                   s = (if p = ''/'' then s\<lparr>RootNode := 0, RootDe := 0\<rparr> else s)
               in Some (0, s))) }"

section \<open>Resolution\<close>

definition VfsResolve :: "'z vfs_scheme tables \<Rightarrow> string option \<Rightarrow> 'z vfs_scheme \<Rightarrow> (nat \<times> 'z vfs_scheme) option" where
  "VfsResolve T Path s = do {
     s \<leftarrow> vfs_acquire s;
     case Path of
       None \<Rightarrow> Some (0, s)
     | Some p \<Rightarrow>
         if RootNode s = 0 then Some (0, s)
         else if p = ''/'' then Some (RootDe s, s)
         else
           (case find_mount p s of
              None \<Rightarrow> Some (walk T (RootNode s) (RootDe s) Path s)
            | Some i \<Rightarrow>
                (let Mp = mPath (Mounts s ! i); Sb = mSb (Mounts s ! i);
                     Root = sbRoot (Superblocks s Sb);
                     Tail = drop (length Mp) p
                 in if Tail = [] then Some (alloc_dentry Mp (RootDe s) Root s)
                    else if skip_sep Tail = [] then Some (alloc_dentry Mp (RootDe s) Root s)
                    else Some (walk T Root (RootDe s) (Some (skip_sep Tail)) (vfs_release s)))) }"

definition VfsResolveAt ::
  "'z vfs_scheme tables \<Rightarrow> nat \<Rightarrow> string option \<Rightarrow> 'z vfs_scheme \<Rightarrow> (nat \<times> 'z vfs_scheme) option"
where
  "VfsResolveAt T Base Rel s = do {
     s \<leftarrow> vfs_acquire s;
     if Base = 0 \<or> dNode (Dentries s Base) = 0 then Some (0, s)
     else
       (case Rel of
          None \<Rightarrow> Some (0, s)
        | Some r \<Rightarrow>
            if r = [] then Some (Base, s)
            else if is_sep (hd r) then VfsResolve T Rel s
            else Some (walk T (dNode (Dentries s Base)) Base Rel (vfs_release s))) }"

definition VfsLookup ::
  "'z vfs_scheme tables \<Rightarrow> nat \<Rightarrow> string option \<Rightarrow> 'z vfs_scheme \<Rightarrow> (nat \<times> 'z vfs_scheme) option"
where
  "VfsLookup T Base Name s = do {
     s \<leftarrow> vfs_acquire s;
     case Name of
       None \<Rightarrow> Some (0, s)
     | Some n \<Rightarrow>
         if Base = 0 \<or> dNode (Dentries s Base) = 0 then Some (0, s)
         else
           (case Option.bind (node_ops T (dNode (Dentries s Base)) s) op_Lookup of
              None \<Rightarrow> Some (0, s)
            | Some lookup \<Rightarrow> Some (lookup (dNode (Dentries s Base)) n (vfs_release s))) }"

text \<open>\<^verbatim>\<open>VfsSwitchRoot\<close>, the three routines that only edit the mount table, and \<^verbatim>\<open>VfsRealpath\<close>.\<close>

definition VfsSwitchRoot :: "'z vfs_scheme tables \<Rightarrow> string option \<Rightarrow> 'z vfs_scheme \<Rightarrow> (int \<times> 'z vfs_scheme) option" where
  "VfsSwitchRoot T NewRoot s = do {
     s \<leftarrow> vfs_acquire s;
     if NewRoot = None then Some (-1, s)
     else do {
       (De, s) \<leftarrow> VfsResolve T NewRoot s;
       if De = 0 \<or> dNode (Dentries s De) = 0 then Some (-1, s)
       else Some (0, vfs_release (s\<lparr>RootNode := dNode (Dentries s De), RootDe := De\<rparr>)) } }"

definition VfsBindMount :: "string option \<Rightarrow> string option \<Rightarrow> 'z vfs_scheme \<Rightarrow> (int \<times> 'z vfs_scheme) option" where
  "VfsBindMount Src Dst s = do {
     s \<leftarrow> vfs_acquire s;
     case (Src, Dst) of
       (Some src, Some dst) \<Rightarrow>
         (case find_mount src s of
            None \<Rightarrow> Some (-1, s)
          | Some i \<Rightarrow>
              if mSb (Mounts s ! i) = 0 then Some (-1, s)
              else if 64 \<le> length (Mounts s) then Some (-1, s)
              else if dst = [] \<or> int (length dst) \<ge> MaxPath s then Some (-1, s)
              else Some (0, vfs_release (s\<lparr>Mounts := Mounts s @ [\<lparr>mSb = mSb (Mounts s ! i), mPath = dst\<rparr>]\<rparr>)))
     | _ \<Rightarrow> Some (-1, s) }"

definition VfsMoveMount :: "string option \<Rightarrow> string option \<Rightarrow> 'z vfs_scheme \<Rightarrow> (int \<times> 'z vfs_scheme) option" where
  "VfsMoveMount Src Dst s = do {
     s \<leftarrow> vfs_acquire s;
     case (Src, Dst) of
       (Some src, Some dst) \<Rightarrow>
         (case find_mount src s of
            None \<Rightarrow> Some (-1, s)
          | Some i \<Rightarrow>
              if mSb (Mounts s ! i) = 0 then Some (-1, s)
              else if dst = [] \<or> int (length dst) \<ge> MaxPath s then Some (-1, s)
              else Some (0, vfs_release (s\<lparr>Mounts := (Mounts s)[i := (Mounts s ! i)\<lparr>mPath := dst\<rparr>]\<rparr>)))
     | _ \<Rightarrow> Some (-1, s) }"

text \<open>With a null path and a non-empty mount path the comparison follows the null pointer.\<close>

definition VfsRemount :: "string option \<Rightarrow> 'z vfs_scheme \<Rightarrow> (int \<times> 'z vfs_scheme) option" where
  "VfsRemount Path s = do {
     s \<leftarrow> vfs_acquire s;
     case Path of
       None \<Rightarrow> if list_ex (\<lambda>M. mPath M \<noteq> []) (Mounts s) then None else Some (-1, s)
     | Some p \<Rightarrow>
         (case find_mount p s of
            None \<Rightarrow> Some (-1, s)
          | Some i \<Rightarrow> if mSb (Mounts s ! i) = 0 then Some (-1, s) else Some (0, vfs_release s)) }"

text \<open>\<^verbatim>\<open>VfsMkpath\<close>: every missing component is made with the current vnode's \<^verbatim>\<open>Mkdir\<close>. The copy of the name and
  the dentry are not checked; a failed copy is written through the null pointer.\<close>

function mkpath_loop ::
  "'z vfs_scheme tables \<Rightarrow> int \<Rightarrow> nat \<Rightarrow> nat \<Rightarrow> string \<Rightarrow> 'z vfs_scheme \<Rightarrow> (int \<times> 'z vfs_scheme) option"
where
  "mkpath_loop T Perm Cur De p s =
     (if p = [] then Some (0, vfs_release s)
      else
        (let Comp = next_comp 256 p in
         if Comp = [] then Some (0, vfs_release s)
         else if Cur = 0 then None
         else
           (case (case node_ops T Cur s of
                    None \<Rightarrow> Some (0, s)
                  | Some ops \<Rightarrow> (case op_Lookup ops of None \<Rightarrow> None | Some lookup \<Rightarrow> Some (lookup Cur Comp s))) of
              None \<Rightarrow> None
            | Some (Next, s) \<Rightarrow>
                (case (if Next \<noteq> 0 then Some (Next, s)
                       else
                         (case Option.bind (node_ops T Cur s) op_Mkdir of
                            None \<Rightarrow> Some (0, s)
                          | Some mkdir \<Rightarrow>
                              (let (r, s) = mkdir Cur Comp \<lparr>Mode = Perm, Uid = 0, Gid = 0\<rparr> s in
                               if r \<noteq> 0 then Some (0, s)
                               else
                                 (case Option.bind (node_ops T Cur s) op_Lookup of
                                    None \<Rightarrow> None
                                  | Some lookup \<Rightarrow> Some (lookup Cur Comp s))))) of
                   None \<Rightarrow> None
                 | Some (Next, s) \<Rightarrow>
                     if Next = 0 then Some (-1, s)
                     else
                       (let (Dup, s) = kmalloc s in
                        if Dup = 0 then None
                        else
                          (let (De, s) = alloc_dentry Comp De Next s
                           in mkpath_loop T Perm Next De (after_comp p) s))))))"
  by pat_completeness auto
termination
  by (relation "measure (\<lambda>(_, _, _, _, p, _). length p)") (auto intro: next_comp_nonempty)

definition VfsMkpath :: "'z vfs_scheme tables \<Rightarrow> string option \<Rightarrow> int \<Rightarrow> 'z vfs_scheme \<Rightarrow> (int \<times> 'z vfs_scheme) option" where
  "VfsMkpath T Path Perm s = do {
     s \<leftarrow> vfs_acquire s;
     case Path of
       None \<Rightarrow> Some (-1, s)
     | Some p \<Rightarrow> mkpath_loop T Perm (RootNode s) (RootDe s) (skip_sep p) s }"

definition VfsRealpath :: "string option \<Rightarrow> bool \<Rightarrow> int \<Rightarrow> 'z vfs_scheme \<Rightarrow> ((int \<times> string option) \<times> 'z vfs_scheme) option" where
  "VfsRealpath Path Buf Len s = do {
     s \<leftarrow> vfs_acquire s;
     case Path of
       None \<Rightarrow> Some ((-1, None), s)
     | Some p \<Rightarrow>
         if \<not> Buf \<or> Len \<le> 0 then Some ((-1, None), s)
         else if int (length p) \<ge> Len then Some ((-1, None), s)
         else Some ((0, Some p), vfs_release s) }"

section \<open>Files\<close>

text \<open>The part that \<^verbatim>\<open>VfsOpen\<close> and \<^verbatim>\<open>VfsOpenAt\<close> share, once the dentry is known.\<close>

definition open_dentry :: "'z vfs_scheme tables \<Rightarrow> nat \<Rightarrow> int \<Rightarrow> 'z vfs_scheme \<Rightarrow> nat \<times> 'z vfs_scheme" where
  "open_dentry T De Flags s =
     (if De = 0 \<or> dNode (Dentries s De) = 0 then (0, s)
      else
        (let Node = dNode (Dentries s De) in
         case Option.bind (node_ops T Node s) op_Open of
           None \<Rightarrow> (0, s)
         | Some open_op \<Rightarrow>
             (let (F, s) = kmalloc s in
              if F = 0 then (0, s)
              else
                (let s = s\<lparr>Files := (Files s)(F := \<lparr>fNode = Node, fOffset = 0, fFlags = Flags, fRefcnt = 1, fPriv = 0\<rparr>)\<rparr>;
                     (r, s) = open_op Node F s
                 in if r \<noteq> 0 then (0, kfree F s) else (F, vfs_release s)))))"

definition VfsOpen :: "'z vfs_scheme tables \<Rightarrow> string option \<Rightarrow> int \<Rightarrow> 'z vfs_scheme \<Rightarrow> (nat \<times> 'z vfs_scheme) option" where
  "VfsOpen T Path Flags s = do {
     s \<leftarrow> vfs_acquire s;
     (De, s) \<leftarrow> VfsResolve T Path s;
     Some (open_dentry T De Flags s) }"

definition VfsOpenAt ::
  "'z vfs_scheme tables \<Rightarrow> nat \<Rightarrow> string option \<Rightarrow> int \<Rightarrow> 'z vfs_scheme \<Rightarrow> (nat \<times> 'z vfs_scheme) option"
where
  "VfsOpenAt T Base Rel Flags s = do {
     s \<leftarrow> vfs_acquire s;
     (De, s) \<leftarrow> VfsResolveAt T Base Rel s;
     Some (open_dentry T De Flags s) }"

definition VfsClose :: "'z vfs_scheme tables \<Rightarrow> nat \<Rightarrow> 'z vfs_scheme \<Rightarrow> (int \<times> 'z vfs_scheme) option" where
  "VfsClose T F s = do {
     s \<leftarrow> vfs_acquire s;
     if F = 0 then Some (-1, s)
     else
       (let s = (case Option.bind (node_ops T (fNode (Files s F)) s) op_Close of
                   None \<Rightarrow> s | Some close \<Rightarrow> snd (close F s))
        in Some (0, vfs_release (kfree F s))) }"

definition advance :: "nat \<Rightarrow> int \<Rightarrow> 'z vfs_scheme \<Rightarrow> 'z vfs_scheme" where
  "advance F n s = (if n > 0 then s\<lparr>Files := (Files s)(F := (Files s F)\<lparr>fOffset := fOffset (Files s F) + n\<rparr>)\<rparr> else s)"

definition VfsRead :: "'z vfs_scheme tables \<Rightarrow> nat \<Rightarrow> bool \<Rightarrow> int \<Rightarrow> 'z vfs_scheme \<Rightarrow> ((int \<times> string) \<times> 'z vfs_scheme) option" where
  "VfsRead T F Buf Len s = do {
     s \<leftarrow> vfs_acquire s;
     if F = 0 \<or> \<not> Buf \<or> Len \<le> 0 then Some ((-1, []), s)
     else
       (case Option.bind (node_ops T (fNode (Files s F)) s) op_Read of
          None \<Rightarrow> Some ((-1, []), s)
        | Some read \<Rightarrow>
            (let ((Got, data), s) = read F Len s
             in Some ((Got, data), vfs_release (advance F Got s)))) }"

definition VfsWrite :: "'z vfs_scheme tables \<Rightarrow> nat \<Rightarrow> string option \<Rightarrow> int \<Rightarrow> 'z vfs_scheme \<Rightarrow> (int \<times> 'z vfs_scheme) option" where
  "VfsWrite T F Buf Len s = do {
     s \<leftarrow> vfs_acquire s;
     case Buf of
       None \<Rightarrow> Some (-1, s)
     | Some data \<Rightarrow>
         if F = 0 \<or> Len \<le> 0 then Some (-1, s)
         else
           (case Option.bind (node_ops T (fNode (Files s F)) s) op_Write of
              None \<Rightarrow> Some (-1, s)
            | Some write \<Rightarrow>
                (let (Put, s) = write F data Len s
                 in Some (Put, vfs_release (advance F Put s)))) }"

definition VfsLseek :: "'z vfs_scheme tables \<Rightarrow> nat \<Rightarrow> int \<Rightarrow> int \<Rightarrow> 'z vfs_scheme \<Rightarrow> (int \<times> 'z vfs_scheme) option" where
  "VfsLseek T F Off Whence s = do {
     s \<leftarrow> vfs_acquire s;
     if F = 0 then Some (-1, s)
     else
       (case Option.bind (node_ops T (fNode (Files s F)) s) op_Lseek of
          None \<Rightarrow> Some (-1, s)
        | Some seek \<Rightarrow>
            (let (New, s) = seek F Off Whence s;
                 s = (if New \<ge> 0 then s\<lparr>Files := (Files s)(F := (Files s F)\<lparr>fOffset := New\<rparr>)\<rparr> else s)
             in Some (New, vfs_release s))) }"

definition VfsIoctl :: "'z vfs_scheme tables \<Rightarrow> nat \<Rightarrow> u64 \<Rightarrow> u64 \<Rightarrow> 'z vfs_scheme \<Rightarrow> (int \<times> 'z vfs_scheme) option" where
  "VfsIoctl T F Cmd Arg s = do {
     s \<leftarrow> vfs_acquire s;
     if F = 0 then Some (-1, s)
     else
       (case Option.bind (node_ops T (fNode (Files s F)) s) op_Ioctl of
          None \<Rightarrow> Some (-1, s)
        | Some ioctl \<Rightarrow> Some (ioctl F Cmd Arg (vfs_release s))) }"

definition VfsFsync :: "'z vfs_scheme tables \<Rightarrow> nat \<Rightarrow> 'z vfs_scheme \<Rightarrow> (int \<times> 'z vfs_scheme) option" where
  "VfsFsync T F s = do {
     s \<leftarrow> vfs_acquire s;
     if F = 0 then Some (-1, s)
     else
       (case node_ops T (fNode (Files s F)) s of
          None \<Rightarrow> Some (-1, s)
        | Some ops \<Rightarrow>
            (case op_Sync ops of
               None \<Rightarrow> Some (0, s)
             | Some sync \<Rightarrow> Some (sync (fNode (Files s F)) (vfs_release s)))) }"

text \<open>\<^verbatim>\<open>Stat\<close> of a vnode, as \<^verbatim>\<open>VfsFstats\<close>, \<^verbatim>\<open>VfsStats\<close> and \<^verbatim>\<open>VnodeGetAttr\<close> call it.\<close>

definition stat_node ::
  "'z vfs_scheme tables \<Rightarrow> nat \<Rightarrow> 'z vfs_scheme \<Rightarrow> (int \<times> VfsStat option) \<times> 'z vfs_scheme"
where
  "stat_node T Node s =
     (case Option.bind (node_ops T Node s) op_Stat of
        None \<Rightarrow> ((-1, None), s)
      | Some stat \<Rightarrow> stat Node (vfs_release s))"

definition VfsFstats ::
  "'z vfs_scheme tables \<Rightarrow> nat \<Rightarrow> bool \<Rightarrow> 'z vfs_scheme \<Rightarrow> ((int \<times> VfsStat option) \<times> 'z vfs_scheme) option"
where
  "VfsFstats T F Buf s = do {
     s \<leftarrow> vfs_acquire s;
     if F = 0 \<or> \<not> Buf then Some ((-1, None), s)
     else Some (stat_node T (fNode (Files s F)) s) }"

definition VfsStats ::
  "'z vfs_scheme tables \<Rightarrow> string option \<Rightarrow> bool \<Rightarrow> 'z vfs_scheme \<Rightarrow> ((int \<times> VfsStat option) \<times> 'z vfs_scheme) option"
where
  "VfsStats T Path Buf s = do {
     s \<leftarrow> vfs_acquire s;
     if Path = None \<or> \<not> Buf then Some ((-1, None), s)
     else do {
       (De, s) \<leftarrow> VfsResolve T Path s;
       if De = 0 \<or> dNode (Dentries s De) = 0 then Some ((-1, None), s)
       else Some (stat_node T (dNode (Dentries s De)) s) } }"

definition readdir_node ::
  "'z vfs_scheme tables \<Rightarrow> nat \<Rightarrow> int \<Rightarrow> 'z vfs_scheme \<Rightarrow> (int \<times> VfsDirEnt list) \<times> 'z vfs_scheme"
where
  "readdir_node T Node BufLen s =
     (case Option.bind (node_ops T Node s) op_Readdir of
        None \<Rightarrow> ((-1, []), s)
      | Some readdir \<Rightarrow> readdir Node BufLen (vfs_release s))"

definition VfsReaddir ::
  "'z vfs_scheme tables \<Rightarrow> string option \<Rightarrow> bool \<Rightarrow> int \<Rightarrow> 'z vfs_scheme \<Rightarrow>
   ((int \<times> VfsDirEnt list) \<times> 'z vfs_scheme) option"
where
  "VfsReaddir T Path Buf BufLen s = do {
     s \<leftarrow> vfs_acquire s;
     if Path = None \<or> \<not> Buf \<or> BufLen \<le> 0 then Some ((-1, []), s)
     else do {
       (De, s) \<leftarrow> VfsResolve T Path s;
       if De = 0 \<or> dNode (Dentries s De) = 0 then Some ((-1, []), s)
       else Some (readdir_node T (dNode (Dentries s De)) BufLen s) } }"

definition VfsReaddirF ::
  "'z vfs_scheme tables \<Rightarrow> nat \<Rightarrow> bool \<Rightarrow> int \<Rightarrow> 'z vfs_scheme \<Rightarrow>
   ((int \<times> VfsDirEnt list) \<times> 'z vfs_scheme) option"
where
  "VfsReaddirF T Dir Buf BufLen s = do {
     s \<leftarrow> vfs_acquire s;
     if Dir = 0 \<or> \<not> Buf \<or> BufLen \<le> 0 then Some ((-1, []), s)
     else Some (readdir_node T (fNode (Files s Dir)) BufLen s) }"

section \<open>Operations on a parent directory\<close>

text \<open>The loop that \<^verbatim>\<open>VfsCreate\<close>, \<^verbatim>\<open>VfsUnlink\<close>, \<^verbatim>\<open>VfsMkdir\<close>, \<^verbatim>\<open>VfsRmdir\<close>, \<^verbatim>\<open>VfsSymlink\<close>, \<^verbatim>\<open>VfsLink\<close> and
  \<^verbatim>\<open>VfsRename\<close> each contain: look up every component but the last. \<open>PFail\<close> is the early \<^verbatim>\<open>return -1\<close>;
  \<open>PBase\<close> carries the dentry of the parent (0 when the path has no component) and the last
  component. \<^verbatim>\<open>VfsRmdir\<close> alone does not check its two allocations (\<open>checked\<close> is false there): a failed
  copy of the name is written through the null pointer (\<open>PFault\<close>), a failed dentry is kept.\<close>

datatype parent_result = PFail | PFault | PBase nat string

function parent_loop ::
  "'z vfs_scheme tables \<Rightarrow> bool \<Rightarrow> nat \<Rightarrow> nat \<Rightarrow> string \<Rightarrow> 'z vfs_scheme \<Rightarrow> parent_result \<times> 'z vfs_scheme"
where
  "parent_loop T checked Cur De p s =
     (if p = [] then (PBase 0 [], s)
      else
        (let Name = next_comp 256 p in
         if Name = [] then (PBase 0 [], s)
         else if after_comp p = [] then (PBase De Name, s)
         else
           (case Option.bind (node_ops T Cur s) op_Lookup of
              None \<Rightarrow> (PFail, s)
            | Some lookup \<Rightarrow>
                (let (Next, s) = lookup Cur Name s in
                 if Next = 0 then (PFail, s)
                 else
                   (let (Dup, s) = kmalloc s in
                    if Dup = 0 then ((if checked then PFail else PFault), s)
                    else
                      (let (De, s) = alloc_dentry Name De Next s in
                       if De = 0 \<and> checked then (PFail, s)
                       else parent_loop T checked Next De (after_comp p) s))))))"
  by pat_completeness auto
termination
  by (relation "measure (\<lambda>(_, _, _, _, p, _). length p)") (auto intro: next_comp_nonempty)

definition parent_of :: "'z vfs_scheme tables \<Rightarrow> bool \<Rightarrow> string \<Rightarrow> 'z vfs_scheme \<Rightarrow> parent_result \<times> 'z vfs_scheme" where
  "parent_of T checked path s = parent_loop T checked (RootNode s) (RootDe s) (skip_sep path) s"

text \<open>The end of these routines: the parent dentry, its vnode and the operation must be there.\<close>

definition parent_op ::
  "'z vfs_scheme tables \<Rightarrow> ('z vfs_scheme VnodeOps \<Rightarrow> 'f option) \<Rightarrow> nat \<Rightarrow> 'z vfs_scheme \<Rightarrow> 'f option"
where
  "parent_op T sel Base s =
     (if Base = 0 then None else Option.bind (node_ops T (dNode (Dentries s Base)) s) sel)"

definition VfsCreate ::
  "'z vfs_scheme tables \<Rightarrow> string option \<Rightarrow> int \<Rightarrow> VfsPerm \<Rightarrow> 'z vfs_scheme \<Rightarrow> (int \<times> 'z vfs_scheme) option"
where
  "VfsCreate T Path Flags Perm s = do {
     s \<leftarrow> vfs_acquire s;
     case Path of
       None \<Rightarrow> Some (-1, s)
     | Some p \<Rightarrow>
         (case parent_of T True p s of
            (PBase Parent Name, s) \<Rightarrow>
              (case parent_op T op_Create Parent s of
                 None \<Rightarrow> Some (-1, s)
               | Some create \<Rightarrow> Some (create (dNode (Dentries s Parent)) Name Flags Perm (vfs_release s)))
          | (PFail, s) \<Rightarrow> Some (-1, s)
          | (PFault, s) \<Rightarrow> None) }"

definition VfsUnlink :: "'z vfs_scheme tables \<Rightarrow> string option \<Rightarrow> 'z vfs_scheme \<Rightarrow> (int \<times> 'z vfs_scheme) option" where
  "VfsUnlink T Path s = do {
     s \<leftarrow> vfs_acquire s;
     case Path of
       None \<Rightarrow> Some (-1, s)
     | Some p \<Rightarrow>
         (case parent_of T True p s of
            (PBase Base Name, s) \<Rightarrow>
              (case parent_op T op_Unlink Base s of
                 None \<Rightarrow> Some (-1, s)
               | Some unlink \<Rightarrow> Some (unlink (dNode (Dentries s Base)) Name (vfs_release s)))
          | (PFail, s) \<Rightarrow> Some (-1, s)
          | (PFault, s) \<Rightarrow> None) }"

text \<open>\<^verbatim>\<open>VfsMkdir\<close> is the one of them that releases the mutex on every return.\<close>

definition VfsMkdir :: "'z vfs_scheme tables \<Rightarrow> string option \<Rightarrow> VfsPerm \<Rightarrow> 'z vfs_scheme \<Rightarrow> (int \<times> 'z vfs_scheme) option" where
  "VfsMkdir T Path Perm s = do {
     s \<leftarrow> vfs_acquire s;
     case Path of
       None \<Rightarrow> Some (-1, vfs_release s)
     | Some p \<Rightarrow>
         (case parent_of T True p s of
            (PBase Base Name, s) \<Rightarrow>
              (case parent_op T op_Mkdir Base s of
                 None \<Rightarrow> Some (-1, vfs_release s)
               | Some mkdir \<Rightarrow> Some (mkdir (dNode (Dentries s Base)) Name Perm (vfs_release s)))
          | (PFail, s) \<Rightarrow> Some (-1, vfs_release s)
          | (PFault, s) \<Rightarrow> None) }"

definition VfsRmdir :: "'z vfs_scheme tables \<Rightarrow> string option \<Rightarrow> 'z vfs_scheme \<Rightarrow> (int \<times> 'z vfs_scheme) option" where
  "VfsRmdir T Path s = do {
     s \<leftarrow> vfs_acquire s;
     case Path of
       None \<Rightarrow> Some (-1, s)
     | Some p \<Rightarrow>
         (case parent_of T False p s of
            (PBase Base Name, s) \<Rightarrow>
              (case parent_op T op_Rmdir Base s of
                 None \<Rightarrow> Some (-1, s)
               | Some rmdir \<Rightarrow> Some (rmdir (dNode (Dentries s Base)) Name (vfs_release s)))
          | (PFail, s) \<Rightarrow> Some (-1, s)
          | (PFault, s) \<Rightarrow> None) }"

definition VfsSymlink ::
  "'z vfs_scheme tables \<Rightarrow> string option \<Rightarrow> string option \<Rightarrow> VfsPerm \<Rightarrow> 'z vfs_scheme \<Rightarrow> (int \<times> 'z vfs_scheme) option"
where
  "VfsSymlink T Target LinkPath Perm s = do {
     s \<leftarrow> vfs_acquire s;
     case (LinkPath, Target) of
       (Some p, Some t) \<Rightarrow>
         (case parent_of T True p s of
            (PBase Base Name, s) \<Rightarrow>
              (case parent_op T op_Symlink Base s of
                 None \<Rightarrow> Some (-1, s)
               | Some symlink \<Rightarrow> Some (symlink (dNode (Dentries s Base)) Name t Perm (vfs_release s)))
          | (PFail, s) \<Rightarrow> Some (-1, s)
          | (PFault, s) \<Rightarrow> None)
     | _ \<Rightarrow> Some (-1, s) }"

definition VfsReadlink ::
  "'z vfs_scheme tables \<Rightarrow> string option \<Rightarrow> bool \<Rightarrow> int \<Rightarrow> 'z vfs_scheme \<Rightarrow> ((int \<times> string) \<times> 'z vfs_scheme) option"
where
  "VfsReadlink T Path Buf Len s = do {
     s \<leftarrow> vfs_acquire s;
     if Path = None \<or> \<not> Buf \<or> Len \<le> 0 then Some ((-1, []), s)
     else do {
       (De, s) \<leftarrow> VfsResolve T Path s;
       if De = 0 then Some ((-1, []), s)
       else
         (case Option.bind (node_ops T (dNode (Dentries s De)) s) op_Readlink of
            None \<Rightarrow> Some ((-1, []), s)
          | Some readlink \<Rightarrow> Some (readlink (dNode (Dentries s De)) Len (vfs_release s))) } }"

definition VfsLink ::
  "'z vfs_scheme tables \<Rightarrow> string option \<Rightarrow> string option \<Rightarrow> 'z vfs_scheme \<Rightarrow> (int \<times> 'z vfs_scheme) option"
where
  "VfsLink T OldPath NewPath s = do {
     s \<leftarrow> vfs_acquire s;
     case (OldPath, NewPath) of
       (Some old, Some new) \<Rightarrow> do {
         (OldDe, s) \<leftarrow> VfsResolve T OldPath s;
         if OldDe = 0 \<or> dNode (Dentries s OldDe) = 0 then Some (-1, s)
         else
           (case parent_of T True new s of
              (PBase NewBase Name, s) \<Rightarrow>
                (case parent_op T op_Link NewBase s of
                   None \<Rightarrow> Some (-1, s)
                 | Some link \<Rightarrow>
                     Some (link (dNode (Dentries s NewBase)) (dNode (Dentries s OldDe)) Name (vfs_release s)))
            | (PFail, s) \<Rightarrow> Some (-1, s)
            | (PFault, s) \<Rightarrow> None) }
     | _ \<Rightarrow> Some (-1, s) }"

definition VfsRename ::
  "'z vfs_scheme tables \<Rightarrow> string option \<Rightarrow> string option \<Rightarrow> int \<Rightarrow> 'z vfs_scheme \<Rightarrow> (int \<times> 'z vfs_scheme) option"
where
  "VfsRename T OldPath NewPath Flags s = do {
     s \<leftarrow> vfs_acquire s;
     case (OldPath, NewPath) of
       (Some old, Some new) \<Rightarrow>
         (case parent_of T True old s of
            (PFail, s) \<Rightarrow> Some (-1, s)
          | (PFault, s) \<Rightarrow> None
          | (PBase OldBase OldName, s) \<Rightarrow>
              (case parent_of T True new s of
                 (PFail, s) \<Rightarrow> Some (-1, s)
               | (PFault, s) \<Rightarrow> None
               | (PBase NewBase NewName, s) \<Rightarrow>
                   if OldBase = 0 \<or> NewBase = 0 then Some (-1, s)
                   else if dNode (Dentries s OldBase) = 0 \<or> dNode (Dentries s NewBase) = 0 then Some (-1, s)
                   else
                     (case Option.bind (node_ops T (dNode (Dentries s OldBase)) s) op_Rename of
                        None \<Rightarrow> Some (-1, s)
                      | Some rename \<Rightarrow>
                          Some (rename (dNode (Dentries s OldBase)) OldName (dNode (Dentries s NewBase)) NewName
                                  Flags (vfs_release s)))))
     | _ \<Rightarrow> Some (-1, s) }"

declare mkpath_loop.simps [simp del] parent_loop.simps [simp del]

section \<open>Attributes, vnodes and dentries\<close>

definition path_op ::
  "'z vfs_scheme tables \<Rightarrow> ('z vfs_scheme VnodeOps \<Rightarrow> (nat \<Rightarrow> 'z vfs_scheme \<Rightarrow> int \<times> 'z vfs_scheme) option) \<Rightarrow>
   string option \<Rightarrow> 'z vfs_scheme \<Rightarrow> (int \<times> 'z vfs_scheme) option"
where
  "path_op T sel Path s = do {
     s \<leftarrow> vfs_acquire s;
     (De, s) \<leftarrow> VfsResolve T Path s;
     if De = 0 then Some (-1, s)
     else
       (case Option.bind (node_ops T (dNode (Dentries s De)) s) sel of
          None \<Rightarrow> Some (-1, s)
        | Some f \<Rightarrow> Some (f (dNode (Dentries s De)) (vfs_release s))) }"

definition VfsChmod :: "'z vfs_scheme tables \<Rightarrow> string option \<Rightarrow> int \<Rightarrow> 'z vfs_scheme \<Rightarrow> (int \<times> 'z vfs_scheme) option" where
  "VfsChmod T Path m s = path_op T (\<lambda>ops. map_option (\<lambda>f n. f n m) (op_Chmod ops)) Path s"

definition VfsChown :: "'z vfs_scheme tables \<Rightarrow> string option \<Rightarrow> int \<Rightarrow> int \<Rightarrow> 'z vfs_scheme \<Rightarrow> (int \<times> 'z vfs_scheme) option" where
  "VfsChown T Path uid gid s = path_op T (\<lambda>ops. map_option (\<lambda>f n. f n uid gid) (op_Chown ops)) Path s"

definition VfsTruncate :: "'z vfs_scheme tables \<Rightarrow> string option \<Rightarrow> int \<Rightarrow> 'z vfs_scheme \<Rightarrow> (int \<times> 'z vfs_scheme) option" where
  "VfsTruncate T Path len s = path_op T (\<lambda>ops. map_option (\<lambda>f n. f n len) (op_Truncate ops)) Path s"

definition VnodeRefInc :: "nat \<Rightarrow> 'z vfs_scheme \<Rightarrow> (int \<times> 'z vfs_scheme) option" where
  "VnodeRefInc Node s = do {
     s \<leftarrow> vfs_acquire s;
     if Node = 0 then Some (-1, s)
     else
       (let s = s\<lparr>Vnodes := (Vnodes s)(Node := (Vnodes s Node)\<lparr>vRefcnt := vRefcnt (Vnodes s Node) + 1\<rparr>)\<rparr>
        in Some (vRefcnt (Vnodes s Node), vfs_release s)) }"

definition VnodeRefDec :: "nat \<Rightarrow> 'z vfs_scheme \<Rightarrow> (int \<times> 'z vfs_scheme) option" where
  "VnodeRefDec Node s = do {
     s \<leftarrow> vfs_acquire s;
     if Node = 0 then Some (-1, s)
     else
       (let s = (if vRefcnt (Vnodes s Node) > 0
                 then s\<lparr>Vnodes := (Vnodes s)(Node := (Vnodes s Node)\<lparr>vRefcnt := vRefcnt (Vnodes s Node) - 1\<rparr>)\<rparr>
                 else s)
        in Some (vRefcnt (Vnodes s Node), vfs_release s)) }"

definition VnodeGetAttr ::
  "'z vfs_scheme tables \<Rightarrow> nat \<Rightarrow> bool \<Rightarrow> 'z vfs_scheme \<Rightarrow> ((int \<times> VfsStat option) \<times> 'z vfs_scheme) option"
where
  "VnodeGetAttr T Node Buf s = do {
     s \<leftarrow> vfs_acquire s;
     if Node = 0 \<or> \<not> Buf then Some ((-1, None), s) else Some (stat_node T Node s) }"

definition VnodeSetAttr :: "nat \<Rightarrow> VfsStat \<Rightarrow> 'z vfs_scheme \<Rightarrow> (int \<times> 'z vfs_scheme) option" where
  "VnodeSetAttr Node Buf s = do { s \<leftarrow> vfs_acquire s; Some (-1, vfs_release s) }"

definition update_dentry :: "nat \<Rightarrow> (Dentry \<Rightarrow> Dentry) \<Rightarrow> 'z vfs_scheme \<Rightarrow> (int \<times> 'z vfs_scheme) option" where
  "update_dentry De f s = do {
     s \<leftarrow> vfs_acquire s;
     if De = 0 then Some (-1, s)
     else Some (0, vfs_release (s\<lparr>Dentries := (Dentries s)(De := f (Dentries s De))\<rparr>)) }"

definition DentryInvalidate :: "nat \<Rightarrow> 'z vfs_scheme \<Rightarrow> (int \<times> 'z vfs_scheme) option" where
  "DentryInvalidate De = update_dentry De (\<lambda>d. d\<lparr>dFlags := dFlags d OR 1\<rparr>)"

definition DentryRevalidate :: "nat \<Rightarrow> 'z vfs_scheme \<Rightarrow> (int \<times> 'z vfs_scheme) option" where
  "DentryRevalidate De = update_dentry De (\<lambda>d. d\<lparr>dFlags := dFlags d AND NOT 1\<rparr>)"

definition DentryAttach :: "nat \<Rightarrow> nat \<Rightarrow> 'z vfs_scheme \<Rightarrow> (int \<times> 'z vfs_scheme) option" where
  "DentryAttach De Node s =
     (if Node = 0 then do { s \<leftarrow> vfs_acquire s; Some (-1, s) }
      else update_dentry De (\<lambda>d. d\<lparr>dNode := Node\<rparr>) s)"

definition DentryDetach :: "nat \<Rightarrow> 'z vfs_scheme \<Rightarrow> (int \<times> 'z vfs_scheme) option" where
  "DentryDetach De = update_dentry De (\<lambda>d. d\<lparr>dNode := 0\<rparr>)"

text \<open>A string copied into a caller's buffer of \<open>Len\<close> bytes, refused when it does not fit with its
  terminator; the mutex is released only when it is copied.\<close>

definition copy_out :: "string \<Rightarrow> bool \<Rightarrow> int \<Rightarrow> 'z vfs_scheme \<Rightarrow> ((int \<times> string option) \<times> 'z vfs_scheme)" where
  "copy_out src Buf Len s =
     (if \<not> Buf \<or> Len \<le> 0 then ((-1, None), s)
      else if int (length src) \<ge> Len then ((-1, None), s)
      else ((0, Some src), vfs_release s))"

definition DentryName :: "nat \<Rightarrow> bool \<Rightarrow> int \<Rightarrow> 'z vfs_scheme \<Rightarrow> ((int \<times> string option) \<times> 'z vfs_scheme) option" where
  "DentryName De Buf Len s = do {
     s \<leftarrow> vfs_acquire s;
     if De = 0 then Some ((-1, None), s) else Some (copy_out (dName (Dentries s De)) Buf Len s) }"

definition VfsSetCwd :: "string option \<Rightarrow> 'z vfs_scheme \<Rightarrow> (int \<times> 'z vfs_scheme) option" where
  "VfsSetCwd Path s = do { s \<leftarrow> vfs_acquire s; Some (0, vfs_release s) }"

definition VfsGetCwd :: "bool \<Rightarrow> int \<Rightarrow> 'z vfs_scheme \<Rightarrow> ((int \<times> string option) \<times> 'z vfs_scheme) option" where
  "VfsGetCwd Buf Len s = do { s \<leftarrow> vfs_acquire s; Some (copy_out ''/'' Buf Len s) }"

definition VfsSetRoot :: "'z vfs_scheme tables \<Rightarrow> string option \<Rightarrow> 'z vfs_scheme \<Rightarrow> (int \<times> 'z vfs_scheme) option" where
  "VfsSetRoot T Path s = do { s \<leftarrow> vfs_acquire s; VfsSwitchRoot T Path (vfs_release s) }"

definition VfsGetRoot :: "bool \<Rightarrow> int \<Rightarrow> 'z vfs_scheme \<Rightarrow> ((int \<times> string option) \<times> 'z vfs_scheme) option" where
  "VfsGetRoot Buf Len s = do { s \<leftarrow> vfs_acquire s; Some (copy_out ''/'' Buf Len s) }"

definition VfsSetUmask :: "int \<Rightarrow> 'z vfs_scheme \<Rightarrow> (int \<times> 'z vfs_scheme) option" where
  "VfsSetUmask m s = do { s \<leftarrow> vfs_acquire s; Some (0, vfs_release (s\<lparr>Umask := m\<rparr>)) }"

definition VfsGetUmask :: "'z vfs_scheme \<Rightarrow> (int \<times> 'z vfs_scheme) option" where
  "VfsGetUmask s = do { s \<leftarrow> vfs_acquire s; let s = vfs_release s; Some (Umask s, s) }"

definition VfsNotifySubscribe :: "string option \<Rightarrow> int \<Rightarrow> 'z vfs_scheme \<Rightarrow> (int \<times> 'z vfs_scheme) option" where
  "VfsNotifySubscribe Path Mask s = do { s \<leftarrow> vfs_acquire s; Some (0, vfs_release s) }"

definition VfsNotifyUnsubscribe :: "string option \<Rightarrow> 'z vfs_scheme \<Rightarrow> (int \<times> 'z vfs_scheme) option" where
  "VfsNotifyUnsubscribe Path s = do { s \<leftarrow> vfs_acquire s; Some (0, vfs_release s) }"

definition VfsNotifyPoll :: "string option \<Rightarrow> bool \<Rightarrow> 'z vfs_scheme \<Rightarrow> ((int \<times> int option) \<times> 'z vfs_scheme) option" where
  "VfsNotifyPoll Path OutMask s = do {
     s \<leftarrow> vfs_acquire s;
     if \<not> OutMask then Some ((-1, None), s) else Some ((0, Some 0), vfs_release s) }"

section \<open>Queries by path\<close>

definition resolve_query ::
  "'z vfs_scheme tables \<Rightarrow> string option \<Rightarrow> 'z vfs_scheme \<Rightarrow> (nat \<times> 'z vfs_scheme) option"
where
  "resolve_query T Path s = do {
     s \<leftarrow> vfs_acquire s;
     (De, s) \<leftarrow> VfsResolve T Path s;
     Some (De, vfs_release s) }"

definition VfsAccess :: "'z vfs_scheme tables \<Rightarrow> string option \<Rightarrow> int \<Rightarrow> 'z vfs_scheme \<Rightarrow> (int \<times> 'z vfs_scheme) option" where
  "VfsAccess T Path m s = do { (De, s) \<leftarrow> resolve_query T Path s; Some (if De \<noteq> 0 then 0 else -1, s) }"

definition VfsExists :: "'z vfs_scheme tables \<Rightarrow> string option \<Rightarrow> 'z vfs_scheme \<Rightarrow> (int \<times> 'z vfs_scheme) option" where
  "VfsExists T Path s = do { (De, s) \<leftarrow> resolve_query T Path s; Some (if De \<noteq> 0 then 1 else 0, s) }"

definition is_type :: "VnodeType \<Rightarrow> nat \<Rightarrow> 'z vfs_scheme \<Rightarrow> int" where
  "is_type t De s =
     (if De \<noteq> 0 \<and> dNode (Dentries s De) \<noteq> 0 \<and> vType (Vnodes s (dNode (Dentries s De))) = t then 1 else 0)"

definition VfsIsDir :: "'z vfs_scheme tables \<Rightarrow> string option \<Rightarrow> 'z vfs_scheme \<Rightarrow> (int \<times> 'z vfs_scheme) option" where
  "VfsIsDir T Path s = do { (De, s) \<leftarrow> resolve_query T Path s; Some (is_type VNodeDIR De s, s) }"

definition VfsIsFile :: "'z vfs_scheme tables \<Rightarrow> string option \<Rightarrow> 'z vfs_scheme \<Rightarrow> (int \<times> 'z vfs_scheme) option" where
  "VfsIsFile T Path s = do { (De, s) \<leftarrow> resolve_query T Path s; Some (is_type VNodeFILE De s, s) }"

definition VfsIsSymlink :: "'z vfs_scheme tables \<Rightarrow> string option \<Rightarrow> 'z vfs_scheme \<Rightarrow> (int \<times> 'z vfs_scheme) option" where
  "VfsIsSymlink T Path s = do { (De, s) \<leftarrow> resolve_query T Path s; Some (is_type VNodeSYM De s, s) }"

section \<open>Whole files\<close>

text \<open>The open flags are the enumeration's numbers: \<^verbatim>\<open>VFlgRDONLY\<close> 1, \<^verbatim>\<open>VFlgCREATE | VFlgWRONLY | VFlgTRUNC\<close> 7.\<close>

definition close_both :: "'z vfs_scheme tables \<Rightarrow> nat \<Rightarrow> nat \<Rightarrow> int \<Rightarrow> 'z vfs_scheme \<Rightarrow> (int \<times> 'z vfs_scheme) option" where
  "close_both T S D r s = do {
     (_, s) \<leftarrow> VfsClose T S s;
     (_, s) \<leftarrow> VfsClose T D s;
     Some (r, s) }"

partial_function (option) copy_loop ::
  "'z vfs_scheme tables \<Rightarrow> nat \<Rightarrow> nat \<Rightarrow> 'z vfs_scheme \<Rightarrow> (int \<times> 'z vfs_scheme) option"
where
  "copy_loop T S D s = do {
     ((r, buf), s) \<leftarrow> VfsRead T S True 4096 s;
     if r < 0 then close_both T S D (-1) s
     else if r = 0 then do { (x, s) \<leftarrow> close_both T S D 0 s; Some (x, vfs_release s) }
     else do {
       (w, s) \<leftarrow> VfsWrite T D (Some buf) r s;
       if w \<noteq> r then close_both T S D (-1) s else copy_loop T S D s } }"

definition VfsCopy ::
  "'z vfs_scheme tables \<Rightarrow> string option \<Rightarrow> string option \<Rightarrow> int \<Rightarrow> 'z vfs_scheme \<Rightarrow> (int \<times> 'z vfs_scheme) option"
where
  "VfsCopy T Src Dst flags s = do {
     s \<leftarrow> vfs_acquire s;
     (S, s) \<leftarrow> VfsOpen T Src 1 s;
     if S = 0 then Some (-1, s)
     else do {
       (D, s) \<leftarrow> VfsOpen T Dst 7 s;
       if D = 0 then do { (_, s) \<leftarrow> VfsClose T S s; Some (-1, s) }
       else copy_loop T S D s } }"

definition VfsMove ::
  "'z vfs_scheme tables \<Rightarrow> string option \<Rightarrow> string option \<Rightarrow> int \<Rightarrow> 'z vfs_scheme \<Rightarrow> (int \<times> 'z vfs_scheme) option"
where
  "VfsMove T Src Dst flags s = do {
     s \<leftarrow> vfs_acquire s;
     (rc, s) \<leftarrow> VfsRename T Src Dst flags s;
     if rc = 0 then Some (0, s)
     else do {
       (rc, s) \<leftarrow> VfsCopy T Src Dst flags s;
       if rc \<noteq> 0 then Some (-1, s) else VfsUnlink T Src (vfs_release s) } }"

text \<open>The loop of \<^verbatim>\<open>VfsReadAll\<close>; the bytes read so far are collected, \<^verbatim>\<open>total\<close> is their number as the calls
  reported it.\<close>

function readall_loop ::
  "'z vfs_scheme tables \<Rightarrow> nat \<Rightarrow> int \<Rightarrow> int \<Rightarrow> string \<Rightarrow> 'z vfs_scheme \<Rightarrow> ((int \<times> int \<times> string) \<times> 'z vfs_scheme) option"
where
  "readall_loop T F BufLen tot acc s =
     (if \<not> tot < BufLen then Some ((0, tot, acc), s)
      else
        (case VfsRead T F True (BufLen - tot) s of
           None \<Rightarrow> None
         | Some ((r, data), s) \<Rightarrow>
             if r < 0 then do { (_, s) \<leftarrow> VfsClose T F s; Some ((-1, tot, acc), s) }
             else if r = 0 then Some ((0, tot, acc), s)
             else readall_loop T F BufLen (tot + r) (acc @ data) s))"
  by pat_completeness auto
termination
  by (relation "measure (\<lambda>(_, _, n, tot, _, _). nat (n - tot))") auto

definition VfsReadAll ::
  "'z vfs_scheme tables \<Rightarrow> string option \<Rightarrow> int \<Rightarrow> 'z vfs_scheme \<Rightarrow> ((int \<times> int \<times> string) \<times> 'z vfs_scheme) option"
where
  "VfsReadAll T Path BufLen s = do {
     s \<leftarrow> vfs_acquire s;
     (F, s) \<leftarrow> VfsOpen T Path 1 s;
     if F = 0 then Some ((-1, 0, []), s)
     else do {
       ((rc, tot, data), s) \<leftarrow> readall_loop T F BufLen 0 [] s;
       if rc \<noteq> 0 then Some ((-1, 0, data), s)
       else do {
         (_, s) \<leftarrow> VfsClose T F s;
         Some ((0, tot, data), vfs_release s) } } }"

function writeall_loop ::
  "'z vfs_scheme tables \<Rightarrow> nat \<Rightarrow> string \<Rightarrow> int \<Rightarrow> int \<Rightarrow> 'z vfs_scheme \<Rightarrow> (int \<times> 'z vfs_scheme) option"
where
  "writeall_loop T F Buf Len tot s =
     (if \<not> tot < Len then Some (0, s)
      else
        (case VfsWrite T F (Some (drop (nat tot) Buf)) (Len - tot) s of
           None \<Rightarrow> None
         | Some (w, s) \<Rightarrow>
             if w \<le> 0 then do { (_, s) \<leftarrow> VfsClose T F s; Some (-1, s) }
             else writeall_loop T F Buf Len (tot + w) s))"
  by pat_completeness auto
termination
  by (relation "measure (\<lambda>(_, _, _, n, tot, _). nat (n - tot))") auto

definition VfsWriteAll ::
  "'z vfs_scheme tables \<Rightarrow> string option \<Rightarrow> string \<Rightarrow> int \<Rightarrow> 'z vfs_scheme \<Rightarrow> (int \<times> 'z vfs_scheme) option"
where
  "VfsWriteAll T Path Buf Len s = do {
     s \<leftarrow> vfs_acquire s;
     (F, s) \<leftarrow> VfsOpen T Path 7 s;
     if F = 0 then Some (-1, s)
     else do {
       (rc, s) \<leftarrow> writeall_loop T F Buf Len 0 s;
       if rc \<noteq> 0 then Some (-1, s)
       else do { (_, s) \<leftarrow> VfsClose T F s; Some (0, vfs_release s) } } }"

declare readall_loop.simps [simp del] writeall_loop.simps [simp del]

section \<open>The mount table as text, names and limits\<close>

fun enumerate_loop :: "MountEntry list \<Rightarrow> int \<Rightarrow> string \<Rightarrow> string" where
  "enumerate_loop [] Len out = out"
| "enumerate_loop (M # Ms) Len out =
     (if int (length out) + int (length (mPath M)) + 2 \<ge> Len then out
      else enumerate_loop Ms Len (out @ mPath M @ [CHR 0x0A]))"

definition VfsMountTableEnumerate :: "bool \<Rightarrow> int \<Rightarrow> 'z vfs_scheme \<Rightarrow> ((int \<times> string) \<times> 'z vfs_scheme) option" where
  "VfsMountTableEnumerate Buf Len s = do {
     s \<leftarrow> vfs_acquire s;
     if \<not> Buf \<or> Len \<le> 0 then Some ((-1, []), s)
     else (let out = enumerate_loop (Mounts s) Len [] in Some ((int (length out), out), vfs_release s)) }"

definition VfsMountTableFind ::
  "string option \<Rightarrow> bool \<Rightarrow> int \<Rightarrow> 'z vfs_scheme \<Rightarrow> ((int \<times> string option) \<times> 'z vfs_scheme) option"
where
  "VfsMountTableFind Path Buf Len s = do {
     s \<leftarrow> vfs_acquire s;
     case Path of
       None \<Rightarrow> Some ((-1, None), s)
     | Some p \<Rightarrow>
         if \<not> Buf \<or> Len \<le> 0 then Some ((-1, None), s)
         else
           (case find (\<lambda>M. mPath M = p) (Mounts s) of
              None \<Rightarrow> Some ((-1, None), vfs_release s)
            | Some M \<Rightarrow> if int (length (mPath M)) \<ge> Len then Some ((-1, None), s) else Some ((0, Some (mPath M)), s)) }"

definition VfsNodePath :: "nat \<Rightarrow> bool \<Rightarrow> int \<Rightarrow> 'z vfs_scheme \<Rightarrow> ((int \<times> string option) \<times> 'z vfs_scheme) option" where
  "VfsNodePath Node Buf Len s = do { s \<leftarrow> vfs_acquire s; Some (copy_out ''/'' Buf Len s) }"

definition VfsNodeName :: "nat \<Rightarrow> bool \<Rightarrow> int \<Rightarrow> 'z vfs_scheme \<Rightarrow> ((int \<times> string option) \<times> 'z vfs_scheme) option" where
  "VfsNodeName Node Buf Len s = do { s \<leftarrow> vfs_acquire s; Some (copy_out [] Buf Len s) }"

definition VfsAllocName :: "bool \<Rightarrow> int \<Rightarrow> 'z vfs_scheme \<Rightarrow> ((int \<times> nat) \<times> 'z vfs_scheme) option" where
  "VfsAllocName Out Len s = do {
     s \<leftarrow> vfs_acquire s;
     if \<not> Out \<or> Len \<le> 0 then Some ((-1, 0), s)
     else (let (p, s) = kmalloc s in Some ((if p \<noteq> 0 then 0 else -1, p), vfs_release s)) }"

definition VfsFreeName :: "nat \<Rightarrow> 'z vfs_scheme \<Rightarrow> (int \<times> 'z vfs_scheme) option" where
  "VfsFreeName Name s = do {
     s \<leftarrow> vfs_acquire s;
     if Name = 0 then Some (-1, s) else Some (0, vfs_release (kfree Name s)) }"

definition VfsJoinPath ::
  "string option \<Rightarrow> string option \<Rightarrow> bool \<Rightarrow> int \<Rightarrow> 'z vfs_scheme \<Rightarrow> ((int \<times> string option) \<times> 'z vfs_scheme) option"
where
  "VfsJoinPath A B Out Len s = do {
     s \<leftarrow> vfs_acquire s;
     case (A, B) of
       (Some a, Some b) \<Rightarrow>
         if \<not> Out \<or> Len \<le> 0 then Some ((-1, None), s)
         else if int (length a) + 1 + int (length b) + 1 > Len then Some ((-1, None), s)
         else Some ((0, Some (a @ ''/'' @ b)), vfs_release s)
     | _ \<Rightarrow> Some ((-1, None), s) }"

definition VfsSetFlag :: "string option \<Rightarrow> int \<Rightarrow> 'z vfs_scheme \<Rightarrow> (int \<times> 'z vfs_scheme) option" where
  "VfsSetFlag Path f s = do { s \<leftarrow> vfs_acquire s; Some (0, vfs_release s) }"

definition VfsClearFlag :: "string option \<Rightarrow> int \<Rightarrow> 'z vfs_scheme \<Rightarrow> (int \<times> 'z vfs_scheme) option" where
  "VfsClearFlag Path f s = do { s \<leftarrow> vfs_acquire s; Some (0, vfs_release s) }"

definition VfsGetFlags :: "string option \<Rightarrow> 'z vfs_scheme \<Rightarrow> (int \<times> 'z vfs_scheme) option" where
  "VfsGetFlags Path s = do { s \<leftarrow> vfs_acquire s; Some (0, vfs_release s) }"

definition sync_super :: "'z vfs_scheme tables \<Rightarrow> nat \<Rightarrow> 'z vfs_scheme \<Rightarrow> 'z vfs_scheme" where
  "sync_super T Sb s =
     (if Sb \<noteq> 0 \<and> sbOps (Superblocks s Sb) \<noteq> 0
      then (case sop_Sync (SOps T (sbOps (Superblocks s Sb))) of None \<Rightarrow> s | Some f \<Rightarrow> snd (f Sb s))
      else s)"

definition VfsSyncAll :: "'z vfs_scheme tables \<Rightarrow> 'z vfs_scheme \<Rightarrow> (int \<times> 'z vfs_scheme) option" where
  "VfsSyncAll T s = do {
     s \<leftarrow> vfs_acquire s;
     Some (0, vfs_release (fold (\<lambda>M. sync_super T (mSb M)) (Mounts s) s)) }"

definition VfsPruneCaches :: "'z vfs_scheme \<Rightarrow> (int \<times> 'z vfs_scheme) option" where
  "VfsPruneCaches s = do { s \<leftarrow> vfs_acquire s; Some (0, vfs_release s) }"

text \<open>\<^verbatim>\<open>VfsRegisterDevNode\<close>: \<open>Priv\<close> is the address used both as the table and as the private data. The
  buffer that \<^verbatim>\<open>VfsRealpath\<close> refuses to fill (a path of 1024 bytes or more) is read uninitialised,
  which is outside the model (\<open>None\<close>), as is a missing root.\<close>

definition last_sep :: "string \<Rightarrow> nat option" where
  "last_sep p = (case find (\<lambda>i. is_sep (p ! i)) (rev [0..<length p]) of None \<Rightarrow> None | Some i \<Rightarrow> Some i)"

definition VfsRegisterDevNode ::
  "'z vfs_scheme tables \<Rightarrow> string option \<Rightarrow> nat \<Rightarrow> int \<Rightarrow> 'z vfs_scheme \<Rightarrow> (int \<times> 'z vfs_scheme) option"
where
  "VfsRegisterDevNode T Path Priv flags s = do {
     s \<leftarrow> vfs_acquire s;
     if Path = None \<or> Priv = 0 then Some (-1, s)
     else do {
       ((_, buf), s) \<leftarrow> VfsRealpath Path True 1024 s;
       p \<leftarrow> buf;
       case last_sep p of
         None \<Rightarrow> Some (-1, s)
       | Some i \<Rightarrow> do {
           (_, s) \<leftarrow> VfsMkpath T (Some (take i p)) 0 s;
           let (Node, s) = kmalloc s;
           if Node = 0 then Some (-1, s)
           else if RootNode s = 0 then None
           else do {
             let s = s\<lparr>Vnodes := (Vnodes s)(Node := \<lparr>vType = VNodeDEV, vOps = Priv, vSb = vSb (Vnodes s (RootNode s)),
                                               vPriv = Priv, vRefcnt = 1\<rparr>)\<rparr>;
             let (Dup, s) = kmalloc s;
             if Dup = 0 then None
             else (let (De, s) = alloc_dentry (drop (i + 1) p) (RootDe s) Node s in
                   if De = 0 then Some (-1, kfree Node s) else Some (0, vfs_release s)) } } } }"

definition VfsUnregisterDevNode :: "string option \<Rightarrow> 'z vfs_scheme \<Rightarrow> (int \<times> 'z vfs_scheme) option" where
  "VfsUnregisterDevNode Path s = do { s \<leftarrow> vfs_acquire s; Some (0, vfs_release s) }"

definition VfsRegisterPseudoFs :: "string option \<Rightarrow> nat \<Rightarrow> 'z vfs_scheme \<Rightarrow> (int \<times> 'z vfs_scheme) option" where
  "VfsRegisterPseudoFs Path Sb s = do {
     s \<leftarrow> vfs_acquire s;
     case Path of
       None \<Rightarrow> Some (-1, s)
     | Some p \<Rightarrow>
         if Sb = 0 then Some (-1, s)
         else if 64 \<le> length (Mounts s) then Some (-1, s)
         else Some (0, vfs_release (s\<lparr>Mounts := Mounts s @ [\<lparr>mSb = Sb, mPath = p\<rparr>]\<rparr>)) }"

definition VfsUnregisterPseudoFs :: "'z vfs_scheme tables \<Rightarrow> string option \<Rightarrow> 'z vfs_scheme \<Rightarrow> (int \<times> 'z vfs_scheme) option" where
  "VfsUnregisterPseudoFs T Path s = do { s \<leftarrow> vfs_acquire s; VfsUnmount T Path (vfs_release s) }"

definition VfsSetDefaultFs :: "string option \<Rightarrow> 'z vfs_scheme \<Rightarrow> (int \<times> 'z vfs_scheme) option" where
  "VfsSetDefaultFs Name s = do {
     s \<leftarrow> vfs_acquire s;
     case Name of
       None \<Rightarrow> Some (-1, s)
     | Some n \<Rightarrow> if int (length n) \<ge> 64 then Some (-1, s) else Some (0, vfs_release (s\<lparr>DefaultFs := n\<rparr>)) }"

definition VfsGetDefaultFs :: "'z vfs_scheme \<Rightarrow> string" where
  "VfsGetDefaultFs s = DefaultFs s"

definition VfsSetMaxName :: "int \<Rightarrow> 'z vfs_scheme \<Rightarrow> (int \<times> 'z vfs_scheme) option" where
  "VfsSetMaxName Len s = do {
     s \<leftarrow> vfs_acquire s;
     if Len < 1 then Some (-1, s) else Some (0, vfs_release (s\<lparr>MaxName := Len\<rparr>)) }"

definition VfsGetMaxName :: "'z vfs_scheme \<Rightarrow> (int \<times> 'z vfs_scheme) option" where
  "VfsGetMaxName s = do { s \<leftarrow> vfs_acquire s; let s = vfs_release s; Some (MaxName s, s) }"

definition VfsSetMaxPath :: "int \<Rightarrow> 'z vfs_scheme \<Rightarrow> (int \<times> 'z vfs_scheme) option" where
  "VfsSetMaxPath Len s = do {
     s \<leftarrow> vfs_acquire s;
     if Len < 1 then Some (-1, s) else Some (0, vfs_release (s\<lparr>MaxPath := Len\<rparr>)) }"

definition VfsGetMaxPath :: "'z vfs_scheme \<Rightarrow> (int \<times> 'z vfs_scheme) option" where
  "VfsGetMaxPath s = do { s \<leftarrow> vfs_acquire s; let s = vfs_release s; Some (MaxPath s, s) }"

definition VfsSetDirCacheLimit :: "int \<Rightarrow> 'z vfs_scheme \<Rightarrow> (int \<times> 'z vfs_scheme) option" where
  "VfsSetDirCacheLimit v s = do { s \<leftarrow> vfs_acquire s; Some (0, vfs_release (s\<lparr>DirCacheLimit := v\<rparr>)) }"

definition VfsGetDirCacheLimit :: "'z vfs_scheme \<Rightarrow> (int \<times> 'z vfs_scheme) option" where
  "VfsGetDirCacheLimit s = do { s \<leftarrow> vfs_acquire s; let s = vfs_release s; Some (DirCacheLimit s, s) }"

definition VfsSetFileCacheLimit :: "int \<Rightarrow> 'z vfs_scheme \<Rightarrow> (int \<times> 'z vfs_scheme) option" where
  "VfsSetFileCacheLimit v s = do { s \<leftarrow> vfs_acquire s; Some (0, vfs_release (s\<lparr>FileCacheLimit := v\<rparr>)) }"

definition VfsGetFileCacheLimit :: "'z vfs_scheme \<Rightarrow> (int \<times> 'z vfs_scheme) option" where
  "VfsGetFileCacheLimit s = do { s \<leftarrow> vfs_acquire s; let s = vfs_release s; Some (FileCacheLimit s, s) }"

definition VfsSetIoBlockSize :: "int \<Rightarrow> 'z vfs_scheme \<Rightarrow> (int \<times> 'z vfs_scheme) option" where
  "VfsSetIoBlockSize v s = do { s \<leftarrow> vfs_acquire s; Some (0, vfs_release (s\<lparr>IoBlockSize := v\<rparr>)) }"

definition VfsGetIoBlockSize :: "'z vfs_scheme \<Rightarrow> (int \<times> 'z vfs_scheme) option" where
  "VfsGetIoBlockSize s = do { s \<leftarrow> vfs_acquire s; let s = vfs_release s; Some (IoBlockSize s, s) }"

section \<open>Mount lookup\<close>

lemma find_mount_loop_spec:
  assumes "Best = -1 \<and> BestLen = -1 \<or>
     (0 \<le> Best \<and> nat Best < length done \<and> has_prefix p (mPath (done ! nat Best)) \<and>
      0 < length (mPath (done ! nat Best)) \<and> BestLen = int (length (mPath (done ! nat Best))))"
    and "\<forall>M \<in> set done. 0 < length (mPath M) \<longrightarrow> has_prefix p (mPath M) \<longrightarrow> int (length (mPath M)) \<le> BestLen"
  shows "let r = find_mount_loop p Ms (length done) Best BestLen; all = done @ Ms in
     (if r < 0 then \<forall>M \<in> set all. \<not> (0 < length (mPath M) \<and> has_prefix p (mPath M))
      else nat r < length all \<and> has_prefix p (mPath (all ! nat r)) \<and> 0 < length (mPath (all ! nat r)) \<and>
           (\<forall>M \<in> set all. has_prefix p (mPath M) \<longrightarrow> length (mPath M) \<le> length (mPath (all ! nat r))))"
  using assms
proof (induction Ms arbitrary: "done" Best BestLen)
  case Nil
  then show ?case by (auto simp: Let_def)
next
  case (Cons M Ms)
  let ?new = "0 < length (mPath M) \<and> has_prefix p (mPath M) \<and> int (length (mPath M)) > BestLen"
  let ?B = "if ?new then int (length done) else Best"
  let ?L = "if ?new then int (length (mPath M)) else BestLen"
  have step: "find_mount_loop p (M # Ms) (length done) Best BestLen =
     find_mount_loop p Ms (length (done @ [M])) ?B ?L"
    by (auto simp: Let_def)
  have "let r = find_mount_loop p Ms (length (done @ [M])) ?B ?L; all = (done @ [M]) @ Ms in
     (if r < 0 then \<forall>M \<in> set all. \<not> (0 < length (mPath M) \<and> has_prefix p (mPath M))
      else nat r < length all \<and> has_prefix p (mPath (all ! nat r)) \<and> 0 < length (mPath (all ! nat r)) \<and>
           (\<forall>M \<in> set all. has_prefix p (mPath M) \<longrightarrow> length (mPath M) \<le> length (mPath (all ! nat r))))"
  proof (rule Cons.IH)
    show "?B = -1 \<and> ?L = -1 \<or>
     (0 \<le> ?B \<and> nat ?B < length (done @ [M]) \<and> has_prefix p (mPath ((done @ [M]) ! nat ?B)) \<and>
      0 < length (mPath ((done @ [M]) ! nat ?B)) \<and> ?L = int (length (mPath ((done @ [M]) ! nat ?B))))"
      using Cons.prems(1) by (auto simp: nth_append)
    show "\<forall>N \<in> set (done @ [M]). 0 < length (mPath N) \<longrightarrow> has_prefix p (mPath N) \<longrightarrow> int (length (mPath N)) \<le> ?L"
      using Cons.prems by (auto simp: not_less)
  qed
  then show ?case unfolding step by simp
qed

lemma find_mount_spec:
  "case find_mount p s of
     None \<Rightarrow> \<forall>M \<in> set (Mounts s). \<not> (0 < length (mPath M) \<and> has_prefix p (mPath M))
   | Some i \<Rightarrow> i < length (Mounts s) \<and> has_prefix p (mPath (Mounts s ! i)) \<and> 0 < length (mPath (Mounts s ! i)) \<and>
       (\<forall>M \<in> set (Mounts s). has_prefix p (mPath M) \<longrightarrow> length (mPath M) \<le> length (mPath (Mounts s ! i)))"
  using find_mount_loop_spec [of "-1" "-1" "[]" p "Mounts s"]
  by (auto simp: find_mount_def Let_def split: if_splits)

section \<open>The mutex\<close>

text \<open>The mutex as \<^verbatim>\<open>InitializeMutex\<close> leaves it, and as held once by the current CPU.\<close>

definition lock_idle :: "'z vfs_scheme \<Rightarrow> bool" where
  "lock_idle s \<longleftrightarrow> Mutex_Lock (VfsLock s) = 0 \<and> Owner (VfsLock s) = NoOwner \<and> RecursionCount (VfsLock s) = 0 \<and>
     CurCpu s < MaxCPUs"

definition lock_held :: "nat \<Rightarrow> 'z vfs_scheme \<Rightarrow> bool" where
  "lock_held n s \<longleftrightarrow> Mutex_Lock (VfsLock s) = 1 \<and> Owner (VfsLock s) = CurCpu s \<and>
     RecursionCount (VfsLock s) = word_of_nat n \<and> 0 < n \<and> n < 2 ^ 31 \<and> CurCpu s < MaxCPUs"

lemma cpu_not_NoOwner: "c < MaxCPUs \<Longrightarrow> c \<noteq> NoOwner"
  by auto

lemma acquire_idle:
  "lock_idle s \<Longrightarrow> \<exists>m. vfs_acquire s = Some (s\<lparr>VfsLock := m\<rparr>) \<and> lock_held 1 (s\<lparr>VfsLock := m\<rparr>)"
  using cpu_not_NoOwner [of "CurCpu s"]
  by (auto simp: lock_idle_def lock_held_def vfs_acquire_def AcquireMutex_def)

lemma acquire_held:
  "lock_held n s \<Longrightarrow> n + 1 < 2 ^ 31 \<Longrightarrow>
   \<exists>m. vfs_acquire s = Some (s\<lparr>VfsLock := m\<rparr>) \<and> lock_held (n + 1) (s\<lparr>VfsLock := m\<rparr>)"
  by (auto simp: lock_held_def vfs_acquire_def AcquireMutex_def)

lemma release_frame: "vfs_release s = s\<lparr>VfsLock := VfsLock (vfs_release s)\<rparr>"
  by (simp add: vfs_release_def)

lemma release_once: "lock_held 1 s \<Longrightarrow> lock_idle (vfs_release s)"
  by (simp add: lock_held_def lock_idle_def vfs_release_def ReleaseMutex_def)

lemma release_nested:
  assumes "lock_held (Suc n) s" "0 < n"
  shows "lock_held n (vfs_release s)"
proof -
  have "unat (word_of_nat n :: u32) = n"
    using assms by (simp add: lock_held_def unsigned_of_nat take_bit_nat_eq_self)
  then have "(word_of_nat n :: u32) \<noteq> 0" using assms(2) by (auto simp: word_unat_eq_iff)
  then show ?thesis using assms by (simp add: lock_held_def vfs_release_def ReleaseMutex_def)
qed

text \<open>While one CPU holds the mutex, a call on any other CPU does not come back.\<close>

lemma acquire_blocked:
  assumes "lock_held n s" "c \<noteq> CurCpu s"
  shows "vfs_acquire (s\<lparr>CurCpu := c\<rparr>) = None"
  using assms by (simp add: lock_held_def vfs_acquire_def AcquireMutex_def)

section \<open>Properties\<close>

text \<open>C23: \<^verbatim>\<open>__find_mount__\<close> returns an entry of the mount table whose path is a prefix of the given path
  and at least as long as every other such entry; it returns none only when no non-empty
  mount path is a prefix.\<close>

theorem find_mount_longest_prefix:
  "case find_mount p s of
     None \<Rightarrow> \<not> list_ex (\<lambda>M. mPath M \<noteq> [] \<and> has_prefix p (mPath M)) (Mounts s)
   | Some i \<Rightarrow> i < length (Mounts s) \<and> mPath (Mounts s ! i) \<noteq> [] \<and> has_prefix p (mPath (Mounts s ! i)) \<and>
       \<not> list_ex (\<lambda>M. has_prefix p (mPath M) \<and> length (mPath (Mounts s ! i)) < length (mPath M)) (Mounts s)"
  using find_mount_spec [where p = p and s = s] by (auto simp: list_ex_iff not_less split: option.splits)

text \<open>Resolving the root path takes the mutex and keeps it. From an idle mutex the call returns the
  root dentry with the mutex held, and from then on no other CPU's call of \<^verbatim>\<open>VfsResolve\<close>, for
  any path, comes back.\<close>

theorem VfsResolve_root_keeps_mutex:
  assumes "lock_idle s" "RootNode s \<noteq> 0"
  shows "\<exists>t. VfsResolve T (Some ''/'') s = Some (RootDe s, t) \<and> lock_held 1 t \<and>
    (\<forall>c p. c = CurCpu s \<or> VfsResolve T p (t\<lparr>CurCpu := c\<rparr>) = None)"
proof -
  obtain m where m: "vfs_acquire s = Some (s\<lparr>VfsLock := m\<rparr>)" "lock_held 1 (s\<lparr>VfsLock := m\<rparr>)"
    using acquire_idle [OF assms(1)] by blast
  let ?t = "s\<lparr>VfsLock := m\<rparr>"
  have "VfsResolve T (Some ''/'') s = Some (RootDe s, ?t)"
    using m(1) assms(2) by (simp add: VfsResolve_def)
  moreover have "VfsResolve T p (?t\<lparr>CurCpu := c\<rparr>) = None" if "c \<noteq> CurCpu s" for c p
    using acquire_blocked [OF m(2), of c] that by (simp add: VfsResolve_def)
  ultimately show ?thesis using m(2) by (intro exI [of _ ?t]) auto
qed

text \<open>What a file system must leave alone for the mount table to be the switch's own.\<close>

definition hooks_keep_mounts :: "'z vfs_scheme tables \<Rightarrow> bool" where
  "hooks_keep_mounts T \<longleftrightarrow>
     (\<forall>k d opts s. Mounts (snd (MountHooks T k d opts s)) = Mounts s) \<and>
     (\<forall>k f Sb s. sop_Umount (SOps T k) = Some f \<longrightarrow> Mounts (snd (f Sb s)) = Mounts s) \<and>
     (\<forall>k f Sb s. sop_Release (SOps T k) = Some f \<longrightarrow> Mounts (f Sb s) = Mounts s)"

lemma drop_super_mounts: "hooks_keep_mounts T \<Longrightarrow> Mounts (drop_super T Sb s) = Mounts s"
  by (auto simp: hooks_keep_mounts_def drop_super_def Let_def split: option.splits)

lemma acquire_frame: "vfs_acquire s = Some t \<Longrightarrow> \<exists>m. t = s\<lparr>VfsLock := m\<rparr>"
  by (auto simp: vfs_acquire_def split: option.splits)

lemma mounts_frame [simp]:
  "Mounts (vfs_release s) = Mounts s" "Mounts (snd (alloc_dentry n p v s)) = Mounts s"
  by (auto simp: vfs_release_def alloc_dentry_def kmalloc_def Let_def)

lemma alloc_dentry_mounts: "alloc_dentry n p v s = (d, t) \<Longrightarrow> Mounts t = Mounts s"
  using mounts_frame(2) [of n p v s] by simp

lemma hook_mounts: "hooks_keep_mounts T \<Longrightarrow> MountHooks T k d opts s = (Sb, t) \<Longrightarrow> Mounts t = Mounts s"
  unfolding hooks_keep_mounts_def by (metis snd_conv)

lemma VfsMount_mounts:
  assumes "VfsMount T Dev (Some p) Type Opts s = Some (Sb, t)" "Sb \<noteq> 0" "hooks_keep_mounts T"
  shows "Mounts t = Mounts s @ [\<lparr>mSb = Sb, mPath = p\<rparr>] \<and> length (Mounts t) \<le> 64"
proof -
  obtain u where u: "vfs_acquire s = Some u" using assms(1) by (cases "vfs_acquire s") (auto simp: VfsMount_def)
  then have mu: "Mounts u = Mounts s" using acquire_frame by fastforce
  note hk = hook_mounts [OF assms(3)]
  show ?thesis
    using assms(1,2) u mu unfolding VfsMount_def
    by (auto simp: Let_def split: option.splits if_splits prod.splits dest!: hk alloc_dentry_mounts)
qed

lemma cut_first_append: "\<not> list_ex P xs \<Longrightarrow> P x \<Longrightarrow> cut_first P (xs @ [x]) = xs"
  by (induction xs) auto

lemma find_append_new: "\<not> list_ex P xs \<Longrightarrow> P x \<Longrightarrow> find P (xs @ [x]) = Some x"
  by (induction xs) auto

lemma VfsUnmount_new:
  assumes "VfsUnmount T (Some p) t = Some (r, u)" "hooks_keep_mounts T"
    "Mounts t = ms @ [M]" "mPath M = p" "\<not> list_ex (\<lambda>N. mPath N = p) ms"
  shows "r = 0 \<and> Mounts u = ms"
proof -
  obtain a where a: "vfs_acquire t = Some a"
    using assms(1) by (cases "vfs_acquire t") (auto simp: VfsUnmount_def)
  then have ma: "Mounts a = ms @ [M]" using acquire_frame assms(3) by fastforce
  then have "find (\<lambda>N. mPath N = p) (Mounts a) = Some M" "cut_first (\<lambda>N. mPath N = p) (Mounts a) = ms"
    using find_append_new [OF assms(5), of M] cut_first_append [OF assms(5), of M] assms(4) by simp_all
  then show ?thesis
    using assms(1) a drop_super_mounts [OF assms(2)] by (auto simp: VfsUnmount_def Let_def split: if_splits)
qed

text \<open>What a file system must leave alone for the switch to keep track of its mutex.\<close>

definition ops_keep_lock :: "'z vfs_scheme tables \<Rightarrow> bool" where
  "ops_keep_lock T \<longleftrightarrow>
     (\<forall>k f n c s. op_Lookup (VOps T k) = Some f \<longrightarrow>
        VfsLock (snd (f n c s)) = VfsLock s \<and> CurCpu (snd (f n c s)) = CurCpu s) \<and>
     (\<forall>k f n c perm s. op_Mkdir (VOps T k) = Some f \<longrightarrow>
        VfsLock (snd (f n c perm s)) = VfsLock s \<and> CurCpu (snd (f n c perm s)) = CurCpu s)"

lemma node_ops_sel:
  "Option.bind (node_ops T n s) sel = Some f \<Longrightarrow> \<exists>k. sel (VOps T k) = Some f"
  by (auto simp: node_ops_def split: if_splits)

lemma kmalloc_lock: "VfsLock (snd (kmalloc s)) = VfsLock s" "CurCpu (snd (kmalloc s)) = CurCpu s"
  by (auto simp: kmalloc_def)

lemma alloc_dentry_lock:
  "VfsLock (snd (alloc_dentry n p v s)) = VfsLock s" "CurCpu (snd (alloc_dentry n p v s)) = CurCpu s"
  by (auto simp: alloc_dentry_def kmalloc_def Let_def)

lemma lookup_lock:
  assumes "ops_keep_lock T" "Option.bind (node_ops T n s) op_Lookup = Some f"
  shows "VfsLock (snd (f v c s')) = VfsLock s'" "CurCpu (snd (f v c s')) = CurCpu s'"
proof -
  obtain k where "op_Lookup (VOps T k) = Some f" using node_ops_sel [OF assms(2)] by blast
  then show "VfsLock (snd (f v c s')) = VfsLock s'" "CurCpu (snd (f v c s')) = CurCpu s'"
    using assms(1) unfolding ops_keep_lock_def by blast+
qed

lemma parent_loop_lock:
  assumes "ops_keep_lock T"
  shows "VfsLock (snd (parent_loop T ch Cur De p s)) = VfsLock s \<and>
         CurCpu (snd (parent_loop T ch Cur De p s)) = CurCpu s \<and>
         (ch \<longrightarrow> fst (parent_loop T ch Cur De p s) \<noteq> PFault)"
  using assms
proof (induction T ch Cur De p s rule: parent_loop.induct)
  case (1 T ch Cur De p s)
  show ?case
  proof (cases "p = [] \<or> next_comp 256 p = [] \<or> after_comp p = []")
    case True
    then show ?thesis by (subst (1 2 3) parent_loop.simps) (auto simp: Let_def)
  next
    case False
    show ?thesis
    proof (cases "Option.bind (node_ops T Cur s) op_Lookup")
      case None
      then show ?thesis using False by (subst (1 2 3) parent_loop.simps) (auto simp: Let_def)
    next
      case (Some f)
      obtain n s1 where l: "f Cur (next_comp 256 p) s = (n, s1)" by force
      obtain d s2 where k: "kmalloc s1 = (d, s2)" by force
      obtain e s3 where e: "alloc_dentry (next_comp 256 p) De n s2 = (e, s3)" by force
      have lk: "VfsLock s1 = VfsLock s" "CurCpu s1 = CurCpu s" "VfsLock s2 = VfsLock s" "CurCpu s2 = CurCpu s"
        "VfsLock s3 = VfsLock s" "CurCpu s3 = CurCpu s"
        using lookup_lock [OF "1.prems" Some, of Cur "next_comp 256 p" s] kmalloc_lock [of s1]
          alloc_dentry_lock [of "next_comp 256 p" De n s2] l k e by simp_all
      have eq: "parent_loop T ch Cur De p s =
         (if n = 0 then (PFail, s1) else if d = 0 then ((if ch then PFail else PFault), s2)
          else if e = 0 \<and> ch then (PFail, s3) else parent_loop T ch n e (after_comp p) s3)"
        using False Some l k e by (subst parent_loop.simps) (simp add: Let_def)
      show ?thesis
      proof (cases "n = 0 \<or> d = 0 \<or> e = 0 \<and> ch")
        case True
        then show ?thesis unfolding eq using lk by auto
      next
        case go: False
        have "VfsLock (snd (parent_loop T ch n e (after_comp p) s3)) = VfsLock s3 \<and>
              CurCpu (snd (parent_loop T ch n e (after_comp p) s3)) = CurCpu s3 \<and>
              (ch \<longrightarrow> fst (parent_loop T ch n e (after_comp p) s3) \<noteq> PFault)"
          using False go by (intro "1.IH" [OF _ refl _ _ Some l [symmetric] refl _ k [symmetric] refl _ e [symmetric] refl]) (auto intro: "1.prems")
        then show ?thesis unfolding eq using go lk by auto
      qed
    qed
  qed
qed

section \<open>A small instance\<close>

text \<open>A switch with one registered file-system type whose mount hook returns superblock 7.\<close>

definition no_vnode_ops :: "'s VnodeOps" where
  "no_vnode_ops = \<lparr>op_Open = None, op_Close = None, op_Read = None, op_Write = None, op_Lseek = None, op_Ioctl = None,
     op_Stat = None, op_Readdir = None, op_Lookup = None, op_Create = None, op_Unlink = None, op_Mkdir = None,
     op_Rmdir = None, op_Symlink = None, op_Readlink = None, op_Link = None, op_Rename = None, op_Chmod = None,
     op_Chown = None, op_Truncate = None, op_Sync = None, op_Map = None, op_Unmap = None\<rparr>"

definition demo_tables :: "vfs tables" where
  "demo_tables = \<lparr>VOps = (\<lambda>_. no_vnode_ops\<lparr>op_Mkdir := Some (\<lambda>n c p s. (0, s))\<rparr>),
     SOps = (\<lambda>_. \<lparr>sop_Sync = None, sop_StatFs = None, sop_Release = None, sop_Umount = Some (\<lambda>Sb s. (0, s))\<rparr>),
     MountHooks = (\<lambda>k d opts s. (7, s\<lparr>Superblocks := (Superblocks s)(7 := \<lparr>sbType = 0, sbDev = 0, sbFlags = 0, sbRoot = 3, sbOps = 1, sbPriv = 0\<rparr>)\<rparr>))\<rparr>"

definition demo_vfs :: vfs where
  "demo_vfs = \<lparr>NextPtr = 100, HeapLeft = 50, CurCpu = 0,
     VfsLock = \<lparr>Mutex_Lock = 0, Owner = NoOwner, RecursionCount = 0, Mutex_Name = ''vfs-central''\<rparr>,
     FsReg = [\<lparr>FsName = Some ''demofs'', FsMount = 1, FsPriv = 0\<rparr>], Mounts = [], RootNode = 3, RootDe = 4, Umask = 0,
     MaxName = 256, MaxPath = 1024, DirCacheLimit = 0, FileCacheLimit = 0, IoBlockSize = 0, DefaultFs = [],
     Vnodes = (\<lambda>_. \<lparr>vType = VNodeDIR, vOps = 1, vSb = 0, vPriv = 0, vRefcnt = 1\<rparr>),
     Dentries = (\<lambda>_. \<lparr>dName = ''/'', dParent = 0, dNode = 3, dFlags = 0\<rparr>),
     Files = (\<lambda>_. \<lparr>fNode = 0, fOffset = 0, fFlags = 0, fRefcnt = 0, fPriv = 0\<rparr>),
     Superblocks = (\<lambda>_. \<lparr>sbType = 0, sbDev = 0, sbFlags = 0, sbRoot = 0, sbOps = 0, sbPriv = 0\<rparr>)\<rparr>"

lemma demo_vfs_idle: "lock_idle demo_vfs"
  by (simp add: lock_idle_def demo_vfs_def)

theorem VfsResolve_root_keeps_mutex_witness:
  "\<exists>t. VfsResolve demo_tables (Some ''/'') demo_vfs = Some (4, t) \<and> lock_held 1 t"
proof -
  have r: "RootNode demo_vfs \<noteq> 0" "RootDe demo_vfs = 4" by (simp_all add: demo_vfs_def)
  show ?thesis using VfsResolve_root_keeps_mutex [OF demo_vfs_idle r(1), of demo_tables] unfolding r(2) by blast
qed

text \<open>C24: mounting and unmounting are inverse on the mount table. A successful \<^verbatim>\<open>VfsMount\<close> appends exactly one
  entry, within the table's 64; when the path was not mounted before, \<^verbatim>\<open>VfsUnmount\<close> of it
  succeeds and gives back the table as it was.\<close>

theorem VfsMount_VfsUnmount:
  assumes "hooks_keep_mounts T" "\<not> list_ex (\<lambda>M. mPath M = p) (Mounts s)"
    "VfsMount T Dev (Some p) Type Opts s = Some (Sb, t)" "Sb \<noteq> 0" "VfsUnmount T (Some p) t' = Some (r, u)"
    "Mounts t' = Mounts t"
  shows "Mounts t = Mounts s @ [\<lparr>mSb = Sb, mPath = p\<rparr>] \<and> length (Mounts t) \<le> 64 \<and> r = 0 \<and> Mounts u = Mounts s"
  using VfsMount_mounts [OF assms(3,4,1)] VfsUnmount_new [OF assms(5,1) _ _ assms(2)] assms(6) by auto

lemma demo_hooks: "hooks_keep_mounts demo_tables"
  by (simp add: hooks_keep_mounts_def demo_tables_def)

theorem VfsMount_VfsUnmount_witness:
  "\<exists>t r u. VfsMount demo_tables None (Some ''/dev'') (Some ''demofs'') None demo_vfs = Some (7, t) \<and>
     VfsUnmount demo_tables (Some ''/dev'') t = Some (r, u) \<and> Mounts u = []"
proof -
  obtain t where t: "VfsMount demo_tables None (Some ''/dev'') (Some ''demofs'') None demo_vfs = Some (7, t)"
    "lock_idle t"
    by (simp add: VfsMount_def VfsFindFs_def demo_vfs_def demo_tables_def vfs_acquire_def AcquireMutex_def
        vfs_release_def ReleaseMutex_def lock_idle_def)
  obtain m where "vfs_acquire t = Some (t\<lparr>VfsLock := m\<rparr>)" using acquire_idle [OF t(2)] by blast
  then obtain r u where u: "VfsUnmount demo_tables (Some ''/dev'') t = Some (r, u)"
    by (cases "find (\<lambda>M. mPath M = ''/dev'') (Mounts t)") (auto simp: VfsUnmount_def Let_def)
  have "Mounts demo_vfs = []" by (simp add: demo_vfs_def)
  then show ?thesis using VfsMount_VfsUnmount [OF demo_hooks _ t(1) _ u refl] t(1) u by auto
qed

text \<open>\<^verbatim>\<open>VfsMkdir\<close> is balanced. Started with an idle mutex, on every path, permission and outcome it
  comes back, and the mutex is idle again.\<close>

theorem VfsMkdir_balanced:
  assumes "lock_idle s" "ops_keep_lock T"
  shows "\<exists>r t. VfsMkdir T Path Perm s = Some (r, t) \<and> lock_idle t"
proof -
  obtain m where m: "vfs_acquire s = Some (s\<lparr>VfsLock := m\<rparr>)" "lock_held 1 (s\<lparr>VfsLock := m\<rparr>)"
    using acquire_idle [OF assms(1)] by blast
  let ?a = "s\<lparr>VfsLock := m\<rparr>"
  have rel: "lock_idle (vfs_release b)" if "VfsLock b = VfsLock ?a" "CurCpu b = CurCpu ?a" for b
    using release_once [of b] m(2) that by (simp add: lock_held_def)
  show ?thesis
  proof (cases Path)
    case None
    then show ?thesis using m(1) rel [of ?a] by (simp add: VfsMkdir_def)
  next
    case (Some p)
    obtain w b where w: "parent_of T True p ?a = (w, b)" by force
    have b: "VfsLock b = VfsLock ?a" "CurCpu b = CurCpu ?a" "w \<noteq> PFault"
      using parent_loop_lock [OF assms(2), of True "RootNode ?a" "RootDe ?a" "skip_sep p" ?a] w
      by (simp_all add: parent_of_def)
    show ?thesis
    proof (cases w)
      case (PBase Base Name)
      show ?thesis
      proof (cases "parent_op T op_Mkdir Base b")
        case None
        then show ?thesis using m(1) Some w PBase rel [OF b(1,2)] by (simp add: VfsMkdir_def)
      next
        case mk: (Some f)
        then obtain k where k: "op_Mkdir (VOps T k) = Some f"
          using node_ops_sel by (fastforce simp: parent_op_def split: if_splits)
        let ?r = "f (dNode (Dentries b Base)) Name Perm (vfs_release b)"
        have "VfsLock (snd ?r) = VfsLock (vfs_release b)" "CurCpu (snd ?r) = CurCpu (vfs_release b)"
          using assms(2) k unfolding ops_keep_lock_def by blast+
        then have "lock_idle (snd ?r)" using rel [OF b(1,2)] by (simp add: lock_idle_def)
        moreover have "VfsMkdir T Path Perm s = Some ?r"
          using m(1) Some w PBase mk by (simp add: VfsMkdir_def)
        ultimately show ?thesis by (metis prod.collapse)
      qed
    next
      case PFail
      then show ?thesis using m(1) Some w rel [OF b(1,2)] by (simp add: VfsMkdir_def)
    qed (use b in simp)
  qed
qed

theorem VfsMkdir_balanced_witness:
  "\<exists>r t. VfsMkdir demo_tables (Some ''/a/b'') \<lparr>Mode = 0, Uid = 0, Gid = 0\<rparr> demo_vfs = Some (r, t) \<and> lock_idle t"
proof -
  have "ops_keep_lock demo_tables" by (auto simp: ops_keep_lock_def demo_tables_def no_vnode_ops_def)
  from VfsMkdir_balanced [OF demo_vfs_idle this] show ?thesis .
qed

end
