(* ===== verification/PosixFd.thy ===== *)
theory PosixFd
  imports VFS
begin

text \<open>
  File descriptors and pipes, \<^verbatim>\<open>Kernel/Proc/ProcFD.c\<close>.

  \<open>fds\<close> is what these routines read and write besides the switch's state: the descriptor table they are
  given, the pipes (a partial map from pointers, so that a pipe that has been freed is absent) and the
  flags registers that the spin locks save. A routine returns \<open>None\<close> when the call does not come back:
  it spins on a lock its own CPU holds, or it touches a null pointer or a freed pipe. The flags
  \<^verbatim>\<open>IsFile\<close>, \<^verbatim>\<open>IsChar\<close> and \<^verbatim>\<open>IsBlock\<close> are truth values; a buffer to write from is a string, one to
  read into a returned string, each with the null pointer as a case of its own. The contents of a
  new pipe buffer, which nothing reads before it is written, are NUL bytes.
\<close>

section \<open>Data\<close>

record PosixFd =
  Fd :: int
  FdFlags :: int
  Obj :: nat
  FdRefcnt :: int
  IsFile :: bool
  IsChar :: bool
  IsBlock :: bool

record PosixFdTable =
  Entries :: "PosixFd list"
  FdCount :: int
  FdCap :: int
  StdinFd :: int
  StdoutFd :: int
  StderrFd :: int
  TabLock :: SpinLock

record PosixPipeT =
  PBufPtr :: nat
  PBuf :: string
  PCap :: int
  PHead :: int
  PTail :: int
  PLen :: int
  PLock :: SpinLock

record fds =
  Tab :: PosixFdTable
  Pipes :: "nat \<rightharpoonup> PosixPipeT"
  FdCpuFlags :: CpuFlags

section \<open>Helpers\<close>

definition tab_lock :: "u32 \<Rightarrow> fds \<Rightarrow> fds option" where
  "tab_lock cpu P = do {
     (L, F) \<leftarrow> AcquireSpinLock cpu (TabLock (Tab P), FdCpuFlags P);
     Some (P\<lparr>Tab := (Tab P)\<lparr>TabLock := L\<rparr>, FdCpuFlags := F\<rparr>) }"

definition tab_unlock :: "u32 \<Rightarrow> fds \<Rightarrow> fds" where
  "tab_unlock cpu P =
     (let (L, F) = ReleaseSpinLock cpu (TabLock (Tab P), FdCpuFlags P)
      in P\<lparr>Tab := (Tab P)\<lparr>TabLock := L\<rparr>, FdCpuFlags := F\<rparr>)"

definition IsValidFd :: "PosixFdTable \<Rightarrow> int \<Rightarrow> bool" where
  "IsValidFd T fd \<longleftrightarrow> 0 \<le> fd \<and> fd < FdCap T"

definition GetEntry :: "PosixFdTable \<Rightarrow> int \<Rightarrow> PosixFd option" where
  "GetEntry T fd = (if IsValidFd T fd then Some (Entries T ! nat fd) else None)"

definition FindFreeFd :: "PosixFdTable \<Rightarrow> int \<Rightarrow> int" where
  "FindFreeFd T Start =
     (let I = (if Start < 0 then 0 else Start) in
      case find (\<lambda>i. Fd (Entries T ! i) < 0) [nat I..<nat (FdCap T)] of
        Some i \<Rightarrow> int i
      | None \<Rightarrow> -1)"

definition InitEntry :: PosixFd where
  "InitEntry = \<lparr>Fd = -1, FdFlags = 0, Obj = 0, FdRefcnt = 0, IsFile = False, IsChar = False, IsBlock = False\<rparr>"

definition set_entry :: "int \<Rightarrow> PosixFd \<Rightarrow> int \<Rightarrow> fds \<Rightarrow> fds" where
  "set_entry fd E d P =
     P\<lparr>Tab := (Tab P)\<lparr>Entries := (Entries (Tab P))[nat fd := E], FdCount := FdCount (Tab P) + d\<rparr>\<rparr>"

section \<open>Pipes\<close>

fun pipe_put :: "string \<Rightarrow> PosixPipeT \<Rightarrow> nat \<times> PosixPipeT" where
  "pipe_put [] P = (0, P)"
| "pipe_put (c # cs) P =
     (if PLen P < PCap P
      then (let (W, P) = pipe_put cs (P\<lparr>PBuf := (PBuf P)[nat (PTail P) := c],
                                       PTail := (PTail P + 1) mod PCap P, PLen := PLen P + 1\<rparr>)
            in (W + 1, P))
      else (0, P))"

fun pipe_get :: "nat \<Rightarrow> PosixPipeT \<Rightarrow> string \<times> PosixPipeT" where
  "pipe_get 0 P = ([], P)"
| "pipe_get (Suc n) P =
     (if 0 < PLen P
      then (let (cs, P') = pipe_get n (P\<lparr>PHead := (PHead P + 1) mod PCap P, PLen := PLen P - 1\<rparr>)
            in (PBuf P ! nat (PHead P) # cs, P'))
      else ([], P))"

definition PipeWrite ::
  "u32 \<Rightarrow> string option \<Rightarrow> int \<Rightarrow> PosixPipeT \<times> CpuFlags \<Rightarrow> (int \<times> PosixPipeT \<times> CpuFlags) option"
where
  "PipeWrite cpu Buf Len = (\<lambda>(P, F). do {
     (L, F) \<leftarrow> AcquireSpinLock cpu (PLock P, F);
     let P = P\<lparr>PLock := L\<rparr>;
     if 0 < Len \<and> PLen P < PCap P \<and> (Buf = None \<or> PBufPtr P = 0) then None
     else
       (let (W, P) = pipe_put (case Buf of None \<Rightarrow> [] | Some b \<Rightarrow> take (nat Len) b) P;
            (L, F) = ReleaseSpinLock cpu (PLock P, F)
        in Some (int W, P\<lparr>PLock := L\<rparr>, F)) })"

definition PipeRead ::
  "u32 \<Rightarrow> bool \<Rightarrow> int \<Rightarrow> PosixPipeT \<times> CpuFlags \<Rightarrow> ((int \<times> string) \<times> PosixPipeT \<times> CpuFlags) option"
where
  "PipeRead cpu Buf Len = (\<lambda>(P, F). do {
     (L, F) \<leftarrow> AcquireSpinLock cpu (PLock P, F);
     let P = P\<lparr>PLock := L\<rparr>;
     if 0 < Len \<and> 0 < PLen P \<and> (\<not> Buf \<or> PBufPtr P = 0) then None
     else
       (let (cs, P) = pipe_get (nat Len) P;
            (L, F) = ReleaseSpinLock cpu (PLock P, F)
        in Some ((int (length cs), cs), P\<lparr>PLock := L\<rparr>, F)) })"

section \<open>Operations\<close>

type_synonym 'z fd_state = "fds \<times> 'z vfs_scheme"

definition PosixFdInit :: "int \<Rightarrow> 'z fd_state \<Rightarrow> (int \<times> 'z fd_state) option" where
  "PosixFdInit Cap = (\<lambda>(P, s).
     (let (E, s) = kmalloc s in
      if E = 0 \<and> 0 < Cap then None
      else Some (0, P\<lparr>Tab := \<lparr>Entries = replicate (nat Cap) InitEntry, FdCount = 0, FdCap = Cap, StdinFd = -1,
                               StdoutFd = -1, StderrFd = -1,
                               TabLock = InitializeSpinLock ''PosixFdTable'' (TabLock (Tab P))\<rparr>\<rparr>, s)))"

definition PosixOpen ::
  "'z vfs_scheme tables \<Rightarrow> bool \<Rightarrow> string option \<Rightarrow> int \<Rightarrow> int \<Rightarrow> 'z fd_state \<Rightarrow> (int \<times> 'z fd_state) option"
where
  "PosixOpen T HasTab Path flags mode = (\<lambda>(P, s).
     if \<not> HasTab \<or> Path = None then Some (-1, P, s)
     else do {
       P \<leftarrow> tab_lock (CurCpu s) P;
       let NewFd = FindFreeFd (Tab P) 0;
       if NewFd < 0 then Some (-1, tab_unlock (CurCpu s) P, s)
       else do {
         (F, s) \<leftarrow> VfsOpen T Path flags s;
         if F = 0 then Some (-1, tab_unlock (CurCpu s) P, s)
         else
           (let E = \<lparr>Fd = NewFd, FdFlags = flags, Obj = F, FdRefcnt = 1, IsFile = True, IsChar = False, IsBlock = False\<rparr>
            in Some (NewFd, tab_unlock (CurCpu s) (set_entry NewFd E 1 P), s)) } })"

text \<open>What \<^verbatim>\<open>PosixClose\<close> does to the object of a descriptor whose count has reached zero.\<close>

definition drop_obj :: "'z vfs_scheme tables \<Rightarrow> PosixFd \<Rightarrow> 'z fd_state \<Rightarrow> 'z fd_state option" where
  "drop_obj T E = (\<lambda>(P, s). do {
     s \<leftarrow> (if IsFile E \<and> Obj E \<noteq> 0 then do { (r, s) \<leftarrow> VfsClose T (Obj E) s; Some s } else Some s);
     if IsChar E \<and> Obj E \<noteq> 0
     then
       (case Pipes P (Obj E) of
          None \<Rightarrow> None
        | Some pipe \<Rightarrow> Some (P\<lparr>Pipes := (Pipes P)(Obj E := None)\<rparr>, kfree (Obj E) (kfree (PBufPtr pipe) s)))
     else Some (P, s) })"

definition PosixClose :: "'z vfs_scheme tables \<Rightarrow> int \<Rightarrow> 'z fd_state \<Rightarrow> (int \<times> 'z fd_state) option" where
  "PosixClose T fd = (\<lambda>(P, s). do {
     P \<leftarrow> tab_lock (CurCpu s) P;
     case GetEntry (Tab P) fd of
       None \<Rightarrow> Some (-1, tab_unlock (CurCpu s) P, s)
     | Some E \<Rightarrow>
         if Fd E < 0 then Some (-1, tab_unlock (CurCpu s) P, s)
         else
           (let E = E\<lparr>FdRefcnt := FdRefcnt E - 1\<rparr>;
                P = set_entry fd E 0 P
            in if FdRefcnt E \<le> 0
               then do {
                 (P, s) \<leftarrow> drop_obj T E (P, s);
                 Some (0, tab_unlock (CurCpu s) (set_entry fd InitEntry (-1) P), s) }
               else Some (0, tab_unlock (CurCpu s) P, s)) })"

definition PosixRead ::
  "'z vfs_scheme tables \<Rightarrow> int \<Rightarrow> bool \<Rightarrow> int \<Rightarrow> 'z fd_state \<Rightarrow> ((int \<times> string) \<times> 'z fd_state) option"
where
  "PosixRead T fd Buf Len = (\<lambda>(P, s). do {
     P \<leftarrow> tab_lock (CurCpu s) P;
     case GetEntry (Tab P) fd of
       None \<Rightarrow> Some ((-1, []), tab_unlock (CurCpu s) P, s)
     | Some E \<Rightarrow>
         if Fd E < 0 then Some ((-1, []), tab_unlock (CurCpu s) P, s)
         else if IsFile E
         then do { (R, s) \<leftarrow> VfsRead T (Obj E) Buf Len s; Some (R, tab_unlock (CurCpu s) P, s) }
         else if IsChar E
         then do {
           pipe \<leftarrow> Pipes P (Obj E);
           (R, pipe, F) \<leftarrow> PipeRead (CurCpu s) Buf Len (pipe, FdCpuFlags P);
           Some (R, tab_unlock (CurCpu s) (P\<lparr>Pipes := (Pipes P)(Obj E \<mapsto> pipe), FdCpuFlags := F\<rparr>), s) }
         else Some ((-1, []), tab_unlock (CurCpu s) P, s) })"

definition PosixWrite ::
  "'z vfs_scheme tables \<Rightarrow> int \<Rightarrow> string option \<Rightarrow> int \<Rightarrow> 'z fd_state \<Rightarrow> (int \<times> 'z fd_state) option"
where
  "PosixWrite T fd Buf Len = (\<lambda>(P, s). do {
     P \<leftarrow> tab_lock (CurCpu s) P;
     case GetEntry (Tab P) fd of
       None \<Rightarrow> Some (-1, tab_unlock (CurCpu s) P, s)
     | Some E \<Rightarrow>
         if Fd E < 0 then Some (-1, tab_unlock (CurCpu s) P, s)
         else if IsFile E
         then do { (W, s) \<leftarrow> VfsWrite T (Obj E) Buf Len s; Some (W, tab_unlock (CurCpu s) P, s) }
         else if IsChar E
         then do {
           pipe \<leftarrow> Pipes P (Obj E);
           (W, pipe, F) \<leftarrow> PipeWrite (CurCpu s) Buf Len (pipe, FdCpuFlags P);
           Some (W, tab_unlock (CurCpu s) (P\<lparr>Pipes := (Pipes P)(Obj E \<mapsto> pipe), FdCpuFlags := F\<rparr>), s) }
         else Some (-1, tab_unlock (CurCpu s) P, s) })"

definition PosixLseek ::
  "'z vfs_scheme tables \<Rightarrow> int \<Rightarrow> int \<Rightarrow> int \<Rightarrow> 'z fd_state \<Rightarrow> (int \<times> 'z fd_state) option"
where
  "PosixLseek T fd Off Wh = (\<lambda>(P, s). do {
     P \<leftarrow> tab_lock (CurCpu s) P;
     case GetEntry (Tab P) fd of
       None \<Rightarrow> Some (-1, tab_unlock (CurCpu s) P, s)
     | Some E \<Rightarrow>
         if Fd E < 0 \<or> \<not> IsFile E then Some (-1, tab_unlock (CurCpu s) P, s)
         else do { (R, s) \<leftarrow> VfsLseek T (Obj E) Off Wh s; Some (R, tab_unlock (CurCpu s) P, s) } })"

text \<open>The copy of an entry to another descriptor, as \<^verbatim>\<open>PosixDup\<close>, \<^verbatim>\<open>PosixDup2\<close> and \<^verbatim>\<open>PosixFcntl\<close> make it.\<close>

definition copy_entry :: "PosixFd \<Rightarrow> int \<Rightarrow> 'z fd_state \<Rightarrow> 'z fd_state" where
  "copy_entry E NewFd = (\<lambda>(P, s).
     (let N = E\<lparr>Fd := NewFd, FdRefcnt := FdRefcnt E + 1\<rparr>;
          s = (if IsFile N \<and> Obj N \<noteq> 0
               then s\<lparr>Files := (Files s)(Obj N := (Files s (Obj N))\<lparr>fRefcnt := fRefcnt (Files s (Obj N)) + 1\<rparr>)\<rparr>
               else s)
      in (set_entry NewFd N 1 P, s)))"

definition PosixDup :: "int \<Rightarrow> 'z fd_state \<Rightarrow> (int \<times> 'z fd_state) option" where
  "PosixDup fd = (\<lambda>(P, s). do {
     P \<leftarrow> tab_lock (CurCpu s) P;
     case GetEntry (Tab P) fd of
       None \<Rightarrow> Some (-1, tab_unlock (CurCpu s) P, s)
     | Some E \<Rightarrow>
         if Fd E < 0 then Some (-1, tab_unlock (CurCpu s) P, s)
         else
           (let NewFd = FindFreeFd (Tab P) 0 in
            if NewFd < 0 then Some (-1, tab_unlock (CurCpu s) P, s)
            else (let (P, s) = copy_entry E NewFd (P, s) in Some (NewFd, tab_unlock (CurCpu s) P, s))) })"

definition PosixDup2 :: "'z vfs_scheme tables \<Rightarrow> int \<Rightarrow> int \<Rightarrow> 'z fd_state \<Rightarrow> (int \<times> 'z fd_state) option" where
  "PosixDup2 T OldFd NewFd = (\<lambda>(P, s). do {
     P \<leftarrow> tab_lock (CurCpu s) P;
     case GetEntry (Tab P) OldFd of
       None \<Rightarrow> Some (-1, tab_unlock (CurCpu s) P, s)
     | Some E \<Rightarrow>
         if Fd E < 0 \<or> \<not> IsValidFd (Tab P) NewFd then Some (-1, tab_unlock (CurCpu s) P, s)
         else if OldFd = NewFd then Some (NewFd, tab_unlock (CurCpu s) P, s)
         else do {
           (rc, P, s) \<leftarrow> (if 0 \<le> Fd (Entries (Tab P) ! nat NewFd) then PosixClose T NewFd (P, s) else Some (0, P, s));
           if rc \<noteq> 0 then Some (-1, tab_unlock (CurCpu s) P, s)
           else
             (let (P, s) = copy_entry (Entries (Tab P) ! nat OldFd) NewFd (P, s)
              in Some (NewFd, tab_unlock (CurCpu s) P, s)) } })"

definition PosixPipe :: "'z fd_state \<Rightarrow> ((int \<times> (int \<times> int) option) \<times> 'z fd_state) option" where
  "PosixPipe = (\<lambda>(P, s). do {
     P \<leftarrow> tab_lock (CurCpu s) P;
     let Rd = FindFreeFd (Tab P) 0;
     let Wr = FindFreeFd (Tab P) (Rd + 1);
     if Rd < 0 \<or> Wr < 0 then Some ((-1, None), tab_unlock (CurCpu s) P, s)
     else
       (let (Q, s) = kmalloc s in
        if Q = 0 then None
        else
          (let (B, s) = kmalloc s;
               pipe = \<lparr>PBufPtr = B, PBuf = replicate 4096 (CHR 0x00), PCap = 4096, PHead = 0, PTail = 0, PLen = 0,
                       PLock = InitializeSpinLock ''PosixPipeT'' \<lparr>SpinLock_Lock = 0, SpinLock_CpuId = 0, SpinLock_Name = [], SpinLock_Flags = 0\<rparr>\<rparr>;
               ER = \<lparr>Fd = Rd, FdFlags = 1, Obj = Q, FdRefcnt = 1, IsFile = False, IsChar = True, IsBlock = False\<rparr>;
               EW = \<lparr>Fd = Wr, FdFlags = 2, Obj = Q, FdRefcnt = 1, IsFile = False, IsChar = True, IsBlock = False\<rparr>;
               P = set_entry Wr EW 1 (set_entry Rd ER 1 (P\<lparr>Pipes := (Pipes P)(Q \<mapsto> pipe)\<rparr>))
           in Some ((0, Some (Rd, Wr)), tab_unlock (CurCpu s) P, s))) })"

definition PosixFcntl :: "int \<Rightarrow> int \<Rightarrow> int \<Rightarrow> 'z fd_state \<Rightarrow> (int \<times> 'z fd_state) option" where
  "PosixFcntl fd Cmd Arg = (\<lambda>(P, s). do {
     P \<leftarrow> tab_lock (CurCpu s) P;
     case GetEntry (Tab P) fd of
       None \<Rightarrow> Some (-1, tab_unlock (CurCpu s) P, s)
     | Some E \<Rightarrow>
         if Fd E < 0 then Some (-1, tab_unlock (CurCpu s) P, s)
         else if Cmd = 0 then Some (FdFlags E, tab_unlock (CurCpu s) P, s)
         else if Cmd = 1
         then
           (let NewFd = FindFreeFd (Tab P) 0 in
            if NewFd < 0 then Some (-1, tab_unlock (CurCpu s) P, s)
            else (let (P, s) = copy_entry E NewFd (P, s) in Some (NewFd, tab_unlock (CurCpu s) P, s)))
         else Some (-1, tab_unlock (CurCpu s) P, s) })"

definition PosixIoctl :: "'z vfs_scheme tables \<Rightarrow> int \<Rightarrow> u64 \<Rightarrow> u64 \<Rightarrow> 'z fd_state \<Rightarrow> (int \<times> 'z fd_state) option" where
  "PosixIoctl T fd Cmd Arg = (\<lambda>(P, s). do {
     P \<leftarrow> tab_lock (CurCpu s) P;
     case GetEntry (Tab P) fd of
       None \<Rightarrow> Some (-1, tab_unlock (CurCpu s) P, s)
     | Some E \<Rightarrow>
         if Fd E < 0 \<or> \<not> IsFile E then Some (-1, tab_unlock (CurCpu s) P, s)
         else do { (R, s) \<leftarrow> VfsIoctl T (Obj E) Cmd Arg s; Some (R, tab_unlock (CurCpu s) P, s) } })"

definition PosixAccess :: "'z vfs_scheme tables \<Rightarrow> string option \<Rightarrow> int \<Rightarrow> 'z vfs_scheme \<Rightarrow> (int \<times> 'z vfs_scheme) option" where
  "PosixAccess T Path mode s = VfsAccess T Path mode s"

definition PosixStatPath ::
  "'z vfs_scheme tables \<Rightarrow> string option \<Rightarrow> bool \<Rightarrow> 'z vfs_scheme \<Rightarrow> ((int \<times> VfsStat option) \<times> 'z vfs_scheme) option"
where
  "PosixStatPath T Path Out s = VfsStats T Path Out s"

definition PosixFstat ::
  "'z vfs_scheme tables \<Rightarrow> int \<Rightarrow> bool \<Rightarrow> 'z fd_state \<Rightarrow> ((int \<times> VfsStat option) \<times> 'z fd_state) option"
where
  "PosixFstat T fd Out = (\<lambda>(P, s). do {
     P \<leftarrow> tab_lock (CurCpu s) P;
     case GetEntry (Tab P) fd of
       None \<Rightarrow> Some ((-1, None), tab_unlock (CurCpu s) P, s)
     | Some E \<Rightarrow>
         if Fd E < 0 \<or> \<not> IsFile E then Some ((-1, None), tab_unlock (CurCpu s) P, s)
         else do { (R, s) \<leftarrow> VfsFstats T (Obj E) Out s; Some (R, tab_unlock (CurCpu s) P, s) } })"

definition PosixMkdir :: "'z vfs_scheme tables \<Rightarrow> string option \<Rightarrow> int \<Rightarrow> 'z vfs_scheme \<Rightarrow> (int \<times> 'z vfs_scheme) option" where
  "PosixMkdir T Path mode s = VfsMkdir T Path \<lparr>Mode = mode, Uid = 0, Gid = 0\<rparr> s"

definition PosixRmdir :: "'z vfs_scheme tables \<Rightarrow> string option \<Rightarrow> 'z vfs_scheme \<Rightarrow> (int \<times> 'z vfs_scheme) option" where
  "PosixRmdir T Path s = VfsRmdir T Path s"

definition PosixUnlink :: "'z vfs_scheme tables \<Rightarrow> string option \<Rightarrow> 'z vfs_scheme \<Rightarrow> (int \<times> 'z vfs_scheme) option" where
  "PosixUnlink T Path s = VfsUnlink T Path s"

definition PosixRename ::
  "'z vfs_scheme tables \<Rightarrow> string option \<Rightarrow> string option \<Rightarrow> 'z vfs_scheme \<Rightarrow> (int \<times> 'z vfs_scheme) option"
where
  "PosixRename T Old New s = VfsRename T Old New 0 s"

section \<open>A pipe is a bounded queue\<close>

datatype queue_op = Put string | Get nat

fun run_queue ::
  "(string \<Rightarrow> 'q \<Rightarrow> nat \<times> 'q) \<Rightarrow> (nat \<Rightarrow> 'q \<Rightarrow> string \<times> 'q) \<Rightarrow> queue_op list \<Rightarrow> 'q \<Rightarrow> string \<times> string \<times> 'q"
where
  "run_queue put get [] q = ([], [], q)"
| "run_queue put get (Put cs # ops) q =
     (let (w, q) = put cs q; (written, read, q) = run_queue put get ops q in (take w cs @ written, read, q))"
| "run_queue put get (Get n # ops) q =
     (let (cs, q) = get n q; (written, read, q) = run_queue put get ops q in (written, cs @ read, q))"

locale byte_queue =
  fixes put :: "string \<Rightarrow> 'q \<Rightarrow> nat \<times> 'q" and get :: "nat \<Rightarrow> 'q \<Rightarrow> string \<times> 'q"
    and bytes :: "'q \<Rightarrow> string" and cap :: "'q \<Rightarrow> nat" and ok :: "'q \<Rightarrow> bool"
  assumes put: "ok q \<Longrightarrow> put cs q = (w, q') \<Longrightarrow>
      ok q' \<and> cap q' = cap q \<and> w = min (length cs) (cap q - length (bytes q)) \<and> bytes q' = bytes q @ take w cs"
    and get: "ok q \<Longrightarrow> get n q = (cs, q') \<Longrightarrow>
      ok q' \<and> cap q' = cap q \<and> cs = take n (bytes q) \<and> bytes q' = drop n (bytes q)"
    and bound: "ok q \<Longrightarrow> length (bytes q) \<le> cap q"
begin

lemma stream:
  "ok q \<Longrightarrow> run_queue put get ops q = (written, read, q') \<Longrightarrow>
   bytes q @ written = read @ bytes q' \<and> ok q' \<and> length (bytes q') \<le> cap q"
proof (induction ops arbitrary: q written read)
  case (Cons a ops)
  show ?case
  proof (cases a)
    case (Put cs)
    obtain w q1 where p: "put cs q = (w, q1)" by force
    obtain wr rd q2 where r: "run_queue put get ops q1 = (wr, rd, q2)" by (cases "run_queue put get ops q1") auto
    have 1: "ok q1" "cap q1 = cap q" "bytes q1 = bytes q @ take w cs" using put [OF Cons.prems(1) p] by blast+
    have "written = take w cs @ wr" "read = rd" "q' = q2" using Cons.prems(2) p r Put by simp_all
    then show ?thesis using Cons.IH [OF 1(1) r [folded \<open>q' = q2\<close>]] 1 by simp
  next
    case (Get n)
    obtain cs q1 where p: "get n q = (cs, q1)" by force
    obtain wr rd q2 where r: "run_queue put get ops q1 = (wr, rd, q2)" by (cases "run_queue put get ops q1") auto
    have 1: "ok q1" "cap q1 = cap q" "bytes q = cs @ bytes q1" using get [OF Cons.prems(1) p] by simp_all
    have "written = wr" "read = cs @ rd" "q' = q2" using Cons.prems(2) p r Get by simp_all
    then show ?thesis using Cons.IH [OF 1(1) r [folded \<open>q' = q2\<close>]] 1 by simp
  qed
qed (use bound in auto)

end

definition pipe_ok :: "PosixPipeT \<Rightarrow> bool" where
  "pipe_ok P \<longleftrightarrow> 0 < PCap P \<and> length (PBuf P) = nat (PCap P) \<and> 0 \<le> PHead P \<and> PHead P < PCap P \<and> 0 \<le> PLen P \<and>
     PLen P \<le> PCap P \<and> PTail P = (PHead P + PLen P) mod PCap P"

definition pipe_bytes :: "PosixPipeT \<Rightarrow> string" where
  "pipe_bytes P = map (\<lambda>i. PBuf P ! nat ((PHead P + int i) mod PCap P)) [0..<nat (PLen P)]"

lemma mod_inj_window:
  fixes h i j c :: int
  assumes "(h + i) mod c = (h + j) mod c" "0 \<le> i" "i < c" "0 \<le> j" "j < c"
  shows "i = j"
proof -
  have "(h + i - h) mod c = (h + j - h) mod c" using assms(1) by (metis mod_diff_left_eq)
  then show ?thesis using assms by simp
qed

lemma pipe_put_one:
  fixes c :: char
  assumes "pipe_ok P" "PLen P < PCap P"
  defines "Q \<equiv> P\<lparr>PBuf := (PBuf P)[nat (PTail P) := c], PTail := (PTail P + 1) mod PCap P, PLen := PLen P + 1\<rparr>"
  shows "pipe_ok Q \<and> pipe_bytes Q = pipe_bytes P @ [c] \<and> PCap Q = PCap P"
proof -
  have ok: "0 < PCap P" "length (PBuf P) = nat (PCap P)" "0 \<le> PHead P" "PHead P < PCap P" "0 \<le> PLen P"
    "PTail P = (PHead P + PLen P) mod PCap P" using assms(1) by (auto simp: pipe_ok_def)
  have t: "0 \<le> PTail P" "PTail P < PCap P" using ok by simp_all
  have old: "(PBuf P)[nat (PTail P) := c] ! nat ((PHead P + int i) mod PCap P) = PBuf P ! nat ((PHead P + int i) mod PCap P)"
    if "i < nat (PLen P)" for i
  proof -
    have "(PHead P + int i) mod PCap P \<noteq> PTail P"
    proof
      assume "(PHead P + int i) mod PCap P = PTail P"
      then have "(PHead P + int i) mod PCap P = (PHead P + PLen P) mod PCap P" using ok(6) by simp
      moreover have "int i < PLen P" using that by simp
      ultimately show False using mod_inj_window [of "PHead P" "int i" "PCap P" "PLen P"] ok(5) assms(2) by linarith
    qed
    then have "nat ((PHead P + int i) mod PCap P) \<noteq> nat (PTail P)" using t ok(1) eq_nat_nat_iff [of "(PHead P + int i) mod PCap P" "PTail P"] by simp
    then show ?thesis by simp
  qed
  have n: "nat (PLen P + 1) = Suc (nat (PLen P))" using ok(5) by simp
  have idx: "nat ((PHead P + int (nat (PLen P))) mod PCap P) = nat (PTail P)" by (simp only: ok(6) nat_0_le [OF ok(5)])
  have "nat (PTail P) < length (PBuf P)" using t ok(2) by linarith
  then have new: "(PBuf P)[nat (PTail P) := c] ! nat ((PHead P + int (nat (PLen P))) mod PCap P) = c"
    unfolding idx by simp
  have "pipe_bytes Q = pipe_bytes P @ [c]"
    unfolding pipe_bytes_def Q_def using old new n by simp
  moreover have "(PTail P + 1) mod PCap P = (PHead P + (PLen P + 1)) mod PCap P"
    unfolding ok(6) mod_add_left_eq by (simp add: add.assoc)
  then have "pipe_ok Q" using ok(1-5) assms(2) by (simp add: pipe_ok_def Q_def)
  ultimately show ?thesis by (simp add: Q_def)
qed

lemma min_step: "b < a \<Longrightarrow> Suc (min n (a - Suc b)) = min (Suc n) (a - b)" for a b :: nat
  by simp

lemma pipe_put_spec:
  assumes "pipe_ok P" "pipe_put cs P = (w, Q)"
  shows "pipe_ok Q \<and> PCap Q = PCap P \<and> w = min (length cs) (nat (PCap P) - length (pipe_bytes P)) \<and>
         pipe_bytes Q = pipe_bytes P @ take w cs \<and> PLock Q = PLock P \<and> PBufPtr Q = PBufPtr P"
  using assms
proof (induction cs arbitrary: P w Q)
  case (Cons c cs)
  let ?P = "P\<lparr>PBuf := (PBuf P)[nat (PTail P) := c], PTail := (PTail P + 1) mod PCap P, PLen := PLen P + 1\<rparr>"
  have len: "length (pipe_bytes P) = nat (PLen P)" by (simp add: pipe_bytes_def)
  show ?case
  proof (cases "PLen P < PCap P")
    case True
    obtain v R where r: "pipe_put cs ?P = (v, R)" by force
    have one: "pipe_ok ?P" "pipe_bytes ?P = pipe_bytes P @ [c]" using pipe_put_one [OF Cons.prems(1) True, of c] by auto
    have w: "w = Suc v" "Q = R" using Cons.prems(2) True r by auto
    have "nat (PLen P) < nat (PCap P)" using True Cons.prems(1) by (simp add: pipe_ok_def)
    note m = min_step [OF this, of "length cs"]
    have v: "v = min (length cs) (nat (PCap P) - Suc (nat (PLen P)))"
      and R: "pipe_bytes R = pipe_bytes P @ c # take v cs" "pipe_ok R" "PCap R = PCap P" "PLock R = PLock P" "PBufPtr R = PBufPtr P"
      using Cons.IH [OF one(1) r] one(2) len by auto
    have "w = min (length (c # cs)) (nat (PCap P) - length (pipe_bytes P))"
      by (simp only: w(1) v m len list.size add_Suc_right add_0_right)
    moreover have "take w (c # cs) = c # take v cs" by (simp add: w(1))
    ultimately show ?thesis using R w(2) by metis
  next
    case False
    then show ?thesis using Cons.prems len by (auto simp: pipe_ok_def)
  qed
qed simp

lemma pipe_get_one:
  assumes "pipe_ok P" "0 < PLen P"
  shows "pipe_ok (P\<lparr>PHead := (PHead P + 1) mod PCap P, PLen := PLen P - 1\<rparr>)"
    and "pipe_bytes P = PBuf P ! nat (PHead P) # pipe_bytes (P\<lparr>PHead := (PHead P + 1) mod PCap P, PLen := PLen P - 1\<rparr>)"
proof -
  have ok: "0 < PCap P" "length (PBuf P) = nat (PCap P)" "0 \<le> PHead P" "PHead P < PCap P" "0 \<le> PLen P" "PLen P \<le> PCap P"
    "PTail P = (PHead P + PLen P) mod PCap P" using assms(1) by (auto simp: pipe_ok_def)
  have "((PHead P + 1) mod PCap P + (PLen P - 1)) mod PCap P = (PHead P + PLen P) mod PCap P"
    unfolding mod_add_left_eq by simp
  then show "pipe_ok (P\<lparr>PHead := (PHead P + 1) mod PCap P, PLen := PLen P - 1\<rparr>)"
    using ok(1-6) assms(2) ok(7) unfolding pipe_ok_def by simp
  have n: "nat (PLen P) = Suc (nat (PLen P - 1))" using assms(2) by simp
  have m: "((PHead P + 1) mod PCap P + int i) mod PCap P = (PHead P + int (Suc i)) mod PCap P" for i
    unfolding mod_add_left_eq by (simp add: add.assoc)
  have "(PHead P + int 0) mod PCap P = PHead P" using ok by simp
  then show "pipe_bytes P = PBuf P ! nat (PHead P) # pipe_bytes (P\<lparr>PHead := (PHead P + 1) mod PCap P, PLen := PLen P - 1\<rparr>)"
    unfolding pipe_bytes_def n by (simp add: m map_Suc_upt [symmetric] upt_conv_Cons del: upt_Suc of_nat_Suc)
qed

lemma pipe_get_spec:
  assumes "pipe_ok P" "pipe_get n P = (cs, Q)"
  shows "pipe_ok Q \<and> PCap Q = PCap P \<and> cs = take n (pipe_bytes P) \<and> pipe_bytes Q = drop n (pipe_bytes P) \<and>
         PLock Q = PLock P \<and> PBufPtr Q = PBufPtr P"
  using assms
proof (induction n arbitrary: P cs Q)
  case (Suc n)
  let ?P = "P\<lparr>PHead := (PHead P + 1) mod PCap P, PLen := PLen P - 1\<rparr>"
  show ?case
  proof (cases "0 < PLen P")
    case True
    obtain ds R where r: "pipe_get n ?P = (ds, R)" by force
    have "cs = PBuf P ! nat (PHead P) # ds" "Q = R" using Suc.prems(2) True r by auto
    then show ?thesis
      using Suc.IH [OF pipe_get_one(1) [OF Suc.prems(1) True] r] pipe_get_one(2) [OF Suc.prems(1) True] by simp
  next
    case False
    then have "pipe_bytes P = []" by (simp add: pipe_bytes_def)
    then show ?thesis using Suc.prems False by auto
  qed
qed simp

lemma pipe_bytes_bound: "pipe_ok P \<Longrightarrow> length (pipe_bytes P) \<le> nat (PCap P)"
  by (auto simp: pipe_ok_def pipe_bytes_def)

text \<open>The routines with their lock: \<^verbatim>\<open>__PipeWrite__\<close> of a whole string and \<^verbatim>\<open>__PipeRead__\<close> of a number of bytes.\<close>

definition write_call :: "u32 \<Rightarrow> string \<Rightarrow> PosixPipeT \<times> CpuFlags \<Rightarrow> nat \<times> PosixPipeT \<times> CpuFlags" where
  "write_call cpu cs q = (case PipeWrite cpu (Some cs) (int (length cs)) q of None \<Rightarrow> (0, q) | Some (W, q') \<Rightarrow> (nat W, q'))"

definition read_call :: "u32 \<Rightarrow> nat \<Rightarrow> PosixPipeT \<times> CpuFlags \<Rightarrow> string \<times> PosixPipeT \<times> CpuFlags" where
  "read_call cpu n q = (case PipeRead cpu True (int n) q of None \<Rightarrow> ([], q) | Some ((R, cs), q') \<Rightarrow> (cs, q'))"

definition pipe_ready :: "PosixPipeT \<times> CpuFlags \<Rightarrow> bool" where
  "pipe_ready q \<longleftrightarrow> pipe_ok (fst q) \<and> SpinLock_Lock (PLock (fst q)) = 0 \<and> PBufPtr (fst q) \<noteq> 0"

lemma pipe_lock_frame: "pipe_ok (P\<lparr>PLock := L\<rparr>) = pipe_ok P" "pipe_bytes (P\<lparr>PLock := L\<rparr>) = pipe_bytes P"
  by (simp_all add: pipe_ok_def pipe_bytes_def)

lemma PipeWrite_spec:
  assumes "pipe_ready q"
  shows "\<exists>w q'. PipeWrite cpu (Some cs) (int (length cs)) q = Some (int w, q') \<and> pipe_ready q' \<and> PCap (fst q') = PCap (fst q) \<and>
     w = min (length cs) (nat (PCap (fst q)) - length (pipe_bytes (fst q))) \<and>
     pipe_bytes (fst q') = pipe_bytes (fst q) @ take w cs"
proof -
  obtain P F where q: "q = (P, F)" by force
  have P: "pipe_ok P" "SpinLock_Lock (PLock P) = 0" "PBufPtr P \<noteq> 0" using assms by (auto simp: pipe_ready_def q)
  let ?L = "(PLock P)\<lparr>SpinLock_Lock := 1, SpinLock_CpuId := cpu\<rparr>"
  obtain w Q where r: "pipe_put cs (P\<lparr>PLock := ?L\<rparr>) = (w, Q)" by force
  note sp = pipe_put_spec [OF _ r, unfolded pipe_lock_frame, OF P(1)]
  let ?Q = "Q\<lparr>PLock := (PLock Q)\<lparr>SpinLock_CpuId := NoOwner, SpinLock_Lock := 0\<rparr>\<rparr>"
  obtain F' where call: "PipeWrite cpu (Some cs) (int (length cs)) q = Some (int w, ?Q, F')"
    using r P by (simp add: q PipeWrite_def AcquireSpinLock_def ReleaseSpinLock_def Let_def)
  have "pipe_ready (?Q, F')" using sp P(3) by (simp add: pipe_ready_def pipe_lock_frame)
  then show ?thesis using call sp by (intro exI [of _ w] exI [of _ "(?Q, F')"]) (simp add: pipe_lock_frame q)
qed

lemma PipeRead_spec:
  assumes "pipe_ready q"
  shows "\<exists>cs q'. PipeRead cpu True (int n) q = Some ((int (length cs), cs), q') \<and> pipe_ready q' \<and> PCap (fst q') = PCap (fst q) \<and>
     cs = take n (pipe_bytes (fst q)) \<and> pipe_bytes (fst q') = drop n (pipe_bytes (fst q))"
proof -
  obtain P F where q: "q = (P, F)" by force
  have P: "pipe_ok P" "SpinLock_Lock (PLock P) = 0" "PBufPtr P \<noteq> 0" using assms by (auto simp: pipe_ready_def q)
  let ?L = "(PLock P)\<lparr>SpinLock_Lock := 1, SpinLock_CpuId := cpu\<rparr>"
  obtain cs Q where r: "pipe_get n (P\<lparr>PLock := ?L\<rparr>) = (cs, Q)" by force
  note sp = pipe_get_spec [OF _ r, unfolded pipe_lock_frame, OF P(1)]
  let ?Q = "Q\<lparr>PLock := (PLock Q)\<lparr>SpinLock_CpuId := NoOwner, SpinLock_Lock := 0\<rparr>\<rparr>"
  obtain F' where call: "PipeRead cpu True (int n) q = Some ((int (length cs), cs), ?Q, F')"
    using r P by (simp add: q PipeRead_def AcquireSpinLock_def ReleaseSpinLock_def Let_def)
  have "pipe_ready (?Q, F')" using sp P(3) by (simp add: pipe_ready_def pipe_lock_frame)
  then show ?thesis using call sp by (intro exI [of _ cs] exI [of _ "(?Q, F')"]) (simp add: pipe_lock_frame q)
qed

interpretation pipe: byte_queue "write_call cpu" "read_call cpu" "\<lambda>q. pipe_bytes (fst q)" "\<lambda>q. nat (PCap (fst q))" pipe_ready
  for cpu
proof
  fix q cs w q'
  assume "pipe_ready q" "write_call cpu cs q = (w, q')"
  then show "pipe_ready q' \<and> nat (PCap (fst q')) = nat (PCap (fst q)) \<and>
     w = min (length cs) (nat (PCap (fst q)) - length (pipe_bytes (fst q))) \<and> pipe_bytes (fst q') = pipe_bytes (fst q) @ take w cs"
    using PipeWrite_spec [of q cpu cs] by (auto simp: write_call_def)
next
  fix q n cs q'
  assume "pipe_ready q" "read_call cpu n q = (cs, q')"
  then show "pipe_ready q' \<and> nat (PCap (fst q')) = nat (PCap (fst q)) \<and>
     cs = take n (pipe_bytes (fst q)) \<and> pipe_bytes (fst q') = drop n (pipe_bytes (fst q))"
    using PipeRead_spec [of q cpu n] by (auto simp: read_call_def)
next
  fix q assume "pipe_ready q"
  then show "length (pipe_bytes (fst q)) \<le> nat (PCap (fst q))" by (simp add: pipe_bytes_bound pipe_ready_def)
qed

section \<open>The descriptor table\<close>

definition open_count :: "PosixFd list \<Rightarrow> int" where
  "open_count xs = sum_list (map (\<lambda>E. if 0 \<le> Fd E then 1 else 0) xs)"

text \<open>A free entry is initialised, a used one carries its own index, and \<^verbatim>\<open>Count\<close> counts the used ones.\<close>

definition fd_ok :: "PosixFdTable \<Rightarrow> bool" where
  "fd_ok T \<longleftrightarrow> length (Entries T) = nat (FdCap T) \<and>
     (\<forall>i < length (Entries T). Entries T ! i = InitEntry \<or> Fd (Entries T ! i) = int i) \<and>
     FdCount T = open_count (Entries T)"

lemma open_count_update:
  "i < length xs \<Longrightarrow> open_count (xs[i := E]) =
     open_count xs + (if 0 \<le> Fd E then 1 else 0) - (if 0 \<le> Fd (xs ! i) then 1 else 0)"
proof (induction xs arbitrary: i)
  case (Cons x xs)
  then show ?case by (cases i) (auto simp: open_count_def)
qed simp

lemma set_entry_ok:
  assumes "fd_ok (Tab P)" "0 \<le> fd" "fd < FdCap (Tab P)" "E = InitEntry \<or> Fd E = fd"
    and "d = (if 0 \<le> Fd E then 1 else 0) - (if 0 \<le> Fd (Entries (Tab P) ! nat fd) then 1 else 0)"
  shows "fd_ok (Tab (set_entry fd E d P))"
proof -
  have i: "nat fd < length (Entries (Tab P))" using assms(1-3) by (simp add: fd_ok_def)
  show ?thesis using assms i
    by (auto simp: fd_ok_def set_entry_def open_count_update nth_list_update)
qed

lemma tab_lock_simps:
  "tab_lock cpu P = Some P' \<Longrightarrow> \<exists>L F. P' = P\<lparr>Tab := (Tab P)\<lparr>TabLock := L\<rparr>, FdCpuFlags := F\<rparr> \<and> SpinLock_Lock (TabLock (Tab P)) = 0 \<and> SpinLock_Lock L = 1"
  by (auto simp: tab_lock_def AcquireSpinLock_def Let_def split: if_splits)

lemma lock_fields [simp]:
  "fd_ok (T\<lparr>TabLock := L\<rparr>) = fd_ok T"
  "fd_ok (Tab (tab_unlock cpu P)) = fd_ok (Tab P)"
  "Entries (Tab (tab_unlock cpu P)) = Entries (Tab P)" "FdCount (Tab (tab_unlock cpu P)) = FdCount (Tab P)"
  "FdCap (Tab (tab_unlock cpu P)) = FdCap (Tab P)" "Pipes (tab_unlock cpu P) = Pipes P"
  by (simp_all add: fd_ok_def tab_unlock_def ReleaseSpinLock_def Let_def)

lemma tab_lock_ok: "tab_lock cpu P = Some P' \<Longrightarrow> fd_ok (Tab P') = fd_ok (Tab P)"
  using tab_lock_simps [of cpu P P'] by auto

lemma GetEntry_Some: "GetEntry T fd = Some E \<longleftrightarrow> 0 \<le> fd \<and> fd < FdCap T \<and> E = Entries T ! nat fd"
  by (auto simp: GetEntry_def IsValidFd_def)

lemma FindFreeFd_spec:
  assumes "0 \<le> FindFreeFd T Start"
  shows "let fd = FindFreeFd T Start in max 0 Start \<le> fd \<and> fd < FdCap T \<and> Fd (Entries T ! nat fd) < 0 \<and>
     (\<forall>j. max 0 Start \<le> j \<longrightarrow> j < fd \<longrightarrow> 0 \<le> Fd (Entries T ! nat j))"
proof -
  define I where "I = (if Start < 0 then 0 else Start)"
  let ?r = "[nat I..<nat (FdCap T)]"
  obtain n where n: "find (\<lambda>i. Fd (Entries T ! i) < 0) ?r = Some n" "FindFreeFd T Start = int n"
    using assms by (auto simp: FindFreeFd_def I_def [symmetric] Let_def split: option.splits)
  from n(1) obtain k where k: "k < length ?r" "n = ?r ! k" "Fd (Entries T ! n) < 0" "\<forall>j<k. \<not> Fd (Entries T ! (?r ! j)) < 0"
    by (auto simp: find_Some_iff)
  have n': "n = nat I + k" "n < nat (FdCap T)" using k(1,2) by auto
  have "0 \<le> Fd (Entries T ! nat j)" if "I \<le> j" "j < int n" for j
  proof -
    have a: "nat I \<le> nat j" "nat j < n" using that by (simp_all add: nat_less_iff I_def split: if_splits)
    then have "?r ! (nat j - nat I) = nat I + (nat j - nat I)" using n'(2) by (intro nth_upt) linarith
    moreover have "nat j - nat I < k" using a n'(1) by linarith
    ultimately show ?thesis using k(4) a(1) by fastforce
  qed
  moreover have "max 0 Start = I" "I \<le> int n" using n'(1) by (auto simp: I_def)
  moreover have "int n < FdCap T" using n'(2) by linarith
  ultimately show ?thesis using k(3) by (simp add: Let_def n(2))
qed

lemma FindFreeFd_free:
  "FindFreeFd T 0 = fd \<Longrightarrow> \<not> fd < 0 \<Longrightarrow> 0 \<le> fd \<and> fd < FdCap T \<and> Fd (Entries T ! nat fd) < 0"
  using FindFreeFd_spec [of T 0] by (auto simp: Let_def)

text \<open>Each operation keeps the table well formed.\<close>

lemma fd_ok_entry: "fd_ok T \<Longrightarrow> i < length (Entries T) \<Longrightarrow> Entries T ! i = InitEntry \<or> Fd (Entries T ! i) = int i"
  by (simp add: fd_ok_def)

lemma copy_entry_at:
  assumes "fd_ok (Tab P)" "0 \<le> fd \<and> fd < FdCap (Tab P) \<and> Fd (Entries (Tab P) ! nat fd) < 0" "copy_entry E fd (P, s) = (P', s')"
  shows "fd_ok (Tab P')"
  using set_entry_ok [OF assms(1), of fd "E\<lparr>Fd := fd, FdRefcnt := FdRefcnt E + 1\<rparr>" 1] assms(2,3)
  by (auto simp: copy_entry_def Let_def)

lemma copy_entry_ok:
  "fd_ok (Tab P) \<Longrightarrow> FindFreeFd (Tab P) 0 = fd \<Longrightarrow> \<not> fd < 0 \<Longrightarrow> copy_entry E fd (P, s) = (P', s') \<Longrightarrow> fd_ok (Tab P')"
  by (rule copy_entry_at [OF _ FindFreeFd_free])

lemma PosixFdInit_ok: "PosixFdInit Cap (P, s) = Some (r, P', s') \<Longrightarrow> fd_ok (Tab P')"
  by (auto simp: PosixFdInit_def fd_ok_def open_count_def InitEntry_def Let_def sum_list_replicate split: prod.splits if_splits)

lemma PosixOpen_ok: "PosixOpen T h p fl m (P, s) = Some (r, P', s') \<Longrightarrow> fd_ok (Tab P) \<Longrightarrow> fd_ok (Tab P')"
proof -
  assume o: "PosixOpen T h p fl m (P, s) = Some (r, P', s')" and ok: "fd_ok (Tab P)"
  show ?thesis
  proof (cases "\<not> h \<or> p = None")
    case False
    then obtain P1 where l: "tab_lock (CurCpu s) P = Some P1" using o by (auto simp: PosixOpen_def split: bind_splits)
    have ok1: "fd_ok (Tab P1)" using tab_lock_ok [OF l] ok by simp
    let ?fd = "FindFreeFd (Tab P1) 0"
    show ?thesis
    proof (cases "?fd < 0")
      case fd: False
      then obtain F s1 where v: "VfsOpen T p fl s = Some (F, s1)" using o l False by (auto simp: PosixOpen_def Let_def split: bind_splits)
      have "fd_ok (Tab (set_entry ?fd \<lparr>Fd = ?fd, FdFlags = fl, Obj = F, FdRefcnt = 1, IsFile = True, IsChar = False, IsBlock = False\<rparr> 1 P1))"
        by (rule set_entry_ok [OF ok1]) (use FindFreeFd_free [OF refl fd] in auto)
      then show ?thesis using o l False fd v ok1 by (auto simp: PosixOpen_def Let_def split: if_splits)
    qed (use o l False ok1 in \<open>auto simp: PosixOpen_def\<close>)
  qed (use o ok in \<open>auto simp: PosixOpen_def\<close>)
qed

lemma drop_obj_tab: "drop_obj T E (P, s) = Some (P', s') \<Longrightarrow> Tab P' = Tab P"
  by (auto simp: drop_obj_def split: if_splits option.splits bind_splits)

lemma PosixClose_ok: "PosixClose T fd (P, s) = Some (r, P', s') \<Longrightarrow> fd_ok (Tab P) \<Longrightarrow> fd_ok (Tab P')"
proof -
  assume o: "PosixClose T fd (P, s) = Some (r, P', s')" and ok: "fd_ok (Tab P)"
  then obtain P1 where l: "tab_lock (CurCpu s) P = Some P1" by (auto simp: PosixClose_def split: bind_splits)
  have ok1: "fd_ok (Tab P1)" using tab_lock_ok [OF l] ok by simp
  show ?thesis
  proof (cases "GetEntry (Tab P1) fd")
    case None
    then show ?thesis using o l ok1 by (auto simp: PosixClose_def)
  next
    case (Some E)
    then have g: "0 \<le> fd" "fd < FdCap (Tab P1)" "E = Entries (Tab P1) ! nat fd" by (auto simp: GetEntry_Some)
    show ?thesis
    proof (cases "Fd E < 0")
      case True
      then show ?thesis using o l Some ok1 by (auto simp: PosixClose_def)
    next
      case False
      let ?E = "E\<lparr>FdRefcnt := FdRefcnt E - 1\<rparr>"
      have i: "nat fd < length (Entries (Tab P1))" using ok1 g by (simp add: fd_ok_def)
      then have "E = InitEntry \<or> Fd E = int (nat fd)" using fd_ok_entry [OF ok1] g(3) by blast
      then have fd: "Fd E = fd" using g(1) False by (auto simp: InitEntry_def)
      have ok2: "fd_ok (Tab (set_entry fd ?E 0 P1))"
        by (rule set_entry_ok [OF ok1 g(1,2)]) (use fd g in auto)
      have ok3: "fd_ok (Tab (set_entry fd InitEntry (-1) Q))" if "Tab Q = Tab (set_entry fd ?E 0 P1)" for Q
        by (rule set_entry_ok) (use that ok2 g fd i in \<open>auto simp: set_entry_def InitEntry_def\<close>)
      show ?thesis
      proof (cases "FdRefcnt ?E \<le> 0")
        case True
        then obtain Q s2 where d: "drop_obj T ?E (set_entry fd ?E 0 P1, s) = Some (Q, s2)"
          using o l Some False by (auto simp: PosixClose_def Let_def split: bind_splits)
        then show ?thesis using o l Some False True ok3 [OF drop_obj_tab [OF d]] by (auto simp: PosixClose_def Let_def)
      next
        case keep: False
        then show ?thesis using o l Some False ok2 by (auto simp: PosixClose_def Let_def)
      qed
    qed
  qed
qed

lemma PosixDup_ok: "PosixDup fd (P, s) = Some (r, P', s') \<Longrightarrow> fd_ok (Tab P) \<Longrightarrow> fd_ok (Tab P')"
  using copy_entry_ok tab_lock_ok
  by (fastforce simp: PosixDup_def Let_def split: bind_splits option.splits if_splits prod.splits)

lemma PosixFcntl_ok: "PosixFcntl fd c a (P, s) = Some (r, P', s') \<Longrightarrow> fd_ok (Tab P) \<Longrightarrow> fd_ok (Tab P')"
  using copy_entry_ok tab_lock_ok
  by (fastforce simp: PosixFcntl_def Let_def split: bind_splits option.splits if_splits prod.splits)

lemma PosixClose_held: "SpinLock_Lock (TabLock (Tab P)) \<noteq> 0 \<Longrightarrow> PosixClose T fd (P, s) = None"
  by (simp add: PosixClose_def tab_lock_def AcquireSpinLock_def Let_def)

lemma PosixDup2_ok: "PosixDup2 T a b (P, s) = Some (r, P', s') \<Longrightarrow> fd_ok (Tab P) \<Longrightarrow> fd_ok (Tab P')"
proof -
  assume o: "PosixDup2 T a b (P, s) = Some (r, P', s')" and ok: "fd_ok (Tab P)"
  then obtain P1 where l: "tab_lock (CurCpu s) P = Some P1" by (auto simp: PosixDup2_def split: bind_splits)
  have ok1: "fd_ok (Tab P1)" using tab_lock_ok [OF l] ok by simp
  have held: "PosixClose T b (P1, s) = None"
    by (rule PosixClose_held) (use tab_lock_simps [OF l] in auto)
  show ?thesis
  proof (cases "GetEntry (Tab P1) a = None \<or> Fd (Entries (Tab P1) ! nat a) < 0 \<or> \<not> IsValidFd (Tab P1) b \<or> a = b")
    case True
    then show ?thesis using o l ok1 by (auto simp: PosixDup2_def GetEntry_Some split: option.splits if_splits)
  next
    case False
    then have e: "GetEntry (Tab P1) a = Some (Entries (Tab P1) ! nat a)" by (auto simp: GetEntry_Some)
    have b: "Fd (Entries (Tab P1) ! nat b) < 0"
      using o l e False held by (auto simp: PosixDup2_def split: if_splits)
    obtain Q s2 where c: "copy_entry (Entries (Tab P1) ! nat a) b (P1, s) = (Q, s2)" by force
    have "fd_ok (Tab Q)" by (rule copy_entry_at [OF ok1 _ c]) (use b False in \<open>auto simp: IsValidFd_def\<close>)
    then show ?thesis using o l e False b c by (auto simp: PosixDup2_def)
  qed
qed

lemma PosixPipe_ok: "PosixPipe (P, s) = Some (r, P', s') \<Longrightarrow> fd_ok (Tab P) \<Longrightarrow> fd_ok (Tab P')"
proof -
  assume o: "PosixPipe (P, s) = Some (r, P', s')" and ok: "fd_ok (Tab P)"
  then obtain P1 where l: "tab_lock (CurCpu s) P = Some P1" by (auto simp: PosixPipe_def split: bind_splits)
  have ok1: "fd_ok (Tab P1)" using tab_lock_ok [OF l] ok by simp
  let ?rd = "FindFreeFd (Tab P1) 0"
  let ?wr = "FindFreeFd (Tab P1) (?rd + 1)"
  show ?thesis
  proof (cases "?rd < 0 \<or> ?wr < 0")
    case True
    then show ?thesis using o l ok1 by (auto simp: PosixPipe_def Let_def)
  next
    case False
    have rd: "0 \<le> ?rd" "?rd < FdCap (Tab P1)" "Fd (Entries (Tab P1) ! nat ?rd) < 0" using FindFreeFd_free [of "Tab P1"] False by auto
    have wr: "?rd < ?wr" "?wr < FdCap (Tab P1)" "Fd (Entries (Tab P1) ! nat ?wr) < 0"
      using FindFreeFd_spec [of "Tab P1" "?rd + 1"] False rd(1) by (auto simp: Let_def)
    obtain q s1 where q: "kmalloc s = (q, s1)" by force
    obtain bf s2 where bf: "kmalloc s1 = (bf, s2)" by force
    have two: "fd_ok (Tab (set_entry ?wr EW 1 (set_entry ?rd ER 1 P2)))"
      if "Fd ER = ?rd" "Fd EW = ?wr" "Tab P2 = Tab P1" for ER EW P2
    proof (rule set_entry_ok)
      show "fd_ok (Tab (set_entry ?rd ER 1 P2))" by (rule set_entry_ok) (use that ok1 rd in auto)
      show "1 = (if 0 \<le> Fd EW then 1 else 0) - (if 0 \<le> Fd (Entries (Tab (set_entry ?rd ER 1 P2)) ! nat ?wr) then 1 else (0 :: int))"
        using that wr rd(1) by (simp add: set_entry_def nth_list_update eq_nat_nat_iff)
    qed (use that wr rd in \<open>auto simp: set_entry_def\<close>)
    show ?thesis using o l False q bf two by (auto simp: PosixPipe_def Let_def split: if_splits)
  qed
qed

lemma fd_frame_ok:
  "PosixRead T fd B n (P, s) = Some (x, P', s') \<Longrightarrow> fd_ok (Tab P) \<Longrightarrow> fd_ok (Tab P')"
  "PosixWrite T fd W n (P, s) = Some (y, P', s') \<Longrightarrow> fd_ok (Tab P) \<Longrightarrow> fd_ok (Tab P')"
  "PosixLseek T fd off wh (P, s) = Some (y, P', s') \<Longrightarrow> fd_ok (Tab P) \<Longrightarrow> fd_ok (Tab P')"
  "PosixIoctl T fd c a (P, s) = Some (y, P', s') \<Longrightarrow> fd_ok (Tab P) \<Longrightarrow> fd_ok (Tab P')"
  "PosixFstat T fd B (P, s) = Some (z, P', s') \<Longrightarrow> fd_ok (Tab P) \<Longrightarrow> fd_ok (Tab P')"
  by (auto simp: PosixRead_def PosixWrite_def PosixLseek_def PosixIoctl_def PosixFstat_def dest: tab_lock_ok
      split: bind_splits option.splits if_splits)

text \<open>The states of a descriptor table from its initialisation on, through every operation that returns.\<close>

inductive fd_reach :: "'z vfs_scheme tables \<Rightarrow> 'z fd_state \<Rightarrow> bool" for T where
  fd_init: "PosixFdInit Cap x = Some (r, y) \<Longrightarrow> fd_reach T y"
| fd_opn: "fd_reach T x \<Longrightarrow> PosixOpen T h p fl m x = Some (r, y) \<Longrightarrow> fd_reach T y"
| fd_cls: "fd_reach T x \<Longrightarrow> PosixClose T fd x = Some (r, y) \<Longrightarrow> fd_reach T y"
| fd_read: "fd_reach T x \<Longrightarrow> PosixRead T fd B n x = Some (rb, y) \<Longrightarrow> fd_reach T y"
| fd_write: "fd_reach T x \<Longrightarrow> PosixWrite T fd W n x = Some (r, y) \<Longrightarrow> fd_reach T y"
| fd_lseek: "fd_reach T x \<Longrightarrow> PosixLseek T fd off wh x = Some (r, y) \<Longrightarrow> fd_reach T y"
| fd_dup: "fd_reach T x \<Longrightarrow> PosixDup fd x = Some (r, y) \<Longrightarrow> fd_reach T y"
| fd_dup2: "fd_reach T x \<Longrightarrow> PosixDup2 T fd fd' x = Some (r, y) \<Longrightarrow> fd_reach T y"
| fd_pipe: "fd_reach T x \<Longrightarrow> PosixPipe x = Some (rp, y) \<Longrightarrow> fd_reach T y"
| fd_fcntl: "fd_reach T x \<Longrightarrow> PosixFcntl fd c a x = Some (r, y) \<Longrightarrow> fd_reach T y"
| fd_ioctl: "fd_reach T x \<Longrightarrow> PosixIoctl T fd cmd arg x = Some (r, y) \<Longrightarrow> fd_reach T y"
| fd_fstat: "fd_reach T x \<Longrightarrow> PosixFstat T fd B x = Some (rs, y) \<Longrightarrow> fd_reach T y"

lemma fd_reach_ok: "fd_reach T x \<Longrightarrow> fd_ok (Tab (fst x))"
proof (induction rule: fd_reach.induct)
  case (fd_init Cap x r y)
  then show ?case by (cases x; cases y) (simp add: PosixFdInit_ok)
next
  case (fd_opn x h p fl m r y)
  then show ?case by (cases x; cases y) (simp add: PosixOpen_ok)
next
  case (fd_cls x fd r y)
  then show ?case by (cases x; cases y) (simp add: PosixClose_ok)
next
  case (fd_dup x fd r y)
  then show ?case by (cases x; cases y) (simp add: PosixDup_ok)
next
  case (fd_dup2 x fd fd' r y)
  then show ?case by (cases x; cases y) (simp add: PosixDup2_ok)
next
  case (fd_pipe x rp y)
  then show ?case by (cases x; cases y) (simp add: PosixPipe_ok)
next
  case (fd_fcntl x fd c a r y)
  then show ?case by (cases x; cases y) (simp add: PosixFcntl_ok)
qed (metis fd_frame_ok prod.collapse)+

lemma tab_lock_free:
  "SpinLock_Lock (TabLock (Tab P)) = 0 \<Longrightarrow> \<exists>L F. tab_lock cpu P = Some (P\<lparr>Tab := (Tab P)\<lparr>TabLock := L\<rparr>, FdCpuFlags := F\<rparr>)"
proof -
  assume "SpinLock_Lock (TabLock (Tab P)) = 0"
  then obtain P' where "tab_lock cpu P = Some P'" by (simp add: tab_lock_def AcquireSpinLock_def Let_def)
  then show ?thesis using tab_lock_simps [of cpu P P'] by blast
qed

lemma tab_unlock_free: "SpinLock_Lock (TabLock (Tab (tab_unlock cpu P))) = 0"
  by (simp add: tab_unlock_def ReleaseSpinLock_def Let_def)

text \<open>The table after a successful \<^verbatim>\<open>PosixPipe\<close>.\<close>

lemma PosixPipe_result:
  assumes "fd_ok (Tab P)" "PosixPipe (P, s) = Some ((0, Some (rd, wr)), P1, s1)"
  shows "\<exists>q pipe. q \<noteq> 0 \<and> 0 \<le> rd \<and> rd < wr \<and> wr < FdCap (Tab P1) \<and> nat wr < length (Entries (Tab P1)) \<and> Pipes P1 q = Some pipe \<and>
     Entries (Tab P1) ! nat rd = \<lparr>Fd = rd, FdFlags = 1, Obj = q, FdRefcnt = 1, IsFile = False, IsChar = True, IsBlock = False\<rparr> \<and>
     Entries (Tab P1) ! nat wr = \<lparr>Fd = wr, FdFlags = 2, Obj = q, FdRefcnt = 1, IsFile = False, IsChar = True, IsBlock = False\<rparr> \<and>
     SpinLock_Lock (TabLock (Tab P1)) = 0"
proof -
  obtain P0 where l: "tab_lock (CurCpu s) P = Some P0" using assms by (auto simp: PosixPipe_def split: bind_splits)
  obtain L G where P0: "P0 = P\<lparr>Tab := (Tab P)\<lparr>TabLock := L\<rparr>, FdCpuFlags := G\<rparr>" using tab_lock_simps [OF l] by blast
  obtain q s2 where q: "kmalloc s = (q, s2)" by force
  obtain bf s3 where bf: "kmalloc s2 = (bf, s3)" by force
  have e: "rd = FindFreeFd (Tab P0) 0" "wr = FindFreeFd (Tab P0) (rd + 1)" "\<not> rd < 0" "\<not> wr < 0" "q \<noteq> 0"
    using assms(2) l q bf by (auto simp: PosixPipe_def Let_def split: if_splits)
  have rd: "0 \<le> rd" "rd < FdCap (Tab P)" using FindFreeFd_free [OF e(1) [symmetric] e(3)] by (auto simp: P0)
  have wr: "rd < wr" "wr < FdCap (Tab P)" using FindFreeFd_spec [of "Tab P0" "rd + 1"] e rd(1) by (auto simp: Let_def P0)
  have i: "nat rd < length (Entries (Tab P))" "nat wr < length (Entries (Tab P))" "nat rd \<noteq> nat wr"
    using assms(1) rd wr by (auto simp: fd_ok_def)
  show ?thesis using assms(2) l q bf e i rd wr
    by (intro exI [of _ q]) (auto simp: PosixPipe_def Let_def set_entry_def P0 tab_unlock_free nth_list_update split: if_splits)
qed

section \<open>Properties\<close>

lemma PosixOpen_result:
  assumes "PosixOpen T h p fl m (P, s) = Some (fd, P1, s1)" "0 \<le> fd"
  shows "\<exists>F. fd = FindFreeFd (Tab P) 0 \<and> F \<noteq> 0 \<and> FdCount (Tab P1) = FdCount (Tab P) + 1 \<and> FdCap (Tab P1) = FdCap (Tab P) \<and>
     Entries (Tab P1) = (Entries (Tab P))[nat fd := \<lparr>Fd = fd, FdFlags = fl, Obj = F, FdRefcnt = 1, IsFile = True, IsChar = False, IsBlock = False\<rparr>]"
proof -
  obtain P0 where l: "tab_lock (CurCpu s) P = Some P0" using assms by (auto simp: PosixOpen_def split: bind_splits if_splits)
  obtain L G where P0: "P0 = P\<lparr>Tab := (Tab P)\<lparr>TabLock := L\<rparr>, FdCpuFlags := G\<rparr>" using tab_lock_simps [OF l] by blast
  have ff: "FindFreeFd (Tab P0) 0 = FindFreeFd (Tab P) 0" by (simp add: P0 FindFreeFd_def)
  obtain F s2 where v: "VfsOpen T p fl s = Some (F, s2)"
    using assms l by (auto simp: PosixOpen_def Let_def split: bind_splits if_splits)
  show ?thesis using assms l ff v
    by (intro exI [of _ F]) (auto simp: PosixOpen_def Let_def set_entry_def P0 split: if_splits)
qed

lemma PosixClose_last:
  assumes "PosixClose T fd (P, s) = Some (r, P1, s1)" "0 \<le> fd" "fd < FdCap (Tab P)" "nat fd < length (Entries (Tab P))"
    and "0 \<le> Fd (Entries (Tab P) ! nat fd)" "FdRefcnt (Entries (Tab P) ! nat fd) = 1"
  shows "r = 0 \<and> Entries (Tab P1) = (Entries (Tab P))[nat fd := InitEntry] \<and> FdCount (Tab P1) = FdCount (Tab P) - 1"
proof -
  obtain P0 where l: "tab_lock (CurCpu s) P = Some P0" using assms by (auto simp: PosixClose_def split: bind_splits)
  obtain L G where P0: "P0 = P\<lparr>Tab := (Tab P)\<lparr>TabLock := L\<rparr>, FdCpuFlags := G\<rparr>" using tab_lock_simps [OF l] by blast
  let ?E = "Entries (Tab P) ! nat fd"
  have g: "GetEntry (Tab P0) fd = Some ?E" using assms by (simp add: GetEntry_Some P0)
  let ?E' = "?E\<lparr>FdRefcnt := FdRefcnt ?E - 1\<rparr>"
  obtain Q s2 where d: "drop_obj T ?E' (set_entry fd ?E' 0 P0, s) = Some (Q, s2)"
    using assms l g by (auto simp: PosixClose_def Let_def split: bind_splits)
  have "Tab Q = Tab (set_entry fd ?E' 0 P0)" by (rule drop_obj_tab [OF d])
  then show ?thesis using assms l g d by (auto simp: PosixClose_def Let_def set_entry_def P0)
qed

text \<open>C9: a pipe delivers a stream. Started from any well-formed pipe with its lock free, every sequence of
  \<^verbatim>\<open>__PipeWrite__\<close> and \<^verbatim>\<open>__PipeRead__\<close> calls satisfies: what the pipe held followed by all bytes accepted
  equals all bytes delivered followed by what the pipe holds. No byte is lost, duplicated or reordered
  across the wrap-around of the ring, and the pipe never holds more than its capacity.\<close>

theorem pipe_stream:
  assumes "pipe_ready q"
  shows "case run_queue (write_call cpu) (read_call cpu) ops q of (written, read, q') \<Rightarrow>
     pipe_bytes (fst q) @ written = read @ pipe_bytes (fst q') \<and> pipe_ready q' \<and>
     length (pipe_bytes (fst q')) \<le> nat (PCap (fst q))"
  using pipe.stream [OF assms, where cpu = cpu and ops = ops] by (auto split: prod.split)

definition demo_lock :: SpinLock where
  "demo_lock = \<lparr>SpinLock_Lock = 0, SpinLock_CpuId = NoOwner, SpinLock_Name = ''demo'', SpinLock_Flags = 0\<rparr>"

definition demo_pipe :: "PosixPipeT \<times> CpuFlags" where
  "demo_pipe = (\<lparr>PBufPtr = 9, PBuf = ''....'', PCap = 4, PHead = 3, PTail = 3, PLen = 0, PLock = demo_lock\<rparr>,
                \<lparr>RFlags = (\<lambda>_. 0x202), SavedFlags = (\<lambda>_. 0)\<rparr>)"

theorem pipe_stream_witness:
  "case run_queue (write_call 0) (read_call 0) [Put ''abcdef'', Get 3, Put ''xyz'', Get 9] demo_pipe of
     (written, read, q') \<Rightarrow> written = read @ pipe_bytes (fst q')"
proof -
  have "pipe_ready demo_pipe" by (simp add: pipe_ready_def pipe_ok_def demo_pipe_def demo_lock_def)
  moreover have "pipe_bytes (fst demo_pipe) = []" by (simp add: demo_pipe_def pipe_bytes_def)
  ultimately show ?thesis using pipe_stream [of demo_pipe 0 "[Put ''abcdef'', Get 3, Put ''xyz'', Get 9]"]
    by (simp only: append_Nil) (auto split: prod.splits)
qed

text \<open>C13: the descriptor table is an invariant of the whole interface. In every state reached from
  \<^verbatim>\<open>PosixFdInit\<close> through any sequence of returning calls, free entries are initialised, a used entry
  carries its own index, and \<^verbatim>\<open>Count\<close> is the number of used entries.\<close>

theorem fd_table_invariant:
  assumes "fd_reach T x"
  shows "fd_ok (Tab (fst x))"
  by (rule fd_reach_ok [OF assms])

text \<open>Opening and closing are inverse on the table. \<^verbatim>\<open>PosixOpen\<close> hands out the lowest free descriptor, and closing
  it gives back exactly the entries and the count from before.\<close>

theorem PosixOpen_PosixClose:
  assumes "fd_ok (Tab P)" "PosixOpen T h p fl m (P, s) = Some (fd, P1, s1)" "0 \<le> fd" "PosixClose T fd (P1, s1) = Some (r, P2, s2)"
  shows "r = 0 \<and> Entries (Tab P2) = Entries (Tab P) \<and> FdCount (Tab P2) = FdCount (Tab P) \<and>
     Fd (Entries (Tab P1) ! nat fd) = fd \<and> (\<forall>j. 0 \<le> j \<longrightarrow> j < fd \<longrightarrow> 0 \<le> Fd (Entries (Tab P) ! nat j))"
proof -
  obtain F where o: "fd = FindFreeFd (Tab P) 0" "FdCount (Tab P1) = FdCount (Tab P) + 1" "FdCap (Tab P1) = FdCap (Tab P)"
     "Entries (Tab P1) = (Entries (Tab P))[nat fd := \<lparr>Fd = fd, FdFlags = fl, Obj = F, FdRefcnt = 1, IsFile = True, IsChar = False, IsBlock = False\<rparr>]"
    using PosixOpen_result [OF assms(2,3)] by blast
  have sp: "fd < FdCap (Tab P)" "Fd (Entries (Tab P) ! nat fd) < 0" "\<forall>j. 0 \<le> j \<longrightarrow> j < fd \<longrightarrow> 0 \<le> Fd (Entries (Tab P) ! nat j)"
    using FindFreeFd_spec [of "Tab P" 0] assms(3) o(1) by (auto simp: Let_def)
  have i: "nat fd < length (Entries (Tab P))" using assms(1,3) sp(1) by (simp add: fd_ok_def)
  have free: "Entries (Tab P) ! nat fd = InitEntry" using fd_ok_entry [OF assms(1) i] sp(2) assms(3) by (auto split: if_splits)
  have "r = 0 \<and> Entries (Tab P2) = (Entries (Tab P1))[nat fd := InitEntry] \<and> FdCount (Tab P2) = FdCount (Tab P1) - 1"
    by (rule PosixClose_last [OF assms(4,3)]) (use o sp i assms(3) in auto)
  then show ?thesis using o i free sp(3) list_update_id [of "Entries (Tab P)" "nat fd"] by simp
qed

text \<open>A duplicated descriptor cannot be closed. \<^verbatim>\<open>PosixDup\<close> gives the copy the count of the original plus one,
  although each entry counts for itself: \<^verbatim>\<open>PosixClose\<close> of the copy reports success and leaves it open.\<close>

theorem PosixDup_close_keeps_open:
  assumes "fd_ok (Tab P)" "PosixDup fd (P, s) = Some (n, P1, s1)" "0 \<le> n" "1 \<le> FdRefcnt (Entries (Tab P) ! nat fd)"
  shows "\<exists>P2 s2. PosixClose T n (P1, s1) = Some (0, P2, s2) \<and> Fd (Entries (Tab P2) ! nat n) = n"
proof -
  obtain P0 where l: "tab_lock (CurCpu s) P = Some P0" using assms by (auto simp: PosixDup_def split: bind_splits)
  obtain L G where P0: "P0 = P\<lparr>Tab := (Tab P)\<lparr>TabLock := L\<rparr>, FdCpuFlags := G\<rparr>" using tab_lock_simps [OF l] by blast
  let ?E = "Entries (Tab P) ! nat fd"
  have g: "GetEntry (Tab P0) fd = Some ?E" "n = FindFreeFd (Tab P0) 0"
    using assms(2,3) l by (auto simp: PosixDup_def GetEntry_Some P0 Let_def split: option.splits if_splits prod.splits)
  obtain Q s2 where c: "copy_entry ?E n (P0, s) = (Q, s2)" by force
  have P1: "P1 = tab_unlock (CurCpu s2) Q" "s1 = s2" using assms(2,3) l g c by (auto simp: PosixDup_def Let_def split: if_splits)
  have i: "nat n < length (Entries (Tab P))" "n < FdCap (Tab P)"
    using FindFreeFd_free [of "Tab P0" n] g(2) assms(1,3) by (auto simp: fd_ok_def P0)
  have e: "Entries (Tab P1) ! nat n = ?E\<lparr>Fd := n, FdRefcnt := FdRefcnt ?E + 1\<rparr>" "FdCap (Tab P1) = FdCap (Tab P)"
     "length (Entries (Tab P1)) = length (Entries (Tab P))"
    using c i by (auto simp: P1 copy_entry_def set_entry_def P0 Let_def)
  have "SpinLock_Lock (TabLock (Tab P1)) = 0" by (simp add: P1 tab_unlock_def ReleaseSpinLock_def Let_def)
  then obtain R where r: "tab_lock (CurCpu s1) P1 = Some R" by (simp add: tab_lock_def AcquireSpinLock_def Let_def)
  obtain L' G' where R: "R = P1\<lparr>Tab := (Tab P1)\<lparr>TabLock := L'\<rparr>, FdCpuFlags := G'\<rparr>" using tab_lock_simps [OF r] by blast
  have "GetEntry (Tab R) n = Some (?E\<lparr>Fd := n, FdRefcnt := FdRefcnt ?E + 1\<rparr>)" using e i assms(3) by (simp add: GetEntry_Some R)
  then show ?thesis using r assms(3,4) i e by (auto simp: PosixClose_def Let_def set_entry_def R)
qed

text \<open>\<^verbatim>\<open>PosixDup2\<close> onto an open descriptor never returns: it calls \<^verbatim>\<open>PosixClose\<close> while it holds the lock of the
  table, and \<^verbatim>\<open>PosixClose\<close> waits for that lock.\<close>

theorem PosixDup2_open_target_hangs:
  assumes "IsValidFd (Tab P) old" "IsValidFd (Tab P) new" "old \<noteq> new"
    and "0 \<le> Fd (Entries (Tab P) ! nat old)" "0 \<le> Fd (Entries (Tab P) ! nat new)"
  shows "PosixDup2 T old new (P, s) = None"
proof (cases "tab_lock (CurCpu s) P")
  case (Some P0)
  obtain L G where P0: "P0 = P\<lparr>Tab := (Tab P)\<lparr>TabLock := L\<rparr>, FdCpuFlags := G\<rparr>" "SpinLock_Lock L = 1"
    using tab_lock_simps [OF Some] by blast
  have "PosixClose T new (P0, s) = None" by (rule PosixClose_held) (simp add: P0)
  then show ?thesis using Some assms by (simp add: PosixDup2_def GetEntry_def IsValidFd_def P0)
qed (simp add: PosixDup2_def)

text \<open>Closing one end of a pipe frees the pipe under the other end. After \<^verbatim>\<open>PosixPipe\<close>, closing the read end
  succeeds and frees both blocks; the write end still refers to them, so that a write or a close through it works on
  freed memory.\<close>

theorem PosixClose_frees_shared_pipe:
  assumes "fd_ok (Tab P)" "PosixPipe (P, s) = Some ((0, Some (rd, wr)), P1, s1)"
  shows "\<exists>P2 s2. PosixClose T rd (P1, s1) = Some (0, P2, s2) \<and> Fd (Entries (Tab P2) ! nat wr) = wr \<and>
     PosixWrite T wr b n (P2, s2) = None \<and> PosixClose T wr (P2, s2) = None"
proof -
  obtain q pipe where p: "q \<noteq> 0" "0 \<le> rd" "rd < wr" "wr < FdCap (Tab P1)" "nat wr < length (Entries (Tab P1))" "Pipes P1 q = Some pipe"
     "Entries (Tab P1) ! nat rd = \<lparr>Fd = rd, FdFlags = 1, Obj = q, FdRefcnt = 1, IsFile = False, IsChar = True, IsBlock = False\<rparr>"
     "Entries (Tab P1) ! nat wr = \<lparr>Fd = wr, FdFlags = 2, Obj = q, FdRefcnt = 1, IsFile = False, IsChar = True, IsBlock = False\<rparr>"
     "SpinLock_Lock (TabLock (Tab P1)) = 0"
    using PosixPipe_result [OF assms] by blast
  have ne: "nat rd \<noteq> nat wr" using p(2,3) by simp
  obtain L G where l: "tab_lock (CurCpu s1) P1 = Some (P1\<lparr>Tab := (Tab P1)\<lparr>TabLock := L\<rparr>, FdCpuFlags := G\<rparr>)" using tab_lock_free [OF p(9)] by blast
  let ?P1 = "P1\<lparr>Tab := (Tab P1)\<lparr>TabLock := L\<rparr>, FdCpuFlags := G\<rparr>"
  obtain P2 s2 where c: "PosixClose T rd (P1, s1) = Some (0, P2, s2)" "Entries (Tab P2) ! nat wr = Entries (Tab P1) ! nat wr"
     "FdCap (Tab P2) = FdCap (Tab P1)" "Pipes P2 q = None" "SpinLock_Lock (TabLock (Tab P2)) = 0"
    using l p(1-8) ne
    by (auto simp: PosixClose_def GetEntry_def IsValidFd_def drop_obj_def set_entry_def Let_def tab_unlock_free)
  obtain L' G' where l': "tab_lock (CurCpu s2) P2 = Some (P2\<lparr>Tab := (Tab P2)\<lparr>TabLock := L'\<rparr>, FdCpuFlags := G'\<rparr>)" using tab_lock_free [OF c(5)] by blast
  have "GetEntry (Tab P2) wr = Some (Entries (Tab P1) ! nat wr)" using p c by (simp add: GetEntry_def IsValidFd_def)
  then have "PosixWrite T wr b n (P2, s2) = None" "PosixClose T wr (P2, s2) = None"
    using l' p c by (auto simp: PosixWrite_def PosixClose_def GetEntry_def IsValidFd_def drop_obj_def set_entry_def Let_def)
  then show ?thesis using c p(8) by auto
qed

definition demo_fds :: fds where
  "demo_fds = \<lparr>Tab = \<lparr>Entries = [], FdCount = 0, FdCap = 0, StdinFd = 0, StdoutFd = 0, StderrFd = 0, TabLock = demo_lock\<rparr>,
     Pipes = Map.empty, FdCpuFlags = \<lparr>RFlags = (\<lambda>_. 0x202), SavedFlags = (\<lambda>_. 0)\<rparr>\<rparr>"

definition demo_fd_tables :: "vfs tables" where
  "demo_fd_tables = demo_tables\<lparr>VOps := (\<lambda>_. no_vnode_ops\<lparr>op_Open := Some (\<lambda>n f s. (0, s))\<rparr>)\<rparr>"

definition demo_fd_state :: "fds \<times> vfs" where
  "demo_fd_state = snd (the (PosixFdInit 4 (demo_fds, demo_vfs)))"

lemma demo_fd_init: "PosixFdInit 4 (demo_fds, demo_vfs) = Some (0, demo_fd_state)"
  unfolding demo_fd_state_def by (simp add: PosixFdInit_def kmalloc_def demo_vfs_def)

lemma demo_fd_ok: "fd_ok (Tab (fst demo_fd_state))"
  using PosixFdInit_ok [of 4 demo_fds demo_vfs 0 "fst demo_fd_state" "snd demo_fd_state"] demo_fd_init by simp

theorem fd_table_invariant_witness: "fd_ok (Tab (fst demo_fd_state))"
  by (rule fd_table_invariant [OF fd_reach.fd_init [OF demo_fd_init, of demo_fd_tables]])

lemma demo_pipe_call:
  "\<exists>P1 s1. PosixPipe demo_fd_state = Some ((0, Some (0, 1)), P1, s1)"
  by (simp add: demo_fd_state_def PosixFdInit_def PosixPipe_def demo_fds_def demo_vfs_def demo_lock_def kmalloc_def tab_lock_def
      AcquireSpinLock_def InitializeSpinLock_def FindFreeFd_def InitEntry_def Let_def upt_rec)

theorem PosixClose_frees_shared_pipe_witness:
  "\<exists>P1 s1 P2 s2. PosixPipe demo_fd_state = Some ((0, Some (0, 1)), P1, s1) \<and>
     PosixClose demo_fd_tables 0 (P1, s1) = Some (0, P2, s2) \<and> PosixWrite demo_fd_tables 1 (Some ''x'') 1 (P2, s2) = None"
proof -
  obtain P s where ps: "demo_fd_state = (P, s)" by force
  obtain P1 s1 where p: "PosixPipe (P, s) = Some ((0, Some (0, 1)), P1, s1)" using demo_pipe_call ps by auto
  have "fd_ok (Tab P)" using demo_fd_ok unfolding ps fst_conv .
  from PosixClose_frees_shared_pipe [OF this p, of demo_fd_tables "Some ''x''" 1] show ?thesis using p ps by auto
qed

definition demo_used :: fds where
  "demo_used = demo_fds\<lparr>Tab := \<lparr>Entries =
       [\<lparr>Fd = 0, FdFlags = 0, Obj = 9, FdRefcnt = 1, IsFile = True, IsChar = False, IsBlock = False\<rparr>,
        \<lparr>Fd = 1, FdFlags = 0, Obj = 8, FdRefcnt = 1, IsFile = True, IsChar = False, IsBlock = False\<rparr>, InitEntry],
     FdCount = 2, FdCap = 3, StdinFd = 0, StdoutFd = 1, StderrFd = -1, TabLock = demo_lock\<rparr>\<rparr>"

lemma demo_used_ok: "fd_ok (Tab demo_used)"
  by (simp add: fd_ok_def demo_used_def open_count_def InitEntry_def eval_nat_numeral less_Suc_eq)

lemma demo_free_fd: "FindFreeFd (Tab demo_used\<lparr>TabLock := L\<rparr>) 0 = 2"
  by (simp add: FindFreeFd_def demo_used_def InitEntry_def upt_rec)

lemma demo_used_lock: "\<exists>L F. tab_lock c demo_used = Some (demo_used\<lparr>Tab := (Tab demo_used)\<lparr>TabLock := L\<rparr>, FdCpuFlags := F\<rparr>)"
  by (rule tab_lock_free) (simp add: demo_used_def demo_lock_def)

theorem PosixDup2_open_target_hangs_witness: "PosixDup2 demo_fd_tables 0 1 (demo_used, demo_vfs) = None"
  by (rule PosixDup2_open_target_hangs) (simp_all add: IsValidFd_def demo_used_def)

theorem PosixDup_close_keeps_open_witness:
  "\<exists>P1 s1 P2 s2. PosixDup 0 (demo_used, demo_vfs) = Some (2, P1, s1) \<and>
     PosixClose demo_fd_tables 2 (P1, s1) = Some (0, P2, s2) \<and> Fd (Entries (Tab P2) ! 2) = 2"
proof -
  obtain L F where l: "tab_lock (CurCpu demo_vfs) demo_used = Some (demo_used\<lparr>Tab := (Tab demo_used)\<lparr>TabLock := L\<rparr>, FdCpuFlags := F\<rparr>)"
    using demo_used_lock by blast
  have g: "GetEntry (Tab demo_used\<lparr>TabLock := L\<rparr>) 0 = Some (Entries (Tab demo_used) ! 0)" "\<not> Fd (Entries (Tab demo_used) ! 0) < 0"
    by (simp_all add: GetEntry_Some demo_used_def)
  have "\<exists>P1 s1. PosixDup 0 (demo_used, demo_vfs) = Some (2, P1, s1)"
    using l g demo_free_fd [of L] by (simp add: PosixDup_def Let_def split: prod.split)
  then obtain P1 s1 where d: "PosixDup 0 (demo_used, demo_vfs) = Some (2, P1, s1)" by blast
  have "1 \<le> FdRefcnt (Entries (Tab demo_used) ! nat 0)" by (simp add: demo_used_def)
  from PosixDup_close_keeps_open [OF demo_used_ok d _ this, of demo_fd_tables] show ?thesis using d by auto
qed

lemma demo_open_vfs: "\<exists>s1. VfsOpen demo_fd_tables (Some ''/'') 0 demo_vfs = Some (100, s1) \<and> (\<exists>r s2. VfsClose demo_fd_tables 100 s1 = Some (r, s2))"
  by (simp add: VfsOpen_def VfsResolve_def vfs_acquire_def AcquireMutex_def demo_vfs_def open_dentry_def demo_fd_tables_def node_ops_def
      demo_tables_def no_vnode_ops_def kmalloc_def vfs_release_def ReleaseMutex_def VfsClose_def Let_def)

theorem PosixOpen_PosixClose_witness:
  "\<exists>P1 s1 r P2 s2. PosixOpen demo_fd_tables True (Some ''/'') 0 0 (demo_used, demo_vfs) = Some (2, P1, s1) \<and>
     PosixClose demo_fd_tables 2 (P1, s1) = Some (r, P2, s2) \<and> Entries (Tab P2) = Entries (Tab demo_used)"
proof -
  obtain L F where l: "tab_lock (CurCpu demo_vfs) demo_used = Some (demo_used\<lparr>Tab := (Tab demo_used)\<lparr>TabLock := L\<rparr>, FdCpuFlags := F\<rparr>)"
    using demo_used_lock by blast
  obtain s1 r s2 where v: "VfsOpen demo_fd_tables (Some ''/'') 0 demo_vfs = Some (100, s1)" "VfsClose demo_fd_tables 100 s1 = Some (r, s2)"
    using demo_open_vfs by blast
  obtain P1 where o: "PosixOpen demo_fd_tables True (Some ''/'') 0 0 (demo_used, demo_vfs) = Some (2, P1, s1)"
      "SpinLock_Lock (TabLock (Tab P1)) = 0"
    using l v(1) demo_free_fd [of L] by (simp add: PosixOpen_def Let_def tab_unlock_free)
  obtain P0 where P0: "tab_lock (CurCpu s1) P1 = Some P0" using tab_lock_free [OF o(2)] by blast
  have e: "Entries (Tab P1) = (Entries (Tab demo_used))[2 := \<lparr>Fd = 2, FdFlags = 0, Obj = 100, FdRefcnt = 1, IsFile = True, IsChar = False, IsBlock = False\<rparr>]"
     "FdCap (Tab P1) = 3"
    using l v(1) demo_free_fd [of L] o(1) by (auto simp: PosixOpen_def Let_def set_entry_def) (simp add: demo_used_def)
  have "GetEntry (Tab P0) 2 = Some \<lparr>Fd = 2, FdFlags = 0, Obj = 100, FdRefcnt = 1, IsFile = True, IsChar = False, IsBlock = False\<rparr>"
    using tab_lock_simps [OF P0] e by (auto simp: GetEntry_Some demo_used_def)
  then obtain P2 where c: "PosixClose demo_fd_tables 2 (P1, s1) = Some (0, P2, s2)"
    using P0 v(2) by (simp add: PosixClose_def Let_def drop_obj_def)
  show ?thesis using PosixOpen_PosixClose [OF demo_used_ok o(1) _ c] o(1) c by auto
qed

end
