(* ===== verification/PMM.thy ===== *)
theory PMM
  imports Prelude
begin

text \<open>
  The physical memory manager: \<^verbatim>\<open>Kernel/PMM/PMM.c\<close>, \<^verbatim>\<open>Bitmap.c\<close>, \<^verbatim>\<open>MemMap.c\<close> and \<^verbatim>\<open>HHDM.c\<close>.
  The global \<^verbatim>\<open>Pmm\<close> is the record \<open>PhysicalMemoryManager\<close>; every routine takes it and
  returns it updated. \<^verbatim>\<open>Pmm.Bitmap\<close> is kept as the pointer (\<open>Bitmap\<close>) and the array of
  64-bit words it points to (\<open>BitmapArr\<close>, indexed by word number). What the boot loader hands
  over (the HHDM offset, the memory map and its two type codes) is a parameter. Console output
  has no effect on the state and is left out.

  The interface the heap and the page-table code rely on is the locale \<open>page_allocator\<close>,
  interpreted on \<open>AllocPage\<close> and \<open>FreePage\<close> at the end.
\<close>

section \<open>Data\<close>

abbreviation PageSize :: u64 where "PageSize \<equiv> 4096"
abbreviation BitsPerUint64 :: u64 where "BitsPerUint64 \<equiv> 64"
abbreviation MaxMemoryRegions :: u32 where "MaxMemoryRegions \<equiv> 64"
abbreviation PmmBitmapNotFound :: u64 where "PmmBitmapNotFound \<equiv> 0xFFFFFFFFFFFFFFFF"

abbreviation MemoryTypeUsable :: u32 where "MemoryTypeUsable \<equiv> 0"
abbreviation MemoryTypeReserved :: u32 where "MemoryTypeReserved \<equiv> 1"
abbreviation MemoryTypeKernel :: u32 where "MemoryTypeKernel \<equiv> 2"

record PmmStats =
  StatTotalPages :: u64
  StatUsedPages :: u64
  StatFreePages :: u64
  StatReservedPages :: u64
  StatKernelPages :: u64
  StatBitmapPages :: u64

record MemoryRegion =
  Base :: u64
  RegionLength :: u64
  RegionType :: u32

record PhysicalMemoryManager =
  Bitmap :: u64
  BitmapArr :: "u64 \<Rightarrow> u64"
  BitmapSize :: u64
  TotalPages :: u64
  LastAllocHint :: u64
  HhdmOffset :: u64
  Regions :: "MemoryRegion list"
  RegionCount :: u32
  Stats :: PmmStats

text \<open>An entry of the boot loader's memory map.\<close>

record limine_memmap_entry =
  entry_base :: u64
  entry_length :: u64
  entry_type :: u64

section \<open>Address translation (HHDM.c)\<close>

definition PhysToVirt :: "u64 \<Rightarrow> PhysicalMemoryManager \<Rightarrow> u64" where
  "PhysToVirt PhysAddr P = PhysAddr + HhdmOffset P"

definition VirtToPhys :: "u64 \<Rightarrow> PhysicalMemoryManager \<Rightarrow> u64" where
  "VirtToPhys VirtAddr P = VirtAddr - HhdmOffset P"

section \<open>The bitmap (Bitmap.c)\<close>

definition SetBitmapBit :: "u64 \<Rightarrow> PhysicalMemoryManager \<Rightarrow> PhysicalMemoryManager" where
  "SetBitmapBit PageIndex P =
     (let ByteIndex = PageIndex div BitsPerUint64;
          BitIndex = PageIndex mod BitsPerUint64
      in P\<lparr>BitmapArr := (BitmapArr P)
              (ByteIndex := BitmapArr P ByteIndex OR push_bit (unat BitIndex) 1)\<rparr>)"

definition ClearBitmapBit :: "u64 \<Rightarrow> PhysicalMemoryManager \<Rightarrow> PhysicalMemoryManager" where
  "ClearBitmapBit PageIndex P =
     (let ByteIndex = PageIndex div BitsPerUint64;
          BitIndex = PageIndex mod BitsPerUint64
      in P\<lparr>BitmapArr := (BitmapArr P)
              (ByteIndex := BitmapArr P ByteIndex AND NOT (push_bit (unat BitIndex) 1))\<rparr>)"

definition TestBitmapBit :: "u64 \<Rightarrow> PhysicalMemoryManager \<Rightarrow> bool" where
  "TestBitmapBit PageIndex P =
     (let ByteIndex = PageIndex div BitsPerUint64;
          BitIndex = PageIndex mod BitsPerUint64
      in (BitmapArr P ByteIndex AND push_bit (unat BitIndex) 1) \<noteq> 0)"

definition InitializeBitmap :: "PhysicalMemoryManager \<Rightarrow> PhysicalMemoryManager" where
  "InitializeBitmap P0 =
     (let P = P0\<lparr>BitmapSize := (TotalPages P0 + BitsPerUint64 - 1) div BitsPerUint64\<rparr>;
          BitmapBytes = BitmapSize P * 8;
          BitmapPhys =
            (case find_range 0 (RegionCount P)
                    (\<lambda>i. RegionType (Regions P ! unat i) = MemoryTypeUsable \<and>
                         BitmapBytes \<le> RegionLength (Regions P ! unat i)) of
               Some i \<Rightarrow> Base (Regions P ! unat i)
             | None \<Rightarrow> 0)
      in if BitmapPhys = 0 then P
         else (let P = P\<lparr>Bitmap := PhysToVirt BitmapPhys P\<rparr>
               in for_range 0 (BitmapSize P) (\<lambda>i P. P\<lparr>BitmapArr := (BitmapArr P)(i := 0)\<rparr>) P))"

section \<open>The memory map (MemMap.c)\<close>

text \<open>One pass of the loop over the boot loader's entries; \<open>usable\<close> and \<open>kmods\<close> stand for the
  boot loader's codes \<^verbatim>\<open>LIMINE_MEMMAP_USABLE\<close> and \<^verbatim>\<open>LIMINE_MEMMAP_KERNEL_AND_MODULES\<close>.\<close>

fun parse_entries ::
  "u64 \<Rightarrow> u64 \<Rightarrow> limine_memmap_entry list \<Rightarrow> PhysicalMemoryManager \<times> u64 \<Rightarrow> PhysicalMemoryManager \<times> u64"
where
  "parse_entries usable kmods [] (P, HighestAddr) = (P, HighestAddr)"
| "parse_entries usable kmods (Entry # Entries) (P, HighestAddr) =
     (if MaxMemoryRegions \<le> RegionCount P then (P, HighestAddr)
      else
        (let ty = (if entry_type Entry = usable then MemoryTypeUsable
                   else if entry_type Entry = kmods then MemoryTypeKernel
                   else MemoryTypeReserved);
             EndAddr = entry_base Entry + entry_length Entry
         in parse_entries usable kmods Entries
              (P\<lparr>Regions := (Regions P)[unat (RegionCount P) :=
                    \<lparr>Base = entry_base Entry, RegionLength = entry_length Entry, RegionType = ty\<rparr>],
                 RegionCount := RegionCount P + 1\<rparr>,
               if HighestAddr < EndAddr then EndAddr else HighestAddr)))"

definition ParseMemoryMap ::
  "u64 \<Rightarrow> u64 \<Rightarrow> limine_memmap_entry list option \<Rightarrow> PhysicalMemoryManager \<Rightarrow> PhysicalMemoryManager"
where
  "ParseMemoryMap usable kmods response P =
     (case response of
        None \<Rightarrow> P
      | Some Entries \<Rightarrow>
          (let (P, HighestAddr) = parse_entries usable kmods Entries (P\<lparr>RegionCount := 0\<rparr>, 0)
           in P\<lparr>TotalPages := (HighestAddr + PageSize - 1) div PageSize\<rparr>))"

text \<open>The three loops of \<^verbatim>\<open>MarkMemoryRegions\<close>.\<close>

definition mark_all_used :: "PhysicalMemoryManager \<Rightarrow> PhysicalMemoryManager" where
  "mark_all_used P = for_range 0 (TotalPages P) SetBitmapBit P"

definition free_region :: "MemoryRegion \<Rightarrow> PhysicalMemoryManager \<Rightarrow> PhysicalMemoryManager" where
  "free_region R P =
     (let StartPage = Base R div PageSize;
          PageCount = RegionLength R div PageSize
      in for_range StartPage (StartPage + PageCount)
           (\<lambda>Page P. if Page < TotalPages P then ClearBitmapBit Page P else P) P)"

definition free_usable_regions :: "PhysicalMemoryManager \<Rightarrow> PhysicalMemoryManager" where
  "free_usable_regions P =
     for_range 0 (RegionCount P)
       (\<lambda>i P. if RegionType (Regions P ! unat i) = MemoryTypeUsable
              then free_region (Regions P ! unat i) P else P) P"

definition protect_bitmap :: "PhysicalMemoryManager \<Rightarrow> PhysicalMemoryManager" where
  "protect_bitmap P =
     (let BitmapPhys = VirtToPhys (Bitmap P) P;
          BitmapStartPage = BitmapPhys div PageSize;
          BitmapPageCount = (BitmapSize P * 8 + PageSize - 1) div PageSize
      in for_range BitmapStartPage (BitmapStartPage + BitmapPageCount) SetBitmapBit P)"

definition MarkMemoryRegions :: "PhysicalMemoryManager \<Rightarrow> PhysicalMemoryManager" where
  "MarkMemoryRegions P = protect_bitmap (free_usable_regions (mark_all_used P))"

section \<open>Allocation (PMM.c)\<close>

definition FindFreePage :: "PhysicalMemoryManager \<Rightarrow> u64 \<times> PhysicalMemoryManager" where
  "FindFreePage P =
     (let StartHint = LastAllocHint P in
      case find_range StartHint (TotalPages P) (\<lambda>i. \<not> TestBitmapBit i P) of
        Some Index \<Rightarrow> (Index, P\<lparr>LastAllocHint := Index + 1\<rparr>)
      | None \<Rightarrow>
          (case find_range 0 StartHint (\<lambda>i. \<not> TestBitmapBit i P) of
             Some Index \<Rightarrow> (Index, P\<lparr>LastAllocHint := Index + 1\<rparr>)
           | None \<Rightarrow> (PmmBitmapNotFound, P)))"

text \<open>The statistics updates \<^verbatim>\<open>UsedPages += n, FreePages -= n\<close> and their inverse.\<close>

definition stats_take :: "u64 \<Rightarrow> PhysicalMemoryManager \<Rightarrow> PhysicalMemoryManager" where
  "stats_take n P = P\<lparr>Stats := (Stats P)\<lparr>StatUsedPages := StatUsedPages (Stats P) + n,
                                        StatFreePages := StatFreePages (Stats P) - n\<rparr>\<rparr>"

definition stats_give :: "u64 \<Rightarrow> PhysicalMemoryManager \<Rightarrow> PhysicalMemoryManager" where
  "stats_give n P = P\<lparr>Stats := (Stats P)\<lparr>StatUsedPages := StatUsedPages (Stats P) - n,
                                        StatFreePages := StatFreePages (Stats P) + n\<rparr>\<rparr>"

definition AllocPage :: "PhysicalMemoryManager \<Rightarrow> u64 \<times> PhysicalMemoryManager" where
  "AllocPage P =
     (let (PageIndex, P) = FindFreePage P in
      if PageIndex = PmmBitmapNotFound then (0, P)
      else (PageIndex * PageSize, stats_take 1 (SetBitmapBit PageIndex P)))"

definition PmmValidatePage :: "u64 \<Rightarrow> PhysicalMemoryManager \<Rightarrow> bool" where
  "PmmValidatePage PhysAddr P =
     (if PhysAddr = 0 then False
      else if PhysAddr mod PageSize \<noteq> 0 then False
      else if TotalPages P \<le> PhysAddr div PageSize then False
      else True)"

definition FreePage :: "u64 \<Rightarrow> PhysicalMemoryManager \<Rightarrow> PhysicalMemoryManager" where
  "FreePage PhysAddr P =
     (if \<not> PmmValidatePage PhysAddr P then P
      else
        (let PageIndex = PhysAddr div PageSize in
         if \<not> TestBitmapBit PageIndex P then P
         else stats_give 1 (ClearBitmapBit PageIndex P)))"

text \<open>The search of \<^verbatim>\<open>AllocPages\<close> runs over \<^verbatim>\<open>StartIndex <= TotalPages - Count\<close>, that is below
  \<^verbatim>\<open>TotalPages - Count + 1\<close>.\<close>

definition run_is_free :: "u64 \<Rightarrow> u64 \<Rightarrow> PhysicalMemoryManager \<Rightarrow> bool" where
  "run_is_free StartIndex Count P =
     (find_range 0 Count (\<lambda>Offset. TestBitmapBit (StartIndex + Offset) P) = None)"

definition AllocPages :: "u64 \<Rightarrow> PhysicalMemoryManager \<Rightarrow> u64 \<times> PhysicalMemoryManager" where
  "AllocPages Count P =
     (if Count = 0 then (0, P)
      else if Count = 1 then AllocPage P
      else if StatFreePages (Stats P) < Count then (0, P)
      else
        (case find_range 0 (TotalPages P - Count + 1) (\<lambda>StartIndex. run_is_free StartIndex Count P) of
           Some StartIndex \<Rightarrow>
             (StartIndex * PageSize,
              stats_take Count
                (for_range 0 Count (\<lambda>Offset. SetBitmapBit (StartIndex + Offset)) P))
         | None \<Rightarrow> (0, P)))"

definition FreePages :: "u64 \<Rightarrow> u64 \<Rightarrow> PhysicalMemoryManager \<Rightarrow> PhysicalMemoryManager" where
  "FreePages PhysAddr Count P =
     (if Count = 0 then P
      else for_range 0 Count (\<lambda>Index. FreePage (PhysAddr + Index * PageSize)) P)"

text \<open>The counting loop and the whole of \<^verbatim>\<open>InitializePmm\<close>.\<close>

definition count_pages :: "PhysicalMemoryManager \<Rightarrow> PhysicalMemoryManager" where
  "count_pages P =
     (let P = P\<lparr>Stats := (Stats P)\<lparr>StatTotalPages := TotalPages P, StatUsedPages := 0, StatFreePages := 0\<rparr>\<rparr>
      in for_range 0 (TotalPages P)
           (\<lambda>Index P. if TestBitmapBit Index P
              then P\<lparr>Stats := (Stats P)\<lparr>StatUsedPages := StatUsedPages (Stats P) + 1\<rparr>\<rparr>
              else P\<lparr>Stats := (Stats P)\<lparr>StatFreePages := StatFreePages (Stats P) + 1\<rparr>\<rparr>) P)"

definition InitializePmm ::
  "u64 \<Rightarrow> u64 \<Rightarrow> u64 option \<Rightarrow> limine_memmap_entry list option \<Rightarrow> PhysicalMemoryManager \<Rightarrow> PhysicalMemoryManager"
where
  "InitializePmm usable kmods hhdm memmap P =
     (case hhdm of
        None \<Rightarrow> P
      | Some offset \<Rightarrow>
          (let P = ParseMemoryMap usable kmods memmap (P\<lparr>HhdmOffset := offset\<rparr>) in
           if RegionCount P = 0 then P
           else (let P = InitializeBitmap P in
                 if Bitmap P = 0 then P
                 else count_pages (MarkMemoryRegions P))))"

lemma word_div_mod_64_eq:
  fixes i j :: u64
  shows "i div 64 = j div 64 \<and> unat (i mod 64) = unat (j mod 64) \<longleftrightarrow> i = j"
  by (metis div_mult_mod_eq word_unat_eq_iff)

lemma unat_mod_64_less: "unat (i mod (64 :: u64)) < 64"
proof -
  have "i mod 64 < (64 :: u64)" by (rule word_mod_less_divisor) simp
  then show ?thesis by (simp add: word_less_nat_alt)
qed

lemma TestBitmapBit_bit: "TestBitmapBit i P \<longleftrightarrow> bit (BitmapArr P (i div 64)) (unat (i mod 64))"
  by (simp add: TestBitmapBit_def)

lemma TestBitmapBit_SetBitmapBit [simp]:
  "TestBitmapBit j (SetBitmapBit i P) \<longleftrightarrow> j = i \<or> TestBitmapBit j P"
  using word_div_mod_64_eq [of i j] unat_mod_64_less [of i]
  by (auto simp: TestBitmapBit_bit SetBitmapBit_def Let_def)

lemma TestBitmapBit_ClearBitmapBit [simp]:
  "TestBitmapBit j (ClearBitmapBit i P) \<longleftrightarrow> j \<noteq> i \<and> TestBitmapBit j P"
  using word_div_mod_64_eq [of i j]
  by (auto simp: TestBitmapBit_bit ClearBitmapBit_def Let_def)

lemma bitmap_op_frame [simp]:
  "TotalPages (SetBitmapBit i P) = TotalPages P"
  "TotalPages (ClearBitmapBit i P) = TotalPages P"
  "BitmapSize (SetBitmapBit i P) = BitmapSize P"
  "BitmapSize (ClearBitmapBit i P) = BitmapSize P"
  "Bitmap (SetBitmapBit i P) = Bitmap P"
  "Bitmap (ClearBitmapBit i P) = Bitmap P"
  "LastAllocHint (SetBitmapBit i P) = LastAllocHint P"
  "LastAllocHint (ClearBitmapBit i P) = LastAllocHint P"
  "HhdmOffset (SetBitmapBit i P) = HhdmOffset P"
  "HhdmOffset (ClearBitmapBit i P) = HhdmOffset P"
  "Regions (SetBitmapBit i P) = Regions P"
  "Regions (ClearBitmapBit i P) = Regions P"
  "RegionCount (SetBitmapBit i P) = RegionCount P"
  "RegionCount (ClearBitmapBit i P) = RegionCount P"
  "Stats (SetBitmapBit i P) = Stats P"
  "Stats (ClearBitmapBit i P) = Stats P"
  by (simp_all add: SetBitmapBit_def ClearBitmapBit_def Let_def)

lemma TestBitmapBit_cong [simp]:
  "TestBitmapBit j (P\<lparr>LastAllocHint := h\<rparr>) = TestBitmapBit j P"
  "TestBitmapBit j (P\<lparr>Stats := st\<rparr>) = TestBitmapBit j P"
  "TestBitmapBit j (P\<lparr>TotalPages := t\<rparr>) = TestBitmapBit j P"
  "TestBitmapBit j (P\<lparr>HhdmOffset := t\<rparr>) = TestBitmapBit j P"
  by (simp_all add: TestBitmapBit_def)

lemma stats_frame [simp]:
  "TestBitmapBit j (stats_take n P) = TestBitmapBit j P"
  "TestBitmapBit j (stats_give n P) = TestBitmapBit j P"
  "TotalPages (stats_take n P) = TotalPages P"
  "TotalPages (stats_give n P) = TotalPages P"
  "BitmapSize (stats_take n P) = BitmapSize P"
  "BitmapSize (stats_give n P) = BitmapSize P"
  "LastAllocHint (stats_take n P) = LastAllocHint P"
  "LastAllocHint (stats_give n P) = LastAllocHint P"
  "HhdmOffset (stats_take n P) = HhdmOffset P"
  "HhdmOffset (stats_give n P) = HhdmOffset P"
  "BitmapArr (stats_take n P) = BitmapArr P"
  "BitmapArr (stats_give n P) = BitmapArr P"
  by (simp_all add: stats_take_def stats_give_def)

section \<open>Invariant\<close>

definition used_pages :: "PhysicalMemoryManager \<Rightarrow> u64 set" where
  "used_pages P = {i. i < TotalPages P \<and> TestBitmapBit i P}"

definition free_pages :: "PhysicalMemoryManager \<Rightarrow> u64 set" where
  "free_pages P = {i. i < TotalPages P \<and> \<not> TestBitmapBit i P}"

definition stats_ok :: "PhysicalMemoryManager \<Rightarrow> bool" where
  "stats_ok P \<longleftrightarrow> unat (StatUsedPages (Stats P)) = card (used_pages P) \<and>
                 unat (StatFreePages (Stats P)) = card (free_pages P)"

definition pmm_inv :: "PhysicalMemoryManager \<Rightarrow> bool" where
  "pmm_inv P \<longleftrightarrow>
     TotalPages P \<le> 0x10000000000000 \<and>
     unat (TotalPages P) \<le> unat (BitmapSize P) * 64 \<and>
     LastAllocHint P \<le> TotalPages P \<and>
     TestBitmapBit 0 P \<and>
     stats_ok P"

lemma card_words_below: "card {i :: 'a::len word. i < n} = unat n"
proof -
  have "{i :: 'a word. i < n} = of_nat ` {..<unat n}"
  proof (intro set_eqI iffI)
    fix i :: "'a word" assume "i \<in> {i. i < n}"
    then show "i \<in> of_nat ` {..<unat n}"
      by (intro image_eqI [of _ _ "unat i"]) (auto simp: word_less_nat_alt)
  next
    fix i :: "'a word" assume "i \<in> of_nat ` {..<unat n}"
    then obtain k where k: "k < unat n" "i = of_nat k" by auto
    have "unat n < 2 ^ LENGTH('a)" by (rule unsigned_less)
    then have "unat (of_nat k :: 'a word) = k" using k by (metis mod_less order_less_trans unat_of_nat)
    then show "i \<in> {i. i < n}" using k by (simp add: word_less_nat_alt)
  qed
  moreover have "inj_on (of_nat :: nat \<Rightarrow> 'a word) {..<unat n}"
  proof (rule inj_onI)
    fix x y assume "x \<in> {..<unat n}" "y \<in> {..<unat n}" "(of_nat x :: 'a word) = of_nat y"
    moreover have "unat n < 2 ^ LENGTH('a)" by (rule unsigned_less)
    ultimately show "x = y"
      by (metis lessThan_iff mod_less order_less_trans unat_of_nat)
  qed
  ultimately show ?thesis by (simp add: card_image)
qed

lemma used_plus_free: "card (used_pages P) + card (free_pages P) = unat (TotalPages P)"
proof -
  have "card (used_pages P) + card (free_pages P) = card (used_pages P \<union> free_pages P)"
    by (intro card_Un_disjoint [symmetric]) (auto simp: used_pages_def free_pages_def)
  also have "used_pages P \<union> free_pages P = {i. i < TotalPages P}"
    by (auto simp: used_pages_def free_pages_def)
  finally show ?thesis by (simp add: card_words_below)
qed


lemma pages_of_bit_change:
  assumes "i < TotalPages P" "\<not> TestBitmapBit i P"
  shows "used_pages (SetBitmapBit i P) = insert i (used_pages P)"
    "free_pages (SetBitmapBit i P) = free_pages P - {i}" "i \<in> free_pages P" "i \<notin> used_pages P"
  using assms by (auto simp: used_pages_def free_pages_def)

lemma pages_of_bit_clear:
  assumes "i < TotalPages P" "TestBitmapBit i P"
  shows "free_pages (ClearBitmapBit i P) = insert i (free_pages P)"
    "used_pages (ClearBitmapBit i P) = used_pages P - {i}" "i \<in> used_pages P" "i \<notin> free_pages P"
  using assms by (auto simp: used_pages_def free_pages_def)

lemma pages_frame [simp]:
  "used_pages (stats_take n P) = used_pages P" "free_pages (stats_take n P) = free_pages P"
  "used_pages (stats_give n P) = used_pages P" "free_pages (stats_give n P) = free_pages P"
  "used_pages (P\<lparr>LastAllocHint := h\<rparr>) = used_pages P" "free_pages (P\<lparr>LastAllocHint := h\<rparr>) = free_pages P"
  by (simp_all add: used_pages_def free_pages_def)

lemma page_cards_bounded:
  assumes "TotalPages P \<le> 0x10000000000000"
  shows "card (used_pages P) \<le> 2 ^ 52" "card (free_pages P) \<le> 2 ^ 52"
proof -
  have "unat (TotalPages P) \<le> 2 ^ 52"
    using assms by (simp add: word_le_nat_alt)
  then show "card (used_pages P) \<le> 2 ^ 52" "card (free_pages P) \<le> 2 ^ 52"
    using used_plus_free [of P] by linarith+
qed

lemma unat_add_small: "unat (a :: u64) + unat b < 2 ^ 64 \<Longrightarrow> unat (a + b) = unat a + unat b"
  by (simp add: unat_word_ariths)

lemma unat_sub_small: "b \<le> (a :: u64) \<Longrightarrow> unat (a - b) = unat a - unat b"
  by (simp add: unat_sub_if' word_le_nat_alt)

text \<open>Taking a set of free pages and giving the same number to the counters keeps them exact.\<close>

lemma stats_ok_take:
  assumes ok: "stats_ok P" and b: "TotalPages P \<le> 0x10000000000000"
    and u: "used_pages Q = S \<union> used_pages P" and f: "free_pages Q = free_pages P - S"
    and S: "S \<subseteq> free_pages P" "card S = unat n" and st: "Stats Q = Stats P"
  shows "stats_ok (stats_take n Q)"
proof -
  have fin: "finite S" "finite (used_pages P)" "finite (free_pages P)" by simp_all
  have dis: "S \<inter> used_pages P = {}" using S by (auto simp: used_pages_def free_pages_def)
  have cu: "card (used_pages Q) = unat n + card (used_pages P)"
    using u S dis by (simp add: card_Un_disjoint)
  have cf: "card (free_pages Q) = card (free_pages P) - unat n"
    using f S by (simp add: card_Diff_subset)
  have le: "unat n \<le> card (free_pages P)" using S by (metis card_mono fin(3))
  have bnd: "card (used_pages P) + card (free_pages P) \<le> 2 ^ 53"
    using page_cards_bounded [OF b] by simp
  have "unat (StatUsedPages (Stats P) + n) = unat (StatUsedPages (Stats P)) + unat n"
    using ok le bnd by (intro unat_add_small) (simp add: stats_ok_def)
  moreover have "unat (StatFreePages (Stats P) - n) = unat (StatFreePages (Stats P)) - unat n"
    using ok le by (intro unat_sub_small) (simp add: stats_ok_def word_le_nat_alt)
  ultimately show ?thesis
    using ok st cu cf by (simp add: stats_ok_def stats_take_def used_pages_def free_pages_def)
qed

lemma stats_ok_give:
  assumes ok: "stats_ok P" and b: "TotalPages P \<le> 0x10000000000000"
    and f: "free_pages Q = insert i (free_pages P)" and u: "used_pages Q = used_pages P - {i}"
    and i: "i \<in> used_pages P" "i \<notin> free_pages P" and st: "Stats Q = Stats P"
  shows "stats_ok (stats_give 1 Q)"
proof -
  have pos: "0 < card (used_pages P)" using i by (auto simp: card_gt_0_iff)
  have bnd: "card (free_pages P) \<le> 2 ^ 52" using page_cards_bounded [OF b] by simp
  have "unat (StatUsedPages (Stats P) - 1) = unat (StatUsedPages (Stats P)) - 1"
    using ok pos by (subst unat_sub_small) (simp_all add: stats_ok_def word_le_nat_alt)
  moreover have "unat (StatFreePages (Stats P) + 1) = unat (StatFreePages (Stats P)) + 1"
    using ok bnd by (subst unat_add_small) (simp_all add: stats_ok_def)
  ultimately show ?thesis
    using ok st f u i by (simp add: stats_ok_def stats_give_def used_pages_def free_pages_def)
qed

lemma FindFreePage_found:
  assumes "FindFreePage P = (i, Q)" "i \<noteq> PmmBitmapNotFound" "LastAllocHint P \<le> TotalPages P"
  shows "i < TotalPages P \<and> \<not> TestBitmapBit i P \<and> Q = P\<lparr>LastAllocHint := i + 1\<rparr>"
  using assms
  by (auto simp: FindFreePage_def Let_def split: option.splits dest!: find_range_SomeD)

lemma not_sentinel:
  assumes "k < n" "n \<le> (0x10000000000000 :: u64)"
  shows "k \<noteq> PmmBitmapNotFound"
  using assms by (auto simp: word_less_nat_alt word_le_nat_alt)

lemma FindFreePage_not_found:
  assumes "FindFreePage P = (PmmBitmapNotFound, Q)" "TotalPages P \<le> 0x10000000000000"
    "LastAllocHint P \<le> TotalPages P"
  shows "Q = P \<and> free_pages P = {}"
proof -
  have 1: "find_range (LastAllocHint P) (TotalPages P) (\<lambda>i. \<not> TestBitmapBit i P) = None"
    using assms not_sentinel [of _ "TotalPages P"]
    by (auto simp: FindFreePage_def Let_def split: option.splits dest!: find_range_SomeD)
  have 2: "find_range 0 (LastAllocHint P) (\<lambda>i. \<not> TestBitmapBit i P) = None"
    using assms 1 not_sentinel [of _ "LastAllocHint P", OF _ order_trans [OF assms(3,2)]]
    by (auto simp: FindFreePage_def Let_def split: option.splits dest!: find_range_SomeD)
  have "TestBitmapBit j P" if "j < TotalPages P" for j
    using that 1 2 by (cases "LastAllocHint P \<le> j") (auto simp: find_range_None_iff)
  then show ?thesis using assms(1) 1 2 by (auto simp: FindFreePage_def Let_def free_pages_def)
qed

lemma unat_page_addr:
  assumes "i \<le> (0x10000000000000 :: u64)" "i \<noteq> 0x10000000000000"
  shows "unat (i * PageSize) = unat i * 4096"
proof -
  have "unat i < 2 ^ 52" using assms by (auto simp: word_le_nat_alt word_unat_eq_iff)
  then show ?thesis by (simp add: unat_word_ariths)
qed

lemma page_addr_simps:
  assumes "i < (n :: u64)" "n \<le> 0x10000000000000"
  shows "i * PageSize div PageSize = i" "i * PageSize mod PageSize = 0"
    "i * PageSize = 0 \<longleftrightarrow> i = 0"
proof -
  have u: "unat (i * PageSize) = unat i * 4096" using assms by (intro unat_page_addr) auto
  show "i * PageSize div PageSize = i" using u by (simp add: word_unat_eq_iff unat_div)
  show "i * PageSize mod PageSize = 0" using u by (simp add: word_unat_eq_iff unat_mod)
  show "i * PageSize = 0 \<longleftrightarrow> i = 0" using u by (simp add: word_unat_eq_iff)
qed

lemma pmm_inv_take:
  assumes "pmm_inv P" "S \<subseteq> free_pages P" "card S = unat n"
    "used_pages Q = S \<union> used_pages P" "free_pages Q = free_pages P - S"
    "Stats Q = Stats P" "TotalPages Q = TotalPages P" "BitmapSize Q = BitmapSize P"
    "LastAllocHint Q \<le> TotalPages P" "TestBitmapBit 0 Q"
  shows "pmm_inv (stats_take n Q)"
proof -
  have "stats_ok (stats_take n Q)"
    using assms by (intro stats_ok_take [of P Q S]) (auto simp: pmm_inv_def)
  then show ?thesis using assms by (auto simp: pmm_inv_def)
qed

lemma AllocPage_cases:
  assumes inv: "pmm_inv P" and a: "AllocPage P = (a, Q)"
  obtains (full) "a = 0" "Q = P" "free_pages P = {}"
  | (page) i where "i \<in> free_pages P" "a = i * PageSize" "a \<noteq> 0" "pmm_inv Q"
      "Q = stats_take 1 (SetBitmapBit i (P\<lparr>LastAllocHint := i + 1\<rparr>))"
      "used_pages Q = insert i (used_pages P)" "free_pages Q = free_pages P - {i}"
proof -
  obtain i R where f: "FindFreePage P = (i, R)" by force
  have b: "TotalPages P \<le> 0x10000000000000" "LastAllocHint P \<le> TotalPages P" "TestBitmapBit 0 P"
    using inv by (auto simp: pmm_inv_def)
  show ?thesis
  proof (cases "i = PmmBitmapNotFound")
    case True
    then show ?thesis using FindFreePage_not_found [of P R] f a b full by (simp add: AllocPage_def)
  next
    case False
    then have i: "i < TotalPages P" "\<not> TestBitmapBit i P" "R = P\<lparr>LastAllocHint := i + 1\<rparr>"
      using FindFreePage_found [OF f] b by auto
    have aQ: "a = i * PageSize" "Q = stats_take 1 (SetBitmapBit i (P\<lparr>LastAllocHint := i + 1\<rparr>))"
      using a f False i by (simp_all add: AllocPage_def)
    have i0: "i \<noteq> 0" using i b by auto
    have fr: "i \<in> free_pages P" using i by (simp add: free_pages_def)
    have up: "used_pages Q = insert i (used_pages P)" "free_pages Q = free_pages P - {i}"
      using i by (auto simp: aQ used_pages_def free_pages_def)
    have "pmm_inv Q" unfolding aQ
    proof (rule pmm_inv_take [OF inv, of "{i}"])
      show "LastAllocHint (SetBitmapBit i (P\<lparr>LastAllocHint := i + 1\<rparr>)) \<le> TotalPages P"
        using i by (simp add: plus_one_le_iff)
    qed (use i b fr up in \<open>auto simp: used_pages_def free_pages_def\<close>)
    then show ?thesis
      using page fr aQ up i0 page_addr_simps(3) [OF i(1) b(1)] by simp
  qed
qed


lemma valid_page_iff:
  "PmmValidatePage a P \<longleftrightarrow> a \<noteq> 0 \<and> a mod PageSize = 0 \<and> a div PageSize < TotalPages P"
  by (auto simp: PmmValidatePage_def)

lemma page_addr_of_index: "a mod PageSize = 0 \<Longrightarrow> a = (a div PageSize) * PageSize"
  using div_mult_mod_eq [of a PageSize] by simp

lemma FreePage_cases:
  assumes inv: "pmm_inv P"
  obtains (rejected) "FreePage a P = P" "\<not> (PmmValidatePage a P \<and> TestBitmapBit (a div PageSize) P)"
  | (freed) "PmmValidatePage a P" "a div PageSize \<in> used_pages P" "a div PageSize \<noteq> 0"
      "FreePage a P = stats_give 1 (ClearBitmapBit (a div PageSize) P)" "pmm_inv (FreePage a P)"
      "used_pages (FreePage a P) = used_pages P - {a div PageSize}"
      "free_pages (FreePage a P) = insert (a div PageSize) (free_pages P)"
proof (cases "PmmValidatePage a P \<and> TestBitmapBit (a div PageSize) P")
  case False
  then show ?thesis using rejected by (simp add: FreePage_def Let_def)
next
  case True
  let ?i = "a div PageSize"
  have i: "?i < TotalPages P" "TestBitmapBit ?i P" "?i \<noteq> 0"
    using True page_addr_of_index [of a] by (auto simp: valid_page_iff)
  have eq: "FreePage a P = stats_give 1 (ClearBitmapBit ?i P)"
    using True by (simp add: FreePage_def Let_def)
  note cl = pages_of_bit_clear [OF i(1,2)]
  have "stats_ok (FreePage a P)" unfolding eq
    using inv cl by (intro stats_ok_give [of P _ ?i]) (auto simp: pmm_inv_def)
  then have "pmm_inv (FreePage a P)"
    using inv i by (auto simp: pmm_inv_def eq)
  then show ?thesis using freed True cl i eq by (simp add: valid_page_iff)
qed

lemma FreePage_inv [kinv]: "pmm_inv P \<Longrightarrow> pmm_inv (FreePage a P)"
  by (rule FreePage_cases [of P a]) auto

lemma AllocPage_inv [kinv]: "pmm_inv P \<Longrightarrow> pmm_inv (snd (AllocPage P))"
  by (rule AllocPage_cases [of P "fst (AllocPage P)" "snd (AllocPage P)"]) auto

section \<open>Runs of pages\<close>

definition run_of :: "u64 \<Rightarrow> u64 \<Rightarrow> u64 set" where
  "run_of Start Count = {i. Start \<le> i \<and> i < Start + Count}"

lemma run_of_image:
  assumes "unat s + unat n < 2 ^ 64"
  shows "run_of s n = (\<lambda>k. s + k) ` {k. k < n}"
proof (intro set_eqI iffI)
  fix i assume "i \<in> run_of s n"
  then have "s \<le> i" "i < s + n" by (auto simp: run_of_def)
  then have "unat s \<le> unat i" "unat i < unat s + unat n" "unat (i - s) = unat i - unat s"
    using unat_add_small [OF assms] unat_sub_small [of s i]
    by (simp_all add: word_less_nat_alt word_le_nat_alt)
  then have "i - s < n" by (simp add: word_less_nat_alt)
  moreover have "i = s + (i - s)" by simp
  ultimately show "i \<in> (\<lambda>k. s + k) ` {k. k < n}" by blast
next
  fix i assume "i \<in> (\<lambda>k. s + k) ` {k. k < n}"
  then obtain k where k: "k < n" "i = s + k" by auto
  moreover have "unat (s + k) = unat s + unat k"
    using k assms by (intro unat_add_small) (simp add: word_less_nat_alt)
  ultimately show "i \<in> run_of s n"
    using assms by (simp add: run_of_def word_less_nat_alt word_le_nat_alt unat_add_small)
qed

lemma card_run_of: "unat s + unat n < 2 ^ 64 \<Longrightarrow> card (run_of s n) = unat n"
  by (simp add: run_of_image card_image inj_on_def card_words_below)

lemma TestBitmapBit_set_loop:
  assumes "lo \<le> hi"
  shows "TestBitmapBit j (for_range lo hi SetBitmapBit P) \<longleftrightarrow> TestBitmapBit j P \<or> (lo \<le> j \<and> j < hi)"
proof -
  have "\<forall>j. TestBitmapBit j (for_range lo hi SetBitmapBit P) \<longleftrightarrow> TestBitmapBit j P \<or> (lo \<le> j \<and> j < hi)"
  proof (rule for_range_invariant [OF assms, where I = "\<lambda>i Q. \<forall>j. TestBitmapBit j Q \<longleftrightarrow> TestBitmapBit j P \<or> (lo \<le> j \<and> j < i)"])
    show "\<forall>j. TestBitmapBit j P \<longleftrightarrow> TestBitmapBit j P \<or> (lo \<le> j \<and> j < lo)"
      by (auto dest: leD)
  next
    fix i s
    assume "lo \<le> i" "i < hi" "\<forall>j. TestBitmapBit j s \<longleftrightarrow> TestBitmapBit j P \<or> (lo \<le> j \<and> j < i)"
    then show "\<forall>j. TestBitmapBit j (SetBitmapBit i s) \<longleftrightarrow> TestBitmapBit j P \<or> (lo \<le> j \<and> j < i + 1)"
      by (simp add: less_plus_one_iff le_less) blast
  qed
  then show ?thesis by blast
qed

lemma set_loop_frame [simp]:
  "TotalPages (for_range lo hi (\<lambda>k. SetBitmapBit (f k)) P) = TotalPages P"
  "BitmapSize (for_range lo hi (\<lambda>k. SetBitmapBit (f k)) P) = BitmapSize P"
  "Bitmap (for_range lo hi (\<lambda>k. SetBitmapBit (f k)) P) = Bitmap P"
  "LastAllocHint (for_range lo hi (\<lambda>k. SetBitmapBit (f k)) P) = LastAllocHint P"
  "HhdmOffset (for_range lo hi (\<lambda>k. SetBitmapBit (f k)) P) = HhdmOffset P"
  "Regions (for_range lo hi (\<lambda>k. SetBitmapBit (f k)) P) = Regions P"
  "RegionCount (for_range lo hi (\<lambda>k. SetBitmapBit (f k)) P) = RegionCount P"
  "Stats (for_range lo hi (\<lambda>k. SetBitmapBit (f k)) P) = Stats P"
  by (rule for_range_same; simp)+

lemma TestBitmapBit_run:
  assumes "unat s + unat n < 2 ^ 64"
  shows "TestBitmapBit j (for_range 0 n (\<lambda>k. SetBitmapBit (s + k)) P) \<longleftrightarrow> TestBitmapBit j P \<or> j \<in> run_of s n"
proof -
  have "\<forall>j. TestBitmapBit j (for_range 0 n (\<lambda>k. SetBitmapBit (s + k)) P) \<longleftrightarrow>
        TestBitmapBit j P \<or> (\<exists>k. k < n \<and> j = s + k)"
    by (rule for_range_invariant [OF word_zero_le, where I = "\<lambda>i Q. \<forall>j. TestBitmapBit j Q \<longleftrightarrow> TestBitmapBit j P \<or> (\<exists>k. k < i \<and> j = s + k)"])
      (auto simp: less_plus_one_iff le_less)
  then show ?thesis using run_of_image [OF assms] by auto
qed

lemma run_is_free_iff:
  assumes "unat s + unat n \<le> unat (TotalPages P)" "TotalPages P \<le> 0x10000000000000"
  shows "run_is_free s n P \<longleftrightarrow> run_of s n \<subseteq> free_pages P"
proof -
  have lt: "unat s + unat n < 2 ^ 64" using assms by (simp add: word_le_nat_alt)
  have "i < TotalPages P" if "i \<in> run_of s n" for i
    using that assms lt by (auto simp: run_of_def word_less_nat_alt word_le_nat_alt unat_add_small)
  moreover have "run_is_free s n P \<longleftrightarrow> (\<forall>i \<in> run_of s n. \<not> TestBitmapBit i P)"
    unfolding run_of_image [OF lt] run_is_free_def find_range_None_iff by auto
  ultimately show ?thesis by (auto simp: free_pages_def)
qed

lemma AllocPages_cases:
  assumes inv: "pmm_inv P" and a: "AllocPages n P = (a, Q)" and n: "1 < n"
  obtains (none) "a = 0" "Q = P" "\<And>s. unat s + unat n \<le> unat (TotalPages P) \<Longrightarrow> \<not> run_of s n \<subseteq> free_pages P"
  | (run) s where "unat s + unat n \<le> unat (TotalPages P)" "run_of s n \<subseteq> free_pages P" "a = s * PageSize" "a \<noteq> 0"
      "\<And>t. t < s \<Longrightarrow> \<not> run_of t n \<subseteq> free_pages P" "pmm_inv Q"
      "used_pages Q = run_of s n \<union> used_pages P" "free_pages Q = free_pages P - run_of s n"
proof -
  have b: "TotalPages P \<le> 0x10000000000000" "LastAllocHint P \<le> TotalPages P" "TestBitmapBit 0 P" "stats_ok P"
    using inv by (auto simp: pmm_inv_def)
  have b': "unat (TotalPages P) \<le> 2 ^ 52" using b(1) by (simp add: word_le_nat_alt)
  have n01: "n \<noteq> 0" "n \<noteq> 1" using n by auto
  have free_le: "card (free_pages P) \<le> unat (TotalPages P)" using used_plus_free [of P] by linarith
  show ?thesis
  proof (cases "StatFreePages (Stats P) < n")
    case True
    have "\<not> run_of s n \<subseteq> free_pages P" if s: "unat s + unat n \<le> unat (TotalPages P)" for s
    proof
      assume "run_of s n \<subseteq> free_pages P"
      then have "card (run_of s n) \<le> card (free_pages P)" by (intro card_mono) auto
      moreover have "card (run_of s n) = unat n" using s b' by (intro card_run_of) simp
      ultimately show False using True b(4) by (simp add: stats_ok_def word_less_nat_alt)
    qed
    then show ?thesis using none a n01 True by (simp add: AllocPages_def)
  next
    case False
    then have nle: "unat n \<le> unat (TotalPages P)"
      using b(4) free_le by (simp add: stats_ok_def word_less_nat_alt)
    have lim: "unat (TotalPages P - n + 1) = unat (TotalPages P) - unat n + 1"
      using nle b' by (subst unat_add_small) (simp_all add: unat_sub_small word_le_nat_alt)
    have idx: "s < TotalPages P - n + 1 \<longleftrightarrow> unat s + unat n \<le> unat (TotalPages P)" for s
      using lim nle by (auto simp: word_less_nat_alt)
    have rf: "run_is_free s n P \<longleftrightarrow> run_of s n \<subseteq> free_pages P" if "s < TotalPages P - n + 1" for s
      using that b(1) by (intro run_is_free_iff) (simp_all add: idx)
    show ?thesis
    proof (cases "find_range 0 (TotalPages P - n + 1) (\<lambda>s. run_is_free s n P)")
      case None
      then have "\<not> run_of s n \<subseteq> free_pages P" if "unat s + unat n \<le> unat (TotalPages P)" for s
        using that rf idx by (auto simp: find_range_None_iff)
      then show ?thesis using none a n01 False None by (simp add: AllocPages_def)
    next
      case (Some s)
      then have s: "s < TotalPages P - n + 1" "run_of s n \<subseteq> free_pages P"
        "\<And>t. t < s \<Longrightarrow> \<not> run_of t n \<subseteq> free_pages P"
        using rf find_range_SomeD [OF Some] by (auto intro: less_trans)
      have sn: "unat s + unat n \<le> unat (TotalPages P)" using s(1) idx by simp
      then have lt: "unat s + unat n < 2 ^ 64" using b' by simp
      have n0: "0 < unat n" using n01 by (simp add: unat_gt_0)
      have mem: "s \<in> run_of s n" using lt n0
        by (simp add: run_of_def word_less_nat_alt unat_add_small)
      then have s0: "s \<noteq> 0" "s < TotalPages P" using s(2) b(3) by (auto simp: free_pages_def)
      have aQ: "a = s * PageSize" "Q = stats_take n (for_range 0 n (\<lambda>k. SetBitmapBit (s + k)) P)"
        using a n01 False Some by (simp_all add: AllocPages_def)
      have up: "used_pages (for_range 0 n (\<lambda>k. SetBitmapBit (s + k)) P) = run_of s n \<union> used_pages P"
        "free_pages (for_range 0 n (\<lambda>k. SetBitmapBit (s + k)) P) = free_pages P - run_of s n"
        using s(2) by (auto simp: used_pages_def free_pages_def TestBitmapBit_run [OF lt])
      have "pmm_inv Q" unfolding aQ
        by (rule pmm_inv_take [OF inv s(2)])
          (use b up lt in \<open>simp_all add: card_run_of TestBitmapBit_run\<close>)
      then show ?thesis
        using run [OF sn s(2) aQ(1) _ s(3)] up s0 page_addr_simps(3) [OF s0(2) b(1)] aQ by simp
    qed
  qed
qed

lemma AllocPages_one: "AllocPages 1 P = AllocPage P"
  by (simp add: AllocPages_def)

lemma AllocPages_inv [kinv]: "pmm_inv P \<Longrightarrow> pmm_inv (snd (AllocPages n P))"
proof (cases "1 < n")
  case True
  assume inv: "pmm_inv P"
  show ?thesis
    by (rule AllocPages_cases [OF inv _ True, of "fst (AllocPages n P)" "snd (AllocPages n P)"]) (use inv in auto)
next
  case False
  assume inv: "pmm_inv P"
  have "n = 0 \<or> n = 1" using False by (simp add: word_less_nat_alt word_unat_eq_iff) linarith
  then show ?thesis using inv AllocPage_inv by (auto simp: AllocPages_def)
qed

lemma FreePages_inv [kinv]: "pmm_inv P \<Longrightarrow> pmm_inv (FreePages a n P)"
  by (simp add: FreePages_def for_range_keeps FreePage_inv)

section \<open>Start-up\<close>

text \<open>What the boot loader's entry becomes in the region table.\<close>

definition region_of :: "u64 \<Rightarrow> u64 \<Rightarrow> limine_memmap_entry \<Rightarrow> MemoryRegion" where
  "region_of usable kmods e =
     \<lparr>Base = entry_base e, RegionLength = entry_length e,
      RegionType = (if entry_type e = usable then MemoryTypeUsable
                    else if entry_type e = kmods then MemoryTypeKernel else MemoryTypeReserved)\<rparr>"

definition highest_end :: "limine_memmap_entry list \<Rightarrow> u64 \<Rightarrow> u64" where
  "highest_end es h = fold (\<lambda>e h. max h (entry_base e + entry_length e)) es h"

lemma max_if: "(if h < e then e else h) = max h (e :: u64)"
  by (auto simp: max_def)

lemma take_update_end:
  assumes "n < length xs"
  shows "take (Suc n) (xs[n := v]) = take n xs @ [v]"
  using assms by (simp add: take_Suc_conv_app_nth)

lemma parse_entries_step:
  assumes "RegionCount P < 64"
  shows "parse_entries usable kmods (e # es) (P, h) =
    parse_entries usable kmods es
      (P\<lparr>Regions := (Regions P)[unat (RegionCount P) := region_of usable kmods e],
          RegionCount := RegionCount P + 1\<rparr>, max h (entry_base e + entry_length e))"
  using assms unfolding region_of_def max_if [symmetric] by (simp only: parse_entries.simps Let_def not_le [symmetric] if_False)

lemma parse_entries_spec:
  assumes "unat (RegionCount P) + length es \<le> 64" "length (Regions P) = 64"
    "parse_entries usable kmods es (P, h) = (Q, h')"
  shows "h' = highest_end es h \<and> unat (RegionCount Q) = unat (RegionCount P) + length es \<and>
    take (unat (RegionCount Q)) (Regions Q) = take (unat (RegionCount P)) (Regions P) @ map (region_of usable kmods) es \<and>
    length (Regions Q) = 64 \<and> Stats Q = Stats P \<and> HhdmOffset Q = HhdmOffset P \<and>
    LastAllocHint Q = LastAllocHint P \<and> Bitmap Q = Bitmap P"
  using assms
proof (induction es arbitrary: P h)
  case Nil
  then show ?case by (auto simp: highest_end_def)
next
  case (Cons e es)
  let ?R = "P\<lparr>Regions := (Regions P)[unat (RegionCount P) := region_of usable kmods e],
             RegionCount := RegionCount P + 1\<rparr>"
  have lt: "RegionCount P < 64" using Cons.prems by (simp add: word_less_nat_alt)
  have rc: "unat (RegionCount ?R) = Suc (unat (RegionCount P))" using unat_Suc_less [OF lt] by simp
  have "parse_entries usable kmods es (?R, max h (entry_base e + entry_length e)) = (Q, h')"
    using Cons.prems(3) parse_entries_step [OF lt] by simp
  from Cons.IH [OF _ _ this] rc show ?case
    using Cons.prems(1,2) by (auto simp: take_update_end highest_end_def)
qed

definition in_region :: "u64 \<Rightarrow> MemoryRegion \<Rightarrow> bool" where
  "in_region i R \<longleftrightarrow> RegionType R = MemoryTypeUsable \<and>
     Base R div PageSize \<le> i \<and> i < Base R div PageSize + RegionLength R div PageSize"

lemma unat_div_page: "unat (a div PageSize) = unat a div 4096" "unat (a div PageSize) < 2 ^ 52"
proof -
  show "unat (a div PageSize) = unat a div 4096" by (simp add: unat_div)
  moreover have "unat a < 2 ^ 64" using unsigned_less [of a] by simp
  ultimately show "unat (a div PageSize) < 2 ^ 52" by simp
qed

lemma page_range_no_wrap: "a div PageSize \<le> a div PageSize + b div PageSize"
  using unat_div_page(2) [of a] unat_div_page(2) [of b]
  by (simp add: word_le_nat_alt unat_add_small)

lemma TestBitmapBit_free_region:
  assumes "RegionType R = MemoryTypeUsable"
  shows "TestBitmapBit j (free_region R P) \<longleftrightarrow> TestBitmapBit j P \<and> \<not> (in_region j R \<and> j < TotalPages P)"
proof -
  let ?s = "Base R div PageSize" and ?n = "RegionLength R div PageSize"
  let ?I = "\<lambda>i Q. TotalPages Q = TotalPages P \<and>
     (\<forall>j. TestBitmapBit j Q \<longleftrightarrow> TestBitmapBit j P \<and> \<not> (?s \<le> j \<and> j < i \<and> j < TotalPages P))"
  have "?I (?s + ?n) (free_region R P)"
    unfolding free_region_def Let_def
  proof (rule for_range_invariant [where I = ?I])
    show "?s \<le> ?s + ?n" by (rule page_range_no_wrap)
    show "?I ?s P" by (auto dest: leD)
  next
    fix i Q assume "?s \<le> i" "i < ?s + ?n" "?I i Q"
    then show "?I (i + 1) (if i < TotalPages Q then ClearBitmapBit i Q else Q)"
      by (auto simp: less_plus_one_iff le_less)
  qed
  then show ?thesis using assms by (auto simp: in_region_def)
qed

lemma free_region_frame [simp]:
  "TotalPages (free_region R P) = TotalPages P"
  "BitmapSize (free_region R P) = BitmapSize P"
  "Bitmap (free_region R P) = Bitmap P"
  "LastAllocHint (free_region R P) = LastAllocHint P"
  "HhdmOffset (free_region R P) = HhdmOffset P"
  "Regions (free_region R P) = Regions P"
  "RegionCount (free_region R P) = RegionCount P"
  unfolding free_region_def Let_def by (rule for_range_same; simp)+

lemma free_usable_frame [simp]:
  "TotalPages (free_usable_regions P) = TotalPages P"
  "BitmapSize (free_usable_regions P) = BitmapSize P"
  "Bitmap (free_usable_regions P) = Bitmap P"
  "LastAllocHint (free_usable_regions P) = LastAllocHint P"
  "HhdmOffset (free_usable_regions P) = HhdmOffset P"
  unfolding free_usable_regions_def by (rule for_range_same; simp)+

lemma TestBitmapBit_free_usable:
  "TestBitmapBit j (free_usable_regions P) \<longleftrightarrow> TestBitmapBit j P \<and>
     \<not> (j < TotalPages P \<and> (\<exists>k < RegionCount P. in_region j (Regions P ! unat k)))"
proof -
  let ?I = "\<lambda>i Q. TotalPages Q = TotalPages P \<and> Regions Q = Regions P \<and>
     (\<forall>j. TestBitmapBit j Q \<longleftrightarrow> TestBitmapBit j P \<and>
        \<not> (j < TotalPages P \<and> (\<exists>k < i. in_region j (Regions P ! unat k))))"
  have "?I (RegionCount P) (free_usable_regions P)"
    unfolding free_usable_regions_def
  proof (rule for_range_invariant [OF word_zero_le, where I = ?I])
    show "?I 0 P" by simp
  next
    fix i Q assume i: "i < RegionCount P" and I: "?I i Q"
    have ex: "(\<exists>k < i + 1. in_region j (Regions P ! unat k)) \<longleftrightarrow>
       in_region j (Regions P ! unat i) \<or> (\<exists>k < i. in_region j (Regions P ! unat k))" for j
      using i by (auto simp: less_plus_one_iff le_less)
    show "?I (i + 1) (if RegionType (Regions Q ! unat i) = MemoryTypeUsable
                      then free_region (Regions Q ! unat i) Q else Q)"
      using I unfolding ex by (auto simp: TestBitmapBit_free_region) (auto simp: in_region_def)
  qed
  then show ?thesis by blast
qed

text \<open>The pages that hold the bitmap itself.\<close>

definition bitmap_pages :: "PhysicalMemoryManager \<Rightarrow> u64 set" where
  "bitmap_pages P = run_of (VirtToPhys (Bitmap P) P div PageSize) ((BitmapSize P * 8 + PageSize - 1) div PageSize)"

lemma TestBitmapBit_protect:
  "TestBitmapBit j (protect_bitmap P) \<longleftrightarrow> TestBitmapBit j P \<or> j \<in> bitmap_pages P"
  unfolding protect_bitmap_def Let_def
  by (subst TestBitmapBit_set_loop [OF page_range_no_wrap]) (simp add: bitmap_pages_def run_of_def)

lemma mark_frame [simp]:
  "TotalPages (mark_all_used P) = TotalPages P"
  "BitmapSize (mark_all_used P) = BitmapSize P"
  "Bitmap (mark_all_used P) = Bitmap P"
  "LastAllocHint (mark_all_used P) = LastAllocHint P"
  "HhdmOffset (mark_all_used P) = HhdmOffset P"
  "Regions (mark_all_used P) = Regions P"
  "RegionCount (mark_all_used P) = RegionCount P"
  "TotalPages (protect_bitmap P) = TotalPages P"
  "BitmapSize (protect_bitmap P) = BitmapSize P"
  "Bitmap (protect_bitmap P) = Bitmap P"
  "LastAllocHint (protect_bitmap P) = LastAllocHint P"
  "HhdmOffset (protect_bitmap P) = HhdmOffset P"
  unfolding mark_all_used_def protect_bitmap_def Let_def by (rule for_range_same; simp)+

lemma MarkMemoryRegions_spec:
  "TotalPages (MarkMemoryRegions P) = TotalPages P"
  "BitmapSize (MarkMemoryRegions P) = BitmapSize P"
  "Bitmap (MarkMemoryRegions P) = Bitmap P"
  "LastAllocHint (MarkMemoryRegions P) = LastAllocHint P"
  "HhdmOffset (MarkMemoryRegions P) = HhdmOffset P"
  "j < TotalPages P \<Longrightarrow> TestBitmapBit j (MarkMemoryRegions P) \<longleftrightarrow>
     j \<in> bitmap_pages P \<or> \<not> (\<exists>k < RegionCount P. in_region j (Regions P ! unat k))"
proof -
  assume j: "j < TotalPages P"
  have bp: "bitmap_pages (free_usable_regions (mark_all_used P)) = bitmap_pages P"
    by (simp add: bitmap_pages_def VirtToPhys_def)
  have "TestBitmapBit j (mark_all_used P)"
    unfolding mark_all_used_def by (subst TestBitmapBit_set_loop) (use j in auto)
  then show "TestBitmapBit j (MarkMemoryRegions P) \<longleftrightarrow>
     j \<in> bitmap_pages P \<or> \<not> (\<exists>k < RegionCount P. in_region j (Regions P ! unat k))"
    using j by (auto simp: MarkMemoryRegions_def TestBitmapBit_protect TestBitmapBit_free_usable bp)
qed (simp_all add: MarkMemoryRegions_def)

lemma count_pages_spec:
  assumes "TotalPages P \<le> 0x10000000000000"
  shows "stats_ok (count_pages P)" "TotalPages (count_pages P) = TotalPages P"
    "BitmapSize (count_pages P) = BitmapSize P" "LastAllocHint (count_pages P) = LastAllocHint P"
    "TestBitmapBit j (count_pages P) = TestBitmapBit j P" "Bitmap (count_pages P) = Bitmap P"
    "HhdmOffset (count_pages P) = HhdmOffset P"
proof -
  let ?J = "\<lambda>Q. TotalPages Q = TotalPages P \<and> BitmapSize Q = BitmapSize P \<and>
      LastAllocHint Q = LastAllocHint P \<and> BitmapArr Q = BitmapArr P \<and> Bitmap Q = Bitmap P \<and> HhdmOffset Q = HhdmOffset P"
  let ?I = "\<lambda>i Q. ?J Q \<and>
      unat (StatUsedPages (Stats Q)) = card {j. j < i \<and> TestBitmapBit j P} \<and>
      unat (StatFreePages (Stats Q)) = card {j. j < i \<and> \<not> TestBitmapBit j P}"
  have b: "unat (TotalPages P) \<le> 2 ^ 52" using assms by (simp add: word_le_nat_alt)
  let ?body = "\<lambda>Index P. if TestBitmapBit Index P
              then P\<lparr>Stats := (Stats P)\<lparr>StatUsedPages := StatUsedPages (Stats P) + 1\<rparr>\<rparr>
              else P\<lparr>Stats := (Stats P)\<lparr>StatFreePages := StatFreePages (Stats P) + 1\<rparr>\<rparr>"
  have eq: "count_pages P = for_range 0 (TotalPages P) ?body
     (P\<lparr>Stats := (Stats P)\<lparr>StatTotalPages := TotalPages P, StatUsedPages := 0, StatFreePages := 0\<rparr>\<rparr>)"
    by (simp add: count_pages_def)
  have "?I (TotalPages P) (count_pages P)"
    unfolding eq
  proof (rule for_range_invariant [OF word_zero_le, where I = ?I], goal_cases)
    case 1
    then show ?case by simp
  next
    case (2 i Q)
    then have T: "TestBitmapBit i Q = TestBitmapBit i P" by (simp add: TestBitmapBit_def)
    have ins: "{j. j < i + 1 \<and> R j} = (if R i then insert i {j. j < i \<and> R j} else {j. j < i \<and> R j})" for R
      using 2 by (auto simp: less_plus_one_iff le_less)
    have lt: "card {j. j < i \<and> R j} < 2 ^ 53" for R
    proof -
      have "card {j. j < i \<and> R j} \<le> card {j. j < i}" by (intro card_mono) auto
      moreover have "unat i < unat (TotalPages P)" using 2 by (simp add: word_less_nat_alt)
      ultimately show ?thesis using b by (simp add: card_words_below)
    qed
    have inc: "unat (c + 1 :: u64) = unat c + 1" if "unat c < 2 ^ 53" for c
      using that by (subst unat_add_small) simp_all
    have "unat (StatUsedPages (Stats Q)) < 2 ^ 53" "unat (StatFreePages (Stats Q)) < 2 ^ 53"
      using 2 lt by simp_all
    then show ?case using 2 by (simp add: T ins inc)
  qed
  moreover from this show "TestBitmapBit j (count_pages P) = TestBitmapBit j P" for j
    by (simp add: TestBitmapBit_def)
  ultimately show "stats_ok (count_pages P)" "TotalPages (count_pages P) = TotalPages P"
    "BitmapSize (count_pages P) = BitmapSize P" "LastAllocHint (count_pages P) = LastAllocHint P"
    "Bitmap (count_pages P) = Bitmap P" "HhdmOffset (count_pages P) = HhdmOffset P"
    by (simp_all add: stats_ok_def used_pages_def free_pages_def)
qed

lemma highest_end_Cons: "highest_end (e # es) h = highest_end es (max h (entry_base e + entry_length e))"
  by (simp add: highest_end_def)

lemma highest_end_ge: "h \<le> highest_end es h"
proof (induction es arbitrary: h)
  case Nil
  then show ?case by (simp add: highest_end_def)
next
  case (Cons e es)
  show ?case unfolding highest_end_Cons by (rule order_trans [OF max.cobounded1 Cons.IH])
qed

lemma highest_end_bounds:
  assumes "\<forall>e \<in> set es. entry_base e + entry_length e \<le> b" "h \<le> b"
  shows "highest_end es h \<le> b" "\<forall>e \<in> set es. entry_base e + entry_length e \<le> highest_end es h"
proof -
  show "highest_end es h \<le> b" using assms
    by (induction es arbitrary: h) (simp_all add: highest_end_def)
  show "\<forall>e \<in> set es. entry_base e + entry_length e \<le> highest_end es h"
  proof (induction es arbitrary: h)
    case (Cons e es)
    have "entry_base e + entry_length e \<le> highest_end (e # es) h"
      unfolding highest_end_Cons by (rule order_trans [OF max.cobounded2 highest_end_ge])
    then show ?case using Cons.IH by (simp add: highest_end_Cons)
  qed simp
qed

lemma InitializeBitmap_frame:
  "TotalPages (InitializeBitmap P) = TotalPages P"
  "BitmapSize (InitializeBitmap P) = (TotalPages P + 64 - 1) div 64"
  "LastAllocHint (InitializeBitmap P) = LastAllocHint P"
  "HhdmOffset (InitializeBitmap P) = HhdmOffset P"
  "Regions (InitializeBitmap P) = Regions P"
  "RegionCount (InitializeBitmap P) = RegionCount P"
  by (auto simp: InitializeBitmap_def Let_def intro: trans [OF for_range_same])

lemma InitializeBitmap_found:
  assumes "Bitmap P = 0" "Bitmap (InitializeBitmap P) \<noteq> 0"
  obtains k where "k < RegionCount P" "RegionType (Regions P ! unat k) = MemoryTypeUsable"
    "BitmapSize (InitializeBitmap P) * 8 \<le> RegionLength (Regions P ! unat k)"
    "Bitmap (InitializeBitmap P) = Base (Regions P ! unat k) + HhdmOffset P"
proof -
  let ?bs = "(TotalPages P + 64 - 1) div 64"
  have bm: "Bitmap (for_range 0 n (\<lambda>i P. P\<lparr>BitmapArr := (BitmapArr P)(i := 0)\<rparr>) Q) = Bitmap Q" for n Q
    by (rule for_range_same) simp
  obtain k where k: "find_range 0 (RegionCount P)
      (\<lambda>i. RegionType (Regions P ! unat i) = MemoryTypeUsable \<and> ?bs * 8 \<le> RegionLength (Regions P ! unat i)) = Some k"
    using assms by (auto simp: InitializeBitmap_def Let_def split: option.splits)
  have "Bitmap (InitializeBitmap P) = Base (Regions P ! unat k) + HhdmOffset P"
    using assms k by (auto simp: bm InitializeBitmap_def Let_def PhysToVirt_def split: if_splits)
  then show ?thesis
    using that [of k] find_range_SomeD [OF k] by (simp add: InitializeBitmap_frame)
qed

lemma unat_bitmap_size:
  assumes "TotalPages P \<le> 0x10000000000000"
  shows "unat (TotalPages P) \<le> unat (BitmapSize (InitializeBitmap P)) * 64"
proof -
  have b: "unat (TotalPages P) \<le> 2 ^ 52" using assms by (simp add: word_le_nat_alt)
  have "unat (TotalPages P + 64 - 1) = unat (TotalPages P) + 63"
    using b by (simp add: unat_word_ariths)
  then show ?thesis by (simp add: InitializeBitmap_frame unat_div)
qed

lemma total_pages_of:
  assumes "h \<le> 0xFFFFFFFFFFFFF000"
  shows "unat ((h + PageSize - 1) div PageSize) = (unat h + 4095) div 4096"
    "(h + PageSize - 1) div PageSize \<le> 0x10000000000000"
proof -
  have "unat h \<le> 0xFFFFFFFFFFFFF000" using assms by (simp add: word_le_nat_alt)
  then have "unat (h + PageSize - 1) = unat h + 4095" by (simp add: unat_word_ariths)
  then show 1: "unat ((h + PageSize - 1) div PageSize) = (unat h + 4095) div 4096" by (simp add: unat_div)
  show "(h + PageSize - 1) div PageSize \<le> 0x10000000000000"
    using 1 \<open>unat h \<le> _\<close> by (simp add: word_le_nat_alt)
qed

text \<open>What the code relies on in the boot loader's memory map: at most 64 entries, none of which
  reaches past the last page of the address space, and no usable entry that starts in page 0.\<close>

definition memmap_ok :: "u64 \<Rightarrow> limine_memmap_entry list \<Rightarrow> bool" where
  "memmap_ok usable es \<longleftrightarrow> es \<noteq> [] \<and> length es \<le> 64 \<and>
     (\<forall>e \<in> set es. unat (entry_base e) + unat (entry_length e) \<le> 0xFFFFFFFFFFFFF000 \<and>
                    (entry_type e = usable \<longrightarrow> PageSize \<le> entry_base e))"

lemma memmap_ok_end:
  assumes "memmap_ok usable es" "e \<in> set es"
  shows "unat (entry_base e + entry_length e) = unat (entry_base e) + unat (entry_length e)"
    "entry_base e + entry_length e \<le> 0xFFFFFFFFFFFFF000"
proof -
  have b: "unat (entry_base e) + unat (entry_length e) \<le> 0xFFFFFFFFFFFFF000"
    using assms by (auto simp: memmap_ok_def)
  then show "unat (entry_base e + entry_length e) = unat (entry_base e) + unat (entry_length e)"
    by (intro unat_add_small) simp
  with b show "entry_base e + entry_length e \<le> 0xFFFFFFFFFFFFF000" by (simp add: word_le_nat_alt)
qed

lemma ParseMemoryMap_spec:
  assumes ok: "memmap_ok usable es" and len: "length (Regions P) = 64"
    and Q: "Q = ParseMemoryMap usable kmods (Some es) P"
  shows "unat (RegionCount Q) = length es" "take (length es) (Regions Q) = map (region_of usable kmods) es"
    "TotalPages Q = (highest_end es 0 + PageSize - 1) div PageSize"
    "LastAllocHint Q = LastAllocHint P" "Bitmap Q = Bitmap P" "HhdmOffset Q = HhdmOffset P"
proof -
  obtain R h where R: "parse_entries usable kmods es (P\<lparr>RegionCount := 0\<rparr>, 0) = (R, h)" by force
  have l: "length es \<le> 64" using ok by (simp add: memmap_ok_def)
  have sp: "h = highest_end es 0 \<and> unat (RegionCount R) = length es \<and>
      take (unat (RegionCount R)) (Regions R) = map (region_of usable kmods) es \<and>
      HhdmOffset R = HhdmOffset P \<and> LastAllocHint R = LastAllocHint P \<and> Bitmap R = Bitmap P"
    using parse_entries_spec [OF _ _ R] l len by auto
  then show "unat (RegionCount Q) = length es" "take (length es) (Regions Q) = map (region_of usable kmods) es"
    "TotalPages Q = (highest_end es 0 + PageSize - 1) div PageSize"
    "LastAllocHint Q = LastAllocHint P" "Bitmap Q = Bitmap P" "HhdmOffset Q = HhdmOffset P"
    using Q R by (auto simp: ParseMemoryMap_def)
qed

lemma ex_region_iff:
  assumes "unat (RegionCount P) = length es" "take (length es) (Regions P) = map f es"
  shows "(\<exists>k < RegionCount P. T (Regions P ! unat k)) \<longleftrightarrow> (\<exists>e \<in> set es. T (f e))"
proof -
  have nth: "Regions P ! n = f (es ! n)" if "n < length es" for n
    using that assms(2) by (metis nth_map nth_take)
  show ?thesis
  proof
    assume "\<exists>k < RegionCount P. T (Regions P ! unat k)"
    then obtain k where "k < RegionCount P" "T (Regions P ! unat k)" by blast
    then have "unat k < length es" "T (f (es ! unat k))"
      using assms(1) nth by (simp_all add: word_less_nat_alt)
    then show "\<exists>e \<in> set es. T (f e)" using nth_mem by blast
  next
    assume "\<exists>e \<in> set es. T (f e)"
    then obtain n where n: "n < length es" "T (f (es ! n))" by (auto simp: in_set_conv_nth)
    have "unat (RegionCount P) < 2 ^ 32" using unsigned_less [of "RegionCount P"] by simp
    then have u: "unat (word_of_nat n :: u32) = n" using n assms(1) by (simp add: unat_of_nat)
    show "\<exists>k < RegionCount P. T (Regions P ! unat k)"
      by (intro exI [of _ "word_of_nat n"]) (use n u assms(1) nth in \<open>simp add: word_less_nat_alt\<close>)
  qed
qed

lemma in_region_below_total:
  assumes ok: "memmap_ok usable es" and e: "e \<in> set es" and i: "in_region i (region_of usable kmods e)"
  shows "i < (highest_end es 0 + PageSize - 1) div PageSize" "i \<noteq> 0"
proof -
  let ?b = "entry_base e" and ?n = "entry_length e"
  have u: "entry_type e = usable" "?b div PageSize \<le> i" "i < ?b div PageSize + ?n div PageSize"
    using i by (auto simp: in_region_def region_of_def split: if_splits)
  have "unat (?b div PageSize + ?n div PageSize) = unat ?b div 4096 + unat ?n div 4096"
    using unat_div_page(2) [of ?b] unat_div_page(2) [of ?n] by (subst unat_add_small) (simp_all add: unat_div_page)
  then have i': "unat i < unat ?b div 4096 + unat ?n div 4096" "unat ?b div 4096 \<le> unat i"
    using u by (simp_all add: word_less_nat_alt word_le_nat_alt unat_div_page)
  have B: "\<forall>e \<in> set es. entry_base e + entry_length e \<le> 0xFFFFFFFFFFFFF000"
    using memmap_ok_end(2) [OF ok] by blast
  have h: "?b + ?n \<le> highest_end es 0" "highest_end es 0 \<le> 0xFFFFFFFFFFFFF000"
    using highest_end_bounds [OF B, of 0] e by simp_all
  then have "unat ?b + unat ?n \<le> unat (highest_end es 0)"
    using memmap_ok_end(1) [OF ok e] by (simp add: word_le_nat_alt)
  then have "unat i < (unat (highest_end es 0) + 4095) div 4096" using i' by linarith
  then show "i < (highest_end es 0 + PageSize - 1) div PageSize"
    unfolding word_less_nat_alt total_pages_of(1) [OF h(2)] .
  have "4096 \<le> unat ?b" using ok e u(1) by (auto simp: memmap_ok_def word_le_nat_alt)
  then show "i \<noteq> 0" using i'(2) by auto
qed

lemma InitializePmm_spec:
  assumes ok: "memmap_ok usable es" and len: "length (Regions P) = 64"
    and "LastAllocHint P = 0" "Bitmap P = 0"
    and Q: "Q = InitializePmm usable kmods (Some off) (Some es) P" "Bitmap Q \<noteq> 0"
  shows "pmm_inv Q"
    "i \<in> free_pages Q \<longleftrightarrow> (\<exists>e \<in> set es. in_region i (region_of usable kmods e)) \<and> i \<notin> bitmap_pages Q"
proof -
  define R where "R = ParseMemoryMap usable kmods (Some es) (P\<lparr>HhdmOffset := off\<rparr>)"
  define B where "B = InitializeBitmap R"
  have len': "length (Regions (P\<lparr>HhdmOffset := off\<rparr>)) = 64" using len by simp
  note pr = ParseMemoryMap_spec [OF ok len' R_def]
  have ne: "RegionCount R \<noteq> 0" using pr(1) ok by (auto simp: memmap_ok_def)
  have bnz: "Bitmap B \<noteq> 0"
    using Q ne pr(5) assms(4) by (auto simp: InitializePmm_def R_def [symmetric] B_def [symmetric] Let_def split: if_splits)
  have Qeq: "Q = count_pages (MarkMemoryRegions B)"
    using Q(1) ne bnz by (simp add: InitializePmm_def R_def [symmetric] B_def [symmetric] Let_def)
  have fB: "TotalPages B = TotalPages R" "LastAllocHint B = 0" "Regions B = Regions R" "RegionCount B = RegionCount R"
    using pr(4) assms(3) by (simp_all add: B_def InitializeBitmap_frame)
  have endB: "\<forall>e \<in> set es. entry_base e + entry_length e \<le> 0xFFFFFFFFFFFFF000"
    using memmap_ok_end(2) [OF ok] by blast
  have T: "TotalPages B \<le> 0x10000000000000"
    using total_pages_of(2) highest_end_bounds(1) [OF endB, of 0] by (simp add: fB pr(3))
  note mk = MarkMemoryRegions_spec [where P = B] and ct = count_pages_spec [where P = "MarkMemoryRegions B"]
  have ctT: "TotalPages (MarkMemoryRegions B) \<le> 0x10000000000000" using T mk by simp
  have fQ: "TotalPages Q = TotalPages B" "BitmapSize Q = BitmapSize B" "LastAllocHint Q = 0" "Bitmap Q = Bitmap B"
      "HhdmOffset Q = HhdmOffset B" "stats_ok Q"
    using ct [OF ctT] mk fB by (simp_all add: Qeq)
  have bp: "bitmap_pages Q = bitmap_pages B" using fQ by (simp add: bitmap_pages_def VirtToPhys_def)
  have reg: "(\<exists>k < RegionCount B. in_region j (Regions B ! unat k)) \<longleftrightarrow>
       (\<exists>e \<in> set es. in_region j (region_of usable kmods e))" for j
    using ex_region_iff [OF pr(1,2)] by (simp add: fB)
  have tb: "TestBitmapBit j Q \<longleftrightarrow> j \<in> bitmap_pages Q \<or> \<not> (\<exists>e \<in> set es. in_region j (region_of usable kmods e))"
    if "j < TotalPages Q" for j
    using that mk(6) ct(5) [OF ctT] reg by (simp add: Qeq [symmetric] fQ bp)
  note below = in_region_below_total [OF ok]
  show "i \<in> free_pages Q \<longleftrightarrow> (\<exists>e \<in> set es. in_region i (region_of usable kmods e)) \<and> i \<notin> bitmap_pages Q"
    using tb [of i] below(1) by (auto simp: free_pages_def fQ fB pr(3))
  obtain k where "k < RegionCount R" "RegionType (Regions R ! unat k) = MemoryTypeUsable"
    using InitializeBitmap_found [of R] pr(5) assms(4) bnz by (auto simp: B_def)
  then have "\<exists>e \<in> set es. RegionType (region_of usable kmods e) = MemoryTypeUsable"
    using ex_region_iff [OF pr(1,2), of "\<lambda>r. RegionType r = MemoryTypeUsable"] by blast
  then obtain e where e: "e \<in> set es" "entry_type e = usable" by (auto simp: region_of_def split: if_splits)
  then have "4096 \<le> unat (entry_base e)" using ok by (auto simp: memmap_ok_def word_le_nat_alt)
  moreover have "unat (entry_base e) + unat (entry_length e) \<le> unat (highest_end es 0)"
    using highest_end_bounds(2) [OF endB, of 0] e memmap_ok_end(1) [OF ok e(1)]
    by (metis word_le_nat_alt word_zero_le)
  ultimately have "0 < TotalPages Q"
    using total_pages_of(1) highest_end_bounds(1) [OF endB, of 0] by (simp add: fQ fB pr(3) word_less_nat_alt)
  then have "TestBitmapBit 0 Q" using tb [of 0] below(2) by blast
  then show "pmm_inv Q"
    using T fQ unat_bitmap_size [of R] T by (simp add: pmm_inv_def B_def InitializeBitmap_frame(1))
qed

section \<open>The allocator contract\<close>

text \<open>
  What the kernel heap and the page-table code rely on: single pages are handed out from a pool
  \<open>avail\<close> into the set \<open>taken\<close>, the address 0 means failure and is never a page of the pool, and
  releasing an address that is not taken changes nothing.
\<close>

locale page_allocator =
  fixes alloc :: "'s \<Rightarrow> u64 \<times> 's"
    and release :: "u64 \<Rightarrow> 's \<Rightarrow> 's"
    and taken avail :: "'s \<Rightarrow> u64 set"
    and invar :: "'s \<Rightarrow> bool"
  assumes alloc_none: "invar s \<Longrightarrow> alloc s = (0, t) \<Longrightarrow> t = s \<and> avail s = {}"
    and alloc_some: "invar s \<Longrightarrow> alloc s = (a, t) \<Longrightarrow> a \<noteq> 0 \<Longrightarrow>
          invar t \<and> a \<in> avail s \<and> avail t = avail s - {a} \<and> taken t = insert a (taken s)"
    and release_taken: "invar s \<Longrightarrow> a \<in> taken s \<Longrightarrow> a \<noteq> 0 \<Longrightarrow>
          invar (release a s) \<and> avail (release a s) = insert a (avail s) \<and> taken (release a s) = taken s - {a}"
    and release_other: "invar s \<Longrightarrow> a \<notin> taken s \<or> a = 0 \<Longrightarrow> release a s = s"
    and pool_disjoint: "invar s \<Longrightarrow> taken s \<inter> avail s = {}"
    and pool_aligned: "invar s \<Longrightarrow> a \<in> taken s \<union> avail s \<Longrightarrow> a mod 4096 = 0"
    and pool_not_null: "invar s \<Longrightarrow> 0 \<notin> avail s"
begin

lemma alloc_fresh: "invar s \<Longrightarrow> alloc s = (a, t) \<Longrightarrow> a \<noteq> 0 \<Longrightarrow> a \<notin> taken s"
  using alloc_some pool_disjoint by blast

lemma alloc_invar: "invar s \<Longrightarrow> invar (snd (alloc s))"
  by (metis alloc_none alloc_some prod.collapse)

lemma release_invar: "invar s \<Longrightarrow> invar (release a s)"
  using release_taken release_other by (cases "a \<in> taken s \<and> a \<noteq> 0") auto

lemma alloc_succeeds_iff: "invar s \<Longrightarrow> fst (alloc s) \<noteq> 0 \<longleftrightarrow> avail s \<noteq> {}"
  by (metis alloc_none alloc_some empty_iff prod.collapse)

lemma alloc_release:
  assumes "invar s" "alloc s = (a, t)" "a \<noteq> 0"
  shows "avail (release a t) = avail s \<and> taken (release a t) = taken s"
  using alloc_some [OF assms] alloc_fresh [OF assms] release_taken [of t a] assms(3) by auto

lemma release_release: "invar s \<Longrightarrow> release a (release a s) = release a s"
  using release_taken release_other release_invar by (cases "a \<in> taken s \<and> a \<noteq> 0") auto

text \<open>A pool of \<open>n\<close> pages serves exactly \<open>n\<close> requests, with pairwise different pages.\<close>

lemma alloc_many:
  assumes "invar s" "finite (avail s)" "n \<le> card (avail s)" "iterate_alloc alloc n s = (as, t)"
  shows "invar t \<and> distinct as \<and> length as = n \<and> set as \<subseteq> avail s \<and> avail t = avail s - set as \<and>
         taken t = taken s \<union> set as"
  using assms
proof (induction n arbitrary: s as t)
  case 0
  then show ?case by simp
next
  case (Suc n)
  obtain a s' where a: "alloc s = (a, s')" by force
  obtain bs where bs: "iterate_alloc alloc n s' = (bs, t)" "as = a # bs"
    using Suc.prems(4) a by (auto split: prod.splits)
  have "avail s \<noteq> {}" using Suc.prems by auto
  then have a0: "a \<noteq> 0" using alloc_succeeds_iff [OF Suc.prems(1)] a by simp
  note st = alloc_some [OF Suc.prems(1) a a0]
  have "n \<le> card (avail s')" using st Suc.prems(2,3) by simp
  then show ?case using Suc.IH [OF _ _ _ bs(1)] st bs(2) Suc.prems(2) by auto
qed

end

section \<open>The model keeps the contract\<close>

definition page_addr :: "u64 \<Rightarrow> u64" where "page_addr i = i * PageSize"

definition taken_addrs :: "PhysicalMemoryManager \<Rightarrow> u64 set" where
  "taken_addrs P = page_addr ` used_pages P"

definition avail_addrs :: "PhysicalMemoryManager \<Rightarrow> u64 set" where
  "avail_addrs P = page_addr ` free_pages P"

lemma page_addr_inj: "TotalPages P \<le> 0x10000000000000 \<Longrightarrow> inj_on page_addr {i. i < TotalPages P}"
  unfolding inj_on_def page_addr_def by (metis mem_Collect_eq page_addr_simps(1))

lemma pages_below: "used_pages P \<subseteq> {i. i < TotalPages P}" "free_pages P \<subseteq> {i. i < TotalPages P}"
  by (auto simp: used_pages_def free_pages_def)

lemma pmm_inv_bound: "pmm_inv P \<Longrightarrow> TotalPages P \<le> 0x10000000000000"
  by (simp add: pmm_inv_def)

lemma page_addr_image_diff:
  assumes "pmm_inv P" "A \<subseteq> {i. i < TotalPages P}" "i < TotalPages P"
  shows "page_addr ` (A - {i}) = page_addr ` A - {page_addr i}"
proof -
  have "inj_on page_addr (insert i A)"
    using assms(2,3) by (intro inj_on_subset [OF page_addr_inj [OF pmm_inv_bound [OF assms(1)]]]) auto
  then show ?thesis by (auto simp: inj_on_def)
qed

lemma taken_addrs_iff:
  assumes "pmm_inv P"
  shows "a \<in> taken_addrs P \<and> a \<noteq> 0 \<longleftrightarrow> PmmValidatePage a P \<and> TestBitmapBit (a div PageSize) P"
proof
  assume "a \<in> taken_addrs P \<and> a \<noteq> 0"
  then obtain i where i: "a = i * PageSize" "i < TotalPages P" "TestBitmapBit i P" "a \<noteq> 0"
    by (auto simp: taken_addrs_def page_addr_def used_pages_def)
  then show "PmmValidatePage a P \<and> TestBitmapBit (a div PageSize) P"
    using page_addr_simps [OF i(2) pmm_inv_bound [OF assms]] by (simp add: valid_page_iff)
next
  assume "PmmValidatePage a P \<and> TestBitmapBit (a div PageSize) P"
  then show "a \<in> taken_addrs P \<and> a \<noteq> 0"
    using page_addr_of_index [of a]
    by (auto simp: valid_page_iff taken_addrs_def page_addr_def used_pages_def intro!: image_eqI [of _ _ "a div PageSize"])
qed

interpretation pmm: page_allocator AllocPage FreePage taken_addrs avail_addrs pmm_inv
proof
  fix s t assume inv: "pmm_inv s" and "AllocPage s = (0, t)"
  then show "t = s \<and> avail_addrs s = {}"
    by (cases rule: AllocPage_cases) (auto simp: avail_addrs_def)
next
  fix s a t assume inv: "pmm_inv s" and a: "AllocPage s = (a, t)" "a \<noteq> 0"
  show "pmm_inv t \<and> a \<in> avail_addrs s \<and> avail_addrs t = avail_addrs s - {a} \<and> taken_addrs t = insert a (taken_addrs s)"
    using inv a(1)
  proof (cases rule: AllocPage_cases)
    case (page i)
    then have "i < TotalPages s" by (simp add: free_pages_def)
    then show ?thesis
      using page page_addr_image_diff [OF inv pages_below(2)] by (auto simp: avail_addrs_def taken_addrs_def page_addr_def)
  qed (use a in simp)
next
  fix s a assume inv: "pmm_inv s" and a: "a \<in> taken_addrs s" "a \<noteq> 0"
  show "pmm_inv (FreePage a s) \<and> avail_addrs (FreePage a s) = insert a (avail_addrs s) \<and>
        taken_addrs (FreePage a s) = taken_addrs s - {a}"
    using inv
  proof (cases rule: FreePage_cases [of s a])
    case rejected
    then show ?thesis using taken_addrs_iff [OF inv, of a] a by simp
  next
    case freed
    have pa: "page_addr (a div PageSize) = a"
      using freed(1) page_addr_of_index [of a] by (simp add: page_addr_def valid_page_iff)
    have "a div PageSize < TotalPages s" using freed(1) by (simp add: valid_page_iff)
    then show ?thesis
      using freed(5-7) page_addr_image_diff [OF inv pages_below(1), of "a div PageSize"] pa
      by (simp add: avail_addrs_def taken_addrs_def)
  qed
next
  fix s a assume inv: "pmm_inv s" and "a \<notin> taken_addrs s \<or> a = 0"
  then show "FreePage a s = s"
    using taken_addrs_iff [OF inv, of a] by (auto simp: FreePage_def Let_def)
next
  fix s assume inv: "pmm_inv s"
  show "taken_addrs s \<inter> avail_addrs s = {}"
    unfolding taken_addrs_def avail_addrs_def
    using page_addr_inj [OF pmm_inv_bound [OF inv]] pages_below
    by (subst inj_on_image_Int [symmetric, of _ "{i. i < TotalPages s}"]) (auto simp: used_pages_def free_pages_def)
  show "0 \<notin> avail_addrs s"
    using inv page_addr_simps(3) [OF _ pmm_inv_bound [OF inv]]
    by (auto simp: avail_addrs_def page_addr_def free_pages_def pmm_inv_def)
next
  fix s a assume inv: "pmm_inv s" and "a \<in> taken_addrs s \<union> avail_addrs s"
  then obtain i where "i < TotalPages s" "a = i * PageSize"
    by (auto simp: taken_addrs_def avail_addrs_def page_addr_def used_pages_def free_pages_def)
  then show "a mod 4096 = 0" using page_addr_simps(2) [OF _ pmm_inv_bound [OF inv]] by blast
qed

section \<open>A booted machine\<close>

text \<open>The static \<^verbatim>\<open>Pmm\<close> of the loaded kernel is zero; a machine with four pages of memory, of which
  the boot loader reports pages 1 to 3 as usable, is booted on it.\<close>

definition pmm_static :: PhysicalMemoryManager where
  "pmm_static = \<lparr>Bitmap = 0, BitmapArr = (\<lambda>_. 0), BitmapSize = 0, TotalPages = 0, LastAllocHint = 0,
     HhdmOffset = 0, Regions = replicate 64 \<lparr>Base = 0, RegionLength = 0, RegionType = 0\<rparr>, RegionCount = 0,
     Stats = \<lparr>StatTotalPages = 0, StatUsedPages = 0, StatFreePages = 0, StatReservedPages = 0,
              StatKernelPages = 0, StatBitmapPages = 0\<rparr>\<rparr>"

definition demo_memmap :: "limine_memmap_entry list" where
  "demo_memmap = [\<lparr>entry_base = 0, entry_length = 0x1000, entry_type = 1\<rparr>,
                  \<lparr>entry_base = 0x1000, entry_length = 0x3000, entry_type = 0\<rparr>]"

definition demo_pmm :: PhysicalMemoryManager where
  "demo_pmm = InitializePmm 0 6 (Some 0xFFFF800000000000) (Some demo_memmap) pmm_static"

lemma demo_memmap_ok: "memmap_ok 0 demo_memmap"
  by (simp add: memmap_ok_def demo_memmap_def)

lemma demo_pmm_eval:
  "Bitmap demo_pmm = 0xFFFF800000001000" "TotalPages demo_pmm = 4"
  "BitmapArr demo_pmm 0 = 3"
  "fst (AllocPage demo_pmm) = 0x2000" "fst (AllocPages 2 demo_pmm) = 0x2000"
  "fst (AllocPages 3 demo_pmm) = 0"
  by code_simp+

lemma FreePage_of_index:
  assumes "pmm_inv P" "i < TotalPages P" "i \<noteq> 0"
  shows "used_pages (FreePage (i * PageSize) P) = used_pages P - {i}"
    "free_pages (FreePage (i * PageSize) P) = insert i (free_pages P)"
    "TotalPages (FreePage (i * PageSize) P) = TotalPages P"
proof -
  note ps = page_addr_simps [OF assms(2) pmm_inv_bound [OF assms(1)]]
  have v: "PmmValidatePage (i * PageSize) P" using assms ps by (simp add: valid_page_iff)
  show "used_pages (FreePage (i * PageSize) P) = used_pages P - {i}"
    "free_pages (FreePage (i * PageSize) P) = insert i (free_pages P)"
    using assms v ps
    by (cases rule: FreePage_cases [of P "i * PageSize"]; auto simp: used_pages_def free_pages_def)+
  show "TotalPages (FreePage (i * PageSize) P) = TotalPages P"
    by (simp add: FreePage_def Let_def)
qed

lemma FreePages_run:
  assumes inv: "pmm_inv P" and s: "s \<noteq> 0" and b: "unat s + unat n \<le> unat (TotalPages P)"
  shows "used_pages (FreePages (s * PageSize) n P) = used_pages P - run_of s n"
    "free_pages (FreePages (s * PageSize) n P) = free_pages P \<union> run_of s n"
proof -
  have T: "unat (TotalPages P) \<le> 2 ^ 52" using pmm_inv_bound [OF inv] by (simp add: word_le_nat_alt)
  then have lt: "unat s + unat n < 2 ^ 64" using b by simp
  let ?I = "\<lambda>i Q. pmm_inv Q \<and> TotalPages Q = TotalPages P \<and>
     used_pages Q = used_pages P - (\<lambda>k. s + k) ` {k. k < i} \<and>
     free_pages Q = free_pages P \<union> (\<lambda>k. s + k) ` {k. k < i}"
  have "?I n (for_range 0 n (\<lambda>k. FreePage (s * PageSize + k * PageSize)) P)"
  proof (rule for_range_invariant [OF word_zero_le, where I = ?I])
    show "?I 0 P" using inv by simp
  next
    fix i Q assume i: "i < n" and I: "?I i Q"
    have u: "unat (s + i) = unat s + unat i" "unat i < unat n"
      using i lt by (simp_all add: word_less_nat_alt unat_add_small)
    have ix: "s + i < TotalPages Q" "s + i \<noteq> 0"
      using u b I s by (auto simp: word_less_nat_alt word_unat_eq_iff)
    have "{k. k < i + 1} = insert i {k. k < i}" using i by (auto simp: less_plus_one_iff)
    moreover have "s * PageSize + i * PageSize = (s + i) * PageSize" by (simp add: distrib_right)
    ultimately show "?I (i + 1) (FreePage (s * PageSize + i * PageSize) Q)"
      using FreePage_of_index [OF _ ix] FreePage_inv I by auto
  qed
  moreover have "FreePages (s * PageSize) n P = for_range 0 n (\<lambda>k. FreePage (s * PageSize + k * PageSize)) P"
    by (simp add: FreePages_def)
  ultimately show "used_pages (FreePages (s * PageSize) n P) = used_pages P - run_of s n"
    "free_pages (FreePages (s * PageSize) n P) = free_pages P \<union> run_of s n"
    by (simp_all only: run_of_image [OF lt])
qed

lemma pmm_static_simps:
  "length (Regions pmm_static) = 64" "LastAllocHint pmm_static = 0" "Bitmap pmm_static = 0" "Bitmap demo_pmm \<noteq> 0"
  by (simp_all add: pmm_static_def demo_pmm_eval)

lemma demo_pmm_inv: "pmm_inv demo_pmm"
  by (rule InitializePmm_spec [OF demo_memmap_ok pmm_static_simps(1-3) demo_pmm_def pmm_static_simps(4)])

lemma demo_free_pages: "free_pages demo_pmm = {2, 3}"
proof -
  have "i < 4 \<longleftrightarrow> i = 0 \<or> i = 1 \<or> i = 2 \<or> i = 3" for i :: u64
    by (simp add: word_less_nat_alt word_unat_eq_iff) linarith
  moreover have "TestBitmapBit 0 demo_pmm" "TestBitmapBit 1 demo_pmm" "\<not> TestBitmapBit 2 demo_pmm" "\<not> TestBitmapBit 3 demo_pmm"
    by code_simp+
  ultimately show ?thesis by (auto simp: free_pages_def demo_pmm_eval)
qed

section \<open>Properties\<close>

text \<open>C6: \<^verbatim>\<open>AllocPage\<close> on every branch. Address 0 is returned exactly when no page is free, and then
  nothing changes; otherwise the address is that of a page that was free, which becomes used, every
  other page keeps its state, and the counters stay exact.\<close>

theorem AllocPage_correct:
  assumes "pmm_inv P" "AllocPage P = (a, Q)"
  shows "if a = 0 then Q = P \<and> free_pages P = {}
         else (\<exists>i. i \<in> free_pages P \<and> a = i * PageSize \<and> used_pages Q = insert i (used_pages P) \<and>
                   free_pages Q = free_pages P - {i} \<and> LastAllocHint Q = i + 1 \<and> pmm_inv Q)"
  using assms by (cases rule: AllocPage_cases) auto

theorem AllocPage_correct_witness:
  "\<exists>i. i \<in> free_pages demo_pmm \<and> 0x2000 = i * PageSize \<and>
       free_pages (snd (AllocPage demo_pmm)) = free_pages demo_pmm - {i}"
  using AllocPage_correct [OF demo_pmm_inv prod.collapse [symmetric]]
  by (auto simp: demo_pmm_eval)

text \<open>A pool of \<open>n\<close> free pages serves exactly \<open>n\<close> calls of \<^verbatim>\<open>AllocPage\<close> with pairwise different
  pages of the pool, none of them page 0; the call after the last one fails.\<close>

theorem AllocPage_exhausts:
  assumes "pmm_inv P" "iterate_alloc AllocPage (card (free_pages P)) P = (as, Q)"
  shows "distinct as \<and> set as = (\<lambda>i. i * PageSize) ` free_pages P \<and> 0 \<notin> set as \<and> fst (AllocPage Q) = 0"
proof -
  have c: "card (avail_addrs P) = card (free_pages P)"
    unfolding avail_addrs_def
    by (rule card_image) (rule inj_on_subset [OF page_addr_inj [OF pmm_inv_bound [OF assms(1)]] pages_below(2)])
  have "finite (avail_addrs P)" by simp
  note m = pmm.alloc_many [OF assms(1) this eq_refl [OF c [symmetric]] assms(2)]
  have "set as = avail_addrs P"
    by (rule card_subset_eq) (use m c in \<open>auto simp: distinct_card\<close>)
  moreover from this have "fst (AllocPage Q) = 0"
    using m pmm.alloc_succeeds_iff [of Q] by auto
  ultimately show ?thesis
    using m pmm.pool_not_null [OF assms(1)] by (simp add: avail_addrs_def page_addr_def)
qed

theorem AllocPage_exhausts_witness:
  "distinct (fst (iterate_alloc AllocPage 2 demo_pmm)) \<and>
   set (fst (iterate_alloc AllocPage 2 demo_pmm)) = {0x2000, 0x3000}"
proof -
  have c: "card (free_pages demo_pmm) = 2" by (simp add: demo_free_pages)
  show ?thesis
    using AllocPage_exhausts [OF demo_pmm_inv prod.collapse [symmetric], unfolded c]
    by (simp add: demo_free_pages)
qed

text \<open>C12: \<^verbatim>\<open>FreePage\<close> on every branch. A null, unaligned or out-of-range address and a page that is
  not allocated leave the manager unchanged; any other page becomes free, and only that page.\<close>

theorem FreePage_correct:
  assumes "pmm_inv P"
  shows "(if a = 0 \<or> a mod PageSize \<noteq> 0 \<or> a div PageSize \<notin> used_pages P then FreePage a P = P
          else used_pages (FreePage a P) = used_pages P - {a div PageSize} \<and>
               free_pages (FreePage a P) = insert (a div PageSize) (free_pages P)) \<and>
         pmm_inv (FreePage a P) \<and> FreePage a (FreePage a P) = FreePage a P"
proof -
  have "if a = 0 \<or> a mod PageSize \<noteq> 0 \<or> a div PageSize \<notin> used_pages P then FreePage a P = P
          else used_pages (FreePage a P) = used_pages P - {a div PageSize} \<and>
               free_pages (FreePage a P) = insert (a div PageSize) (free_pages P)"
    using assms by (cases rule: FreePage_cases [of P a]) (auto simp: valid_page_iff used_pages_def)
  then show ?thesis using pmm.release_release [OF assms] FreePage_inv [OF assms] by blast
qed

theorem FreePage_correct_witness:
  "FreePage 0x2000 demo_pmm = demo_pmm \<and> used_pages (FreePage 0x1000 demo_pmm) = used_pages demo_pmm - {1}"
proof -
  have "2 \<notin> used_pages demo_pmm" "1 \<in> used_pages demo_pmm"
    by (simp_all add: used_pages_def demo_pmm_eval) code_simp+
  then show ?thesis
    using FreePage_correct [OF demo_pmm_inv, where a = "0x2000"] FreePage_correct [OF demo_pmm_inv, where a = "0x1000"]
    by simp
qed

text \<open>One page is the case of \<^verbatim>\<open>AllocPage\<close>.\<close>

lemma run_of_1: "s < m \<Longrightarrow> m \<le> 0x10000000000000 \<Longrightarrow> run_of s 1 = {s}"
  for s m :: u64
proof -
  assume "s < m" "m \<le> 0x10000000000000"
  then have "unat s + unat (1 :: u64) < 2 ^ 64" by (simp add: word_less_nat_alt word_le_nat_alt)
  from run_of_image [OF this] show ?thesis by (auto simp: word_less_1)
qed

lemma AllocPages_single:
  assumes inv: "pmm_inv P" and a: "AllocPages 1 P = (a, Q)"
  shows "pmm_inv Q \<and>
    (if a = 0 then Q = P \<and> (\<nexists>s. unat s + 1 \<le> unat (TotalPages P) \<and> run_of s 1 \<subseteq> free_pages P)
     else (\<exists>s. a = s * PageSize \<and> unat s + 1 \<le> unat (TotalPages P) \<and> run_of s 1 \<subseteq> free_pages P \<and>
               used_pages Q = run_of s 1 \<union> used_pages P \<and> free_pages Q = free_pages P - run_of s 1))"
proof -
  have b: "TotalPages P \<le> 0x10000000000000" using inv by (simp add: pmm_inv_def)
  have run: "run_of s 1 = {s}" if "unat s + 1 \<le> unat (TotalPages P)" for s
    by (rule run_of_1 [OF _ b]) (use that in \<open>simp add: word_less_nat_alt\<close>)
  have lt: "unat s + 1 \<le> unat (TotalPages P)" if "s \<in> free_pages P" for s
    using that by (simp add: free_pages_def word_less_nat_alt)
  have a': "AllocPage P = (a, Q)" using a by (simp add: AllocPages_one)
  show ?thesis
  proof (cases "a = 0")
    case True
    then have "Q = P \<and> free_pages P = {}" by (cases rule: AllocPage_cases [OF inv a']) auto
    then show ?thesis using True inv run by auto
  next
    case False
    then obtain s where s: "s \<in> free_pages P" "a = s * PageSize" "used_pages Q = insert s (used_pages P)"
      "free_pages Q = free_pages P - {s}" "pmm_inv Q"
      by (cases rule: AllocPage_cases [OF inv a']) auto
    then show ?thesis using False run [OF lt [OF s(1)]] lt [OF s(1)] by (auto intro!: exI [of _ s])
  qed
qed

text \<open>C11: \<^verbatim>\<open>AllocPages\<close> on every count, from a manager in a good state. For no page it fails and changes nothing. Otherwise it fails only when no run of that
  many free pages exists, and then changes nothing; when it succeeds, it returns such a run and takes exactly its pages. A
  run of two or more pages is the lowest one there is (first fit); a single page comes from \<^verbatim>\<open>AllocPage\<close>, the next free one
  from its hint on.\<close>

theorem AllocPages_first_fit:
  assumes "pmm_inv P" "AllocPages n P = (a, Q)"
  shows "pmm_inv Q \<and> (n = 1 \<longrightarrow> AllocPage P = (a, Q)) \<and>
    (if n = 0 then a = 0 \<and> Q = P
     else if a = 0 then Q = P \<and> (\<nexists>s. unat s + unat n \<le> unat (TotalPages P) \<and> run_of s n \<subseteq> free_pages P)
     else (\<exists>s. a = s * PageSize \<and> unat s + unat n \<le> unat (TotalPages P) \<and> run_of s n \<subseteq> free_pages P \<and>
               (n \<noteq> 1 \<longrightarrow> (\<nexists>t. t < s \<and> run_of t n \<subseteq> free_pages P)) \<and>
               used_pages Q = run_of s n \<union> used_pages P \<and> free_pages Q = free_pages P - run_of s n))"
proof -
  consider "n = 0" | "n = 1" | "1 < n" by (metis linorder_neqE word_less_1)
  then show ?thesis
  proof cases
    case 1
    then show ?thesis using assms by (auto simp: AllocPages_def)
  next
    case 2
    then show ?thesis using AllocPages_single [OF assms(1), of a Q] assms by (cases "a = 0") (simp_all add: AllocPages_one)
  next
    case 3
    then have n: "n \<noteq> 0" "n \<noteq> 1" by auto
    have "pmm_inv Q \<and>
      (if a = 0 then Q = P \<and> (\<nexists>s. unat s + unat n \<le> unat (TotalPages P) \<and> run_of s n \<subseteq> free_pages P)
       else (\<exists>s. a = s * PageSize \<and> unat s + unat n \<le> unat (TotalPages P) \<and> run_of s n \<subseteq> free_pages P \<and>
                 (\<nexists>t. t < s \<and> run_of t n \<subseteq> free_pages P) \<and>
                 used_pages Q = run_of s n \<union> used_pages P \<and> free_pages Q = free_pages P - run_of s n))"
      by (rule AllocPages_cases [OF assms 3]) (use assms(1) in auto)
    then show ?thesis using n assms(1) by (cases "a = 0") simp_all
  qed
qed

theorem AllocPages_first_fit_witness:
  "\<exists>s. (0x2000 :: u64) = s * PageSize \<and> run_of s 2 \<subseteq> free_pages demo_pmm \<and>
       free_pages (snd (AllocPages 2 demo_pmm)) = free_pages demo_pmm - run_of s 2"
  using AllocPages_first_fit [OF demo_pmm_inv prod.collapse [symmetric], of 2]
  by (auto simp: demo_pmm_eval)

text \<open>Releasing what \<^verbatim>\<open>AllocPages\<close> returned, with \<^verbatim>\<open>FreePages\<close>, gives back exactly the pages it took.\<close>

theorem AllocPages_FreePages_roundtrip:
  assumes "pmm_inv P" "1 < n" "AllocPages n P = (a, Q)" "a \<noteq> 0"
  shows "pmm_inv (FreePages a n Q) \<and> used_pages (FreePages a n Q) = used_pages P \<and>
         free_pages (FreePages a n Q) = free_pages P"
proof (rule AllocPages_cases [OF assms(1,3,2)])
  fix s
  assume s: "unat s + unat n \<le> unat (TotalPages P)" "run_of s n \<subseteq> free_pages P" "a = s * PageSize" "pmm_inv Q"
    and up: "used_pages Q = run_of s n \<union> used_pages P" "free_pages Q = free_pages P - run_of s n"
  have "TotalPages Q = TotalPages P"
    using assms(3) by (auto simp: AllocPages_def AllocPage_def FindFreePage_def Let_def split: if_splits option.splits)
  moreover have "s \<noteq> 0" using s(3) assms(4) by auto
  ultimately show ?thesis
    using FreePages_run [OF s(4), of s n] FreePages_inv [OF s(4)] s up
    by (auto simp: used_pages_def free_pages_def)
qed (use assms in auto)

theorem AllocPages_FreePages_roundtrip_witness:
  "free_pages (FreePages 0x2000 2 (snd (AllocPages 2 demo_pmm))) = free_pages demo_pmm"
  using AllocPages_FreePages_roundtrip [OF demo_pmm_inv _ prod.collapse [symmetric], of 2]
  by (simp add: demo_pmm_eval)

text \<open>C15: start-up. On a memory map that meets the boot protocol, when a place for the bitmap is found,
  the manager starts in a good state and the free pages are exactly the whole pages of the
  usable regions, less the pages that hold the bitmap.\<close>

theorem InitializePmm_correct:
  assumes "memmap_ok usable es" "length (Regions P) = 64" "LastAllocHint P = 0" "Bitmap P = 0"
    "Q = InitializePmm usable kmods (Some off) (Some es) P" "Bitmap Q \<noteq> 0"
  shows "pmm_inv Q \<and>
    free_pages Q = {i. \<exists>e \<in> set es. in_region i (region_of usable kmods e)} - bitmap_pages Q"
  using InitializePmm_spec [OF assms] by auto

theorem InitializePmm_correct_witness:
  "free_pages demo_pmm = {i. \<exists>e \<in> set demo_memmap. in_region i (region_of 0 6 e)} - bitmap_pages demo_pmm"
  using InitializePmm_correct [OF demo_memmap_ok pmm_static_simps(1-3) demo_pmm_def pmm_static_simps(4)]
  by (rule conjunct2)

end
