(* ===== verification/Memory.thy ===== *)
theory Memory
  imports PMM
begin

text \<open>
  Typed access to the byte-addressed memory of \<^verbatim>\<open>Prelude\<close>: the little-endian loads and stores that a C
  field access of a \<^verbatim>\<open>uint32_t\<close>, a \<^verbatim>\<open>uint64_t\<close> or a pointer is on x86-64, for any word type whose width is a
  multiple of eight, and the two facts every client needs: a load returns what was stored, and it does not see
  a store elsewhere. The second half is about address ranges: offsets inside a page do not wrap, and different
  pages do not overlap.
\<close>

section \<open>Little-endian words\<close>

definition bytes_of :: "'a::len word \<Rightarrow> u8 list" where
  "bytes_of w = map (\<lambda>i. ucast (drop_bit (8 * i) w)) [0..<LENGTH('a) div 8]"

definition word_of_bytes :: "u8 list \<Rightarrow> 'a::len word" where
  "word_of_bytes bs = foldr (\<lambda>b w. ucast b OR push_bit 8 w) bs 0"

definition load_word :: "memory \<Rightarrow> u64 \<Rightarrow> 'a::len word" where
  "load_word m p = word_of_bytes (load_bytes m p (LENGTH('a) div 8))"

definition store_word :: "memory \<Rightarrow> u64 \<Rightarrow> 'a::len word \<Rightarrow> memory" where
  "store_word m p w = store_bytes m p (bytes_of w)"

lemma length_bytes_of [simp]: "length (bytes_of (w :: 'a::len word)) = LENGTH('a) div 8"
  by (simp add: bytes_of_def)

lemma bit_word_of_bytes:
  "bit (word_of_bytes bs :: 'a::len word) k \<longleftrightarrow> k < LENGTH('a) \<and> k div 8 < length bs \<and> bit (bs ! (k div 8)) (k mod 8)"
proof (induction bs arbitrary: k)
  case Nil
  then show ?case by (simp add: word_of_bytes_def)
next
  case (Cons b bs)
  have step: "word_of_bytes (b # bs) = (ucast b OR push_bit 8 (word_of_bytes bs) :: 'a word)"
    by (simp add: word_of_bytes_def)
  show ?case
  proof (cases "k < 8")
    case True
    then show ?thesis unfolding step by (auto simp: bit_simps)
  next
    case False
    then obtain j where j: "k = j + 8" by (metis add.commute le_Suc_ex not_less)
    have "\<not> bit b (j + 8)" by (rule impossible_bit) simp
    moreover have "(j + 8) div 8 = Suc (j div 8)" by simp
    ultimately show ?thesis unfolding step j using Cons.IH [of j] by (auto simp: bit_simps)
  qed
qed

lemma word_of_bytes_of:
  assumes "8 dvd LENGTH('a)"
  shows "word_of_bytes (bytes_of w) = (w :: 'a::len word)"
proof (rule bit_word_eqI)
  fix k assume k: "k < LENGTH('a)"
  have "k div 8 < LENGTH('a) div 8" using k assms by (auto simp: dvd_def)
  moreover have "bit (drop_bit (8 * (k div 8)) w) (k mod 8) \<longleftrightarrow> bit w k"
    by (simp add: bit_drop_bit_eq)
  moreover have "k mod 8 < 8" by simp
  ultimately show "bit (word_of_bytes (bytes_of w) :: 'a word) k \<longleftrightarrow> bit w k"
    using k by (simp add: bit_word_of_bytes bytes_of_def bit_ucast_iff)
qed

lemma width_bound: "LENGTH('a::len) div 8 \<le> 2 ^ 64 \<Longrightarrow> length (bytes_of (w :: 'a word)) \<le> 2 ^ 64"
  by simp

lemma load_store_word_same:
  assumes "8 dvd LENGTH('a)" "LENGTH('a::len) div 8 \<le> 2 ^ 64"
  shows "load_word (store_word m p w) p = (w :: 'a word)"
  using load_store_same [OF width_bound [OF assms(2)], of m p w]
  by (simp add: load_word_def store_word_def word_of_bytes_of [OF assms(1)])

lemma load_store64_same [simp]: "load_word (store_word m p w) p = (w :: u64)"
  by (rule load_store_word_same) simp_all

lemma load_store32_same [simp]: "load_word (store_word m p w) p = (w :: u32)"
  by (rule load_store_word_same) simp_all

lemma store_word_other: "a \<notin> span p (LENGTH('a) div 8) \<Longrightarrow> store_word m p (w :: 'a::len word) a = m a"
  by (simp add: store_word_def store_bytes_other)

lemma load_word_cong:
  "(\<And>a. a \<in> span p (LENGTH('a) div 8) \<Longrightarrow> m a = m' a) \<Longrightarrow> load_word m p = (load_word m' p :: 'a::len word)"
  by (simp add: load_word_def load_bytes_cong [of p _ m m'])

section \<open>Address ranges\<close>

lemma unat_add_nat: "unat p + n < 2 ^ 64 \<Longrightarrow> unat (p + word_of_nat n :: u64) = unat p + n"
  by (simp add: unat_word_ariths unat_word_of_nat64)

lemma in_span_iff:
  assumes "unat p + n \<le> 2 ^ 64"
  shows "a \<in> span p n \<longleftrightarrow> unat p \<le> unat a \<and> unat a < unat p + n"
proof
  assume "a \<in> span p n"
  then obtain i where "i < n" "a = p + word_of_nat i" by (auto simp: span_def)
  then show "unat p \<le> unat a \<and> unat a < unat p + n" using assms unat_add_nat [of p i] by simp
next
  assume a: "unat p \<le> unat a \<and> unat a < unat p + n"
  have "unat a < 2 ^ 64" using unsigned_less [where 'a = nat, of a] by simp
  then have "a = p + word_of_nat (unat a - unat p)"
    using a unat_add_nat [of p "unat a - unat p"] by (simp add: word_unat_eq_iff)
  then show "a \<in> span p n" using a unfolding span_def by (intro image_eqI [of _ _ "unat a - unat p"]) auto
qed

lemma span_disjoint:
  assumes "unat p + n \<le> unat q" "unat q + k \<le> 2 ^ 64"
  shows "span p n \<inter> span q k = {}" "span q k \<inter> span p n = {}"
  using assms by (auto simp: in_span_iff)

lemma span_subset:
  assumes "unat q \<le> unat p" "unat p + n \<le> unat q + k" "unat q + k \<le> 2 ^ 64"
  shows "span p n \<subseteq> span q k"
  using assms by (auto simp: in_span_iff)

text \<open>A pointer into a page: the page address is a multiple of 4096, so an offset below 4096 does not wrap.\<close>

lemma page_aligned_unat:
  assumes "p mod 4096 = (0 :: u64)"
  obtains k where "unat p = 4096 * k" "k < 2 ^ 52"
proof -
  have "unat p mod 4096 = 0" using arg_cong [OF assms, of unat] by (simp add: unat_mod)
  moreover have "unat p < 2 ^ 64" using unsigned_less [where 'a = nat, of p] by simp
  ultimately show ?thesis by (intro that [of "unat p div 4096"]) auto
qed

lemma page_end: "p mod 4096 = (0 :: u64) \<Longrightarrow> unat p + 4096 \<le> 2 ^ 64"
  by (erule page_aligned_unat) simp

lemma unat_page_offset: "p mod 4096 = (0 :: u64) \<Longrightarrow> k < 4096 \<Longrightarrow> unat (p + word_of_nat k) = unat p + k"
  using page_end [of p] by (intro unat_add_nat) simp

lemma pages_apart:
  assumes "p mod 4096 = (0 :: u64)" "q mod 4096 = 0" "p \<noteq> q"
  shows "unat p + 4096 \<le> unat q \<or> unat q + 4096 \<le> unat p"
proof -
  obtain i j where ij: "unat p = 4096 * i" "unat q = 4096 * j"
    using page_aligned_unat [OF assms(1)] page_aligned_unat [OF assms(2)] by metis
  have "i \<noteq> j" using ij assms(3) by (auto simp: word_unat_eq_iff)
  then show ?thesis using ij by linarith
qed

lemma pages_disjoint:
  assumes "p mod 4096 = (0 :: u64)" "q mod 4096 = 0" "p \<noteq> q"
  shows "span p 4096 \<inter> span q 4096 = {}"
  using pages_apart [OF assms] page_end [OF assms(1)] page_end [OF assms(2)] span_disjoint by metis

lemma page_mask: "a AND NOT 0xFFF = (a div 4096) * (4096 :: u64)"
proof -
  have "a AND NOT (mask 12) = push_bit 12 (drop_bit 12 a)"
    by (rule bit_word_eqI) (auto simp: bit_simps)
  also have "\<dots> = (a div 4096) * 4096" by (simp add: push_bit_eq_mult drop_bit_eq_div mult.commute)
  finally show ?thesis by (simp add: mask_eq_exp_minus_1)
qed

lemma page_of_offset:
  assumes "p mod 4096 = (0 :: u64)" "k < 4096"
  shows "(p + word_of_nat k) AND NOT 0xFFF = p"
proof -
  obtain i where i: "unat p = 4096 * i" using assms(1) by (rule page_aligned_unat)
  have "unat ((p + word_of_nat k) div 4096) = i"
    using i assms(2) by (simp add: unat_div unat_page_offset [OF assms])
  moreover have "unat (p div 4096) = i" using i by (simp add: unat_div)
  ultimately have "(p + word_of_nat k) div 4096 = p div 4096" by (simp add: word_unat_eq_iff)
  then show ?thesis using page_addr_of_index [OF assms(1)] unfolding page_mask by simp
qed

section \<open>Memory that agrees on a set of addresses\<close>

definition same_on :: "u64 set \<Rightarrow> memory \<Rightarrow> memory \<Rightarrow> bool" where
  "same_on S m m' \<longleftrightarrow> (\<forall>a\<in>S. m' a = m a)"

lemma same_on_subset: "same_on S m m' \<Longrightarrow> T \<subseteq> S \<Longrightarrow> same_on T m m'"
  by (auto simp: same_on_def)

lemma same_on_refl [simp]: "same_on S m m"
  by (simp add: same_on_def)

lemma same_on_trans: "same_on S m m' \<Longrightarrow> same_on S m' m'' \<Longrightarrow> same_on S m m''"
  by (simp add: same_on_def)

lemma same_on_compl: "same_on (- S) m m' \<Longrightarrow> T \<inter> S = {} \<Longrightarrow> same_on T m m'"
  by (rule same_on_subset) auto

lemma load_same: "same_on (span p (LENGTH('a) div 8)) m m' \<Longrightarrow> load_word m' p = (load_word m p :: 'a::len word)"
  by (rule load_word_cong) (simp add: same_on_def)

lemma store_word_same_on:
  "span p (LENGTH('a) div 8) \<subseteq> S \<Longrightarrow> same_on (- S) m (store_word m p (w :: 'a::len word))"
  unfolding same_on_def by (auto intro!: store_word_other)

lemma load_store_apart:
  assumes "unat a + LENGTH('a) div 8 \<le> unat b \<and> unat b + LENGTH('b) div 8 \<le> 2 ^ 64 \<or>
           unat b + LENGTH('b) div 8 \<le> unat a \<and> unat a + LENGTH('a) div 8 \<le> 2 ^ 64"
  shows "load_word (store_word m a (w :: 'a::len word)) b = (load_word m b :: 'b::len word)"
proof (rule load_word_cong)
  fix c assume c: "c \<in> span b (LENGTH('b) div 8)"
  have "span a (LENGTH('a) div 8) \<inter> span b (LENGTH('b) div 8) = {}"
    using assms span_disjoint by blast
  then show "store_word m a w c = m c" using c by (intro store_word_other) blast
qed

lemma page_untouched:
  assumes "p mod 4096 = 0" "q mod 4096 = 0" "p \<noteq> q" "same_on (- span p 4096) m m'"
  shows "same_on (span q 4096) m m'"
  using pages_disjoint [OF assms(1-3)] by (intro same_on_compl [OF assms(4)]) blast

section \<open>The direct map\<close>

text \<open>The direct map is page aligned and ends below the last page of the address space.\<close>

definition hhdm_ok :: "PhysicalMemoryManager \<Rightarrow> bool" where
  "hhdm_ok P \<longleftrightarrow> HhdmOffset P mod 4096 = 0 \<and> unat (HhdmOffset P) + unat (TotalPages P) * 4096 < 2 ^ 64 - 4096"

lemma alloc_pmm_frame:
  assumes "pmm_inv P" "AllocPage P = (a, Q)"
  shows "HhdmOffset Q = HhdmOffset P" "TotalPages Q = TotalPages P"
  using assms by (cases rule: AllocPage_cases; simp)+

lemma taken_bound:
  assumes "pmm_inv P" "a \<in> taken_addrs P \<union> avail_addrs P"
  shows "unat a + 4096 \<le> unat (TotalPages P) * 4096"
proof -
  obtain i where i: "i < TotalPages P" "a = i * PageSize"
    using assms(2) by (auto simp: taken_addrs_def avail_addrs_def page_addr_def used_pages_def free_pages_def)
  have "unat (i * PageSize) = unat i * 4096"
    using i pmm_inv_bound [OF assms(1)] by (intro unat_page_addr) auto
  moreover have "Suc (unat i) \<le> unat (TotalPages P)" using i by (simp add: word_less_nat_alt)
  ultimately show ?thesis unfolding i by simp
qed

text \<open>The direct map sends the pages of the allocator to distinct aligned non-null addresses.\<close>

lemma direct_map:
  assumes "pmm_inv P" "hhdm_ok P" "a \<in> taken_addrs P \<union> avail_addrs P" "a \<noteq> 0"
  shows "PhysToVirt a P mod 4096 = 0" "PhysToVirt a P \<noteq> 0" "unat (PhysToVirt a P) + 4096 < 2 ^ 64 - 4096"
proof -
  have a: "a mod 4096 = 0" using pmm.pool_aligned [OF assms(1,3)] .
  have u: "unat (PhysToVirt a P) = unat a + unat (HhdmOffset P)"
    using taken_bound [OF assms(1,3)] assms(2) unfolding PhysToVirt_def hhdm_ok_def by (intro unat_add_small) simp
  obtain i where i: "unat a = 4096 * i" using a by (rule page_aligned_unat)
  have o: "HhdmOffset P mod 4096 = 0" using assms(2) unfolding hhdm_ok_def by blast
  obtain j where j: "unat (HhdmOffset P) = 4096 * j" using o by (rule page_aligned_unat)
  have "unat (PhysToVirt a P mod 4096) = 0" unfolding unat_mod u i j by simp
  then show "PhysToVirt a P mod 4096 = 0" by (simp only: unsigned_eq_0_iff)
  show "PhysToVirt a P \<noteq> 0" using u assms(4) by (auto simp: word_unat_eq_iff)
  show "unat (PhysToVirt a P) + 4096 < 2 ^ 64 - 4096"
    using u taken_bound [OF assms(1,3)] assms(2) by (simp add: hhdm_ok_def)
qed

lemma VirtToPhys_PhysToVirt [simp]: "VirtToPhys (PhysToVirt a P) P = a"
  by (simp add: VirtToPhys_def PhysToVirt_def)

lemma AllocPages_frame:
  "HhdmOffset (snd (AllocPages n P)) = HhdmOffset P" "TotalPages (snd (AllocPages n P)) = TotalPages P"
  by (simp_all add: AllocPages_def AllocPage_def FindFreePage_def Let_def split: option.splits prod.splits)

lemma AllocPages_any:
  assumes "pmm_inv P" "AllocPages n P = (a, Q)" "a \<noteq> 0"
  shows "card (used_pages Q) = card (used_pages P) + unat n" "pmm_inv Q" "a \<in> taken_addrs Q"
    "HhdmOffset Q = HhdmOffset P" "TotalPages Q = TotalPages P"
proof -
  show "HhdmOffset Q = HhdmOffset P" "TotalPages Q = TotalPages P" using AllocPages_frame [of n P] assms(2) by simp_all
  have n0: "n \<noteq> 0" using assms(2,3) by (auto simp: AllocPages_def)
  have fin: "finite (used_pages P)" and dj: "used_pages P \<inter> free_pages P = {}" by (auto simp: used_pages_def free_pages_def)
  have "card (used_pages Q) = card (used_pages P) + unat n \<and> pmm_inv Q \<and> a \<in> taken_addrs Q"
  proof (cases "1 < n")
    case True
    show ?thesis using assms(1,2) True
    proof (cases rule: AllocPages_cases)
      case (run s)
      have b: "unat (TotalPages P) \<le> 2 ^ 52" using pmm_inv_bound [OF assms(1)] by (simp add: word_le_nat_alt)
      then have lt: "unat s + unat n < 2 ^ 64" using run(1) by simp
      have "s \<in> run_of s n" using lt True by (simp add: run_of_def word_less_nat_alt unat_add_small)
      then have "a \<in> taken_addrs Q" using run by (auto simp: taken_addrs_def page_addr_def)
      moreover have "card (run_of s n \<union> used_pages P) = card (run_of s n) + card (used_pages P)"
        using run(2) dj fin by (intro card_Un_disjoint) auto
      ultimately show ?thesis using run card_run_of [OF lt] by simp
    qed (use assms in simp)
  next
    case False
    then have "n = 1" using n0 by (simp add: word_less_nat_alt word_unat_eq_iff)
    then have "AllocPage P = (a, Q)" using assms(2) by (simp add: AllocPages_one)
    with assms(1) show ?thesis
    proof (cases rule: AllocPage_cases)
      case (page i)
      have "i \<notin> used_pages P" using page(1) dj by blast
      moreover have "a \<in> taken_addrs Q" using page(2,6) by (simp add: taken_addrs_def page_addr_def)
      ultimately show ?thesis using page(4,6) fin \<open>n = 1\<close> by simp
    qed (use assms(3) in simp)
  qed
  then show "card (used_pages Q) = card (used_pages P) + unat n" "pmm_inv Q" "a \<in> taken_addrs Q" by simp_all
qed

lemma FreePage_card:
  assumes "pmm_inv P" "a \<in> taken_addrs P" "a \<noteq> 0"
  shows "card (used_pages (FreePage a P)) = card (used_pages P) - 1"
  using assms(1)
proof (cases rule: FreePage_cases [of P a])
  case rejected
  then show ?thesis using taken_addrs_iff [OF assms(1), of a] assms(2,3) by simp
next
  case freed
  then show ?thesis by simp
qed

lemma load_word_zero: "load_word (\<lambda>_. 0) p = (0 :: 'a::len word)"
proof -
  have "load_bytes (\<lambda>_. 0) p n = replicate n 0" for n by (induction n arbitrary: p) auto
  then show ?thesis by (intro bit_word_eqI) (simp add: load_word_def bit_word_of_bytes)
qed

end
