(* ===== verification/KHeap.thy ===== *)
theory KHeap
  imports Memory
begin

text \<open>
  The kernel heap: \<^verbatim>\<open>Kernel/KHeap/KHeap.c\<close> and \<^verbatim>\<open>Slab.c\<close>. Slab headers and free-list nodes live in the very
  pages the heap hands out, so the model keeps them there: a \<^verbatim>\<open>Slab*\<close> or \<^verbatim>\<open>SlabObject*\<close> is a 64-bit address, a
  field access is a little-endian load or store at the offset the x86-64 ABI gives the field
  (\<^verbatim>\<open>sizeof(Slab)\<close> is 32), and what a client writes into its block is seen by the heap when it looks there. The
  global \<^verbatim>\<open>KHeap\<close>, the page allocator and memory make up \<open>kmem\<close>. A \<^verbatim>\<open>SlabCache*\<close> is the index of the cache.
  The two loops over linked data may run forever on a corrupted heap: they are partial functions, and \<open>None\<close>
  is not returning.
\<close>

section \<open>Data\<close>

abbreviation MaxSlabSizes :: u32 where "MaxSlabSizes \<equiv> 8"
abbreviation SlabMagic :: u32 where "SlabMagic \<equiv> 0xDEADBEEF"
abbreviation FreeObjectMagic :: u32 where "FreeObjectMagic \<equiv> 0xFEEDFACE"
abbreviation sizeof_Slab :: u64 where "sizeof_Slab \<equiv> 32"

record SlabCache =
  Slabs :: u64
  CacheObjectSize :: u32
  ObjectsPerSlab :: u32

record KernelHeapManager =
  Caches :: "SlabCache list"
  SlabSizes :: "u32 list"
  CacheCount :: u32

record kmem =
  KHeap :: KernelHeapManager
  Pmm :: PhysicalMemoryManager
  Mem :: memory

text \<open>The fields of \<^verbatim>\<open>struct SlabObject\<close> and \<^verbatim>\<open>struct Slab\<close> at an address.\<close>

definition obj_Next :: "memory \<Rightarrow> u64 \<Rightarrow> u64" where "obj_Next m Obj = load_word m Obj"
definition set_obj :: "u64 \<Rightarrow> u64 \<Rightarrow> u32 \<Rightarrow> memory \<Rightarrow> memory" where
  "set_obj Obj Next Magic m = store_word (store_word m Obj Next) (Obj + 8) Magic"

definition slab_Next :: "memory \<Rightarrow> u64 \<Rightarrow> u64" where "slab_Next m p = load_word m p"
definition slab_FreeList :: "memory \<Rightarrow> u64 \<Rightarrow> u64" where "slab_FreeList m p = load_word m (p + 8)"
definition slab_ObjectSize :: "memory \<Rightarrow> u64 \<Rightarrow> u32" where "slab_ObjectSize m p = load_word m (p + 16)"
definition slab_FreeCount :: "memory \<Rightarrow> u64 \<Rightarrow> u32" where "slab_FreeCount m p = load_word m (p + 20)"
definition slab_Magic :: "memory \<Rightarrow> u64 \<Rightarrow> u32" where "slab_Magic m p = load_word m (p + 24)"

definition set_slab_Next :: "u64 \<Rightarrow> u64 \<Rightarrow> memory \<Rightarrow> memory" where "set_slab_Next p v m = store_word m p v"
definition set_slab_FreeList :: "u64 \<Rightarrow> u64 \<Rightarrow> memory \<Rightarrow> memory" where "set_slab_FreeList p v m = store_word m (p + 8) v"
definition set_slab_ObjectSize :: "u64 \<Rightarrow> u32 \<Rightarrow> memory \<Rightarrow> memory" where "set_slab_ObjectSize p v m = store_word m (p + 16) v"
definition set_slab_FreeCount :: "u64 \<Rightarrow> u32 \<Rightarrow> memory \<Rightarrow> memory" where "set_slab_FreeCount p v m = store_word m (p + 20) v"
definition set_slab_Magic :: "u64 \<Rightarrow> u32 \<Rightarrow> memory \<Rightarrow> memory" where "set_slab_Magic p v m = store_word m (p + 24) v"

section \<open>Slabs (Slab.c)\<close>

text \<open>\<^verbatim>\<open>GetSlabCache\<close>: the index of the cache, or none.\<close>

definition GetSlabCache :: "u64 \<Rightarrow> KernelHeapManager \<Rightarrow> nat option" where
  "GetSlabCache Size K =
     map_option unat (find_range 0 MaxSlabSizes (\<lambda>Index. Size \<le> ucast (SlabSizes K ! unat Index)))"

text \<open>The loop that cuts the page into objects.\<close>

partial_function (option) carve :: "u64 \<Rightarrow> u64 \<Rightarrow> u64 \<Rightarrow> u64 \<Rightarrow> u64 \<Rightarrow> memory \<Rightarrow> (u64 \<times> memory) option" where
  "carve NewSlab Size SlabEnd ObjectPtr PrevObject m =
     (if ObjectPtr + Size \<le> SlabEnd
      then carve NewSlab Size SlabEnd (ObjectPtr + Size) ObjectPtr
             (let m = set_obj ObjectPtr PrevObject FreeObjectMagic m
              in set_slab_FreeCount NewSlab (slab_FreeCount m NewSlab + 1) m)
      else Some (PrevObject, m))"

definition init_slab :: "u64 \<Rightarrow> u32 \<Rightarrow> memory \<Rightarrow> memory" where
  "init_slab NewSlab ObjectSize m =
     (let m = set_slab_Next NewSlab 0 m;
          m = set_slab_FreeList NewSlab 0 m;
          m = set_slab_ObjectSize NewSlab ObjectSize m;
          m = set_slab_FreeCount NewSlab 0 m
      in set_slab_Magic NewSlab SlabMagic m)"

definition AllocateSlab :: "u32 \<Rightarrow> kmem \<Rightarrow> (u64 \<times> kmem) option" where
  "AllocateSlab ObjectSize h =
     (let (PhysAddr, P) = AllocPage (Pmm h); h = h\<lparr>Pmm := P\<rparr> in
      if PhysAddr = 0 then Some (0, h)
      else
        (let NewSlab = PhysToVirt PhysAddr P in
         case carve NewSlab (ucast ObjectSize) (NewSlab + PageSize) (NewSlab + sizeof_Slab) 0
                (init_slab NewSlab ObjectSize (Mem h)) of
           None \<Rightarrow> None
         | Some (PrevObject, m) \<Rightarrow> Some (NewSlab, h\<lparr>Mem := set_slab_FreeList NewSlab PrevObject m\<rparr>)))"

definition FreeSlab :: "u64 \<Rightarrow> kmem \<Rightarrow> kmem" where
  "FreeSlab S h = (if S = 0 then h else h\<lparr>Pmm := FreePage (VirtToPhys S (Pmm h)) (Pmm h)\<rparr>)"

section \<open>The heap (KHeap.c)\<close>

definition InitializeKHeap :: "kmem \<Rightarrow> kmem" where
  "InitializeKHeap h =
     (let sizes = [16, 32, 64, 128, 256, 512, 1024, 2048];
          K = (KHeap h)\<lparr>SlabSizes := sizes, CacheCount := MaxSlabSizes\<rparr>;
          K = for_range 0 MaxSlabSizes
                (\<lambda>Index K.
                   (let Size = SlabSizes K ! unat Index;
                        Per = (4096 - 32) div Size
                    in K\<lparr>Caches := (Caches K)[unat Index :=
                           \<lparr>Slabs = 0, CacheObjectSize = Size, ObjectsPerSlab = (if Per = 0 then 1 else Per)\<rparr>]\<rparr>)) K
      in h\<lparr>KHeap := K\<rparr>)"

text \<open>The walk over a cache's slabs to the first with a free object; 0 when there is none.\<close>

partial_function (option) find_slab :: "memory \<Rightarrow> u64 \<Rightarrow> u64 option" where
  "find_slab m p =
     (if p = 0 then Some 0 else if 0 < slab_FreeCount m p then Some p else find_slab m (slab_Next m p))"

definition zero_object :: "u64 \<Rightarrow> u32 \<Rightarrow> memory \<Rightarrow> memory" where
  "zero_object Obj Size m = for_range 0 Size (\<lambda>Index m. m(Obj + ucast Index := 0)) m"

definition take_object :: "nat \<Rightarrow> u64 \<Rightarrow> kmem \<Rightarrow> u64 \<times> kmem" where
  "take_object c S h =
     (let Obj = slab_FreeList (Mem h) S in
      if Obj = 0 then (0, h)
      else
        (let m = set_slab_FreeList S (obj_Next (Mem h) Obj) (Mem h);
             m = set_slab_FreeCount S (slab_FreeCount m S - 1) m
         in (Obj, h\<lparr>Mem := zero_object Obj (CacheObjectSize (Caches (KHeap h) ! c)) m\<rparr>)))"

definition push_slab :: "nat \<Rightarrow> u64 \<Rightarrow> kmem \<Rightarrow> kmem" where
  "push_slab c S h =
     h\<lparr>Mem := set_slab_Next S (Slabs (Caches (KHeap h) ! c)) (Mem h),
       KHeap := (KHeap h)\<lparr>Caches := (Caches (KHeap h))[c := (Caches (KHeap h) ! c)\<lparr>Slabs := S\<rparr>]\<rparr>\<rparr>"

definition KMalloc :: "u64 \<Rightarrow> kmem \<Rightarrow> (u64 \<times> kmem) option" where
  "KMalloc Size h =
     (if Size = 0 then Some (0, h)
      else if 2048 < Size then
        (let Pages = (Size + PageSize - 1) div PageSize;
             (PhysAddr, P) = AllocPages Pages (Pmm h);
             h = h\<lparr>Pmm := P\<rparr>
         in if PhysAddr = 0 then Some (0, h) else Some (PhysToVirt PhysAddr P, h))
      else
        (case GetSlabCache Size (KHeap h) of
           None \<Rightarrow> Some (0, h)
         | Some c \<Rightarrow>
             (case find_slab (Mem h) (Slabs (Caches (KHeap h) ! c)) of
                None \<Rightarrow> None
              | Some CurrentSlab \<Rightarrow>
                  if CurrentSlab \<noteq> 0 then Some (take_object c CurrentSlab h)
                  else
                    (case AllocateSlab (CacheObjectSize (Caches (KHeap h) ! c)) h of
                       None \<Rightarrow> None
                     | Some (S, h) \<Rightarrow>
                         if S = 0 then Some (0, h) else Some (take_object c S (push_slab c S h))))))"

definition KFree :: "u64 \<Rightarrow> kmem \<Rightarrow> kmem" where
  "KFree Ptr h =
     (if Ptr = 0 then h
      else
        (let TargetSlab = Ptr AND NOT (PageSize - 1) in
         if slab_Magic (Mem h) TargetSlab \<noteq> SlabMagic
         then h\<lparr>Pmm := FreePage (VirtToPhys Ptr (Pmm h)) (Pmm h)\<rparr>
         else
           (let m = set_obj Ptr (slab_FreeList (Mem h) TargetSlab) FreeObjectMagic (Mem h);
                m = set_slab_FreeList TargetSlab Ptr m
            in h\<lparr>Mem := set_slab_FreeCount TargetSlab (slab_FreeCount m TargetSlab + 1) m\<rparr>)))"


section \<open>Slots of a slab\<close>

definition slab_sizes :: "nat list" where "slab_sizes = [16, 32, 64, 128, 256, 512, 1024, 2048]"

definition per_slab :: "nat \<Rightarrow> nat" where "per_slab sz = 4064 div sz"

definition slot :: "u64 \<Rightarrow> nat \<Rightarrow> nat \<Rightarrow> u64" where "slot p sz k = p + word_of_nat (32 + k * sz)"

definition slots :: "u64 \<Rightarrow> nat \<Rightarrow> u64 list" where "slots p sz = map (slot p sz) [0..<per_slab sz]"

lemma slot_end: "k < per_slab sz \<Longrightarrow> 32 + k * sz + sz \<le> 4096"
proof -
  assume k: "k < per_slab sz"
  then have "Suc k * sz \<le> per_slab sz * sz" by (intro mult_le_mono1) simp
  also have "\<dots> \<le> 4064" by (simp add: per_slab_def)
  finally show ?thesis by simp
qed

lemma unat_slot:
  assumes "p mod 4096 = 0" "k < per_slab sz" "0 < sz"
  shows "unat (slot p sz k) = unat p + 32 + k * sz"
  using slot_end [OF assms(2)] assms(3) unat_page_offset [OF assms(1), of "32 + k * sz"] by (simp add: slot_def)

lemma slots_bounds:
  assumes "p mod 4096 = 0" "0 < sz" "x \<in> set (slots p sz)"
  shows "unat p + 32 \<le> unat x" "unat x + sz \<le> unat p + 4096"
proof -
  obtain k where "k < per_slab sz" "x = slot p sz k" using assms(3) by (auto simp: slots_def)
  then show "unat p + 32 \<le> unat x" "unat x + sz \<le> unat p + 4096"
    using unat_slot [OF assms(1) _ assms(2), of k] slot_end [of k sz] by simp_all
qed

lemma mult_apart: "i < j \<Longrightarrow> i * sz + sz \<le> j * (sz :: nat)"
  using mult_le_mono1 [of "Suc i" j sz] by simp

lemma slots_apart:
  assumes "p mod 4096 = 0" "0 < sz" "x \<in> set (slots p sz)" "y \<in> set (slots p sz)" "x \<noteq> y"
  shows "unat x + sz \<le> unat y \<or> unat y + sz \<le> unat x"
proof -
  obtain i j where ij: "i < per_slab sz" "x = slot p sz i" "j < per_slab sz" "y = slot p sz j"
    using assms(3,4) by (auto simp: slots_def)
  note u = unat_slot [OF assms(1) ij(1) assms(2)] unat_slot [OF assms(1) ij(3) assms(2)]
  have "i < j \<or> j < i" using assms(5) ij by (metis nat_neq_iff)
  then show ?thesis unfolding ij u using mult_apart [of i j sz] mult_apart [of j i sz] by auto
qed

lemma distinct_slots: "p mod 4096 = 0 \<Longrightarrow> 0 < sz \<Longrightarrow> distinct (slots p sz)"
proof -
  assume p: "p mod 4096 = 0" and sz: "0 < sz"
  have "inj_on (slot p sz) {0..<per_slab sz}"
  proof (rule inj_onI)
    fix i j assume "i \<in> {0..<per_slab sz}" "j \<in> {0..<per_slab sz}" "slot p sz i = slot p sz j"
    then have "unat p + 32 + i * sz = unat p + 32 + j * sz"
      using unat_slot [OF p _ sz, of i] unat_slot [OF p _ sz, of j] by (metis atLeastLessThan_iff)
    then show "i = j" using sz by simp
  qed
  then show ?thesis by (simp add: slots_def distinct_map)
qed

section \<open>What a heap in memory represents\<close>

text \<open>Seen from outside, a cache is a list of slabs, a slab its page and its list of free objects. \<open>chain\<close> says
  that a pointer heads a linked list through \<^verbatim>\<open>SlabObject.Next\<close>, \<open>slabs_rep\<close> through \<^verbatim>\<open>Slab.Next\<close>.\<close>

type_synonym aslab = "u64 \<times> u64 list"

primrec chain :: "memory \<Rightarrow> u64 \<Rightarrow> u64 list \<Rightarrow> bool" where
  "chain m a [] \<longleftrightarrow> a = 0"
| "chain m a (x # xs) \<longleftrightarrow> a = x \<and> x \<noteq> 0 \<and> chain m (obj_Next m x) xs"

definition slab_rep :: "memory \<Rightarrow> nat \<Rightarrow> aslab \<Rightarrow> bool" where
  "slab_rep m sz s \<longleftrightarrow>
     chain m (slab_FreeList m (fst s)) (snd s) \<and> slab_FreeCount m (fst s) = word_of_nat (length (snd s)) \<and>
     slab_Magic m (fst s) = SlabMagic \<and> slab_ObjectSize m (fst s) = word_of_nat sz"

definition slab_ok :: "nat \<Rightarrow> aslab \<Rightarrow> bool" where
  "slab_ok sz s \<longleftrightarrow> fst s mod 4096 = 0 \<and> fst s \<noteq> 0 \<and> distinct (snd s) \<and> set (snd s) \<subseteq> set (slots (fst s) sz)"

primrec slabs_rep :: "memory \<Rightarrow> nat \<Rightarrow> u64 \<Rightarrow> aslab list \<Rightarrow> bool" where
  "slabs_rep m sz a [] \<longleftrightarrow> a = 0"
| "slabs_rep m sz a (s # ss) \<longleftrightarrow>
     a = fst s \<and> slab_ok sz s \<and> slab_rep m sz s \<and> slabs_rep m sz (slab_Next m (fst s)) ss"

text \<open>The header occupies the first 32 bytes of the page, the link of a free object its first 8.\<close>

lemma header_fields:
  assumes "p mod 4096 = 0" "same_on (span p 32) m m'"
  shows "slab_Next m' p = slab_Next m p" "slab_FreeList m' p = slab_FreeList m p"
    "slab_ObjectSize m' p = slab_ObjectSize m p" "slab_FreeCount m' p = slab_FreeCount m p" "slab_Magic m' p = slab_Magic m p"
proof -
  have u: "unat (p + 8) = unat p + 8" "unat (p + 16) = unat p + 16" "unat (p + 20) = unat p + 20" "unat (p + 24) = unat p + 24"
    using unat_page_offset [OF assms(1), of 8] unat_page_offset [OF assms(1), of 16]
      unat_page_offset [OF assms(1), of 20] unat_page_offset [OF assms(1), of 24] by simp_all
  have e: "unat p + 32 \<le> 2 ^ 64" using page_end [OF assms(1)] by simp
  show "slab_Next m' p = slab_Next m p" unfolding slab_Next_def
    by (rule load_same, rule same_on_subset [OF assms(2)], rule span_subset) (use e in simp_all)
  show "slab_FreeList m' p = slab_FreeList m p" unfolding slab_FreeList_def
    by (rule load_same, rule same_on_subset [OF assms(2)], rule span_subset) (use e u in simp_all)
  show "slab_ObjectSize m' p = slab_ObjectSize m p" unfolding slab_ObjectSize_def
    by (rule load_same, rule same_on_subset [OF assms(2)], rule span_subset) (use e u in simp_all)
  show "slab_FreeCount m' p = slab_FreeCount m p" unfolding slab_FreeCount_def
    by (rule load_same, rule same_on_subset [OF assms(2)], rule span_subset) (use e u in simp_all)
  show "slab_Magic m' p = slab_Magic m p" unfolding slab_Magic_def
    by (rule load_same, rule same_on_subset [OF assms(2)], rule span_subset) (use e u in simp_all)
qed

lemma chain_same: "chain m a xs \<Longrightarrow> (\<And>x. x \<in> set xs \<Longrightarrow> same_on (span x 8) m m') \<Longrightarrow> chain m' a xs"
proof (induction xs arbitrary: a)
  case (Cons x xs)
  then have "obj_Next m' x = obj_Next m x" unfolding obj_Next_def by (intro load_same) simp
  then show ?case using Cons by simp
qed simp

lemma slab_rep_same:
  assumes "slab_rep m sz s" "slab_ok sz s" "same_on (span (fst s) 32) m m'"
    and "\<And>x. x \<in> set (snd s) \<Longrightarrow> same_on (span x 8) m m'"
  shows "slab_rep m' sz s"
  using assms header_fields [of "fst s" m m'] chain_same [of m _ "snd s" m']
  by (auto simp: slab_rep_def slab_ok_def)

lemma slot_span_in_page:
  assumes "p mod 4096 = 0" "8 \<le> sz" "x \<in> set (slots p sz)"
  shows "span x 8 \<subseteq> span p 4096" "span x sz \<subseteq> span p 4096" "span x sz \<inter> span p 32 = {}"
proof -
  have b: "unat p + 32 \<le> unat x" "unat x + sz \<le> unat p + 4096" "unat p + 4096 \<le> 2 ^ 64"
    using slots_bounds [OF assms(1) _ assms(3)] assms(2) page_end [OF assms(1)] by simp_all
  show "span x 8 \<subseteq> span p 4096" by (rule span_subset) (use b assms(2) in simp_all)
  show "span x sz \<subseteq> span p 4096" by (rule span_subset) (use b in simp_all)
  show "span x sz \<inter> span p 32 = {}" by (rule span_disjoint) (use b in simp_all)
qed

text \<open>A slab whose page is untouched still represents the same thing.\<close>

lemma slab_rep_page:
  assumes "slab_rep m sz s" "slab_ok sz s" "8 \<le> sz" "same_on (span (fst s) 4096) m m'"
  shows "slab_rep m' sz s" "slab_Next m' (fst s) = slab_Next m (fst s)"
proof -
  have p: "fst s mod 4096 = 0" using assms(2) by (simp add: slab_ok_def)
  have h: "same_on (span (fst s) 32) m m'" by (rule same_on_subset [OF assms(4) span_mono]) simp
  have x: "same_on (span x 8) m m'" if "x \<in> set (snd s)" for x
    using that assms(2) slot_span_in_page(1) [OF p assms(3)]
    by (intro same_on_subset [OF assms(4)]) (auto simp: slab_ok_def)
  show "slab_rep m' sz s" by (rule slab_rep_same [OF assms(1,2) h x])
  show "slab_Next m' (fst s) = slab_Next m (fst s)" by (rule header_fields [OF p h])
qed

lemma slabs_rep_pages:
  assumes "slabs_rep m sz a ss" "8 \<le> sz" "\<And>s. s \<in> set ss \<Longrightarrow> same_on (span (fst s) 4096) m m'"
  shows "slabs_rep m' sz a ss"
  using assms(1,3)
proof (induction ss arbitrary: a)
  case (Cons s ss)
  then show ?case using slab_rep_page [OF _ _ assms(2), of m s m'] by simp
qed simp

section \<open>Reading back the fields\<close>

lemma header_offsets:
  assumes "p mod 4096 = (0 :: u64)"
  shows "unat (p + 8) = unat p + 8" "unat (p + 16) = unat p + 16" "unat (p + 20) = unat p + 20" "unat (p + 24) = unat p + 24"
    "unat p + 32 \<le> 2 ^ 64"
  using unat_page_offset [OF assms, of 8] unat_page_offset [OF assms, of 16]
    unat_page_offset [OF assms, of 20] unat_page_offset [OF assms, of 24] page_end [OF assms] by simp_all

lemmas slab_field_defs = slab_Next_def slab_FreeList_def slab_ObjectSize_def slab_FreeCount_def slab_Magic_def
  set_slab_Next_def set_slab_FreeList_def set_slab_ObjectSize_def set_slab_FreeCount_def set_slab_Magic_def

lemma slab_fields_same [simp]:
  "slab_Next (set_slab_Next p v m) p = v" "slab_FreeList (set_slab_FreeList p v m) p = v"
  "slab_ObjectSize (set_slab_ObjectSize p w m) p = w" "slab_FreeCount (set_slab_FreeCount p w m) p = w"
  "slab_Magic (set_slab_Magic p w m) p = w"
  by (simp_all add: slab_field_defs)

lemma slab_fields_other:
  assumes "p mod 4096 = (0 :: u64)"
  shows "slab_FreeList (set_slab_Next p v m) p = slab_FreeList m p"
    "slab_ObjectSize (set_slab_Next p v m) p = slab_ObjectSize m p"
    "slab_FreeCount (set_slab_Next p v m) p = slab_FreeCount m p"
    "slab_Magic (set_slab_Next p v m) p = slab_Magic m p"
    "slab_Next (set_slab_FreeList p v m) p = slab_Next m p"
    "slab_ObjectSize (set_slab_FreeList p v m) p = slab_ObjectSize m p"
    "slab_FreeCount (set_slab_FreeList p v m) p = slab_FreeCount m p"
    "slab_Magic (set_slab_FreeList p v m) p = slab_Magic m p"
    "slab_Next (set_slab_FreeCount p w m) p = slab_Next m p"
    "slab_FreeList (set_slab_FreeCount p w m) p = slab_FreeList m p"
    "slab_ObjectSize (set_slab_FreeCount p w m) p = slab_ObjectSize m p"
    "slab_Magic (set_slab_FreeCount p w m) p = slab_Magic m p"
    "slab_Next (set_slab_Magic p w m) p = slab_Next m p"
    "slab_FreeList (set_slab_Magic p w m) p = slab_FreeList m p"
    "slab_ObjectSize (set_slab_Magic p w m) p = slab_ObjectSize m p"
    "slab_FreeCount (set_slab_Magic p w m) p = slab_FreeCount m p"
  unfolding slab_field_defs by (rule load_store_apart; use header_offsets [OF assms] in simp)+

lemma header_write_same:
  assumes "p mod 4096 = 0"
  shows "same_on (- span p 32) m (set_slab_Next p v m)" "same_on (- span p 32) m (set_slab_FreeList p v m)"
    "same_on (- span p 32) m (set_slab_ObjectSize p w m)" "same_on (- span p 32) m (set_slab_FreeCount p w m)"
    "same_on (- span p 32) m (set_slab_Magic p w m)"
  unfolding slab_field_defs
  by (rule store_word_same_on, rule span_subset; use header_offsets [OF assms] in simp)+

lemma unat_plus_8: "unat x + 16 \<le> 2 ^ 64 \<Longrightarrow> unat (x + 8 :: u64) = unat x + 8"
  using unat_add_nat [of x 8] by simp

lemma set_obj_same_on: "unat x + 16 \<le> 2 ^ 64 \<Longrightarrow> same_on (- span x 16) m (set_obj x n g m)"
  unfolding set_obj_def using unat_plus_8 [of x]
  by (intro same_on_trans [OF store_word_same_on store_word_same_on] span_subset) simp_all

lemma obj_Next_set_obj: "unat x + 16 \<le> 2 ^ 64 \<Longrightarrow> obj_Next (set_obj x n g m) x = n"
  unfolding obj_Next_def set_obj_def using unat_plus_8 [of x] by (subst load_store_apart) simp_all

lemma zero_object_spec:
  assumes "unat x + unat n \<le> 2 ^ 64"
  shows "zero_object x n m a = (if a \<in> span x (unat n) then 0 else m a)"
proof -
  define body :: "u32 \<Rightarrow> memory \<Rightarrow> memory" where "body = (\<lambda>i m. m(x + ucast i := 0))"
  have "(\<forall>a. for_range 0 n body m a = (if a \<in> span x (unat n) then 0 else m a))"
  proof (rule for_range_invariant [where I = "\<lambda>i m'. \<forall>a. m' a = (if a \<in> span x (unat i) then 0 else m a)"])
    fix i and m' :: memory assume i: "i < n" and IH: "\<forall>a. m' a = (if a \<in> span x (unat i) then 0 else m a)"
    have "(ucast i :: u64) = word_of_nat (unat i)" by (simp add: word_unat_eq_iff unsigned_ucast_eq unsigned_of_nat)
    then show "\<forall>a. body i m' a = (if a \<in> span x (unat (i + 1)) then 0 else m a)"
      using IH unat_Suc_less [OF i] by (auto simp: body_def span_Suc_end)
  qed simp_all
  then show ?thesis by (simp add: zero_object_def body_def)
qed

lemma zero_object_same_on: "unat x + unat n \<le> 2 ^ 64 \<Longrightarrow> same_on (- span x (unat n)) m (zero_object x n m)"
  by (simp add: same_on_def zero_object_spec)

section \<open>Taking, returning and using an object\<close>

lemma slot_spans_disjoint:
  assumes "p mod 4096 = 0" "8 \<le> sz" "x \<in> set (slots p sz)" "y \<in> set (slots p sz)" "x \<noteq> y"
  shows "span x sz \<inter> span y sz = {}" "span x sz \<inter> span y 8 = {}"
proof -
  have s: "0 < sz" using assms(2) by simp
  have "unat x + sz \<le> 2 ^ 64" "unat y + sz \<le> 2 ^ 64"
    using slots_bounds(2) [OF assms(1) s assms(3)] slots_bounds(2) [OF assms(1) s assms(4)] page_end [OF assms(1)] by linarith+
  then show d: "span x sz \<inter> span y sz = {}"
    using slots_apart [OF assms(1) s assms(3-5)] span_disjoint by blast
  then show "span x sz \<inter> span y 8 = {}" using span_mono [OF assms(2), of y] by blast
qed

text \<open>Writing to an object that is not on the free list leaves the slab as it is.\<close>

lemma slab_rep_slot:
  assumes "slab_rep m sz (p, fs)" "slab_ok sz (p, fs)" "8 \<le> sz" "x \<in> set (slots p sz)" "x \<notin> set fs"
    "same_on (- span x sz) m m'"
  shows "slab_rep m' sz (p, fs)" "slab_Next m' p = slab_Next m p"
proof -
  have p: "p mod 4096 = 0" and fs: "set fs \<subseteq> set (slots p sz)" using assms(2) by (simp_all add: slab_ok_def)
  have h: "same_on (span p 32) m m'"
    using slot_span_in_page(3) [OF p assms(3,4)] by (intro same_on_compl [OF assms(6)]) blast
  have y: "same_on (span y 8) m m'" if "y \<in> set (snd (p, fs))" for y
    using that slot_spans_disjoint(2) [OF p assms(3,4), of y] fs assms(5) by (intro same_on_compl [OF assms(6)]) auto
  show "slab_rep m' sz (p, fs)" by (rule slab_rep_same [OF assms(1,2) _ y]) (use h in simp)
  show "slab_Next m' p = slab_Next m p" by (rule header_fields [OF p h])
qed

lemma chain_header:
  assumes "chain m a fs" "slab_ok sz (p, fs)" "8 \<le> sz" "same_on (- span p 32) m m'"
  shows "chain m' a fs"
proof (rule chain_same [OF assms(1)])
  fix y assume y: "y \<in> set fs"
  have p: "p mod 4096 = 0" and s: "y \<in> set (slots p sz)" using assms(2) y by (auto simp: slab_ok_def)
  have "span y 8 \<inter> span p 32 = {}"
    using slot_span_in_page(3) [OF p assms(3) s] span_mono [OF assms(3), of y] by blast
  then show "same_on (span y 8) m m'" by (rule same_on_compl [OF assms(4)])
qed

text \<open>The two ways the header of a slab is rewritten: one object off the list, one object on it.\<close>

lemma header_rewrite:
  assumes "slab_rep m sz (p, fs)" "slab_ok sz (p, gs)" "8 \<le> sz" "chain m a gs" "n = word_of_nat (length gs)"
    "m' = set_slab_FreeCount p n (set_slab_FreeList p a m)"
  shows "slab_rep m' sz (p, gs)" "slab_Next m' p = slab_Next m p" "same_on (- span p 32) m m'"
proof -
  have p: "p mod 4096 = 0" using assms(2) by (simp add: slab_ok_def)
  show s: "same_on (- span p 32) m m'" unfolding assms(6)
    by (rule same_on_trans) (rule header_write_same [OF p])+
  show "slab_Next m' p = slab_Next m p" by (simp add: assms(6) slab_fields_other [OF p])
  show "slab_rep m' sz (p, gs)"
    using assms(1,5) chain_header [OF assms(4,2,3) s] by (simp add: slab_rep_def assms(6) slab_fields_other [OF p])
qed

lemma slab_pop:
  assumes r: "slab_rep m sz (p, x # xs)" and ok: "slab_ok sz (p, x # xs)" and sz: "8 \<le> sz" "sz < 4096"
    and m1: "m1 = set_slab_FreeList p (obj_Next m x) m"
    and m2: "m2 = zero_object x (word_of_nat sz) (set_slab_FreeCount p (slab_FreeCount m1 p - 1) m1)"
  shows "slab_rep m2 sz (p, xs)" "slab_ok sz (p, xs)" "slab_Next m2 p = slab_Next m p"
    "same_on (- (span p 32 \<union> span x sz)) m m2" "\<And>a. a \<in> span x sz \<Longrightarrow> m2 a = 0"
proof -
  let ?m = "set_slab_FreeCount p (slab_FreeCount m1 p - 1) m1"
  have p: "p mod 4096 = 0" and x: "x \<in> set (slots p sz)" "x \<notin> set xs" using ok by (auto simp: slab_ok_def)
  show ok': "slab_ok sz (p, xs)" using ok by (simp add: slab_ok_def)
  have n: "slab_FreeCount m1 p - 1 = word_of_nat (length xs)"
    using r by (simp add: slab_rep_def m1 slab_fields_other [OF p])
  have c: "chain m (obj_Next m x) xs" using r by (simp add: slab_rep_def)
  note h = header_rewrite [OF r ok' sz(1) c n, of ?m, unfolded m1, OF refl, folded m1]
  have u: "unat (word_of_nat sz :: u32) = sz" using sz by (simp add: unsigned_of_nat take_bit_nat_eq_self)
  have b: "unat x + unat (word_of_nat sz :: u32) \<le> 2 ^ 64"
    using slots_bounds(2) [OF p _ x(1)] sz page_end [OF p] unfolding u by linarith
  have z: "same_on (- span x sz) ?m m2" using zero_object_same_on [OF b, of ?m] unfolding m2 u .
  show "slab_rep m2 sz (p, xs)" "slab_Next m2 p = slab_Next m p"
    using slab_rep_slot [OF h(1) ok' sz(1) x z] h(2) by simp_all
  show "same_on (- (span p 32 \<union> span x sz)) m m2"
    by (rule same_on_trans [OF same_on_subset [OF h(3)] same_on_subset [OF z]]) auto
  show "m2 a = 0" if "a \<in> span x sz" for a using that zero_object_spec [OF b, of ?m] unfolding m2 u by simp
qed

lemma slab_push:
  assumes r: "slab_rep m sz (p, fs)" and ok: "slab_ok sz (p, fs)" and sz: "16 \<le> sz" "sz < 4096"
    and x: "x \<in> set (slots p sz)" "x \<notin> set fs" "x \<noteq> 0"
    and m1: "m1 = set_slab_FreeList p x (set_obj x (slab_FreeList m p) g m)"
    and m2: "m2 = set_slab_FreeCount p (slab_FreeCount m1 p + 1) m1"
  shows "slab_rep m2 sz (p, x # fs)" "slab_ok sz (p, x # fs)" "slab_Next m2 p = slab_Next m p"
    "same_on (- (span p 32 \<union> span x sz)) m m2"
proof -
  let ?m = "set_obj x (slab_FreeList m p) g m"
  have p: "p mod 4096 = 0" using ok by (simp add: slab_ok_def)
  show ok': "slab_ok sz (p, x # fs)" using ok x by (simp add: slab_ok_def)
  have sz8: "8 \<le> sz" using sz by simp
  have b: "unat x + 16 \<le> 2 ^ 64" using slots_bounds(2) [OF p _ x(1)] sz page_end [OF p] by simp
  have z: "same_on (- span x sz) m ?m"
    using span_mono [OF sz(1), of x] by (intro same_on_subset [OF set_obj_same_on [OF b]]) auto
  note r' = slab_rep_slot [OF r ok sz8 x(1,2) z]
  have "span p 32 \<inter> span x sz = {}" using slot_span_in_page(3) [OF p sz8 x(1)] by blast
  then have hdr: "slab_FreeList ?m p = slab_FreeList m p" by (rule header_fields(2) [OF p same_on_compl [OF z]])
  have c: "chain ?m x (x # fs)"
    using r' x obj_Next_set_obj [OF b, of "slab_FreeList m p" g m] hdr by (auto simp: slab_rep_def)
  have n: "slab_FreeCount m1 p + 1 = word_of_nat (length (x # fs))"
    using r' by (simp add: slab_rep_def m1 slab_fields_other [OF p])
  show "slab_rep m2 sz (p, x # fs)" "slab_Next m2 p = slab_Next m p"
    using header_rewrite(1,2) [OF r'(1) ok' sz8 c n, of m2] r'(2) by (simp_all add: m1 m2)
  show "same_on (- (span p 32 \<union> span x sz)) m m2"
    using header_rewrite(3) [OF r'(1) ok' sz8 c n, of m2]
    by (intro same_on_trans [OF same_on_subset [OF z] same_on_subset]) (auto simp: m1 m2)
qed

section \<open>Cutting a page into objects\<close>

lemma take_Suc_slots:
  "j < per_slab sz \<Longrightarrow> take (Suc j) (slots p sz) = take j (slots p sz) @ [slot p sz j]"
  by (simp add: take_Suc_conv_app_nth slots_def)

lemma slot_Suc: "slot p sz (Suc j) = slot p sz j + word_of_nat sz"
  by (simp add: slot_def algebra_simps)

lemma carve_guard:
  assumes "p mod 4096 = (0 :: u64)" "unat p + 4096 < 2 ^ 64 - 4096" "0 < sz" "sz \<le> 2048" "j \<le> per_slab sz"
  shows "slot p sz j + word_of_nat sz \<le> p + 4096 \<longleftrightarrow> j < per_slab sz"
proof -
  have "j * sz \<le> per_slab sz * sz" using assms(5) by simp
  moreover have "per_slab sz * sz \<le> 4064" by (simp add: per_slab_def)
  ultimately have b: "32 + j * sz + sz \<le> 4096 + sz" by linarith
  have eq: "slot p sz j + word_of_nat sz = p + word_of_nat (32 + j * sz + sz)" by (simp add: slot_def algebra_simps)
  have "unat (slot p sz j + word_of_nat sz) = unat p + (32 + j * sz + sz)"
    unfolding eq using b assms(2,4) by (intro unat_add_nat) simp
  moreover have "unat (p + 4096) = unat p + 4096" using unat_add_nat [of p 4096] assms(2) by simp
  ultimately have "slot p sz j + word_of_nat sz \<le> p + 4096 \<longleftrightarrow> 32 + j * sz + sz \<le> 4096"
    by (simp add: word_le_nat_alt)
  also have "\<dots> \<longleftrightarrow> j < per_slab sz"
  proof
    assume "32 + j * sz + sz \<le> 4096"
    then have "Suc j * sz \<le> 4064" by simp
    then have "Suc j \<le> 4064 div sz" using assms(3) by (simp add: less_eq_div_iff_mult_less_eq)
    then show "j < per_slab sz" by (simp add: per_slab_def)
  qed (rule slot_end)
  finally show ?thesis .
qed

lemma slot_nonzero: "p mod 4096 = 0 \<Longrightarrow> 0 < sz \<Longrightarrow> x \<in> set (slots p sz) \<Longrightarrow> x \<noteq> 0"
  by (drule (2) slots_bounds(1)) auto

lemma carve_pass:
  assumes p: "p mod 4096 = 0" and sz: "16 \<le> sz" and j: "j < per_slab sz"
    and c: "chain m prev (rev (take j (slots p sz)))" "slab_FreeCount m p = word_of_nat j"
      "slab_Magic m p = SlabMagic" "slab_ObjectSize m p = word_of_nat sz"
    and x: "x = slot p sz j" and m1: "m1 = set_obj x prev g m" and m2: "m2 = set_slab_FreeCount p (slab_FreeCount m1 p + 1) m1"
  shows "chain m2 x (rev (take (Suc j) (slots p sz)))" "slab_FreeCount m2 p = word_of_nat (Suc j)"
    "slab_Magic m2 p = SlabMagic" "slab_ObjectSize m2 p = word_of_nat sz" "same_on (- span p 4096) m m2"
proof -
  have sz8: "8 \<le> sz" "0 < sz" using sz by simp_all
  have xs: "x \<in> set (slots p sz)" using j by (auto simp: x slots_def)
  have d: "distinct (take (Suc j) (slots p sz))" using distinct_slots [OF p sz8(2)] by simp
  have fresh: "x \<notin> set (take j (slots p sz))" using d by (simp add: take_Suc_slots [OF j] x)
  have b: "unat x + sz \<le> unat p + 4096" "unat p + 4096 \<le> 2 ^ 64"
    using slots_bounds(2) [OF p sz8(2) xs] page_end [OF p] by simp_all
  have b16: "unat x + 16 \<le> 2 ^ 64" using b sz by linarith
  have z: "same_on (- span x sz) m m1"
    using span_mono [OF sz, of x] unfolding m1 by (intro same_on_subset [OF set_obj_same_on [OF b16]]) auto
  have h: "same_on (span p 32) m m1"
    using slot_span_in_page(3) [OF p sz8(1) xs] by (intro same_on_compl [OF z]) blast
  note hf = header_fields [OF p h]
  have c1: "chain m1 prev (rev (take j (slots p sz)))"
  proof (rule chain_same [OF c(1)])
    fix y assume "y \<in> set (rev (take j (slots p sz)))"
    then have "y \<in> set (slots p sz)" "x \<noteq> y" using fresh by (auto dest: in_set_takeD)
    then show "same_on (span y 8) m m1"
      using slot_spans_disjoint(2) [OF p sz8(1) xs] by (intro same_on_compl [OF z]) blast
  qed
  have c2: "chain m1 x (rev (take (Suc j) (slots p sz)))"
    using c1 slot_nonzero [OF p sz8(2) xs] obj_Next_set_obj [OF b16, of prev g m]
    by (simp add: take_Suc_slots [OF j] x [symmetric] m1)
  have m12: "same_on (- span p 32) m1 m2" unfolding m2 by (rule header_write_same [OF p])
  show "chain m2 x (rev (take (Suc j) (slots p sz)))"
  proof (rule chain_same [OF c2])
    fix y assume "y \<in> set (rev (take (Suc j) (slots p sz)))"
    then have y: "y \<in> set (slots p sz)" by (auto dest: in_set_takeD)
    show "same_on (span y 8) m1 m2"
      using slot_span_in_page(3) [OF p sz8(1) y] span_mono [OF sz8(1), of y] by (intro same_on_compl [OF m12]) blast
  qed
  show "slab_FreeCount m2 p = word_of_nat (Suc j)" "slab_Magic m2 p = SlabMagic" "slab_ObjectSize m2 p = word_of_nat sz"
    using hf c by (simp_all add: m2 slab_fields_other [OF p] add.commute)
  show "same_on (- span p 4096) m m2"
    using slot_span_in_page(2) [OF p sz8(1) xs] span_mono [of 32 4096 p]
    by (intro same_on_trans [OF same_on_subset [OF z] same_on_subset [OF m12]]) auto
qed

lemma carve_spec:
  assumes p: "p mod 4096 = 0" "unat p + 4096 < 2 ^ 64 - 4096" and sz: "16 \<le> sz" "sz \<le> 2048"
    and j: "j \<le> per_slab sz"
    and c: "chain m prev (rev (take j (slots p sz)))" "slab_FreeCount m p = word_of_nat j"
      "slab_Magic m p = SlabMagic" "slab_ObjectSize m p = word_of_nat sz"
  shows "\<exists>q m'. carve p (word_of_nat sz) (p + 4096) (slot p sz j) prev m = Some (q, m') \<and>
    chain m' q (rev (slots p sz)) \<and> slab_FreeCount m' p = word_of_nat (per_slab sz) \<and>
    slab_Magic m' p = SlabMagic \<and> slab_ObjectSize m' p = word_of_nat sz \<and> same_on (- span p 4096) m m'"
  using j c
proof (induction "per_slab sz - j" arbitrary: j prev m)
  case 0
  then have "j = per_slab sz" by simp
  moreover have "take (per_slab sz) (slots p sz) = slots p sz" by (simp add: slots_def)
  ultimately show ?case using 0 carve_guard [OF p, of sz j] sz by (subst carve.simps) simp
next
  case (Suc n)
  then have j: "j < per_slab sz" by simp
  define m1 where "m1 = set_obj (slot p sz j) prev FreeObjectMagic m"
  define m2 where "m2 = set_slab_FreeCount p (slab_FreeCount m1 p + 1) m1"
  note s = carve_pass [OF p(1) sz(1) j Suc.prems(2-5) refl m1_def m2_def]
  have "carve p (word_of_nat sz) (p + 4096) (slot p sz j) prev m =
    carve p (word_of_nat sz) (p + 4096) (slot p sz (Suc j)) (slot p sz j) m2"
    using carve_guard [OF p, of sz j] sz j
    by (subst carve.simps) (simp add: m1_def m2_def slot_Suc Let_def)
  moreover have "n = per_slab sz - Suc j" "Suc j \<le> per_slab sz" using Suc.hyps(2) j by simp_all
  ultimately show ?case using Suc.hyps(1) [OF _ _ s(1-4)] same_on_trans [OF s(5)] by fastforce
qed

end
