(* ===== verification/KHeapSpec.thy ===== *)
theory KHeapSpec
  imports KHeap
begin

text \<open>
  What the kernel heap promises. \<open>heap_ok A h\<close> relates the heap in memory to the lists of slabs and free objects
  it represents; every routine keeps it, \<open>live_blocks\<close> reads off the blocks in use, and the locale
  \<open>object_heap\<close> states the contract for clients, interpreted on \<^verbatim>\<open>KMalloc\<close> and \<^verbatim>\<open>KFree\<close>. Requests above 2048 bytes go
  to the page allocator and are treated at the end.
\<close>

section \<open>The heap invariant\<close>

definition cache_pages :: "(nat \<Rightarrow> aslab list) \<Rightarrow> nat \<Rightarrow> u64 set" where
  "cache_pages A i = fst ` set (A i)"

definition caches_rep :: "(nat \<Rightarrow> aslab list) \<Rightarrow> KernelHeapManager \<Rightarrow> memory \<Rightarrow> bool" where
  "caches_rep A K m \<longleftrightarrow>
     (\<forall>i<8. slabs_rep m (slab_sizes ! i) (Slabs (Caches K ! i)) (A i) \<and> distinct (map fst (A i))) \<and>
     (\<forall>i<8. \<forall>j<8. i \<noteq> j \<longrightarrow> cache_pages A i \<inter> cache_pages A j = {})"

definition cache_sizes_ok :: "KernelHeapManager \<Rightarrow> bool" where
  "cache_sizes_ok K \<longleftrightarrow> length (Caches K) = 8 \<and> SlabSizes K = map word_of_nat slab_sizes \<and>
     (\<forall>i<8. CacheObjectSize (Caches K ! i) = word_of_nat (slab_sizes ! i))"

definition pages_taken :: "(nat \<Rightarrow> aslab list) \<Rightarrow> PhysicalMemoryManager \<Rightarrow> bool" where
  "pages_taken A P \<longleftrightarrow> (\<forall>i<8. \<forall>p \<in> cache_pages A i. VirtToPhys p P \<in> taken_addrs P)"

definition heap_ok :: "(nat \<Rightarrow> aslab list) \<Rightarrow> kmem \<Rightarrow> bool" where
  "heap_ok A h \<longleftrightarrow> pmm_inv (Pmm h) \<and> hhdm_ok (Pmm h) \<and> cache_sizes_ok (KHeap h) \<and>
     caches_rep A (KHeap h) (Mem h) \<and> pages_taken A (Pmm h)"

lemma sizes_bound: "i < 8 \<Longrightarrow> 16 \<le> slab_sizes ! i \<and> slab_sizes ! i \<le> 2048"
  by (auto simp: slab_sizes_def less_Suc_eq numeral_eq_Suc)

lemma sizes_bounds [simp]:
  "i < 8 \<Longrightarrow> 16 \<le> slab_sizes ! i" "i < 8 \<Longrightarrow> 8 \<le> slab_sizes ! i" "i < 8 \<Longrightarrow> slab_sizes ! i \<le> 2048"
  "i < 8 \<Longrightarrow> slab_sizes ! i < 4096" "i < 8 \<Longrightarrow> 0 < slab_sizes ! i"
  using sizes_bound [of i] by linarith+

lemma slabs_rep_ok: "slabs_rep m sz a ss \<Longrightarrow> s \<in> set ss \<Longrightarrow> slab_ok sz s \<and> slab_rep m sz s"
  by (induction ss arbitrary: a) auto

lemma caches_rep_slab:
  assumes "caches_rep A K m" "i < 8" "s \<in> set (A i)"
  shows "slab_ok (slab_sizes ! i) s" "slab_rep m (slab_sizes ! i) s" "fst s mod 4096 = 0" "fst s \<noteq> 0"
  using assms slabs_rep_ok [of m "slab_sizes ! i" _ "A i" s] by (auto simp: caches_rep_def slab_ok_def)

lemma slabs_rep_update:
  assumes "slabs_rep m sz a (us @ (p, fs) # vs)" "distinct (map fst (us @ (p, fs) # vs))" "8 \<le> sz"
    and m': "same_on (- span p 4096) m m'" "slab_rep m' sz (p, gs)" "slab_ok sz (p, gs)" "slab_Next m' p = slab_Next m p"
  shows "slabs_rep m' sz a (us @ (p, gs) # vs)"
  using assms(1,2)
proof (induction us arbitrary: a)
  case Nil
  have "slabs_rep m' sz (slab_Next m p) vs"
  proof (rule slabs_rep_pages [OF _ assms(3)])
    fix s assume s: "s \<in> set vs"
    then have "fst s mod 4096 = 0" "p \<noteq> fst s"
      using Nil slabs_rep_ok [of m sz "slab_Next m p" vs s] by (auto simp: slab_ok_def)
    then show "same_on (span (fst s) 4096) m m'"
      using Nil by (intro page_untouched [OF _ _ _ m'(1)]) (auto simp: slab_ok_def)
  qed (use Nil in simp)
  then show ?case using Nil m' by simp
next
  case (Cons u us)
  have p: "p mod 4096 = 0" using m'(3) by (simp add: slab_ok_def)
  have u: "fst u mod 4096 = 0" "p \<noteq> fst u" "slab_rep m sz u" "slab_ok sz u" using Cons.prems by (auto simp: slab_ok_def)
  note k = slab_rep_page [OF u(3,4) assms(3) page_untouched [OF p u(1,2) m'(1)]]
  show ?case using Cons.IH [of "slab_Next m (fst u)"] Cons.prems k by simp
qed

lemma caches_rep_other:
  assumes "caches_rep A K m" "j < 8" "p mod 4096 = 0" "p \<notin> cache_pages A j" "same_on (- span p 4096) m m'"
  shows "slabs_rep m' (slab_sizes ! j) (Slabs (Caches K ! j)) (A j)"
proof (rule slabs_rep_pages)
  show "slabs_rep m (slab_sizes ! j) (Slabs (Caches K ! j)) (A j)" using assms by (simp add: caches_rep_def)
  fix s assume "s \<in> set (A j)"
  then have "fst s mod 4096 = 0" "p \<noteq> fst s"
    using caches_rep_slab [OF assms(1,2)] assms(4) by (auto simp: cache_pages_def)
  then show "same_on (span (fst s) 4096) m m'" by (intro page_untouched [OF assms(3) _ _ assms(5)])
qed (use assms(2) in simp)

text \<open>One slab changes inside its page: the rest of the heap stands.\<close>

lemma caches_rep_update:
  assumes r: "caches_rep A K m" and i: "i < 8" and A: "A i = us @ (p, fs) # vs"
    and m': "same_on (- span p 4096) m m'" "slab_rep m' (slab_sizes ! i) (p, gs)" "slab_ok (slab_sizes ! i) (p, gs)"
      "slab_Next m' p = slab_Next m p"
  shows "caches_rep (A(i := us @ (p, gs) # vs)) K m'"
proof -
  let ?A = "A(i := us @ (p, gs) # vs)"
  have cp: "cache_pages ?A j = cache_pages A j" for j by (auto simp: cache_pages_def A)
  have p: "p mod 4096 = 0" using m'(3) by (simp add: slab_ok_def)
  have "slabs_rep m' (slab_sizes ! j) (Slabs (Caches K ! j)) (?A j)" if j: "j < 8" for j
  proof (cases "j = i")
    case True
    have "slabs_rep m (slab_sizes ! i) (Slabs (Caches K ! i)) (us @ (p, fs) # vs) \<and> distinct (map fst (us @ (p, fs) # vs))"
      using r i unfolding caches_rep_def A [symmetric] by blast
    then show ?thesis using True slabs_rep_update [OF _ _ _ m', of "Slabs (Caches K ! i)" us fs vs] i by simp
  next
    case False
    have "p \<in> cache_pages A i" by (simp add: cache_pages_def A)
    then have "p \<notin> cache_pages A j" using r i j False by (auto simp: caches_rep_def)
    then show ?thesis using False caches_rep_other [OF r j p _ m'(1)] by simp
  qed
  moreover have "map fst (?A j) = map fst (A j)" for j by (simp add: A)
  ultimately show ?thesis using r by (simp add: caches_rep_def cp)
qed

text \<open>A fresh slab in front of a cache.\<close>

lemma caches_rep_push:
  assumes r: "caches_rep A K m" and i: "i < 8" "length (Caches K) = 8" and s: "slab_ok (slab_sizes ! i) (p, gs)" "slab_rep m' (slab_sizes ! i) (p, gs)"
    and m': "same_on (- span p 4096) m m'" "slab_Next m' p = Slabs (Caches K ! i)"
    and fresh: "\<And>j. j < 8 \<Longrightarrow> p \<notin> cache_pages A j"
    and K': "K' = K\<lparr>Caches := (Caches K)[i := (Caches K ! i)\<lparr>Slabs := p\<rparr>]\<rparr>"
  shows "caches_rep (A(i := (p, gs) # A i)) K' m'"
proof -
  let ?A = "A(i := (p, gs) # A i)"
  have p: "p mod 4096 = 0" using s by (simp add: slab_ok_def)
  have "slabs_rep m' (slab_sizes ! j) (Slabs (Caches K' ! j)) (?A j)" if j: "j < 8" for j
    using caches_rep_other [OF r j p fresh [OF j] m'(1)] s m'(2) i j by (cases "j = i") (simp_all add: K')
  moreover have "distinct (map fst (?A j))" if j: "j < 8" for j
    using r that fresh [OF j] by (auto simp: caches_rep_def cache_pages_def)
  moreover have "cache_pages ?A j = (if j = i then insert p (cache_pages A i) else cache_pages A j)" for j
    by (auto simp: cache_pages_def)
  ultimately show ?thesis using r fresh i by (auto simp: caches_rep_def)
qed

section \<open>Where an object lies\<close>

definition slot_at :: "(nat \<Rightarrow> aslab list) \<Rightarrow> u64 \<Rightarrow> nat \<Rightarrow> aslab \<Rightarrow> bool" where
  "slot_at A x i s \<longleftrightarrow> i < 8 \<and> s \<in> set (A i) \<and> x \<in> set (slots (fst s) (slab_sizes ! i))"

text \<open>The objects in the hands of clients, with the room each has.\<close>

definition free_objects :: "(nat \<Rightarrow> aslab list) \<Rightarrow> u64 set" where
  "free_objects A = (\<Union>i<8. \<Union>s\<in>set (A i). set (snd s))"

definition in_cache :: "(nat \<Rightarrow> aslab list) \<Rightarrow> u64 \<Rightarrow> nat \<Rightarrow> bool" where
  "in_cache A x k \<longleftrightarrow> (\<exists>i<8. \<exists>p\<in>cache_pages A i. x \<in> set (slots p (slab_sizes ! i)) \<and> k = slab_sizes ! i)"

definition live_objects :: "(nat \<Rightarrow> aslab list) \<Rightarrow> (u64 \<times> nat) set" where
  "live_objects A = {(x, k). x \<notin> free_objects A \<and> in_cache A x k}"

lemma live_slot_at:
  "(x, k) \<in> live_objects A \<longleftrightarrow> x \<notin> free_objects A \<and> (\<exists>i s. slot_at A x i s \<and> k = slab_sizes ! i)"
  by (simp add: live_objects_def in_cache_def cache_pages_def slot_at_def del: split_paired_Ex) blast

lemma page_unique:
  assumes "caches_rep A K m" "i < 8" "j < 8" "s \<in> set (A i)" "t \<in> set (A j)" "fst s = fst t"
  shows "i = j \<and> s = t"
proof -
  have "fst s \<in> cache_pages A i" "fst t \<in> cache_pages A j" using assms(4,5) by (simp_all add: cache_pages_def)
  then have "i = j" using assms(1-3,6) by (auto simp: caches_rep_def)
  moreover have "distinct (map fst (A i))" using assms by (simp add: caches_rep_def)
  ultimately show ?thesis using assms(4-6) by (metis distinct_map inj_onD)
qed

lemma page_of_slot:
  assumes "p mod 4096 = 0" "0 < sz" "x \<in> set (slots p sz)"
  shows "x AND NOT (4096 - 1) = p" "x \<noteq> p"
proof -
  obtain k where k: "k < per_slab sz" "x = slot p sz k" using assms(3) by (auto simp: slots_def)
  then have "x AND NOT 0xFFF = p"
    using page_of_offset [OF assms(1), of "32 + k * sz"] slot_end [of k sz] assms(2) by (simp add: slot_def)
  then show "x AND NOT (4096 - 1) = p" by simp
  show "x \<noteq> p" using slots_bounds(1) [OF assms] by auto
qed

lemma slot_atD:
  assumes "caches_rep A K m" "slot_at A x i s"
  shows "i < 8" "s \<in> set (A i)" "x \<in> set (slots (fst s) (slab_sizes ! i))" "fst s mod 4096 = 0" "slab_ok (slab_sizes ! i) s"
    "slab_rep m (slab_sizes ! i) s" "x AND NOT (4096 - 1) = fst s" "x \<noteq> 0" "span x (slab_sizes ! i) \<subseteq> span (fst s) 4096"
  using assms caches_rep_slab [OF assms(1), of i s] page_of_slot(1) [of "fst s" "slab_sizes ! i" x]
    slot_nonzero [of "fst s" "slab_sizes ! i" x] slot_span_in_page(2) [of "fst s" "slab_sizes ! i" x]
  by (simp_all add: slot_at_def)

lemma slot_at_unique:
  assumes "caches_rep A K m" "slot_at A x i s" "slot_at A x j t"
  shows "i = j \<and> s = t"
  by (rule page_unique [OF assms(1)])
    (use slot_atD(7) [OF assms(1,2)] slot_atD(7) [OF assms(1,3)] assms(2,3) in \<open>simp_all add: slot_at_def\<close>)

lemma slot_at_disjoint:
  assumes r: "caches_rep A K m" and x: "slot_at A x i s" and y: "slot_at A y j t" and "x \<noteq> y"
  shows "span x (slab_sizes ! i) \<inter> span y (slab_sizes ! j) = {}"
proof (cases "fst s = fst t")
  case True
  then have "i = j \<and> s = t" using x y by (intro page_unique [OF r]) (simp_all add: slot_at_def)
  then show ?thesis
    using slot_spans_disjoint(1) [of "fst s" "slab_sizes ! i" x y] slot_atD [OF r x] slot_atD [OF r y] assms(4) by simp
next
  case False
  then show ?thesis
    using pages_disjoint [OF slot_atD(4) [OF r x] slot_atD(4) [OF r y]] slot_atD(9) [OF r x] slot_atD(9) [OF r y] by blast
qed

lemma slot_at_header:
  assumes r: "caches_rep A K m" and x: "slot_at A x i s" and t: "j < 8" "t \<in> set (A j)"
  shows "span x (slab_sizes ! i) \<inter> span (fst t) 32 = {}"
proof (cases "fst s = fst t")
  case True
  then show ?thesis
    using slot_span_in_page(3) [of "fst s" "slab_sizes ! i" x] slot_atD [OF r x] by simp
next
  case False
  have "span (fst t) 32 \<subseteq> span (fst t) 4096" by (rule span_mono) simp
  then show ?thesis
    using pages_disjoint [OF slot_atD(4) [OF r x] caches_rep_slab(3) [OF r t] False] slot_atD(9) [OF r x] by blast
qed

lemma live_objects_disjoint:
  assumes "caches_rep A K m" "(x, k) \<in> live_objects A" "(y, l) \<in> live_objects A" "(x, k) \<noteq> (y, l)"
  shows "span x k \<inter> span y l = {}"
proof -
  obtain i s j t where o: "slot_at A x i s" "k = slab_sizes ! i" "slot_at A y j t" "l = slab_sizes ! j"
    using assms(2,3) by (auto simp: live_slot_at)
  have "x \<noteq> y"
  proof
    assume "x = y"
    then have "i = j" using slot_at_unique [OF assms(1)] o by blast
    then show False using assms(4) o \<open>x = y\<close> by simp
  qed
  then show ?thesis using slot_at_disjoint [OF assms(1) o(1,3)] o by simp
qed

text \<open>Moving one object on or off a free list changes the live objects by exactly that one.\<close>

lemma free_slot_at:
  assumes "caches_rep A K m" "i < 8" "s \<in> set (A i)" "x \<in> set (snd s)"
  shows "slot_at A x i s"
  using caches_rep_slab(1) [OF assms(1-3)] assms by (auto simp: slot_at_def slab_ok_def)

lemma free_objects_at:
  assumes "i < 8"
  shows "free_objects A = (\<Union>s\<in>set (A i). set (snd s)) \<union> (\<Union>j\<in>{..<8} - {i}. \<Union>s\<in>set (A j). set (snd s))"
proof -
  have "{..<8} = insert i ({..<8} - {i})" using assms by auto
  then show ?thesis unfolding free_objects_def by (metis (no_types, lifting) UN_insert)
qed

lemma free_objects_split:
  assumes "i < 8" "A i = us @ (p, fs) # vs"
  shows "free_objects A = set fs \<union> (\<Union>j\<in>{..<8} - {i}. \<Union>s\<in>set (A j). set (snd s)) \<union> (\<Union>s\<in>set (us @ vs). set (snd s))"
  using assms(2) unfolding free_objects_at [OF assms(1), of A] by auto

lemma in_cache_unique:
  assumes r: "caches_rep A K m" and x: "slot_at A x i s"
  shows "in_cache A x k \<longleftrightarrow> k = slab_sizes ! i"
proof
  assume "in_cache A x k"
  then obtain j t where "slot_at A x j t" "k = slab_sizes ! j" by (auto simp: in_cache_def cache_pages_def slot_at_def)
  then show "k = slab_sizes ! i" using slot_at_unique [OF r x] by blast
next
  assume "k = slab_sizes ! i"
  then show "in_cache A x k" using x by (auto simp: in_cache_def slot_at_def cache_pages_def)
qed

lemma cache_pages_update: "A i = us @ (p, fs) # vs \<Longrightarrow> cache_pages (A(i := us @ (p, gs) # vs)) j = cache_pages A j"
  by (auto simp: cache_pages_def)

lemma in_cache_update: "A i = us @ (p, fs) # vs \<Longrightarrow> in_cache (A(i := us @ (p, gs) # vs)) x k = in_cache A x k"
  by (simp add: in_cache_def cache_pages_update)

lemma free_objects_update:
  assumes "i < 8" "A i = us @ (p, fs) # vs"
  shows "free_objects (A(i := us @ (p, gs) # vs)) =
    set gs \<union> (\<Union>j\<in>{..<8} - {i}. \<Union>s\<in>set (A j). set (snd s)) \<union> (\<Union>s\<in>set (us @ vs). set (snd s))"
  by (subst free_objects_split [OF assms(1), of _ us p gs vs]) simp_all

lemma free_elsewhere:
  assumes r: "caches_rep A K m" and i: "i < 8" "A i = us @ (p, fs) # vs" and x: "x \<in> set (slots p (slab_sizes ! i))"
  shows "x \<notin> (\<Union>j\<in>{..<8} - {i}. \<Union>s\<in>set (A j). set (snd s)) \<union> (\<Union>s\<in>set (us @ vs). set (snd s))"
proof
  assume "x \<in> (\<Union>j\<in>{..<8} - {i}. \<Union>s\<in>set (A j). set (snd s)) \<union> (\<Union>s\<in>set (us @ vs). set (snd s))"
  then have "\<exists>j s. j < 8 \<and> s \<in> set (A j) \<and> x \<in> set (snd s) \<and> (j \<noteq> i \<or> s \<in> set (us @ vs))"
  proof
    assume "x \<in> (\<Union>s\<in>set (us @ vs). set (snd s))"
    then show ?thesis using i by (intro exI [of _ i]) (simp del: split_paired_Ex, blast)
  qed blast
  then obtain j s where s: "j < 8" "s \<in> set (A j)" "x \<in> set (snd s)" "j \<noteq> i \<or> s \<in> set (us @ vs)" by blast
  have "slot_at A x i (p, fs)" using i x by (simp add: slot_at_def)
  then have "j = i \<and> s = (p, fs)" using slot_at_unique [OF r free_slot_at [OF r s(1-3)]] by blast
  moreover have "distinct (map fst (A i))" using r i(1) by (simp add: caches_rep_def)
  ultimately show False using s(4) i(2) by force
qed

lemma live_pop:
  assumes r: "caches_rep A K m" and i: "i < 8" and A: "A i = us @ (p, x # xs) # vs"
  shows "live_objects (A(i := us @ (p, xs) # vs)) = insert (x, slab_sizes ! i) (live_objects A)"
    "(x, slab_sizes ! i) \<notin> live_objects A"
proof -
  have s: "slot_at A x i (p, x # xs)" using A i by (intro free_slot_at [OF r]) simp_all
  have x: "x \<in> set (slots p (slab_sizes ! i))" "x \<notin> set xs"
    using slot_atD(3,5) [OF r s] by (simp_all add: slab_ok_def)
  note f = free_objects_split [where A = A, OF i A] free_objects_update [where A = A, OF i A, of xs] free_elsewhere [OF r i A x(1)]
  have fo: "free_objects (A(i := us @ (p, xs) # vs)) = free_objects A - {x}" "x \<in> free_objects A" using f x(2) by auto
  then show "(x, slab_sizes ! i) \<notin> live_objects A" by (simp add: live_objects_def)
  show "live_objects (A(i := us @ (p, xs) # vs)) = insert (x, slab_sizes ! i) (live_objects A)"
    using fo in_cache_unique [OF r s] by (auto simp: live_objects_def in_cache_update [where A = A, OF A])
qed

lemma live_push:
  assumes r: "caches_rep A K m" and i: "i < 8" and A: "A i = us @ (p, fs) # vs" and x: "x \<in> set (slots p (slab_sizes ! i))"
  shows "live_objects (A(i := us @ (p, x # fs) # vs)) = live_objects A - {(x, slab_sizes ! i)}"
proof -
  have s: "slot_at A x i (p, fs)" using A i x by (simp add: slot_at_def)
  have "free_objects (A(i := us @ (p, x # fs) # vs)) = insert x (free_objects A)"
    using free_objects_split [where A = A, OF i A] free_objects_update [where A = A, OF i A, of "x # fs"] by auto
  then show ?thesis
    using in_cache_unique [OF r s] by (auto simp: live_objects_def in_cache_update [where A = A, OF A])
qed

section \<open>The routines keep the representation\<close>

text \<open>The size class of a request: the first cache whose objects are large enough.\<close>

definition cache_for :: "u64 \<Rightarrow> nat" where
  "cache_for n = (LEAST i. i < 8 \<and> unat n \<le> slab_sizes ! i)"

lemma cache_for:
  assumes "n \<le> 2048"
  shows "cache_for n < 8" "unat n \<le> slab_sizes ! cache_for n" "\<And>i. i < cache_for n \<Longrightarrow> slab_sizes ! i < unat n"
proof -
  have "unat n \<le> 2048" using assms by (simp add: word_le_nat_alt)
  then have "7 < (8 :: nat) \<and> unat n \<le> slab_sizes ! 7" by (simp add: slab_sizes_def)
  note l = LeastI [where P = "\<lambda>i. i < 8 \<and> unat n \<le> slab_sizes ! i", OF this, folded cache_for_def]
  show "cache_for n < 8" "unat n \<le> slab_sizes ! cache_for n" using l by simp_all
  show "slab_sizes ! i < unat n" if "i < cache_for n" for i
    using not_less_Least [where P = "\<lambda>i. i < 8 \<and> unat n \<le> slab_sizes ! i", folded cache_for_def, OF that] that l by simp
qed

lemma length_sizes: "length slab_sizes = 8"
  by (simp add: slab_sizes_def)

lemma size_word: "i < 8 \<Longrightarrow> unat (word_of_nat (slab_sizes ! i) :: u32) = slab_sizes ! i"
proof -
  assume "i < 8"
  then have "slab_sizes ! i < 2 ^ 32" by (rule le_less_trans [OF sizes_bounds(3)]) simp
  then show ?thesis by (simp add: unsigned_of_nat take_bit_nat_eq_self)
qed

lemma size_word64: "i < 8 \<Longrightarrow> unat (word_of_nat (slab_sizes ! i) :: u64) = slab_sizes ! i"
  by (rule unat_word_of_nat64, rule le_less_trans [OF sizes_bounds(3)]) simp_all

lemma ucast_size: "i < 8 \<Longrightarrow> (ucast (word_of_nat (slab_sizes ! i) :: u32) :: u64) = word_of_nat (slab_sizes ! i)"
  using size_word [of i] size_word64 [of i] unsigned_less [where 'a = nat, of "word_of_nat (slab_sizes ! i) :: u32"]
  by (simp add: word_unat_eq_iff unsigned_ucast_eq take_bit_nat_eq_self)

lemma GetSlabCache_class:
  assumes K: "cache_sizes_ok K" and n: "n \<le> 2048"
  shows "GetSlabCache n K = Some (cache_for n)"
proof -
  let ?P = "\<lambda>i :: u32. n \<le> ucast (SlabSizes K ! unat i)"
  have P: "?P i \<longleftrightarrow> unat n \<le> slab_sizes ! unat i" if "i < 8" for i
  proof -
    have i: "unat i < 8" using that by (simp add: word_less_nat_alt)
    have "SlabSizes K ! unat i = word_of_nat (slab_sizes ! unat i)"
      using K i by (simp add: cache_sizes_ok_def length_sizes)
    then show ?thesis using ucast_size [OF i] size_word64 [OF i] by (simp add: word_le_nat_alt)
  qed
  note c = cache_for [OF n]
  define k :: u32 where "k = word_of_nat (cache_for n)"
  have k: "unat k = cache_for n" "k < 8"
    using c(1) by (simp_all add: k_def unsigned_of_nat take_bit_nat_eq_self word_less_nat_alt)
  have "find_range 0 8 ?P = Some k"
  proof (cases "find_range 0 8 ?P")
    case None
    then have "\<not> ?P k" using k(2) by (simp add: find_range_None_iff)
    then show ?thesis using P [OF k(2)] c(2) k(1) by simp
  next
    case (Some j)
    note j = find_range_SomeD [OF Some]
    have "k < j \<Longrightarrow> \<not> ?P k" using j by simp
    then have "\<not> cache_for n < unat j" using k(1) P [OF k(2)] c(2) by (auto simp: word_less_nat_alt)
    moreover have "\<not> unat j < cache_for n" using c(3) [of "unat j"] P [of j] j by auto
    ultimately show ?thesis using Some k(1) by (simp add: word_unat_eq_iff)
  qed
  then show ?thesis by (simp add: GetSlabCache_def k(1))
qed

lemma free_count_bound:
  assumes "slab_ok sz s" "16 \<le> sz"
  shows "length (snd s) < 2 ^ 32"
proof -
  have "length (snd s) = card (set (snd s))" using assms by (simp add: slab_ok_def distinct_card)
  also have "\<dots> \<le> card (set (slots (fst s) sz))" using assms by (intro card_mono) (simp_all add: slab_ok_def)
  also have "\<dots> \<le> per_slab sz" using card_length [of "slots (fst s) sz"] by (simp add: slots_def)
  also have "\<dots> \<le> 4064" by (simp add: per_slab_def)
  finally show ?thesis by simp
qed

lemma free_count_pos:
  assumes "slab_rep m sz s" "slab_ok sz s" "16 \<le> sz"
  shows "0 < slab_FreeCount m (fst s) \<longleftrightarrow> snd s \<noteq> []"
proof -
  have "unat (word_of_nat (length (snd s)) :: u32) = length (snd s)"
    using free_count_bound [OF assms(2,3)] by (simp add: unsigned_of_nat take_bit_nat_eq_self)
  then show ?thesis using assms(1) by (simp add: slab_rep_def word_less_nat_alt)
qed

text \<open>The walk ends on every represented cache: at the first slab with a free object, or at the end.\<close>

lemma find_slab_spec:
  assumes "slabs_rep m sz a ss" "16 \<le> sz"
  shows "(find_slab m a = Some 0 \<and> (\<forall>s\<in>set ss. snd s = [])) \<or>
    (\<exists>us p x xs vs. find_slab m a = Some p \<and> p \<noteq> 0 \<and> ss = us @ (p, x # xs) # vs \<and> (\<forall>s\<in>set us. snd s = []))"
  using assms(1)
proof (induction ss arbitrary: a)
  case Nil
  then show ?case by (subst (1) find_slab.simps) simp
next
  case (Cons s ss)
  then have s: "a = fst s" "slab_ok sz s" "slab_rep m sz s" "fst s \<noteq> 0" by (simp_all add: slab_ok_def)
  show ?case
  proof (cases "snd s")
    case Nil
    then have "find_slab m a = find_slab m (slab_Next m a)"
      using free_count_pos [OF s(3,2) assms(2)] s by (subst find_slab.simps) simp
    moreover have "slabs_rep m sz (slab_Next m a) ss" using Cons.prems s by simp
    ultimately consider "find_slab m a = Some 0" "\<forall>s\<in>set ss. snd s = []"
      | us p x xs vs where "find_slab m a = Some p" "p \<noteq> 0" "ss = us @ (p, x # xs) # vs" "\<forall>s\<in>set us. snd s = []"
      using Cons.IH [of "slab_Next m a"] by metis
    then show ?thesis
    proof cases
      case 1
      then show ?thesis using Nil by simp
    next
      case (2 us p x xs vs)
      then show ?thesis using Nil
        by (intro disjI2 exI [of _ "s # us"] exI [of _ p] exI [of _ x] exI [of _ xs] exI [of _ vs]) simp
    qed
  next
    case (Cons x xs)
    then have "find_slab m a = Some a"
      using free_count_pos [OF s(3,2) assms(2)] s by (subst find_slab.simps) simp
    then show ?thesis using s Cons
      by (intro disjI2 exI [of _ "[]"] exI [of _ "fst s"] exI [of _ x] exI [of _ xs] exI [of _ ss]) (cases s, simp)
  qed
qed

lemma header_write_other:
  assumes "p mod 4096 = 0" "a \<notin> span p 32"
  shows "set_slab_Next p v m a = m a" "set_slab_FreeList p v m a = m a" "set_slab_ObjectSize p w m a = m a"
    "set_slab_FreeCount p w m a = m a" "set_slab_Magic p w m a = m a"
  using header_write_same [OF assms(1)] assms(2) by (simp_all add: same_on_def)

lemma init_slab_fields:
  assumes "p mod 4096 = 0"
  shows "slab_FreeCount (init_slab p sz m) p = 0" "slab_Magic (init_slab p sz m) p = SlabMagic"
    "slab_ObjectSize (init_slab p sz m) p = sz" "same_on (- span p 4096) m (init_slab p sz m)"
proof -
  show "slab_FreeCount (init_slab p sz m) p = 0" "slab_Magic (init_slab p sz m) p = SlabMagic"
    "slab_ObjectSize (init_slab p sz m) p = sz"
    by (simp_all add: init_slab_def Let_def slab_fields_other [OF assms])
  have "same_on (- span p 32) m (init_slab p sz m)"
    unfolding same_on_def
  proof
    fix a assume "a \<in> - span p 32"
    then have a: "a \<notin> span p 32" by simp
    show "init_slab p sz m a = m a" unfolding init_slab_def Let_def header_write_other [OF assms a] by (rule refl)
  qed
  then show "same_on (- span p 4096) m (init_slab p sz m)"
    by (rule same_on_subset) (use span_mono [of 32 4096 p] in auto)
qed

lemma AllocateSlab_none:
  assumes "pmm_inv (Pmm h)" "avail_addrs (Pmm h) = {}"
  shows "AllocateSlab sz h = Some (0, h)"
proof -
  obtain a Q where a: "AllocPage (Pmm h) = (a, Q)" by force
  then have "a = 0" using pmm.alloc_succeeds_iff [OF assms(1)] assms(2) by simp
  then show ?thesis using a pmm.alloc_none [OF assms(1)] by (simp add: AllocateSlab_def)
qed

lemma AllocateSlab_some:
  assumes inv: "pmm_inv (Pmm h)" "hhdm_ok (Pmm h)" and sz: "i < 8" and av: "avail_addrs (Pmm h) \<noteq> {}"
  obtains p a Q m where "AllocateSlab (word_of_nat (slab_sizes ! i)) h = Some (p, h\<lparr>Pmm := Q, Mem := m\<rparr>)"
    "AllocPage (Pmm h) = (a, Q)" "a \<noteq> 0" "p = PhysToVirt a (Pmm h)" "p \<noteq> 0" "p mod 4096 = 0"
    "slab_ok (slab_sizes ! i) (p, rev (slots p (slab_sizes ! i)))" "slab_rep m (slab_sizes ! i) (p, rev (slots p (slab_sizes ! i)))"
    "same_on (- span p 4096) (Mem h) m"
proof -
  let ?sz = "slab_sizes ! i"
  obtain a Q where a: "AllocPage (Pmm h) = (a, Q)" by force
  have a0: "a \<noteq> 0" using pmm.alloc_succeeds_iff [OF inv(1)] av a by simp
  define p where "p = PhysToVirt a (Pmm h)"
  have pq: "PhysToVirt a Q = p" using alloc_pmm_frame [OF inv(1) a] by (simp add: p_def PhysToVirt_def)
  have "a \<in> taken_addrs (Pmm h) \<union> avail_addrs (Pmm h)" using pmm.alloc_some [OF inv(1) a a0] by simp
  note p = direct_map [OF inv this a0, folded p_def]
  let ?m = "init_slab p (word_of_nat ?sz) (Mem h)"
  note f = init_slab_fields [OF p(1), where sz = "word_of_nat ?sz" and m = "Mem h"]
  have start: "slot p ?sz 0 = p + 32" by (simp add: slot_def)
  obtain q m where c: "carve p (word_of_nat ?sz) (p + 4096) (p + 32) 0 ?m = Some (q, m)"
    "chain m q (rev (slots p ?sz))" "slab_FreeCount m p = word_of_nat (per_slab ?sz)"
    "slab_Magic m p = SlabMagic" "slab_ObjectSize m p = word_of_nat ?sz" "same_on (- span p 4096) ?m m"
    using carve_spec [OF p(1,3), of ?sz 0 ?m 0] f sz start by auto
  define m' where "m' = set_slab_FreeList p q m"
  have ok: "slab_ok ?sz (p, rev (slots p ?sz))" using p sz distinct_slots [OF p(1)] by (simp add: slab_ok_def)
  have s: "same_on (- span p 32) m m'" unfolding m'_def by (rule header_write_same [OF p(1)])
  have rep: "slab_rep m' ?sz (p, rev (slots p ?sz))"
    using c chain_header [OF c(2) ok _ s] sz
    by (simp add: slab_rep_def m'_def slab_fields_other [OF p(1)]) (simp add: slots_def)
  have "same_on (- span p 4096) (Mem h) m'"
    using span_mono [of 32 4096 p]
    by (intro same_on_trans [OF f(4) same_on_trans [OF c(6) same_on_subset [OF s]]]) auto
  moreover have "AllocateSlab (word_of_nat ?sz) h = Some (p, h\<lparr>Pmm := Q, Mem := m'\<rparr>)"
    using a a0 c(1) ucast_size [OF sz] by (simp add: AllocateSlab_def pq m'_def Let_def)
  ultimately show ?thesis by (intro that [OF _ a a0 p_def p(2,1) ok rep])
qed

lemma heap_okD:
  assumes "heap_ok A h"
  shows "pmm_inv (Pmm h)" "hhdm_ok (Pmm h)" "cache_sizes_ok (KHeap h)" "caches_rep A (KHeap h) (Mem h)" "pages_taken A (Pmm h)"
  using assms by (simp_all add: heap_ok_def)

lemma cache_object_size: "cache_sizes_ok K \<Longrightarrow> i < 8 \<Longrightarrow> CacheObjectSize (Caches K ! i) = word_of_nat (slab_sizes ! i)"
  by (simp add: cache_sizes_ok_def)

lemma pages_taken_update:
  "A i = us @ (p, fs) # vs \<Longrightarrow> pages_taken A P \<Longrightarrow> pages_taken (A(i := us @ (p, gs) # vs)) P"
  unfolding pages_taken_def by (simp only: cache_pages_update [where A = A] simp_thms)

lemma live_spans_apart:
  assumes r: "caches_rep A K m" and s: "slot_at A x i s" and y: "(y, k) \<in> live_objects A" "(y, k) \<noteq> (x, slab_sizes ! i)"
  shows "span y k \<inter> (span (fst s) 32 \<union> span x (slab_sizes ! i)) = {}"
proof -
  obtain j t where t: "slot_at A y j t" "k = slab_sizes ! j" using y by (auto simp: live_slot_at)
  have "y \<noteq> x" using slot_at_unique [OF r s] t y(2) by blast
  then show ?thesis
    using slot_at_disjoint [OF r t(1) s] slot_at_header [OF r t(1) slot_atD(1,2) [OF r s]] t(2) by blast
qed

text \<open>Taking the first free object of a slab.\<close>

lemma take_object_ok:
  assumes h: "heap_ok A h" and i: "i < 8" and A: "A i = us @ (p, x # xs) # vs"
  obtains m where "take_object i p h = (x, h\<lparr>Mem := m\<rparr>)" "heap_ok (A(i := us @ (p, xs) # vs)) (h\<lparr>Mem := m\<rparr>)"
    "\<And>y k. (y, k) \<in> live_objects A \<Longrightarrow> same_on (span y k) (Mem h) m" "\<And>a. a \<in> span x (slab_sizes ! i) \<Longrightarrow> m a = 0" "x \<noteq> 0"
proof -
  note H = heap_okD [OF h]
  have in_A: "(p, x # xs) \<in> set (A i)" using A by simp
  note s = caches_rep_slab [OF H(4) i in_A]
  have x: "slot_at A x i (p, x # xs)" by (rule free_slot_at [OF H(4) i in_A]) simp
  have x0: "x \<noteq> 0" by (rule slot_atD(8) [OF H(4) x])
  have fl: "slab_FreeList (Mem h) p = x" using s(2) by (simp add: slab_rep_def)
  define m1 where "m1 = set_slab_FreeList p (obj_Next (Mem h) x) (Mem h)"
  define m2 where "m2 = zero_object x (word_of_nat (slab_sizes ! i)) (set_slab_FreeCount p (slab_FreeCount m1 p - 1) m1)"
  note pop = slab_pop [OF s(2,1) sizes_bounds(2,4) [OF i] m1_def m2_def]
  have page: "same_on (- span p 4096) (Mem h) m2"
    using slot_atD(9) [OF H(4) x] span_mono [of 32 4096 p] by (intro same_on_subset [OF pop(4)]) auto
  have "caches_rep (A(i := us @ (p, xs) # vs)) (KHeap h) m2"
    by (rule caches_rep_update [OF H(4) i A page pop(1,2,3)])
  then have "heap_ok (A(i := us @ (p, xs) # vs)) (h\<lparr>Mem := m2\<rparr>)"
    using H pages_taken_update [where A = A, OF A H(5)] by (simp add: heap_ok_def)
  moreover have "take_object i p h = (x, h\<lparr>Mem := m2\<rparr>)"
    using x0 cache_object_size [OF H(3) i] by (simp add: take_object_def fl m1_def m2_def Let_def)
  moreover have "same_on (span y k) (Mem h) m2" if y: "(y, k) \<in> live_objects A" for y k
  proof -
    have "(y, k) \<noteq> (x, slab_sizes ! i)" using live_pop(2) [where A = A, OF H(4) i A] y by blast
    then show ?thesis using live_spans_apart [OF H(4) x y] by (intro same_on_compl [OF pop(4)]) auto
  qed
  ultimately show ?thesis using that pop(5) x0 by blast
qed

text \<open>A fresh slab adds no live object and disturbs none.\<close>

lemma fresh_slab_live:
  assumes r: "caches_rep A K m" and i: "i < 8" and p: "p mod 4096 = 0" "\<And>j. j < 8 \<Longrightarrow> p \<notin> cache_pages A j"
  shows "live_objects (A(i := (p, rev (slots p (slab_sizes ! i))) # A i)) = live_objects A"
proof -
  let ?A = "A(i := (p, rev (slots p (slab_sizes ! i))) # A i)" and ?S = "set (slots p (slab_sizes ! i))"
  have "free_objects ?A = ?S \<union> free_objects A"
    using free_objects_at [OF i, of A] free_objects_at [OF i, of ?A] by auto
  moreover have "in_cache ?A x k \<longleftrightarrow> in_cache A x k \<or> (x \<in> ?S \<and> k = slab_sizes ! i)" for x k
    using i by (auto simp: in_cache_def cache_pages_def)
  moreover have "\<not> in_cache A x k" if x: "x \<in> ?S" for x k
  proof
    assume "in_cache A x k"
    then obtain j t where t: "slot_at A x j t" by (auto simp: in_cache_def cache_pages_def slot_at_def)
    have "fst t = p" using slot_atD(7) [OF r t] page_of_slot(1) [OF p(1) _ x] i by simp
    then show False using p(2) [of j] t by (auto simp: slot_at_def cache_pages_def)
  qed
  ultimately show ?thesis by (auto simp: live_objects_def)
qed

lemma fresh_page:
  assumes h: "heap_ok A h" and a: "AllocPage (Pmm h) = (a, Q)" "a \<noteq> 0" and j: "j < 8"
  shows "PhysToVirt a (Pmm h) \<notin> cache_pages A j"
proof
  assume "PhysToVirt a (Pmm h) \<in> cache_pages A j"
  then have "a \<in> taken_addrs (Pmm h)" using heap_okD(5) [OF h] j by (force simp: pages_taken_def)
  then show False using pmm.alloc_fresh [OF heap_okD(1) [OF h] a] by simp
qed

lemma push_slab_ok:
  assumes h: "heap_ok A h" and i: "i < 8" and a: "AllocPage (Pmm h) = (a, Q)" "a \<noteq> 0" and p: "p = PhysToVirt a (Pmm h)"
    and s: "slab_ok (slab_sizes ! i) (p, fs)" "slab_rep m (slab_sizes ! i) (p, fs)" and m: "same_on (- span p 4096) (Mem h) m"
  shows "heap_ok (A(i := (p, fs) # A i)) (push_slab i p (h\<lparr>Pmm := Q, Mem := m\<rparr>))"
    "same_on (- span p 4096) (Mem h) (Mem (push_slab i p (h\<lparr>Pmm := Q, Mem := m\<rparr>)))"
proof -
  note H = heap_okD [OF h]
  let ?m = "set_slab_Next p (Slabs (Caches (KHeap h) ! i)) m"
  have p0: "p mod 4096 = 0" using s by (simp add: slab_ok_def)
  have nx: "same_on (- span p 32) m ?m" by (rule header_write_same [OF p0])
  show same: "same_on (- span p 4096) (Mem h) (Mem (push_slab i p (h\<lparr>Pmm := Q, Mem := m\<rparr>)))"
    using span_mono [of 32 4096 p] same_on_trans [OF m same_on_subset [OF nx]] by (simp add: push_slab_def)
  have rep: "slab_rep ?m (slab_sizes ! i) (p, fs)"
    using s(2) chain_header [OF _ s(1) _ nx] i by (simp add: slab_rep_def slab_fields_other [OF p0])
  have len: "length (Caches (KHeap h)) = 8" using H(3) by (simp add: cache_sizes_ok_def)
  let ?K = "(KHeap h)\<lparr>Caches := (Caches (KHeap h))[i := (Caches (KHeap h) ! i)\<lparr>Slabs := p\<rparr>]\<rparr>"
  have "caches_rep (A(i := (p, fs) # A i)) ?K ?m"
    by (rule caches_rep_push [OF H(4) i len s(1) rep]) (use same fresh_page [OF h a] in \<open>simp_all add: push_slab_def p\<close>)
  moreover have "cache_sizes_ok ?K" using H(3) len i by (auto simp: cache_sizes_ok_def nth_list_update)
  moreover have "hhdm_ok Q" using H(2) alloc_pmm_frame [OF H(1) a(1)] by (simp add: hhdm_ok_def)
  moreover have "pages_taken (A(i := (p, fs) # A i)) Q"
    using H(5) pmm.alloc_some [OF H(1) a] alloc_pmm_frame [OF H(1) a(1)]
    by (auto simp: pages_taken_def cache_pages_def VirtToPhys_def p PhysToVirt_def)
  ultimately show "heap_ok (A(i := (p, fs) # A i)) (push_slab i p (h\<lparr>Pmm := Q, Mem := m\<rparr>))"
    using pmm.alloc_some [OF H(1) a] by (simp add: heap_ok_def push_slab_def)
qed

lemma rev_slots_cons: "i < 8 \<Longrightarrow> \<exists>x xs. rev (slots p (slab_sizes ! i)) = x # xs"
proof -
  assume "i < 8"
  moreover from this have "slab_sizes ! i \<le> 4064" by (rule le_trans [OF sizes_bounds(3)]) simp
  ultimately have "slots p (slab_sizes ! i) \<noteq> []" by (simp add: slots_def per_slab_def div_eq_0_iff not_less)
  then show ?thesis by (metis neq_Nil_conv rev_is_Nil_conv)
qed

text \<open>\<^verbatim>\<open>KMalloc\<close> of a request that a slab serves: null, and nothing changed, exactly when the cache has no free object and
  the page allocator no page; otherwise a new live object, cleared, with every other live object untouched.\<close>

lemma KMalloc_slab:
  assumes h: "heap_ok A h" and n: "n \<noteq> 0" "n \<le> 2048"
  obtains (full) "KMalloc n h = Some (0, h)" "avail_addrs (Pmm h) = {}" "\<forall>s\<in>set (A (cache_for n)). snd s = []"
  | (object) x h' A' where "KMalloc n h = Some (x, h')" "x \<noteq> 0" "heap_ok A' h'"
      "live_objects A' = insert (x, slab_sizes ! cache_for n) (live_objects A)"
      "(x, slab_sizes ! cache_for n) \<notin> live_objects A"
      "\<And>y k. (y, k) \<in> live_objects A \<Longrightarrow> same_on (span y k) (Mem h) (Mem h')"
      "\<And>a. a \<in> span x (slab_sizes ! cache_for n) \<Longrightarrow> Mem h' a = 0"
proof -
  let ?i = "cache_for n"
  note H = heap_okD [OF h] and i = cache_for(1) [OF n(2)]
  have gc: "GetSlabCache n (KHeap h) = Some ?i" by (rule GetSlabCache_class [OF H(3) n(2)])
  have n': "\<not> 2048 < n" using n by simp
  have sr: "slabs_rep (Mem h) (slab_sizes ! ?i) (Slabs (Caches (KHeap h) ! ?i)) (A ?i)" using H(4) i by (simp add: caches_rep_def)
  consider (none) "find_slab (Mem h) (Slabs (Caches (KHeap h) ! ?i)) = Some 0" "\<forall>s\<in>set (A ?i). snd s = []"
    | (slab) us p x xs vs where "find_slab (Mem h) (Slabs (Caches (KHeap h) ! ?i)) = Some p" "p \<noteq> 0" "A ?i = us @ (p, x # xs) # vs"
    using find_slab_spec [OF sr sizes_bounds(1) [OF i]] by metis
  then show ?thesis
  proof cases
    case slab
    obtain m where m: "take_object ?i p h = (x, h\<lparr>Mem := m\<rparr>)" "heap_ok (A(?i := us @ (p, xs) # vs)) (h\<lparr>Mem := m\<rparr>)"
      "\<And>y k. (y, k) \<in> live_objects A \<Longrightarrow> same_on (span y k) (Mem h) m" "\<And>a. a \<in> span x (slab_sizes ! ?i) \<Longrightarrow> m a = 0" "x \<noteq> 0"
      using take_object_ok [OF h i slab(3)] by blast
    have "KMalloc n h = Some (x, h\<lparr>Mem := m\<rparr>)" using n n' gc slab m(1) by (simp add: KMalloc_def)
    then show ?thesis using object [OF _ m(5,2) live_pop [where A = A, OF H(4) i slab(3)]] m(3,4) by simp
  next
    case none
    have km: "KMalloc n h = (case AllocateSlab (word_of_nat (slab_sizes ! ?i)) h of None \<Rightarrow> None
      | Some (S, h) \<Rightarrow> if S = 0 then Some (0, h) else Some (take_object ?i S (push_slab ?i S h)))"
      using n n' gc none cache_object_size [OF H(3) i] by (simp add: KMalloc_def)
    show ?thesis
    proof (cases "avail_addrs (Pmm h) = {}")
      case True
      then show ?thesis using full km AllocateSlab_none [OF H(1) True] none(2) by simp
    next
      case False
      obtain p a Q m where s: "AllocateSlab (word_of_nat (slab_sizes ! ?i)) h = Some (p, h\<lparr>Pmm := Q, Mem := m\<rparr>)"
        "AllocPage (Pmm h) = (a, Q)" "a \<noteq> 0" "p = PhysToVirt a (Pmm h)" "p \<noteq> 0" "p mod 4096 = 0"
        "slab_ok (slab_sizes ! ?i) (p, rev (slots p (slab_sizes ! ?i)))"
        "slab_rep m (slab_sizes ! ?i) (p, rev (slots p (slab_sizes ! ?i)))" "same_on (- span p 4096) (Mem h) m"
        by (rule AllocateSlab_some [OF H(1,2) i False])
      let ?A = "A(?i := (p, rev (slots p (slab_sizes ! ?i))) # A ?i)" and ?h = "push_slab ?i p (h\<lparr>Pmm := Q, Mem := m\<rparr>)"
      note P = push_slab_ok [OF h i s(2,3,4,7,8,9)]
      have fp: "\<And>j. j < 8 \<Longrightarrow> p \<notin> cache_pages A j" using fresh_page [OF h s(2,3)] s(4) by simp
      have L: "live_objects ?A = live_objects A" by (rule fresh_slab_live [OF H(4) i s(6)]) (rule fp)
      obtain x xs where x: "rev (slots p (slab_sizes ! ?i)) = x # xs" using rev_slots_cons [OF i] by blast
      have Ai: "?A ?i = [] @ (p, x # xs) # A ?i" using x by simp
      obtain m' where t: "take_object ?i p ?h = (x, ?h\<lparr>Mem := m'\<rparr>)" "heap_ok (?A(?i := [] @ (p, xs) # A ?i)) (?h\<lparr>Mem := m'\<rparr>)"
        "\<And>y k. (y, k) \<in> live_objects ?A \<Longrightarrow> same_on (span y k) (Mem ?h) m'" "\<And>a. a \<in> span x (slab_sizes ! ?i) \<Longrightarrow> m' a = 0" "x \<noteq> 0"
        using take_object_ok [where A = ?A, OF P(1) i Ai] by blast
      have "same_on (span y k) (Mem h) (Mem (?h\<lparr>Mem := m'\<rparr>))" if y: "(y, k) \<in> live_objects A" for y k
      proof -
        obtain j u where u: "slot_at A y j u" "k = slab_sizes ! j" using y by (auto simp: live_slot_at)
        have "p \<noteq> fst u" using fp [of j] u by (auto simp: slot_at_def cache_pages_def)
        then have "same_on (span y k) (Mem h) (Mem ?h)" unfolding u(2)
          by (rule same_on_subset [OF page_untouched [OF s(6) slot_atD(4) [OF H(4) u(1)] _ P(2)] slot_atD(9) [OF H(4) u(1)]])
        then show ?thesis using same_on_trans t(3) [unfolded L, OF y] by simp
      qed
      moreover have "KMalloc n h = Some (x, ?h\<lparr>Mem := m'\<rparr>)" using km s(1,5) t(1) by simp
      ultimately show ?thesis
        using object [OF _ t(5,2) live_pop [where A = ?A, OF heap_okD(4) [OF P(1)] i Ai, unfolded L]] t(4) by simp
    qed
  qed
qed

lemma KFree_live:
  assumes h: "heap_ok A h" and x: "(x, k) \<in> live_objects A"
  obtains A' where "heap_ok A' (KFree x h)" "live_objects A' = live_objects A - {(x, k)}"
    "\<forall>y l. (y, l) \<in> live_objects A - {(x, k)} \<longrightarrow> same_on (span y l) (Mem h) (Mem (KFree x h))"
    "Pmm (KFree x h) = Pmm h"
proof -
  note H = heap_okD [OF h]
  obtain i s where s: "slot_at A x i s" "k = slab_sizes ! i" "x \<notin> free_objects A" using x by (auto simp: live_slot_at)
  obtain p fs where s_eq: "s = (p, fs)" by force
  note D = slot_atD [OF H(4) s(1), unfolded s_eq fst_conv] and i = slot_atD(1) [OF H(4) s(1)]
  obtain us vs where A: "A i = us @ (p, fs) # vs" using split_list [OF D(2)] by blast
  have fs: "x \<notin> set fs" using s(3) D(2) i by (force simp: free_objects_def)
  have magic: "slab_Magic (Mem h) p = SlabMagic" using D(6) by (simp add: slab_rep_def)
  define m1 where "m1 = set_slab_FreeList p x (set_obj x (slab_FreeList (Mem h) p) FreeObjectMagic (Mem h))"
  define m2 where "m2 = set_slab_FreeCount p (slab_FreeCount m1 p + 1) m1"
  note push = slab_push [OF D(6,5) sizes_bounds(1,4) [OF i] D(3) fs D(8) m1_def m2_def]
  have kf: "KFree x h = h\<lparr>Mem := m2\<rparr>"
    using D(7,8) magic by (simp add: KFree_def Let_def m1_def m2_def)
  have page: "same_on (- span p 4096) (Mem h) m2"
    using D(9) span_mono [of 32 4096 p] by (intro same_on_subset [OF push(4)]) auto
  have "caches_rep (A(i := us @ (p, x # fs) # vs)) (KHeap h) m2"
    by (rule caches_rep_update [OF H(4) i A page push(1,2,3)])
  then have "heap_ok (A(i := us @ (p, x # fs) # vs)) (KFree x h)"
    using H pages_taken_update [where A = A, OF A H(5)] by (simp add: heap_ok_def kf)
  moreover have "same_on (span y l) (Mem h) (Mem (KFree x h))" if y: "(y, l) \<in> live_objects A - {(x, k)}" for y l
  proof -
    have "span y l \<inter> (span p 32 \<union> span x (slab_sizes ! i)) = {}"
      using live_spans_apart [OF H(4) s(1), of y l] y s(2) by (simp add: s_eq)
    then show ?thesis unfolding kf using same_on_compl [OF push(4)] by simp
  qed
  ultimately show ?thesis
    using that live_push [where A = A, OF H(4) i A D(3)] s(2) kf by simp
qed

text \<open>What a client writes into its own object, or outside the slabs, does not disturb the heap.\<close>

lemma poke_live:
  assumes h: "heap_ok A h" and x: "(x, k) \<in> live_objects A" "a \<in> span x k"
  shows "heap_ok A (h\<lparr>Mem := (Mem h)(a := b)\<rparr>)"
proof -
  note H = heap_okD [OF h]
  obtain i s where s: "slot_at A x i s" "k = slab_sizes ! i" "x \<notin> free_objects A" using x by (auto simp: live_slot_at)
  obtain p fs where s_eq: "s = (p, fs)" by force
  note D = slot_atD [OF H(4) s(1), unfolded s_eq fst_conv] and i = slot_atD(1) [OF H(4) s(1)]
  obtain us vs where A: "A i = us @ (p, fs) # vs" using split_list [OF D(2)] by blast
  have fs: "x \<notin> set fs" using s(3) D(2) i by (force simp: free_objects_def)
  let ?m = "(Mem h)(a := b)"
  have m: "same_on (- span x (slab_sizes ! i)) (Mem h) ?m" "same_on (- span p 4096) (Mem h) ?m"
    using x(2) D(9) s(2) by (auto simp: same_on_def)
  have "caches_rep (A(i := us @ (p, fs) # vs)) (KHeap h) ?m"
    by (rule caches_rep_update [OF H(4) i A m(2) slab_rep_slot(1) [OF D(6,5) _ D(3) fs m(1)] D(5) slab_rep_slot(2) [OF D(6,5) _ D(3) fs m(1)]])
      (use i in simp_all)
  then show ?thesis using H A [symmetric] by (simp add: heap_ok_def fun_upd_idem)
qed

lemma InitializeKHeap_caches:
  assumes "length (Caches (KHeap h)) = 8"
  shows "KHeap (InitializeKHeap h) =
    \<lparr>Caches = map (\<lambda>n. \<lparr>Slabs = 0, CacheObjectSize = word_of_nat n, ObjectsPerSlab = word_of_nat (per_slab n)\<rparr>) slab_sizes,
     SlabSizes = map word_of_nat slab_sizes, CacheCount = 8\<rparr>"
proof -
  obtain c0 c1 c2 c3 c4 c5 c6 c7 where c: "Caches (KHeap h) = [c0, c1, c2, c3, c4, c5, c6, c7]"
    using assms by (auto simp: length_Suc_conv numeral_eq_Suc)
  show ?thesis
    by (simp add: InitializeKHeap_def Let_def for_range.simps c slab_sizes_def per_slab_def)
qed

lemma InitializeKHeap_ok:
  assumes "pmm_inv (Pmm h)" "hhdm_ok (Pmm h)" "length (Caches (KHeap h)) = 8"
  shows "heap_ok (\<lambda>_. []) (InitializeKHeap h)"
proof -
  have "Caches (KHeap (InitializeKHeap h)) ! i = \<lparr>Slabs = 0, CacheObjectSize = word_of_nat (slab_sizes ! i),
    ObjectsPerSlab = word_of_nat (per_slab (slab_sizes ! i))\<rparr>" if "i < 8" for i
    using that by (simp add: InitializeKHeap_caches [OF assms(3)] length_sizes)
  moreover have "Pmm (InitializeKHeap h) = Pmm h" by (simp add: InitializeKHeap_def Let_def)
  ultimately show ?thesis using assms
    by (simp add: heap_ok_def cache_sizes_ok_def caches_rep_def pages_taken_def cache_pages_def)
       (simp add: InitializeKHeap_caches length_sizes)
qed

section \<open>Memory determines the heap\<close>

lemma chain_unique: "chain m a xs \<Longrightarrow> chain m a ys \<Longrightarrow> xs = ys"
proof (induction xs arbitrary: a ys)
  case Nil
  then show ?case by (cases ys) auto
next
  case (Cons x xs)
  then show ?case by (cases ys) auto
qed

lemma slabs_rep_unique: "slabs_rep m sz a ss \<Longrightarrow> slabs_rep m sz a ts \<Longrightarrow> ss = ts"
proof (induction ss arbitrary: a ts)
  case Nil
  then show ?case by (cases ts) (auto simp: slab_ok_def)
next
  case (Cons s ss)
  then obtain t ts' where ts: "ts = t # ts'" by (cases ts) (auto simp: slab_ok_def)
  then have "fst s = fst t" "snd s = snd t" "ss = ts'"
    using Cons by (auto simp: slab_rep_def intro: chain_unique)
  then show ?case using ts by (simp add: prod_eq_iff)
qed

lemma heap_ok_unique:
  assumes "heap_ok A h" "heap_ok B h"
  shows "live_objects A = live_objects B"
proof -
  have eq: "A i = B i" if "i < 8" for i
    using heap_okD(4) [OF assms(1)] heap_okD(4) [OF assms(2)] that slabs_rep_unique by (auto simp: caches_rep_def)
  have "free_objects A = free_objects B" by (simp add: free_objects_def eq)
  moreover have "cache_pages A i = cache_pages B i" if "i < 8" for i using eq [OF that] by (simp add: cache_pages_def)
  then have "in_cache A x k = in_cache B x k" for x k unfolding in_cache_def by blast
  ultimately show ?thesis by (simp add: live_objects_def)
qed

definition heap_inv :: "kmem \<Rightarrow> bool" where
  "heap_inv h \<longleftrightarrow> (\<exists>A. heap_ok A h)"

text \<open>The blocks in use: every slab object that is on no free list.\<close>

definition live_blocks :: "kmem \<Rightarrow> (u64 \<times> nat) set" where
  "live_blocks h = {b. \<exists>A. heap_ok A h \<and> b \<in> live_objects A}"

lemma live_blocks_eq: "heap_ok A h \<Longrightarrow> live_blocks h = live_objects A"
  unfolding live_blocks_def using heap_ok_unique by blast

section \<open>The contract of a heap\<close>

text \<open>What the rest of the kernel relies on: blocks in use never overlap, a new block is disjoint from them and
  cleared, and neither allocation nor release nor a write into one block changes the bytes of another.\<close>

locale object_heap =
  fixes alloc :: "u64 \<Rightarrow> 's \<Rightarrow> (u64 \<times> 's) option"
    and release :: "u64 \<Rightarrow> 's \<Rightarrow> 's"
    and poke :: "u64 \<Rightarrow> u8 \<Rightarrow> 's \<Rightarrow> 's"
    and bytes :: "'s \<Rightarrow> memory"
    and live :: "'s \<Rightarrow> (u64 \<times> nat) set"
    and invar :: "'s \<Rightarrow> bool"
  assumes alloc_block: "invar s \<Longrightarrow> n \<noteq> 0 \<Longrightarrow> n \<le> 2048 \<Longrightarrow>
      alloc n s = Some (0, s) \<or>
      (\<exists>p k t. alloc n s = Some (p, t) \<and> p \<noteq> 0 \<and> invar t \<and> unat n \<le> k \<and> (p, k) \<notin> live s \<and>
         live t = insert (p, k) (live s) \<and> (\<forall>a\<in>span p k. bytes t a = 0) \<and>
         (\<forall>q l. (q, l) \<in> live s \<longrightarrow> same_on (span q l) (bytes s) (bytes t)))"
    and release_block: "invar s \<Longrightarrow> (p, k) \<in> live s \<Longrightarrow>
      invar (release p s) \<and> live (release p s) = live s - {(p, k)} \<and>
      (\<forall>q l. (q, l) \<in> live s - {(p, k)} \<longrightarrow> same_on (span q l) (bytes s) (bytes (release p s)))"
    and poke_block: "invar s \<Longrightarrow> (p, k) \<in> live s \<Longrightarrow> a \<in> span p k \<Longrightarrow>
      invar (poke a b s) \<and> live (poke a b s) = live s \<and> bytes (poke a b s) = (bytes s)(a := b)"
    and blocks_disjoint: "invar s \<Longrightarrow> (p, k) \<in> live s \<Longrightarrow> (q, l) \<in> live s \<Longrightarrow> (p, k) \<noteq> (q, l) \<Longrightarrow> span p k \<inter> span q l = {}"

text \<open>What other users of the heap may do while one block is held: allocate, release any other block, write into
  any other block.\<close>

inductive others ::
  "(u64 \<Rightarrow> 's \<Rightarrow> (u64 \<times> 's) option) \<Rightarrow> (u64 \<Rightarrow> 's \<Rightarrow> 's) \<Rightarrow> (u64 \<Rightarrow> u8 \<Rightarrow> 's \<Rightarrow> 's) \<Rightarrow> ('s \<Rightarrow> (u64 \<times> nat) set) \<Rightarrow>
   u64 \<times> nat \<Rightarrow> 's \<Rightarrow> 's \<Rightarrow> bool"
  for alloc :: "u64 \<Rightarrow> 's \<Rightarrow> (u64 \<times> 's) option" and release :: "u64 \<Rightarrow> 's \<Rightarrow> 's" and poke :: "u64 \<Rightarrow> u8 \<Rightarrow> 's \<Rightarrow> 's"
    and live :: "'s \<Rightarrow> (u64 \<times> nat) set" and held :: "u64 \<times> nat"
where
  idle: "others alloc release poke live held s s"
| allocs: "others alloc release poke live held s t \<Longrightarrow> n \<noteq> 0 \<Longrightarrow> n \<le> 2048 \<Longrightarrow> alloc n t = Some (p, u) \<Longrightarrow>
     others alloc release poke live held s u"
| releases: "others alloc release poke live held s t \<Longrightarrow> (q, l) \<in> live t \<Longrightarrow> (q, l) \<noteq> held \<Longrightarrow>
     others alloc release poke live held s (release q t)"
| pokes: "others alloc release poke live held s t \<Longrightarrow> (q, l) \<in> live t \<Longrightarrow> (q, l) \<noteq> held \<Longrightarrow> a \<in> span q l \<Longrightarrow>
     others alloc release poke live held s (poke a b t)"

context object_heap
begin

lemma alloc_disjoint:
  assumes "invar s" "n \<noteq> 0" "n \<le> 2048" "alloc n s = Some (p, t)" "p \<noteq> 0" "(q, l) \<in> live s"
  shows "\<exists>k. unat n \<le> k \<and> (p, k) \<in> live t \<and> span p k \<inter> span q l = {}"
proof -
  obtain k where k: "invar t" "unat n \<le> k" "(p, k) \<notin> live s" "live t = insert (p, k) (live s)"
    using alloc_block [OF assms(1-3)] assms(4,5) by auto
  then have "(p, k) \<noteq> (q, l)" using assms(6) by blast
  then show ?thesis using blocks_disjoint [OF k(1), of p k q l] k assms(6) by auto
qed

text \<open>A held block stays in use and keeps its bytes, whatever the others do.\<close>

lemma held_block_kept:
  assumes "others alloc release poke live (p, k) s t" "invar s" "(p, k) \<in> live s"
  shows "invar t \<and> (p, k) \<in> live t \<and> same_on (span p k) (bytes s) (bytes t)"
  using assms
proof (induction rule: others.induct)
  case (idle s)
  then show ?case by simp
next
  case (allocs s t n q u)
  then have t: "invar t" "(p, k) \<in> live t" "same_on (span p k) (bytes s) (bytes t)" by simp_all
  show ?case using alloc_block [OF t(1) allocs(2,3)] allocs(4) t by (auto intro: same_on_trans)
next
  case (releases s t q l)
  then have t: "invar t" "(p, k) \<in> live t" "same_on (span p k) (bytes s) (bytes t)" by simp_all
  show ?case using release_block [OF t(1) releases(2)] releases(3) t by (auto intro: same_on_trans)
next
  case (pokes s t q l a b)
  then have t: "invar t" "(p, k) \<in> live t" "same_on (span p k) (bytes s) (bytes t)" by simp_all
  have "a \<notin> span p k" using blocks_disjoint [OF t(1) pokes(2) t(2) pokes(3)] pokes(4) by blast
  then show ?case using poke_block [OF t(1) pokes(2,4), of b] t by (auto simp: same_on_def)
qed

end

definition kpoke :: "u64 \<Rightarrow> u8 \<Rightarrow> kmem \<Rightarrow> kmem" where
  "kpoke a b h = h\<lparr>Mem := (Mem h)(a := b)\<rparr>"

interpretation kheap: object_heap KMalloc KFree kpoke Mem live_blocks heap_inv
proof
  fix s and n :: u64 assume "heap_inv s" and n: "n \<noteq> 0" "n \<le> 2048"
  then obtain A where A: "heap_ok A s" by (auto simp: heap_inv_def)
  show "KMalloc n s = Some (0, s) \<or>
    (\<exists>p k t. KMalloc n s = Some (p, t) \<and> p \<noteq> 0 \<and> heap_inv t \<and> unat n \<le> k \<and> (p, k) \<notin> live_blocks s \<and>
       live_blocks t = insert (p, k) (live_blocks s) \<and> (\<forall>a\<in>span p k. Mem t a = 0) \<and>
       (\<forall>q l. (q, l) \<in> live_blocks s \<longrightarrow> same_on (span q l) (Mem s) (Mem t)))"
    using A n
  proof (cases rule: KMalloc_slab)
    case (object x h' A')
    then show ?thesis using live_blocks_eq [OF A] live_blocks_eq [OF object(3)] cache_for(2) [OF n(2)]
      by (intro disjI2 exI [of _ x] exI [of _ "slab_sizes ! cache_for n"] exI [of _ h']) (auto simp: heap_inv_def)
  qed simp
next
  fix s p k assume "heap_inv s" and p: "(p, k) \<in> live_blocks s"
  then obtain A where A: "heap_ok A s" by (auto simp: heap_inv_def)
  have x: "(p, k) \<in> live_objects A" using p live_blocks_eq [OF A] by simp
  obtain B where "heap_ok B (KFree p s)" "live_objects B = live_objects A - {(p, k)}"
    "\<forall>y l. (y, l) \<in> live_objects A - {(p, k)} \<longrightarrow> same_on (span y l) (Mem s) (Mem (KFree p s))" "Pmm (KFree p s) = Pmm s"
    by (rule KFree_live [OF A x])
  then show "heap_inv (KFree p s) \<and> live_blocks (KFree p s) = live_blocks s - {(p, k)} \<and>
    (\<forall>q l. (q, l) \<in> live_blocks s - {(p, k)} \<longrightarrow> same_on (span q l) (Mem s) (Mem (KFree p s)))"
    using live_blocks_eq [OF A] live_blocks_eq [of B "KFree p s"] by (auto simp: heap_inv_def)
next
  fix s p k a b assume "heap_inv s" and p: "(p, k) \<in> live_blocks s" "a \<in> span p k"
  then obtain A where A: "heap_ok A s" by (auto simp: heap_inv_def)
  have "heap_ok A (kpoke a b s)" unfolding kpoke_def
    using p live_blocks_eq [OF A] by (intro poke_live [OF A, of p k]) simp_all
  then show "heap_inv (kpoke a b s) \<and> live_blocks (kpoke a b s) = live_blocks s \<and> Mem (kpoke a b s) = (Mem s)(a := b)"
    using live_blocks_eq [OF A] live_blocks_eq [of A "kpoke a b s"] by (auto simp: heap_inv_def kpoke_def)
next
  fix s p k q l assume "heap_inv s" and pq: "(p, k) \<in> live_blocks s" "(q, l) \<in> live_blocks s" "(p, k) \<noteq> (q, l)"
  then obtain A where A: "heap_ok A s" by (auto simp: heap_inv_def)
  show "span p k \<inter> span q l = {}"
    using pq live_blocks_eq [OF A] by (intro live_objects_disjoint [OF heap_okD(4) [OF A]]) simp_all
qed

section \<open>Large blocks\<close>

lemma KMalloc_large:
  assumes "2048 < n" "KMalloc n h = Some (p, t)" "p \<noteq> 0"
  shows "\<exists>a. AllocPages ((n + 4096 - 1) div 4096) (Pmm h) = (a, Pmm t) \<and> a \<noteq> 0 \<and> p = PhysToVirt a (Pmm t) \<and> t = h\<lparr>Pmm := Pmm t\<rparr>"
proof -
  have "n \<noteq> 0" using assms(1) by auto
  then show ?thesis using assms by (auto simp: KMalloc_def Let_def split: prod.splits if_splits)
qed

lemma unat_pages_for:
  assumes "unat n + 4096 \<le> 2 ^ 64"
  shows "unat ((n + 4096 - 1) div (4096 :: u64)) = (unat n + 4095) div 4096"
proof -
  have "n + 4096 - 1 = n + 4095" by simp
  moreover have "unat (n + 4095) = unat n + 4095" using assms by (subst unat_add_small) simp_all
  ultimately have "unat ((n + 4096 - 1) div (4096 :: u64)) = (unat n + 4095) div unat (4096 :: u64)" by (simp only: unat_div)
  then show ?thesis by simp
qed

lemma mod_wrap: "u < N \<Longrightarrow> N < u + 4096 \<Longrightarrow> 4096 \<le> N \<Longrightarrow> (u + 4095) mod N < (4096 :: nat)"
  using le_mod_geq [of N "u + 4095"] mod_less [of "u + 4095 - N" N] by linarith

lemma pages_for_wrap:
  assumes "2 ^ 64 < unat n + 4096"
  shows "(n + 4096 - 1) div (4096 :: u64) = 0"
proof -
  have "unat n < 2 ^ 64" using unsigned_less [where 'a = nat, of n] by simp
  then have "(unat n + 4095) mod 2 ^ 64 < 4096" using assms by (intro mod_wrap) simp_all
  then have "unat (n + 4095) < 4096" by (simp add: unat_word_ariths)
  moreover have "n + 4096 - 1 = n + 4095" by simp
  ultimately have "unat ((n + 4096 - 1) div 4096) = 0" by (simp only: unat_div) simp
  then show ?thesis by (simp only: unsigned_eq_0_iff)
qed

lemma KMalloc_succeeds:
  assumes "heap_inv h" "n \<noteq> 0" "n \<le> 2048" "avail_addrs (Pmm h) \<noteq> {}"
  obtains p k t where "KMalloc n h = Some (p, t)" "p \<noteq> 0" "heap_inv t" "unat n \<le> k" "live_blocks t = insert (p, k) (live_blocks h)"
proof -
  obtain A where A: "heap_ok A h" using assms(1) by (auto simp: heap_inv_def)
  show ?thesis using A assms(2,3)
  proof (cases rule: KMalloc_slab)
    case (object x h' B)
    have "heap_inv h'" using object(3) by (auto simp: heap_inv_def)
    then show ?thesis
      using object(4) that [OF object(1,2) _ cache_for(2) [OF assms(3)]] live_blocks_eq [OF A] live_blocks_eq [OF object(3)]
      by simp
  qed (use assms in simp)
qed

section \<open>A started heap\<close>

definition demo_kmem :: kmem where
  "demo_kmem = InitializeKHeap
     \<lparr>KHeap = \<lparr>Caches = replicate 8 \<lparr>Slabs = 0, CacheObjectSize = 0, ObjectsPerSlab = 0\<rparr>,
               SlabSizes = replicate 8 0, CacheCount = 0\<rparr>, Pmm = demo_pmm, Mem = (\<lambda>_. 0)\<rparr>"

lemma demo_hhdm_ok: "hhdm_ok demo_pmm"
  proof -
  have "HhdmOffset demo_pmm = 0xFFFF800000000000" by code_simp
  then show ?thesis by (simp add: hhdm_ok_def demo_pmm_eval)
qed

lemma demo_kmem_ok: "heap_ok (\<lambda>_. []) demo_kmem" "Pmm demo_kmem = demo_pmm"
  unfolding demo_kmem_def
  by (rule InitializeKHeap_ok) (simp_all add: demo_pmm_inv demo_hhdm_ok InitializeKHeap_def Let_def)

lemma demo_kmem_facts: "heap_inv demo_kmem" "live_blocks demo_kmem = {}" "avail_addrs (Pmm demo_kmem) \<noteq> {}"
proof -
  show "heap_inv demo_kmem" using demo_kmem_ok(1) by (auto simp: heap_inv_def)
  show "live_blocks demo_kmem = {}"
    by (simp add: live_blocks_eq [OF demo_kmem_ok(1)] live_objects_def in_cache_def cache_pages_def)
  show "avail_addrs (Pmm demo_kmem) \<noteq> {}" by (simp add: demo_kmem_ok(2) avail_addrs_def demo_free_pages)
qed

section \<open>Properties\<close>

text \<open>C2: \<^verbatim>\<open>KMalloc\<close> of 1 to 2048 bytes always returns. It returns null and changes nothing only when the page
  allocator is empty; otherwise the result is a block of at least the requested size that was not in use, every
  byte of it is zero, it overlaps no block in use, no byte of those changes, and exactly this block is added to the
  blocks in use. The heap's invariant (linked slabs and free lists in memory, counters, magic numbers) is kept.\<close>

theorem KMalloc_correct:
  assumes "heap_inv h" "n \<noteq> 0" "n \<le> 2048"
  shows "\<exists>p t. KMalloc n h = Some (p, t) \<and> heap_inv t \<and>
    (p = 0 \<and> t = h \<and> avail_addrs (Pmm h) = {} \<or>
     p \<noteq> 0 \<and> (\<exists>k\<ge>unat n. (p, k) \<notin> live_blocks h \<and> live_blocks t = insert (p, k) (live_blocks h) \<and>
       (\<forall>a\<in>span p k. Mem t a = 0) \<and>
       (\<forall>q l. (q, l) \<in> live_blocks h \<longrightarrow> span p k \<inter> span q l = {} \<and> (\<forall>a\<in>span q l. Mem t a = Mem h a))))"
proof -
  obtain A where A: "heap_ok A h" using assms(1) by (auto simp: heap_inv_def)
  show ?thesis using A assms(2,3)
  proof (cases rule: KMalloc_slab)
    case full
    then show ?thesis using assms(1) by simp
  next
    case (object x h' B)
    let ?k = "slab_sizes ! cache_for n"
    have inv: "heap_inv h'" using object(3) by (auto simp: heap_inv_def)
    note L = live_blocks_eq [OF A] live_blocks_eq [OF object(3)]
    have "span x ?k \<inter> span q l = {}" if "(q, l) \<in> live_blocks h" for q l
      using kheap.blocks_disjoint [OF inv, of x ?k q l] object(4,5) that L by auto
    then show ?thesis
      using object inv L cache_for(2) [OF assms(3)]
      by (intro exI [of _ x] exI [of _ h'] conjI disjI2 exI [of _ ?k]) (auto simp: same_on_def)
  qed
qed

theorem KMalloc_correct_witness:
  "\<exists>p t. KMalloc 24 demo_kmem = Some (p, t) \<and> p \<noteq> 0 \<and> heap_inv t"
  using KMalloc_correct [OF demo_kmem_facts(1), of 24] demo_kmem_facts(3) by auto

text \<open>C7: isolation. While a block is held, other users of the heap may allocate blocks of up to 2048 bytes, write
  into the blocks they hold and free them, in any order and number: the held block stays in use, the invariant
  holds, and every byte of the block is what its owner left there.\<close>

theorem heap_isolation:
  assumes "heap_inv h" "(p, k) \<in> live_blocks h" "others KMalloc KFree kpoke live_blocks (p, k) h t"
  shows "heap_inv t \<and> (p, k) \<in> live_blocks t \<and> (\<forall>a\<in>span p k. Mem t a = Mem h a)"
  using kheap.held_block_kept [OF assms(3,1,2)] by (simp add: same_on_def)

theorem heap_isolation_witness:
  "\<exists>p h q t u. KMalloc 24 demo_kmem = Some (p, h) \<and> KMalloc 100 (kpoke p 7 h) = Some (q, t) \<and>
     u = KFree q t \<and> Mem u p = 7 \<and> heap_inv u"
proof -
  obtain p k h where q: "KMalloc 24 demo_kmem = Some (p, h)" "p \<noteq> 0" "heap_inv h" "unat (24 :: u64) \<le> k"
    "live_blocks h = insert (p, k) (live_blocks demo_kmem)"
    by (rule KMalloc_succeeds [OF demo_kmem_facts(1) _ _ demo_kmem_facts(3), of 24]) simp_all
  then have p: "KMalloc 24 demo_kmem = Some (p, h)" "p \<noteq> 0" "heap_inv h" "24 \<le> k" "live_blocks h = {(p, k)}"
    using demo_kmem_facts(2) by simp_all
  have pk: "p \<in> span p k" using p(4) unfolding span_def by (intro image_eqI [of _ _ 0]) simp_all
  let ?h = "kpoke p 7 h"
  have h: "heap_inv ?h" "live_blocks ?h = {(p, k)}" "Mem ?h p = 7"
    using kheap.poke_block [OF p(3) _ pk, of 7] p(5) by auto
  consider (full) "KMalloc 100 ?h = Some (0, ?h)" | (block) q l t where "KMalloc 100 ?h = Some (q, t)" "heap_inv t"
      "(q, l) \<notin> live_blocks ?h" "live_blocks t = insert (q, l) (live_blocks ?h)" "q \<noteq> 0"
    using kheap.alloc_block [OF h(1), of 100] by auto
  then show ?thesis
  proof cases
    case full
    have "KFree 0 ?h = ?h" by (simp add: KFree_def)
    then show ?thesis using full p h by auto
  next
    case block
    have "others KMalloc KFree kpoke live_blocks (p, k) ?h (KFree q t)"
      by (rule others.releases [where l = l], rule others.allocs [OF others.idle]) (use block h in auto)
    then show ?thesis using heap_isolation [OF h(1) _ , of p k "KFree q t"] h p block(1) pk by auto
  qed
qed

text \<open>C27: what \<^verbatim>\<open>KFree\<close> does to a block above 2048 bytes. \<^verbatim>\<open>KMalloc\<close> takes \<open>(n + 4095) div 4096\<close> pages for it, but
  \<^verbatim>\<open>KFree\<close> gives back one, so all other pages stay used for good. And when the four bytes that the owner left at offset
  24 read as the slab magic, \<^verbatim>\<open>KFree\<close> takes the block for a slab object and gives back none.\<close>

theorem KFree_large_leaks:
  assumes "pmm_inv (Pmm h)" "hhdm_ok (Pmm h)" "2048 < n" "KMalloc n h = Some (p, t)" "p \<noteq> 0"
  shows "card (used_pages (Pmm t)) = card (used_pages (Pmm h)) + (unat n + 4095) div 4096 \<and>
    card (used_pages (Pmm (KFree p (t\<lparr>Mem := m\<rparr>)))) =
      (if slab_Magic m p = SlabMagic then card (used_pages (Pmm t)) else card (used_pages (Pmm t)) - 1)"
proof -
  obtain a where a: "AllocPages ((n + 4096 - 1) div 4096) (Pmm h) = (a, Pmm t)" "a \<noteq> 0" "p = PhysToVirt a (Pmm t)"
    using KMalloc_large [OF assms(3-5)] by blast
  have "(n + 4096 - 1) div 4096 \<noteq> 0"
  proof
    assume "(n + 4096 - 1) div 4096 = 0"
    then have "AllocPages 0 (Pmm h) = (a, Pmm t)" using a(1) by simp
    then show False using a(2) by (simp add: AllocPages_def)
  qed
  then have nw: "unat n + 4096 \<le> 2 ^ 64" using pages_for_wrap [of n] by (metis not_less)
  note np = unat_pages_for [OF nw]
  have r: "card (used_pages (Pmm t)) = card (used_pages (Pmm h)) + unat ((n + 4096 - 1) div 4096)"
    "pmm_inv (Pmm t)" "hhdm_ok (Pmm t)" "a \<in> taken_addrs (Pmm t)"
    using AllocPages_any [OF assms(1) a(1,2)] assms(2) by (simp_all add: hhdm_ok_def)
  have p: "p mod 4096 = 0" using direct_map(1) [OF r(2,3) _ a(2)] r(4) a(3) by simp
  have "p AND NOT (4096 - 1) = p" using page_of_offset [OF p, of 0] by simp
  then have "Pmm (KFree p (t\<lparr>Mem := m\<rparr>)) = (if slab_Magic m p = SlabMagic then Pmm t else FreePage a (Pmm t))"
    using assms(5) a(3) by (simp add: KFree_def Let_def)
  moreover have "card (used_pages (FreePage a (Pmm t))) = card (used_pages (Pmm t)) - 1"
    using FreePage_card [OF r(2,4) a(2)] .
  ultimately show ?thesis using r(1) np by simp
qed

theorem KFree_large_leaks_witness:
  "\<exists>p t. KMalloc 8192 demo_kmem = Some (p, t) \<and> p \<noteq> 0 \<and>
     card (used_pages (Pmm t)) = card (used_pages demo_pmm) + 2 \<and>
     card (used_pages (Pmm (KFree p (t\<lparr>Mem := (\<lambda>_. 0)\<rparr>)))) = card (used_pages (Pmm t)) - 1"
proof -
  obtain a Q where Q: "AllocPages 2 demo_pmm = (a, Q)" by force
  have "fst (AllocPages 2 demo_pmm) = 0x2000" by (rule demo_pmm_eval)
  then have a: "a = 0x2000" using Q by simp
  have Pm: "Pmm demo_kmem = demo_pmm" by (rule demo_kmem_ok)
  let ?p = "PhysToVirt a Q"
  have off: "HhdmOffset Q = HhdmOffset demo_pmm" using AllocPages_frame(1) [of 2 demo_pmm] Q by simp
  have "HhdmOffset demo_pmm = 0xFFFF800000000000" by code_simp
  then have p: "?p \<noteq> 0" by (simp add: PhysToVirt_def a off)
  have k: "KMalloc 8192 demo_kmem = Some (?p, demo_kmem\<lparr>Pmm := Q\<rparr>)"
    using Q a by (simp add: KMalloc_def Let_def Pm)
  have "slab_Magic (\<lambda>_. 0) ?p = 0" unfolding slab_Magic_def by (rule load_word_zero)
  then show ?thesis
    using KFree_large_leaks [OF _ _ _ k p, of "\<lambda>_. 0"] k p Pm demo_pmm_inv demo_hhdm_ok by auto
qed

end
