(* ===== verification/AxeThreads.thy ===== *)
theory AxeThreads
  imports KHeapSpec Sync "HOL-Library.Monad_Syntax"
begin

section \<open>Threads, the scheduler and the timer interrupt\<close>

text \<open>The thread manager (\<^verbatim>\<open>AxeThreads/ThreadMGR.c\<close>), the scheduler (\<^verbatim>\<open>AxeThreads/Scheduler.c\<close>), the timer
  interrupt that drives it (\<^verbatim>\<open>Timers/TimerCtl.c\<close>) and the interrupt path that calls it
  (\<^verbatim>\<open>Interrupts/IRQHandler.c\<close> and the stubs of \<^verbatim>\<open>IDT.c\<close>), over one state \<open>sched\<close>. The thread records live
  at addresses, linked through \<open>tNext\<close> and \<open>tPrev\<close> as in C; their memory comes from the modelled heap. A routine
  that may not return (a lock never released, a cyclic list) has \<open>None\<close> as its value. Interrupts arrive between the
  routines, as calls of \<open>IrqStub\<close>.\<close>

section \<open>Data\<close>

datatype ThreadState =
    ThreadStateReady
  | ThreadStateRunning
  | ThreadStateBlocked
  | ThreadStateSleeping
  | ThreadStateZombie
  | ThreadStateTerminated

datatype ThreadType = ThreadTypeKernel | ThreadTypeUser

datatype ThreadPriority =
    ThreadPriorityIdle
  | ThreadPriorityLow
  | ThreadPriorityNormal
  | ThreadPriorityHigh
  | ThreadPriorityUltra
  | ThreadPrioritySuper
  | ThreadPrioritykernel

record ThreadContext =
  cRax :: u64  cRbx :: u64  cRcx :: u64  cRdx :: u64
  cRsi :: u64  cRdi :: u64  cRbp :: u64  cRsp :: u64
  cR8 :: u64  cR9 :: u64  cR10 :: u64  cR11 :: u64
  cR12 :: u64  cR13 :: u64  cR14 :: u64  cR15 :: u64
  cRip :: u64
  cRflags :: u64
  cCs :: u16  cSs :: u16  cDs :: u16  cEs :: u16  cFs :: u16  cGs :: u16
  FpuState :: "u8 list"

text \<open>The frame an interrupt stub builds on the stack of the interrupted code.\<close>

record InterruptFrame =
  fRax :: u64  fRbx :: u64  fRcx :: u64  fRdx :: u64  fRsi :: u64  fRdi :: u64  fRbp :: u64
  fR8 :: u64  fR9 :: u64  fR10 :: u64  fR11 :: u64  fR12 :: u64  fR13 :: u64  fR14 :: u64  fR15 :: u64
  IntNo :: u64
  ErrCode :: u64
  fRip :: u64
  fCs :: u64
  fRflags :: u64
  fRsp :: u64
  fSs :: u64

record Thread =
  ThreadId :: u32
  ProcessId :: u32
  tName :: "u8 list"
  tState :: ThreadState
  tType :: ThreadType
  tPriority :: ThreadPriority
  BasePriority :: ThreadPriority
  tContext :: ThreadContext
  KernelStack :: u64
  UserStack :: u64
  StackSize :: u32
  PageDirectory :: u64
  VirtualBase :: u64
  MemoryUsage :: u32
  CpuAffinity :: u32
  LastCpu :: u32
  TimeSlice :: u64
  CpuTime :: u64
  StartTime :: u64
  WakeupTime :: u64
  WaitingOn :: u64
  WaitReason :: u32
  ExitCode :: u32
  Cooldown :: u32
  tNext :: u64
  tPrev :: u64
  tParent :: u64
  tChildren :: u64
  FileTable :: "u64 list"
  FileCount :: u32
  SignalMask :: u64
  SignalHandlers :: "u64 list"
  tContextSwitches :: u64
  PageFaults :: u64
  SystemCalls :: u64
  CreationTick :: u64
  tFlags :: u32
  DebugInfo :: u64

record CpuScheduler =
  ReadyQueue :: u64
  WaitingQueue :: u64
  ZombieQueue :: u64
  SleepingQueue :: u64
  CurrentThread :: u64
  NextThread :: u64
  IdleThread :: u64
  ThreadCount :: u32
  ReadyCount :: u32
  sPriority :: u32
  LastSchedule :: u64
  ScheduleTicks :: u64
  SchedulerLock :: SpinLock
  sContextSwitches :: u64
  IdleTicks :: u64
  LoadAverage :: u32

record PerCpuTimer =
  ApicBase :: u64
  LocalTicks :: u64
  LocalInterrupts :: u32

text \<open>The globals of the thread manager, the scheduler and the timer, the thread records by address, the heap
  they are allocated from, and what the routines touch of the CPU that runs them: its number, the page-table
  base register, the FPU image, and the device writes it made, in order.\<close>

record sched =
  Threads :: "u64 \<Rightarrow> Thread"
  Heap :: kmem
  NextThreadId :: u32
  ThreadList :: u64
  ThreadListLock :: SpinLock
  CurrentThreads :: "u32 \<Rightarrow> u64"
  CurrentThreadLock :: SpinLock
  CpuSchedulers :: "u32 \<Rightarrow> CpuScheduler"
  SystemTicks :: u64
  TimerInterruptCount :: u32
  CpuDataArray :: "u32 \<Rightarrow> PerCpuTimer"
  CpuCount :: u32
  SchedFlags :: CpuFlags
  ThisCpu :: u32
  Cr3 :: u64
  Fpu :: "u8 list"
  MmioWrites :: "(u64 \<times> u32) list"
  PortWrites :: "(u16 \<times> u8) list"

abbreviation (input) ThreadFlagSuspended :: u32 where "ThreadFlagSuspended \<equiv> 0x10"
abbreviation (input) WaitReasonNone :: u32 where "WaitReasonNone \<equiv> 0"
abbreviation (input) WaitReasonSleep :: u32 where "WaitReasonSleep \<equiv> 4"
abbreviation (input) UserVirtualBase :: u64 where "UserVirtualBase \<equiv> 0x400000"
abbreviation (input) KernelCodeSelector :: u16 where "KernelCodeSelector \<equiv> 0x08"
abbreviation (input) KernelDataSelector :: u16 where "KernelDataSelector \<equiv> 0x10"
abbreviation (input) UserDataSelector :: u16 where "UserDataSelector \<equiv> 0x1B"
abbreviation (input) UserCodeSelector :: u16 where "UserCodeSelector \<equiv> 0x23"
abbreviation (input) AllCpus :: u32 where "AllCpus \<equiv> 0xFFFFFFFF"
abbreviation (input) TimerApicRegEoi :: u64 where "TimerApicRegEoi \<equiv> 0xB0"

text \<open>\<^verbatim>\<open>sizeof(Thread)\<close> under the x86-64 ABI: the FPU image is 16-byte aligned.\<close>

abbreviation (input) sizeof_Thread :: u64 where "sizeof_Thread \<equiv> 1744"

section \<open>Helpers\<close>

definition upd_thread :: "u64 \<Rightarrow> (Thread \<Rightarrow> Thread) \<Rightarrow> sched \<Rightarrow> sched" where
  "upd_thread t f s = s\<lparr>Threads := (Threads s)(t := f (Threads s t))\<rparr>"

definition upd_cpu :: "u32 \<Rightarrow> (CpuScheduler \<Rightarrow> CpuScheduler) \<Rightarrow> sched \<Rightarrow> sched" where
  "upd_cpu c f s = s\<lparr>CpuSchedulers := (CpuSchedulers s)(c := f (CpuSchedulers s c))\<rparr>"

definition lock_list :: "sched \<Rightarrow> sched option" where
  "lock_list s = do {
     (L, F) \<leftarrow> AcquireSpinLock (ThisCpu s) (ThreadListLock s, SchedFlags s);
     Some (s\<lparr>ThreadListLock := L, SchedFlags := F\<rparr>) }"

definition unlock_list :: "sched \<Rightarrow> sched" where
  "unlock_list s =
     (let (L, F) = ReleaseSpinLock (ThisCpu s) (ThreadListLock s, SchedFlags s)
      in s\<lparr>ThreadListLock := L, SchedFlags := F\<rparr>)"

definition lock_current :: "sched \<Rightarrow> sched option" where
  "lock_current s = do {
     (L, F) \<leftarrow> AcquireSpinLock (ThisCpu s) (CurrentThreadLock s, SchedFlags s);
     Some (s\<lparr>CurrentThreadLock := L, SchedFlags := F\<rparr>) }"

definition unlock_current :: "sched \<Rightarrow> sched" where
  "unlock_current s =
     (let (L, F) = ReleaseSpinLock (ThisCpu s) (CurrentThreadLock s, SchedFlags s)
      in s\<lparr>CurrentThreadLock := L, SchedFlags := F\<rparr>)"

definition lock_cpu :: "u32 \<Rightarrow> sched \<Rightarrow> sched option" where
  "lock_cpu c s = do {
     (L, F) \<leftarrow> AcquireSpinLock (ThisCpu s) (SchedulerLock (CpuSchedulers s c), SchedFlags s);
     Some (upd_cpu c (\<lambda>C. C\<lparr>SchedulerLock := L\<rparr>) s\<lparr>SchedFlags := F\<rparr>) }"

definition unlock_cpu :: "u32 \<Rightarrow> sched \<Rightarrow> sched" where
  "unlock_cpu c s =
     (let (L, F) = ReleaseSpinLock (ThisCpu s) (SchedulerLock (CpuSchedulers s c), SchedFlags s)
      in upd_cpu c (\<lambda>C. C\<lparr>SchedulerLock := L\<rparr>) s\<lparr>SchedFlags := F\<rparr>)"

definition GetSystemTicks :: "sched \<Rightarrow> u64" where
  "GetSystemTicks s = SystemTicks s"

section \<open>Scheduler queues (Scheduler.c)\<close>

text \<open>The walk to the last thread of a queue; it does not end on a cyclic list.\<close>

partial_function (option) queue_tail :: "(u64 \<Rightarrow> Thread) \<Rightarrow> u64 \<Rightarrow> u64 option" where
  "queue_tail T Tail = (if tNext (T Tail) = 0 then Some Tail else queue_tail T (tNext (T Tail)))"

text \<open>Linking a thread behind the last one of the ready queue.\<close>

definition enqueue_tail :: "u32 \<Rightarrow> u64 \<Rightarrow> sched \<Rightarrow> sched option" where
  "enqueue_tail CpuId t s =
     (if ReadyQueue (CpuSchedulers s CpuId) = 0
      then Some (upd_cpu CpuId (\<lambda>C. C\<lparr>ReadyQueue := t\<rparr>) s)
      else do {
        Tail \<leftarrow> queue_tail (Threads s) (ReadyQueue (CpuSchedulers s CpuId));
        Some (upd_thread t (\<lambda>T. T\<lparr>tPrev := Tail\<rparr>) (upd_thread Tail (\<lambda>T. T\<lparr>tNext := t\<rparr>) s)) })"

definition AddThreadToReadyQueue :: "u32 \<Rightarrow> u64 \<Rightarrow> sched \<Rightarrow> sched option" where
  "AddThreadToReadyQueue CpuId t s =
     (if MaxCPUs \<le> CpuId \<or> t = 0 then Some s
      else do {
        s \<leftarrow> lock_cpu CpuId
          (upd_thread t (\<lambda>T. T\<lparr>tState := ThreadStateReady, LastCpu := CpuId, tNext := 0, tPrev := 0\<rparr>) s);
        s \<leftarrow> enqueue_tail CpuId t s;
        Some (unlock_cpu CpuId (upd_cpu CpuId (\<lambda>C. C\<lparr>ReadyCount := ReadyCount C + 1\<rparr>) s)) })"

definition RemoveThreadFromReadyQueue :: "u32 \<Rightarrow> sched \<Rightarrow> (u64 \<times> sched) option" where
  "RemoveThreadFromReadyQueue CpuId s =
     (if MaxCPUs \<le> CpuId then Some (0, s)
      else do {
        s \<leftarrow> lock_cpu CpuId s;
        let t = ReadyQueue (CpuSchedulers s CpuId);
        if t = 0 then Some (0, unlock_cpu CpuId s)
        else
          (let Next = tNext (Threads s t);
               s = upd_cpu CpuId (\<lambda>C. C\<lparr>ReadyQueue := Next\<rparr>) s;
               s = (if Next \<noteq> 0 then upd_thread Next (\<lambda>T. T\<lparr>tPrev := 0\<rparr>) s else s);
               s = upd_thread t (\<lambda>T. T\<lparr>tNext := 0, tPrev := 0\<rparr>) s;
               s = (if 0 < ReadyCount (CpuSchedulers s CpuId)
                    then upd_cpu CpuId (\<lambda>C. C\<lparr>ReadyCount := ReadyCount C - 1\<rparr>) s else s)
           in Some (t, unlock_cpu CpuId s)) })"

definition AddThreadToWaitingQueue :: "u32 \<Rightarrow> u64 \<Rightarrow> sched \<Rightarrow> sched option" where
  "AddThreadToWaitingQueue CpuId t s =
     (if MaxCPUs \<le> CpuId \<or> t = 0 then Some s
      else do {
        s \<leftarrow> lock_cpu CpuId (upd_thread t (\<lambda>T. T\<lparr>tState := ThreadStateBlocked\<rparr>) s);
        let s = upd_thread t (\<lambda>T. T\<lparr>tNext := WaitingQueue (CpuSchedulers s CpuId)\<rparr>) s;
        Some (unlock_cpu CpuId (upd_cpu CpuId (\<lambda>C. C\<lparr>WaitingQueue := t\<rparr>) s)) })"

definition AddThreadToZombieQueue :: "u32 \<Rightarrow> u64 \<Rightarrow> sched \<Rightarrow> sched option" where
  "AddThreadToZombieQueue CpuId t s =
     (if MaxCPUs \<le> CpuId \<or> t = 0 then Some s
      else do {
        s \<leftarrow> lock_cpu CpuId (upd_thread t (\<lambda>T. T\<lparr>tState := ThreadStateZombie\<rparr>) s);
        let s = upd_thread t (\<lambda>T. T\<lparr>tNext := ZombieQueue (CpuSchedulers s CpuId)\<rparr>) s;
        let s = unlock_cpu CpuId (upd_cpu CpuId (\<lambda>C. C\<lparr>ZombieQueue := t\<rparr>) s);
        Some (upd_cpu CpuId (\<lambda>C. C\<lparr>ThreadCount := ThreadCount C - 1\<rparr>) s) })"

definition AddThreadToSleepingQueue :: "u32 \<Rightarrow> u64 \<Rightarrow> sched \<Rightarrow> sched option" where
  "AddThreadToSleepingQueue CpuId t s =
     (if MaxCPUs \<le> CpuId \<or> t = 0 then Some s
      else do {
        s \<leftarrow> lock_cpu CpuId (upd_thread t (\<lambda>T. T\<lparr>tState := ThreadStateSleeping\<rparr>) s);
        let s = upd_thread t (\<lambda>T. T\<lparr>tNext := SleepingQueue (CpuSchedulers s CpuId)\<rparr>) s;
        Some (unlock_cpu CpuId (upd_cpu CpuId (\<lambda>C. C\<lparr>SleepingQueue := t\<rparr>) s)) })"

definition MigrateThreadToCpu :: "u64 \<Rightarrow> u32 \<Rightarrow> sched \<Rightarrow> sched option" where
  "MigrateThreadToCpu t TargetCpuId s =
     (if t = 0 \<or> MaxCPUs \<le> TargetCpuId then Some s
      else if tState (Threads s t) = ThreadStateReady
      then AddThreadToReadyQueue TargetCpuId t (upd_thread t (\<lambda>T. T\<lparr>LastCpu := TargetCpuId\<rparr>) s)
      else Some s)"

definition GetCpuThreadCount :: "u32 \<Rightarrow> sched \<Rightarrow> u32" where
  "GetCpuThreadCount CpuId s = (if MaxCPUs \<le> CpuId then 0 else ThreadCount (CpuSchedulers s CpuId))"

definition GetCpuReadyCount :: "u32 \<Rightarrow> sched \<Rightarrow> u32" where
  "GetCpuReadyCount CpuId s = (if MaxCPUs \<le> CpuId then 0 else ReadyCount (CpuSchedulers s CpuId))"

definition GetCpuContextSwitches :: "u32 \<Rightarrow> sched \<Rightarrow> u64" where
  "GetCpuContextSwitches CpuId s = (if MaxCPUs \<le> CpuId then 0 else sContextSwitches (CpuSchedulers s CpuId))"

definition GetCpuLoadAverage :: "u32 \<Rightarrow> sched \<Rightarrow> u32" where
  "GetCpuLoadAverage CpuId s = (if MaxCPUs \<le> CpuId then 0 else LoadAverage (CpuSchedulers s CpuId))"

definition GetNextThread :: "u32 \<Rightarrow> sched \<Rightarrow> (u64 \<times> sched) option" where
  "GetNextThread CpuId = RemoveThreadFromReadyQueue CpuId"

text \<open>The walk over the sleeping queue: a thread that is due is unlinked and appended to the ready queue.\<close>

definition wake :: "u32 \<Rightarrow> u64 \<Rightarrow> u64 \<Rightarrow> u64 \<Rightarrow> sched \<Rightarrow> sched option" where
  "wake CpuId Current Prev Next s =
     (let s = (if Prev \<noteq> 0 then upd_thread Prev (\<lambda>T. T\<lparr>tNext := Next\<rparr>) s
               else upd_cpu CpuId (\<lambda>C. C\<lparr>SleepingQueue := Next\<rparr>) s);
          s = upd_thread Current (\<lambda>T. T\<lparr>WaitReason := WaitReasonNone, WakeupTime := 0,
                tState := ThreadStateReady, tPrev := 0, tNext := 0\<rparr>) s
      in do {
        s \<leftarrow> enqueue_tail CpuId Current s;
        Some (upd_cpu CpuId (\<lambda>C. C\<lparr>ReadyCount := ReadyCount C + 1\<rparr>) s) })"

partial_function (option) wakeup_loop :: "u32 \<Rightarrow> u64 \<Rightarrow> u64 \<Rightarrow> u64 \<Rightarrow> sched \<Rightarrow> sched option" where
  "wakeup_loop CpuId CurrentTicks Current Prev s =
     (if Current = 0 then Some s
      else
        (let Next = tNext (Threads s Current) in
         if WakeupTime (Threads s Current) \<le> CurrentTicks
         then do {
           s \<leftarrow> wake CpuId Current Prev Next s;
           wakeup_loop CpuId CurrentTicks Next Prev s }
         else wakeup_loop CpuId CurrentTicks Next Current s))"

definition WakeupSleepingThreads :: "u32 \<Rightarrow> sched \<Rightarrow> sched option" where
  "WakeupSleepingThreads CpuId s =
     (if MaxCPUs \<le> CpuId then Some s
      else
        (let CurrentTicks = GetSystemTicks s in do {
           s \<leftarrow> lock_cpu CpuId s;
           s \<leftarrow> wakeup_loop CpuId CurrentTicks (SleepingQueue (CpuSchedulers s CpuId)) 0 s;
           Some (unlock_cpu CpuId s) }))"

text \<open>\<^verbatim>\<open>DestroyThread\<close> (ThreadMGR.c): taking the thread off the list of threads, then giving its stacks and its
  record back to the heap.\<close>

definition unlink_thread :: "u64 \<Rightarrow> sched \<Rightarrow> sched" where
  "unlink_thread t s =
     (let s = (if tPrev (Threads s t) \<noteq> 0
               then upd_thread (tPrev (Threads s t)) (\<lambda>T. T\<lparr>tNext := tNext (Threads s t)\<rparr>) s
               else s\<lparr>ThreadList := tNext (Threads s t)\<rparr>)
      in if tNext (Threads s t) \<noteq> 0
         then upd_thread (tNext (Threads s t)) (\<lambda>T. T\<lparr>tPrev := tPrev (Threads s t)\<rparr>) s
         else s)"

definition free_thread :: "u64 \<Rightarrow> Thread \<Rightarrow> kmem \<Rightarrow> kmem" where
  "free_thread t T h =
     (let h = (if KernelStack T \<noteq> 0 then KFree (KernelStack T - ucast (StackSize T)) h else h);
          h = (if UserStack T \<noteq> 0 then KFree (UserStack T - ucast (StackSize T)) h else h)
      in KFree t h)"

definition DestroyThread :: "u64 \<Rightarrow> sched \<Rightarrow> sched option" where
  "DestroyThread t s =
     (if t = 0 then Some s
      else do {
        s \<leftarrow> lock_list (upd_thread t (\<lambda>T. T\<lparr>tState := ThreadStateTerminated\<rparr>) s);
        let s = unlock_list (unlink_thread t s);
        Some (s\<lparr>Heap := free_thread t (Threads s t) (Heap s)\<rparr>) })"

partial_function (option) cleanup_loop :: "u64 \<Rightarrow> sched \<Rightarrow> sched option" where
  "cleanup_loop Current s =
     (if Current = 0 then Some s
      else
        (let Next = tNext (Threads s Current) in do {
           s \<leftarrow> DestroyThread Current s;
           cleanup_loop Next s }))"

definition CleanupZombieThreads :: "u32 \<Rightarrow> sched \<Rightarrow> sched option" where
  "CleanupZombieThreads CpuId s =
     (if MaxCPUs \<le> CpuId then Some s
      else do {
        s \<leftarrow> lock_cpu CpuId s;
        let Current = ZombieQueue (CpuSchedulers s CpuId);
        let s = unlock_cpu CpuId (upd_cpu CpuId (\<lambda>C. C\<lparr>ZombieQueue := 0\<rparr>) s);
        cleanup_loop Current s })"

definition InitializeCpuScheduler :: "u32 \<Rightarrow> sched \<Rightarrow> sched" where
  "InitializeCpuScheduler CpuId s =
     (if MaxCPUs \<le> CpuId then s
      else upd_cpu CpuId (\<lambda>C. C\<lparr>ReadyQueue := 0, WaitingQueue := 0, ZombieQueue := 0, SleepingQueue := 0,
             CurrentThread := 0, NextThread := 0, IdleThread := 0, ThreadCount := 0, ReadyCount := 0,
             sContextSwitches := 0, IdleTicks := 0, LoadAverage := 0, ScheduleTicks := 0, LastSchedule := 0,
             SchedulerLock := InitializeSpinLock ''CpuScheduler'' (SchedulerLock C)\<rparr>) s)"

definition InitializeScheduler :: "sched \<Rightarrow> sched" where
  "InitializeScheduler s = for_range 0 (CpuCount s) InitializeCpuScheduler s"

section \<open>Dispatching (Scheduler.c)\<close>

definition frame_context :: "InterruptFrame \<Rightarrow> ThreadContext \<Rightarrow> ThreadContext" where
  "frame_context f C = C\<lparr>
     cRax := fRax f, cRbx := fRbx f, cRcx := fRcx f, cRdx := fRdx f, cRsi := fRsi f, cRdi := fRdi f,
     cRbp := fRbp f, cR8 := fR8 f, cR9 := fR9 f, cR10 := fR10 f, cR11 := fR11 f, cR12 := fR12 f,
     cR13 := fR13 f, cR14 := fR14 f, cR15 := fR15 f,
     cRip := fRip f, cRsp := fRsp f, cRflags := fRflags f, cCs := ucast (fCs f), cSs := ucast (fSs f)\<rparr>"

definition SaveInterruptFrameToThread :: "u64 \<Rightarrow> InterruptFrame \<Rightarrow> sched \<Rightarrow> sched" where
  "SaveInterruptFrameToThread t f s =
     (if t = 0 then s else upd_thread t (\<lambda>T. T\<lparr>tContext := frame_context f (tContext T)\<rparr>) s)"

definition context_frame :: "ThreadContext \<Rightarrow> InterruptFrame \<Rightarrow> InterruptFrame" where
  "context_frame C f = f\<lparr>
     fRax := cRax C, fRbx := cRbx C, fRcx := cRcx C, fRdx := cRdx C, fRsi := cRsi C, fRdi := cRdi C,
     fRbp := cRbp C, fR8 := cR8 C, fR9 := cR9 C, fR10 := cR10 C, fR11 := cR11 C, fR12 := cR12 C,
     fR13 := cR13 C, fR14 := cR14 C, fR15 := cR15 C,
     fRip := cRip C, fRsp := cRsp C, fRflags := cRflags C, fCs := ucast (cCs C), fSs := ucast (cSs C)\<rparr>"

definition LoadThreadContextToInterruptFrame ::
  "u64 \<Rightarrow> InterruptFrame \<Rightarrow> sched \<Rightarrow> InterruptFrame \<times> sched"
where
  "LoadThreadContextToInterruptFrame t f s =
     (if t = 0 then (f, s)
      else
        (let Pd = PageDirectory (Threads s t);
             s = (if Pd \<noteq> 0 then s\<lparr>Cr3 := Pd\<rparr> else s);
             s = s\<lparr>Fpu := FpuState (tContext (Threads s t))\<rparr>
         in (context_frame (tContext (Threads s t)) f, s)))"

text \<open>The number of rounds of the ready queue between two runs of a thread, by priority.\<close>

fun stride :: "ThreadPriority \<Rightarrow> u32" where
  "stride ThreadPrioritykernel = 1"
| "stride ThreadPrioritySuper = 2"
| "stride ThreadPriorityUltra = 4"
| "stride ThreadPriorityHigh = 8"
| "stride ThreadPriorityNormal = 16"
| "stride ThreadPriorityLow = 32"
| "stride ThreadPriorityIdle = 64"

definition GetCurrentThread :: "u32 \<Rightarrow> sched \<Rightarrow> (u64 \<times> sched) option" where
  "GetCurrentThread CpuId s =
     (if MaxCPUs \<le> CpuId then Some (0, s)
      else do {
        s \<leftarrow> lock_current s;
        let Result = CurrentThreads s CpuId;
        Some (Result, unlock_current s) })"

definition SetCurrentThread :: "u32 \<Rightarrow> u64 \<Rightarrow> sched \<Rightarrow> sched option" where
  "SetCurrentThread CpuId t s =
     (if MaxCPUs \<le> CpuId then Some s
      else do {
        s \<leftarrow> lock_current s;
        Some (unlock_current (s\<lparr>CurrentThreads := (CurrentThreads s)(CpuId := t)\<rparr>)) })"

text \<open>The block of \<^verbatim>\<open>Schedule\<close> that puts the interrupted thread away.\<close>

definition switch_out :: "u32 \<Rightarrow> u64 \<Rightarrow> InterruptFrame \<Rightarrow> sched \<Rightarrow> sched option" where
  "switch_out CpuId Current f s =
     (let s = upd_thread Current (\<lambda>T. T\<lparr>tContext := (tContext T)\<lparr>FpuState := Fpu s\<rparr>\<rparr>) s;
          s = SaveInterruptFrameToThread Current f s;
          s = upd_thread Current (\<lambda>T. T\<lparr>CpuTime := CpuTime T + 1\<rparr>) s
      in case tState (Threads s Current) of
           ThreadStateRunning \<Rightarrow> AddThreadToReadyQueue CpuId Current s
         | ThreadStateTerminated \<Rightarrow> AddThreadToZombieQueue CpuId Current s
         | ThreadStateBlocked \<Rightarrow> AddThreadToWaitingQueue CpuId Current s
         | ThreadStateSleeping \<Rightarrow> AddThreadToSleepingQueue CpuId Current s
         | ThreadStateReady \<Rightarrow> AddThreadToReadyQueue CpuId Current s
         | ThreadStateZombie \<Rightarrow>
             AddThreadToReadyQueue CpuId Current (upd_thread Current (\<lambda>T. T\<lparr>tState := ThreadStateReady\<rparr>) s))"

definition selectors :: "Thread \<Rightarrow> Thread" where
  "selectors T = T\<lparr>tContext :=
     (if tType T = ThreadTypeUser then (tContext T)\<lparr>cCs := UserCodeSelector, cSs := UserDataSelector\<rparr>
      else (tContext T)\<lparr>cCs := KernelCodeSelector, cSs := KernelDataSelector\<rparr>)\<rparr>"

text \<open>The code from the label \<^verbatim>\<open>SelectAgain\<close> to its \<^verbatim>\<open>goto\<close>: the thread selected, 0 when the CPU is idle.\<close>

partial_function (option) SelectAgain :: "u32 \<Rightarrow> sched \<Rightarrow> (u64 \<times> sched) option" where
  "SelectAgain CpuId s = do {
     s \<leftarrow> WakeupSleepingThreads CpuId s;
     s \<leftarrow> CleanupZombieThreads CpuId s;
     (Next, s) \<leftarrow> RemoveThreadFromReadyQueue CpuId s;
     if Next = 0 then Some (0, s)
     else
       (let s = upd_thread Next selectors s;
            Stride = stride (tPriority (Threads s Next))
        in if 0 < Cooldown (Threads s Next)
           then do {
             s \<leftarrow> AddThreadToReadyQueue CpuId Next (upd_thread Next (\<lambda>T. T\<lparr>Cooldown := Cooldown T - 1\<rparr>) s);
             SelectAgain CpuId s }
           else Some (Next, upd_thread Next (\<lambda>T. T\<lparr>Cooldown := Stride - 1\<rparr>) s)) }"

text \<open>The rest of \<^verbatim>\<open>Schedule\<close>: the selected thread becomes the running one.\<close>

definition switch_in :: "u32 \<Rightarrow> u64 \<Rightarrow> InterruptFrame \<Rightarrow> sched \<Rightarrow> (InterruptFrame \<times> sched) option" where
  "switch_in CpuId Next f s =
     (let s = upd_cpu CpuId (\<lambda>C. C\<lparr>CurrentThread := Next\<rparr>) s;
          s = upd_thread Next (\<lambda>T. T\<lparr>tState := ThreadStateRunning, LastCpu := CpuId, StartTime := GetSystemTicks s\<rparr>) s;
          s = upd_cpu CpuId (\<lambda>C. C\<lparr>sContextSwitches := sContextSwitches C + 1\<rparr>) s;
          s = upd_thread Next (\<lambda>T. T\<lparr>tContextSwitches := tContextSwitches T + 1\<rparr>) s;
          (f, s) = LoadThreadContextToInterruptFrame Next f s
      in do {
        s \<leftarrow> SetCurrentThread CpuId Next s;
        Some (f, s) })"

definition Schedule :: "u32 \<Rightarrow> InterruptFrame \<Rightarrow> sched \<Rightarrow> (InterruptFrame \<times> sched) option" where
  "Schedule CpuId f s =
     (if MaxCPUs \<le> CpuId then Some (f, s)
      else do {
        let Current = CurrentThread (CpuSchedulers s CpuId);
        let s = upd_cpu CpuId (\<lambda>C. C\<lparr>ScheduleTicks := ScheduleTicks C + 1, LastSchedule := GetSystemTicks s\<rparr>) s;
        s \<leftarrow> (if Current \<noteq> 0 then switch_out CpuId Current f s else Some s);
        (Next, s) \<leftarrow> SelectAgain CpuId s;
        if Next = 0
        then Some (f, upd_cpu CpuId (\<lambda>C. C\<lparr>CurrentThread := 0, IdleTicks := IdleTicks C + 1\<rparr>) s)
        else switch_in CpuId Next f s })"

text \<open>The timer interrupt (TimerCtl.c) and the dispatch of interrupt requests (IRQHandler.c).\<close>

definition TimerHandler :: "InterruptFrame \<Rightarrow> sched \<Rightarrow> (InterruptFrame \<times> sched) option" where
  "TimerHandler f s =
     (let CpuId = ThisCpu s;
          s = s\<lparr>CpuDataArray := (CpuDataArray s)(CpuId := (CpuDataArray s CpuId)
                  \<lparr>LocalInterrupts := LocalInterrupts (CpuDataArray s CpuId) + 1,
                   LocalTicks := LocalTicks (CpuDataArray s CpuId) + 1\<rparr>),
                TimerInterruptCount := TimerInterruptCount s + 1,
                SystemTicks := SystemTicks s + 1\<rparr>
      in do {
        s \<leftarrow> WakeupSleepingThreads CpuId s;
        (f, s) \<leftarrow> Schedule CpuId f s;
        let EoiReg = ApicBase (CpuDataArray s CpuId) + TimerApicRegEoi;
        Some (f, s\<lparr>MmioWrites := MmioWrites s @ [(EoiReg, 0)]\<rparr>) })"

definition outb :: "u16 \<Rightarrow> u8 \<Rightarrow> sched \<Rightarrow> sched" where
  "outb Port Value s = s\<lparr>PortWrites := PortWrites s @ [(Port, Value)]\<rparr>"

definition IrqHandler :: "InterruptFrame \<Rightarrow> sched \<Rightarrow> (InterruptFrame \<times> sched) option" where
  "IrqHandler f s =
     (if IntNo f = 32 then TimerHandler f s
      else
        (let s = (if 40 \<le> IntNo f then outb 0xA0 0x20 s else s)
         in Some (f, outb 0x20 0x20 s)))"

section \<open>Interrupt entry (IDT.c)\<close>

text \<open>The registers of the interrupted code.\<close>

record Regs =
  rax :: u64  rbx :: u64  rcx :: u64  rdx :: u64  rsi :: u64  rdi :: u64  rbp :: u64
  r8 :: u64  r9 :: u64  r10 :: u64  r11 :: u64  r12 :: u64  r13 :: u64  r14 :: u64  r15 :: u64
  rip :: u64  rcs :: u64  rflags :: u64  rsp :: u64  rss :: u64

text \<open>The words the CPU and the stub push, the last pushed (the lowest address) first.\<close>

definition push_frame :: "u64 \<Rightarrow> u64 \<Rightarrow> Regs \<Rightarrow> u64 list" where
  "push_frame int_num err r =
     [r15 r, r14 r, r13 r, r12 r, r11 r, r10 r, r9 r, r8 r, rbp r, rdi r, rsi r, rdx r, rcx r, rbx r, rax r,
      int_num, err, rip r, rcs r, rflags r, rsp r, rss r]"

text \<open>\<^verbatim>\<open>InterruptFrame*\<close> points to the lowest address: the packed structure is laid over the words in the order
  of its declaration.\<close>

definition frame_at :: "u64 list \<Rightarrow> InterruptFrame" where
  "frame_at w =
     \<lparr>fRax = w ! 0, fRbx = w ! 1, fRcx = w ! 2, fRdx = w ! 3, fRsi = w ! 4, fRdi = w ! 5, fRbp = w ! 6,
      fR8 = w ! 7, fR9 = w ! 8, fR10 = w ! 9, fR11 = w ! 10, fR12 = w ! 11, fR13 = w ! 12, fR14 = w ! 13, fR15 = w ! 14,
      IntNo = w ! 15, ErrCode = w ! 16, fRip = w ! 17, fCs = w ! 18, fRflags = w ! 19, fRsp = w ! 20, fSs = w ! 21\<rparr>"

definition frame_words :: "InterruptFrame \<Rightarrow> u64 list" where
  "frame_words f =
     [fRax f, fRbx f, fRcx f, fRdx f, fRsi f, fRdi f, fRbp f,
      fR8 f, fR9 f, fR10 f, fR11 f, fR12 f, fR13 f, fR14 f, fR15 f,
      IntNo f, ErrCode f, fRip f, fCs f, fRflags f, fRsp f, fSs f]"

text \<open>The pops of the stub and \<^verbatim>\<open>iretq\<close>.\<close>

definition pop_frame :: "u64 list \<Rightarrow> Regs" where
  "pop_frame w =
     \<lparr>rax = w ! 14, rbx = w ! 13, rcx = w ! 12, rdx = w ! 11, rsi = w ! 10, rdi = w ! 9, rbp = w ! 8,
      r8 = w ! 7, r9 = w ! 6, r10 = w ! 5, r11 = w ! 4, r12 = w ! 3, r13 = w ! 2, r14 = w ! 1, r15 = w ! 0,
      rip = w ! 17, rcs = w ! 18, rflags = w ! 19, rsp = w ! 20, rss = w ! 21\<rparr>"

definition IrqStub :: "u64 \<Rightarrow> Regs \<Rightarrow> sched \<Rightarrow> (Regs \<times> sched) option" where
  "IrqStub int_num r s = do {
     (f, s) \<leftarrow> IrqHandler (frame_at (push_frame int_num 0 r)) s;
     Some (pop_frame (frame_words f), s) }"

section \<open>Thread manager (ThreadMGR.c)\<close>

definition InitializeThreadManager :: "sched \<Rightarrow> sched" where
  "InitializeThreadManager s =
     (let s = s\<lparr>ThreadListLock := InitializeSpinLock ''ThreadList'' (ThreadListLock s),
                CurrentThreadLock := InitializeSpinLock ''CurrentThread'' (CurrentThreadLock s),
                NextThreadId := 1, ThreadList := 0\<rparr>
      in for_range 0 MaxCPUs (\<lambda>CpuIndex s. s\<lparr>CurrentThreads := (CurrentThreads s)(CpuIndex := 0)\<rparr>) s)"

definition AllocateThreadId :: "sched \<Rightarrow> u32 \<times> sched" where
  "AllocateThreadId s = (NextThreadId s, s\<lparr>NextThreadId := NextThreadId s + 1\<rparr>)"

definition thread_kmalloc :: "u64 \<Rightarrow> sched \<Rightarrow> (u64 \<times> sched) option" where
  "thread_kmalloc Size s = do { (p, h) \<leftarrow> KMalloc Size (Heap s); Some (p, s\<lparr>Heap := h\<rparr>) }"

definition thread_kfree :: "u64 \<Rightarrow> sched \<Rightarrow> sched" where
  "thread_kfree p s = s\<lparr>Heap := KFree p (Heap s)\<rparr>"

definition zero_context :: ThreadContext where
  "zero_context =
     \<lparr>cRax = 0, cRbx = 0, cRcx = 0, cRdx = 0, cRsi = 0, cRdi = 0, cRbp = 0, cRsp = 0,
      cR8 = 0, cR9 = 0, cR10 = 0, cR11 = 0, cR12 = 0, cR13 = 0, cR14 = 0, cR15 = 0, cRip = 0, cRflags = 0,
      cCs = 0, cSs = 0, cDs = 0, cEs = 0, cFs = 0, cGs = 0, FpuState = replicate 512 0\<rparr>"

text \<open>A thread record whose bytes are all zero.\<close>

definition zero_thread :: Thread where
  "zero_thread =
     \<lparr>ThreadId = 0, ProcessId = 0, tName = replicate 64 0, tState = ThreadStateReady, tType = ThreadTypeKernel,
      tPriority = ThreadPriorityIdle, BasePriority = ThreadPriorityIdle, tContext = zero_context,
      KernelStack = 0, UserStack = 0, StackSize = 0, PageDirectory = 0, VirtualBase = 0, MemoryUsage = 0,
      CpuAffinity = 0, LastCpu = 0, TimeSlice = 0, CpuTime = 0, StartTime = 0, WakeupTime = 0,
      WaitingOn = 0, WaitReason = 0, ExitCode = 0, Cooldown = 0, tNext = 0, tPrev = 0, tParent = 0, tChildren = 0,
      FileTable = replicate 64 0, FileCount = 0, SignalMask = 0, SignalHandlers = replicate 32 0,
      tContextSwitches = 0, PageFaults = 0, SystemCalls = 0, CreationTick = 0, tFlags = 0, DebugInfo = 0\<rparr>"

text \<open>The stacks: \<open>None\<close> inside is the failure path, with what was allocated freed again.\<close>

definition create_stacks :: "ThreadType \<Rightarrow> u64 \<Rightarrow> sched \<Rightarrow> (bool \<times> sched) option" where
  "create_stacks Type NewThread s =
     (if Type = ThreadTypeKernel
      then do {
        (KernelStackBase, s) \<leftarrow> thread_kmalloc 8192 s;
        if KernelStackBase = 0 then Some (False, unlock_list (thread_kfree NewThread s))
        else Some (True, upd_thread NewThread
               (\<lambda>T. T\<lparr>KernelStack := KernelStackBase + 8192, UserStack := 0, StackSize := 8192\<rparr>) s) }
      else do {
        (KernelStackBase, s) \<leftarrow> thread_kmalloc 8192 s;
        (UserStackBase, s) \<leftarrow> thread_kmalloc 8192 s;
        if KernelStackBase = 0 \<or> UserStackBase = 0
        then
          (let s = (if KernelStackBase \<noteq> 0 then thread_kfree KernelStackBase s else s);
               s = (if UserStackBase \<noteq> 0 then thread_kfree UserStackBase s else s)
           in Some (False, unlock_list (thread_kfree NewThread s)))
        else Some (True, upd_thread NewThread
               (\<lambda>T. T\<lparr>KernelStack := KernelStackBase + 8192, UserStack := UserStackBase + 8192, StackSize := 8192\<rparr>) s) })"

definition init_context :: "ThreadType \<Rightarrow> u64 \<Rightarrow> u64 \<Rightarrow> Thread \<Rightarrow> Thread" where
  "init_context Type EntryPoint Argument T =
     (let C = (tContext T)\<lparr>cRip := EntryPoint, cRsp := (KernelStack T AND NOT 0xF) - 16, cRflags := 0x202\<rparr>;
          C = (if Type = ThreadTypeKernel then C\<lparr>cCs := KernelCodeSelector, cSs := KernelDataSelector\<rparr>
               else C\<lparr>cCs := UserCodeSelector, cSs := UserDataSelector, cRsp := (UserStack T AND NOT 0xF) - 16\<rparr>);
          C = C\<lparr>cDs := cSs C, cEs := cSs C, cFs := cSs C, cGs := cSs C, cRdi := Argument\<rparr>
      in T\<lparr>tContext := C\<rparr>)"

text \<open>The context, the scheduling fields and the insertion at the head of the list of threads.\<close>

definition finish_thread :: "ThreadType \<Rightarrow> u64 \<Rightarrow> u64 \<Rightarrow> u64 \<Rightarrow> sched \<Rightarrow> sched" where
  "finish_thread Type EntryPoint Argument NewThread s =
     (let s = upd_thread NewThread (init_context Type EntryPoint Argument) s;
          s = upd_thread NewThread (\<lambda>T. T\<lparr>CpuAffinity := AllCpus, LastCpu := AllCpus, TimeSlice := 10, Cooldown := 0,
                StartTime := GetSystemTicks s, CreationTick := GetSystemTicks s, WaitReason := WaitReasonNone,
                PageDirectory := 0, VirtualBase := UserVirtualBase, MemoryUsage := (StackSize T * 2) div 1024\<rparr>) s;
          s = upd_thread NewThread (\<lambda>T. T\<lparr>tNext := ThreadList s\<rparr>) s;
          s = (if ThreadList s \<noteq> 0 then upd_thread (ThreadList s) (\<lambda>T. T\<lparr>tPrev := NewThread\<rparr>) s else s)
      in s\<lparr>ThreadList := NewThread\<rparr>)"

definition CreateThread :: "ThreadType \<Rightarrow> u64 \<Rightarrow> u64 \<Rightarrow> ThreadPriority \<Rightarrow> sched \<Rightarrow> (u64 \<times> sched) option" where
  "CreateThread Type EntryPoint Argument Priority s = do {
     (NewThread, s) \<leftarrow> thread_kmalloc sizeof_Thread s;
     if NewThread = 0 then Some (0, unlock_list s)
     else do {
       let s = upd_thread NewThread (\<lambda>_. zero_thread) s;
       let (NewId, s) = AllocateThreadId s;
       let s = upd_thread NewThread (\<lambda>T. T\<lparr>ThreadId := NewId, ProcessId := 1, tState := ThreadStateReady, tType := Type,
                 tPriority := Priority, BasePriority := Priority\<rparr>) s;
       (Ok, s) \<leftarrow> create_stacks Type NewThread s;
       if Ok then Some (NewThread, finish_thread Type EntryPoint Argument NewThread s) else Some (0, s) } }"

definition SuspendThread :: "u64 \<Rightarrow> sched \<Rightarrow> sched option" where
  "SuspendThread t s =
     (if t = 0 then Some s
      else do {
        s \<leftarrow> lock_list s;
        let s = upd_thread t (\<lambda>T. T\<lparr>tFlags := tFlags T OR ThreadFlagSuspended\<rparr>) s;
        let s = (if tState (Threads s t) = ThreadStateRunning \<or> tState (Threads s t) = ThreadStateReady
                 then upd_thread t (\<lambda>T. T\<lparr>tState := ThreadStateBlocked, WaitReason := WaitReasonNone\<rparr>) s else s);
        Some (unlock_list s) })"

definition ResumeThread :: "u64 \<Rightarrow> sched \<Rightarrow> sched" where
  "ResumeThread t s =
     (if t = 0 then s
      else
        (let s = upd_thread t (\<lambda>T. T\<lparr>tFlags := tFlags T AND NOT ThreadFlagSuspended\<rparr>) s
         in if tState (Threads s t) = ThreadStateBlocked \<and> WaitReason (Threads s t) = WaitReasonNone
            then upd_thread t (\<lambda>T. T\<lparr>tState := ThreadStateReady\<rparr>) s else s))"

definition SetThreadPriority :: "u64 \<Rightarrow> ThreadPriority \<Rightarrow> sched \<Rightarrow> sched" where
  "SetThreadPriority t Priority s = (if t = 0 then s else upd_thread t (\<lambda>T. T\<lparr>tPriority := Priority\<rparr>) s)"

definition SetThreadAffinity :: "u64 \<Rightarrow> u32 \<Rightarrow> sched \<Rightarrow> sched" where
  "SetThreadAffinity t CpuMask s = (if t = 0 then s else upd_thread t (\<lambda>T. T\<lparr>CpuAffinity := CpuMask\<rparr>) s)"

definition GetCpuLoad :: "u32 \<Rightarrow> sched \<Rightarrow> u32" where
  "GetCpuLoad CpuId s = (if MaxCPUs \<le> CpuId then 0xFFFFFFFF else GetCpuReadyCount CpuId s)"

definition FindLeastLoadedCpu :: "sched \<Rightarrow> u32" where
  "FindLeastLoadedCpu s =
     fst (for_range 1 (CpuCount s)
            (\<lambda>CpuIndex (BestCpu, MinLoad).
               let Load = GetCpuLoad CpuIndex s in
               if Load < MinLoad then (CpuIndex, Load) else (BestCpu, MinLoad))
            (0, GetCpuLoad 0 s))"

text \<open>\<^verbatim>\<open>1 << CpuIndex\<close> on a 32-bit \<^verbatim>\<open>int\<close>: from 32 on the C standard leaves it open; the x86 shift takes the
  count modulo 32.\<close>

definition cpu_bit :: "u32 \<Rightarrow> u32" where
  "cpu_bit CpuIndex = push_bit (unat CpuIndex mod 32) 1"

definition CalculateOptimalCpu :: "u64 \<Rightarrow> sched \<Rightarrow> u32" where
  "CalculateOptimalCpu t s =
     (if t = 0 then 0
      else if CpuAffinity (Threads s t) \<noteq> 0xFFFFFFFF
      then
        (let (BestCpu, MinLoad, FoundValidCpu) =
               for_range 0 (CpuCount s)
                 (\<lambda>CpuIndex (BestCpu, MinLoad, FoundValidCpu).
                    if CpuAffinity (Threads s t) AND cpu_bit CpuIndex \<noteq> 0
                    then
                      (let Load = GetCpuLoad CpuIndex s in
                       if \<not> FoundValidCpu \<or> Load < MinLoad then (CpuIndex, Load, True)
                       else (BestCpu, MinLoad, FoundValidCpu))
                    else (BestCpu, MinLoad, FoundValidCpu))
                 (0, 0xFFFFFFFF, False)
         in if FoundValidCpu then BestCpu else 0)
      else FindLeastLoadedCpu s)"

definition ThreadExecute :: "u64 \<Rightarrow> sched \<Rightarrow> sched option" where
  "ThreadExecute t s =
     (if t = 0 then Some s
      else do {
        let TargetCpu = CalculateOptimalCpu t s;
        s \<leftarrow> lock_list s;
        let s = unlock_list (upd_thread t (\<lambda>T. T\<lparr>LastCpu := TargetCpu, tState := ThreadStateReady\<rparr>) s);
        AddThreadToReadyQueue TargetCpu t s })"

text \<open>\<^verbatim>\<open>ThreadArray\<close> is the array's first \<^verbatim>\<open>ThreadCount\<close> entries; null entries are skipped, as \<open>ThreadExecute\<close> does.\<close>

primrec ThreadExecuteMultiple :: "u64 list \<Rightarrow> sched \<Rightarrow> sched option" where
  "ThreadExecuteMultiple [] s = Some s"
| "ThreadExecuteMultiple (t # ts) s = do { s \<leftarrow> ThreadExecute t s; ThreadExecuteMultiple ts s }"

text \<open>The scan of \<^verbatim>\<open>LoadBalanceThreads\<close>: \<^verbatim>\<open>MaxLoad, MaxCpu, MinLoad, MinCpu\<close>.\<close>

definition load_extremes :: "sched \<Rightarrow> u32 \<times> u32 \<times> u32 \<times> u32" where
  "load_extremes s =
     for_range 0 (CpuCount s)
       (\<lambda>CpuIndex (MaxLoad, MaxCpu, MinLoad, MinCpu).
          let Load = GetCpuLoad CpuIndex s;
              (MaxLoad, MaxCpu) = (if MaxLoad < Load then (Load, CpuIndex) else (MaxLoad, MaxCpu));
              (MinLoad, MinCpu) = (if Load < MinLoad then (Load, CpuIndex) else (MinLoad, MinCpu))
          in (MaxLoad, MaxCpu, MinLoad, MinCpu))
       (0, 0, 0xFFFFFFFF, 0)"

definition LoadBalanceThreads :: "sched \<Rightarrow> sched option" where
  "LoadBalanceThreads s =
     (let (MaxLoad, MaxCpu, MinLoad, MinCpu) = load_extremes s in
      if MinLoad + 2 < MaxLoad
      then do {
        (ThreadToMigrate, s) \<leftarrow> GetNextThread MaxCpu s;
        if ThreadToMigrate = 0 then Some s
        else if CpuAffinity (Threads s ThreadToMigrate) = 0xFFFFFFFF \<or>
                CpuAffinity (Threads s ThreadToMigrate) AND cpu_bit MinCpu \<noteq> 0
        then AddThreadToReadyQueue MinCpu ThreadToMigrate (upd_thread ThreadToMigrate (\<lambda>T. T\<lparr>LastCpu := MinCpu\<rparr>) s)
        else AddThreadToReadyQueue MaxCpu ThreadToMigrate s }
      else Some s)"

text \<open>The four results; the source stores each through a pointer when the pointer is not null.\<close>

definition GetSystemLoadStats :: "sched \<Rightarrow> u32 \<times> u32 \<times> u32 \<times> u32" where
  "GetSystemLoadStats s =
     (let (TotalLoad, MaxLoad, MinLoad) =
            for_range 0 (CpuCount s)
              (\<lambda>CpuIndex (TotalLoad, MaxLoad, MinLoad).
                 let Load = GetCpuLoad CpuIndex s in
                 (TotalLoad + Load, if MaxLoad < Load then Load else MaxLoad, if Load < MinLoad then Load else MinLoad))
              (0, 0, 0xFFFFFFFF);
          MinLoad = (if MinLoad = 0xFFFFFFFF then 0 else MinLoad)
      in (TotalLoad, if 0 < CpuCount s then TotalLoad div CpuCount s else 0, MaxLoad, MinLoad))"

definition ThreadYield :: "Regs \<Rightarrow> sched \<Rightarrow> (Regs \<times> sched) option" where
  "ThreadYield = IrqStub 32"

text \<open>The fallback of \<^verbatim>\<open>ThreadSleep\<close>: \<^verbatim>\<open>hlt\<close> returns after an interrupt, of which the tick of the timer is the one
  that counts.\<close>

function halt_until :: "u64 \<Rightarrow> sched \<Rightarrow> sched" where
  "halt_until Wakeup s =
     (if GetSystemTicks s < Wakeup then halt_until Wakeup (s\<lparr>SystemTicks := SystemTicks s + 1\<rparr>) else s)"
  by pat_completeness auto
termination
proof (relation "measure (\<lambda>(Wakeup, s). unat Wakeup - unat (SystemTicks s))")
  fix Wakeup :: u64 and s :: sched
  assume "GetSystemTicks s < Wakeup"
  then show "((Wakeup, s\<lparr>SystemTicks := SystemTicks s + 1\<rparr>), Wakeup, s)
    \<in> measure (\<lambda>(Wakeup, s). unat Wakeup - unat (SystemTicks s))"
    using unat_Suc_less [of "SystemTicks s" Wakeup] by (simp add: word_less_nat_alt GetSystemTicks_def)
qed simp

declare halt_until.simps [simp del]

definition ThreadSleep :: "u64 \<Rightarrow> Regs \<Rightarrow> sched \<Rightarrow> (Regs \<times> sched) option" where
  "ThreadSleep Milliseconds r s = do {
     (Current, s) \<leftarrow> GetCurrentThread (ThisCpu s) s;
     if Current \<noteq> 0
     then IrqStub 32 r (upd_thread Current (\<lambda>T. T\<lparr>tState := ThreadStateSleeping, WaitReason := WaitReasonSleep,
            WakeupTime := GetSystemTicks s + Milliseconds\<rparr>) s)
     else Some (r, halt_until (GetSystemTicks s + Milliseconds) s) }"

definition ThreadExit :: "u32 \<Rightarrow> Regs \<Rightarrow> sched \<Rightarrow> (Regs \<times> sched) option" where
  "ThreadExit Code r s =
     (let CpuId = ThisCpu s in do {
        (Current, s) \<leftarrow> GetCurrentThread CpuId s;
        if Current = 0 then Some (r, s)
        else do {
          s \<leftarrow> AddThreadToZombieQueue CpuId Current
            (upd_thread Current (\<lambda>T. T\<lparr>tState := ThreadStateZombie, ExitCode := Code\<rparr>) s);
          IrqStub 32 r s } })"

partial_function (option) find_thread :: "(u64 \<Rightarrow> Thread) \<Rightarrow> u32 \<Rightarrow> u64 \<Rightarrow> u64 option" where
  "find_thread T Tid Current =
     (if Current = 0 then Some 0
      else if ThreadId (T Current) = Tid then Some Current else find_thread T Tid (tNext (T Current)))"

definition FindThreadById :: "u32 \<Rightarrow> sched \<Rightarrow> (u64 \<times> sched) option" where
  "FindThreadById Tid s = do {
     s \<leftarrow> lock_list s;
     t \<leftarrow> find_thread (Threads s) Tid (ThreadList s);
     Some (t, unlock_list s) }"

partial_function (option) count_threads :: "(u64 \<Rightarrow> Thread) \<Rightarrow> u64 \<Rightarrow> u32 \<Rightarrow> u32 option" where
  "count_threads T Current n =
     (if Current = 0 then Some n else count_threads T (tNext (T Current)) (n + 1))"

definition GetThreadCount :: "sched \<Rightarrow> (u32 \<times> sched) option" where
  "GetThreadCount s = do {
     s \<leftarrow> lock_list s;
     n \<leftarrow> count_threads (Threads s) (ThreadList s) 0;
     Some (n, unlock_list s) }"

partial_function (option) wake_list :: "u64 \<Rightarrow> u64 \<Rightarrow> sched \<Rightarrow> sched option" where
  "wake_list CurrentTicks Current s =
     (if Current = 0 then Some s
      else
        (let s = (if tState (Threads s Current) = ThreadStateSleeping \<and> WakeupTime (Threads s Current) \<le> CurrentTicks
                  then upd_thread Current (\<lambda>T. T\<lparr>tState := ThreadStateReady, WaitReason := WaitReasonNone, WakeupTime := 0\<rparr>) s
                  else s)
         in wake_list CurrentTicks (tNext (Threads s Current)) s))"

definition WakeSleepingThreads :: "sched \<Rightarrow> sched option" where
  "WakeSleepingThreads s =
     (let CurrentTicks = GetSystemTicks s in do {
        s \<leftarrow> lock_list s;
        s \<leftarrow> wake_list CurrentTicks (ThreadList s) s;
        Some (unlock_list s) })"

end
