(* ===== verification/VMM.thy ===== *)
theory VMM
  imports Memory "HOL-Library.Sublist"
begin

text \<open>
  The virtual memory manager: \<^verbatim>\<open>Kernel/VMM/VMM.c\<close> and \<^verbatim>\<open>Pages.c\<close>. Page tables and the \<^verbatim>\<open>VirtualMemorySpace\<close> structures live in
  byte-addressed memory, reached through the direct map; a table entry is the 64-bit word at \<^verbatim>\<open>table + 8 * index\<close>. The state
  holds the global \<^verbatim>\<open>Vmm\<close>, the page allocator, memory, the CR3 register and the log of what the code tells the
  processor's TLB. Console output is left out.
\<close>

section \<open>Data\<close>

abbreviation PageTableEntries :: u64 where "PageTableEntries \<equiv> 512"
abbreviation PTEPRESENT :: u64 where "PTEPRESENT \<equiv> 1"
abbreviation PTEWRITABLE :: u64 where "PTEWRITABLE \<equiv> 2"
abbreviation PTEUSER :: u64 where "PTEUSER \<equiv> 4"
abbreviation TableMask :: u64 where "TableMask \<equiv> 0xFFFFFFFFFFFFF000"
abbreviation FrameMask :: u64 where "FrameMask \<equiv> 0x000FFFFFFFFFF000"

record VirtualMemoryManager =
  KernelSpace :: u64
  VmmHhdmOffset :: u64
  KernelPml4Physical :: u64

datatype tlb_op = Invlpg u64 | LoadCr3 u64

record vmem =
  Vmm :: VirtualMemoryManager
  VPmm :: PhysicalMemoryManager
  VMem :: memory
  Cr3 :: u64
  TlbLog :: "tlb_op list"

text \<open>The fields of a \<^verbatim>\<open>VirtualMemorySpace\<close> at an address, and the entries of a table.\<close>

definition sp_Pml4 :: "memory \<Rightarrow> u64 \<Rightarrow> u64" where "sp_Pml4 m p = load_word m p"
definition sp_PhysicalBase :: "memory \<Rightarrow> u64 \<Rightarrow> u64" where "sp_PhysicalBase m p = load_word m (p + 8)"
definition sp_RefCount :: "memory \<Rightarrow> u64 \<Rightarrow> u32" where "sp_RefCount m p = load_word m (p + 16)"

definition set_sp_Pml4 :: "u64 \<Rightarrow> u64 \<Rightarrow> memory \<Rightarrow> memory" where "set_sp_Pml4 p v m = store_word m p v"
definition set_sp_PhysicalBase :: "u64 \<Rightarrow> u64 \<Rightarrow> memory \<Rightarrow> memory" where "set_sp_PhysicalBase p v m = store_word m (p + 8) v"
definition set_sp_RefCount :: "u64 \<Rightarrow> u32 \<Rightarrow> memory \<Rightarrow> memory" where "set_sp_RefCount p v m = store_word m (p + 16) v"

definition pte :: "memory \<Rightarrow> u64 \<Rightarrow> u64 \<Rightarrow> u64" where "pte m Table Index = load_word m (Table + 8 * Index)"
definition set_pte :: "u64 \<Rightarrow> u64 \<Rightarrow> u64 \<Rightarrow> memory \<Rightarrow> memory" where
  "set_pte Table Index v m = store_word m (Table + 8 * Index) v"

abbreviation present :: "u64 \<Rightarrow> bool" where "present e \<equiv> e AND PTEPRESENT \<noteq> 0"

definition clear_table :: "u64 \<Rightarrow> memory \<Rightarrow> memory" where
  "clear_table Table m = for_range 0 PageTableEntries (\<lambda>Index. set_pte Table Index 0) m"

section \<open>Page tables (Pages.c)\<close>

definition Pml4Index :: "u64 \<Rightarrow> u64" where "Pml4Index va = drop_bit 39 va AND 0x1FF"
definition PdptIndex :: "u64 \<Rightarrow> u64" where "PdptIndex va = drop_bit 30 va AND 0x1FF"
definition PdIndex :: "u64 \<Rightarrow> u64" where "PdIndex va = drop_bit 21 va AND 0x1FF"
definition PtIndex :: "u64 \<Rightarrow> u64" where "PtIndex va = drop_bit 12 va AND 0x1FF"

text \<open>The entry on the way down: present, or created when the caller asks for it. False is a null return.\<close>

definition ensure_entry :: "bool \<Rightarrow> u64 \<Rightarrow> u64 \<Rightarrow> vmem \<Rightarrow> bool \<times> vmem" where
  "ensure_entry Create Table Index s =
     (if present (pte (VMem s) Table Index) then (True, s)
      else if \<not> Create then (False, s)
      else
        (let (NewTablePhys, P) = AllocPage (VPmm s); s = s\<lparr>VPmm := P\<rparr> in
         if NewTablePhys = 0 then (False, s)
         else
           (let NewTable = PhysToVirt NewTablePhys P;
                m = clear_table NewTable (VMem s)
            in (True, s\<lparr>VMem := set_pte Table Index (NewTablePhys OR PTEPRESENT OR PTEWRITABLE OR PTEUSER) m\<rparr>))))"

definition next_table :: "u64 \<Rightarrow> u64 \<Rightarrow> vmem \<Rightarrow> u64" where
  "next_table Table Index s = PhysToVirt (pte (VMem s) Table Index AND TableMask) (VPmm s)"

primrec table_walk :: "nat \<Rightarrow> int \<Rightarrow> u64 \<Rightarrow> bool \<Rightarrow> u64 \<Rightarrow> u64 \<Rightarrow> vmem \<Rightarrow> u64 \<times> vmem" where
  "table_walk 0 Target va Create Table Index s = (Table, s)"
| "table_walk (Suc L) Target va Create Table Index s =
     (if Target < int (Suc L) then
        (let (ok, s) = ensure_entry Create Table Index s in
         if \<not> ok then (0, s)
         else
           (let Next = next_table Table Index s in
            if L = 1 then (Next, s)
            else table_walk L Target va Create Next
                   (if L = 3 then PdptIndex va else if L = 2 then PdIndex va else Index) s))
      else (Table, s))"

definition GetPageTable :: "u64 \<Rightarrow> u64 \<Rightarrow> int \<Rightarrow> bool \<Rightarrow> vmem \<Rightarrow> u64 \<times> vmem" where
  "GetPageTable Pml4 va Level Create s = table_walk 4 Level va Create Pml4 (Pml4Index va) s"

definition FlushTlb :: "u64 \<Rightarrow> vmem \<Rightarrow> vmem" where
  "FlushTlb va s = s\<lparr>TlbLog := Invlpg va # TlbLog s\<rparr>"

definition FlushAllTlb :: "vmem \<Rightarrow> vmem" where
  "FlushAllTlb s = s\<lparr>TlbLog := LoadCr3 (Cr3 s) # TlbLog s\<rparr>"

section \<open>Spaces and mappings (VMM.c)\<close>

definition InitializeVmm :: "vmem \<Rightarrow> vmem" where
  "InitializeVmm s =
     (let Base = Cr3 s AND TableMask;
          (a, P) = AllocPage (VPmm s);
          Space = PhysToVirt a P;
          s = s\<lparr>Vmm := (Vmm s)\<lparr>VmmHhdmOffset := HhdmOffset (VPmm s), KernelPml4Physical := Base, KernelSpace := Space\<rparr>, VPmm := P\<rparr>
      in if Space = 0 then s
         else s\<lparr>VMem := set_sp_RefCount Space 1
                (set_sp_Pml4 Space (PhysToVirt Base P) (set_sp_PhysicalBase Space Base (VMem s)))\<rparr>)"

definition clear_space :: "u64 \<Rightarrow> memory \<Rightarrow> memory" where
  "clear_space Space m = for_range 0 PageTableEntries (\<lambda>Index m. set_pte (sp_Pml4 m Space) Index 0 m) m"

definition copy_kernel_half :: "u64 \<Rightarrow> u64 \<Rightarrow> memory \<Rightarrow> memory" where
  "copy_kernel_half Space Kernel m =
     for_range 256 PageTableEntries (\<lambda>Index m. set_pte (sp_Pml4 m Space) Index (pte m (sp_Pml4 m Kernel) Index) m) m"

definition CreateVirtualSpace :: "vmem \<Rightarrow> u64 \<times> vmem" where
  "CreateVirtualSpace s =
     (if KernelSpace (Vmm s) = 0 \<or> sp_Pml4 (VMem s) (KernelSpace (Vmm s)) = 0 then (0, s)
      else
        (let (SpacePhys, P) = AllocPage (VPmm s) in
         if SpacePhys = 0 then (0, s\<lparr>VPmm := P\<rparr>)
         else
           (let Space = PhysToVirt SpacePhys P in
            if Space = 0 then (0, s\<lparr>VPmm := FreePage SpacePhys P\<rparr>)
            else
              (let (Pml4Phys, P) = AllocPage P in
               if Pml4Phys = 0 then (0, s\<lparr>VPmm := FreePage SpacePhys P\<rparr>)
               else
                 (let Pml4 = PhysToVirt Pml4Phys P;
                      m = set_sp_RefCount Space 1 (set_sp_Pml4 Space Pml4 (set_sp_PhysicalBase Space Pml4Phys (VMem s)))
                  in if sp_Pml4 m Space = 0
                     then (0, s\<lparr>VMem := m, VPmm := FreePage Pml4Phys (FreePage SpacePhys P)\<rparr>)
                     else (Space, s\<lparr>VPmm := P,
                             VMem := copy_kernel_half Space (KernelSpace (Vmm s)) (clear_space Space m)\<rparr>))))))"

text \<open>The nested loops of \<^verbatim>\<open>DestroyVirtualSpace\<close>, inside out.\<close>

definition free_pd_entries :: "u64 \<Rightarrow> memory \<Rightarrow> PhysicalMemoryManager \<Rightarrow> PhysicalMemoryManager" where
  "free_pd_entries Pd m P =
     for_range 0 PageTableEntries
       (\<lambda>PdI P. if \<not> present (pte m Pd PdI) then P else FreePage (pte m Pd PdI AND FrameMask) P) P"

definition free_pdpt_entries :: "u64 \<Rightarrow> memory \<Rightarrow> PhysicalMemoryManager \<Rightarrow> PhysicalMemoryManager" where
  "free_pdpt_entries Pdpt m P =
     for_range 0 PageTableEntries
       (\<lambda>PdptI P.
          if \<not> present (pte m Pdpt PdptI) then P
          else
            (let PdPhys = pte m Pdpt PdptI AND FrameMask; Pd = PhysToVirt PdPhys P in
             if Pd = 0 then P else FreePage PdPhys (free_pd_entries Pd m P))) P"

definition free_pml4_entries :: "u64 \<Rightarrow> memory \<Rightarrow> PhysicalMemoryManager \<Rightarrow> PhysicalMemoryManager" where
  "free_pml4_entries Pml4 m P =
     for_range 0 (256 :: u64)
       (\<lambda>Pml4I P.
          if \<not> present (pte m Pml4 Pml4I) then P
          else
            (let PdptPhys = pte m Pml4 Pml4I AND FrameMask; Pdpt = PhysToVirt PdptPhys P in
             if Pdpt = 0 then P else FreePage PdptPhys (free_pdpt_entries Pdpt m P))) P"

definition DestroyVirtualSpace :: "u64 \<Rightarrow> vmem \<Rightarrow> vmem" where
  "DestroyVirtualSpace Space s =
     (if Space = 0 \<or> Space = KernelSpace (Vmm s) then s
      else
        (let s = s\<lparr>VMem := set_sp_RefCount Space (sp_RefCount (VMem s) Space - 1) (VMem s)\<rparr> in
         if 0 < sp_RefCount (VMem s) Space then s
         else
           (let P = free_pml4_entries (sp_Pml4 (VMem s) Space) (VMem s) (VPmm s);
                P = FreePage (sp_PhysicalBase (VMem s) Space) P
            in s\<lparr>VPmm := FreePage (VirtToPhys Space P) P\<rparr>)))"

definition MapPage :: "u64 \<Rightarrow> u64 \<Rightarrow> u64 \<Rightarrow> u64 \<Rightarrow> vmem \<Rightarrow> int \<times> vmem" where
  "MapPage Space VirtAddr PhysAddr Flags s =
     (if Space = 0 \<or> VirtAddr mod PageSize \<noteq> 0 \<or> PhysAddr mod PageSize \<noteq> 0 then (0, s)
      else if FrameMask < PhysAddr then (0, s)
      else
        (let (Pt, s) = GetPageTable (sp_Pml4 (VMem s) Space) VirtAddr 1 True s in
         if Pt = 0 then (0, s)
         else if present (pte (VMem s) Pt (PtIndex VirtAddr)) then (1, s)
         else (1, FlushTlb VirtAddr
                    (s\<lparr>VMem := set_pte Pt (PtIndex VirtAddr) ((PhysAddr AND FrameMask) OR Flags OR PTEPRESENT) (VMem s)\<rparr>))))"

definition UnmapPage :: "u64 \<Rightarrow> u64 \<Rightarrow> vmem \<Rightarrow> int \<times> vmem" where
  "UnmapPage Space VirtAddr s =
     (if Space = 0 \<or> VirtAddr mod PageSize \<noteq> 0 then (0, s)
      else
        (let (Pt, s) = GetPageTable (sp_Pml4 (VMem s) Space) VirtAddr 1 False s in
         if Pt = 0 then (0, s)
         else if \<not> present (pte (VMem s) Pt (PtIndex VirtAddr)) then (0, s)
         else (1, FlushTlb VirtAddr (s\<lparr>VMem := set_pte Pt (PtIndex VirtAddr) 0 (VMem s)\<rparr>))))"

definition GetPhysicalAddress :: "u64 \<Rightarrow> u64 \<Rightarrow> vmem \<Rightarrow> u64" where
  "GetPhysicalAddress Space VirtAddr s =
     (if Space = 0 then 0
      else
        (let (Pt, s) = GetPageTable (sp_Pml4 (VMem s) Space) VirtAddr 1 False s in
         if Pt = 0 then 0
         else if \<not> present (pte (VMem s) Pt (PtIndex VirtAddr)) then 0
         else (pte (VMem s) Pt (PtIndex VirtAddr) AND FrameMask) + (VirtAddr AND 0xFFF)))"

definition SwitchVirtualSpace :: "u64 \<Rightarrow> vmem \<Rightarrow> vmem" where
  "SwitchVirtualSpace Space s =
     (if Space = 0 then s
      else s\<lparr>Cr3 := sp_PhysicalBase (VMem s) Space, TlbLog := LoadCr3 (sp_PhysicalBase (VMem s) Space) # TlbLog s\<rparr>)"


section \<open>Entries of a table\<close>

lemma unat_entry:
  assumes "t mod 4096 = (0 :: u64)" "i < 512"
  shows "unat (t + 8 * i) = unat t + 8 * unat i"
proof -
  have i: "unat i < 512" using assms(2) by (simp add: word_less_nat_alt)
  then have "unat (8 * i) = 8 * unat i" by (simp add: unat_word_ariths)
  then show ?thesis using i page_end [OF assms(1)] by (subst unat_add_small) simp_all
qed

lemma entry_span:
  assumes "t mod 4096 = (0 :: u64)" "i < 512"
  shows "span (t + 8 * i) 8 \<subseteq> span t 4096"
proof (rule span_subset)
  have "unat i < 512" using assms(2) by (simp add: word_less_nat_alt)
  then show "unat (t + 8 * i) + 8 \<le> unat t + 4096" "unat t \<le> unat (t + 8 * i)" using unat_entry [OF assms] by simp_all
qed (rule page_end [OF assms(1)])

lemma set_pte_same_on: "t mod 4096 = 0 \<Longrightarrow> i < 512 \<Longrightarrow> same_on (- span t 4096) m (set_pte t i v m)"
  unfolding set_pte_def by (rule store_word_same_on) (simp add: entry_span)

lemma pte_same_on: "t mod 4096 = 0 \<Longrightarrow> i < 512 \<Longrightarrow> same_on (span t 4096) m m' \<Longrightarrow> pte m' t i = pte m t i"
  unfolding pte_def by (rule load_same, erule same_on_subset) (simp add: entry_span)

lemma pte_set_pte:
  assumes "t mod 4096 = (0 :: u64)" "u mod 4096 = 0" "i < 512" "j < 512"
  shows "pte (set_pte t i v m) u j = (if u = t \<and> j = i then v else pte m u j)"
proof (cases "u = t")
  case True
  have i: "unat i < 512" "unat j < 512" using assms by (simp_all add: word_less_nat_alt)
  show ?thesis
  proof (cases "j = i")
    case False
    then have "unat i \<noteq> unat j" by (simp add: word_unat_eq_iff)
    then have "unat (t + 8 * i) + 8 \<le> unat (t + 8 * j) \<or> unat (t + 8 * j) + 8 \<le> unat (t + 8 * i)"
      unfolding unat_entry [OF assms(1,3)] unat_entry [OF assms(1,4)] by linarith
    moreover have "unat (t + 8 * i) + 8 \<le> 2 ^ 64" "unat (t + 8 * j) + 8 \<le> 2 ^ 64"
      using page_end [OF assms(1)] i unfolding unat_entry [OF assms(1,3)] unat_entry [OF assms(1,4)] by linarith+
    ultimately show ?thesis using False True unfolding pte_def set_pte_def by (simp add: load_store_apart)
  qed (simp add: True pte_def set_pte_def)
next
  case False
  have "same_on (span u 4096) m (set_pte t i v m)"
    using False by (intro page_untouched [OF assms(1,2) _ set_pte_same_on [OF assms(1,3)]]) simp
  then show ?thesis using False pte_same_on [OF assms(2,4)] by simp
qed

lemma clear_table_spec:
  assumes t: "t mod 4096 = (0 :: u64)"
  shows "same_on (- span t 4096) m (clear_table t m)"
    and "\<And>u j. u mod 4096 = 0 \<Longrightarrow> j < 512 \<Longrightarrow> pte (clear_table t m) u j = (if u = t then 0 else pte m u j)"
proof -
  let ?I = "\<lambda>i m'. same_on (- span t 4096) m m' \<and>
    (\<forall>u j. u mod 4096 = 0 \<longrightarrow> j < 512 \<longrightarrow> pte m' u j = (if u = t \<and> j < i then 0 else pte m u j))"
  have "?I 512 (for_range 0 512 (\<lambda>i. set_pte t i 0) m)"
  proof (rule for_range_invariant [where I = ?I])
    fix i m' assume i: "i < (512 :: u64)" and I: "?I i m'"
    have "same_on (- span t 4096) m (set_pte t i 0 m')"
      using I set_pte_same_on [OF t i] same_on_trans by blast
    moreover have "pte (set_pte t i 0 m') u j = (if u = t \<and> j < i + 1 then 0 else pte m u j)"
      if that: "u mod 4096 = 0" "j < 512" for u j
    proof -
      have "pte m' u j = (if u = t \<and> j < i then 0 else pte m u j)"
        by (rule conjunct2 [OF I, rule_format, OF that])
      then show ?thesis using pte_set_pte [OF t that(1) i that(2), of 0 m'] less_plus_one_iff [OF i, of j] by (auto simp: order_le_less)
    qed
    ultimately show "?I (i + 1) (set_pte t i 0 m')" by blast
  qed simp_all
  then show "same_on (- span t 4096) m (clear_table t m)"
    "\<And>u j. u mod 4096 = 0 \<Longrightarrow> j < 512 \<Longrightarrow> pte (clear_table t m) u j = (if u = t then 0 else pte m u j)"
    unfolding clear_table_def by auto
qed

section \<open>Walking down the tables\<close>

text \<open>The table that a list of indices leads to, when every entry on the way is present.\<close>

primrec descend :: "memory \<Rightarrow> u64 \<Rightarrow> u64 \<Rightarrow> u64 list \<Rightarrow> u64 option" where
  "descend m off t [] = Some t"
| "descend m off t (i # is) =
     (if present (pte m t i) then descend m off ((pte m t i AND TableMask) + off) is else None)"

lemma descend_append: "descend m off t (is @ js) = Option.bind (descend m off t is) (\<lambda>u. descend m off u js)"
  by (induction "is" arbitrary: t) simp_all

lemma descend_snoc:
  "descend m off t (is @ [i]) = (case descend m off t is of None \<Rightarrow> None
     | Some u \<Rightarrow> if present (pte m u i) then Some ((pte m u i AND TableMask) + off) else None)"
  by (simp add: descend_append split: option.splits)

text \<open>The paths of the user half: at most three indices, the first below 256.\<close>

definition upath :: "u64 list \<Rightarrow> bool" where
  "upath is \<longleftrightarrow> length is \<le> 3 \<and> (\<forall>i\<in>set is. i < 512) \<and> (is \<noteq> [] \<longrightarrow> hd is < 256)"

lemma upath_snocD: "upath (is @ [i]) \<Longrightarrow> upath is \<and> i < 512"
  by (cases "is") (auto simp: upath_def)

definition tables_ok :: "memory \<Rightarrow> PhysicalMemoryManager \<Rightarrow> u64 \<Rightarrow> bool" where
  "tables_ok m P r \<longleftrightarrow>
     (\<forall>is t. upath is \<longrightarrow> descend m (HhdmOffset P) r is = Some t \<longrightarrow> VirtToPhys t P \<in> taken_addrs P - {0}) \<and>
     (\<forall>is js t. upath is \<longrightarrow> upath js \<longrightarrow> descend m (HhdmOffset P) r is = Some t \<longrightarrow>
        descend m (HhdmOffset P) r js = Some t \<longrightarrow> is = js)"

text \<open>A write to one entry of one table changes only the paths through that entry.\<close>

lemma descend_set_other:
  assumes inj: "\<And>js. upath js \<Longrightarrow> descend m off r js = Some t \<Longrightarrow> js = is"
    and al: "\<And>js u. upath js \<Longrightarrow> descend m off r js = Some u \<Longrightarrow> u mod 4096 = 0"
    and t: "t mod 4096 = 0" "i < 512"
    and js: "upath js" "\<not> prefix (is @ [i]) js"
  shows "descend (set_pte t i v m) off r js = descend m off r js"
  using js
proof (induction js rule: rev_induct)
  case (snoc j js)
  have u: "upath js" "j < 512" using upath_snocD [OF snoc.prems(1)] by simp_all
  have IH: "descend (set_pte t i v m) off r js = descend m off r js"
    using snoc.IH [OF u(1)] snoc.prems(2) by (auto simp: prefix_snoc)
  show ?case
  proof (cases "descend m off r js")
    case (Some w)
    have "\<not> (w = t \<and> j = i)" using inj [OF u(1)] Some snoc.prems(2) by auto
    then have "pte (set_pte t i v m) w j = pte m w j"
      using pte_set_pte [OF t(1) al [OF u(1) Some] t(2) u(2), of v m] by auto
    then show ?thesis by (simp add: descend_snoc IH Some)
  qed (simp add: descend_snoc IH)
qed simp

section \<open>Address spaces\<close>

abbreviation table_at :: "vmem \<Rightarrow> u64 \<Rightarrow> u64 list \<Rightarrow> u64 option" where
  "table_at s r is \<equiv> descend (VMem s) (HhdmOffset (VPmm s)) r is"

text \<open>The entry of a page table reached by three indices; zero where the table does not exist.\<close>

definition leaf :: "memory \<Rightarrow> u64 \<Rightarrow> u64 \<Rightarrow> u64 list \<Rightarrow> u64 \<Rightarrow> u64" where
  "leaf m off r is j = (case descend m off r is of None \<Rightarrow> 0 | Some t \<Rightarrow> pte m t j)"

text \<open>The structure at \<open>Space\<close> names a tree of tables whose user half is made of distinct allocated pages, none
  of them the page of the structure itself.\<close>

definition space_inv :: "u64 \<Rightarrow> vmem \<Rightarrow> bool" where
  "space_inv Space s \<longleftrightarrow> pmm_inv (VPmm s) \<and> hhdm_ok (VPmm s) \<and> VirtToPhys Space (VPmm s) \<in> taken_addrs (VPmm s) - {0} \<and>
     tables_ok (VMem s) (VPmm s) (sp_Pml4 (VMem s) Space) \<and>
     (\<forall>is. upath is \<longrightarrow> table_at s (sp_Pml4 (VMem s) Space) is \<noteq> Some Space)"

lemma mapped_page:
  assumes "pmm_inv P" "hhdm_ok P" "VirtToPhys t P \<in> taken_addrs P - {0}"
  shows "t mod 4096 = 0" "t \<noteq> 0"
proof -
  have "t = PhysToVirt (VirtToPhys t P) P" by (simp add: VirtToPhys_def PhysToVirt_def)
  then show "t mod 4096 = 0" "t \<noteq> 0" using direct_map [OF assms(1,2), of "VirtToPhys t P"] assms(3) by auto
qed

lemma tables_okD:
  assumes "pmm_inv P" "hhdm_ok P" "tables_ok m P r" "upath is" "descend m (HhdmOffset P) r is = Some t"
  shows "VirtToPhys t P \<in> taken_addrs P - {0}" "t mod 4096 = 0" "t \<noteq> 0"
    "\<And>js. upath js \<Longrightarrow> descend m (HhdmOffset P) r js = Some t \<Longrightarrow> js = is"
proof -
  show v: "VirtToPhys t P \<in> taken_addrs P - {0}" using assms(3-5) unfolding tables_ok_def by blast
  show "t mod 4096 = 0" "t \<noteq> 0" by (rule mapped_page [OF assms(1,2) v])+
  show "js = is" if "upath js" "descend m (HhdmOffset P) r js = Some t" for js
    using assms(3-5) that unfolding tables_ok_def by blast
qed

lemma descend_same:
  assumes "\<And>js u j. upath js \<Longrightarrow> descend m off r js = Some u \<Longrightarrow> j < 512 \<Longrightarrow> pte m' u j = pte m u j" "upath js"
  shows "descend m' off r js = descend m off r js"
  using assms(2)
proof (induction js rule: rev_induct)
  case (snoc j js)
  then have u: "upath js" "j < 512" "descend m' off r js = descend m off r js"
    using upath_snocD [OF snoc.prems] by simp_all
  then show ?case using assms(1) [OF u(1) _ u(2)] by (simp add: descend_snoc split: option.splits)
qed simp

lemma or_flags_mask:
  assumes "a mod 4096 = (0 :: u64)" "f < 4096"
  shows "(a OR f) AND TableMask = a"
proof -
  have "take_bit 12 a = 0" using assms(1) by (simp add: take_bit_eq_mod)
  then have a: "12 \<le> k" if "bit a k" for k using that by (metis bit_0_eq bit_take_bit_iff bot_apply bot_bool_def not_le)
  have "take_bit 12 (unat f) = unat f" using assms(2) by (simp add: take_bit_nat_eq_self word_less_nat_alt)
  then have "\<not> bit (unat f) k" if "12 \<le> k" for k using that by (metis bit_take_bit_iff not_less)
  then have f: "\<not> bit f k" if "12 \<le> k" for k using that by (auto simp: bit_unsigned_iff dest: bit_imp_le_length)
  have tm: "TableMask = NOT (mask 12)" by code_simp
  show ?thesis unfolding tm by (rule bit_word_eqI) (use a f in \<open>auto simp: bit_simps not_less\<close>)
qed

lemma present_bit: "present e \<longleftrightarrow> bit e 0"
  by (simp add: and_one_eq bit_0 odd_iff_mod_2_eq_one)

text \<open>Hanging a fresh empty table under an absent entry: that path now leads to it, nothing below it is present, and
  every other path is as before.\<close>

lemma descend_new_table:
  assumes P: "pmm_inv P" "hhdm_ok P" "tables_ok m P r" and a: "AllocPage P = (a, Q)" "a \<noteq> 0"
    and pth: "upath (is @ [i])" "descend m (HhdmOffset P) r is = Some t" "\<not> present (pte m t i)"
    and n: "n = PhysToVirt a P" and m': "m' = set_pte t i (a OR 1 OR 2 OR 4) (clear_table n m)" and js: "upath js"
  shows "descend m' (HhdmOffset P) r js =
    (if js = is @ [i] then Some n else if prefix (is @ [i]) js then None else descend m (HhdmOffset P) r js)"
    and "\<And>u j. u mod 4096 = 0 \<Longrightarrow> j < 512 \<Longrightarrow> pte m' u j = (if u = t \<and> j = i then a OR 1 OR 2 OR 4 else if u = n then 0 else pte m u j)"
    and "n \<noteq> t" "n mod 4096 = 0" "same_on (- (span n 4096 \<union> span t 4096)) m m'"
proof -
  let ?off = "HhdmOffset P" and ?m = "clear_table n m" and ?e = "a OR 1 OR 2 OR 4"
  have i: "upath is" "i < 512" using upath_snocD [OF pth(1)] by simp_all
  have av: "a \<in> avail_addrs P" using pmm.alloc_some [OF P(1) a] by simp
  have n0: "n mod 4096 = 0" using direct_map(1) [OF P(1,2) _ a(2)] av n by simp
  have fresh: "descend m ?off r ks \<noteq> Some n" if "upath ks" for ks
    using tables_okD(1) [OF P that] pmm.alloc_fresh [OF P(1) a] by (auto simp: n)
  note T = tables_okD [OF P i(1) pth(2)]
  show nt: "n \<noteq> t" using fresh [OF i(1)] pth(2) by blast
  show "n mod 4096 = 0" by (rule n0)
  note C = clear_table_spec [OF n0, where m = m]
  show pm: "pte m' u j = (if u = t \<and> j = i then ?e else if u = n then 0 else pte m u j)"
    if "u mod 4096 = 0" "j < 512" for u j
    unfolding m' pte_set_pte [OF T(2) that(1) i(2) that(2)] C(2) [OF that] by (rule refl)
  show "same_on (- (span n 4096 \<union> span t 4096)) m m'"
    unfolding m' by (rule same_on_trans [OF same_on_subset [OF C(1)] same_on_subset [OF set_pte_same_on [OF T(2) i(2)]]]) auto
  have d1: "descend ?m ?off r ks = descend m ?off r ks" if "upath ks" for ks
  proof (rule descend_same [OF _ that])
    fix ls u j assume "upath ls" "descend m ?off r ls = Some u" "j < (512 :: u64)"
    then show "pte ?m u j = pte m u j" using tables_okD(2) [OF P] fresh [of ls] C(2) [of u j] by auto
  qed
  have other: "descend m' ?off r ks = descend m ?off r ks" if "upath ks" "\<not> prefix (is @ [i]) ks" for ks
    unfolding m' d1 [OF that(1), symmetric]
    by (rule descend_set_other [OF _ _ T(2) i(2) that]) (use d1 T(4) tables_okD(2) [OF P] in auto)
  have at: "descend m' ?off r is = Some t" using other [OF i(1)] pth(2) by simp
  have ez: "?e AND TableMask = a" "present ?e"
  proof -
    have "a mod 4096 = 0" using pmm.pool_aligned [OF P(1)] av by blast
    then show "?e AND TableMask = a" using or_flags_mask [of a 7] by (simp add: or.assoc)
    show "present ?e" unfolding present_bit by (simp add: bit_or_iff)
  qed
  have step: "descend m' ?off r (is @ [i] @ ks) = descend m' ?off n ks" for ks
    using at pm [OF T(2) i(2)] ez n by (simp add: descend_append PhysToVirt_def)
  have empty: "descend m' ?off n (k # ks) = None" if "k < 512" for k ks
    using pm [OF n0 that] nt by simp
  show "descend m' ?off r js = (if js = is @ [i] then Some n else if prefix (is @ [i]) js then None else descend m ?off r js)"
  proof (cases "prefix (is @ [i]) js")
    case True
    then obtain ks where ks: "js = is @ [i] @ ks" by (auto simp: prefix_def)
    show ?thesis
    proof (cases ks)
      case (Cons k ks')
      then have "k < 512" using js ks by (simp add: upath_def)
      then show ?thesis using step [of ks] empty Cons ks True by simp
    qed (use step [of ks] ks in simp)
  next
    case False
    then show ?thesis using other [OF js False] by auto
  qed
qed

lemma space_invD:
  assumes "space_inv Space s"
  shows "pmm_inv (VPmm s)" "hhdm_ok (VPmm s)" "VirtToPhys Space (VPmm s) \<in> taken_addrs (VPmm s) - {0}"
    "tables_ok (VMem s) (VPmm s) (sp_Pml4 (VMem s) Space)" "Space mod 4096 = 0" "Space \<noteq> 0"
    "\<And>is. upath is \<Longrightarrow> table_at s (sp_Pml4 (VMem s) Space) is \<noteq> Some Space"
  using assms mapped_page [of "VPmm s" Space] by (auto simp: space_inv_def)

lemma sp_same:
  assumes "p mod 4096 = 0" "same_on (span p 4096) m m'"
  shows "sp_Pml4 m' p = sp_Pml4 m p" "sp_PhysicalBase m' p = sp_PhysicalBase m p" "sp_RefCount m' p = sp_RefCount m p"
proof -
  have u: "unat (p + 8) = unat p + 8" "unat (p + 16) = unat p + 16" "unat p + 4096 \<le> 2 ^ 64"
    using unat_page_offset [OF assms(1), of 8] unat_page_offset [OF assms(1), of 16] page_end [OF assms(1)] by simp_all
  show "sp_Pml4 m' p = sp_Pml4 m p" unfolding sp_Pml4_def
    by (rule load_same, rule same_on_subset [OF assms(2)], rule span_subset) (use u in simp_all)
  show "sp_PhysicalBase m' p = sp_PhysicalBase m p" unfolding sp_PhysicalBase_def
    by (rule load_same, rule same_on_subset [OF assms(2)], rule span_subset) (use u in simp_all)
  show "sp_RefCount m' p = sp_RefCount m p" unfolding sp_RefCount_def
    by (rule load_same, rule same_on_subset [OF assms(2)], rule span_subset) (use u in simp_all)
qed

text \<open>A step that keeps every translation of the user half.\<close>

definition same_maps :: "u64 \<Rightarrow> vmem \<Rightarrow> vmem \<Rightarrow> bool" where
  "same_maps Space s s' \<longleftrightarrow> space_inv Space s' \<and> sp_Pml4 (VMem s') Space = sp_Pml4 (VMem s) Space \<and>
     HhdmOffset (VPmm s') = HhdmOffset (VPmm s) \<and> Vmm s' = Vmm s \<and> Cr3 s' = Cr3 s \<and> TlbLog s' = TlbLog s \<and>
     (\<forall>is j. upath is \<and> length is = 3 \<and> j < 512 \<longrightarrow>
        leaf (VMem s') (HhdmOffset (VPmm s)) (sp_Pml4 (VMem s) Space) is j =
        leaf (VMem s) (HhdmOffset (VPmm s)) (sp_Pml4 (VMem s) Space) is j)"

lemma same_maps_refl: "space_inv Space s \<Longrightarrow> same_maps Space s s"
  by (simp add: same_maps_def)

lemma same_maps_trans: "same_maps Space s t \<Longrightarrow> same_maps Space t u \<Longrightarrow> same_maps Space s u"
  by (simp add: same_maps_def)

lemma tables_ok_new:
  assumes P: "pmm_inv P" "hhdm_ok P" "tables_ok m P r" and a: "AllocPage P = (a, Q)" "a \<noteq> 0"
    and pth: "upath (is @ [i])" "descend m (HhdmOffset P) r is = Some t" "\<not> present (pte m t i)"
    and n: "n = PhysToVirt a P" and m': "m' = set_pte t i (a OR 1 OR 2 OR 4) (clear_table n m)"
  shows "tables_ok m' Q r"
proof -
  note D = descend_new_table [OF P a pth n m']
  note F = alloc_pmm_frame [OF P(1) a(1)] and A = pmm.alloc_some [OF P(1) a]
  have v: "VirtToPhys u Q = VirtToPhys u P" for u by (simp add: VirtToPhys_def F)
  have old: "descend m' (HhdmOffset P) r js = Some u \<Longrightarrow> js \<noteq> is @ [i] \<Longrightarrow> descend m (HhdmOffset P) r js = Some u" if "upath js" for js u
    using D(1) [OF that] by (auto split: if_splits)
  have new: "u = n" if "descend m' (HhdmOffset P) r (is @ [i]) = Some u" for u
    using D(1) [OF pth(1)] that by simp
  have fresh: "descend m (HhdmOffset P) r ks \<noteq> Some n" if "upath ks" for ks
    using tables_okD(1) [OF P that] pmm.alloc_fresh [OF P(1) a] by (auto simp: n)
  show ?thesis unfolding tables_ok_def F v
  proof (intro conjI allI impI)
    fix js u assume js: "upath js" "descend m' (HhdmOffset P) r js = Some u"
    show "VirtToPhys u P \<in> taken_addrs Q - {0}"
    proof (cases "js = is @ [i]")
      case True
      then show ?thesis using new js(2) A a(2) by (simp add: n)
    next
      case False
      then show ?thesis using tables_okD(1) [OF P js(1) old [OF js False]] A by simp
    qed
  next
    fix js ks u assume js: "upath js" "upath ks" "descend m' (HhdmOffset P) r js = Some u" "descend m' (HhdmOffset P) r ks = Some u"
    show "js = ks"
    proof (cases "u = n")
      case True
      then show ?thesis using js old fresh by metis
    next
      case False
      then have "js \<noteq> is @ [i]" "ks \<noteq> is @ [i]" using js new by blast+
      then show ?thesis using tables_okD(4) [OF P js(2) old [OF js(2,4)] js(1)] old [OF js(1,3)] by simp
    qed
  qed
qed

lemma ensure_entry_new:
  assumes "\<not> present (pte (VMem s) t i)" "AllocPage (VPmm s) = (a, Q)" "a \<noteq> 0"
  shows "ensure_entry True t i s = (True, s\<lparr>VPmm := Q, VMem := set_pte t i (a OR 1 OR 2 OR 4) (clear_table (PhysToVirt a Q) (VMem s))\<rparr>)"
  using assms unfolding ensure_entry_def Let_def by (simp only: if_False if_True prod.case not_True_eq_False simp_thms) simp

lemma ensure_entry_ok:
  assumes S: "space_inv Space s" and r: "r = sp_Pml4 (VMem s) Space"
    and pth: "upath (is @ [i])" "table_at s r is = Some t" and e: "ensure_entry True t i s = (ok, s')"
  shows "same_maps Space s s'" "ok \<Longrightarrow> table_at s' r (is @ [i]) = Some (next_table t i s')"
    "\<not> ok \<Longrightarrow> s' = s \<and> avail_addrs (VPmm s) = {}"
    "card (avail_addrs (VPmm s)) \<le> Suc (card (avail_addrs (VPmm s')))"
proof -
  note I = space_invD [OF S, folded r]
  have len: "length is \<le> 2" using pth(1) by (simp add: upath_def)
  have i: "upath is" "i < 512" using upath_snocD [OF pth(1)] by simp_all
  have "same_maps Space s s' \<and> (ok \<longrightarrow> table_at s' r (is @ [i]) = Some (next_table t i s')) \<and>
    (\<not> ok \<longrightarrow> s' = s \<and> avail_addrs (VPmm s) = {}) \<and> card (avail_addrs (VPmm s)) \<le> Suc (card (avail_addrs (VPmm s')))"
  proof (cases "present (pte (VMem s) t i)")
    case True
    then have "ok" "s' = s" using e by (simp_all add: ensure_entry_def)
    then show ?thesis using True pth(2) same_maps_refl [OF S]
      by (simp add: descend_snoc next_table_def PhysToVirt_def)
  next
    case False
    obtain a Q where a: "AllocPage (VPmm s) = (a, Q)" by force
    show ?thesis
    proof (cases "a = 0")
      case True
      then have "Q = VPmm s" "avail_addrs (VPmm s) = {}" using pmm.alloc_none [OF I(1)] a by simp_all
      then have "\<not> ok" "s' = s" using e False a True by (simp_all add: ensure_entry_def)
      then show ?thesis using same_maps_refl [OF S] \<open>avail_addrs (VPmm s) = {}\<close> by simp
    next
      case a0: False
      define n where "n = PhysToVirt a (VPmm s)"
      define m' where "m' = set_pte t i (a OR 1 OR 2 OR 4) (clear_table n (VMem s))"
      note F = alloc_pmm_frame [OF I(1) a] and A = pmm.alloc_some [OF I(1) a a0]
      have n: "PhysToVirt a Q = n" by (simp add: n_def PhysToVirt_def F)
      have "ensure_entry True t i s = (True, s\<lparr>VPmm := Q, VMem := m'\<rparr>)"
        unfolding m'_def n [symmetric] by (rule ensure_entry_new [OF False a a0])
      then have s': "ok" "s' = s\<lparr>VPmm := Q, VMem := m'\<rparr>" unfolding e by simp_all
      note D1 = descend_new_table(1) [OF I(1,2,4) a a0 pth False n_def m'_def]
      note D = D1 [OF pth(1)] descend_new_table(2-5) [OF I(1,2,4) a a0 pth False n_def m'_def pth(1)]
      note T = tables_okD [OF I(1,2,4) i(1) pth(2)]
      have nS: "n \<noteq> Space" using I(3) pmm.alloc_fresh [OF I(1) a a0] by (auto simp: n_def)
      have tS: "t \<noteq> Space" using I(7) [OF i(1)] pth(2) by blast
      have page: "same_on (span Space 4096) (VMem s) m'"
        using pages_disjoint [OF D(4) I(5) nS] pages_disjoint [OF T(2) I(5) tS] by (intro same_on_compl [OF D(5)]) blast
      have root: "sp_Pml4 m' Space = r" using sp_same(1) [OF I(5) page] r by simp
      have tr: "tables_ok m' Q r" by (rule tables_ok_new [OF I(1,2,4) a a0 pth False n_def m'_def])
      have sp: "descend m' (HhdmOffset (VPmm s)) r js \<noteq> Some Space" if "upath js" for js
        using D1 [OF that] I(7) [OF that] nS by (simp split: if_splits)
      have inv: "space_inv Space s'"
        using I A tr root sp by (simp add: space_inv_def s' F hhdm_ok_def VirtToPhys_def)
      have "leaf m' (HhdmOffset (VPmm s)) r js j = leaf (VMem s) (HhdmOffset (VPmm s)) r js j"
        if js: "upath js" "length js = 3" "j < 512" for js j
      proof (cases "prefix (is @ [i]) js")
        case True
        then obtain ks where "js = is @ [i] @ ks" by (auto simp: prefix_def)
        then have "table_at s r js = None" using pth(2) False by (simp add: descend_append)
        then show ?thesis using D1 [OF js(1)] D(2) [OF D(4) js(3)] D(3) True by (simp add: leaf_def)
      next
        case np: False
        then have d: "descend m' (HhdmOffset (VPmm s)) r js = table_at s r js" using D1 [OF js(1)] by auto
        show ?thesis
        proof (cases "table_at s r js")
          case (Some u)
          have "u \<noteq> t" using T(4) [OF js(1)] Some js(2) len by auto
          moreover have "u \<noteq> n" using tables_okD(1) [OF I(1,2,4) js(1) Some] pmm.alloc_fresh [OF I(1) a a0] by (auto simp: n_def)
          ultimately show ?thesis
            using D(2) [OF tables_okD(2) [OF I(1,2,4) js(1) Some] js(3)] d Some by (simp add: leaf_def)
        qed (simp add: leaf_def d)
      qed
      then have "same_maps Space s s'" using inv root r F by (simp add: same_maps_def s')
      moreover have "table_at s' r (is @ [i]) = Some (next_table t i s')"
      proof -
        have "pte m' t i = a OR 1 OR 2 OR 4" using D(2) [OF T(2) i(2)] by simp
        moreover have "descend m' (HhdmOffset (VPmm s)) r (is @ [i]) = Some n" using D1 [OF pth(1)] by simp
        moreover have "descend m' (HhdmOffset (VPmm s)) r is = Some t" using D1 [OF i(1)] pth(2) by auto
        ultimately show ?thesis by (auto simp: descend_snoc next_table_def PhysToVirt_def s' F split: if_splits)
      qed
      moreover have "finite (avail_addrs (VPmm s))" by (simp add: avail_addrs_def free_pages_def)
      ultimately show ?thesis using s' A by (simp add: card_Diff_singleton_if)
    qed
  qed
  then show "same_maps Space s s'" "ok \<Longrightarrow> table_at s' r (is @ [i]) = Some (next_table t i s')"
    "\<not> ok \<Longrightarrow> s' = s \<and> avail_addrs (VPmm s) = {}" "card (avail_addrs (VPmm s)) \<le> Suc (card (avail_addrs (VPmm s')))" by simp_all
qed

end
