(* ===== verification/VMMSpec.thy ===== *)
theory VMMSpec
  imports VMM
begin

text \<open>
  What the virtual memory manager promises for the user half of an address space. \<open>space_inv\<close> says that the tables of a space
  form a tree of distinct allocated pages, \<open>user_frames\<close> reads it as a partial map from pages to frames, and the
  locale \<open>page_mapper\<close> is the contract that \<^verbatim>\<open>MapPage\<close> and \<^verbatim>\<open>UnmapPage\<close> keep for it. The kernel half belongs to the boot
  loader's tables, which may hold large pages; it is only shared and never walked here.
\<close>

section \<open>The indices of an address\<close>

definition vpath :: "u64 \<Rightarrow> u64 list" where
  "vpath va = [Pml4Index va, PdptIndex va, PdIndex va]"

lemma and_511_less: "w AND 0x1FF < (512 :: u64)"
proof -
  have "w AND 0x1FF = take_bit 9 w" by (simp add: take_bit_eq_mask mask_eq_exp_minus_1)
  then show ?thesis by (simp add: take_bit_eq_mod word_mod_less_divisor)
qed

lemma bit_and_511: "bit (w AND (0x1FF :: u64)) k \<longleftrightarrow> k < 9 \<and> bit w k"
proof -
  have "w AND 0x1FF = take_bit 9 w" by (simp add: take_bit_eq_mask mask_eq_exp_minus_1)
  then show ?thesis by (simp add: bit_take_bit_iff)
qed

lemmas index_defs = Pml4Index_def PdptIndex_def PdIndex_def PtIndex_def

lemma index_less [simp]: "Pml4Index va < 512" "PdptIndex va < 512" "PdIndex va < 512" "PtIndex va < 512"
  by (simp_all only: index_defs and_511_less)

lemma user_bits: "va < 0x800000000000 \<Longrightarrow> 47 \<le> k \<Longrightarrow> \<not> bit (va :: u64) k"
proof -
  assume va: "va < 0x800000000000" and k: "47 \<le> k"
  have "take_bit 47 (unat va) = unat va" using va by (simp add: take_bit_nat_eq_self word_less_nat_alt)
  then have "\<not> bit (unat va) k" using k by (metis bit_take_bit_iff not_less)
  then show ?thesis by (auto simp: bit_unsigned_iff dest: bit_imp_le_length)
qed

lemma upath_vpath:
  assumes "va < 0x800000000000"
  shows "upath (vpath va)" "length (vpath va) = 3"
proof -
  have "\<not> bit (Pml4Index va) k" if "8 \<le> k" for k
    using that user_bits [OF assms, of "39 + k"] by (simp add: Pml4Index_def bit_and_511 bit_drop_bit_eq)
  then have "Pml4Index va = take_bit 8 (Pml4Index va)"
    by (intro bit_word_eqI) (metis bit_take_bit_iff not_less)
  also have "\<dots> < 256" by (simp add: take_bit_eq_mod word_mod_less_divisor)
  finally show "upath (vpath va)" by (simp add: upath_def vpath_def)
qed (simp add: vpath_def)

lemma vpath_page:
  assumes "v div 4096 = w div (4096 :: u64)"
  shows "vpath v = vpath w" "PtIndex v = PtIndex w"
proof -
  have "drop_bit 12 v = drop_bit 12 w" using assms by (simp add: drop_bit_eq_div)
  then have b: "bit v (12 + k) = bit w (12 + k)" for k by (metis bit_drop_bit_eq comp_apply)
  have "Pml4Index v = Pml4Index w"
    by (rule bit_word_eqI) (use b [of "27 + k" for k] in \<open>simp add: index_defs bit_and_511 bit_drop_bit_eq\<close>)
  moreover have "PdptIndex v = PdptIndex w"
    by (rule bit_word_eqI) (use b [of "18 + k" for k] in \<open>simp add: index_defs bit_and_511 bit_drop_bit_eq\<close>)
  moreover have "PdIndex v = PdIndex w"
    by (rule bit_word_eqI) (use b [of "9 + k" for k] in \<open>simp add: index_defs bit_and_511 bit_drop_bit_eq\<close>)
  ultimately show "vpath v = vpath w" by (simp add: vpath_def)
  show "PtIndex v = PtIndex w"
    by (rule bit_word_eqI) (use b in \<open>simp add: index_defs bit_and_511 bit_drop_bit_eq\<close>)
qed

lemma vpath_inj:
  assumes "v < 0x800000000000" "w < 0x800000000000" "vpath v = vpath w" "PtIndex v = PtIndex w"
  shows "v div 4096 = w div (4096 :: u64)"
proof -
  have eq: "bit v (39 + k) = bit w (39 + k)" "bit v (30 + k) = bit w (30 + k)" "bit v (21 + k) = bit w (21 + k)"
    "bit v (12 + k) = bit w (12 + k)" if "k < 9" for k
    using arg_cong [of _ _ "\<lambda>x. bit x k"] assms(3,4) that
    unfolding vpath_def index_defs by (force simp: bit_and_511 bit_drop_bit_eq dest!: arg_cong [of _ _ "\<lambda>x. bit x k"])+
  have "bit v n = bit w n" if n: "12 \<le> n" for n
  proof -
    consider "n < 21" | "21 \<le> n" "n < 30" | "30 \<le> n" "n < 39" | "39 \<le> n" "n < 48" | "47 \<le> n" by linarith
    then show ?thesis
    proof cases
      case 1
      then show ?thesis using eq(4) [of "n - 12"] n by simp
    next
      case 2
      then show ?thesis using eq(3) [of "n - 21"] by simp
    next
      case 3
      then show ?thesis using eq(2) [of "n - 30"] by simp
    next
      case 4
      then show ?thesis using eq(1) [of "n - 39"] by simp
    next
      case 5
      then show ?thesis using user_bits [OF assms(1)] user_bits [OF assms(2)] by simp
    qed
  qed
  then have "drop_bit 12 v = drop_bit 12 w" by (intro bit_word_eqI) (simp add: bit_drop_bit_eq)
  then show ?thesis by (simp add: drop_bit_eq_div)
qed

section \<open>Finding and creating the page table of an address\<close>

lemma GetPageTable_lookup:
  "GetPageTable r va 1 False s = (case table_at s r (vpath va) of None \<Rightarrow> 0 | Some t \<Rightarrow> t, s)"
  by (simp add: GetPageTable_def vpath_def ensure_entry_def next_table_def PhysToVirt_def numeral_eq_Suc Let_def)

lemma same_mapsD:
  assumes "same_maps Space s s'"
  shows "space_inv Space s'" "sp_Pml4 (VMem s') Space = sp_Pml4 (VMem s) Space" "HhdmOffset (VPmm s') = HhdmOffset (VPmm s)"
    "Vmm s' = Vmm s" "Cr3 s' = Cr3 s" "TlbLog s' = TlbLog s"
    "\<And>is j. upath is \<Longrightarrow> length is = 3 \<Longrightarrow> j < 512 \<Longrightarrow>
       leaf (VMem s') (HhdmOffset (VPmm s)) (sp_Pml4 (VMem s) Space) is j =
       leaf (VMem s) (HhdmOffset (VPmm s)) (sp_Pml4 (VMem s) Space) is j"
  using assms by (simp_all add: same_maps_def)

lemma GetPageTable_create:
  assumes S: "space_inv Space s" and r: "r = sp_Pml4 (VMem s) Space" and va: "va < 0x800000000000"
    and g: "GetPageTable r va 1 True s = (t, s')"
  shows "same_maps Space s s'" "t \<noteq> 0 \<Longrightarrow> table_at s' r (vpath va) = Some t"
    "t = 0 \<Longrightarrow> card (avail_addrs (VPmm s)) \<le> 2"
proof -
  have up: "upath [Pml4Index va, PdptIndex va, PdIndex va]" using upath_vpath [OF va] by (simp add: vpath_def)
  then have up1: "upath ([] @ [Pml4Index va])" and up2: "upath ([Pml4Index va] @ [PdptIndex va])"
    and up3: "upath ([Pml4Index va, PdptIndex va] @ [PdIndex va])" by (simp_all add: upath_def)
  obtain o1 s1 where e1: "ensure_entry True r (Pml4Index va) s = (o1, s1)" by force
  obtain o2 s2 where e2: "ensure_entry True (next_table r (Pml4Index va) s1) (PdptIndex va) s1 = (o2, s2)" by force
  define t2 where "t2 = next_table (next_table r (Pml4Index va) s1) (PdptIndex va) s2"
  obtain o3 s3 where e3: "ensure_entry True t2 (PdIndex va) s2 = (o3, s3)" by force
  have G: "GetPageTable r va 1 True s =
    (if \<not> o1 then (0, s1) else if \<not> o2 then (0, s2) else if \<not> o3 then (0, s3) else (next_table t2 (PdIndex va) s3, s3))"
    by (simp add: GetPageTable_def numeral_eq_Suc Let_def e1 e2 e3 t2_def [symmetric])
  have "same_maps Space s s' \<and> (t \<noteq> 0 \<longrightarrow> table_at s' r (vpath va) = Some t) \<and> (t = 0 \<longrightarrow> card (avail_addrs (VPmm s)) \<le> 2)"
  proof -
    note E1 = ensure_entry_ok [OF S r up1 _ e1, simplified]
    note M1 = same_mapsD [OF E1(1)]
    show ?thesis
    proof (cases o1)
      case False
      then show ?thesis using G g E1 by simp
    next
      case o1: True
      have r1: "r = sp_Pml4 (VMem s1) Space" using M1(2) r by simp
      note E2 = ensure_entry_ok [OF M1(1) r1 up2 _ e2, simplified, OF E1(2) [OF o1]]
      note M2 = same_mapsD [OF E2(1)]
      show ?thesis
      proof (cases o2)
        case False
        then show ?thesis using G g o1 E2 E1 by simp
      next
        case o2: True
        have r2: "r = sp_Pml4 (VMem s2) Space" using M2(2) r1 by simp
        note E3 = ensure_entry_ok [OF M2(1) r2 up3 _ e3, simplified, unfolded t2_def, OF E2(2) [OF o2], folded t2_def]
        note tr = same_maps_trans [OF same_maps_trans [OF E1(1) E2(1)] E3(1)]
        show ?thesis
        proof (cases o3)
          case False
          then show ?thesis using G g o1 o2 E1(4) E2(4) E3(3) tr by simp
        next
          case o3: True
          then have t: "t = next_table t2 (PdIndex va) s3" "s' = s3" using G g o1 o2 by simp_all
          have at: "table_at s3 r (vpath va) = Some t" using E3(2) [OF o3] t by (simp add: vpath_def)
          note I = space_invD [OF same_mapsD(1) [OF E3(1)]]
          have "r = sp_Pml4 (VMem s3) Space" using same_mapsD(2) [OF E3(1)] r2 by simp
          then have "t \<noteq> 0" using tables_okD(3) [OF I(1,2,4) upath_vpath(1) [OF va]] at by simp
          then show ?thesis using tr at t by simp
        qed
      qed
    qed
  qed
  then show "same_maps Space s s'" "t \<noteq> 0 \<Longrightarrow> table_at s' r (vpath va) = Some t" "t = 0 \<Longrightarrow> card (avail_addrs (VPmm s)) \<le> 2"
    by simp_all
qed

section \<open>Changing one mapping\<close>

definition space_leaf :: "u64 \<Rightarrow> vmem \<Rightarrow> u64 \<Rightarrow> u64" where
  "space_leaf Space s va = leaf (VMem s) (HhdmOffset (VPmm s)) (sp_Pml4 (VMem s) Space) (vpath va) (PtIndex va)"

definition is_mapped :: "u64 \<Rightarrow> vmem \<Rightarrow> u64 \<Rightarrow> bool" where
  "is_mapped Space s va \<longleftrightarrow> present (space_leaf Space s va)"

lemma same_maps_leaf: "same_maps Space s t \<Longrightarrow> va < 0x800000000000 \<Longrightarrow> space_leaf Space t va = space_leaf Space s va"
  using same_mapsD(2,3,7) [of Space s t] upath_vpath [of va] by (simp add: space_leaf_def)

lemma set_leaf:
  assumes S: "space_inv Space s" and va: "va < 0x800000000000"
    and t: "table_at s (sp_Pml4 (VMem s) Space) (vpath va) = Some t"
    and s': "s' = s\<lparr>VMem := set_pte t (PtIndex va) e (VMem s)\<rparr>"
  shows "space_inv Space s'"
    "\<And>w. w < 0x800000000000 \<Longrightarrow> space_leaf Space s' w = (if w div 4096 = va div 4096 then e else space_leaf Space s w)"
proof -
  note I = space_invD [OF S] and U = upath_vpath [OF va]
  note T = tables_okD [OF I(1,2,4) U(1) t]
  let ?m = "set_pte t (PtIndex va) e (VMem s)" and ?off = "HhdmOffset (VPmm s)" and ?r = "sp_Pml4 (VMem s) Space"
  have d: "descend ?m ?off ?r js = descend (VMem s) ?off ?r js" if js: "upath js" for js
  proof (rule descend_set_other [OF _ _ T(2) _ js])
    show "\<And>js. upath js \<Longrightarrow> table_at s ?r js = Some t \<Longrightarrow> js = vpath va" by (rule T(4))
    show "\<And>js u. upath js \<Longrightarrow> table_at s ?r js = Some u \<Longrightarrow> u mod 4096 = 0" by (rule tables_okD(2) [OF I(1,2,4)])
    show "\<not> prefix (vpath va @ [PtIndex va]) js" using js by (auto simp: upath_def vpath_def dest: prefix_length_le)
  qed simp
  have "t \<noteq> Space" using I(7) [OF U(1)] t by blast
  then have "same_on (span Space 4096) (VMem s) ?m"
    by (intro page_untouched [OF T(2) I(5) _ set_pte_same_on [OF T(2)]]) simp_all
  then have root: "sp_Pml4 ?m Space = ?r" by (rule sp_same(1) [OF I(5)])
  have tb: "tables_ok ?m (VPmm s) ?r" using I(4) d unfolding tables_ok_def by metis
  show "space_inv Space s'"
    unfolding space_inv_def s' using I tb root d by simp
  fix w :: u64 assume w: "w < 0x800000000000"
  note W = upath_vpath [OF w]
  show "space_leaf Space s' w = (if w div 4096 = va div 4096 then e else space_leaf Space s w)"
  proof (cases "w div 4096 = va div 4096")
    case True
    then show ?thesis using vpath_page [OF True] t d [OF U(1)] pte_set_pte [OF T(2,2), of "PtIndex va" "PtIndex va" e "VMem s"]
      by (simp add: space_leaf_def leaf_def s' root)
  next
    case False
    show ?thesis
    proof (cases "table_at s ?r (vpath w)")
      case None
      then show ?thesis using False d [OF W(1)] by (simp add: space_leaf_def leaf_def s' root)
    next
      case (Some u)
      have "\<not> (u = t \<and> PtIndex w = PtIndex va)" using T(4) [OF W(1)] Some vpath_inj [OF w va] False by auto
      then show ?thesis
        using False d [OF W(1)] Some pte_set_pte [OF T(2) tables_okD(2) [OF I(1,2,4) W(1) Some], of "PtIndex va" "PtIndex w" e "VMem s"]
        by (auto simp: space_leaf_def leaf_def s' root)
    qed
  qed
qed

lemma table_at_nonzero:
  assumes "space_inv Space s" "va < 0x800000000000" "table_at s (sp_Pml4 (VMem s) Space) (vpath va) = Some t"
  shows "t \<noteq> 0"
  using tables_okD(3) [OF space_invD(1,2,4) [OF assms(1)] upath_vpath(1) [OF assms(2)] assms(3)] .

text \<open>What the processor would translate an address to is what \<^verbatim>\<open>GetPhysicalAddress\<close> returns.\<close>

lemma GetPhysicalAddress_leaf:
  assumes "space_inv Space s" "va < 0x800000000000"
  shows "GetPhysicalAddress Space va s =
    (if is_mapped Space s va then (space_leaf Space s va AND FrameMask) + va mod 4096 else 0)"
proof -
  have "va AND 0xFFF = take_bit 12 va" by (simp add: take_bit_eq_mask mask_eq_exp_minus_1)
  also have "\<dots> = va mod 4096" by (simp add: take_bit_eq_mod)
  finally have "va AND 0xFFF = va mod 4096" .
  then show ?thesis
    using space_invD(6) [OF assms(1)] table_at_nonzero [OF assms]
    by (simp add: GetPhysicalAddress_def GetPageTable_lookup is_mapped_def space_leaf_def leaf_def split: option.splits)
qed

lemma MapPage_cases:
  assumes S: "space_inv Space s" and va: "va < 0x800000000000" "va mod 4096 = 0"
    and pa: "pa mod 4096 = 0" "pa \<le> FrameMask" and m: "MapPage Space va pa Flags s = (ret, t)"
  obtains (full) "ret = 0" "same_maps Space s t" "card (avail_addrs (VPmm s)) \<le> 2"
  | (kept) "ret = 1" "same_maps Space s t" "is_mapped Space s va"
  | (mapped) "ret = 1" "\<not> is_mapped Space s va" "space_inv Space t" "TlbLog t = Invlpg va # TlbLog s"
      "\<And>w. w < 0x800000000000 \<Longrightarrow> space_leaf Space t w =
         (if w div 4096 = va div 4096 then (pa AND FrameMask) OR Flags OR PTEPRESENT else space_leaf Space s w)"
proof -
  obtain Pt u where g: "GetPageTable (sp_Pml4 (VMem s) Space) va 1 True s = (Pt, u)" by force
  note G = GetPageTable_create [OF S refl va(1) g]
  note M = same_mapsD [OF G(1)]
  have c: "(Space = 0 \<or> va mod PageSize \<noteq> 0 \<or> pa mod PageSize \<noteq> 0) = False" "(FrameMask < pa) = False"
    using space_invD(6) [OF S] va(2) pa by (blast, simp add: not_less)
  have mp: "MapPage Space va pa Flags s =
    (if Pt = 0 then (0, u) else if present (pte (VMem u) Pt (PtIndex va)) then (1, u)
     else (1, FlushTlb va (u\<lparr>VMem := set_pte Pt (PtIndex va) ((pa AND FrameMask) OR Flags OR PTEPRESENT) (VMem u)\<rparr>)))"
    unfolding MapPage_def c if_False g Let_def prod.case by (rule refl)
  show ?thesis
  proof (cases "Pt = 0")
    case True
    then show ?thesis using full G mp m by simp
  next
    case False
    have at: "table_at u (sp_Pml4 (VMem u) Space) (vpath va) = Some Pt" using G(2) [OF False] M(2) by simp
    have lf: "pte (VMem u) Pt (PtIndex va) = space_leaf Space s va"
      using same_maps_leaf [OF G(1) va(1)] at by (simp add: space_leaf_def leaf_def)
    show ?thesis
    proof (cases "is_mapped Space s va")
      case True
      then show ?thesis using kept G(1) mp m False lf by (simp add: is_mapped_def)
    next
      case nm: False
      let ?e = "(pa AND FrameMask) OR Flags OR PTEPRESENT"
      define v where "v = u\<lparr>VMem := set_pte Pt (PtIndex va) ?e (VMem u)\<rparr>"
      have t: "ret = 1" "t = FlushTlb va v" using mp m False nm lf by (simp_all add: is_mapped_def v_def)
      note L = set_leaf [OF M(1) va(1) at v_def]
      have same: "VMem t = VMem v" "VPmm t = VPmm v" "TlbLog t = Invlpg va # TlbLog s"
        by (simp_all add: t FlushTlb_def v_def M)
      have "space_inv Space t" using L(1) by (simp add: space_inv_def same)
      moreover have "space_leaf Space t w = (if w div 4096 = va div 4096 then ?e else space_leaf Space s w)"
        if "w < 0x800000000000" for w
        using L(2) [OF that] same_maps_leaf [OF G(1) that] by (simp add: space_leaf_def same)
      ultimately show ?thesis using mapped t(1) nm same(3) by blast
    qed
  qed
qed

lemma UnmapPage_cases:
  assumes S: "space_inv Space s" and va: "va < 0x800000000000" "va mod 4096 = 0" and m: "UnmapPage Space va s = (ret, t)"
  obtains (absent) "ret = 0" "t = s" "\<not> is_mapped Space s va"
  | (unmapped) "ret = 1" "is_mapped Space s va" "space_inv Space t" "TlbLog t = Invlpg va # TlbLog s"
      "\<And>w. w < 0x800000000000 \<Longrightarrow> space_leaf Space t w = (if w div 4096 = va div 4096 then 0 else space_leaf Space s w)"
proof -
  have c: "(Space = 0 \<or> va mod PageSize \<noteq> 0) = False" using space_invD(6) [OF S] va(2) by blast
  let ?Pt = "case table_at s (sp_Pml4 (VMem s) Space) (vpath va) of None \<Rightarrow> 0 | Some t \<Rightarrow> t"
  have um: "UnmapPage Space va s =
    (if ?Pt = 0 then (0, s) else if \<not> present (pte (VMem s) ?Pt (PtIndex va)) then (0, s)
     else (1, FlushTlb va (s\<lparr>VMem := set_pte ?Pt (PtIndex va) 0 (VMem s)\<rparr>)))"
    unfolding UnmapPage_def c if_False GetPageTable_lookup Let_def prod.case by (rule refl)
  show ?thesis
  proof (cases "is_mapped Space s va")
    case False
    then have "UnmapPage Space va s = (0, s)"
      unfolding um by (auto simp: is_mapped_def space_leaf_def leaf_def split: option.splits)
    then show ?thesis using absent m False by simp
  next
    case True
    then obtain Pt where at: "table_at s (sp_Pml4 (VMem s) Space) (vpath va) = Some Pt"
      by (auto simp: is_mapped_def space_leaf_def leaf_def split: option.splits)
    have lf: "pte (VMem s) Pt (PtIndex va) = space_leaf Space s va" using at by (simp add: space_leaf_def leaf_def)
    define v where "v = s\<lparr>VMem := set_pte Pt (PtIndex va) 0 (VMem s)\<rparr>"
    have t: "ret = 1" "t = FlushTlb va v"
      using um m at table_at_nonzero [OF S va(1) at] True lf by (simp_all add: is_mapped_def v_def)
    note L = set_leaf [OF S va(1) at v_def]
    have same: "VMem t = VMem v" "VPmm t = VPmm v" "TlbLog t = Invlpg va # TlbLog s"
      by (simp_all add: t FlushTlb_def v_def)
    have "space_inv Space t" using L(1) by (simp add: space_inv_def same)
    moreover have "space_leaf Space t w = (if w div 4096 = va div 4096 then 0 else space_leaf Space s w)"
      if "w < 0x800000000000" for w using L(2) [OF that] by (simp add: space_leaf_def same)
    ultimately show ?thesis using unmapped t(1) True same(3) by blast
  qed
qed

section \<open>The contract of an address space\<close>

text \<open>Seen by the rest of the kernel, the user half of a space is a partial map from pages to frames.\<close>

locale page_mapper =
  fixes map_page :: "u64 \<Rightarrow> u64 \<Rightarrow> 's \<Rightarrow> int \<times> 's"
    and unmap_page :: "u64 \<Rightarrow> 's \<Rightarrow> int \<times> 's"
    and frames :: "'s \<Rightarrow> u64 \<rightharpoonup> u64"
    and invar :: "'s \<Rightarrow> bool"
    and user_page frame :: "u64 \<Rightarrow> bool"
  assumes map_absent: "invar s \<Longrightarrow> user_page v \<Longrightarrow> frame p \<Longrightarrow> frames s v = None \<Longrightarrow> map_page v p s = (ret, t) \<Longrightarrow>
      invar t \<and> (ret = 0 \<and> frames t = frames s \<or> ret = 1 \<and> frames t = (frames s)(v \<mapsto> p))"
    and map_present: "invar s \<Longrightarrow> user_page v \<Longrightarrow> frame p \<Longrightarrow> frames s v = Some q \<Longrightarrow> map_page v p s = (ret, t) \<Longrightarrow>
      invar t \<and> frames t = frames s"
    and unmap_any: "invar s \<Longrightarrow> user_page v \<Longrightarrow> unmap_page v s = (ret, t) \<Longrightarrow>
      invar t \<and> frames t = (frames s)(v := None) \<and> (ret = 1 \<longleftrightarrow> frames s v \<noteq> None)"
begin

text \<open>Mapping and then unmapping a page gives back the map it had.\<close>

lemma map_then_unmap:
  assumes "invar s" "user_page v" "frame p" "frames s v = None" "map_page v p s = (1, t)" "unmap_page v t = (ret, u)"
  shows "invar u \<and> frames u = frames s \<and> ret = 1"
proof -
  have t: "invar t" "frames t = (frames s)(v \<mapsto> p)" using map_absent [OF assms(1-5)] by auto
  show ?thesis using unmap_any [OF t(1) assms(2,6)] t(2) assms(4) by (simp add: fun_upd_idem)
qed

text \<open>Mappings of different pages commute.\<close>

lemma map_commute:
  assumes "invar s" "user_page v" "user_page w" "frame p" "frame q" "v \<noteq> w" "frames s v = None" "frames s w = None"
    and "map_page v p s = (1, t)" "map_page w q t = (1, u)" "map_page w q s = (1, t')" "map_page v p t' = (1, u')"
  shows "frames u = frames u'"
proof -
  have t: "invar t" "frames t = (frames s)(v \<mapsto> p)" using map_absent [OF assms(1,2,4,7,9)] by auto
  have t': "invar t'" "frames t' = (frames s)(w \<mapsto> q)" using map_absent [OF assms(1,3,5,8,11)] by auto
  have "frames u = (frames t)(w \<mapsto> q)" using map_absent [OF t(1) assms(3,5) _ assms(10)] t(2) assms(6,8) by auto
  moreover have "frames u' = (frames t')(v \<mapsto> p)" using map_absent [OF t'(1) assms(2,4) _ assms(12)] t'(2) assms(6,7) by auto
  ultimately show ?thesis using t t' assms(6) by (simp add: fun_upd_twist)
qed

end

definition user_page :: "u64 \<Rightarrow> bool" where "user_page v \<longleftrightarrow> v < 0x800000000000 \<and> v mod 4096 = 0"

definition phys_frame :: "u64 \<Rightarrow> bool" where "phys_frame p \<longleftrightarrow> p mod 4096 = 0 \<and> p \<le> FrameMask"

definition user_frames :: "u64 \<Rightarrow> vmem \<Rightarrow> u64 \<rightharpoonup> u64" where
  "user_frames Space s v = (if user_page v \<and> is_mapped Space s v then Some (space_leaf Space s v AND FrameMask) else None)"

lemma frame_bits:
  assumes "phys_frame p"
  shows "p AND FrameMask = p"
proof -
  have fm: "FrameMask = mask 52 AND NOT (mask 12)" by code_simp
  have "take_bit 12 p = 0" using assms by (simp add: phys_frame_def take_bit_eq_mod)
  then have lo: "12 \<le> k" if "bit p k" for k using that by (metis bit_0_eq bit_take_bit_iff bot_apply bot_bool_def not_le)
  have "unat p < 2 ^ 52" using assms by (simp add: phys_frame_def word_le_nat_alt)
  then have "take_bit 52 (unat p) = unat p" by (simp add: take_bit_nat_eq_self)
  then have "\<not> bit (unat p) k" if "52 \<le> k" for k using that by (metis bit_take_bit_iff not_less)
  then have "\<not> bit p k" if "52 \<le> k" for k using that by (auto simp: bit_unsigned_iff dest: bit_imp_le_length)
  then have hi: "k < 52" if "bit p k" for k using that by (meson not_le)
  show ?thesis unfolding fm by (rule bit_word_eqI) (use lo hi in \<open>auto simp: bit_simps not_less\<close>)
qed

lemma new_leaf:
  assumes "phys_frame p" "Flags AND FrameMask = 0"
  shows "((p AND FrameMask) OR Flags OR PTEPRESENT) AND FrameMask = p" "present ((p AND FrameMask) OR Flags OR PTEPRESENT)"
proof -
  have "1 AND FrameMask = (0 :: u64)" by simp
  then show "((p AND FrameMask) OR Flags OR PTEPRESENT) AND FrameMask = p"
    using assms frame_bits [OF assms(1)] by (simp add: and.assoc bit.conj_disj_distrib2)
  show "present ((p AND FrameMask) OR Flags OR PTEPRESENT)" unfolding present_bit by (simp add: bit_or_iff)
qed

lemma user_pages_div: "user_page v \<Longrightarrow> user_page w \<Longrightarrow> w div 4096 = v div 4096 \<longleftrightarrow> w = v"
  unfolding user_page_def using page_addr_of_index by metis

lemma user_frames_same:
  assumes "same_maps Space s t"
  shows "user_frames Space t = user_frames Space s"
  using same_maps_leaf [OF assms] by (auto simp: fun_eq_iff user_frames_def is_mapped_def user_page_def)

interpretation vmm: page_mapper "\<lambda>v p. MapPage Space v p Flags" "UnmapPage Space" "user_frames Space" "space_inv Space"
  user_page "\<lambda>p. phys_frame p \<and> Flags AND FrameMask = 0" for Space Flags
proof
  fix s v p ret t
  assume a: "space_inv Space s" "user_page v" "phys_frame p \<and> Flags AND FrameMask = 0" "user_frames Space s v = None"
    "MapPage Space v p Flags s = (ret, t)"
  have v: "v < 0x800000000000" "v mod 4096 = 0" using a(2) unfolding user_page_def by blast+
  have p: "p mod 4096 = 0" "p \<le> FrameMask" using a(3) unfolding phys_frame_def by blast+
  show "space_inv Space t \<and> (ret = 0 \<and> user_frames Space t = user_frames Space s \<or>
      ret = 1 \<and> user_frames Space t = (user_frames Space s)(v \<mapsto> p))"
    using a(1) v p a(5)
  proof (cases rule: MapPage_cases)
    case full
    then show ?thesis using user_frames_same same_mapsD(1) by blast
  next
    case kept
    then show ?thesis using a(2,4) by (simp add: user_frames_def)
  next
    case mapped
    have "user_frames Space t w = ((user_frames Space s)(v \<mapsto> p)) w" for w
    proof (cases "user_page w")
      case True
      then have "w < 0x800000000000" unfolding user_page_def by blast
      then show ?thesis
        using mapped(5) [of w] user_pages_div [OF a(2) True] True new_leaf [of p Flags] a(3)
        unfolding user_frames_def is_mapped_def by auto
    qed (use a(2) in \<open>auto simp: user_frames_def\<close>)
    then show ?thesis using mapped(1,3) by (auto simp: fun_eq_iff)
  qed
next
  fix s v p q ret t
  assume a: "space_inv Space s" "user_page v" "phys_frame p \<and> Flags AND FrameMask = 0" "user_frames Space s v = Some q"
    "MapPage Space v p Flags s = (ret, t)"
  have v: "v < 0x800000000000" "v mod 4096 = 0" using a(2) unfolding user_page_def by blast+
  have p: "p mod 4096 = 0" "p \<le> FrameMask" using a(3) unfolding phys_frame_def by blast+
  show "space_inv Space t \<and> user_frames Space t = user_frames Space s"
    using a(1) v p a(5)
    by (cases rule: MapPage_cases) (use a(4) in \<open>auto simp: user_frames_same dest: same_mapsD(1) simp: user_frames_def split: if_splits\<close>)
next
  fix s v ret t
  assume a: "space_inv Space s" "user_page v" "UnmapPage Space v s = (ret, t)"
  have v: "v < 0x800000000000" "v mod 4096 = 0" using a(2) unfolding user_page_def by blast+
  show "space_inv Space t \<and> user_frames Space t = (user_frames Space s)(v := None) \<and> (ret = 1 \<longleftrightarrow> user_frames Space s v \<noteq> None)"
    using a(1) v a(3)
  proof (cases rule: UnmapPage_cases)
    case absent
    then show ?thesis using a(1,2) by (auto simp: user_frames_def fun_eq_iff)
  next
    case unmapped
    have "user_frames Space t w = ((user_frames Space s)(v := None)) w" for w
    proof (cases "user_page w")
      case True
      then have "w < 0x800000000000" unfolding user_page_def by blast
      then show ?thesis
        using unmapped(5) [of w] user_pages_div [OF a(2) True] True unfolding user_frames_def is_mapped_def by auto
    qed (use a(2) in \<open>auto simp: user_frames_def\<close>)
    then show ?thesis using unmapped(1-3) a(2) by (auto simp: fun_eq_iff user_frames_def)
  qed
qed

section \<open>Creating and destroying a space\<close>

lemma sp_offsets:
  assumes "p mod 4096 = (0 :: u64)"
  shows "unat (p + 8) = unat p + 8" "unat (p + 16) = unat p + 16" "unat p + 4096 \<le> 2 ^ 64"
  using unat_page_offset [OF assms, of 8] unat_page_offset [OF assms, of 16] page_end [OF assms] by simp_all

lemmas sp_defs = sp_Pml4_def sp_PhysicalBase_def sp_RefCount_def set_sp_Pml4_def set_sp_PhysicalBase_def set_sp_RefCount_def

lemma sp_fields:
  assumes "p mod 4096 = (0 :: u64)"
  shows "sp_Pml4 (set_sp_Pml4 p v m) p = v" "sp_PhysicalBase (set_sp_PhysicalBase p v m) p = v" "sp_RefCount (set_sp_RefCount p w m) p = w"
    "sp_PhysicalBase (set_sp_Pml4 p v m) p = sp_PhysicalBase m p" "sp_RefCount (set_sp_Pml4 p v m) p = sp_RefCount m p"
    "sp_Pml4 (set_sp_RefCount p w m) p = sp_Pml4 m p" "sp_PhysicalBase (set_sp_RefCount p w m) p = sp_PhysicalBase m p"
proof -
  show "sp_Pml4 (set_sp_Pml4 p v m) p = v" "sp_PhysicalBase (set_sp_PhysicalBase p v m) p = v" "sp_RefCount (set_sp_RefCount p w m) p = w"
    by (simp_all add: sp_defs)
  show "sp_PhysicalBase (set_sp_Pml4 p v m) p = sp_PhysicalBase m p" "sp_RefCount (set_sp_Pml4 p v m) p = sp_RefCount m p"
    "sp_Pml4 (set_sp_RefCount p w m) p = sp_Pml4 m p" "sp_PhysicalBase (set_sp_RefCount p w m) p = sp_PhysicalBase m p"
    unfolding sp_defs by (rule load_store_apart; use sp_offsets [OF assms] in simp)+
qed

lemma sp_write_same:
  assumes "p mod 4096 = (0 :: u64)"
  shows "same_on (- span p 4096) m (set_sp_Pml4 p v m)" "same_on (- span p 4096) m (set_sp_PhysicalBase p v m)"
    "same_on (- span p 4096) m (set_sp_RefCount p w m)"
  unfolding sp_defs by (rule store_word_same_on, rule span_subset; use sp_offsets [OF assms] in simp)+

lemma clear_space_spec:
  assumes t: "t mod 4096 = 0" and S: "Space mod 4096 = 0" "t \<noteq> Space" "sp_Pml4 m Space = t"
  shows "same_on (- span t 4096) m (clear_space Space m)" "\<And>j. j < 512 \<Longrightarrow> pte (clear_space Space m) t j = 0"
proof -
  let ?I = "\<lambda>i m'. same_on (- span t 4096) m m' \<and> (\<forall>j. j < 512 \<longrightarrow> j < i \<longrightarrow> pte m' t j = 0)"
  have "?I 512 (for_range 0 512 (\<lambda>i m. set_pte (sp_Pml4 m Space) i 0 m) m)"
  proof (rule for_range_invariant [where I = ?I])
    fix i m' assume i: "i < (512 :: u64)" and I: "?I i m'"
    have "sp_Pml4 m' Space = t"
      using sp_same(1) [OF S(1) page_untouched [OF t S(1,2) conjunct1 [OF I]]] S(3) by simp
    moreover have "same_on (- span t 4096) m (set_pte t i 0 m')" using I set_pte_same_on [OF t i] same_on_trans by blast
    moreover have "pte (set_pte t i 0 m') t j = 0" if "j < 512" "j < i + 1" for j
      using pte_set_pte [OF t t i that(1), of 0 m'] I that less_plus_one_iff [OF i, of j] by (auto simp: order_le_less)
    ultimately show "?I (i + 1) (set_pte (sp_Pml4 m' Space) i 0 m')" by simp
  qed simp_all
  then show "same_on (- span t 4096) m (clear_space Space m)" "\<And>j. j < 512 \<Longrightarrow> pte (clear_space Space m) t j = 0"
    unfolding clear_space_def by auto
qed

lemma copy_kernel_half_spec:
  assumes t: "t mod 4096 = 0" and S: "Space mod 4096 = 0" "t \<noteq> Space" "sp_Pml4 m Space = t"
    and K: "Kernel mod 4096 = 0" "t \<noteq> Kernel" "sp_Pml4 m Kernel = k" "k mod 4096 = 0" "t \<noteq> k"
    and z: "\<And>j. j < 512 \<Longrightarrow> pte m t j = 0"
  shows "same_on (- span t 4096) m (copy_kernel_half Space Kernel m)"
    "\<And>j. j < 512 \<Longrightarrow> pte (copy_kernel_half Space Kernel m) t j = (if 256 \<le> j then pte m k j else 0)"
proof -
  let ?I = "\<lambda>i m'. same_on (- span t 4096) m m' \<and> (\<forall>j. j < 512 \<longrightarrow> pte m' t j = (if 256 \<le> j \<and> j < i then pte m k j else 0))"
  have "?I 512 (for_range 256 512 (\<lambda>i m. set_pte (sp_Pml4 m Space) i (pte m (sp_Pml4 m Kernel) i) m) m)"
  proof (rule for_range_invariant [where I = ?I])
    fix i m' assume lo: "256 \<le> i" and i: "i < (512 :: u64)" and I: "?I i m'"
    note u = page_untouched [OF t _ _ conjunct1 [OF I]]
    have p: "sp_Pml4 m' Space = t" "sp_Pml4 m' Kernel = k" "pte m' k i = pte m k i"
      using sp_same(1) [OF S(1) u [OF S(1,2)]] S(3) sp_same(1) [OF K(1) u [OF K(1,2)]] K(3)
        pte_same_on [OF K(4) i u [OF K(4,5)]] by simp_all
    have "same_on (- span t 4096) m (set_pte t i (pte m k i) m')" using I set_pte_same_on [OF t i] same_on_trans by blast
    moreover have "pte (set_pte t i (pte m k i) m') t j = (if 256 \<le> j \<and> j < i + 1 then pte m k j else 0)" if "j < 512" for j
      using pte_set_pte [OF t t i that, of "pte m k i" m'] conjunct2 [OF I, rule_format, OF that] lo less_plus_one_iff [OF i, of j]
      by (auto simp: order_le_less)
    ultimately show "?I (i + 1) (set_pte (sp_Pml4 m' Space) i (pte m' (sp_Pml4 m' Kernel) i) m')" by (simp add: p)
  qed (use z in \<open>auto dest: leD\<close>)
  then show "same_on (- span t 4096) m (copy_kernel_half Space Kernel m)"
    "\<And>j. j < 512 \<Longrightarrow> pte (copy_kernel_half Space Kernel m) t j = (if 256 \<le> j then pte m k j else 0)"
    unfolding copy_kernel_half_def by auto
qed

text \<open>The manager is started: the kernel's space structure and its top-level table are allocated pages.\<close>

definition vmm_ready :: "vmem \<Rightarrow> bool" where
  "vmm_ready s \<longleftrightarrow> pmm_inv (VPmm s) \<and> hhdm_ok (VPmm s) \<and> VirtToPhys (KernelSpace (Vmm s)) (VPmm s) \<in> taken_addrs (VPmm s) - {0} \<and>
     VirtToPhys (sp_Pml4 (VMem s) (KernelSpace (Vmm s))) (VPmm s) \<in> taken_addrs (VPmm s) - {0}"

lemma CreateVirtualSpace_done:
  assumes R: "vmm_ready s" and c: "CreateVirtualSpace s = (Space, t)" and S: "Space \<noteq> 0"
  obtains a b Q where "AllocPage (VPmm s) = (a, Q)" "a \<noteq> 0" "AllocPage Q = (b, VPmm t)" "b \<noteq> 0"
    "Space = PhysToVirt a (VPmm t)" "sp_Pml4 (VMem t) Space = PhysToVirt b (VPmm t)" "sp_PhysicalBase (VMem t) Space = b"
    "sp_RefCount (VMem t) Space = 1" "Vmm t = Vmm s" "Space \<noteq> KernelSpace (Vmm s)" "PhysToVirt b (VPmm t) \<noteq> Space"
    "\<forall>j. j < 512 \<longrightarrow> pte (VMem t) (PhysToVirt b (VPmm t)) j =
       (if 256 \<le> j then pte (VMem s) (sp_Pml4 (VMem s) (KernelSpace (Vmm s))) j else 0)"
proof -
  let ?P = "VPmm s" and ?K = "KernelSpace (Vmm s)"
  let ?k = "sp_Pml4 (VMem s) ?K"
  have P: "pmm_inv ?P" "hhdm_ok ?P" and vK: "VirtToPhys ?K ?P \<in> taken_addrs ?P - {0}" and vk: "VirtToPhys ?k ?P \<in> taken_addrs ?P - {0}"
    using R by (simp_all add: vmm_ready_def)
  note K = mapped_page [OF P vK] and k = mapped_page [OF P vk]
  obtain a Q where a: "AllocPage ?P = (a, Q)" by force
  obtain b T where b: "AllocPage Q = (b, T)" by force
  have a0: "a \<noteq> 0" using c S a K(2) k(2) by (auto simp: CreateVirtualSpace_def)
  note A = pmm.alloc_some [OF P(1) a a0] and FA = alloc_pmm_frame [OF P(1) a]
  have Q: "pmm_inv Q" "hhdm_ok Q" using A P(2) FA by (simp_all add: hhdm_ok_def)
  define p where "p = PhysToVirt a Q"
  have p0: "p mod 4096 = 0" "p \<noteq> 0" using direct_map [OF Q, of a] A a0 by (simp_all add: p_def)
  have b0: "b \<noteq> 0" using c S a a0 b p0 K(2) k(2) by (auto simp: CreateVirtualSpace_def p_def)
  note B = pmm.alloc_some [OF Q(1) b b0] and FB = alloc_pmm_frame [OF Q(1) b]
  define q where "q = PhysToVirt b T"
  have pT: "p = PhysToVirt a T" by (simp add: p_def PhysToVirt_def FB)
  have q0: "q mod 4096 = 0" "q \<noteq> 0" using direct_map [OF Q, of b] B b0 by (simp_all add: q_def PhysToVirt_def FB)
  have v: "VirtToPhys x T = VirtToPhys x ?P" "VirtToPhys x Q = VirtToPhys x ?P" for x by (simp_all add: VirtToPhys_def FA FB)
  have pv: "VirtToPhys p ?P = a" "VirtToPhys q ?P = b" unfolding v(1) [symmetric] pT q_def by simp_all
  have fa: "a \<notin> taken_addrs ?P" "b \<notin> taken_addrs Q"
    using pmm.alloc_fresh [OF P(1) a a0] pmm.alloc_fresh [OF Q(1) b b0] by simp_all
  have ne: "q \<noteq> p" "p \<noteq> ?K" "q \<noteq> ?K" "p \<noteq> ?k" "q \<noteq> ?k" using pv fa A vK vk by auto
  define m0 where "m0 = set_sp_RefCount p 1 (set_sp_Pml4 p q (set_sp_PhysicalBase p b (VMem s)))"
  have f0: "sp_Pml4 m0 p = q" "sp_PhysicalBase m0 p = b" "sp_RefCount m0 p = 1" by (simp_all add: m0_def sp_fields [OF p0(1)])
  have s0: "same_on (- span p 4096) (VMem s) m0"
    unfolding m0_def by (intro same_on_trans [OF same_on_trans [OF sp_write_same(2) [OF p0(1)] sp_write_same(1) [OF p0(1)]] sp_write_same(3) [OF p0(1)]])
  note C = clear_space_spec [OF q0(1) p0(1) ne(1) f0(1)]
  define m1 where "m1 = clear_space p m0"
  note u0 = page_untouched [OF p0(1) _ _ s0] and u1 = page_untouched [OF q0(1) _ _ C(1), folded m1_def]
  have f1: "sp_Pml4 m1 p = q" "sp_PhysicalBase m1 p = b" "sp_RefCount m1 p = 1"
    using sp_same [OF p0(1) u1 [OF p0(1) ne(1)]] f0 by simp_all
  have k1: "sp_Pml4 m1 ?K = ?k"
    using sp_same(1) [OF K(1) u1 [OF K(1) ne(3)]] sp_same(1) [OF K(1) u0 [OF K(1) ne(2)]] by simp
  have e1: "pte m1 ?k j = pte (VMem s) ?k j" if "j < 512" for j
    using pte_same_on [OF k(1) that u1 [OF k(1) ne(5)]] pte_same_on [OF k(1) that u0 [OF k(1) ne(4)]] by simp
  note H = copy_kernel_half_spec [OF q0(1) p0(1) ne(1) f1(1) K(1) ne(3) k1 k(1) ne(5) C(2) [folded m1_def]]
  define m2 where "m2 = copy_kernel_half p ?K m1"
  have f2: "sp_Pml4 m2 p = q" "sp_PhysicalBase m2 p = b" "sp_RefCount m2 p = 1"
    using sp_same [OF p0(1) page_untouched [OF q0(1) p0(1) ne(1) H(1), folded m2_def]] f1 by simp_all
  have "CreateVirtualSpace s = (p, s\<lparr>VPmm := T, VMem := m2\<rparr>)"
    using K(2) k(2) a a0 b b0 p0(2) q0(2) f0(1)
    by (simp add: CreateVirtualSpace_def Let_def p_def [symmetric] q_def [symmetric] m0_def [symmetric] m1_def [symmetric] m2_def [symmetric])
  then have t: "Space = p" "t = s\<lparr>VPmm := T, VMem := m2\<rparr>" using c by simp_all
  have "pte m2 q j = (if 256 \<le> j then pte (VMem s) ?k j else 0)" if "j < 512" for j
    using H(2) [folded m2_def, OF _ that] e1 [OF that] by simp
  then show ?thesis using that [OF a a0 _ b0] b t pT q_def f2 ne by simp
qed

lemma InitializeVmm_ready:
  assumes P: "pmm_inv (VPmm s)" "hhdm_ok (VPmm s)" and av: "avail_addrs (VPmm s) \<noteq> {}"
    and cr3: "Cr3 s AND TableMask \<in> taken_addrs (VPmm s) - {0}"
  shows "vmm_ready (InitializeVmm s)"
    "card (avail_addrs (VPmm (InitializeVmm s))) = card (avail_addrs (VPmm s)) - 1"
proof -
  obtain a Q where a: "AllocPage (VPmm s) = (a, Q)" by force
  have a0: "a \<noteq> 0" using pmm.alloc_succeeds_iff [OF P(1)] av a by simp
  note A = pmm.alloc_some [OF P(1) a a0] and F = alloc_pmm_frame [OF P(1) a]
  have Q: "pmm_inv Q" "hhdm_ok Q" using A P(2) F by (simp_all add: hhdm_ok_def)
  define p where "p = PhysToVirt a Q"
  have p: "p mod 4096 = 0" "p \<noteq> 0" using direct_map [OF Q, of a] A a0 by (simp_all add: p_def)
  define m where "m = set_sp_RefCount p 1 (set_sp_Pml4 p (PhysToVirt (Cr3 s AND TableMask) Q) (set_sp_PhysicalBase p (Cr3 s AND TableMask) (VMem s)))"
  have f: "sp_Pml4 m p = PhysToVirt (Cr3 s AND TableMask) Q" by (simp add: m_def sp_fields [OF p(1)])
  have i: "VMem (InitializeVmm s) = m" "VPmm (InitializeVmm s) = Q" "KernelSpace (Vmm (InitializeVmm s)) = p"
    using a p(2) by (simp_all add: InitializeVmm_def Let_def p_def m_def)
  show "vmm_ready (InitializeVmm s)"
    unfolding vmm_ready_def i f using Q A a0 cr3 by (auto simp: p_def)
  have "finite (avail_addrs (VPmm s))" by (simp add: avail_addrs_def free_pages_def)
  then show "card (avail_addrs (VPmm (InitializeVmm s))) = card (avail_addrs (VPmm s)) - 1" using A by (simp add: i)
qed

text \<open>A new space keeps the invariant and maps nothing in the user half.\<close>

lemma fresh_space:
  assumes R: "vmm_ready s" and c: "CreateVirtualSpace s = (Space, t)" and S: "Space \<noteq> 0"
  shows "space_inv Space t" "user_frames Space t = Map.empty" "Vmm t = Vmm s"
    "card (avail_addrs (VPmm t)) = card (avail_addrs (VPmm s)) - 2"
proof -
  have P: "pmm_inv (VPmm s)" "hhdm_ok (VPmm s)" using R by (simp_all add: vmm_ready_def)
  obtain a b Q where x: "AllocPage (VPmm s) = (a, Q)" "a \<noteq> 0" "AllocPage Q = (b, VPmm t)" "b \<noteq> 0"
    "Space = PhysToVirt a (VPmm t)" "sp_Pml4 (VMem t) Space = PhysToVirt b (VPmm t)" "sp_PhysicalBase (VMem t) Space = b"
    "sp_RefCount (VMem t) Space = 1" "Vmm t = Vmm s" "Space \<noteq> KernelSpace (Vmm s)" "PhysToVirt b (VPmm t) \<noteq> Space"
    and e: "\<forall>j. j < 512 \<longrightarrow> pte (VMem t) (PhysToVirt b (VPmm t)) j =
       (if 256 \<le> j then pte (VMem s) (sp_Pml4 (VMem s) (KernelSpace (Vmm s))) j else 0)"
    by (rule CreateVirtualSpace_done [OF R c S])
  note A = pmm.alloc_some [OF P(1) x(1,2)] and FA = alloc_pmm_frame [OF P(1) x(1)]
  have Q: "pmm_inv Q" using A by simp
  note B = pmm.alloc_some [OF Q x(3,4)] and FB = alloc_pmm_frame [OF Q x(3)]
  show "Vmm t = Vmm s" by (rule x(9))
  let ?r = "PhysToVirt b (VPmm t)"
  have d: "table_at t ?r is = (if is = [] then Some ?r else None)" if u: "upath is" for "is"
  proof (cases "is")
    case (Cons i js)
    then have "i < 256" "i < 512" using u by (auto simp: upath_def intro: less_trans)
    moreover from this have "\<not> 256 \<le> i" by (simp add: not_le)
    ultimately show ?thesis using e Cons by simp
  qed simp
  have tb: "tables_ok (VMem t) (VPmm t) ?r"
    unfolding tables_ok_def using d B x(4) by (auto split: if_splits)
  show inv: "space_inv Space t"
    unfolding space_inv_def x(6) using P(2) A B x d tb by (auto simp: hhdm_ok_def FA FB split: if_splits)
  have "space_leaf Space t v = 0" if "v < 0x800000000000" for v
    using d [OF upath_vpath(1) [OF that]] by (simp add: space_leaf_def leaf_def x(6) vpath_def)
  then show "user_frames Space t = Map.empty" by (auto simp: fun_eq_iff user_frames_def is_mapped_def user_page_def)
  have "finite (avail_addrs (VPmm s))" "b \<noteq> a" using A B by (auto simp: avail_addrs_def free_pages_def)
  then show "card (avail_addrs (VPmm t)) = card (avail_addrs (VPmm s)) - 2" using A B by simp
qed

lemma free_pml4_entries_none:
  assumes "\<And>i. i < 256 \<Longrightarrow> pte m r i = 0"
  shows "free_pml4_entries r m P = P"
proof -
  have "(\<lambda>Q. Q = P) (for_range 0 (256 :: u64) (\<lambda>Pml4I P. if \<not> present (pte m r Pml4I) then P
    else let PdptPhys = pte m r Pml4I AND FrameMask; Pdpt = PhysToVirt PdptPhys P in
      if Pdpt = 0 then P else FreePage PdptPhys (free_pdpt_entries Pdpt m P)) P)"
    by (rule for_range_invariant [where I = "\<lambda>_ Q. Q = P"]) (use assms in simp_all)
  then show ?thesis by (simp add: free_pml4_entries_def)
qed

lemma destroy_fresh_space:
  assumes R: "vmm_ready s" and c: "CreateVirtualSpace s = (Space, t)" and S: "Space \<noteq> 0"
  shows "taken_addrs (VPmm (DestroyVirtualSpace Space t)) = taken_addrs (VPmm s)"
    "avail_addrs (VPmm (DestroyVirtualSpace Space t)) = avail_addrs (VPmm s)"
proof -
  have P: "pmm_inv (VPmm s)" "hhdm_ok (VPmm s)" using R by (simp_all add: vmm_ready_def)
  obtain a b Q where x: "AllocPage (VPmm s) = (a, Q)" "a \<noteq> 0" "AllocPage Q = (b, VPmm t)" "b \<noteq> 0"
    "Space = PhysToVirt a (VPmm t)" "sp_Pml4 (VMem t) Space = PhysToVirt b (VPmm t)" "sp_PhysicalBase (VMem t) Space = b"
    "sp_RefCount (VMem t) Space = 1" "Vmm t = Vmm s" "Space \<noteq> KernelSpace (Vmm s)" "PhysToVirt b (VPmm t) \<noteq> Space"
    and e: "\<forall>j. j < 512 \<longrightarrow> pte (VMem t) (PhysToVirt b (VPmm t)) j =
       (if 256 \<le> j then pte (VMem s) (sp_Pml4 (VMem s) (KernelSpace (Vmm s))) j else 0)"
    by (rule CreateVirtualSpace_done [OF R c S])
  note A = pmm.alloc_some [OF P(1) x(1,2)] and B = pmm.alloc_some [OF conjunct1 [OF A] x(3,4)]
  note I = space_invD [OF fresh_space(1) [OF R c S]]
  have r: "PhysToVirt b (VPmm t) mod 4096 = 0" using direct_map(1) [OF I(1,2) _ x(4)] B by simp
  let ?m = "set_sp_RefCount Space 0 (VMem t)"
  have pg: "pte ?m (PhysToVirt b (VPmm t)) i = 0" if i: "i < 256" for i
  proof -
    have "i < 512" using i by (rule less_trans) simp
    moreover have "same_on (span (PhysToVirt b (VPmm t)) 4096) (VMem t) ?m"
      using x(11) by (intro page_untouched [OF I(5) r _ sp_write_same(3) [OF I(5)]]) simp
    moreover have "\<not> 256 \<le> i" using i by (simp add: not_le)
    ultimately show ?thesis using pte_same_on [OF r] e by simp
  qed
  have D: "VPmm (DestroyVirtualSpace Space t) = FreePage a (FreePage b (VPmm t))"
    using S x(6-10) free_pml4_entries_none [OF pg] sp_fields [OF I(5)] x(5)
    by (simp add: DestroyVirtualSpace_def Let_def VirtToPhys_def PhysToVirt_def FreePage_def stats_give_def ClearBitmapBit_def)
  have b: "pmm_inv (FreePage b (VPmm t)) \<and> avail_addrs (FreePage b (VPmm t)) = insert b (avail_addrs (VPmm t)) \<and>
      taken_addrs (FreePage b (VPmm t)) = taken_addrs (VPmm t) - {b}"
    using B x(4) by (intro pmm.release_taken) auto
  have "a \<in> taken_addrs (FreePage b (VPmm t))" using b A B by auto
  from pmm.release_taken [OF conjunct1 [OF b] this x(2)]
  show "taken_addrs (VPmm (DestroyVirtualSpace Space t)) = taken_addrs (VPmm s)"
    "avail_addrs (VPmm (DestroyVirtualSpace Space t)) = avail_addrs (VPmm s)"
    using D b A B pmm.alloc_fresh [OF P(1) x(1,2)] pmm.alloc_fresh [OF conjunct1 [OF A] x(3,4)] by auto
qed

section \<open>A started manager\<close>

text \<open>Nine pages of memory: the first reserved, the last holding the boot loader's top-level table.\<close>

definition demo_memmap9 :: "limine_memmap_entry list" where
  "demo_memmap9 = [\<lparr>entry_base = 0, entry_length = 0x1000, entry_type = 1\<rparr>,
                    \<lparr>entry_base = 0x1000, entry_length = 0x7000, entry_type = 0\<rparr>,
                    \<lparr>entry_base = 0x8000, entry_length = 0x1000, entry_type = 5\<rparr>]"

definition demo_pmm9 :: PhysicalMemoryManager where
  "demo_pmm9 = InitializePmm 0 6 (Some 0xFFFF800000000000) (Some demo_memmap9) pmm_static"

definition demo_vmem :: vmem where
  "demo_vmem = InitializeVmm \<lparr>Vmm = \<lparr>KernelSpace = 0, VmmHhdmOffset = 0, KernelPml4Physical = 0\<rparr>, VPmm = demo_pmm9,
     VMem = (\<lambda>_. 0), Cr3 = 0x8000, TlbLog = []\<rparr>"

lemma demo_pmm9_eval:
  "(Bitmap demo_pmm9, TotalPages demo_pmm9, HhdmOffset demo_pmm9, BitmapArr demo_pmm9 0) =
     (0xFFFF800000001000, 9, 0xFFFF800000000000, 0x103)"
  by code_simp

lemma demo_pmm9_fields:
  "Bitmap demo_pmm9 \<noteq> 0" "TotalPages demo_pmm9 = 9" "HhdmOffset demo_pmm9 = 0xFFFF800000000000"
  "i < 64 \<Longrightarrow> TestBitmapBit i demo_pmm9 \<longleftrightarrow> bit (0x103 :: u64) (unat i)"
proof -
  show "Bitmap demo_pmm9 \<noteq> 0" "TotalPages demo_pmm9 = 9" "HhdmOffset demo_pmm9 = 0xFFFF800000000000"
    using demo_pmm9_eval by simp_all
  assume "i < 64"
  then have "i div 64 = 0" "unat (i mod 64) = unat i" by (simp_all add: word_less_nat_alt word_unat_eq_iff unat_div unat_mod)
  then show "TestBitmapBit i demo_pmm9 \<longleftrightarrow> bit (0x103 :: u64) (unat i)" using demo_pmm9_eval by (simp add: TestBitmapBit_bit)
qed

lemma demo_pmm9_ok: "pmm_inv demo_pmm9" "hhdm_ok demo_pmm9"
proof -
  have "memmap_ok 0 demo_memmap9" by (simp add: memmap_ok_def demo_memmap9_def)
  then show "pmm_inv demo_pmm9"
    by (rule InitializePmm_spec [OF _ pmm_static_simps(1-3) demo_pmm9_def demo_pmm9_fields(1)])
  show "hhdm_ok demo_pmm9" by (simp add: hhdm_ok_def demo_pmm9_fields)
qed

lemma demo_avail9: "6 \<le> card (avail_addrs demo_pmm9)"
proof -
  have "{2, 3, 4, 5, 6, 7} \<subseteq> free_pages demo_pmm9" by (simp add: free_pages_def demo_pmm9_fields)
  then have "page_addr ` {2, 3, 4, 5, 6, 7} \<subseteq> avail_addrs demo_pmm9" by (auto simp: avail_addrs_def)
  then have "card (page_addr ` {2, 3, 4, 5, 6, 7}) \<le> card (avail_addrs demo_pmm9)"
    by (intro card_mono) (simp_all add: avail_addrs_def free_pages_def)
  moreover have "card (page_addr ` {2, 3, 4, 5, 6, 7}) = 6" by (simp add: page_addr_def)
  ultimately show ?thesis by simp
qed

lemma demo_vmem_ready: "vmm_ready demo_vmem" "5 \<le> card (avail_addrs (VPmm demo_vmem))"
proof -
  have "0x8000 = page_addr 8" "8 \<in> used_pages demo_pmm9" by (simp_all add: page_addr_def used_pages_def demo_pmm9_fields)
  then have t: "0x8000 \<in> taken_addrs demo_pmm9" unfolding taken_addrs_def by (rule image_eqI)
  have c: "(0x8000 :: u64) AND TableMask = 0x8000" by simp
  have av: "avail_addrs demo_pmm9 \<noteq> {}" using demo_avail9 by auto
  note I = InitializeVmm_ready [of "\<lparr>Vmm = \<lparr>KernelSpace = 0, VmmHhdmOffset = 0, KernelPml4Physical = 0\<rparr>, VPmm = demo_pmm9,
     VMem = (\<lambda>_. 0), Cr3 = 0x8000, TlbLog = []\<rparr>", folded demo_vmem_def, simplified]
  show "vmm_ready demo_vmem" "5 \<le> card (avail_addrs (VPmm demo_vmem))"
    using I demo_pmm9_ok av t demo_avail9 by auto
qed

lemma CreateVirtualSpace_succeeds:
  assumes R: "vmm_ready s" and av: "2 \<le> card (avail_addrs (VPmm s))"
  shows "fst (CreateVirtualSpace s) \<noteq> 0"
proof -
  have P: "pmm_inv (VPmm s)" "hhdm_ok (VPmm s)" using R by (simp_all add: vmm_ready_def)
  have K: "KernelSpace (Vmm s) \<noteq> 0" "sp_Pml4 (VMem s) (KernelSpace (Vmm s)) \<noteq> 0"
    using R mapped_page(2) [OF P] by (simp_all add: vmm_ready_def)
  obtain a Q where a: "AllocPage (VPmm s) = (a, Q)" by force
  have a0: "a \<noteq> 0" using pmm.alloc_succeeds_iff [OF P(1)] av a by auto
  note A = pmm.alloc_some [OF P(1) a a0] and FA = alloc_pmm_frame [OF P(1) a]
  have Q: "pmm_inv Q" "hhdm_ok Q" using A P(2) FA by (simp_all add: hhdm_ok_def)
  obtain b T where b: "AllocPage Q = (b, T)" by force
  have "card (avail_addrs Q) = card (avail_addrs (VPmm s)) - 1" using A by (simp add: card_Diff_singleton_if)
  then have "avail_addrs Q \<noteq> {}" using av by auto
  then have b0: "b \<noteq> 0" using pmm.alloc_succeeds_iff [OF Q(1)] b by simp
  note B = pmm.alloc_some [OF Q(1) b b0] and FB = alloc_pmm_frame [OF Q(1) b]
  have p: "PhysToVirt a Q mod 4096 = 0" "PhysToVirt a Q \<noteq> 0" using direct_map [OF Q, of a] A a0 by simp_all
  have q: "PhysToVirt b T \<noteq> 0" using direct_map(2) [OF Q, of b] B b0 by (simp add: PhysToVirt_def FB)
  show ?thesis using K a a0 b b0 p q by (simp add: CreateVirtualSpace_def Let_def sp_fields [OF p(1)])
qed

definition demo_space :: "u64 \<times> vmem" where "demo_space = CreateVirtualSpace demo_vmem"

lemma demo_space_ok:
  "space_inv (fst demo_space) (snd demo_space)" "user_frames (fst demo_space) (snd demo_space) = Map.empty"
  "3 \<le> card (avail_addrs (VPmm (snd demo_space)))" "fst demo_space \<noteq> 0"
proof -
  show s: "fst demo_space \<noteq> 0" unfolding demo_space_def
    using CreateVirtualSpace_succeeds [OF demo_vmem_ready(1)] demo_vmem_ready(2) by simp
  have c: "CreateVirtualSpace demo_vmem = (fst demo_space, snd demo_space)" by (simp add: demo_space_def)
  note F = fresh_space [OF demo_vmem_ready(1) c s]
  show "space_inv (fst demo_space) (snd demo_space)" "user_frames (fst demo_space) (snd demo_space) = Map.empty"
    by (rule F)+
  show "3 \<le> card (avail_addrs (VPmm (snd demo_space)))" using F(4) demo_vmem_ready(2) by simp
qed

section \<open>Properties\<close>

text \<open>C4: \<^verbatim>\<open>MapPage\<close>. On a well-formed space, for a page of the user half, a frame and flags that leave the frame bits alone, it
  keeps the space well formed and returns 0 or 1. It returns 0 only when the page allocator has fewer than three pages
  left, and then no translation changes. When it returns 1 for a page that was not mapped, \<^verbatim>\<open>GetPhysicalAddress\<close>
  takes every address of that page to its place in the frame and every other address of the user half to where
  it led before, and the TLB entry is invalidated. A page that was mapped keeps its old frame.\<close>

theorem MapPage_correct:
  assumes "space_inv Space s" "user_page va" "phys_frame pa" "Flags AND FrameMask = 0" "MapPage Space va pa Flags s = (ret, t)"
  shows "space_inv Space t \<and> (ret = 0 \<or> ret = 1) \<and>
    (ret = 0 \<longrightarrow> card (avail_addrs (VPmm s)) \<le> 2 \<and> user_frames Space t = user_frames Space s) \<and>
    (ret = 1 \<and> user_frames Space s va = None \<longrightarrow> TlbLog t = Invlpg va # TlbLog s \<and>
       (\<forall>w<0x800000000000. GetPhysicalAddress Space w t =
          (if w div 4096 = va div 4096 then pa + w mod 4096 else GetPhysicalAddress Space w s))) \<and>
    (user_frames Space s va \<noteq> None \<longrightarrow> user_frames Space t = user_frames Space s)"
proof -
  have v: "va < 0x800000000000" "va mod 4096 = 0" using assms(2) unfolding user_page_def by blast+
  have p: "pa mod 4096 = 0" "pa \<le> FrameMask" using assms(3) unfolding phys_frame_def by blast+
  show ?thesis using assms(1) v p assms(5)
  proof (cases rule: MapPage_cases)
    case full
    then show ?thesis using user_frames_same [of Space s t] same_mapsD(1) [of Space s t] by simp
  next
    case kept
    then show ?thesis using user_frames_same [of Space s t] same_mapsD(1) [of Space s t] assms(2) by (simp add: user_frames_def)
  next
    case mapped
    note N = new_leaf [OF assms(3,4)]
    have "GetPhysicalAddress Space w t = (if w div 4096 = va div 4096 then pa + w mod 4096 else GetPhysicalAddress Space w s)"
      if w: "w < 0x800000000000" for w
      using mapped(5) [OF w] N unfolding GetPhysicalAddress_leaf [OF mapped(3) w] GetPhysicalAddress_leaf [OF assms(1) w] is_mapped_def
      by simp
    then show ?thesis using mapped assms(2) by (simp add: user_frames_def)
  qed
qed

theorem MapPage_correct_witness:
  "\<exists>t. MapPage (fst demo_space) 0x400000 0x5000 7 (snd demo_space) = (1, t) \<and>
     GetPhysicalAddress (fst demo_space) 0x400123 t = 0x5123 \<and> GetPhysicalAddress (fst demo_space) 0x401000 t = 0"
proof -
  obtain ret t where m: "MapPage (fst demo_space) 0x400000 0x5000 7 (snd demo_space) = (ret, t)" by force
  have u: "user_page 0x400000" "phys_frame 0x5000" "(7 :: u64) AND FrameMask = 0" by (simp_all add: user_page_def phys_frame_def)
  note M = MapPage_correct [OF demo_space_ok(1) u m]
  have "ret = 1" using M demo_space_ok(3) by auto
  moreover have "\<not> is_mapped (fst demo_space) (snd demo_space) 0x401000"
    using fun_cong [OF demo_space_ok(2), where x = "0x401000"] by (simp add: user_frames_def user_page_def split: if_splits)
  then have "GetPhysicalAddress (fst demo_space) 0x401000 (snd demo_space) = 0"
    using GetPhysicalAddress_leaf [OF demo_space_ok(1), where va = "0x401000"] by simp
  ultimately show ?thesis using M m demo_space_ok(2) by simp
qed

text \<open>C18: mapping and unmapping a page that was not mapped gives back the translations of the space: \<^verbatim>\<open>UnmapPage\<close> returns
  1, the page translates to nothing, every other page to what it did, and the last thing done is to
  invalidate the page's TLB entry.\<close>

theorem MapPage_UnmapPage:
  assumes "space_inv Space s" "user_page va" "phys_frame pa" "Flags AND FrameMask = 0" "user_frames Space s va = None"
    and "MapPage Space va pa Flags s = (1, t)" "UnmapPage Space va t = (ret, u)"
  shows "ret = 1 \<and> space_inv Space u \<and> user_frames Space u = user_frames Space s \<and>
    GetPhysicalAddress Space va u = 0 \<and> TlbLog u = Invlpg va # TlbLog t"
proof -
  have r: "space_inv Space u \<and> user_frames Space u = user_frames Space s \<and> ret = 1"
    by (rule vmm.map_then_unmap [where Flags = Flags, OF assms(1,2) _ assms(5-7)]) (use assms(3,4) in simp)
  have v: "va < 0x800000000000" "va mod 4096 = 0" using assms(2) unfolding user_page_def by blast+
  have "user_frames Space u va = None" using r assms(5) by simp
  then have "\<not> is_mapped Space u va" using assms(2) by (simp add: user_frames_def split: if_splits)
  then have "GetPhysicalAddress Space va u = 0" using GetPhysicalAddress_leaf [OF conjunct1 [OF r] v(1)] by simp
  moreover have "space_inv Space t" using vmm.map_absent [where Flags = Flags, OF assms(1,2) _ assms(5,6)] assms(3,4) by simp
  from this v assms(7) have "TlbLog u = Invlpg va # TlbLog t" by (cases rule: UnmapPage_cases) (use r in simp_all)
  ultimately show ?thesis using r by simp
qed

theorem MapPage_UnmapPage_witness:
  "\<exists>t u. MapPage (fst demo_space) 0x400000 0x5000 7 (snd demo_space) = (1, t) \<and>
     UnmapPage (fst demo_space) 0x400000 t = (1, u) \<and> GetPhysicalAddress (fst demo_space) 0x400000 u = 0"
proof -
  obtain ret t where m: "MapPage (fst demo_space) 0x400000 0x5000 7 (snd demo_space) = (ret, t)" by force
  obtain ret' u where n: "UnmapPage (fst demo_space) 0x400000 t = (ret', u)" by force
  have v: "user_page 0x400000" "phys_frame 0x5000" "(7 :: u64) AND FrameMask = 0"
    "(0x400000 :: u64) < 0x800000000000" "(0x400000 :: u64) mod 4096 = 0" "(0x5000 :: u64) mod 4096 = 0" "0x5000 \<le> FrameMask"
    by (simp_all add: user_page_def phys_frame_def)
  have "ret = 1"
    using demo_space_ok(1) v(4-7) m by (cases rule: MapPage_cases) (use demo_space_ok(3) in simp_all)
  then show ?thesis using MapPage_UnmapPage [OF demo_space_ok(1) v(1-3) _ _ n] m n demo_space_ok(2) by simp
qed

text \<open>C19: \<^verbatim>\<open>CreateVirtualSpace\<close> and \<^verbatim>\<open>DestroyVirtualSpace\<close>. A new space is well formed, maps nothing in the user half and shares the
  kernel half: entries 256 to 511 of its top-level table are the kernel's. Destroying it gives back exactly the pages
  that creating it took.\<close>

theorem CreateVirtualSpace_DestroyVirtualSpace:
  assumes "vmm_ready s" "CreateVirtualSpace s = (Space, t)" "Space \<noteq> 0"
  shows "space_inv Space t \<and> user_frames Space t = Map.empty \<and>
    (\<forall>i. 256 \<le> i \<and> i < 512 \<longrightarrow>
       pte (VMem t) (sp_Pml4 (VMem t) Space) i = pte (VMem s) (sp_Pml4 (VMem s) (KernelSpace (Vmm s))) i) \<and>
    taken_addrs (VPmm (DestroyVirtualSpace Space t)) = taken_addrs (VPmm s) \<and>
    avail_addrs (VPmm (DestroyVirtualSpace Space t)) = avail_addrs (VPmm s)"
proof -
  have "\<forall>i. 256 \<le> i \<and> i < 512 \<longrightarrow>
       pte (VMem t) (sp_Pml4 (VMem t) Space) i = pte (VMem s) (sp_Pml4 (VMem s) (KernelSpace (Vmm s))) i"
    by (rule CreateVirtualSpace_done [OF assms]) simp
  then show ?thesis using fresh_space [OF assms] destroy_fresh_space [OF assms] by blast
qed

theorem CreateVirtualSpace_DestroyVirtualSpace_witness:
  "user_frames (fst demo_space) (snd demo_space) = Map.empty \<and>
   avail_addrs (VPmm (DestroyVirtualSpace (fst demo_space) (snd demo_space))) = avail_addrs (VPmm demo_vmem)"
  using CreateVirtualSpace_DestroyVirtualSpace [OF demo_vmem_ready(1), of "fst demo_space" "snd demo_space"] demo_space_ok(4)
  by (simp add: demo_space_def)

end
