(* ===== verification/CString.thy ===== *)
theory CString
  imports Prelude
begin

text \<open>
  \<^verbatim>\<open>Kernel/KrnlLibs/String.c\<close> on byte-addressed memory: a \<^verbatim>\<open>char *\<close> is a 64-bit address,
  and the routines read and write \<open>memory\<close>. \<open>cstr m p s\<close> says that a NUL-terminated string with
  the bytes \<open>s\<close> stands at \<open>p\<close>; a scan for the terminator that never finds one does not return,
  which is the value \<open>None\<close>. Index and length arithmetic keep the C widths and wrap; the sum that
  \<^verbatim>\<open>atol\<close> builds is kept modulo \<open>2 ^ 64\<close>.
\<close>

section \<open>Routines\<close>

function StringCopy_loop :: "u64 \<Rightarrow> u64 \<Rightarrow> u32 \<Rightarrow> u32 \<Rightarrow> memory \<Rightarrow> memory" where
  "StringCopy_loop Dest Src MaxLen Index m =
     (if m (Src + ucast Index) \<noteq> 0 \<and> Index < MaxLen - 1
      then StringCopy_loop Dest Src MaxLen (Index + 1) (m(Dest + ucast Index := m (Src + ucast Index)))
      else m(Dest + ucast Index := 0))"
  by pat_completeness auto
termination
proof (relation "measure (\<lambda>(_, _, n, i, _). unat (n - 1) - unat i)")
  fix Dest Src :: u64 and n i :: u32 and m :: memory
  assume "m (Src + ucast i) \<noteq> 0 \<and> i < n - 1"
  then show "((Dest, Src, n, i + 1, m(Dest + ucast i := m (Src + ucast i))), Dest, Src, n, i, m)
      \<in> measure (\<lambda>(_, _, n, i, _). unat (n - 1) - unat i)"
    using unat_Suc_less [of i "n - 1"] by (auto simp: word_less_nat_alt)
qed simp

definition StringCopy :: "u64 \<Rightarrow> u64 \<Rightarrow> u32 \<Rightarrow> memory \<Rightarrow> memory" where
  "StringCopy Dest Src MaxLen m = StringCopy_loop Dest Src MaxLen 0 m"

text \<open>\<^verbatim>\<open>while (__Size__--) *Dest++ = *Src++;\<close>\<close>

function memcpy_loop :: "u64 \<Rightarrow> u64 \<Rightarrow> u64 \<Rightarrow> memory \<Rightarrow> memory" where
  "memcpy_loop Dest Src Size m =
     (if Size = 0 then m else memcpy_loop (Dest + 1) (Src + 1) (Size - 1) (m(Dest := m Src)))"
  by pat_completeness auto
termination
  by (relation "measure (\<lambda>(_, _, n, _). unat n)") (auto simp: unat_minus_one unat_gt_0)

definition builtin_memcpy :: "u64 \<Rightarrow> u64 \<Rightarrow> u64 \<Rightarrow> memory \<Rightarrow> u64 \<times> memory" where
  "builtin_memcpy Dest Src Size m = (Dest, memcpy_loop Dest Src Size m)"

function memset_loop :: "u64 \<Rightarrow> u8 \<Rightarrow> u64 \<Rightarrow> memory \<Rightarrow> memory" where
  "memset_loop ptr v n m = (if n = 0 then m else memset_loop (ptr + 1) v (n - 1) (m(ptr := v)))"
  by pat_completeness auto
termination
  by (relation "measure (\<lambda>(_, _, n, _). unat n)") (auto simp: unat_minus_one unat_gt_0)

definition memset :: "u64 \<Rightarrow> u32 \<Rightarrow> u64 \<Rightarrow> memory \<Rightarrow> u64 \<times> memory" where
  "memset Dest Value n m = (Dest, memset_loop Dest (ucast Value) n m)"

partial_function (option) strcmp :: "memory \<Rightarrow> u64 \<Rightarrow> u64 \<Rightarrow> int option" where
  "strcmp m Str1 Str2 =
     (if m Str1 \<noteq> 0 \<and> m Str1 = m Str2 then strcmp m (Str1 + 1) (Str2 + 1)
      else Some (uint (m Str1) - uint (m Str2)))"

partial_function (option) strlen_loop :: "memory \<Rightarrow> u64 \<Rightarrow> u64 \<Rightarrow> u64 option" where
  "strlen_loop m Str Size =
     (if m (Str + Size) \<noteq> 0 then strlen_loop m Str (Size + 1) else Some Size)"

definition strlen :: "memory \<Rightarrow> u64 \<Rightarrow> u64 option" where
  "strlen m Str = strlen_loop m Str 0"

definition strncmp :: "memory \<Rightarrow> u64 \<Rightarrow> u64 \<Rightarrow> u64 \<Rightarrow> int" where
  "strncmp m S1 S2 Size =
     (case find_range 0 Size (\<lambda>i. m (S1 + i) \<noteq> m (S2 + i) \<or> m (S1 + i) = 0) of
        None \<Rightarrow> 0
      | Some i \<Rightarrow>
          (let c1 = m (S1 + i); c2 = m (S2 + i) in
           if c1 \<noteq> c2 then (if c1 < c2 then -1 else 1) else 0))"

partial_function (option) strrchr_loop :: "memory \<Rightarrow> u8 \<Rightarrow> u64 \<Rightarrow> u64 \<Rightarrow> u64 option" where
  "strrchr_loop m c Str LastChar =
     (if m Str \<noteq> 0 then strrchr_loop m c (Str + 1) (if m Str = c then Str else LastChar)
      else if c = 0 then Some Str
      else Some LastChar)"

definition strrchr :: "memory \<Rightarrow> u64 \<Rightarrow> u32 \<Rightarrow> u64 option" where
  "strrchr m Str Idx = (if Str = 0 then Some 0 else strrchr_loop m (ucast Idx) Str 0)"

partial_function (option) strchr_loop :: "memory \<Rightarrow> u32 \<Rightarrow> u64 \<Rightarrow> u64 option" where
  "strchr_loop m Idx Str =
     (if m Str \<noteq> 0 then (if m Str = ucast Idx then Some Str else strchr_loop m Idx (Str + 1))
      else if Idx = 0 then Some Str
      else Some 0)"

definition strchr :: "memory \<Rightarrow> u64 \<Rightarrow> u32 \<Rightarrow> u64 option" where
  "strchr m Str Idx = (if Str = 0 then Some 0 else strchr_loop m Idx Str)"

text \<open>The three phases of \<^verbatim>\<open>atol\<close>: white space, sign, digits. \<^verbatim>\<open>char\<close> is signed on this target, so
  the two digit comparisons are the signed ones; on the bytes between \<^verbatim>\<open>'0'\<close> and \<^verbatim>\<open>'9'\<close> they agree
  with the unsigned ones.\<close>

partial_function (option) atol_skip :: "memory \<Rightarrow> u64 \<Rightarrow> u64 option" where
  "atol_skip m Str =
     (if m Str = 0x20 \<or> m Str = 0x09 \<or> m Str = 0x0A then atol_skip m (Str + 1) else Some Str)"

partial_function (option) atol_digits :: "memory \<Rightarrow> u64 \<Rightarrow> u64 \<Rightarrow> u64 option" where
  "atol_digits m Str Result =
     (if 0x30 \<le> m Str \<and> m Str \<le> 0x39
      then atol_digits m (Str + 1) (Result * 10 + ucast (m Str - 0x30))
      else Some Result)"

definition atol :: "memory \<Rightarrow> u64 \<Rightarrow> u64 option" where
  "atol m Str0 =
     (if Str0 = 0 then Some 0
      else
        (case atol_skip m Str0 of
           None \<Rightarrow> None
         | Some Str \<Rightarrow>
             (if m Str = 0x2D then map_option uminus (atol_digits m (Str + 1) 0)
              else if m Str = 0x2B then atol_digits m (Str + 1) 0
              else atol_digits m Str 0)))"

function strncpy_loop :: "u64 \<Rightarrow> u64 \<Rightarrow> nat \<Rightarrow> nat \<Rightarrow> memory \<Rightarrow> memory" where
  "strncpy_loop Dst Src n i m =
     (if i < n - 1 \<and> m (Src + word_of_nat i) \<noteq> 0
      then strncpy_loop Dst Src n (i + 1) (m(Dst + word_of_nat i := m (Src + word_of_nat i)))
      else m(Dst + word_of_nat i := 0))"
  by pat_completeness auto
termination
  by (relation "measure (\<lambda>(_, _, n, i, _). n - i)") auto

definition strncpy :: "u64 \<Rightarrow> u64 \<Rightarrow> u64 \<Rightarrow> memory \<Rightarrow> u64 \<times> memory" where
  "strncpy Dst Src Idx m =
     (if Dst = 0 \<or> Src = 0 \<or> sint Idx \<le> 0 then (Dst, m)
      else (Dst, strncpy_loop Dst Src (unat Idx) 0 m))"

declare StringCopy_loop.simps [simp del] memcpy_loop.simps [simp del] memset_loop.simps [simp del]
  strncpy_loop.simps [simp del]

section \<open>Strings in memory\<close>

fun cstr :: "memory \<Rightarrow> u64 \<Rightarrow> u8 list \<Rightarrow> bool" where
  "cstr m p [] \<longleftrightarrow> m p = 0"
| "cstr m p (c # s) \<longleftrightarrow> m p = c \<and> c \<noteq> 0 \<and> cstr m (p + 1) s"

lemma cstr_byte: "cstr m p s \<Longrightarrow> i < length s \<Longrightarrow> m (p + word_of_nat i) = s ! i \<and> s ! i \<noteq> 0"
proof (induction s arbitrary: p i)
  case (Cons c s)
  show ?case
  proof (cases i)
    case (Suc j)
    then have "m (p + 1 + word_of_nat j) = s ! j \<and> s ! j \<noteq> 0" using Cons by auto
    then show ?thesis using Suc by (simp add: ac_simps)
  qed (use Cons in auto)
qed simp

lemma cstr_end: "cstr m p s \<Longrightarrow> m (p + word_of_nat (length s)) = 0"
proof (induction s arbitrary: p)
  case (Cons c s)
  then have "m (p + 1 + word_of_nat (length s)) = 0" by simp
  then show ?case by (simp add: ac_simps)
qed simp

lemma cstr_unique: "cstr m p s \<Longrightarrow> cstr m p t \<Longrightarrow> s = t"
proof (induction s arbitrary: p t)
  case Nil
  then show ?case by (cases t) auto
next
  case (Cons c s)
  then show ?case by (cases t) auto
qed

lemma cstr_cong: "cstr m p s \<Longrightarrow> (\<And>a. a \<in> span p (Suc (length s)) \<Longrightarrow> m' a = m a) \<Longrightarrow> cstr m' p s"
proof (induction s arbitrary: p)
  case (Cons c s)
  have "cstr m' (p + 1) s"
    by (rule Cons.IH) (use Cons.prems in \<open>simp_all add: span_Suc [of p]\<close>)
  then show ?case using Cons.prems by (simp add: span_Suc)
qed (simp add: span_Suc)

lemma cstr_store:
  "0 \<notin> set s \<Longrightarrow> length s < 2 ^ 64 \<Longrightarrow> cstr (store_bytes m p (s @ [0])) p s"
proof (induction s arbitrary: m p)
  case (Cons c s)
  have "store_bytes (m(p := c)) (p + 1) (s @ [0]) p = c"
    using span_next_fresh [of "length (s @ [0])" p] Cons.prems by (subst store_bytes_other) auto
  then show ?case using Cons by auto
qed simp

lemma strlen_correct_aux: "cstr m (p + k) s \<Longrightarrow> strlen_loop m p k = Some (k + word_of_nat (length s))"
proof (induction s arbitrary: k)
  case Nil
  then show ?case by (subst strlen_loop.simps) simp
next
  case (Cons c s)
  then have "cstr m (p + (k + 1)) s" by (simp add: ac_simps)
  from Cons.IH [OF this] show ?case using Cons.prems by (subst strlen_loop.simps) (simp add: ac_simps)
qed

fun first_diff :: "u8 list \<Rightarrow> u8 list \<Rightarrow> int" where
  "first_diff [] [] = 0"
| "first_diff (a # s) [] = uint a"
| "first_diff [] (b # t) = - uint b"
| "first_diff (a # s) (b # t) = (if a = b then first_diff s t else uint a - uint b)"

lemma strcmp_first_diff: "cstr m p s \<Longrightarrow> cstr m q t \<Longrightarrow> strcmp m p q = Some (first_diff s t)"
  by (induction s t arbitrary: p q rule: first_diff.induct; subst strcmp.simps) auto

lemma first_diff_0: "0 \<notin> set s \<Longrightarrow> 0 \<notin> set t \<Longrightarrow> first_diff s t = 0 \<longleftrightarrow> s = t"
proof (induction s t rule: first_diff.induct)
  case (4 a s b t)
  then show ?case by (cases "a = b") (auto simp: word_uint_eq_iff)
qed (auto simp: uint_0_iff)

lemma first_diff_lex:
  "0 \<notin> set s \<Longrightarrow> 0 \<notin> set t \<Longrightarrow> first_diff s t < 0 \<longleftrightarrow> ord_class.lexordp s t"
proof (induction s t rule: first_diff.induct)
  case (2 a s)
  have "0 \<le> uint a" by simp
  then show ?case by (simp add: not_less)
next
  case (3 b t)
  then have "uint b \<noteq> 0" by (simp add: uint_0_iff)
  then show ?case using uint_ge_0 [of b] by (simp add: le_less del: uint_ge_0)
next
  case (4 a s b t)
  then show ?case by (cases "a = b") (auto simp: word_less_def word_uint_eq_iff)
qed simp

section \<open>Copies\<close>

text \<open>A forward byte copy that stops at the terminator or at \<open>n\<close> bytes writes a prefix of the source
  and a terminator, provided the destination does not overlap the source string.\<close>

lemma copy_step:
  assumes s: "cstr m Src s" and i: "i < length s"
    and d: "span Dest (Suc (length s)) \<inter> span Src (Suc (length s)) = {}" and l: "length s < 2 ^ 64"
  shows "(store_bytes m Dest (take i s)) (Dest + word_of_nat i := store_bytes m Dest (take i s) (Src + word_of_nat i))
     = store_bytes m Dest (take (Suc i) s)"
    "store_bytes m Dest (take i s) (Src + word_of_nat i) = s ! i"
proof -
  have "Src + word_of_nat i \<in> span Src (Suc (length s))" using i by (auto simp: span_def)
  moreover have "span Dest (length (take i s)) \<subseteq> span Dest (Suc (length s))" by (rule span_mono) simp
  ultimately have "store_bytes m Dest (take i s) (Src + word_of_nat i) = m (Src + word_of_nat i)"
    using d by (intro store_bytes_other) blast
  then show 1: "store_bytes m Dest (take i s) (Src + word_of_nat i) = s ! i"
    using cstr_byte [OF s i] by simp
  show "(store_bytes m Dest (take i s)) (Dest + word_of_nat i := store_bytes m Dest (take i s) (Src + word_of_nat i))
     = store_bytes m Dest (take (Suc i) s)"
    using i unfolding 1 by (simp add: take_Suc_conv_app_nth store_bytes_append)
qed

lemma copy_stop:
  assumes s: "cstr m Src s" and d: "span Dest (Suc (length s)) \<inter> span Src (Suc (length s)) = {}"
  shows "store_bytes m Dest s (Src + word_of_nat (length s)) = 0"
proof -
  have "Src + word_of_nat (length s) \<in> span Src (Suc (length s))" by (auto simp: span_def)
  moreover have "span Dest (length s) \<subseteq> span Dest (Suc (length s))" by (rule span_mono) simp
  ultimately have "store_bytes m Dest s (Src + word_of_nat (length s)) = m (Src + word_of_nat (length s))"
    using d by (intro store_bytes_other) blast
  then show ?thesis using cstr_end [OF s] by simp
qed

lemma StringCopy_loop_spec:
  assumes s: "cstr m Src s" and d: "span Dest (Suc (length s)) \<inter> span Src (Suc (length s)) = {}"
    and l: "length s < 2 ^ 64"
  shows "unat i \<le> length s \<Longrightarrow> unat i \<le> unat (n - 1) \<Longrightarrow>
    StringCopy_loop Dest Src n i (store_bytes m Dest (take (unat i) s)) =
      store_bytes m Dest (take (unat (n - 1)) s @ [0])"
proof (induction "unat (n - 1) - unat i" arbitrary: i rule: less_induct)
  case less
  let ?m = "store_bytes m Dest (take (unat i) s)"
  show ?case
  proof (cases "unat i < length s \<and> i < n - 1")
    case True
    then have i: "unat i < length s" and lt: "i < n - 1" by auto
    note st = copy_step [OF s i d l]
    have rd: "?m (Src + ucast i) = s ! unat i" "s ! unat i \<noteq> 0" using st(2) cstr_byte [OF s i] by simp_all
    have wr: "?m (Dest + ucast i := s ! unat i) = store_bytes m Dest (take (Suc (unat i)) s)"
      using st by simp
    have u: "unat (i + 1) = Suc (unat i)" using unat_Suc_less [OF lt] .
    have "StringCopy_loop Dest Src n i ?m = StringCopy_loop Dest Src n (i + 1) (store_bytes m Dest (take (unat (i + 1)) s))"
      unfolding u wr [symmetric] using rd lt by (subst StringCopy_loop.simps) simp
    also have "\<dots> = store_bytes m Dest (take (unat (n - 1)) s @ [0])"
      by (rule less.hyps) (use lt i u in \<open>auto simp: word_less_nat_alt\<close>)
    finally show ?thesis .
  next
    case False
    have "?m (Src + ucast i) = 0 \<or> \<not> i < n - 1"
    proof (cases "unat i = length s")
      case True
      then have "word_of_nat (length s) = (ucast i :: u64)" by (metis of_nat_unat)
      then show ?thesis using copy_stop [OF s d] True by simp
    qed (use False less.prems in auto)
    then have "StringCopy_loop Dest Src n i ?m = ?m (Dest + ucast i := 0)"
      by (subst StringCopy_loop.simps) auto
    moreover have "take (unat (n - 1)) s = take (unat i) s"
      using False less.prems by (auto simp: word_less_nat_alt)
    ultimately show ?thesis using less.prems by (simp add: store_bytes_append)
  qed
qed

lemma memcpy_loop_spec:
  assumes "span Dest (unat n) \<inter> span Src (unat n) = {}"
  shows "memcpy_loop Dest Src n m = store_bytes m Dest (load_bytes m Src (unat n))"
  using assms
proof (induction "unat n" arbitrary: Dest Src n m)
  case 0
  then have "n = 0" by (simp add: word_unat_eq_iff)
  then show ?case by (subst memcpy_loop.simps) simp
next
  case (Suc k)
  have "n \<noteq> 0" using Suc.hyps(2) by auto
  then have n: "n \<noteq> 0" "unat n = Suc (unat (n - 1))" by (simp_all add: unat_pred)
  have d: "span (Dest + 1) (unat (n - 1)) \<inter> span (Src + 1) (unat (n - 1)) = {}"
    "Dest \<notin> span (Src + 1) (unat (n - 1))"
    using Suc.prems by (auto simp: n(2) span_Suc)
  have "memcpy_loop Dest Src n m = memcpy_loop (Dest + 1) (Src + 1) (n - 1) (m(Dest := m Src))"
    using n(1) by (subst memcpy_loop.simps) simp
  also have "\<dots> = store_bytes (m(Dest := m Src)) (Dest + 1) (load_bytes (m(Dest := m Src)) (Src + 1) (unat (n - 1)))"
    by (rule Suc.hyps(1)) (use Suc.hyps(2) n d in auto)
  also have "load_bytes (m(Dest := m Src)) (Src + 1) (unat (n - 1)) = load_bytes m (Src + 1) (unat (n - 1))"
    using d(2) by (intro load_bytes_cong) auto
  finally show ?case unfolding n(2) load_bytes.simps store_bytes.simps .
qed

lemma memset_loop_spec: "memset_loop p v n m = store_bytes m p (replicate (unat n) v)"
proof (induction "unat n" arbitrary: p n m)
  case 0
  then have "n = 0" by (simp add: word_unat_eq_iff)
  then show ?case by (subst memset_loop.simps) simp
next
  case (Suc k)
  have "n \<noteq> 0" using Suc.hyps(2) by auto
  then have n: "n \<noteq> 0" "unat n = Suc (unat (n - 1))" by (simp_all add: unat_pred)
  then show ?case using Suc.hyps(1) [of "n - 1"] Suc.hyps(2) by (subst memset_loop.simps) simp
qed

lemma strncpy_loop_spec:
  assumes s: "cstr m Src s" and d: "span Dest (Suc (length s)) \<inter> span Src (Suc (length s)) = {}"
    and l: "length s < 2 ^ 64"
  shows "i \<le> length s \<Longrightarrow> i \<le> n - 1 \<Longrightarrow>
    strncpy_loop Dest Src n i (store_bytes m Dest (take i s)) = store_bytes m Dest (take (n - 1) s @ [0])"
proof (induction "n - 1 - i" arbitrary: i rule: less_induct)
  case less
  let ?m = "store_bytes m Dest (take i s)"
  show ?case
  proof (cases "i < length s \<and> i < n - 1")
    case True
    then have i: "i < length s" and lt: "i < n - 1" by auto
    note st = copy_step [OF s i d l]
    have "strncpy_loop Dest Src n i ?m = strncpy_loop Dest Src n (Suc i) (store_bytes m Dest (take (Suc i) s))"
      unfolding st(1) [symmetric] using st(2) cstr_byte [OF s i] lt by (subst strncpy_loop.simps) simp
    also have "\<dots> = store_bytes m Dest (take (n - 1) s @ [0])"
      by (rule less.hyps) (use lt i in auto)
    finally show ?thesis .
  next
    case False
    have "?m (Src + word_of_nat i) = 0 \<or> \<not> i < n - 1"
      using False less.prems copy_stop [OF s d] by (cases "i = length s") auto
    then have "strncpy_loop Dest Src n i ?m = ?m (Dest + word_of_nat i := 0)"
      by (subst strncpy_loop.simps) auto
    moreover have "take (n - 1) s = take i s" using False less.prems by auto
    ultimately show ?thesis using less.prems by (simp add: store_bytes_append)
  qed
qed

section \<open>Searches\<close>

text \<open>The first and the last position of a byte.\<close>

fun first_pos :: "u8 \<Rightarrow> u8 list \<Rightarrow> nat option" where
  "first_pos c [] = None"
| "first_pos c (x # xs) = (if x = c then Some 0 else map_option Suc (first_pos c xs))"

fun last_pos :: "u8 \<Rightarrow> u8 list \<Rightarrow> nat option" where
  "last_pos c [] = None"
| "last_pos c (x # xs) = (case last_pos c xs of Some i \<Rightarrow> Some (Suc i) | None \<Rightarrow> if x = c then Some 0 else None)"

lemma first_pos_Some: "first_pos c s = Some i \<longleftrightarrow> i < length s \<and> s ! i = c \<and> (\<forall>j < i. s ! j \<noteq> c)"
proof (induction s arbitrary: i)
  case (Cons x s)
  then show ?case by (cases i) (auto simp: All_less_Suc2)
qed simp

lemma last_pos_None: "last_pos c s = None \<longleftrightarrow> c \<notin> set s"
  by (induction s) (auto split: option.splits)

lemma strchr_loop_spec:
  assumes "cstr m p s" "Idx = 0 \<or> (ucast Idx :: u8) \<noteq> 0"
  shows "strchr_loop m Idx p = Some (if Idx = 0 then p + word_of_nat (length s)
     else case first_pos (ucast Idx) s of Some i \<Rightarrow> p + word_of_nat i | None \<Rightarrow> 0)"
  using assms
proof (induction s arbitrary: p)
  case Nil
  then show ?case by (subst strchr_loop.simps) auto
next
  case (Cons c s)
  then show ?case
    by (subst strchr_loop.simps) (auto simp: ac_simps split: option.splits)
qed

lemma strrchr_loop_spec:
  assumes "cstr m p s"
  shows "strrchr_loop m c p l = Some (if c = 0 then p + word_of_nat (length s)
     else case last_pos c s of Some i \<Rightarrow> p + word_of_nat i | None \<Rightarrow> l)"
  using assms
proof (induction s arbitrary: p l)
  case Nil
  then show ?case by (subst strrchr_loop.simps) auto
next
  case (Cons x s)
  then show ?case
    by (subst strrchr_loop.simps) (auto simp: ac_simps split: option.splits)
qed

section \<open>Numbers\<close>

definition digits_value :: "u8 list \<Rightarrow> nat \<Rightarrow> nat" where
  "digits_value ds acc = foldl (\<lambda>r c. r * 10 + (unat c - 48)) acc ds"

definition is_digit :: "u8 \<Rightarrow> bool" where
  "is_digit c \<longleftrightarrow> 0x30 \<le> c \<and> c \<le> 0x39"

lemma digit_value_word:
  assumes "is_digit c"
  shows "(ucast (c - 0x30) :: u64) = word_of_nat (unat c - 48)"
proof -
  have "unat (c - 0x30) = unat c - 48" using assms by (simp add: is_digit_def word_le_nat_alt unat_sub_if')
  then show ?thesis by (metis of_nat_unat)
qed

lemma atol_digits_spec:
  assumes "list_all is_digit ds" "\<not> is_digit (m (p + word_of_nat (length ds)))"
    "\<forall>i < length ds. m (p + word_of_nat i) = ds ! i"
  shows "atol_digits m p (word_of_nat acc) = Some (word_of_nat (digits_value ds acc))"
  using assms
proof (induction ds arbitrary: p acc)
  case Nil
  then show ?case by (subst atol_digits.simps) (auto simp: digits_value_def is_digit_def)
next
  case (Cons d ds)
  have d: "m p = d" "is_digit d" using Cons.prems by (auto dest: spec [of _ 0])
  have tl: "\<forall>i < length ds. m (p + 1 + word_of_nat i) = ds ! i"
  proof (intro allI impI)
    fix i assume "i < length ds"
    then show "m (p + 1 + word_of_nat i) = ds ! i"
      using Cons.prems(3) [rule_format, of "Suc i"] by (simp add: ac_simps)
  qed
  have "atol_digits m p (word_of_nat acc) = atol_digits m (p + 1) (word_of_nat (acc * 10 + (unat d - 48)))"
    using d by (subst atol_digits.simps) (simp add: is_digit_def [symmetric] digit_value_word)
  also have "\<dots> = Some (word_of_nat (digits_value ds (acc * 10 + (unat d - 48))))"
    by (rule Cons.IH) (use Cons.prems tl in \<open>auto simp: ac_simps\<close>)
  finally show ?case by (simp add: digits_value_def)
qed

section \<open>Properties\<close>

definition demo_text :: "u8 list" where
  "demo_text = [0x2F, 0x62, 0x69, 0x6E, 0x2F, 0x73, 0x68]"

definition demo_mem :: memory where
  "demo_mem = store_bytes (store_bytes (\<lambda>_. 0xFF) 0x1000 (demo_text @ [0])) 0x3000 (demo_text @ [0x31, 0])"

lemma demo_strings: "cstr demo_mem 0x1000 demo_text" "cstr demo_mem 0x3000 (demo_text @ [0x31])"
  unfolding demo_mem_def demo_text_def by code_simp+

lemma demo_spans: "span 0x2000 8 \<inter> span 0x1000 8 = {}"
proof -
  have "p \<in> span a 8 \<longleftrightarrow> p = a \<or> p = a + 1 \<or> p = a + 2 \<or> p = a + 3 \<or> p = a + 4 \<or> p = a + 5 \<or> p = a + 6 \<or> p = a + 7" for p a
    by (simp add: eval_nat_numeral span_Suc add.assoc)
  then show ?thesis by auto
qed

lemma demo_text_length: "Suc (length demo_text) = 8"
  by (simp add: demo_text_def)

text \<open>\<^verbatim>\<open>StringCopy\<close> into a buffer that does not overlap the source writes the longest prefix of the
  source that leaves room for a terminator, then the terminator, and nothing else; so the
  destination holds that prefix as a string and no byte past \<^verbatim>\<open>__MaxLen__\<close> is touched.\<close>

theorem StringCopy_correct:
  assumes "cstr m Src s" "length s < 2 ^ 64" "0 < MaxLen"
    "span Dest (Suc (length s)) \<inter> span Src (Suc (length s)) = {}"
  shows "StringCopy Dest Src MaxLen m = store_bytes m Dest (take (unat MaxLen - 1) s @ [0]) \<and>
    cstr (StringCopy Dest Src MaxLen m) Dest (take (unat MaxLen - 1) s) \<and>
    (\<nexists>a. a \<notin> span Dest (unat MaxLen) \<and> StringCopy Dest Src MaxLen m a \<noteq> m a)"
proof -
  have u: "unat (MaxLen - 1) = unat MaxLen - 1" "0 < unat MaxLen"
    using assms(3) by (auto simp: unat_minus_one unat_gt_0)
  have eq: "StringCopy Dest Src MaxLen m = store_bytes m Dest (take (unat MaxLen - 1) s @ [0])"
    using StringCopy_loop_spec [OF assms(1,4,2), of 0 MaxLen] by (simp add: StringCopy_def u)
  have nz: "0 \<notin> set s" using cstr_byte [OF assms(1)] by (auto simp: in_set_conv_nth)
  have "cstr (StringCopy Dest Src MaxLen m) Dest (take (unat MaxLen - 1) s)"
    unfolding eq by (rule cstr_store) (use nz assms(2) in \<open>auto dest: in_set_takeD\<close>)
  moreover have "StringCopy Dest Src MaxLen m a = m a" if "a \<notin> span Dest (unat MaxLen)" for a
  proof -
    have "span Dest (length (take (unat MaxLen - 1) s @ [0])) \<subseteq> span Dest (unat MaxLen)"
      using u by (intro span_mono) auto
    then show ?thesis unfolding eq using that by (intro store_bytes_other) blast
  qed
  ultimately show ?thesis using eq by blast
qed

theorem StringCopy_correct_witness:
  "cstr (StringCopy 0x2000 0x1000 5 demo_mem) 0x2000 [0x2F, 0x62, 0x69, 0x6E]"
  using StringCopy_correct [OF demo_strings(1), of 5 "0x2000", unfolded demo_text_length, OF _ _ demo_spans]
  by (simp add: demo_text_def)

text \<open>On two strings \<^verbatim>\<open>strcmp\<close> returns; the result is 0 exactly for equal strings, negative exactly
  when the first comes before the second in the lexicographic order of unsigned bytes, and
  \<^verbatim>\<open>strlen\<close> returns the number of bytes.\<close>

theorem strcmp_correct:
  assumes "cstr m p s" "cstr m q t"
  shows "(\<exists>r. strcmp m p q = Some r \<and> (r = 0 \<longleftrightarrow> s = t) \<and> (r < 0 \<longleftrightarrow> ord_class.lexordp s t)) \<and>
         strlen m p = Some (word_of_nat (length s))"
proof -
  have "0 \<notin> set s" "0 \<notin> set t"
    using cstr_byte [OF assms(1)] cstr_byte [OF assms(2)] by (auto simp: in_set_conv_nth)
  then show ?thesis
    using strcmp_first_diff [OF assms] first_diff_0 first_diff_lex strlen_correct_aux [of m p 0 s] assms(1)
    by (auto simp: strlen_def)
qed

theorem strcmp_correct_witness:
  "(\<exists>r. strcmp demo_mem 0x1000 0x3000 = Some r \<and> r < 0) \<and> strlen demo_mem 0x1000 = Some 7"
  using strcmp_correct [OF demo_strings] by (auto simp: demo_text_def)

text \<open>\<^verbatim>\<open>strchr\<close> returns the address of the first and \<^verbatim>\<open>strrchr\<close> of the last byte of the string that
  equals the character, the null pointer when there is none, and the terminator's address
  for the NUL character.\<close>

theorem strchr_strrchr_correct:
  assumes "cstr m p s" "p \<noteq> 0" "ucast c = b" "unat c < 256"
  shows "strchr m p c = Some (if b = 0 then p + word_of_nat (length s)
           else case first_pos b s of None \<Rightarrow> 0 | Some i \<Rightarrow> p + word_of_nat i) \<and>
         strrchr m p c = Some (if b = 0 then p + word_of_nat (length s)
           else case last_pos b s of None \<Rightarrow> 0 | Some i \<Rightarrow> p + word_of_nat i)"
proof -
  have "b = 0 \<longleftrightarrow> c = 0"
    using assms(3,4) by (auto simp: word_unat_eq_iff unsigned_ucast_eq take_bit_nat_eq_self)
  then show ?thesis
    using assms strchr_loop_spec [OF assms(1), of c] strrchr_loop_spec [OF assms(1), of b 0]
    by (auto simp: strchr_def strrchr_def split: option.splits)
qed

theorem strchr_strrchr_correct_witness:
  "strchr demo_mem 0x1000 0x2F = Some 0x1000 \<and> strrchr demo_mem 0x1000 0x2F = Some 0x1004"
  using strchr_strrchr_correct [OF demo_strings(1), of "0x2F" "0x2F"] by (simp add: demo_text_def)

text \<open>\<^verbatim>\<open>memcpy\<close> between areas that do not overlap makes the destination equal to the source and
  touches nothing else; \<^verbatim>\<open>memset\<close> fills exactly its area with the low byte of the value.\<close>

theorem memcpy_memset_correct:
  assumes "span Dest (unat n) \<inter> span Src (unat n) = {}"
  shows "load_bytes (snd (builtin_memcpy Dest Src n m)) Dest (unat n) = load_bytes m Src (unat n) \<and>
    load_bytes (snd (memset Dest v n m)) Dest (unat n) = replicate (unat n) (ucast v) \<and>
    (\<nexists>a. a \<notin> span Dest (unat n) \<and>
        (snd (builtin_memcpy Dest Src n m) a \<noteq> m a \<or> snd (memset Dest v n m) a \<noteq> m a))"
proof -
  have "unat n < 2 ^ 64" using unsigned_less [of n] by simp
  then have n: "unat n \<le> 2 ^ 64" by simp
  have c: "snd (builtin_memcpy Dest Src n m) = store_bytes m Dest (load_bytes m Src (unat n))"
    "snd (memset Dest v n m) = store_bytes m Dest (replicate (unat n) (ucast v))"
    using memcpy_loop_spec [OF assms] by (simp_all add: builtin_memcpy_def memset_def memset_loop_spec)
  show ?thesis
    using load_store_same [of "load_bytes m Src (unat n)" m Dest] n
      load_store_same [of "replicate (unat n) (ucast v)" m Dest]
    by (auto simp: c store_bytes_other)
qed

theorem memcpy_memset_correct_witness:
  "load_bytes (snd (builtin_memcpy 0x2000 0x1000 8 demo_mem)) 0x2000 8 = load_bytes demo_mem 0x1000 8"
  using memcpy_memset_correct [of "0x2000" 8 "0x1000" demo_mem] demo_spans by simp

end
