(* ===== verification/Printf.thy ===== *)
theory Printf
  imports CString Sync "HOL-Library.Monad_Syntax" "HOL-Library.Signed_Division"
begin

text \<open>Formatted output: the conversion of numbers to text, the format interpreter \<^verbatim>\<open>ProcessFormatSpecifier\<close>, and the printing
  and logging functions over it (\<^verbatim>\<open>!Debug/Printf.c\<close>, \<^verbatim>\<open>!Debug/Log.c\<close>). The variable arguments are a list; \<open>None\<close> is an
  argument of the wrong kind, a number that overruns its buffer, or a format that is read past its end. The console is what
  these routines leave on it: characters with their colours.\<close>

section \<open>Numbers as text\<close>

definition digit_char :: "bool \<Rightarrow> nat \<Rightarrow> char" where
  "digit_char Upper Remainder =
     (if Remainder > 9 then char_of (Remainder - 10 + (if Upper then 65 else 97)) else char_of (Remainder + 48))"

text \<open>The digits in the order the loop produces them, the last first. The callers pass bases from 2 on; below that the
  source's loop does not end.\<close>

function digits_rev :: "nat \<Rightarrow> bool \<Rightarrow> nat \<Rightarrow> string" where
  "digits_rev Base Upper Value =
     (if Value = 0 \<or> Base < 2 then []
      else digit_char Upper (Value mod Base) # digits_rev Base Upper (Value div Base))"
  by pat_completeness auto
termination
  by (relation "measure (\<lambda>(_, _, n). n)") auto

declare digits_rev.simps [simp del]

text \<open>\<^verbatim>\<open>ReverseString\<close> exchanges the ends and moves inwards.\<close>

function reverse_loop :: "nat \<Rightarrow> int \<Rightarrow> string \<Rightarrow> string" where
  "reverse_loop Start End Str =
     (if int Start < End
      then reverse_loop (Start + 1) (End - 1) (Str[Start := Str ! nat End, nat End := Str ! Start])
      else Str)"
  by pat_completeness auto
termination
  by (relation "measure (\<lambda>(i, j, _). nat (j - int i))") auto

declare reverse_loop.simps [simp del]

definition ReverseString :: "string \<Rightarrow> string" where
  "ReverseString Str = reverse_loop 0 (int (length Str) - 1) Str"

definition UnsignedToStringEx :: "u64 \<Rightarrow> nat \<Rightarrow> bool \<Rightarrow> string" where
  "UnsignedToStringEx Value Base Upper =
     (if Value = 0 then ''0'' else ReverseString (digits_rev Base Upper (unat Value)))"

definition UnsignedToString :: "u32 \<Rightarrow> nat \<Rightarrow> string" where
  "UnsignedToString Value Base =
     (if Value = 0 then ''0'' else ReverseString (digits_rev Base False (unat Value)))"

section \<open>Conversion specifiers\<close>

record FormatFlags =
  LeftAlign :: bool
  ShowSign :: bool
  SpacePrefix :: bool
  AlternateForm :: bool
  ZeroPad :: bool
  Width :: int
  Precision :: int
  HasPrecision :: bool
  Length :: int

definition no_flags :: FormatFlags where
  "no_flags = \<lparr>LeftAlign = False, ShowSign = False, SpacePrefix = False, AlternateForm = False, ZeroPad = False,
     Width = 0, Precision = 0, HasPrecision = False, Length = 0\<rparr>"

text \<open>What a caller passes after the format: an 8-byte slot, or a pointer to text.\<close>

datatype vararg = Slot u64 | Text "string option"

fun va_word :: "vararg list \<Rightarrow> (u64 \<times> vararg list) option" where
  "va_word (Slot w # As) = Some (w, As)"
| "va_word _ = None"

fun va_text :: "vararg list \<Rightarrow> (string option \<times> vararg list) option" where
  "va_text (Text t # As) = Some (t, As)"
| "va_text _ = None"

definition va_int :: "vararg list \<Rightarrow> (int \<times> vararg list) option" where
  "va_int As = do { (w, As) \<leftarrow> va_word As; Some (sint (ucast w :: u32), As) }"

text \<open>\<^verbatim>\<open>**Format\<close>: the end of the string is its terminator.\<close>

definition at :: "string \<Rightarrow> char" where
  "at f = (case f of [] \<Rightarrow> CHR 0x00 | c # _ \<Rightarrow> c)"

fun parse_flags :: "string \<Rightarrow> FormatFlags \<Rightarrow> FormatFlags \<times> string" where
  "parse_flags [] F = (F, [])"
| "parse_flags (c # f) F =
     (if c = CHR ''-'' then parse_flags f (F\<lparr>LeftAlign := True\<rparr>)
      else if c = CHR ''+'' then parse_flags f (F\<lparr>ShowSign := True\<rparr>)
      else if c = CHR '' '' then parse_flags f (F\<lparr>SpacePrefix := True\<rparr>)
      else if c = CHR ''#'' then parse_flags f (F\<lparr>AlternateForm := True\<rparr>)
      else if c = CHR ''0'' then parse_flags f (F\<lparr>ZeroPad := True\<rparr>)
      else (F, c # f))"

fun parse_number :: "int \<Rightarrow> string \<Rightarrow> int \<times> string" where
  "parse_number n [] = (n, [])"
| "parse_number n (c # f) =
     (if 48 \<le> (of_char c :: int) \<and> (of_char c :: int) \<le> 57 then parse_number (n * 10 + (of_char c - 48)) f else (n, c # f))"

definition parse_length :: "string \<Rightarrow> int \<times> string" where
  "parse_length f =
     (if at f = CHR ''l'' then (if at (tl f) = CHR ''l'' then (2, tl (tl f)) else (1, tl f))
      else if at f = CHR ''h'' then (if at (tl f) = CHR ''h'' then (-2, tl (tl f)) else (-1, tl f))
      else if at f = CHR ''z'' then (3, tl f)
      else if at f = CHR ''t'' then (4, tl f)
      else if at f = CHR ''J'' then (5, tl f)
      else (0, f))"

definition FormatOutput :: "string \<Rightarrow> FormatFlags \<Rightarrow> bool \<Rightarrow> nat \<Rightarrow> string" where
  "FormatOutput Buffer F IsNegative Base =
     (let Prefix = (if IsNegative then ''-'' else if ShowSign F then ''+'' else if SpacePrefix F then '' '' else []);
          Prefix = Prefix @ (if AlternateForm F then (if Base = 16 then ''0x''
                               else if Base = 8 \<and> at Buffer \<noteq> CHR ''0'' then ''0'' else []) else []);
          TotalLen = int (length Buffer + length Prefix);
          PadLen = (if Width F > TotalLen then nat (Width F - TotalLen) else 0)
      in (if \<not> LeftAlign F \<and> \<not> ZeroPad F then replicate PadLen (CHR '' '') else []) @ Prefix @
         (if \<not> LeftAlign F \<and> ZeroPad F then replicate PadLen (CHR ''0'') else []) @ Buffer @
         (if LeftAlign F then replicate PadLen (CHR '' '') else []))"

text \<open>The argument as the length modifier reads it; the lengths of \<^verbatim>\<open>z\<close>, \<^verbatim>\<open>t\<close> and \<^verbatim>\<open>J\<close> fall through to \<^verbatim>\<open>int\<close>.\<close>

definition signed_value :: "int \<Rightarrow> u64 \<Rightarrow> int" where
  "signed_value Len w =
     (if Len = -2 then sint (ucast w :: u8) else if Len = -1 then sint (ucast w :: u16)
      else if Len = 1 \<or> Len = 2 then sint w else sint (ucast w :: u32))"

definition unsigned_value :: "int \<Rightarrow> u64 \<Rightarrow> u64" where
  "unsigned_value Len w =
     (if Len = -2 then ucast (ucast w :: u8) else if Len = -1 then ucast (ucast w :: u16)
      else if Len = 1 \<or> Len = 2 then w else ucast (ucast w :: u32))"

text \<open>The digits and their terminator go to a buffer of 64 bytes; \<open>None\<close> is a number that does not fit.\<close>

definition ProcessInteger :: "FormatFlags \<Rightarrow> nat \<Rightarrow> bool \<Rightarrow> vararg list \<Rightarrow> (string \<times> vararg list) option" where
  "ProcessInteger F Base Signed As = do {
     (w, As) \<leftarrow> va_word As;
     let Value = signed_value (Length F) w;
     let IsNegative = (Signed \<and> Value < 0);
     let UValue = (if Signed then (if Value < 0 then - word_of_int Value else word_of_int Value) else unsigned_value (Length F) w);
     let Buffer = UnsignedToStringEx UValue Base (Length F AND 0x80 \<noteq> 0);
     if 64 \<le> length Buffer then None else Some (FormatOutput Buffer F IsNegative Base, As) }"

definition ProcessString :: "FormatFlags \<Rightarrow> vararg list \<Rightarrow> (string \<times> vararg list) option" where
  "ProcessString F As = do {
     (t, As) \<leftarrow> va_text As;
     let Str = (case t of None \<Rightarrow> ''(null)'' | Some x \<Rightarrow> x);
     let Len = (if HasPrecision F \<and> Precision F < int (length Str) then Precision F else int (length Str));
     let Pad = (if Width F > Len then replicate (nat (Width F - Len)) (CHR '' '') else []);
     Some ((if \<not> LeftAlign F then Pad else []) @ take (nat Len) Str @ (if LeftAlign F then Pad else []), As) }"

definition ProcessChar :: "FormatFlags \<Rightarrow> vararg list \<Rightarrow> (string \<times> vararg list) option" where
  "ProcessChar F As = do {
     (w, As) \<leftarrow> va_word As;
     let Pad = (if Width F > 1 then replicate (nat (Width F - 1)) (CHR '' '') else []);
     Some ((if \<not> LeftAlign F then Pad else []) @ [char_of (unat (ucast w :: u8))] @ (if LeftAlign F then Pad else []), As) }"

definition ProcessPointer :: "vararg list \<Rightarrow> (string \<times> vararg list) option" where
  "ProcessPointer As = do { (w, As) \<leftarrow> va_word As; Some (''0x'' @ UnsignedToStringEx w 16 False, As) }"


text \<open>The switch on the conversion character.\<close>

definition convert :: "char \<Rightarrow> FormatFlags \<Rightarrow> vararg list \<Rightarrow> (string \<times> vararg list) option" where
  "convert c F As =
     (if c = CHR ''d'' \<or> c = CHR ''I'' then ProcessInteger F 10 True As
      else if c = CHR ''u'' then ProcessInteger F 10 False As
      else if c = CHR ''x'' then ProcessInteger F 16 False As
      else if c = CHR ''X'' then ProcessInteger (F\<lparr>Length := Length F OR 0x80\<rparr>) 16 False As
      else if c = CHR ''o'' then ProcessInteger F 8 False As
      else if c = CHR ''b'' then ProcessInteger F 2 False As
      else if c = CHR ''s'' then ProcessString F As
      else if c = CHR ''c'' then ProcessChar F As
      else if c = CHR ''p'' then ProcessPointer As
      else if c = CHR ''N'' then Some ([], As)
      else if c \<in> set ''fFeEgG'' then Some (''(float)'', As)
      else if c = CHR ''%'' then Some (''%'', As)
      else Some ([CHR ''%'', c], As))"

text \<open>A width or a precision is a number in the format or, for \<^verbatim>\<open>*\<close>, an argument.\<close>

definition parse_star :: "string \<Rightarrow> vararg list \<Rightarrow> (int \<times> string \<times> vararg list) option" where
  "parse_star f As =
     (if at f = CHR ''*'' then do { (n, As) \<leftarrow> va_int As; Some (n, tl f, As) }
      else (let (n, f) = parse_number 0 f in Some (n, f, As)))"

definition parse_precision :: "FormatFlags \<Rightarrow> string \<Rightarrow> vararg list \<Rightarrow> (FormatFlags \<times> string \<times> vararg list) option" where
  "parse_precision F f As =
     (if at f = CHR ''.''
      then do { (p, f, As) \<leftarrow> parse_star (tl f) As; Some (F\<lparr>HasPrecision := True, Precision := p\<rparr>, f, As) }
      else Some (F, f, As))"

definition parse_spec :: "string \<Rightarrow> vararg list \<Rightarrow> (FormatFlags \<times> string \<times> vararg list) option" where
  "parse_spec f As = do {
     let (F, f) = parse_flags f no_flags;
     (w, f, As) \<leftarrow> parse_star f As;
     (F, f, As) \<leftarrow> parse_precision (F\<lparr>Width := w\<rparr>) f As;
     let (len, f) = parse_length f;
     Some (F\<lparr>Length := len\<rparr>, f, As) }"

text \<open>The output, the rest of the format and the rest of the arguments. When the format ends inside the specifier, the
  source steps over the terminator and goes on reading what follows the string: \<open>None\<close>.\<close>

definition ProcessFormatSpecifier :: "string \<Rightarrow> vararg list \<Rightarrow> (string \<times> string \<times> vararg list) option" where
  "ProcessFormatSpecifier f As = do {
     (F, f, As) \<leftarrow> parse_spec f As;
     if f = [] then None
     else do { (out, As) \<leftarrow> convert (at f) F As; Some (out, tl f, As) } }"

lemma parse_flags_shorter: "length (snd (parse_flags f F)) \<le> length f"
  by (induction f F rule: parse_flags.induct) (auto simp: le_Suc_eq)

lemma parse_number_shorter: "length (snd (parse_number n f)) \<le> length f"
  by (induction n f rule: parse_number.induct) (auto simp: le_Suc_eq)

lemma parse_length_shorter: "length (snd (parse_length f)) \<le> length f"
  by (simp add: parse_length_def)

lemma parse_star_shorter: "parse_star f As = Some (n, g, As') \<Longrightarrow> length g \<le> length f"
  using parse_number_shorter [of 0 f] by (auto simp: parse_star_def split: if_splits bind_splits prod.splits)

lemma parse_precision_shorter: "parse_precision F f As = Some (F', g, As') \<Longrightarrow> length g \<le> length f"
  by (auto simp: parse_precision_def split: if_splits bind_splits prod.splits dest!: parse_star_shorter)

lemma parse_spec_shorter:
  assumes "parse_spec f As = Some (F, g, As')"
  shows "length g \<le> length f"
proof -
  obtain F0 f0 where 0: "parse_flags f no_flags = (F0, f0)" by force
  from assms obtain w f1 As1 F2 f2 As2
    where 1: "parse_star f0 As = Some (w, f1, As1)" and 2: "parse_precision (F0\<lparr>Width := w\<rparr>) f1 As1 = Some (F2, f2, As2)"
      and 3: "g = snd (parse_length f2)"
    unfolding parse_spec_def 0 by (auto split: bind_splits prod.splits)
  show ?thesis
    using parse_flags_shorter [of f no_flags] parse_star_shorter [OF 1] parse_precision_shorter [OF 2] parse_length_shorter [of f2]
    unfolding 0 3 by simp
qed

lemma ProcessFormatSpecifier_shorter:
  "ProcessFormatSpecifier f As = Some (out, g, As') \<Longrightarrow> length g < length f"
  by (auto simp: ProcessFormatSpecifier_def split: bind_splits if_splits dest!: parse_spec_shorter)
    (metis Suc_le_lessD Suc_pred length_greater_0_conv)

section \<open>Printing\<close>

text \<open>The loop of \<^verbatim>\<open>KrnPrintf\<close> and of the log functions.\<close>

function format_loop :: "string \<Rightarrow> vararg list \<Rightarrow> string option" where
  "format_loop f As =
     (case f of
        [] \<Rightarrow> Some []
      | c # f \<Rightarrow>
          if c = CHR ''%''
          then (case ProcessFormatSpecifier f As of
                  None \<Rightarrow> None
                | Some (out, g, As) \<Rightarrow> map_option ((@) out) (format_loop g As))
          else map_option ((#) c) (format_loop f As))"
  by pat_completeness auto
termination
  by (relation "measure (\<lambda>(f, _). length f)") (auto dest!: ProcessFormatSpecifier_shorter)

declare format_loop.simps [simp del]


text \<open>The console as these routines use it: its lock, its colours, and the characters put on it with the colours they
  were put in.\<close>

record printer =
  ConsoleLock :: SpinLock
  PrFlags :: CpuFlags
  PrCpu :: u32
  TXColor :: u32
  BGColor :: u32
  Screen :: "(char \<times> u32 \<times> u32) list"

abbreviation (input) ClrNormal :: u32 where "ClrNormal \<equiv> 0xFFFFFF"
abbreviation (input) ClrInvisible :: u32 where "ClrInvisible \<equiv> 0x000000"
abbreviation (input) ClrError :: u32 where "ClrError \<equiv> 0xFF0000"
abbreviation (input) ClrSuccess :: u32 where "ClrSuccess \<equiv> 0x00FF00"
abbreviation (input) ClrWarn :: u32 where "ClrWarn \<equiv> 0xFFFF00"
abbreviation (input) ClrInfo :: u32 where "ClrInfo \<equiv> 0x00FFFF"
abbreviation (input) ClrDebug :: u32 where "ClrDebug \<equiv> 0x808080"

definition lock_console :: "printer \<Rightarrow> printer option" where
  "lock_console P = do {
     (L, F) \<leftarrow> AcquireSpinLock (PrCpu P) (ConsoleLock P, PrFlags P);
     Some (P\<lparr>ConsoleLock := L, PrFlags := F\<rparr>) }"

definition unlock_console :: "printer \<Rightarrow> printer" where
  "unlock_console P =
     (let (L, F) = ReleaseSpinLock (PrCpu P) (ConsoleLock P, PrFlags P) in P\<lparr>ConsoleLock := L, PrFlags := F\<rparr>)"

definition SetBGColor :: "u32 \<Rightarrow> u32 \<Rightarrow> printer \<Rightarrow> printer" where
  "SetBGColor FG BG P = P\<lparr>TXColor := FG, BGColor := BG\<rparr>"

definition PutPrint :: "string \<Rightarrow> printer \<Rightarrow> printer" where
  "PutPrint Str P = P\<lparr>Screen := Screen P @ map (\<lambda>c. (c, TXColor P, BGColor P)) Str\<rparr>"

definition print_args :: "string \<Rightarrow> vararg list \<Rightarrow> printer \<Rightarrow> printer option" where
  "print_args Format As P = map_option (\<lambda>out. PutPrint out P) (format_loop Format As)"

definition KrnPrintf :: "string \<Rightarrow> vararg list \<Rightarrow> printer \<Rightarrow> printer option" where
  "KrnPrintf Format As P = do {
     P \<leftarrow> lock_console P;
     P \<leftarrow> print_args Format As P;
     Some (unlock_console P) }"

definition KrnPrintfColor :: "u32 \<Rightarrow> u32 \<Rightarrow> string \<Rightarrow> vararg list \<Rightarrow> printer \<Rightarrow> printer option" where
  "KrnPrintfColor FG BG Format As P = do {
     P \<leftarrow> lock_console P;
     let OldFG = TXColor P; let OldBG = BGColor P;
     P \<leftarrow> print_args Format As (SetBGColor FG BG P);
     Some (unlock_console (SetBGColor OldFG OldBG P)) }"

text \<open>The five log functions differ in the tag, its colour, and the colour of what follows.\<close>

definition log_line :: "string \<Rightarrow> u32 \<Rightarrow> u32 \<Rightarrow> string option \<Rightarrow> vararg list \<Rightarrow> printer \<Rightarrow> printer option" where
  "log_line Tag TagColor TextColor Format As P =
     (let Format = (case Format of None \<Rightarrow> ''(null)'' | Some f \<Rightarrow> f) in do {
        P \<leftarrow> lock_console P;
        let OldFG = TXColor P; let OldBG = BGColor P;
        let P = PutPrint Tag (SetBGColor TagColor ClrInvisible P);
        P \<leftarrow> print_args Format As (SetBGColor TextColor ClrInvisible P);
        Some (unlock_console (SetBGColor OldFG OldBG P)) })"

definition PError :: "string option \<Rightarrow> vararg list \<Rightarrow> printer \<Rightarrow> printer option" where
  "PError = log_line ''[ERROR]:'' ClrError ClrNormal"

definition PWarn :: "string option \<Rightarrow> vararg list \<Rightarrow> printer \<Rightarrow> printer option" where
  "PWarn = log_line ''[WARN]:'' ClrWarn ClrNormal"

definition PInfo :: "string option \<Rightarrow> vararg list \<Rightarrow> printer \<Rightarrow> printer option" where
  "PInfo = log_line ''[INFO]:'' ClrInfo ClrNormal"

definition PDebug :: "string option \<Rightarrow> vararg list \<Rightarrow> printer \<Rightarrow> printer option" where
  "PDebug = log_line ''[DEBUG]:'' ClrDebug ClrDebug"

definition PSuccess :: "string option \<Rightarrow> vararg list \<Rightarrow> printer \<Rightarrow> printer option" where
  "PSuccess = log_line ''[OK]:'' ClrSuccess ClrNormal"

text \<open>The older printing routines, which do not take the lock. The remainder of a negative number is negative, as in C;
  negating the least number gives it back.\<close>

function int_digits_rev :: "nat \<Rightarrow> int \<Rightarrow> string" where
  "int_digits_rev Base Value =
     (if Value = 0 \<or> Base < 2 then []
      else
        (let Remainder = Value smod int Base in
         char_of (if Remainder > 9 then Remainder - 10 + 97 else Remainder + 48) # int_digits_rev Base (Value sdiv int Base)))"
  by pat_completeness auto
termination
proof (relation "measure (\<lambda>(_, v). nat \<bar>v\<bar>)")
  fix Base :: nat and Value x :: int
  assume a: "\<not> (Value = 0 \<or> Base < 2)"
  have "\<bar>Value sdiv int Base\<bar> = \<bar>Value\<bar> div int Base"
    using a by (auto simp: signed_divide_int_def abs_mult sgn_if pos_imp_zdiv_nonneg_iff)
  also have "\<dots> < \<bar>Value\<bar>" using a by (intro int_div_less_self) auto
  finally show "((Base, Value sdiv int Base), Base, Value) \<in> measure (\<lambda>(_, v). nat \<bar>v\<bar>)" by simp
qed simp

declare int_digits_rev.simps [simp del]

definition IntegerToString :: "u32 \<Rightarrow> nat \<Rightarrow> string" where
  "IntegerToString Value Base =
     (if Value = 0 then ''0''
      else
        (let IsNegative = (sint Value < 0 \<and> Base = 10);
             Digits = int_digits_rev Base (sint (if IsNegative then - Value else Value))
         in ReverseString (Digits @ (if IsNegative then ''-'' else []))))"

definition upper_hex :: "string \<Rightarrow> string" where
  "upper_hex = map (\<lambda>c. if c \<in> set ''abcdef'' then char_of ((of_char c :: nat) - 32) else c)"

definition PrintInteger :: "u32 \<Rightarrow> nat \<Rightarrow> bool \<Rightarrow> printer \<Rightarrow> printer option" where
  "PrintInteger Value Base Uppercase P =
     (let Buffer = IntegerToString Value Base in
      if 32 \<le> length Buffer then None else Some (PutPrint (if Uppercase then upper_hex Buffer else Buffer) P))"

definition PrintUnsigned :: "u32 \<Rightarrow> nat \<Rightarrow> bool \<Rightarrow> printer \<Rightarrow> printer option" where
  "PrintUnsigned Value Base Uppercase P =
     (let Buffer = UnsignedToString Value Base in
      if 32 \<le> length Buffer then None else Some (PutPrint (if Uppercase then upper_hex Buffer else Buffer) P))"

definition PrintString :: "string option \<Rightarrow> printer \<Rightarrow> printer" where
  "PrintString Str P = PutPrint (case Str of None \<Rightarrow> ''(null)'' | Some x \<Rightarrow> x) P"

definition PrintChar :: "char \<Rightarrow> printer \<Rightarrow> printer" where
  "PrintChar c P = PutPrint [c] P"

definition PrintPointer :: "u64 \<Rightarrow> printer \<Rightarrow> printer option" where
  "PrintPointer p P = PrintUnsigned (ucast p) 16 False (PutPrint ''0x'' P)"

end
