(* ===== verification/Process.thy ===== *)
theory Process
  imports PosixFd AxeThreads VMMSpec Printf "HOL-Library.Monad_Syntax"
begin

section \<open>Processes\<close>

text \<open>Processes and signals (\<^verbatim>\<open>Proc/Proc.c\<close>, without \<^verbatim>\<open>PosixProcExecve\<close>) and the directory that the process file system
  keeps of them (\<^verbatim>\<open>ProcFsNotifyProcAdded\<close>, \<^verbatim>\<open>ProcFsNotifyProcRemoved\<close>).

  The state \<open>procs\<close> adds to that of the switch the descriptor tables, the pipes, the thread manager, the address spaces, and
  the static variables of the two files. A \<^verbatim>\<open>PosixProc*\<close> is a number that indexes \<open>Procs\<close>; a record that has been freed keeps its
  last contents. \<open>Items\<close> are the first \<^verbatim>\<open>Count\<close> entries of the table. Numbers of processes, which the source keeps in a
  \<^verbatim>\<open>long\<close>, are integers: they only count upwards from 1. The switch and the thread manager see the same CPU. \<open>resume\<close> is an
  argument: what the machine does from a call of \<^verbatim>\<open>ThreadYield\<close> until it returns. \<open>None\<close> is a call that does not come back.\<close>

section \<open>Data\<close>

record PosixTimes =
  UserUsec :: u64
  SysUsec :: u64
  StartTick :: u64

record PosixRusage =
  UtimeUsec :: u64
  StimeUsec :: u64
  MaxRss :: u64
  MinorFaults :: u64
  MajorFaults :: u64
  VoluntaryCtxt :: u64
  InvoluntaryCtxt :: u64

record PosixCred =
  Ruid :: int
  Euid :: int
  Suid :: int
  Rgid :: int
  Egid :: int
  Sgid :: int
  CredUmask :: int

record PosixProc =
  Pid :: int
  Ppid :: int
  Pgrp :: int
  Sid :: int
  TtyFd :: int
  TtyName :: "string option"
  Space :: u64
  MainThread :: u64
  Cred :: PosixCred
  Cwd :: string
  prRoot :: string
  prExitCode :: int
  Zombie :: bool
  SigPending :: u64
  SigMask :: u64
  Times :: PosixTimes
  Comm :: string
  CmdlineBuf :: nat
  CmdlineData :: string
  CmdlineLen :: int
  EnvironBuf :: nat
  EnvironData :: string
  EnvironLen :: int
  FdTable :: nat

record PosixProcTable =
  Items :: "nat list"
  ItemsPtr :: nat
  ProcCap :: int
  ProcsLock :: SpinLock

record ProcPidEntry =
  pePid :: int
  DirNode :: nat

datatype ProcFsNodeKind = ProcFsNodeNone | ProcFsNodeDir | ProcFsNodeFile | ProcFsNodeSymlink

record ProcFsNode =
  pnKind :: ProcFsNodeKind
  pnName :: nat
  pnText :: string
  pnIno :: int
  pnPerm :: VfsPerm
  pnPriv :: nat

record procs = vfs +
  FdTabs :: "nat \<Rightarrow> PosixFdTable"
  PPipes :: "nat \<rightharpoonup> PosixPipeT"
  Th :: sched
  PVmm :: VirtualMemoryManager
  PTlb :: "tlb_op list"
  NextPid :: int
  PosixProcs :: PosixProcTable
  Procs :: "nat \<Rightarrow> PosixProc"
  ProcPriv :: nat
  ProcFsLock :: SpinLock
  PidCache :: "int \<Rightarrow> ProcPidEntry"
  PNodes :: "nat \<Rightarrow> ProcFsNode"

abbreviation (input) MaxProcs :: int where "MaxProcs \<equiv> 32768"
abbreviation (input) ProcMaxPIDS :: int where "ProcMaxPIDS \<equiv> 32768"
abbreviation (input) MaxFdsDefault :: int where "MaxFdsDefault \<equiv> 256"
abbreviation (input) WaitReasonSignal :: u32 where "WaitReasonSignal \<equiv> 5"
abbreviation (input) WaitReasonChild :: u32 where "WaitReasonChild \<equiv> 6"
abbreviation (input) KernelVirtualBase :: u64 where "KernelVirtualBase \<equiv> 0xFFFF800000000000"
abbreviation (input) VFlgRDONLY :: int where "VFlgRDONLY \<equiv> 1"
abbreviation (input) VFlgWRONLY :: int where "VFlgWRONLY \<equiv> 2"

section \<open>Calls into the other managers\<close>

definition upd_proc :: "nat \<Rightarrow> (PosixProc \<Rightarrow> PosixProc) \<Rightarrow> 'z procs_scheme \<Rightarrow> 'z procs_scheme" where
  "upd_proc p f s = s\<lparr>Procs := (Procs s)(p := f (Procs s p))\<rparr>"

text \<open>An operation of the descriptor layer on the table \<open>p\<close>.\<close>

definition with_fds ::
  "nat \<Rightarrow> (fds \<times> 'z procs_scheme \<Rightarrow> ('a \<times> fds \<times> 'z procs_scheme) option) \<Rightarrow>
   'z procs_scheme \<Rightarrow> ('a \<times> 'z procs_scheme) option" where
  "with_fds p f s = do {
     (r, P, s) \<leftarrow> f (\<lparr>Tab = FdTabs s p, Pipes = PPipes s, FdCpuFlags = SchedFlags (Th s)\<rparr>, s);
     Some (r, s\<lparr>FdTabs := (FdTabs s)(p := Tab P), PPipes := Pipes P, Th := (Th s)\<lparr>SchedFlags := FdCpuFlags P\<rparr>\<rparr>) }"

definition with_th :: "(sched \<Rightarrow> ('a \<times> sched) option) \<Rightarrow> 'z procs_scheme \<Rightarrow> ('a \<times> 'z procs_scheme) option" where
  "with_th f s = do { (r, t) \<leftarrow> f (Th s); Some (r, s\<lparr>Th := t\<rparr>) }"

definition on_thread :: "u64 \<Rightarrow> (Thread \<Rightarrow> Thread) \<Rightarrow> 'z procs_scheme \<Rightarrow> 'z procs_scheme" where
  "on_thread t f s = s\<lparr>Th := upd_thread t f (Th s)\<rparr>"

text \<open>The address spaces use the pages and the memory that the heap of the threads lies in.\<close>

definition vm_of :: "'z procs_scheme \<Rightarrow> vmem" where
  "vm_of s = \<lparr>Vmm = PVmm s, VPmm = Pmm (Heap (Th s)), VMem = Mem (Heap (Th s)), Cr3 = sched.Cr3 (Th s), TlbLog = PTlb s\<rparr>"

definition put_vm :: "vmem \<Rightarrow> 'z procs_scheme \<Rightarrow> 'z procs_scheme" where
  "put_vm v s = s\<lparr>PVmm := Vmm v, PTlb := TlbLog v,
     Th := (Th s)\<lparr>Heap := (Heap (Th s))\<lparr>Pmm := VPmm v, Mem := VMem v\<rparr>, sched.Cr3 := vmem.Cr3 v\<rparr>\<rparr>"

definition on_vm :: "(vmem \<Rightarrow> 'a \<times> vmem) \<Rightarrow> 'z procs_scheme \<Rightarrow> 'a \<times> 'z procs_scheme" where
  "on_vm f s = (let (r, v) = f (vm_of s) in (r, put_vm v s))"

text \<open>The locks of the two files, taken on the CPU that runs the call.\<close>

definition lock_procs :: "'z procs_scheme \<Rightarrow> 'z procs_scheme option" where
  "lock_procs s = do {
     (L, F) \<leftarrow> AcquireSpinLock (ThisCpu (Th s)) (ProcsLock (PosixProcs s), SchedFlags (Th s));
     Some (s\<lparr>PosixProcs := (PosixProcs s)\<lparr>ProcsLock := L\<rparr>, Th := (Th s)\<lparr>SchedFlags := F\<rparr>\<rparr>) }"

definition unlock_procs :: "'z procs_scheme \<Rightarrow> 'z procs_scheme" where
  "unlock_procs s =
     (let (L, F) = ReleaseSpinLock (ThisCpu (Th s)) (ProcsLock (PosixProcs s), SchedFlags (Th s))
      in s\<lparr>PosixProcs := (PosixProcs s)\<lparr>ProcsLock := L\<rparr>, Th := (Th s)\<lparr>SchedFlags := F\<rparr>\<rparr>)"

definition lock_procfs :: "'z procs_scheme \<Rightarrow> 'z procs_scheme option" where
  "lock_procfs s =
     (if ProcPriv s = 0 then None
      else do {
        (L, F) \<leftarrow> AcquireSpinLock (ThisCpu (Th s)) (ProcFsLock s, SchedFlags (Th s));
        Some (s\<lparr>ProcFsLock := L, Th := (Th s)\<lparr>SchedFlags := F\<rparr>\<rparr>) })"

definition unlock_procfs :: "'z procs_scheme \<Rightarrow> 'z procs_scheme" where
  "unlock_procfs s =
     (let (L, F) = ReleaseSpinLock (ThisCpu (Th s)) (ProcFsLock s, SchedFlags (Th s))
      in s\<lparr>ProcFsLock := L, Th := (Th s)\<lparr>SchedFlags := F\<rparr>\<rparr>)"

section \<open>The process table\<close>

text \<open>\<^verbatim>\<open>StringCopy\<close> into an array of \<open>n\<close> bytes.\<close>

definition str_copy :: "u32 \<Rightarrow> string \<Rightarrow> string" where
  "str_copy n x = take (unat (n - 1)) x"

definition zero_proc :: PosixProc where
  "zero_proc =
     \<lparr>Pid = 0, Ppid = 0, Pgrp = 0, Sid = 0, TtyFd = 0, TtyName = None, Space = 0, MainThread = 0,
      Cred = \<lparr>Ruid = 0, Euid = 0, Suid = 0, Rgid = 0, Egid = 0, Sgid = 0, CredUmask = 0\<rparr>, Cwd = [], prRoot = [],
      prExitCode = 0, Zombie = False, SigPending = 0, SigMask = 0,
      Times = \<lparr>UserUsec = 0, SysUsec = 0, StartTick = 0\<rparr>, Comm = [],
      CmdlineBuf = 0, CmdlineData = [], CmdlineLen = 0, EnvironBuf = 0, EnvironData = [], EnvironLen = 0, FdTable = 0\<rparr>"

definition PosixFind :: "int \<Rightarrow> 'z procs_scheme \<Rightarrow> nat" where
  "PosixFind pid s =
     (if pid \<le> 0 \<or> ItemsPtr (PosixProcs s) = 0 then 0
      else case find (\<lambda>P. P \<noteq> 0 \<and> Pid (Procs s P) = pid) (Items (PosixProcs s)) of None \<Rightarrow> 0 | Some P \<Rightarrow> P)"

definition CurrentProc :: "'z procs_scheme \<Rightarrow> (nat \<times> 'z procs_scheme) option" where
  "CurrentProc s = do {
     (Thrd, s) \<leftarrow> with_th (GetCurrentThread (ThisCpu (Th s))) s;
     Some (if Thrd = 0 then 0 else PosixFind (uint (ProcessId (Threads (Th s) Thrd))) s, s) }"

definition CreateTableIfNeeded :: "'z procs_scheme \<Rightarrow> int \<times> 'z procs_scheme" where
  "CreateTableIfNeeded s =
     (if ItemsPtr (PosixProcs s) \<noteq> 0 then (0, s)
      else
        (let (p, s) = kmalloc s;
             s = s\<lparr>PosixProcs := (PosixProcs s)\<lparr>ProcCap := MaxProcs, Items := [], ItemsPtr := p\<rparr>\<rparr>
         in if p = 0 then (-1, s)
            else (0, s\<lparr>PosixProcs := (PosixProcs s)\<lparr>ProcsLock := InitializeSpinLock ''PosixProcs'' (ProcsLock (PosixProcs s))\<rparr>\<rparr>)))"

definition FindFreePid :: "'z procs_scheme \<Rightarrow> int \<times> 'z procs_scheme" where
  "FindFreePid s =
     (let pid = NextPid s; s = s\<lparr>NextPid := NextPid s + 1\<rparr> in
      if pid \<le> 0 then (1, s\<lparr>NextPid := 1\<rparr>) else (pid, s))"

definition TableInsert :: "nat \<Rightarrow> 'z procs_scheme \<Rightarrow> (int \<times> 'z procs_scheme) option" where
  "TableInsert p s = do {
     s \<leftarrow> lock_procs s;
     if ProcCap (PosixProcs s) \<le> int (length (Items (PosixProcs s))) then Some (-1, unlock_procs s)
     else Some (0, unlock_procs (s\<lparr>PosixProcs := (PosixProcs s)\<lparr>Items := Items (PosixProcs s) @ [p]\<rparr>\<rparr>)) }"

text \<open>The last item takes the place of the one that is removed.\<close>

definition remove_item :: "nat \<Rightarrow> nat list \<Rightarrow> nat list" where
  "remove_item p xs =
     (case find (\<lambda>I. xs ! I = p) [0..<length xs] of
        None \<Rightarrow> xs
      | Some idx \<Rightarrow> butlast (xs[idx := xs ! (length xs - 1)]))"

definition TableRemove :: "nat \<Rightarrow> 'z procs_scheme \<Rightarrow> (int \<times> 'z procs_scheme) option" where
  "TableRemove p s = do {
     s \<leftarrow> lock_procs s;
     Some (0, unlock_procs (s\<lparr>PosixProcs := (PosixProcs s)\<lparr>Items := remove_item p (Items (PosixProcs s))\<rparr>\<rparr>)) }"

definition AllocProc :: "'z procs_scheme \<Rightarrow> nat \<times> 'z procs_scheme" where
  "AllocProc s =
     (let (p, s) = kmalloc s in
      if p = 0 then (0, s)
      else
        (let (C, s) = kmalloc s; (E, s) = kmalloc s in
         if C = 0 \<or> E = 0 then (0, kfree p (kfree E (kfree C s)))
         else (p, upd_proc p (\<lambda>_. zero_proc\<lparr>CmdlineBuf := C, EnvironBuf := E\<rparr>) s)))"

text \<open>Closing every descriptor that is open, then giving the array of entries and the table back.\<close>

primrec close_fds :: "'z procs_scheme tables \<Rightarrow> nat \<Rightarrow> nat list \<Rightarrow> 'z procs_scheme \<Rightarrow> 'z procs_scheme option" where
  "close_fds T F [] s = Some s"
| "close_fds T F (I # Is) s =
     (let E = Entries (FdTabs s F) ! I in
      if 0 \<le> Fd E then do { (rc, s) \<leftarrow> with_fds F (PosixClose T (Fd E)) s; close_fds T F Is s }
      else close_fds T F Is s)"

definition free_entries :: "nat \<Rightarrow> 'z procs_scheme \<Rightarrow> 'z procs_scheme" where
  "free_entries F s = (if Entries (FdTabs s F) = [] then s else s\<lparr>HeapLeft := HeapLeft s + 1\<rparr>)"

definition FreeProc :: "'z procs_scheme tables \<Rightarrow> nat \<Rightarrow> 'z procs_scheme \<Rightarrow> 'z procs_scheme option" where
  "FreeProc T p s =
     (if p = 0 then Some s
      else do {
        s \<leftarrow> (let F = FdTable (Procs s p) in
              if F = 0 then Some s
              else do {
                s \<leftarrow> close_fds T F [0..<nat (FdCap (FdTabs s F))] s;
                Some (upd_proc p (\<lambda>P. P\<lparr>FdTable := 0\<rparr>) (kfree F (free_entries F s))) });
        let s = upd_proc p (\<lambda>P. P\<lparr>CmdlineBuf := 0\<rparr>) (kfree (CmdlineBuf (Procs s p)) s);
        let s = upd_proc p (\<lambda>P. P\<lparr>EnvironBuf := 0\<rparr>) (kfree (EnvironBuf (Procs s p)) s);
        let s = (if Space (Procs s p) = 0 then s
                 else upd_proc p (\<lambda>P. P\<lparr>Space := 0\<rparr>)
                        (put_vm (DestroyVirtualSpace (Space (Procs s p)) (vm_of s)) s));
        Some (kfree p s) })"

section \<open>Creating a process\<close>

text \<open>One of the three standard descriptors: the terminal when there is one, else the null device.\<close>

definition open_std :: "'z procs_scheme tables \<Rightarrow> nat \<Rightarrow> int \<Rightarrow> 'z procs_scheme \<Rightarrow> (int \<times> 'z procs_scheme) option" where
  "open_std T F flags s = do {
     (tty, s) \<leftarrow> VfsExists T (Some ''/dev/tty0'') s;
     with_fds F (PosixOpen T True (Some (if tty \<noteq> 0 then ''/dev/tty0'' else ''/dev/null'')) flags 0) s }"

definition SetDefaultFds :: "'z procs_scheme tables \<Rightarrow> nat \<Rightarrow> 'z procs_scheme \<Rightarrow> (int \<times> 'z procs_scheme) option" where
  "SetDefaultFds T p s =
     (if p = 0 then Some (-1, s)
      else
        (let (F, s) = kmalloc s; s = upd_proc p (\<lambda>P. P\<lparr>FdTable := F\<rparr>) s in
         if F = 0 then Some (-1, s)
         else do {
           (rc, s) \<leftarrow> with_fds F (PosixFdInit MaxFdsDefault) s;
           if rc \<noteq> 0 then Some (-1, upd_proc p (\<lambda>P. P\<lparr>FdTable := 0\<rparr>) (kfree F s))
           else do {
             (Stdin, s) \<leftarrow> open_std T F VFlgRDONLY s;
             (Stdout, s) \<leftarrow> open_std T F VFlgWRONLY s;
             (Stderr, s) \<leftarrow> open_std T F VFlgWRONLY s;
             if Stdin < 0 \<or> Stdout < 0 \<or> Stderr < 0 then Some (-1, s)
             else do {
               let s = s\<lparr>FdTabs := (FdTabs s)(F := (FdTabs s F)\<lparr>StdinFd := Stdin, StdoutFd := Stdout, StderrFd := Stderr\<rparr>)\<rparr>;
               (tty, s) \<leftarrow> VfsExists T (Some ''/dev/tty0'') s;
               Some (0, upd_proc p (\<lambda>P. if tty \<noteq> 0 then P\<lparr>TtyFd := Stdin, TtyName := Some ''tty0''\<rparr>
                                        else P\<lparr>TtyFd := -1, TtyName := None\<rparr>) s) } } }))"

definition PopulateTimesStart :: "nat \<Rightarrow> 'z procs_scheme \<Rightarrow> 'z procs_scheme" where
  "PopulateTimesStart p s =
     upd_proc p (\<lambda>P. P\<lparr>Times := \<lparr>UserUsec = 0, SysUsec = 0, StartTick = GetSystemTicks (Th s)\<rparr>\<rparr>) s"

definition UpdateTimesOnExit :: "nat \<Rightarrow> 'z procs_scheme \<Rightarrow> 'z procs_scheme" where
  "UpdateTimesOnExit p s =
     (let now = GetSystemTicks (Th s);
          start = StartTick (Times (Procs s p));
          dur = (if start < now then now - start else 0)
      in upd_proc p (\<lambda>P. P\<lparr>Times := (Times P)\<lparr>SysUsec := SysUsec (Times P) + dur * 1000\<rparr>\<rparr>) s)"

text \<open>The modes are numbered from 1 on, not bits: \<^verbatim>\<open>VModeRUSR | VModeRGRP | VModeROTH\<close> is \<open>3 OR 6 OR 9\<close>, and adding the three
  execute modes \<open>1\<close>, \<open>4\<close>, \<open>7\<close> changes nothing.\<close>

abbreviation (input) ModeRead :: int where "ModeRead \<equiv> 15"
abbreviation (input) ModeReadExec :: int where "ModeReadExec \<equiv> 15"

definition zero_node :: ProcFsNode where
  "zero_node = \<lparr>pnKind = ProcFsNodeNone, pnName = 0, pnText = [], pnIno = 0, pnPerm = \<lparr>Mode = 0, Uid = 0, Gid = 0\<rparr>, pnPriv = 0\<rparr>"

definition pid_text :: "int \<Rightarrow> string" where
  "pid_text pid = UnsignedToStringEx (word_of_int pid) 10 False"

section \<open>The directory of a process\<close>

definition ProcFsNotifyProcAdded :: "nat \<Rightarrow> 'z procs_scheme \<Rightarrow> (int \<times> 'z procs_scheme) option" where
  "ProcFsNotifyProcAdded p s =
     (let pid = Pid (Procs s p) in
      if p = 0 \<or> pid \<le> 0 \<or> ProcMaxPIDS \<le> pid then Some (-1, s)
      else do {
        s \<leftarrow> lock_procfs s;
        let E = PidCache s pid;
        if pePid E = pid \<and> DirNode E \<noteq> 0 then Some (0, unlock_procfs s)
        else
          (let (D, s) = kmalloc s in
           if D = 0 then Some (-1, unlock_procfs s)
           else
             (let (N, s) = kmalloc s in
              if N = 0 then Some (-1, unlock_procfs (kfree D s))
              else
                (let node = zero_node\<lparr>pnKind := ProcFsNodeDir, pnName := N, pnText := pid_text pid, pnIno := 100 + pid,
                              pnPerm := \<lparr>Mode = ModeReadExec, Uid = 0, Gid = 0\<rparr>, pnPriv := p\<rparr>
                 in Some (0, unlock_procfs (s\<lparr>PNodes := (PNodes s)(D := node),
                              PidCache := (PidCache s)(pid := \<lparr>pePid = pid, DirNode = D\<rparr>)\<rparr>))))) })"

definition ProcFsNotifyProcRemoved :: "nat \<Rightarrow> 'z procs_scheme \<Rightarrow> (int \<times> 'z procs_scheme) option" where
  "ProcFsNotifyProcRemoved p s =
     (let pid = Pid (Procs s p) in
      if p = 0 \<or> pid \<le> 0 \<or> ProcMaxPIDS \<le> pid then Some (-1, s)
      else do {
        s \<leftarrow> lock_procfs s;
        let E = PidCache s pid;
        if pePid E = pid \<and> DirNode E \<noteq> 0
        then
          (let s = kfree (DirNode E) (kfree (pnName (PNodes s (DirNode E))) s)
           in Some (0, unlock_procfs (s\<lparr>PidCache := (PidCache s)(pid := \<lparr>pePid = 0, DirNode = 0\<rparr>)\<rparr>)))
        else Some (0, unlock_procfs s) })"

section \<open>Creating a process\<close>

definition VirtCreateSpace :: "'z procs_scheme \<Rightarrow> u64 \<times> 'z procs_scheme" where
  "VirtCreateSpace = on_vm CreateVirtualSpace"

definition new_proc :: "int \<Rightarrow> PosixProc \<Rightarrow> PosixProc" where
  "new_proc pid P = P\<lparr>Ppid := 0, Pgrp := pid, Sid := pid,
     Cred := \<lparr>Ruid = 0, Euid = 0, Suid = 0, Rgid = 0, Egid = 0, Sgid = 0, CredUmask = 18\<rparr>,
     Cwd := str_copy 256 ''/'', prRoot := str_copy 256 ''/''\<rparr>"

text \<open>The way out of a creation that fails.\<close>

definition give_up :: "'z procs_scheme tables \<Rightarrow> nat \<Rightarrow> 'z procs_scheme \<Rightarrow> (nat \<times> 'z procs_scheme) option" where
  "give_up T p s = do { s \<leftarrow> FreeProc T p s; Some (0, s) }"

definition PosixProcCreate :: "'z procs_scheme tables \<Rightarrow> 'z procs_scheme \<Rightarrow> (nat \<times> 'z procs_scheme) option" where
  "PosixProcCreate T s =
     (let (rc, s) = CreateTableIfNeeded s in
      if rc \<noteq> 0 then Some (0, s)
      else
        (let (p, s) = AllocProc s in
         if p = 0 then Some (0, s)
         else
           (let (pid, s) = FindFreePid s; s = upd_proc p (\<lambda>P. P\<lparr>Pid := pid\<rparr>) s in
            if pid \<le> 0 then give_up T p s
            else do {
              (rc, s) \<leftarrow> SetDefaultFds T p (upd_proc p (new_proc pid) s);
              if rc \<noteq> 0 then give_up T p s
              else do {
                let (Sp, s) = VirtCreateSpace s;
                let s = upd_proc p (\<lambda>P. P\<lparr>Space := Sp\<rparr>) s;
                if Sp = 0 then give_up T p s
                else do {
                  (rc, s) \<leftarrow> TableInsert p (PopulateTimesStart p s);
                  if rc \<noteq> 0 then give_up T p s
                  else do {
                    (rc, s) \<leftarrow> ProcFsNotifyProcAdded p s;
                    Some (p, s) } } } })))"

section \<open>Threads of a process\<close>

definition AttachThread :: "nat \<Rightarrow> u64 \<Rightarrow> 'z procs_scheme \<Rightarrow> int \<times> 'z procs_scheme" where
  "AttachThread p t s =
     (if p = 0 \<or> t = 0 then (-1, s)
      else (0, on_thread t (\<lambda>T. T\<lparr>ProcessId := word_of_int (Pid (Procs s p)), tState := ThreadStateReady\<rparr>)
                 (upd_proc p (\<lambda>P. P\<lparr>MainThread := t\<rparr>) s)))"

definition destroy :: "u64 \<Rightarrow> 'z procs_scheme \<Rightarrow> 'z procs_scheme option" where
  "destroy t s = do { t \<leftarrow> DestroyThread t (Th s); Some (s\<lparr>Th := t\<rparr>) }"

definition DetachThread :: "nat \<Rightarrow> 'z procs_scheme \<Rightarrow> (int \<times> 'z procs_scheme) option" where
  "DetachThread p s =
     (if p = 0 then Some (-1, s)
      else
        (let t = MainThread (Procs s p) in
         if t = 0 then Some (0, s)
         else do {
           s \<leftarrow> destroy t (on_thread t (\<lambda>T. T\<lparr>tState := ThreadStateTerminated\<rparr>) s);
           Some (0, upd_proc p (\<lambda>P. P\<lparr>MainThread := 0\<rparr>) s) }))"

section \<open>Leaving a process\<close>

definition sig_bit :: "int \<Rightarrow> u64" where
  "sig_bit Sig = push_bit (nat (Sig mod 64)) 1"

abbreviation (input) SigInt :: int where "SigInt \<equiv> 2"
abbreviation (input) SigKill :: int where "SigKill \<equiv> 9"
abbreviation (input) SigTerm :: int where "SigTerm \<equiv> 15"
abbreviation (input) SigChld :: int where "SigChld \<equiv> 17"
abbreviation (input) SigCont :: int where "SigCont \<equiv> 18"
abbreviation (input) SigStop :: int where "SigStop \<equiv> 19"

definition WakeParent :: "nat \<Rightarrow> nat \<Rightarrow> 'z procs_scheme \<Rightarrow> 'z procs_scheme" where
  "WakeParent Parent Child s =
     (if Parent = 0 \<or> Child = 0 then s
      else upd_proc Parent (\<lambda>P. P\<lparr>SigPending := SigPending P OR sig_bit SigChld\<rparr>) s)"

text \<open>The per-CPU references to a thread of the process.\<close>

definition clear_current :: "int \<Rightarrow> sched \<Rightarrow> sched" where
  "clear_current pid s =
     for_range 0 MaxCPUs
       (\<lambda>CpuIndex s.
          let Ct = CurrentThreads s CpuIndex in
          if Ct \<noteq> 0 \<and> uint (ProcessId (Threads s Ct)) = pid
          then s\<lparr>CurrentThreads := (CurrentThreads s)(CpuIndex := 0)\<rparr> else s) s"

text \<open>The walk over the list of threads.\<close>

partial_function (option) exit_threads :: "int \<Rightarrow> u64 \<Rightarrow> 'z procs_scheme \<Rightarrow> 'z procs_scheme option" where
  "exit_threads pid t s =
     (if t = 0 then Some s
      else
        (let Next = tNext (Threads (Th s) t) in
         if uint (ProcessId (Threads (Th s) t)) = pid
         then do {
           s \<leftarrow> destroy t (on_thread t (\<lambda>T. T\<lparr>tState := ThreadStateTerminated\<rparr>) s);
           exit_threads pid Next s }
         else exit_threads pid Next s))"

definition PosixExit :: "nat \<Rightarrow> int \<Rightarrow> 'z procs_scheme \<Rightarrow> (int \<times> 'z procs_scheme) option" where
  "PosixExit p Status s =
     (if p = 0 then Some (-1, s)
      else do {
        let s = UpdateTimesOnExit p (upd_proc p (\<lambda>P. P\<lparr>prExitCode := Status, Zombie := True\<rparr>) s);
        t \<leftarrow> lock_list (Th s);
        let s = s\<lparr>Th := clear_current (Pid (Procs s p)) t\<rparr>;
        (rc, s) \<leftarrow> DetachThread p s;
        s \<leftarrow> exit_threads (Pid (Procs s p)) (ThreadList (Th s)) s;
        let s = s\<lparr>Th := unlock_list (Th s)\<rparr>;
        Some (0, WakeParent (PosixFind (Ppid (Procs s p)) s) p s) })"

section \<open>Forking\<close>

text \<open>The open descriptors of the parent, in order, each to the first descriptor of the child that is free.\<close>

primrec fork_fds :: "nat \<Rightarrow> PosixFd list \<Rightarrow> 'z procs_scheme \<Rightarrow> (int \<times> 'z procs_scheme) option" where
  "fork_fds F [] s = Some (0, s)"
| "fork_fds F (E # Es) s =
     (if Fd E < 0 then fork_fds F Es s
      else do {
        (NewFd, s) \<leftarrow> with_fds F (\<lambda>(P, s).
           let NewFd = FindFreeFd (Tab P) 0 in
           if NewFd < 0 then Some (-1, P, s) else (let (P, s) = copy_entry E NewFd (P, s) in Some (NewFd, P, s))) s;
        if NewFd < 0 then Some (-1, s) else fork_fds F Es s })"

definition inherit :: "PosixProc \<Rightarrow> PosixProc \<Rightarrow> PosixProc" where
  "inherit Pa C =
     (let C = C\<lparr>Comm := str_copy 64 (Comm Pa), CmdlineLen := min (CmdlineLen Pa) 4096, EnvironLen := min (EnvironLen Pa) 8192\<rparr>;
          C = (if 0 < CmdlineLen C \<and> CmdlineBuf C \<noteq> 0 \<and> CmdlineBuf Pa \<noteq> 0
               then C\<lparr>CmdlineData := take (nat (CmdlineLen C)) (CmdlineData Pa)\<rparr> else C)
      in if 0 < EnvironLen C \<and> EnvironBuf C \<noteq> 0 \<and> EnvironBuf Pa \<noteq> 0
         then C\<lparr>EnvironData := take (nat (EnvironLen C)) (EnvironData Pa)\<rparr> else C)"

definition ForkCopyFds :: "nat \<Rightarrow> nat \<Rightarrow> 'z procs_scheme \<Rightarrow> (int \<times> 'z procs_scheme) option" where
  "ForkCopyFds Parent Child s =
     (if Parent = 0 \<or> FdTable (Procs s Parent) = 0 \<or> Child = 0 then Some (-1, s)
      else
        (let Pa = Procs s Parent;
             s = upd_proc Child (\<lambda>C. C\<lparr>SigMask := SigMask Pa, SigPending := 0, MainThread := 0,
                   Times := \<lparr>UserUsec = 0, SysUsec = 0, StartTick = StartTick (Times Pa)\<rparr>\<rparr>) s;
             (F, s) = kmalloc s;
             s = upd_proc Child (\<lambda>C. C\<lparr>FdTable := F\<rparr>) s
         in if F = 0 then Some (-1, s)
            else do {
              (rc, s) \<leftarrow> with_fds F (PosixFdInit (FdCap (FdTabs s (FdTable Pa)))) s;
              if rc \<noteq> 0 then Some (-1, upd_proc Child (\<lambda>C. C\<lparr>FdTable := 0\<rparr>) (kfree F s))
              else do {
                let Tab = FdTabs s (FdTable Pa);
                (rc, s) \<leftarrow> fork_fds F (take (nat (FdCap Tab)) (Entries Tab)) s;
                if rc < 0 then Some (-1, s)
                else
                  (let s = s\<lparr>FdTabs := (FdTabs s)(F := (FdTabs s F)\<lparr>StdinFd := StdinFd Tab, StdoutFd := StdoutFd Tab,
                              StderrFd := StderrFd Tab\<rparr>)\<rparr>
                   in Some (0, upd_proc Child (inherit Pa) s)) } }))"

definition IsUserVa :: "u64 \<Rightarrow> bool" where
  "IsUserVa Va \<longleftrightarrow> UserVirtualBase \<le> Va \<and> Va < KernelVirtualBase"

text \<open>\<^verbatim>\<open>PTEWRITABLE | PTEUSER | PTEPRESENT | PTEWRITETHROUGH | PTECACHEDISABLE | PTEACCESSED | PTEDIRTY | PTENOEXECUTE\<close>\<close>

abbreviation (input) ForkFlags :: u64 where "ForkFlags \<equiv> 0x800000000000007F"

text \<open>Copying the pages of an address space, table by table. A false result is an allocation that failed, where the source
  leaves all four loops.\<close>

definition fork_page :: "u64 \<Rightarrow> u64 \<Rightarrow> u64 \<Rightarrow> vmem \<Rightarrow> bool \<times> vmem" where
  "fork_page Sp Va Leaf v =
     (if \<not> present Leaf \<or> Leaf AND PTEUSER = 0 \<or> \<not> IsUserVa Va then (True, v)
      else
        (let (NewPhys, P) = AllocPage (VPmm v); v = v\<lparr>VPmm := P\<rparr> in
         if NewPhys = 0 then (False, v)
         else
           (let Src = load_bytes (VMem v) (PhysToVirt (Leaf AND FrameMask) P) 4096;
                v = v\<lparr>VMem := store_bytes (VMem v) (PhysToVirt NewPhys P) Src\<rparr>
            in (True, snd (MapPage Sp Va NewPhys (Leaf AND ForkFlags) v)))))"

definition unless_stopped :: "('s \<Rightarrow> bool \<times> 's) \<Rightarrow> bool \<times> 's \<Rightarrow> bool \<times> 's" where
  "unless_stopped f = (\<lambda>(go, s). if go then f s else (False, s))"

definition huge :: "u64 \<Rightarrow> bool" where
  "huge e \<longleftrightarrow> e AND 0x80 \<noteq> 0"

definition fork_pt :: "u64 \<Rightarrow> u64 \<Rightarrow> u64 \<Rightarrow> vmem \<Rightarrow> bool \<times> vmem" where
  "fork_pt Sp Va Pt v =
     for_range 0 512 (\<lambda>l1. unless_stopped (\<lambda>v. fork_page Sp (Va OR push_bit 12 l1) (pte (VMem v) Pt l1) v)) (True, v)"

definition fork_pd :: "u64 \<Rightarrow> u64 \<Rightarrow> u64 \<Rightarrow> vmem \<Rightarrow> bool \<times> vmem" where
  "fork_pd Sp Va Pd v =
     for_range 0 512 (\<lambda>l2. unless_stopped (\<lambda>v.
       let e = pte (VMem v) Pd l2 in
       if \<not> present e \<or> huge e then (True, v)
       else fork_pt Sp (Va OR push_bit 21 l2) (PhysToVirt (e AND TableMask) (VPmm v)) v)) (True, v)"

definition fork_pdpt :: "u64 \<Rightarrow> u64 \<Rightarrow> u64 \<Rightarrow> vmem \<Rightarrow> bool \<times> vmem" where
  "fork_pdpt Sp Va Pdpt v =
     for_range 0 512 (\<lambda>l3. unless_stopped (\<lambda>v.
       let e = pte (VMem v) Pdpt l3 in
       if \<not> present e \<or> huge e then (True, v)
       else fork_pd Sp (Va OR push_bit 30 l3) (PhysToVirt (e AND TableMask) (VPmm v)) v)) (True, v)"

definition fork_pml4 :: "u64 \<Rightarrow> u64 \<Rightarrow> vmem \<Rightarrow> bool \<times> vmem" where
  "fork_pml4 Sp Pml4 v =
     for_range 0 512 (\<lambda>l4. unless_stopped (\<lambda>v.
       let e = pte (VMem v) Pml4 l4 in
       if \<not> present e then (True, v)
       else fork_pdpt Sp (push_bit 39 l4) (PhysToVirt (e AND TableMask) (VPmm v)) v)) (True, v)"

definition child_thread :: "ThreadContext \<Rightarrow> u64 \<Rightarrow> u32 \<Rightarrow> Thread \<Rightarrow> Thread" where
  "child_thread C PageDir pid T =
     T\<lparr>tContext := C\<lparr>cRax := 0, cCs := 0x23, cSs := 0x1B, cRflags := 0x202\<rparr>,
       tType := ThreadTypeUser, tState := ThreadStateReady, PageDirectory := PageDir, ProcessId := pid\<rparr>"

text \<open>The child that is thrown away: \<^verbatim>\<open>PosixExit(Child, -1)\<close>.\<close>

definition fork_fail :: "nat \<Rightarrow> 'z procs_scheme \<Rightarrow> ((int \<times> nat) \<times> 'z procs_scheme) option" where
  "fork_fail Child s = do { (rc, s) \<leftarrow> PosixExit Child (-1) s; Some ((-1, 0), s) }"

definition PosixFork :: "'z procs_scheme tables \<Rightarrow> nat \<Rightarrow> bool \<Rightarrow> 'z procs_scheme \<Rightarrow> ((int \<times> nat) \<times> 'z procs_scheme) option" where
  "PosixFork T Parent OutChild s =
     (if Parent = 0 \<or> \<not> OutChild \<or> MainThread (Procs s Parent) = 0 \<or> Space (Procs s Parent) = 0 then Some ((-1, 0), s)
      else
        (let Pth = MainThread (Procs s Parent); Rip = cRip (tContext (Threads (Th s) Pth)); Rsp = cRsp (tContext (Threads (Th s) Pth)) in
         if \<not> IsUserVa Rip \<or> \<not> IsUserVa Rsp then Some ((-1, 0), s)
         else do {
           (Child, s) \<leftarrow> PosixProcCreate T s;
           if Child = 0 then Some ((-1, 0), s)
           else do {
             let Pa = Procs s Parent;
             let s = upd_proc Child (\<lambda>C. C\<lparr>Ppid := Pid Pa, Pgrp := Pgrp Pa, Sid := Sid Pa, Cred := Cred Pa,
                       Cwd := str_copy 256 (Cwd Pa), prRoot := str_copy 256 (prRoot Pa)\<rparr>) s;
             (rc, s) \<leftarrow> ForkCopyFds Parent Child s;
             if rc \<noteq> 0 then fork_fail Child s
             else do {
               (Cth, s) \<leftarrow> with_th (CreateThread ThreadTypeUser Rip 0 (tPriority (Threads (Th s) Pth))) s;
               if Cth = 0 then fork_fail Child s
               else do {
                 let v = vm_of s;
                 let s = on_thread Cth (child_thread ((tContext (Threads (Th s) Pth))\<lparr>cRip := Rip, cRsp := Rsp\<rparr>)
                           (sp_PhysicalBase (VMem v) (Space (Procs s Child))) (word_of_int (Pid (Procs s Child)))) s;
                 let (copied, s) = on_vm (fork_pml4 (Space (Procs s Child)) (sp_Pml4 (VMem v) (Space (Procs s Parent)))) s;
                 if \<not> copied then fork_fail Child s
                 else do {
                   let (rc, s) = AttachThread Child Cth s;
                   if rc \<noteq> 0 then do { s \<leftarrow> destroy Cth s; fork_fail Child s }
                   else do {
                     t \<leftarrow> ThreadExecute Cth (Th s);
                     Some ((Pid (Procs s Child), Child), s\<lparr>Th := t\<rparr>) } } } } } }))"

section \<open>Waiting\<close>

definition usage_of :: "PosixProc \<Rightarrow> PosixRusage" where
  "usage_of P = \<lparr>UtimeUsec = UserUsec (Times P), StimeUsec = SysUsec (Times P), MaxRss = 64 * 1024 * 1024,
     MinorFaults = 0, MajorFaults = 0, VoluntaryCtxt = 0, InvoluntaryCtxt = 0\<rparr>"

text \<open>The process the loop over the numbers up to \<^verbatim>\<open>MaxProcs\<close> stops at, 0 when there is none.\<close>

definition wait_candidate :: "nat \<Rightarrow> int \<Rightarrow> 'z procs_scheme \<Rightarrow> nat" where
  "wait_candidate Parent TargetPid s =
     (case find (\<lambda>I. let P = PosixFind I s in
                     P \<noteq> 0 \<and> Ppid (Procs s P) = Pid (Procs s Parent) \<and>
                     \<not> (0 < TargetPid \<and> Pid (Procs s P) \<noteq> TargetPid) \<and> Zombie (Procs s P)) [1..MaxProcs] of
        None \<Rightarrow> 0
      | Some I \<Rightarrow> PosixFind I s)"

definition reap :: "'z procs_scheme tables \<Rightarrow> nat \<Rightarrow> 'z procs_scheme \<Rightarrow> (int \<times> 'z procs_scheme) option" where
  "reap T P s =
     (let ReapedId = Pid (Procs s P) in do {
        (rc, s) \<leftarrow> ProcFsNotifyProcRemoved P s;
        (rc, s) \<leftarrow> TableRemove P s;
        s \<leftarrow> FreeProc T P s;
        Some (ReapedId, s) })"

definition block_parent :: "nat \<Rightarrow> 'z procs_scheme \<Rightarrow> 'z procs_scheme" where
  "block_parent Parent s =
     (if MainThread (Procs s Parent) = 0 then s
      else on_thread (MainThread (Procs s Parent)) (\<lambda>T. T\<lparr>tState := ThreadStateBlocked, WaitReason := WaitReasonChild\<rparr>) s)"

text \<open>\<open>resume\<close> is the call of \<^verbatim>\<open>ThreadYield\<close>: what the machine does until this thread runs again. The result carries the
  exit code and the resource usage of the child that was reaped.\<close>

partial_function (option) wait_loop ::
  "('z procs_scheme \<Rightarrow> 'z procs_scheme option) \<Rightarrow> 'z procs_scheme tables \<Rightarrow> nat \<Rightarrow> int \<Rightarrow> bool \<Rightarrow> 'z procs_scheme \<Rightarrow>
   ((int \<times> (int \<times> PosixRusage) option) \<times> 'z procs_scheme) option"
where
  "wait_loop resume T Parent TargetPid NoHang s =
     (let P = wait_candidate Parent TargetPid s in
      if P \<noteq> 0
      then do { (pid, t) \<leftarrow> reap T P s; Some ((pid, Some (prExitCode (Procs s P), usage_of (Procs s P))), t) }
      else if NoHang then Some ((0, None), s)
      else do {
        s \<leftarrow> resume (block_parent Parent s);
        wait_loop resume T Parent TargetPid NoHang s })"

definition PosixWait4 ::
  "('z procs_scheme \<Rightarrow> 'z procs_scheme option) \<Rightarrow> 'z procs_scheme tables \<Rightarrow> nat \<Rightarrow> int \<Rightarrow> bool \<Rightarrow> int \<Rightarrow> bool \<Rightarrow> 'z procs_scheme \<Rightarrow>
   ((int \<times> int option \<times> PosixRusage option) \<times> 'z procs_scheme) option"
where
  "PosixWait4 resume T Parent TargetPid OutStatus Options OutUsage s =
     (if Parent = 0 then Some ((-1, None, None), s)
      else do {
        ((pid, R), s) \<leftarrow> wait_loop resume T Parent TargetPid (Options AND 1 \<noteq> 0) s;
        Some ((pid, if OutStatus then map_option fst R else None, if OutUsage then map_option snd R else None), s) })"

section \<open>Attributes of a process\<close>

definition ProcStateCode :: "nat \<Rightarrow> 'z procs_scheme \<Rightarrow> char" where
  "ProcStateCode p s =
     (if p = 0 then CHR ''X''
      else if Zombie (Procs s p) then CHR ''Z''
      else if MainThread (Procs s p) = 0 then CHR ''X''
      else case tState (Threads (Th s) (MainThread (Procs s p))) of
             ThreadStateRunning \<Rightarrow> CHR ''R''
           | ThreadStateReady \<Rightarrow> CHR ''R''
           | ThreadStateSleeping \<Rightarrow> CHR ''S''
           | ThreadStateBlocked \<Rightarrow> CHR ''D''
           | ThreadStateZombie \<Rightarrow> CHR ''Z''
           | ThreadStateTerminated \<Rightarrow> CHR ''X'')"

definition PosixSetSid :: "nat \<Rightarrow> 'z procs_scheme \<Rightarrow> int \<times> 'z procs_scheme" where
  "PosixSetSid p s = (if p = 0 then (-1, s) else (0, upd_proc p (\<lambda>P. P\<lparr>Sid := Pid P, Pgrp := Pid P\<rparr>) s))"

definition PosixSetPgrp :: "nat \<Rightarrow> int \<Rightarrow> 'z procs_scheme \<Rightarrow> int \<times> 'z procs_scheme" where
  "PosixSetPgrp p pgid s = (if p = 0 \<or> pgid \<le> 0 then (-1, s) else (0, upd_proc p (\<lambda>P. P\<lparr>Pgrp := pgid\<rparr>) s))"

text \<open>The getters return an \<^verbatim>\<open>int\<close>: the low 32 bits of the field.\<close>

definition PosixGetPid :: "nat \<Rightarrow> 'z procs_scheme \<Rightarrow> int" where
  "PosixGetPid p s = (if p \<noteq> 0 then signed_take_bit 31 (Pid (Procs s p)) else -1)"

definition PosixGetPpid :: "nat \<Rightarrow> 'z procs_scheme \<Rightarrow> int" where
  "PosixGetPpid p s = (if p \<noteq> 0 then signed_take_bit 31 (Ppid (Procs s p)) else -1)"

definition PosixGetPgrp :: "nat \<Rightarrow> 'z procs_scheme \<Rightarrow> int" where
  "PosixGetPgrp p s = (if p \<noteq> 0 then signed_take_bit 31 (Pgrp (Procs s p)) else -1)"

definition PosixGetSid :: "nat \<Rightarrow> 'z procs_scheme \<Rightarrow> int" where
  "PosixGetSid p s = (if p \<noteq> 0 then signed_take_bit 31 (Sid (Procs s p)) else -1)"

definition PosixChdir :: "'z procs_scheme tables \<Rightarrow> nat \<Rightarrow> string option \<Rightarrow> 'z procs_scheme \<Rightarrow> (int \<times> 'z procs_scheme) option" where
  "PosixChdir T p Path s =
     (case Path of
        None \<Rightarrow> Some (-1, s)
      | Some path \<Rightarrow>
          if p = 0 then Some (-1, s)
          else do {
            (dir, s) \<leftarrow> VfsIsDir T Path s;
            if dir = 0 then Some (-1, s)
            else Some (0, upd_proc p (\<lambda>P. P\<lparr>Cwd := str_copy 256 path\<rparr>) s) })"

definition PosixFchdir :: "'z procs_scheme tables \<Rightarrow> nat \<Rightarrow> int \<Rightarrow> 'z procs_scheme \<Rightarrow> (int \<times> 'z procs_scheme) option" where
  "PosixFchdir T p fd s =
     (if p = 0 \<or> fd < 0 \<or> FdTable (Procs s p) = 0 then Some (-1, s)
      else do {
        ((rc, St), s) \<leftarrow> with_fds (FdTable (Procs s p)) (PosixFstat T fd True) s;
        if rc \<noteq> 0 then Some (-1, s)
        else if map_option StType St \<noteq> Some VNodeDIR then Some (-1, s)
        else Some (0, s) })"

definition PosixSetUmask :: "nat \<Rightarrow> int \<Rightarrow> 'z procs_scheme \<Rightarrow> int \<times> 'z procs_scheme" where
  "PosixSetUmask p m s =
     (if p = 0 then (-1, s) else (0, upd_proc p (\<lambda>P. P\<lparr>Cred := (Cred P)\<lparr>CredUmask := m AND 0x1FF\<rparr>\<rparr>) s))"

definition PosixGetTty :: "nat \<Rightarrow> bool \<Rightarrow> int \<Rightarrow> 'z procs_scheme \<Rightarrow> int \<times> string" where
  "PosixGetTty p Out Len s =
     (if p = 0 \<or> \<not> Out \<or> Len \<le> 0 then (-1, [])
      else (0, str_copy (word_of_int Len) (case TtyName (Procs s p) of None \<Rightarrow> ''notty'' | Some n \<Rightarrow> n)))"

definition EnsureCwdRoot :: "nat \<Rightarrow> 'z procs_scheme \<Rightarrow> int \<times> 'z procs_scheme" where
  "EnsureCwdRoot p s =
     (if p = 0 then (-1, s)
      else (0, upd_proc p (\<lambda>P. P\<lparr>Cwd := (if Cwd P = [] then str_copy 256 ''/'' else Cwd P),
                               prRoot := (if prRoot P = [] then str_copy 256 ''/'' else prRoot P)\<rparr>) s))"

section \<open>Command line and environment\<close>

definition Basename :: "string \<Rightarrow> u32 \<Rightarrow> string" where
  "Basename Path Cap = str_copy Cap (rev (takeWhile (\<lambda>c. c \<noteq> CHR ''/'') (rev Path)))"

text \<open>What \<^verbatim>\<open>strncpy\<close> of \<^verbatim>\<open>String.c\<close> writes for a count \<open>C\<close> not above the length of the string: it stops one short and
  terminates.\<close>

definition strncpy_bytes :: "nat \<Rightarrow> string \<Rightarrow> string" where
  "strncpy_bytes C Str = (if C = 0 then [] else take (C - 1) Str @ [CHR 0x00])"

fun pack_strings :: "nat \<Rightarrow> string list \<Rightarrow> string \<Rightarrow> string" where
  "pack_strings Cap [] Buf = Buf"
| "pack_strings Cap (Str # Strs) Buf =
     (let Rem = int Cap - int (length Buf) in
      if Rem \<le> 1 then Buf
      else
        (let C = (if int (length Str) < Rem - 1 then length Str else nat (Rem - 1))
         in pack_strings Cap Strs (Buf @ strncpy_bytes C Str @ [CHR 0x00])))"

definition pack_all :: "nat \<Rightarrow> string list option \<Rightarrow> string" where
  "pack_all Cap Strs =
     (case Strs of
        None \<Rightarrow> []
      | Some xs \<Rightarrow> (let Buf = pack_strings Cap xs [] in if length Buf < Cap then Buf @ [CHR 0x00] else Buf))"

definition BuildArgsEnv :: "string list option \<Rightarrow> string list option \<Rightarrow> string option \<Rightarrow> nat \<Rightarrow> 'z procs_scheme \<Rightarrow> int \<times> 'z procs_scheme" where
  "BuildArgsEnv Argv Envp Path p s =
     (if p = 0 then (-1, s)
      else
        (let Name = (case Argv of
                       Some (a # _) \<Rightarrow> Basename a 64
                     | _ \<Rightarrow> (case Path of Some x \<Rightarrow> Basename x 64 | None \<Rightarrow> str_copy 64 ''unknown''));
             Cmd = pack_all 4096 Argv; Env = pack_all 8192 Envp
         in (0, upd_proc p (\<lambda>P. P\<lparr>Comm := Name, CmdlineData := Cmd, CmdlineLen := int (length Cmd),
                  EnvironData := Env, EnvironLen := int (length Env)\<rparr>) s)))"

section \<open>Signals\<close>

record PosixSigAction =
  saHandler :: u64
  saMask :: u64
  saFlags :: int

definition PosixKill :: "int \<Rightarrow> int \<Rightarrow> 'z procs_scheme \<Rightarrow> int \<times> 'z procs_scheme" where
  "PosixKill pid Sig s =
     (let P = PosixFind pid s in
      if P = 0 then (-1, s) else (0, upd_proc P (\<lambda>P. P\<lparr>SigPending := SigPending P OR sig_bit Sig\<rparr>) s))"

definition PosixTkill :: "int \<Rightarrow> int \<Rightarrow> 'z procs_scheme \<Rightarrow> (int \<times> 'z procs_scheme) option" where
  "PosixTkill tid Sig s = do {
     (t, s) \<leftarrow> with_th (FindThreadById (word_of_int tid)) s;
     Some (if t = 0 then (-1, s) else PosixKill (uint (ProcessId (Threads (Th s) t))) Sig s) }"

definition PosixSigaction ::
  "int \<Rightarrow> PosixSigAction option \<Rightarrow> bool \<Rightarrow> 'z procs_scheme \<Rightarrow> ((int \<times> PosixSigAction option) \<times> 'z procs_scheme) option"
where
  "PosixSigaction Sig Act OldAct s =
     (if Sig \<le> 0 \<or> 31 < Sig then Some ((-1, None), s)
      else do {
        (p, s) \<leftarrow> CurrentProc s;
        let P = Procs s p; t = MainThread P in
        if p = 0 \<or> t = 0 then Some ((-1, None), s)
        else
          (let Old = \<lparr>saHandler = SignalHandlers (Threads (Th s) t) ! nat Sig, saMask = SigMask P, saFlags = 0\<rparr>;
               s = (case Act of
                      None \<Rightarrow> s
                    | Some A \<Rightarrow> upd_proc p (\<lambda>P. P\<lparr>SigMask := saMask A\<rparr>)
                        (on_thread t (\<lambda>T. T\<lparr>SignalHandlers := (SignalHandlers T)[nat Sig := saHandler A]\<rparr>) s))
           in Some ((0, if OldAct then Some Old else None), s)) })"

definition PosixSigprocmask :: "int \<Rightarrow> u64 option \<Rightarrow> bool \<Rightarrow> 'z procs_scheme \<Rightarrow> ((int \<times> u64 option) \<times> 'z procs_scheme) option" where
  "PosixSigprocmask How Set OldSet s = do {
     (p, s) \<leftarrow> CurrentProc s;
     if p = 0 then Some ((-1, None), s)
     else
       (let Old = (if OldSet then Some (SigMask (Procs s p)) else None) in
        case Set of
          None \<Rightarrow> Some ((0, Old), s)
        | Some m \<Rightarrow>
            Some ((0, Old), upd_proc p (\<lambda>P. P\<lparr>SigMask :=
              (if How = 0 then SigMask P OR m else if How = 1 then SigMask P AND NOT m
               else if How = 2 then m else SigMask P)\<rparr>) s)) }"

definition PosixSigpending :: "bool \<Rightarrow> 'z procs_scheme \<Rightarrow> ((int \<times> u64) \<times> 'z procs_scheme) option" where
  "PosixSigpending OutMask s =
     (if \<not> OutMask then Some ((-1, 0), s)
      else do {
        (p, s) \<leftarrow> CurrentProc s;
        Some ((0, if p = 0 then 0 else SigPending (Procs s p)), s) })"

definition PosixSigsuspend :: "('z procs_scheme \<Rightarrow> 'z procs_scheme option) \<Rightarrow> u64 option \<Rightarrow> 'z procs_scheme \<Rightarrow> (int \<times> 'z procs_scheme) option" where
  "PosixSigsuspend resume m s = do { s \<leftarrow> resume s; Some (0, s) }"

definition PosixSigqueue :: "int \<Rightarrow> int \<Rightarrow> int \<Rightarrow> 'z procs_scheme \<Rightarrow> int \<times> 'z procs_scheme" where
  "PosixSigqueue pid Sig Value s = PosixKill pid Sig s"

text \<open>One pass of the loop that sets up the handlers: the thread's context goes to the handler.\<close>

definition enter_handler :: "nat \<Rightarrow> u64 \<Rightarrow> nat \<Rightarrow> 'z procs_scheme \<Rightarrow> 'z procs_scheme" where
  "enter_handler p pend Sig s =
     (let t = MainThread (Procs s p); h = SignalHandlers (Threads (Th s) t) ! Sig in
      if pend AND sig_bit (int Sig) \<noteq> 0 \<and> t \<noteq> 0 \<and> h \<noteq> 0
      then upd_proc p (\<lambda>P. P\<lparr>SigPending := SigPending P AND NOT (sig_bit (int Sig))\<rparr>)
             (on_thread t (\<lambda>T. T\<lparr>tContext := (tContext T)\<lparr>cRdi := word_of_nat Sig, cRip := h\<rparr>\<rparr>) s)
      else s)"

definition clear_signal :: "nat \<Rightarrow> int \<Rightarrow> 'z procs_scheme \<Rightarrow> 'z procs_scheme" where
  "clear_signal p Sig s = upd_proc p (\<lambda>P. P\<lparr>SigPending := SigPending P AND NOT (sig_bit Sig)\<rparr>) s"

definition default_exit :: "nat \<Rightarrow> int \<Rightarrow> 'z procs_scheme \<Rightarrow> (int \<times> 'z procs_scheme) option" where
  "default_exit p Sig s = do { (rc, s) \<leftarrow> PosixExit p (128 + Sig) (clear_signal p Sig s); Some (0, s) }"

definition DeliverPendingSignals :: "nat \<Rightarrow> 'z procs_scheme \<Rightarrow> (int \<times> 'z procs_scheme) option" where
  "DeliverPendingSignals p s =
     (if p = 0 then Some (-1, s)
      else
        (let pend = SigPending (Procs s p) AND NOT (SigMask (Procs s p)) in
         if pend = 0 then Some (0, s)
         else
           (let s = (if pend AND sig_bit SigCont \<noteq> 0
                     then clear_signal p SigCont
                       (if MainThread (Procs s p) \<noteq> 0
                        then on_thread (MainThread (Procs s p)) (\<lambda>T. T\<lparr>tState := ThreadStateReady\<rparr>) s else s)
                     else s)
            in if pend AND sig_bit SigStop \<noteq> 0
               then Some (0, clear_signal p SigStop
                       (if MainThread (Procs s p) \<noteq> 0
                        then on_thread (MainThread (Procs s p)) (\<lambda>T. T\<lparr>tState := ThreadStateBlocked, WaitReason := WaitReasonSignal\<rparr>) s
                        else s))
               else
                 (let s = fold (enter_handler p pend) [1..<32] s; left = SigPending (Procs s p) in
                  if left AND sig_bit SigTerm \<noteq> 0 then default_exit p SigTerm s
                  else if left AND sig_bit SigKill \<noteq> 0 then default_exit p SigKill s
                  else if left AND sig_bit SigInt \<noteq> 0 then default_exit p SigInt s
                  else Some (0, upd_proc p (\<lambda>P. P\<lparr>SigPending := 0\<rparr>) s)))))"

primrec deliver_each :: "int list \<Rightarrow> 'z procs_scheme \<Rightarrow> 'z procs_scheme option" where
  "deliver_each [] s = Some s"
| "deliver_each (I # Is) s =
     (let P = PosixFind I s in
      if P = 0 then deliver_each Is s
      else do { (rc, s) \<leftarrow> DeliverPendingSignals P s; deliver_each Is s })"

definition PosixDeliverSignals :: "'z procs_scheme \<Rightarrow> (int \<times> 'z procs_scheme) option" where
  "PosixDeliverSignals s = do { s \<leftarrow> deliver_each [1..MaxProcs] s; Some (0, s) }"

end
