(* ===== verification/ThreadQueues.thy ===== *)
theory ThreadQueues
  imports AxeThreads
begin

text \<open>What the queues of a CPU represent: four lists of distinct threads (\<open>asched\<close>), and for every operation of the
  scheduler the operation on lists that it implements (\<open>a_add\<close>, \<open>a_wake\<close>, \<open>a_cleanup\<close>, \<open>a_select\<close>, \<open>a_schedule\<close>).\<close>

section \<open>The scheduler of one CPU as four lists\<close>

fun thread_queue :: "(u64 \<Rightarrow> Thread) \<Rightarrow> u64 \<Rightarrow> u64 list \<Rightarrow> bool" where
  "thread_queue T p [] \<longleftrightarrow> p = 0"
| "thread_queue T p (x # xs) \<longleftrightarrow> p = x \<and> x \<noteq> 0 \<and> thread_queue T (tNext (T x)) xs"

lemma thread_queue_nonzero: "thread_queue T p xs \<Longrightarrow> 0 \<notin> set xs"
  by (induction xs arbitrary: p) auto

lemma thread_queue_hd: "thread_queue T p xs \<Longrightarrow> p = (case xs of [] \<Rightarrow> 0 | x # _ \<Rightarrow> x)"
  by (cases xs) auto

lemma thread_queue_0 [simp]: "thread_queue T 0 xs \<longleftrightarrow> xs = []"
  by (cases xs) auto

lemma thread_queue_cong:
  "(\<And>x. x \<in> set xs \<Longrightarrow> tNext (T x) = tNext (U x)) \<Longrightarrow> thread_queue T p xs = thread_queue U p xs"
  by (induction xs arbitrary: p) auto

lemma thread_queue_off [simp]: "x \<notin> set xs \<Longrightarrow> thread_queue (T(x := v)) p xs = thread_queue T p xs"
  by (rule thread_queue_cong) auto

lemma thread_queue_next [simp]: "tNext v = tNext (T x) \<Longrightarrow> thread_queue (T(x := v)) p xs = thread_queue T p xs"
  by (rule thread_queue_cong) auto

lemma thread_queue_append:
  "thread_queue T p (xs @ ys) \<longleftrightarrow> (\<exists>q. thread_queue T q ys \<and>
     (if xs = [] then p = q else p = hd xs \<and> 0 \<notin> set xs \<and> tNext (T (last xs)) = q \<and>
        (\<forall>i < length xs - 1. tNext (T (xs ! i)) = xs ! Suc i)))"
proof (induction xs arbitrary: p)
  case (Cons x xs)
  show ?case
  proof (cases xs)
    case Nil
    then show ?thesis by auto
  next
    case (Cons y zs)
    then show ?thesis using Cons.IH [of "tNext (T x)"] by (auto simp: less_Suc_eq_0_disj nth_Cons split: nat.splits)
  qed
qed simp

lemma thread_queue_snoc:
  assumes "thread_queue T p xs" "xs \<noteq> []" "distinct xs" "t \<notin> set xs" "t \<noteq> 0"
    and "\<And>x. x \<in> set xs \<Longrightarrow> x \<noteq> last xs \<Longrightarrow> tNext (U x) = tNext (T x)" "tNext (U (last xs)) = t" "tNext (U t) = 0"
  shows "thread_queue U p (xs @ [t])"
  using assms
proof (induction xs arbitrary: p)
  case (Cons x xs)
  show ?case
  proof (cases "xs = []")
    case True
    then show ?thesis using Cons.prems by auto
  next
    case False
    then have "x \<noteq> last xs" using Cons.prems(3) last_in_set by fastforce
    then have "tNext (U x) = tNext (T x)" using Cons.prems(6) [of x] False by simp
    moreover have "thread_queue U (tNext (T x)) (xs @ [t])"
      by (rule Cons.IH) (use Cons.prems False in auto)
    ultimately show ?thesis using Cons.prems by simp
  qed
qed simp

lemma queue_tail_last:
  assumes "thread_queue T p xs" "xs \<noteq> []"
  shows "queue_tail T p = Some (last xs)"
  using assms
proof (induction xs arbitrary: p)
  case (Cons x xs)
  show ?case
  proof (cases xs)
    case Nil
    then show ?thesis using Cons.prems by (subst queue_tail.simps) simp
  next
    case (Cons y ys)
    have "queue_tail T (tNext (T x)) = Some (last xs)"
      by (rule Cons.IH) (use Cons Cons.prems in auto)
    then show ?thesis using Cons Cons.prems by (subst queue_tail.simps) simp
  qed
qed simp

text \<open>A thread record without its links.\<close>

definition data :: "Thread \<Rightarrow> Thread" where
  "data T = T\<lparr>tNext := 0, tPrev := 0\<rparr>"

definition free_lock :: SpinLock where
  "free_lock = \<lparr>SpinLock_Lock = 0, SpinLock_CpuId = NoOwner, SpinLock_Name = [], SpinLock_Flags = 0\<rparr>"

definition no_flags :: CpuFlags where
  "no_flags = \<lparr>RFlags = \<lambda>_. 0, SavedFlags = \<lambda>_. 0\<rparr>"

text \<open>Everything but the queues of CPU \<open>c\<close>, the thread records and the state of the locks.\<close>

definition blank_queues :: "CpuScheduler \<Rightarrow> CpuScheduler" where
  "blank_queues C = C\<lparr>ReadyQueue := 0, WaitingQueue := 0, ZombieQueue := 0, SleepingQueue := 0, ReadyCount := 0,
     SchedulerLock := free_lock\<rparr>"

definition outer_cpus :: "u32 \<Rightarrow> (u32 \<Rightarrow> CpuScheduler) \<Rightarrow> u32 \<Rightarrow> CpuScheduler" where
  "outer_cpus c S d = (if d = c then blank_queues (S d) else (S d)\<lparr>SchedulerLock := free_lock\<rparr>)"

definition outer :: "u32 \<Rightarrow> sched \<Rightarrow> sched" where
  "outer c s =
    \<lparr>Threads = \<lambda>_. zero_thread, Heap = Heap s, NextThreadId = NextThreadId s, ThreadList = ThreadList s,
     ThreadListLock = free_lock, CurrentThreads = CurrentThreads s, CurrentThreadLock = free_lock, CpuSchedulers = outer_cpus c (CpuSchedulers s),
     SystemTicks = SystemTicks s, TimerInterruptCount = TimerInterruptCount s, CpuDataArray = CpuDataArray s, CpuCount = CpuCount s,
     SchedFlags = no_flags, ThisCpu = ThisCpu s, Cr3 = Cr3 s, Fpu = Fpu s,
     MmioWrites = MmioWrites s, PortWrites = PortWrites s\<rparr>"

definition locks_free :: "sched \<Rightarrow> bool" where
  "locks_free s \<longleftrightarrow> SpinLock_Lock (ThreadListLock s) = 0 \<and> SpinLock_Lock (CurrentThreadLock s) = 0 \<and>
     (\<forall>c. SpinLock_Lock (SchedulerLock (CpuSchedulers s c)) = 0)"

record asched =
  ready :: "u64 list"
  waiting :: "u64 list"
  zombies :: "u64 list"
  sleeping :: "u64 list"
  datas :: "u64 \<Rightarrow> Thread"
  others :: sched

abbreviation queued :: "asched \<Rightarrow> u64 list" where
  "queued a \<equiv> ready a @ waiting a @ zombies a @ sleeping a"

definition queues_rep :: "u32 \<Rightarrow> sched \<Rightarrow> asched \<Rightarrow> bool" where
  "queues_rep c s a \<longleftrightarrow>
     thread_queue (Threads s) (ReadyQueue (CpuSchedulers s c)) (ready a) \<and>
     thread_queue (Threads s) (WaitingQueue (CpuSchedulers s c)) (waiting a) \<and>
     thread_queue (Threads s) (ZombieQueue (CpuSchedulers s c)) (zombies a) \<and>
     thread_queue (Threads s) (SleepingQueue (CpuSchedulers s c)) (sleeping a) \<and>
     distinct (queued a) \<and>
     ReadyCount (CpuSchedulers s c) = word_of_nat (length (ready a)) \<and>
     (\<forall>z \<in> set (zombies a). tPrev (Threads s z) = 0) \<and>
     datas a = (\<lambda>x. data (Threads s x)) \<and> others a = outer c s"

definition sched_rep :: "u32 \<Rightarrow> sched \<Rightarrow> asched \<Rightarrow> bool" where
  "sched_rep c s a \<longleftrightarrow> locks_free s \<and> queues_rep c s a"

lemma locks_freeD:
  assumes "locks_free s"
  shows "SpinLock_Lock (ThreadListLock s) = 0" "SpinLock_Lock (CurrentThreadLock s) = 0"
    "SpinLock_Lock (SchedulerLock (CpuSchedulers s c)) = 0"
  using assms by (simp_all add: locks_free_def)

lemmas lock_defs = AcquireSpinLock_def ReleaseSpinLock_def Let_def upd_cpu_def

lemma outer_cpus_blank:
  "blank_queues C = blank_queues (S c) \<Longrightarrow> outer_cpus c (S(c := C)) = outer_cpus c S"
  by (rule ext) (simp add: outer_cpus_def)

lemma outer_cpus_lock [simp]: "outer_cpus d (S(c := (S c)\<lparr>SchedulerLock := L\<rparr>)) = outer_cpus d S"
  by (rule ext) (simp add: outer_cpus_def blank_queues_def)

text \<open>What the helpers leave alone.\<close>

lemma upd_thread_simps [simp]:
  "Threads (upd_thread t f s) = (Threads s)(t := f (Threads s t))" "CpuSchedulers (upd_thread t f s) = CpuSchedulers s"
  "locks_free (upd_thread t f s) = locks_free s" "outer c (upd_thread t f s) = outer c s"
  "Heap (upd_thread t f s) = Heap s" "ThreadList (upd_thread t f s) = ThreadList s" "SystemTicks (upd_thread t f s) = SystemTicks s"
  "ThisCpu (upd_thread t f s) = ThisCpu s" "CpuCount (upd_thread t f s) = CpuCount s"
  "ThreadListLock (upd_thread t f s) = ThreadListLock s" "CurrentThreadLock (upd_thread t f s) = CurrentThreadLock s"
  "SchedFlags (upd_thread t f s) = SchedFlags s" "CurrentThreads (upd_thread t f s) = CurrentThreads s" "Fpu (upd_thread t f s) = Fpu s"
  "NextThreadId (upd_thread t f s) = NextThreadId s"
  by (simp_all add: upd_thread_def locks_free_def outer_def)

lemma upd_cpu_simps [simp]:
  "Threads (upd_cpu c f s) = Threads s" "CpuSchedulers (upd_cpu c f s) = (CpuSchedulers s)(c := f (CpuSchedulers s c))"
  "Heap (upd_cpu c f s) = Heap s" "ThreadList (upd_cpu c f s) = ThreadList s" "SystemTicks (upd_cpu c f s) = SystemTicks s"
  "ThisCpu (upd_cpu c f s) = ThisCpu s" "CpuCount (upd_cpu c f s) = CpuCount s"
  "ThreadListLock (upd_cpu c f s) = ThreadListLock s" "CurrentThreadLock (upd_cpu c f s) = CurrentThreadLock s"
  "SchedFlags (upd_cpu c f s) = SchedFlags s" "CurrentThreads (upd_cpu c f s) = CurrentThreads s" "Fpu (upd_cpu c f s) = Fpu s"
  "NextThreadId (upd_cpu c f s) = NextThreadId s"
  by (simp_all add: upd_cpu_def)

lemma outer_upd_cpu:
  "blank_queues (f (CpuSchedulers s c)) = blank_queues (CpuSchedulers s c) \<Longrightarrow> outer c (upd_cpu c f s) = outer c s"
  by (simp add: upd_cpu_def outer_def outer_cpus_blank)

lemma outer_cpu_simps [simp]:
  "outer c (upd_cpu c (\<lambda>C. C\<lparr>ReadyQueue := x\<rparr>) s) = outer c s"
  "outer c (upd_cpu c (\<lambda>C. C\<lparr>WaitingQueue := x\<rparr>) s) = outer c s"
  "outer c (upd_cpu c (\<lambda>C. C\<lparr>ZombieQueue := x\<rparr>) s) = outer c s"
  "outer c (upd_cpu c (\<lambda>C. C\<lparr>SleepingQueue := x\<rparr>) s) = outer c s"
  "outer c (upd_cpu c (\<lambda>C. C\<lparr>ReadyCount := g C\<rparr>) s) = outer c s"
  by (simp_all add: outer_upd_cpu blank_queues_def)

definition locks_but :: "u32 \<Rightarrow> sched \<Rightarrow> bool" where
  "locks_but c s \<longleftrightarrow> SpinLock_Lock (ThreadListLock s) = 0 \<and> SpinLock_Lock (CurrentThreadLock s) = 0 \<and>
     (\<forall>d. d \<noteq> c \<longrightarrow> SpinLock_Lock (SchedulerLock (CpuSchedulers s d)) = 0)"

lemma locks_but_thread [simp]: "locks_but c (upd_thread t f s) = locks_but c s"
  by (simp add: locks_but_def upd_thread_def)

lemma locks_free_upd_cpu:
  "SchedulerLock (f (CpuSchedulers s c)) = SchedulerLock (CpuSchedulers s c) \<Longrightarrow> locks_free (upd_cpu c f s) = locks_free s"
  by (auto simp: locks_free_def)

lemma locks_but_cpu [simp]: "locks_but c (upd_cpu c f s) = locks_but c s"
  by (simp add: locks_but_def upd_cpu_def)

lemma lock_cpu_free:
  assumes "locks_free s"
  obtains u where "lock_cpu c s = Some u" "Threads u = Threads s" "locks_but c u" "\<And>d. outer d u = outer d s"
    "ReadyQueue (CpuSchedulers u c) = ReadyQueue (CpuSchedulers s c)" "WaitingQueue (CpuSchedulers u c) = WaitingQueue (CpuSchedulers s c)"
    "ZombieQueue (CpuSchedulers u c) = ZombieQueue (CpuSchedulers s c)" "SleepingQueue (CpuSchedulers u c) = SleepingQueue (CpuSchedulers s c)"
    "ReadyCount (CpuSchedulers u c) = ReadyCount (CpuSchedulers s c)"
proof (rule that)
  let ?f = "SchedFlags s" and ?c = "ThisCpu s"
  let ?L = "(SchedulerLock (CpuSchedulers s c))\<lparr>SpinLock_Lock := 1, SpinLock_CpuId := ?c\<rparr>"
  let ?F = "?f\<lparr>RFlags := (RFlags ?f)(?c := cli (RFlags ?f ?c)), SavedFlags := (SavedFlags ?f)(?c := RFlags ?f ?c)\<rparr>"
  let ?u = "upd_cpu c (\<lambda>C. C\<lparr>SchedulerLock := ?L\<rparr>) s\<lparr>SchedFlags := ?F\<rparr>"
  show "lock_cpu c s = Some ?u" by (simp add: lock_cpu_def AcquireSpinLock_def Let_def locks_freeD [OF assms])
  show "locks_but c ?u" using assms by (simp add: locks_but_def locks_free_def)
  show "outer d ?u = outer d s" for d by (simp add: outer_def upd_cpu_def)
qed simp_all

lemma unlock_cpu_simps [simp]:
  "Threads (unlock_cpu c s) = Threads s" "outer d (unlock_cpu c s) = outer d s"
  "ReadyQueue (CpuSchedulers (unlock_cpu c s) d) = ReadyQueue (CpuSchedulers s d)"
  "WaitingQueue (CpuSchedulers (unlock_cpu c s) d) = WaitingQueue (CpuSchedulers s d)"
  "ZombieQueue (CpuSchedulers (unlock_cpu c s) d) = ZombieQueue (CpuSchedulers s d)"
  "SleepingQueue (CpuSchedulers (unlock_cpu c s) d) = SleepingQueue (CpuSchedulers s d)"
  "ReadyCount (CpuSchedulers (unlock_cpu c s) d) = ReadyCount (CpuSchedulers s d)"
  by (simp_all add: unlock_cpu_def ReleaseSpinLock_def Let_def outer_def upd_cpu_def)

lemma locks_free_unlock [simp]: "locks_free (unlock_cpu c s) = locks_but c s"
  by (auto simp: unlock_cpu_def ReleaseSpinLock_def Let_def locks_free_def locks_but_def)

lemma data_simps [simp]:
  "data (T\<lparr>tNext := x\<rparr>) = data T" "data (T\<lparr>tPrev := x\<rparr>) = data T" "data (data T) = data T"
  by (simp_all add: data_def)

lemma data_fields [simp]:
  "tState (data T) = tState T" "tType (data T) = tType T" "tPriority (data T) = tPriority T"
  "tContext (data T) = tContext T" "Cooldown (data T) = Cooldown T" "WakeupTime (data T) = WakeupTime T"
  "KernelStack (data T) = KernelStack T" "UserStack (data T) = UserStack T" "StackSize (data T) = StackSize T"
  "PageDirectory (data T) = PageDirectory T" "tContextSwitches (data T) = tContextSwitches T" "CpuTime (data T) = CpuTime T"
  by (simp_all add: data_def)

text \<open>Linking at the tail, the part that \<^verbatim>\<open>AddThreadToReadyQueue\<close> and \<^verbatim>\<open>WakeupSleepingThreads\<close> share.\<close>

lemma enqueue_tail_ok:
  assumes q: "thread_queue (Threads s) (ReadyQueue (CpuSchedulers s c)) xs"
    and t: "t \<noteq> 0" "t \<notin> set xs" "distinct xs" "tNext (Threads s t) = 0"
  obtains u where "enqueue_tail c t s = Some u"
    "thread_queue (Threads u) (ReadyQueue (CpuSchedulers u c)) (xs @ [t])" "outer c u = outer c s" "locks_but c u = locks_but c s"
    "\<forall>x. data (Threads u x) = data (Threads s x)"
    "\<forall>x. x \<notin> set xs \<longrightarrow> tNext (Threads u x) = tNext (Threads s x)" "\<forall>x. x \<noteq> t \<longrightarrow> tPrev (Threads u x) = tPrev (Threads s x)"
    "CpuSchedulers u = (CpuSchedulers s)(c := (CpuSchedulers s c)\<lparr>ReadyQueue := ReadyQueue (CpuSchedulers u c)\<rparr>)"
proof (cases "xs = []")
  case True
  then have 0: "ReadyQueue (CpuSchedulers s c) = 0" using q by simp
  show ?thesis
  proof (rule that)
    show "enqueue_tail c t s = Some (upd_cpu c (\<lambda>C. C\<lparr>ReadyQueue := t\<rparr>) s)" using 0 by (simp add: enqueue_tail_def)
  qed (use t True in auto)
next
  case False
  have n0: "ReadyQueue (CpuSchedulers s c) \<noteq> 0" using q False by (cases xs) auto
  have l: "last xs \<in> set xs" using False by simp
  then have lt: "last xs \<noteq> t" using t by metis
  let ?u = "upd_thread t (\<lambda>T. T\<lparr>tPrev := last xs\<rparr>) (upd_thread (last xs) (\<lambda>T. T\<lparr>tNext := t\<rparr>) s)"
  show ?thesis
  proof (rule that [of ?u])
    show "enqueue_tail c t s = Some ?u" using n0 queue_tail_last [OF q False] by (simp add: enqueue_tail_def)
    show "thread_queue (Threads ?u) (ReadyQueue (CpuSchedulers ?u c)) (xs @ [t])"
      unfolding upd_thread_simps by (rule thread_queue_snoc [OF q False t(3,2,1)]) (use lt t in auto)
  qed (use l lt in \<open>auto simp: fun_upd_idem\<close>)
qed

lemma queues_repD:
  assumes "queues_rep c s a"
  shows "thread_queue (Threads s) (ReadyQueue (CpuSchedulers s c)) (ready a)"
    "thread_queue (Threads s) (WaitingQueue (CpuSchedulers s c)) (waiting a)"
    "thread_queue (Threads s) (ZombieQueue (CpuSchedulers s c)) (zombies a)"
    "thread_queue (Threads s) (SleepingQueue (CpuSchedulers s c)) (sleeping a)"
    "distinct (queued a)" "ReadyCount (CpuSchedulers s c) = word_of_nat (length (ready a))"
    "\<forall>z \<in> set (zombies a). tPrev (Threads s z) = 0" "datas a = (\<lambda>x. data (Threads s x))" "others a = outer c s"
  using assms unfolding queues_rep_def by blast+

lemma queued_nonzero: "queues_rep c s a \<Longrightarrow> 0 \<notin> set (queued a)"
  using thread_queue_nonzero by (fastforce dest: queues_repD(1-4))

lemma queues_rep_cong:
  assumes "queues_rep c s a" "Threads u = Threads s" "outer c u = outer c s"
    "ReadyQueue (CpuSchedulers u c) = ReadyQueue (CpuSchedulers s c)" "WaitingQueue (CpuSchedulers u c) = WaitingQueue (CpuSchedulers s c)"
    "ZombieQueue (CpuSchedulers u c) = ZombieQueue (CpuSchedulers s c)" "SleepingQueue (CpuSchedulers u c) = SleepingQueue (CpuSchedulers s c)"
    "ReadyCount (CpuSchedulers u c) = ReadyCount (CpuSchedulers s c)"
  shows "queues_rep c u a"
  using assms by (simp add: queues_rep_def)

lemma lock_cpu_rep:
  assumes "locks_free s" "queues_rep c s a"
  obtains u where "lock_cpu c s = Some u" "Threads u = Threads s" "locks_but c u" "queues_rep c u a"
  using lock_cpu_free [OF assms(1), of c] queues_rep_cong [OF assms(2)] by metis

lemma unlock_cpu_rep [simp]: "queues_rep c (unlock_cpu c s) a = queues_rep c s a"
  by (simp add: queues_rep_def)

text \<open>A change of a thread record: of its data only, or of any field when the thread is in no queue.\<close>

lemma upd_thread_rep:
  assumes "queues_rep c s a" "data (f (Threads s t)) = g (data (Threads s t))"
    and "t \<in> set (queued a) \<Longrightarrow> tNext (f (Threads s t)) = tNext (Threads s t) \<and> tPrev (f (Threads s t)) = tPrev (Threads s t)"
  shows "queues_rep c (upd_thread t f s) (a\<lparr>datas := (datas a)(t := g (datas a t))\<rparr>)"
proof -
  have "thread_queue ((Threads s)(t := f (Threads s t))) p xs = thread_queue (Threads s) p xs" if "set xs \<subseteq> set (queued a)" for p xs
    using assms(3) that by (cases "t \<in> set (queued a)") (auto intro!: thread_queue_cong)
  then show ?thesis using queues_repD [OF assms(1)] assms(2,3) by (auto simp: queues_rep_def fun_eq_iff)
qed

lemma upd_thread_rep_same:
  assumes "queues_rep c s a" "data (f (Threads s t)) = data (Threads s t)" "t \<notin> set (queued a)"
  shows "queues_rep c (upd_thread t f s) a"
  using upd_thread_rep [where g = "\<lambda>d. d" and f = f and t = t, OF assms(1)] assms(2,3) by (simp add: fun_upd_idem)

lemma enqueue_rep:
  assumes r: "queues_rep c s a" and t: "t \<noteq> 0" "t \<notin> set (queued a)" "tNext (Threads s t) = 0"
  obtains u where "enqueue_tail c t s = Some u" "locks_but c u = locks_but c s"
    "queues_rep c (upd_cpu c (\<lambda>C. C\<lparr>ReadyCount := ReadyCount C + 1\<rparr>) u) (a\<lparr>ready := ready a @ [t]\<rparr>)"
    "\<forall>x. x \<noteq> t \<longrightarrow> tPrev (Threads u x) = tPrev (Threads s x)"
proof -
  note q = queues_repD [OF r]
  obtain u where u: "enqueue_tail c t s = Some u"
    "thread_queue (Threads u) (ReadyQueue (CpuSchedulers u c)) (ready a @ [t])" "outer c u = outer c s" "locks_but c u = locks_but c s"
    "\<forall>x. data (Threads u x) = data (Threads s x)"
    "\<forall>x. x \<notin> set (ready a) \<longrightarrow> tNext (Threads u x) = tNext (Threads s x)" "\<forall>x. x \<noteq> t \<longrightarrow> tPrev (Threads u x) = tPrev (Threads s x)"
    "CpuSchedulers u = (CpuSchedulers s)(c := (CpuSchedulers s c)\<lparr>ReadyQueue := ReadyQueue (CpuSchedulers u c)\<rparr>)"
    using enqueue_tail_ok [OF q(1), of t] t q(5) by auto
  have other: "thread_queue (Threads u) p xs" if "set xs \<inter> set (ready a) = {}" "thread_queue (Threads s) p xs" for p xs
  proof -
    have "thread_queue (Threads u) p xs = thread_queue (Threads s) p xs"
      by (rule thread_queue_cong) (use that u(6) in auto)
    then show ?thesis using that by simp
  qed
  have cs: "WaitingQueue (CpuSchedulers u c) = WaitingQueue (CpuSchedulers s c)"
    "ZombieQueue (CpuSchedulers u c) = ZombieQueue (CpuSchedulers s c)" "SleepingQueue (CpuSchedulers u c) = SleepingQueue (CpuSchedulers s c)"
    "ReadyCount (CpuSchedulers u c) = ReadyCount (CpuSchedulers s c)"
    by (subst u(8); simp)+
  show ?thesis
  proof (rule that [OF u(1,4) _ u(7)])
    show "queues_rep c (upd_cpu c (\<lambda>C. C\<lparr>ReadyCount := ReadyCount C + 1\<rparr>) u) (a\<lparr>ready := ready a @ [t]\<rparr>)"
      using q u(2,3,5,7) cs t by (auto simp: queues_rep_def intro!: other)
  qed
qed

section \<open>The queue operations\<close>

definition a_add :: "u32 \<Rightarrow> u64 \<Rightarrow> asched \<Rightarrow> asched" where
  "a_add c t a = a\<lparr>datas := (datas a)(t := (datas a t)\<lparr>tState := ThreadStateReady, LastCpu := c\<rparr>),
     ready := ready a @ [t]\<rparr>"

lemma AddThreadToReadyQueue_rep:
  assumes R: "sched_rep c s a" and c: "c < MaxCPUs" and t: "t \<noteq> 0" "t \<notin> set (queued a)"
  obtains u where "AddThreadToReadyQueue c t s = Some u" "sched_rep c u (a_add c t a)"
proof -
  let ?f = "\<lambda>T. T\<lparr>tState := ThreadStateReady, LastCpu := c, tNext := 0, tPrev := 0\<rparr>"
  let ?s = "upd_thread t ?f s" and ?a = "a\<lparr>datas := (datas a)(t := (datas a t)\<lparr>tState := ThreadStateReady, LastCpu := c\<rparr>)\<rparr>"
  have "queues_rep c ?s ?a"
    by (rule upd_thread_rep) (use R t in \<open>auto simp: data_def sched_rep_def\<close>)
  moreover have "locks_free ?s" using R by (simp add: sched_rep_def)
  ultimately obtain v where v: "lock_cpu c ?s = Some v" "Threads v = Threads ?s" "locks_but c v" "queues_rep c v ?a"
    using lock_cpu_rep by metis
  obtain w where w: "enqueue_tail c t v = Some w" "locks_but c w = locks_but c v"
    "queues_rep c (upd_cpu c (\<lambda>C. C\<lparr>ReadyCount := ReadyCount C + 1\<rparr>) w) (?a\<lparr>ready := ready ?a @ [t]\<rparr>)"
    by (rule enqueue_rep [OF v(4), of t]) (use t v in auto)
  show ?thesis
  proof (rule that)
    show "AddThreadToReadyQueue c t s = Some (unlock_cpu c (upd_cpu c (\<lambda>C. C\<lparr>ReadyCount := ReadyCount C + 1\<rparr>) w))"
      using c t v(1) w(1) by (simp add: AddThreadToReadyQueue_def not_le)
  qed (use w v in \<open>simp add: sched_rep_def a_add_def\<close>)
qed

lemma RemoveThreadFromReadyQueue_empty:
  assumes R: "sched_rep c s a" and c: "c < MaxCPUs" and e: "ready a = []"
  obtains u where "RemoveThreadFromReadyQueue c s = Some (0, u)" "sched_rep c u a"
proof -
  obtain v where v: "lock_cpu c s = Some v" "Threads v = Threads s" "locks_but c v" "queues_rep c v a"
    using lock_cpu_rep R unfolding sched_rep_def by metis
  have "ReadyQueue (CpuSchedulers v c) = 0" using queues_repD(1) [OF v(4)] e by simp
  then show ?thesis using that [of "unlock_cpu c v"] v c by (simp add: RemoveThreadFromReadyQueue_def sched_rep_def not_le)
qed

lemma RemoveThreadFromReadyQueue_rep:
  assumes R: "sched_rep c s a" and c: "c < MaxCPUs" and e: "ready a = t # ts" and len: "length (ready a) < 2 ^ 32"
  obtains u where "RemoveThreadFromReadyQueue c s = Some (t, u)" "sched_rep c u (a\<lparr>ready := ts\<rparr>)"
    "tNext (Threads u t) = 0" "tPrev (Threads u t) = 0"
proof -
  obtain v where v: "lock_cpu c s = Some v" "Threads v = Threads s" "locks_but c v" "queues_rep c v a"
    using lock_cpu_rep R unfolding sched_rep_def by metis
  note q = queues_repD [OF v(4)]
  have t: "ReadyQueue (CpuSchedulers v c) = t" "t \<noteq> 0" "thread_queue (Threads v) (tNext (Threads v t)) ts" using q(1) e by auto
  let ?n = "tNext (Threads v t)"
  have n: "?n = 0 \<and> ts = [] \<or> ?n \<noteq> 0 \<and> ?n \<in> set ts" using t(3) by (cases ts) auto
  have tt: "t \<notin> set ts" using q(5) e by simp
  have "unat (ReadyCount (CpuSchedulers v c)) = length (ready a)"
    using q(6) len by (simp add: unsigned_of_nat take_bit_nat_eq_self)
  then have cnt: "0 < ReadyCount (CpuSchedulers v c)" "ReadyCount (CpuSchedulers v c) - 1 = word_of_nat (length ts)"
    using q(6) e by (auto simp: word_gt_0)
  let ?w = "upd_cpu c (\<lambda>C. C\<lparr>ReadyQueue := ?n\<rparr>) v"
  let ?w = "if ?n \<noteq> 0 then upd_thread ?n (\<lambda>T. T\<lparr>tPrev := 0\<rparr>) ?w else ?w"
  let ?w = "upd_cpu c (\<lambda>C. C\<lparr>ReadyCount := ReadyCount C - 1\<rparr>) (upd_thread t (\<lambda>T. T\<lparr>tNext := 0, tPrev := 0\<rparr>) ?w)"
  show ?thesis
  proof (rule that)
    show "RemoveThreadFromReadyQueue c s = Some (t, unlock_cpu c ?w)"
      using c t(1,2) v(1) cnt(1) by (simp add: RemoveThreadFromReadyQueue_def not_le Let_def)
    have same: "thread_queue (Threads ?w) p xs" if "thread_queue (Threads v) p xs" "t \<notin> set xs" for p xs
    proof -
      have "thread_queue (Threads ?w) p xs = thread_queue (Threads v) p xs"
        by (rule thread_queue_cong) (use that in auto)
      then show ?thesis using that by simp
    qed
    have "queues_rep c ?w (a\<lparr>ready := ts\<rparr>)"
      unfolding queues_rep_def
    proof (intro conjI)
      show "thread_queue (Threads ?w) (ReadyQueue (CpuSchedulers ?w c)) (ready (a\<lparr>ready := ts\<rparr>))"
        using same [OF t(3) tt] by auto
      show "datas (a\<lparr>ready := ts\<rparr>) = (\<lambda>x. data (Threads ?w x))" using q(8) by (auto simp: fun_eq_iff data_def)
    qed (use q e cnt(2) in \<open>auto intro!: same\<close>)
    then show "sched_rep c (unlock_cpu c ?w) (a\<lparr>ready := ts\<rparr>)" using v(3) by (simp add: sched_rep_def)
  qed (use t(2) in auto)
qed

text \<open>The three stacks.\<close>

definition a_wait :: "u64 \<Rightarrow> asched \<Rightarrow> asched" where
  "a_wait t a = a\<lparr>datas := (datas a)(t := (datas a t)\<lparr>tState := ThreadStateBlocked\<rparr>), waiting := t # waiting a\<rparr>"

definition a_sleep :: "u64 \<Rightarrow> asched \<Rightarrow> asched" where
  "a_sleep t a = a\<lparr>datas := (datas a)(t := (datas a t)\<lparr>tState := ThreadStateSleeping\<rparr>), sleeping := t # sleeping a\<rparr>"

definition a_bury :: "u32 \<Rightarrow> u64 \<Rightarrow> asched \<Rightarrow> asched" where
  "a_bury c t a = a\<lparr>datas := (datas a)(t := (datas a t)\<lparr>tState := ThreadStateZombie\<rparr>), zombies := t # zombies a,
     others := upd_cpu c (\<lambda>C. C\<lparr>ThreadCount := ThreadCount C - 1\<rparr>) (others a)\<rparr>"

lemma outer_upd_other:
  assumes "\<And>C. blank_queues (f C) = f (blank_queues C)"
  shows "outer c (upd_cpu c f s) = upd_cpu c f (outer c s)"
proof -
  have "outer_cpus c ((CpuSchedulers s)(c := f (CpuSchedulers s c))) =
     (outer_cpus c (CpuSchedulers s))(c := f (outer_cpus c (CpuSchedulers s) c))"
    by (rule ext) (simp add: outer_cpus_def assms)
  then show ?thesis by (simp add: outer_def upd_cpu_def)
qed

lemma push_thread_queue:
  "thread_queue T p xs \<Longrightarrow> t \<noteq> 0 \<Longrightarrow> t \<notin> set xs \<Longrightarrow> tNext v = p \<Longrightarrow> thread_queue (T(t := v)) t (t # xs)"
  by simp

lemma push_locked:
  assumes R: "sched_rep c s a" and t: "t \<noteq> 0" "t \<notin> set (queued a)"
    and f: "\<And>T. data (f T) = f (data T)" "\<And>T. tPrev (f T) = tPrev T"
  obtains v where "lock_cpu c (upd_thread t f s) = Some v" "locks_but c v" "tPrev (Threads v t) = tPrev (Threads s t)"
    "queues_rep c v (a\<lparr>datas := (datas a)(t := f (datas a t))\<rparr>)"
    "queues_rep c (upd_thread t (\<lambda>T. T\<lparr>tNext := n\<rparr>) v) (a\<lparr>datas := (datas a)(t := f (datas a t))\<rparr>)"
proof -
  let ?a = "a\<lparr>datas := (datas a)(t := f (datas a t))\<rparr>"
  have "queues_rep c (upd_thread t f s) ?a"
    by (rule upd_thread_rep) (use R t f in \<open>auto simp: sched_rep_def\<close>)
  moreover have "locks_free (upd_thread t f s)" using R by (simp add: sched_rep_def)
  ultimately obtain v where v: "lock_cpu c (upd_thread t f s) = Some v" "Threads v = Threads (upd_thread t f s)"
    "locks_but c v" "queues_rep c v ?a"
    using lock_cpu_rep by metis
  moreover have "queues_rep c (upd_thread t (\<lambda>T. T\<lparr>tNext := n\<rparr>) v) ?a"
    by (rule upd_thread_rep_same [OF v(4)]) (use t in auto)
  ultimately show ?thesis using that f(2) by simp
qed

lemma AddThreadToWaitingQueue_rep:
  assumes R: "sched_rep c s a" and c: "c < MaxCPUs" and t: "t \<noteq> 0" "t \<notin> set (queued a)"
  obtains u where "AddThreadToWaitingQueue c t s = Some u" "sched_rep c u (a_wait t a)"
proof -
  let ?f = "\<lambda>T. T\<lparr>tState := ThreadStateBlocked\<rparr>"
  obtain v where v: "lock_cpu c (upd_thread t ?f s) = Some v" "locks_but c v"
    "queues_rep c v (a\<lparr>datas := (datas a)(t := ?f (datas a t))\<rparr>)"
    by (rule push_locked [OF R t, of ?f]) (auto simp: data_def)
  note q = queues_repD [OF v(3)]
  let ?u = "upd_cpu c (\<lambda>C. C\<lparr>WaitingQueue := t\<rparr>) (upd_thread t (\<lambda>T. T\<lparr>tNext := WaitingQueue (CpuSchedulers v c)\<rparr>) v)"
  show ?thesis
  proof (rule that)
    show "AddThreadToWaitingQueue c t s = Some (unlock_cpu c ?u)"
      using c t(1) v(1) by (simp add: AddThreadToWaitingQueue_def not_le)
    have "queues_rep c ?u (a_wait t a)" using q t by (auto simp: queues_rep_def a_wait_def fun_eq_iff)
    then show "sched_rep c (unlock_cpu c ?u) (a_wait t a)" using v(2) by (simp add: sched_rep_def)
  qed
qed

lemma AddThreadToSleepingQueue_rep:
  assumes R: "sched_rep c s a" and c: "c < MaxCPUs" and t: "t \<noteq> 0" "t \<notin> set (queued a)"
  obtains u where "AddThreadToSleepingQueue c t s = Some u" "sched_rep c u (a_sleep t a)"
proof -
  let ?f = "\<lambda>T. T\<lparr>tState := ThreadStateSleeping\<rparr>"
  obtain v where v: "lock_cpu c (upd_thread t ?f s) = Some v" "locks_but c v"
    "queues_rep c v (a\<lparr>datas := (datas a)(t := ?f (datas a t))\<rparr>)"
    by (rule push_locked [OF R t, of ?f]) (auto simp: data_def)
  note q = queues_repD [OF v(3)]
  let ?u = "upd_cpu c (\<lambda>C. C\<lparr>SleepingQueue := t\<rparr>) (upd_thread t (\<lambda>T. T\<lparr>tNext := SleepingQueue (CpuSchedulers v c)\<rparr>) v)"
  show ?thesis
  proof (rule that)
    show "AddThreadToSleepingQueue c t s = Some (unlock_cpu c ?u)"
      using c t(1) v(1) by (simp add: AddThreadToSleepingQueue_def not_le)
    have "queues_rep c ?u (a_sleep t a)" using q t by (auto simp: queues_rep_def a_sleep_def fun_eq_iff)
    then show "sched_rep c (unlock_cpu c ?u) (a_sleep t a)" using v(2) by (simp add: sched_rep_def)
  qed
qed

lemma AddThreadToZombieQueue_rep:
  assumes R: "sched_rep c s a" and c: "c < MaxCPUs" and t: "t \<noteq> 0" "t \<notin> set (queued a)" "tPrev (Threads s t) = 0"
  obtains u where "AddThreadToZombieQueue c t s = Some u" "sched_rep c u (a_bury c t a)"
proof -
  let ?f = "\<lambda>T. T\<lparr>tState := ThreadStateZombie\<rparr>"
  obtain v where v: "lock_cpu c (upd_thread t ?f s) = Some v" "locks_but c v" "tPrev (Threads v t) = tPrev (Threads s t)"
    "queues_rep c v (a\<lparr>datas := (datas a)(t := ?f (datas a t))\<rparr>)"
    by (rule push_locked [OF R t(1,2), of ?f]) (auto simp: data_def)
  note q = queues_repD [OF v(4)]
  let ?g = "\<lambda>C. C\<lparr>ThreadCount := ThreadCount C - 1\<rparr>"
  let ?u = "upd_cpu c (\<lambda>C. C\<lparr>ZombieQueue := t\<rparr>) (upd_thread t (\<lambda>T. T\<lparr>tNext := ZombieQueue (CpuSchedulers v c)\<rparr>) v)"
  let ?b = "a\<lparr>datas := (datas a)(t := ?f (datas a t)), zombies := t # zombies a\<rparr>"
  show ?thesis
  proof (rule that)
    show "AddThreadToZombieQueue c t s = Some (upd_cpu c ?g (unlock_cpu c ?u))"
      using c t(1) v(1) by (simp add: AddThreadToZombieQueue_def not_le)
    have u: "queues_rep c ?u ?b" using q t v(3) by (auto simp: queues_rep_def fun_eq_iff)
    have g: "outer c (upd_cpu c ?g x) = upd_cpu c ?g (outer c x)" for x by (rule outer_upd_other) (simp add: blank_queues_def)
    have "queues_rep c (upd_cpu c ?g (unlock_cpu c ?u)) (a_bury c t a)"
      using u g [of "unlock_cpu c ?u"] by (simp add: queues_rep_def a_bury_def)
    then show "sched_rep c (upd_cpu c ?g (unlock_cpu c ?u)) (a_bury c t a)"
      using v(2) by (simp add: sched_rep_def locks_free_upd_cpu)
  qed
qed

section \<open>Waking and reaping\<close>

definition woken :: "Thread \<Rightarrow> Thread" where
  "woken T = T\<lparr>WaitReason := WaitReasonNone, WakeupTime := 0, tState := ThreadStateReady\<rparr>"

definition a_wake_list :: "u64 list \<Rightarrow> asched \<Rightarrow> asched" where
  "a_wake_list ts a = a\<lparr>datas := (\<lambda>x. if x \<in> set ts then woken (datas a x) else datas a x), ready := ready a @ ts\<rparr>"

definition due :: "u64 \<Rightarrow> asched \<Rightarrow> u64 \<Rightarrow> bool" where
  "due k a t \<longleftrightarrow> WakeupTime (datas a t) \<le> k"

definition a_wake :: "u64 \<Rightarrow> asched \<Rightarrow> asched" where
  "a_wake k a = (a_wake_list (filter (due k a) (sleeping a)) a)\<lparr>sleeping := filter (\<lambda>t. \<not> due k a t) (sleeping a)\<rparr>"

lemma woken_idem [simp]: "woken (woken T) = woken T"
  by (simp add: woken_def)

lemma a_wake_list_simps [simp]:
  "waiting (a_wake_list ts a) = waiting a" "zombies (a_wake_list ts a) = zombies a" "sleeping (a_wake_list ts a) = sleeping a"
  "ready (a_wake_list ts a) = ready a @ ts" "others (a_wake_list ts a) = others a"
  by (simp_all add: a_wake_list_def)

lemma a_wake_list_Cons:
  "a_wake_list ts ((a_wake_list [x] a)\<lparr>sleeping := ys\<rparr>) = (a_wake_list (x # ts) a)\<lparr>sleeping := ys\<rparr>"
  by (simp add: a_wake_list_def fun_eq_iff)

lemma thread_queue_unlink:
  assumes "thread_queue T p (pre @ x # rest)" "distinct (pre @ x # rest)" "pre \<noteq> []"
  shows "thread_queue (T(last pre := (T (last pre))\<lparr>tNext := tNext (T x)\<rparr>)) p (pre @ rest)"
  using assms
proof (induction pre arbitrary: p)
  case (Cons y pre)
  show ?case
  proof (cases "pre = []")
    case True
    have "thread_queue (\<lambda>a. if a = y then v else T a) q rest = thread_queue T q rest" for v q
      by (rule thread_queue_cong) (use Cons.prems in auto)
    then show ?thesis using True Cons.prems by simp
  next
    case False
    then have "last pre \<noteq> y" using Cons.prems(2) last_in_set by fastforce
    then show ?thesis using Cons.IH [of "tNext (T y)"] Cons.prems False by simp
  qed
qed simp

abbreviation prev_of :: "u64 list \<Rightarrow> u64" where
  "prev_of pre \<equiv> (if pre = [] then 0 else last pre)"

lemma wake_rep:
  assumes r: "queues_rep c s a" and sl: "sleeping a = pre @ x # rest"
  obtains u where "wake c x (prev_of pre) (tNext (Threads s x)) s = Some u" "locks_but c u = locks_but c s"
    "queues_rep c u ((a_wake_list [x] a)\<lparr>sleeping := pre @ rest\<rparr>)" "\<forall>y. y \<noteq> x \<longrightarrow> tPrev (Threads u y) = tPrev (Threads s y)"
proof -
  note q = queues_repD [OF r]
  have dist: "distinct (pre @ x # rest)" "x \<notin> set (ready a)" "x \<notin> set (waiting a)" "x \<notin> set (zombies a)"
    using q(5) sl by auto
  have nz: "x \<noteq> 0" "0 \<notin> set pre" using queued_nonzero [OF r] sl by auto
  let ?n = "tNext (Threads s x)" and ?b = "a\<lparr>sleeping := pre @ rest\<rparr>"
  let ?s = "if prev_of pre \<noteq> 0 then upd_thread (prev_of pre) (\<lambda>T. T\<lparr>tNext := ?n\<rparr>) s
            else upd_cpu c (\<lambda>C. C\<lparr>SleepingQueue := ?n\<rparr>) s"
  have s: "queues_rep c ?s ?b"
  proof (cases "pre = []")
    case True
    then show ?thesis using q sl by (auto simp: queues_rep_def)
  next
    case False
    then have l: "last pre \<in> set pre" by simp
    then have "last pre \<noteq> 0" "last pre \<notin> set (ready a)" "last pre \<notin> set (waiting a)" "last pre \<notin> set (zombies a)"
      using nz q(5) sl by auto
    then show ?thesis using q sl False thread_queue_unlink [OF q(4) [unfolded sl] dist(1) False]
      by (auto simp: queues_rep_def fun_eq_iff)
  qed
  let ?f = "\<lambda>T. T\<lparr>WaitReason := WaitReasonNone, WakeupTime := 0, tState := ThreadStateReady, tPrev := 0, tNext := 0\<rparr>"
  have xq: "x \<notin> set (queued ?b)" using dist by auto
  have t: "queues_rep c (upd_thread x ?f ?s) (?b\<lparr>datas := (datas ?b)(x := woken (datas ?b x))\<rparr>)"
    by (rule upd_thread_rep [OF s]) (use xq in \<open>auto simp: woken_def data_def\<close>)
  obtain u where u: "enqueue_tail c x (upd_thread x ?f ?s) = Some u" "locks_but c u = locks_but c (upd_thread x ?f ?s)"
    "queues_rep c (upd_cpu c (\<lambda>C. C\<lparr>ReadyCount := ReadyCount C + 1\<rparr>) u)
       ((?b\<lparr>datas := (datas ?b)(x := woken (datas ?b x))\<rparr>)\<lparr>ready := ready a @ [x]\<rparr>)"
    "\<forall>y. y \<noteq> x \<longrightarrow> tPrev (Threads u y) = tPrev (Threads (upd_thread x ?f ?s) y)"
    using enqueue_rep [OF t nz(1)] xq by auto
  have eq: "(?b\<lparr>datas := (datas ?b)(x := woken (datas ?b x))\<rparr>)\<lparr>ready := ready a @ [x]\<rparr> = (a_wake_list [x] a)\<lparr>sleeping := pre @ rest\<rparr>"
    by (simp add: a_wake_list_def fun_eq_iff)
  show ?thesis
    by (rule that [of "upd_cpu c (\<lambda>C. C\<lparr>ReadyCount := ReadyCount C + 1\<rparr>) u"])
      (use u eq in \<open>auto simp: wake_def Let_def\<close>)
qed

lemma wakeup_loop_rep:
  assumes "queues_rep c s a" "sleeping a = pre @ rest" "p = (case rest of [] \<Rightarrow> 0 | x # _ \<Rightarrow> x)"
  obtains u where "wakeup_loop c k p (prev_of pre) s = Some u" "locks_but c u = locks_but c s"
    "queues_rep c u ((a_wake_list (filter (due k a) rest) a)\<lparr>sleeping := pre @ filter (\<lambda>t. \<not> due k a t) rest\<rparr>)"
    "\<forall>y. y \<notin> set rest \<longrightarrow> tPrev (Threads u y) = tPrev (Threads s y)"
proof -
  have "\<exists>u. wakeup_loop c k p (prev_of pre) s = Some u \<and> locks_but c u = locks_but c s \<and>
    queues_rep c u ((a_wake_list (filter (due k a) rest) a)\<lparr>sleeping := pre @ filter (\<lambda>t. \<not> due k a t) rest\<rparr>) \<and>
    (\<forall>y. y \<notin> set rest \<longrightarrow> tPrev (Threads u y) = tPrev (Threads s y))"
    using assms
  proof (induction rest arbitrary: s a pre p)
    case Nil
    then have "(a_wake_list [] a)\<lparr>sleeping := pre\<rparr> = a" by (cases a) (simp add: a_wake_list_def)
    then show ?case using Nil by (subst wakeup_loop.simps) simp
  next
    case (Cons x rest)
    note q = queues_repD [OF Cons.prems(1)]
    have x: "p = x" "x \<noteq> 0" "x \<notin> set rest" using Cons.prems queued_nonzero [OF Cons.prems(1)] q(5) by auto
    let ?n = "tNext (Threads s x)"
    have "thread_queue (Threads s) (SleepingQueue (CpuSchedulers s c)) (pre @ x # rest)" using q(4) Cons.prems(2) by simp
    then have "thread_queue (Threads s) ?n rest" by (auto simp: thread_queue_append)
    then have n: "?n = (case rest of [] \<Rightarrow> 0 | y # _ \<Rightarrow> y)" by (rule thread_queue_hd)
    have d: "WakeupTime (Threads s x) = WakeupTime (datas a x)" using q(8) by simp
    show ?case
    proof (cases "due k a x")
      case False
      obtain u where u: "wakeup_loop c k ?n (prev_of (pre @ [x])) s = Some u" "locks_but c u = locks_but c s"
        "queues_rep c u ((a_wake_list (filter (due k a) rest) a)\<lparr>sleeping := (pre @ [x]) @ filter (\<lambda>t. \<not> due k a t) rest\<rparr>)"
        "\<forall>y. y \<notin> set rest \<longrightarrow> tPrev (Threads u y) = tPrev (Threads s y)"
        using Cons.IH [OF Cons.prems(1) _ n, of "pre @ [x]"] Cons.prems(2) by auto
      then show ?thesis using False x d by (subst wakeup_loop.simps) (simp add: due_def Let_def)
    next
      case True
      obtain v where v: "wake c x (prev_of pre) ?n s = Some v" "locks_but c v = locks_but c s"
        "queues_rep c v ((a_wake_list [x] a)\<lparr>sleeping := pre @ rest\<rparr>)"
        "\<forall>y. y \<noteq> x \<longrightarrow> tPrev (Threads v y) = tPrev (Threads s y)"
        by (rule wake_rep [OF Cons.prems(1,2)])
      let ?b = "(a_wake_list [x] a)\<lparr>sleeping := pre @ rest\<rparr>"
      have f: "filter (due k ?b) rest = filter (due k a) rest" "filter (\<lambda>t. \<not> due k ?b t) rest = filter (\<lambda>t. \<not> due k a t) rest"
        using x(3) by (auto simp: due_def a_wake_list_def intro!: filter_cong split: if_splits)
      obtain u where "wakeup_loop c k ?n (prev_of pre) v = Some u" "locks_but c u = locks_but c v"
        "queues_rep c u ((a_wake_list (filter (due k ?b) rest) ?b)\<lparr>sleeping := pre @ filter (\<lambda>t. \<not> due k ?b t) rest\<rparr>)"
        "\<forall>y. y \<notin> set rest \<longrightarrow> tPrev (Threads u y) = tPrev (Threads v y)"
        using Cons.IH [OF v(3) _ n, of pre] by auto
      then show ?thesis using True x d v(1,2,4) f by (subst wakeup_loop.simps) (simp add: due_def Let_def a_wake_list_Cons)
    qed
  qed
  then show ?thesis using that by blast
qed

lemma WakeupSleepingThreads_rep:
  assumes R: "sched_rep c s a" and c: "c < MaxCPUs"
  obtains u where "WakeupSleepingThreads c s = Some u" "sched_rep c u (a_wake (SystemTicks s) a)"
    "\<forall>y. y \<notin> set (sleeping a) \<longrightarrow> tPrev (Threads u y) = tPrev (Threads s y)"
proof -
  obtain v where v: "lock_cpu c s = Some v" "Threads v = Threads s" "locks_but c v" "queues_rep c v a"
    using lock_cpu_rep R unfolding sched_rep_def by metis
  have h: "SleepingQueue (CpuSchedulers v c) = (case sleeping a of [] \<Rightarrow> 0 | x # _ \<Rightarrow> x)"
    by (rule thread_queue_hd [OF queues_repD(4) [OF v(4)]])
  obtain u where u: "wakeup_loop c (SystemTicks s) (SleepingQueue (CpuSchedulers v c)) (prev_of []) v = Some u" "locks_but c u = locks_but c v"
    "queues_rep c u ((a_wake_list (filter (due (SystemTicks s) a) (sleeping a)) a)\<lparr>sleeping := [] @ filter (\<lambda>t. \<not> due (SystemTicks s) a t) (sleeping a)\<rparr>)"
    "\<forall>y. y \<notin> set (sleeping a) \<longrightarrow> tPrev (Threads u y) = tPrev (Threads v y)"
    by (rule wakeup_loop_rep [OF v(4) _ h, of "[]"]) auto
  show ?thesis
  proof (rule that)
    show "WakeupSleepingThreads c s = Some (unlock_cpu c u)"
      using c v(1) u(1) by (simp add: WakeupSleepingThreads_def GetSystemTicks_def not_le)
  qed (use u v(2,3) in \<open>simp_all add: sched_rep_def a_wake_def\<close>)
qed


text \<open>Destroying a thread that has no predecessor: its successor becomes the thread list.\<close>

definition a_destroy :: "u64 \<Rightarrow> u64 \<Rightarrow> asched \<Rightarrow> asched" where
  "a_destroy n t a = a\<lparr>datas := (datas a)(t := (datas a t)\<lparr>tState := ThreadStateTerminated\<rparr>),
     others := (others a)\<lparr>ThreadList := n, Heap := free_thread t (datas a t) (Heap (others a))\<rparr>\<rparr>"

fun a_reap :: "u64 list \<Rightarrow> asched \<Rightarrow> asched" where
  "a_reap [] a = a"
| "a_reap (t # ts) a = a_reap ts (a_destroy (case ts of [] \<Rightarrow> 0 | y # _ \<Rightarrow> y) t a)"

definition a_cleanup :: "asched \<Rightarrow> asched" where
  "a_cleanup a = a_reap (zombies a) (a\<lparr>zombies := []\<rparr>)"

definition list_held :: "sched \<Rightarrow> bool" where
  "list_held s \<longleftrightarrow> SpinLock_Lock (CurrentThreadLock s) = 0 \<and> (\<forall>c. SpinLock_Lock (SchedulerLock (CpuSchedulers s c)) = 0)"

lemma list_held_simps [simp]:
  "list_held (upd_thread t f s) = list_held s" "list_held (s\<lparr>ThreadList := n\<rparr>) = list_held s" "list_held (s\<lparr>Heap := h\<rparr>) = list_held s"
  by (simp_all add: list_held_def)

lemma outer_simps [simp]:
  "outer c (s\<lparr>ThreadList := n\<rparr>) = (outer c s)\<lparr>ThreadList := n\<rparr>" "outer c (s\<lparr>Heap := h\<rparr>) = (outer c s)\<lparr>Heap := h\<rparr>"
  "Heap (outer c s) = Heap s" "ThreadList (outer c s) = ThreadList s" "SystemTicks (outer c s) = SystemTicks s"
  by (simp_all add: outer_def)

lemma lock_list_free:
  assumes "locks_free s"
  obtains u where "lock_list s = Some u" "Threads u = Threads s" "CpuSchedulers u = CpuSchedulers s" "list_held u"
    "\<And>c. outer c u = outer c s" "ThreadList u = ThreadList s" "Heap u = Heap s"
proof (rule that)
  let ?f = "SchedFlags s" and ?c = "ThisCpu s"
  let ?L = "(ThreadListLock s)\<lparr>SpinLock_Lock := 1, SpinLock_CpuId := ?c\<rparr>"
  let ?F = "?f\<lparr>RFlags := (RFlags ?f)(?c := cli (RFlags ?f ?c)), SavedFlags := (SavedFlags ?f)(?c := RFlags ?f ?c)\<rparr>"
  let ?u = "s\<lparr>ThreadListLock := ?L, SchedFlags := ?F\<rparr>"
  show "lock_list s = Some ?u" by (simp add: lock_list_def AcquireSpinLock_def Let_def locks_freeD [OF assms])
  show "list_held ?u" using locks_freeD [OF assms] by (simp add: list_held_def)
  show "outer c ?u = outer c s" for c by (simp add: outer_def)
qed simp_all

lemma unlock_list_simps [simp]:
  "Threads (unlock_list s) = Threads s" "CpuSchedulers (unlock_list s) = CpuSchedulers s" "outer c (unlock_list s) = outer c s"
  "Heap (unlock_list s) = Heap s" "ThreadList (unlock_list s) = ThreadList s" "locks_free (unlock_list s) = list_held s"
  by (simp_all add: unlock_list_def ReleaseSpinLock_def Let_def outer_def locks_free_def list_held_def)

lemma locks_free_heap [simp]: "locks_free (s\<lparr>Heap := h\<rparr>) = locks_free s"
  by (simp add: locks_free_def)

lemma DestroyThread_first:
  assumes L: "locks_free s" and t: "t \<noteq> 0" "tPrev (Threads s t) = 0" "tNext (Threads s t) \<noteq> t"
  obtains u where "DestroyThread t s = Some u" "locks_free u" "CpuSchedulers u = CpuSchedulers s"
    "Threads u = (let T = (Threads s)(t := (Threads s t)\<lparr>tState := ThreadStateTerminated\<rparr>); n = tNext (Threads s t)
       in if n = 0 then T else T(n := (T n)\<lparr>tPrev := 0\<rparr>))"
    "outer c u = (outer c s)\<lparr>ThreadList := tNext (Threads s t), Heap := free_thread t (Threads s t) (Heap s)\<rparr>"
proof -
  let ?f = "\<lambda>T. T\<lparr>tState := ThreadStateTerminated\<rparr>"
  have "locks_free (upd_thread t ?f s)" using L by simp
  then obtain v where v: "lock_list (upd_thread t ?f s) = Some v" "Threads v = Threads (upd_thread t ?f s)"
    "CpuSchedulers v = CpuSchedulers (upd_thread t ?f s)" "list_held v" "\<And>c. outer c v = outer c (upd_thread t ?f s)"
    "ThreadList v = ThreadList (upd_thread t ?f s)" "Heap v = Heap (upd_thread t ?f s)"
    by (rule lock_list_free) blast
  let ?n = "tNext (Threads s t)"
  have tv: "tPrev (Threads v t) = 0" "tNext (Threads v t) = ?n" using v(2) t(2) by simp_all
  let ?w = "v\<lparr>ThreadList := ?n\<rparr>"
  let ?w = "if ?n \<noteq> 0 then upd_thread ?n (\<lambda>T. T\<lparr>tPrev := 0\<rparr>) ?w else ?w"
  have w: "unlink_thread t v = ?w" using tv by (simp add: unlink_thread_def)
  have "data (Threads ?w t) = (data (Threads s t))\<lparr>tState := ThreadStateTerminated\<rparr>" using v(2) t(3) by (simp add: data_def)
  then have "KernelStack (Threads ?w t) = KernelStack (Threads s t)" "UserStack (Threads ?w t) = UserStack (Threads s t)"
    "StackSize (Threads ?w t) = StackSize (Threads s t)"
    using data_fields(7-9) [of "Threads ?w t"] by simp_all
  then have ft: "free_thread t (Threads ?w t) h = free_thread t (Threads s t) h" for h by (simp only: free_thread_def)
  show ?thesis
  proof (rule that)
    show "DestroyThread t s = Some ((unlock_list ?w)\<lparr>Heap := free_thread t (Threads s t) (Heap s)\<rparr>)"
      using t(1) v(1,7) ft by (simp add: DestroyThread_def w)
  qed (use v t(3) in \<open>simp_all add: Let_def\<close>)
qed

lemma cleanup_loop_rep:
  assumes "queues_rep c s a" "locks_free s" "thread_queue (Threads s) p ts" "distinct ts"
    "set ts \<inter> set (queued a) = {}" "\<forall>t \<in> set ts. tPrev (Threads s t) = 0"
  shows "\<exists>u. cleanup_loop p s = Some u \<and> locks_free u \<and> queues_rep c u (a_reap ts a)"
  using assms
proof (induction ts arbitrary: p s a)
  case Nil
  then show ?case by (subst cleanup_loop.simps) simp
next
  case (Cons t ts)
  note q = queues_repD [OF Cons.prems(1)]
  have p: "p = t" "t \<noteq> 0" "thread_queue (Threads s) (tNext (Threads s t)) ts" using Cons.prems(3) by auto
  have n: "tNext (Threads s t) = (case ts of [] \<Rightarrow> 0 | y # _ \<Rightarrow> y)" by (rule thread_queue_hd [OF p(3)])
  then have nt: "tNext (Threads s t) \<noteq> t" "tNext (Threads s t) = 0 \<or> tNext (Threads s t) \<in> set ts"
    using Cons.prems(4) p(2) by (auto split: list.splits)
  obtain u where u: "DestroyThread t s = Some u" "locks_free u" "CpuSchedulers u = CpuSchedulers s"
    "Threads u = (let T = (Threads s)(t := (Threads s t)\<lparr>tState := ThreadStateTerminated\<rparr>); n = tNext (Threads s t)
       in if n = 0 then T else T(n := (T n)\<lparr>tPrev := 0\<rparr>))"
    "outer c u = (outer c s)\<lparr>ThreadList := tNext (Threads s t), Heap := free_thread t (Threads s t) (Heap s)\<rparr>"
    by (rule DestroyThread_first [OF Cons.prems(2) p(2) _ nt(1), of c]) (use Cons.prems(6) in auto)
  have next_eq: "tNext (Threads u x) = tNext (Threads s x)" for x using u(4) by (simp add: Let_def)
  have prev: "x \<in> set (queued a) \<Longrightarrow> tPrev (Threads u x) = tPrev (Threads s x)" "tPrev (Threads u x) = 0 \<or> tPrev (Threads u x) = tPrev (Threads s x)" for x
    using u(4) nt(2) Cons.prems(5) by (auto simp: Let_def)
  have same: "thread_queue (Threads u) r xs = thread_queue (Threads s) r xs" for r xs
    by (rule thread_queue_cong) (simp add: next_eq)
  have ft: "free_thread t (Threads s t) h = free_thread t (datas a t) h" for h using q(8) by (simp add: free_thread_def)
  have "queues_rep c u (a_destroy (case ts of [] \<Rightarrow> 0 | y # _ \<Rightarrow> y) t a)"
    unfolding queues_rep_def
  proof (intro conjI)
    show "datas (a_destroy (case ts of [] \<Rightarrow> 0 | y # _ \<Rightarrow> y) t a) = (\<lambda>x. data (Threads u x))"
      using q(8) by (auto simp: a_destroy_def fun_eq_iff u(4) Let_def data_def)
    show "others (a_destroy (case ts of [] \<Rightarrow> 0 | y # _ \<Rightarrow> y) t a) = outer c u"
      using q(9) ft n by (simp add: a_destroy_def u(5))
    show "\<forall>z \<in> set (zombies (a_destroy (case ts of [] \<Rightarrow> 0 | y # _ \<Rightarrow> y) t a)). tPrev (Threads u z) = 0"
      using q(7) prev(1) by (simp add: a_destroy_def)
  qed (use q in \<open>simp_all add: a_destroy_def u(3) same\<close>)
  moreover have "queued (a_destroy m t a) = queued a" for m by (simp add: a_destroy_def)
  ultimately have "\<exists>w. cleanup_loop (tNext (Threads s t)) u = Some w \<and> locks_free w \<and>
      queues_rep c w (a_reap ts (a_destroy (case ts of [] \<Rightarrow> 0 | y # _ \<Rightarrow> y) t a))"
  proof (intro Cons.IH)
    show "\<forall>x \<in> set ts. tPrev (Threads u x) = 0" using prev(2) Cons.prems(6) by (metis list.set_intros(2))
  qed (use Cons.prems(4,5) p(3) u(2) in \<open>simp_all add: same\<close>)
  then show ?case using u(1) p by (subst cleanup_loop.simps) simp
qed

lemma CleanupZombieThreads_rep:
  assumes R: "sched_rep c s a" and c: "c < MaxCPUs"
  obtains u where "CleanupZombieThreads c s = Some u" "sched_rep c u (a_cleanup a)"
proof -
  obtain v where v: "lock_cpu c s = Some v" "Threads v = Threads s" "locks_but c v" "queues_rep c v a"
    using lock_cpu_rep R unfolding sched_rep_def by metis
  note q = queues_repD [OF v(4)]
  let ?w = "unlock_cpu c (upd_cpu c (\<lambda>C. C\<lparr>ZombieQueue := 0\<rparr>) v)"
  have "queues_rep c ?w (a\<lparr>zombies := []\<rparr>)" using q by (auto simp: queues_rep_def)
  moreover have "locks_free ?w" using v(3) by simp
  ultimately have "\<exists>u. cleanup_loop (ZombieQueue (CpuSchedulers v c)) ?w = Some u \<and> locks_free u \<and> queues_rep c u (a_cleanup a)"
    unfolding a_cleanup_def by (rule cleanup_loop_rep) (use q in auto)
  then obtain u where "cleanup_loop (ZombieQueue (CpuSchedulers v c)) ?w = Some u" "locks_free u" "queues_rep c u (a_cleanup a)"
    by blast
  then show ?thesis using that [of u] v(1) c by (simp add: CleanupZombieThreads_def sched_rep_def not_le Let_def)
qed

section \<open>Choosing the next thread\<close>

abbreviation a_upd :: "u64 \<Rightarrow> (Thread \<Rightarrow> Thread) \<Rightarrow> asched \<Rightarrow> asched" where
  "a_upd t f a \<equiv> a\<lparr>datas := (datas a)(t := f (datas a t))\<rparr>"

lemma a_add_simps [simp]:
  "ready (a_add c t a) = ready a @ [t]" "waiting (a_add c t a) = waiting a" "zombies (a_add c t a) = zombies a"
  "sleeping (a_add c t a) = sleeping a" "others (a_add c t a) = others a"
  "datas (a_add c t a) = (datas a)(t := (datas a t)\<lparr>tState := ThreadStateReady, LastCpu := c\<rparr>)"
  by (simp_all add: a_add_def)

lemma selectors_simps [simp]:
  "Cooldown (selectors T) = Cooldown T" "tPriority (selectors T) = tPriority T" "WakeupTime (selectors T) = WakeupTime T"
  "tNext (selectors T) = tNext T" "tPrev (selectors T) = tPrev T" "selectors (selectors T) = selectors T"
  "data (selectors T) = selectors (data T)" "tType (selectors T) = tType T"
  by (simp_all add: selectors_def data_def)

definition cool :: "(u64 \<Rightarrow> Thread) \<Rightarrow> u64 \<Rightarrow> nat" where
  "cool d t = unat (Cooldown (d t))"

text \<open>One turn: the head of the queue, its cooldown not yet over, goes to the end.\<close>

definition turn :: "u32 \<Rightarrow> Thread \<Rightarrow> Thread" where
  "turn c T = (selectors T)\<lparr>Cooldown := Cooldown T - 1, tState := ThreadStateReady, LastCpu := c\<rparr>"

lemma cool_turn: "0 < Cooldown T \<Longrightarrow> Suc (unat (Cooldown (turn c T))) = unat (Cooldown T)"
  using unat_pred [of "Cooldown T"] by (simp add: turn_def word_gt_0)

text \<open>The loop, on the queue as a list.\<close>

function rotate_queue :: "u32 \<Rightarrow> u64 list \<Rightarrow> (u64 \<Rightarrow> Thread) \<Rightarrow> u64 \<times> u64 list \<times> (u64 \<Rightarrow> Thread)" where
  "rotate_queue c [] d = (0, [], d)"
| "rotate_queue c (t # ts) d =
     (if 0 < Cooldown (d t) then rotate_queue c (ts @ [t]) (d(t := turn c (d t)))
      else (t, ts, d(t := (selectors (d t))\<lparr>Cooldown := stride (tPriority (d t)) - 1\<rparr>)))"
  by pat_completeness auto

termination
proof (relation "measure (\<lambda>(c, ts, d). sum_list (map (cool d) ts))")
  fix c t ts and d :: "u64 \<Rightarrow> Thread"
  assume pos: "0 < Cooldown (d t)"
  let ?d = "d(t := turn c (d t))"
  have le: "cool ?d x \<le> cool d x" for x using cool_turn [OF pos, of c] by (auto simp: cool_def)
  have "sum_list (map (cool ?d) ts) \<le> sum_list (map (cool d) ts)" by (rule sum_list_mono) (rule le)
  moreover have "cool ?d t < cool d t" using cool_turn [OF pos, of c] by (simp add: cool_def)
  ultimately show "((c, ts @ [t], ?d), c, t # ts, d) \<in> measure (\<lambda>(c, ts, d). sum_list (map (cool d) ts))" by simp
qed simp

definition a_rotate :: "u32 \<Rightarrow> asched \<Rightarrow> u64 \<times> asched" where
  "a_rotate c a = (let (t, ts, d) = rotate_queue c (ready a) (datas a) in (t, a\<lparr>ready := ts, datas := d\<rparr>))"

definition a_select :: "u32 \<Rightarrow> asched \<Rightarrow> u64 \<times> asched" where
  "a_select c a = a_rotate c (a_cleanup (a_wake (SystemTicks (others a)) a))"

text \<open>A state in which nothing is to be woken or reaped.\<close>

definition settled :: "asched \<Rightarrow> bool" where
  "settled a \<longleftrightarrow> zombies a = [] \<and> (\<forall>t \<in> set (sleeping a). \<not> due (SystemTicks (others a)) a t)"

lemma a_wake_settled: "settled a \<Longrightarrow> a_wake (SystemTicks (others a)) a = a"
  by (rule asched.equality) (auto simp: settled_def a_wake_def a_wake_list_def filter_empty_conv fun_eq_iff)

lemma a_cleanup_settled: "settled a \<Longrightarrow> a_cleanup a = a"
  by (cases a) (simp add: settled_def a_cleanup_def)

lemma a_reap_simps [simp]:
  "ready (a_reap ts a) = ready a" "waiting (a_reap ts a) = waiting a" "zombies (a_reap ts a) = zombies a"
  "sleeping (a_reap ts a) = sleeping a" "SystemTicks (others (a_reap ts a)) = SystemTicks (others a)"
  by (induction ts arbitrary: a) (simp_all add: a_destroy_def)

lemma a_reap_wakeup [simp]: "WakeupTime (datas (a_reap ts a) x) = WakeupTime (datas a x)"
  by (induction ts arbitrary: a) (simp_all add: a_destroy_def)

lemma settled_start: "settled (a_cleanup (a_wake (SystemTicks (others a)) a))"
proof -
  have "\<not> WakeupTime (datas (a_wake_list ts a) x) \<le> k" if "\<not> due k a x" "x \<notin> set ts" for ts x k
    using that by (simp add: a_wake_list_def due_def)
  then show ?thesis by (auto simp: settled_def a_cleanup_def a_wake_def due_def)
qed

lemma sched_rep_ticks: "sched_rep c s a \<Longrightarrow> SystemTicks (others a) = SystemTicks s"
  by (simp add: sched_rep_def queues_rep_def)

lemma upd_thread_sched_rep:
  assumes "sched_rep c s a" "data (f (Threads s t)) = g (data (Threads s t))"
    and "t \<in> set (queued a) \<Longrightarrow> tNext (f (Threads s t)) = tNext (Threads s t) \<and> tPrev (f (Threads s t)) = tPrev (Threads s t)"
  shows "sched_rep c (upd_thread t f s) (a_upd t g a)"
  using assms upd_thread_rep [of c s a f t g] by (simp add: sched_rep_def)

text \<open>The loop after its two housekeeping calls.\<close>

definition select_rest :: "u32 \<Rightarrow> sched \<Rightarrow> (u64 \<times> sched) option" where
  "select_rest CpuId s = do {
     (Next, s) \<leftarrow> RemoveThreadFromReadyQueue CpuId s;
     if Next = 0 then Some (0, s)
     else
       (let s = upd_thread Next selectors s;
            Stride = stride (tPriority (Threads s Next))
        in if 0 < Cooldown (Threads s Next)
           then do {
             s \<leftarrow> AddThreadToReadyQueue CpuId Next (upd_thread Next (\<lambda>T. T\<lparr>Cooldown := Cooldown T - 1\<rparr>) s);
             SelectAgain CpuId s }
           else Some (Next, upd_thread Next (\<lambda>T. T\<lparr>Cooldown := Stride - 1\<rparr>) s)) }"

lemma SelectAgain_rest:
  "SelectAgain c s = do { s \<leftarrow> WakeupSleepingThreads c s; s \<leftarrow> CleanupZombieThreads c s; select_rest c s }"
  by (subst SelectAgain.simps) (simp add: select_rest_def [abs_def])

lemma SelectAgain_start:
  assumes R: "sched_rep c s a" and c: "c < MaxCPUs"
  obtains u where "SelectAgain c s = select_rest c u" "sched_rep c u (a_cleanup (a_wake (SystemTicks (others a)) a))"
proof -
  obtain v where v: "WakeupSleepingThreads c s = Some v" "sched_rep c v (a_wake (SystemTicks (others a)) a)"
    using WakeupSleepingThreads_rep [OF R c] sched_rep_ticks [OF R] by metis
  obtain w where w: "CleanupZombieThreads c v = Some w" "sched_rep c w (a_cleanup (a_wake (SystemTicks (others a)) a))"
    using CleanupZombieThreads_rep [OF v(2) c] by metis
  show ?thesis by (rule that [OF _ w(2)]) (simp add: SelectAgain_rest v(1) w(1))
qed

definition detached :: "u64 \<Rightarrow> sched \<Rightarrow> asched \<Rightarrow> bool" where
  "detached t s a \<longleftrightarrow> t \<notin> set (queued a) \<and> tPrev (Threads s t) = 0"

lemma select_rest_settled:
  assumes "sched_rep c s a" "settled a" "c < MaxCPUs" "length (queued a) < 2 ^ 32" "ready a = ts" "datas a = d"
  shows "\<exists>u. select_rest c s = Some (fst (a_rotate c a), u) \<and> sched_rep c u (snd (a_rotate c a)) \<and>
    (fst (a_rotate c a) \<noteq> 0 \<longrightarrow> detached (fst (a_rotate c a)) u (snd (a_rotate c a)))"
  using assms
proof (induction c ts d arbitrary: s a rule: rotate_queue.induct)
  case (1 c d)
  obtain u where u: "RemoveThreadFromReadyQueue c s = Some (0, u)" "sched_rep c u a"
    using RemoveThreadFromReadyQueue_empty [OF "1.prems"(1,3,5)] by metis
  have "a_rotate c a = (0, a)" using "1.prems"(5,6) by (cases a) (simp add: a_rotate_def)
  then show ?case using u by (simp add: select_rest_def)
next
  case (2 c t ts d)
  have "length (ready a) < 2 ^ 32" using "2.prems"(4) by simp
  then obtain u where u: "RemoveThreadFromReadyQueue c s = Some (t, u)" "sched_rep c u (a\<lparr>ready := ts\<rparr>)"
    "tNext (Threads u t) = 0" "tPrev (Threads u t) = 0"
    using RemoveThreadFromReadyQueue_rep [OF "2.prems"(1,3,5)] by metis
  let ?a = "a\<lparr>ready := ts\<rparr>"
  have dist: "distinct (queued a)" and nz: "0 \<notin> set (queued a)"
    using "2.prems"(1) queues_repD(5) queued_nonzero by (simp_all add: sched_rep_def) blast+
  have t: "t \<noteq> 0" "t \<notin> set (queued ?a)" using dist nz "2.prems"(5) by auto
  let ?s1 = "upd_thread t selectors u" and ?a1 = "a_upd t selectors ?a"
  have s1: "sched_rep c ?s1 ?a1" by (rule upd_thread_sched_rep [OF u(2)]) simp_all
  have "data (Threads u t) = d t" using u(2) "2.prems"(6) by (auto simp: sched_rep_def queues_rep_def fun_eq_iff)
  then have cd: "Cooldown (Threads u t) = Cooldown (d t)" "tPriority (Threads u t) = tPriority (d t)"
    using data_fields(3,5) [of "Threads u t"] by simp_all
  show ?case
  proof (cases "0 < Cooldown (d t)")
    case False
    let ?g = "\<lambda>T. T\<lparr>Cooldown := stride (tPriority (d t)) - 1\<rparr>"
    have r: "a_rotate c a = (t, a_upd t ?g ?a1)"
      using False "2.prems"(5,6) by (simp add: a_rotate_def)
    have "sched_rep c (upd_thread t ?g ?s1) (a_upd t ?g ?a1)" by (rule upd_thread_sched_rep [OF s1]) (simp_all add: data_def)
    then show ?thesis
      unfolding r using u(1,3,4) t cd False by (auto simp: Let_def select_rest_def detached_def)
  next
    case True
    let ?g = "\<lambda>T. T\<lparr>Cooldown := Cooldown T - 1\<rparr>"
    let ?s2 = "upd_thread t ?g ?s1" and ?a2 = "a_upd t ?g ?a1"
    have s2: "sched_rep c ?s2 ?a2" by (rule upd_thread_sched_rep [OF s1]) (simp_all add: data_def)
    obtain x where x: "AddThreadToReadyQueue c t ?s2 = Some x" "sched_rep c x (a_add c t ?a2)"
      by (rule AddThreadToReadyQueue_rep [OF s2 "2.prems"(3) t(1)]) (use t(2) in auto)
    have dd: "datas (a_add c t ?a2) = d(t := turn c (d t))" using "2.prems"(6) by (simp add: turn_def)
    have st: "settled (a_add c t ?a2)" using "2.prems"(2) t(2) by (auto simp: settled_def due_def)
    have r: "a_rotate c a = a_rotate c (a_add c t ?a2)"
      using True "2.prems"(5,6) dd by (simp add: a_rotate_def case_prod_beta a_add_def)
    obtain y where y: "SelectAgain c x = select_rest c y" "sched_rep c y (a_add c t ?a2)"
      using SelectAgain_start [OF x(2) "2.prems"(3)] a_wake_settled [OF st] a_cleanup_settled [OF st] by metis
    have sel: "select_rest c s = select_rest c y"
      using u(1) t(1) cd x(1) y(1) True by (simp add: Let_def select_rest_def [of c s])
    show ?thesis
      unfolding r sel by (rule "2.IH" [OF True y(2) st "2.prems"(3) _ _ dd]) (use "2.prems"(4,5) in simp_all)
  qed
qed

lemma length_filter_not: "length (filter P xs) + length (filter (\<lambda>x. \<not> P x) xs) = length xs"
  by (induction xs) auto

lemma SelectAgain_rep:
  assumes R: "sched_rep c s a" and c: "c < MaxCPUs" and len: "length (queued a) < 2 ^ 32"
  obtains u where "SelectAgain c s = Some (fst (a_select c a), u)" "sched_rep c u (snd (a_select c a))"
    "fst (a_select c a) \<noteq> 0 \<longrightarrow> detached (fst (a_select c a)) u (snd (a_select c a))"
proof -
  let ?b = "a_cleanup (a_wake (SystemTicks (others a)) a)"
  obtain v where v: "SelectAgain c s = select_rest c v" "sched_rep c v ?b" by (rule SelectAgain_start [OF R c])
  have "length (queued ?b) < 2 ^ 32"
    using len length_filter_not [of "due (SystemTicks (others a)) a" "sleeping a"] by (simp add: a_cleanup_def a_wake_def)
  then have "\<exists>u. select_rest c v = Some (fst (a_rotate c ?b), u) \<and> sched_rep c u (snd (a_rotate c ?b)) \<and>
    (fst (a_rotate c ?b) \<noteq> 0 \<longrightarrow> detached (fst (a_rotate c ?b)) u (snd (a_rotate c ?b)))"
    by (rule select_rest_settled [OF v(2) settled_start c _ refl refl])
  then show ?thesis using that v(1) by (auto simp: a_select_def)
qed

section \<open>Schedule\<close>

definition saved :: "u8 list \<Rightarrow> InterruptFrame \<Rightarrow> Thread \<Rightarrow> Thread" where
  "saved fpu f T = T\<lparr>tContext := frame_context f ((tContext T)\<lparr>FpuState := fpu\<rparr>), CpuTime := CpuTime T + 1\<rparr>"

definition a_put_away :: "u32 \<Rightarrow> u64 \<Rightarrow> asched \<Rightarrow> asched" where
  "a_put_away c t a =
     (case tState (datas a t) of
        ThreadStateTerminated \<Rightarrow> a_bury c t a
      | ThreadStateBlocked \<Rightarrow> a_wait t a
      | ThreadStateSleeping \<Rightarrow> a_sleep t a
      | _ \<Rightarrow> a_add c t a)"

definition a_dispatch :: "u32 \<Rightarrow> u64 \<Rightarrow> asched \<Rightarrow> asched" where
  "a_dispatch c t a =
     (let T = datas a t; o1 = others a in a\<lparr>
        datas := (datas a)(t := T\<lparr>tState := ThreadStateRunning, LastCpu := c, StartTime := SystemTicks o1,
                    tContextSwitches := tContextSwitches T + 1\<rparr>),
        others := (upd_cpu c (\<lambda>C. C\<lparr>CurrentThread := t, sContextSwitches := sContextSwitches C + 1\<rparr>) o1)
          \<lparr>Cr3 := (if PageDirectory T \<noteq> 0 then PageDirectory T else Cr3 o1), Fpu := FpuState (tContext T),
           CurrentThreads := (CurrentThreads o1)(c := t)\<rparr>\<rparr>)"

definition a_schedule :: "u32 \<Rightarrow> InterruptFrame \<Rightarrow> asched \<Rightarrow> InterruptFrame \<times> asched" where
  "a_schedule c f a =
     (let Current = CurrentThread (CpuSchedulers (others a) c);
          a = a\<lparr>others := upd_cpu c (\<lambda>C. C\<lparr>ScheduleTicks := ScheduleTicks C + 1, LastSchedule := SystemTicks (others a)\<rparr>) (others a)\<rparr>;
          a = (if Current \<noteq> 0 then a_put_away c Current (a_upd Current (saved (Fpu (others a)) f) a) else a);
          (t, a) = a_select c a
      in if t = 0
         then (f, a\<lparr>others := upd_cpu c (\<lambda>C. C\<lparr>CurrentThread := 0, IdleTicks := IdleTicks C + 1\<rparr>) (others a)\<rparr>)
         else (context_frame (tContext (datas a t)) f, a_dispatch c t a))"

lemma switch_out_rep:
  assumes R: "sched_rep c s a" and c: "c < MaxCPUs" and t: "t \<noteq> 0" "t \<notin> set (queued a)"
    and p: "tState (Threads s t) = ThreadStateTerminated \<longrightarrow> tPrev (Threads s t) = 0"
  obtains u where "switch_out c t f s = Some u" "sched_rep c u (a_put_away c t (a_upd t (saved (Fpu s) f) a))"
proof -
  let ?g = "saved (Fpu s) f"
  let ?s = "upd_thread t (\<lambda>T. T\<lparr>CpuTime := CpuTime T + 1\<rparr>) (SaveInterruptFrameToThread t f
              (upd_thread t (\<lambda>T. T\<lparr>tContext := (tContext T)\<lparr>FpuState := Fpu s\<rparr>\<rparr>) s))"
  have eq: "?s = upd_thread t ?g s" using t(1) by (simp add: SaveInterruptFrameToThread_def upd_thread_def saved_def)
  let ?a = "a_upd t ?g a"
  have R1: "sched_rep c (upd_thread t ?g s) ?a" by (rule upd_thread_sched_rep [OF R]) (use t in \<open>auto simp: saved_def data_def\<close>)
  have t1: "t \<notin> set (queued ?a)" using t by simp
  have st: "tState (datas ?a t) = tState (Threads s t)" "tState (saved (Fpu s) f (Threads s t)) = tState (Threads s t)"
    "tPrev (Threads (upd_thread t ?g s) t) = tPrev (Threads s t)" "tState (saved (Fpu s) f (datas a t)) = tState (Threads s t)"
    using R by (simp_all add: sched_rep_def queues_rep_def saved_def)
  have sw: "switch_out c t f s = (case tState (Threads s t) of
           ThreadStateRunning \<Rightarrow> AddThreadToReadyQueue c t (upd_thread t ?g s)
         | ThreadStateTerminated \<Rightarrow> AddThreadToZombieQueue c t (upd_thread t ?g s)
         | ThreadStateBlocked \<Rightarrow> AddThreadToWaitingQueue c t (upd_thread t ?g s)
         | ThreadStateSleeping \<Rightarrow> AddThreadToSleepingQueue c t (upd_thread t ?g s)
         | ThreadStateReady \<Rightarrow> AddThreadToReadyQueue c t (upd_thread t ?g s)
         | ThreadStateZombie \<Rightarrow>
             AddThreadToReadyQueue c t (upd_thread t (\<lambda>T. T\<lparr>tState := ThreadStateReady\<rparr>) (upd_thread t ?g s)))"
    unfolding switch_out_def Let_def eq by (simp add: st(2))
  show ?thesis
  proof (cases "tState (Threads s t)")
    case ThreadStateZombie
    let ?h = "\<lambda>T. T\<lparr>tState := ThreadStateReady\<rparr>"
    have R2: "sched_rep c (upd_thread t ?h (upd_thread t ?g s)) (a_upd t ?h ?a)"
      by (rule upd_thread_sched_rep [OF R1]) (simp_all add: data_def)
    have "a_add c t (a_upd t ?h ?a) = a_add c t ?a" by (simp add: a_add_def)
    then have "a_put_away c t ?a = a_add c t (a_upd t ?h ?a)" using st ThreadStateZombie by (simp add: a_put_away_def)
    moreover have "t \<notin> set (queued (a_upd t ?h ?a))" using t1 by simp
    ultimately obtain u where "AddThreadToReadyQueue c t (upd_thread t ?h (upd_thread t ?g s)) = Some u"
      "sched_rep c u (a_put_away c t ?a)"
      using AddThreadToReadyQueue_rep [OF R2 c t(1)] by metis
    then show ?thesis by (intro that) (simp_all add: sw ThreadStateZombie)
  next
    case ThreadStateReady
    show ?thesis by (rule AddThreadToReadyQueue_rep [OF R1 c t(1) t1], rule that) (simp_all add: sw a_put_away_def st ThreadStateReady)
  next
    case ThreadStateRunning
    show ?thesis by (rule AddThreadToReadyQueue_rep [OF R1 c t(1) t1], rule that) (simp_all add: sw a_put_away_def st ThreadStateRunning)
  next
    case ThreadStateBlocked
    show ?thesis by (rule AddThreadToWaitingQueue_rep [OF R1 c t(1) t1], rule that) (simp_all add: sw a_put_away_def st ThreadStateBlocked)
  next
    case ThreadStateSleeping
    show ?thesis by (rule AddThreadToSleepingQueue_rep [OF R1 c t(1) t1], rule that) (simp_all add: sw a_put_away_def st ThreadStateSleeping)
  next
    case ThreadStateTerminated
    then have p0: "tPrev (Threads (upd_thread t ?g s) t) = 0" using p st(3) by simp
    show ?thesis
      by (rule AddThreadToZombieQueue_rep [OF R1 c t(1) t1 p0], rule that) (simp_all add: sw a_put_away_def st ThreadStateTerminated)
  qed
qed

lemma lock_current_free:
  assumes "locks_free s" "c < MaxCPUs"
  obtains u where "SetCurrentThread c t s = Some u"
    "Threads u = Threads s" "CpuSchedulers u = CpuSchedulers s" "locks_free u"
    "\<And>d. outer d u = (outer d s)\<lparr>CurrentThreads := (CurrentThreads s)(c := t)\<rparr>"
proof (rule that)
  let ?f = "SchedFlags s" and ?c = "ThisCpu s"
  let ?L = "(CurrentThreadLock s)\<lparr>SpinLock_Lock := 0, SpinLock_CpuId := NoOwner\<rparr>"
  let ?F = "?f\<lparr>RFlags := RFlags ?f, SavedFlags := (SavedFlags ?f)(?c := RFlags ?f ?c)\<rparr>"
  let ?u = "s\<lparr>CurrentThreadLock := ?L, SchedFlags := ?F, CurrentThreads := (CurrentThreads s)(c := t)\<rparr>"
  show "SetCurrentThread c t s = Some ?u"
    using assms(2) by (simp add: SetCurrentThread_def lock_current_def unlock_current_def AcquireSpinLock_def ReleaseSpinLock_def
        Let_def locks_freeD [OF assms(1)] not_le fun_upd_idem)
  show "outer d ?u = (outer d s)\<lparr>CurrentThreads := (CurrentThreads s)(c := t)\<rparr>" for d by (simp add: outer_def)
  show "locks_free ?u" using assms(1) by (simp add: locks_free_def)
qed simp_all

lemma switch_in_rep:
  assumes R: "sched_rep c s a" and c: "c < MaxCPUs" and t: "t \<noteq> 0" "t \<notin> set (queued a)"
  obtains u where "switch_in c t f s = Some (context_frame (tContext (datas a t)) f, u)" "sched_rep c u (a_dispatch c t a)"
    "Threads u = (Threads s)(t := (Threads s t)\<lparr>tState := ThreadStateRunning, LastCpu := c, StartTime := SystemTicks s,
       tContextSwitches := tContextSwitches (Threads s t) + 1\<rparr>)"
proof -
  have L: "locks_free s" and r: "queues_rep c s a" using R by (simp_all add: sched_rep_def)
  let ?g = "\<lambda>T. T\<lparr>tState := ThreadStateRunning, LastCpu := c, StartTime := SystemTicks s, tContextSwitches := tContextSwitches T + 1\<rparr>"
  let ?C = "\<lambda>C. C\<lparr>CurrentThread := t, sContextSwitches := sContextSwitches C + 1\<rparr>"
  let ?pd = "if PageDirectory (Threads s t) \<noteq> 0 then PageDirectory (Threads s t) else Cr3 s"
  let ?v = "(upd_thread t ?g (upd_cpu c ?C s))\<lparr>Cr3 := ?pd, Fpu := FpuState (tContext (Threads s t))\<rparr>"
  have Lv: "locks_free ?v" using L by (simp add: locks_free_def)
  obtain u where u: "SetCurrentThread c t ?v = Some u" "Threads u = Threads ?v" "CpuSchedulers u = CpuSchedulers ?v"
    "locks_free u" "\<And>d. outer d u = (outer d ?v)\<lparr>CurrentThreads := (CurrentThreads ?v)(c := t)\<rparr>"
    by (rule lock_current_free [OF Lv c]) blast
  have d: "data (Threads s t) = datas a t" using queues_repD(8) [OF r] by simp
  have td: "tContext (Threads s t) = tContext (datas a t)" "PageDirectory (Threads s t) = PageDirectory (datas a t)"
    using d data_fields(4,10) [of "Threads s t"] by simp_all
  show ?thesis
  proof (rule that)
    show "switch_in c t f s = Some (context_frame (tContext (datas a t)) f, u)"
      using u(1) t(1) td
      by (cases "PageDirectory (Threads s t) = 0") (simp_all add: switch_in_def LoadThreadContextToInterruptFrame_def Let_def upd_thread_def upd_cpu_def GetSystemTicks_def)
    have g: "outer c (upd_cpu c ?C s) = upd_cpu c ?C (outer c s)" by (rule outer_upd_other) (simp add: blank_queues_def)
    have o2: "outer c (x\<lparr>Cr3 := p, Fpu := q\<rparr>) = (outer c x)\<lparr>Cr3 := p, Fpu := q\<rparr>" for x p q by (simp add: outer_def)
    have "outer c u = others (a_dispatch c t a)"
      using g td queues_repD(9) [OF r] by (simp add: u(5) o2 a_dispatch_def Let_def) (simp add: outer_def upd_cpu_def)
    moreover have "queues_rep c (upd_thread t ?g s) (a_upd t ?g a)"
      by (rule upd_thread_rep [OF r]) (use t in \<open>auto simp: data_def\<close>)
    ultimately show "sched_rep c u (a_dispatch c t a)"
      using u(2-4) d queues_repD(9) [OF r] by (auto simp: sched_rep_def queues_rep_def a_dispatch_def Let_def outer_def)
  qed (use u in simp)
qed

end
