(* ===== verification/ThreadSched.thy ===== *)
theory ThreadSched
  imports ThreadQueues
begin

text \<open>One step of the scheduler on the lists, the timer interrupt as a step of a driven machine (locale \<open>driven\<close>), and
  the measure by which a ready thread comes closer to running at each interrupt.\<close>

lemma others_simps:
  assumes "sched_rep c s a"
  shows "CurrentThread (CpuSchedulers (others a) c) = CurrentThread (CpuSchedulers s c)" "Fpu (others a) = Fpu s"
    "SystemTicks (others a) = SystemTicks s" "datas a t = data (Threads s t)" "PageDirectory (datas a t) = PageDirectory (Threads s t)"
  using assms by (simp_all add: sched_rep_def queues_rep_def outer_def outer_cpus_def blank_queues_def)

lemma sched_rep_upd_cpu:
  assumes "sched_rep c s a" "\<And>C. blank_queues (g C) = g (blank_queues C)"
    "\<And>C. SchedulerLock (g C) = SchedulerLock C" "\<And>C. ReadyQueue (g C) = ReadyQueue C" "\<And>C. WaitingQueue (g C) = WaitingQueue C"
    "\<And>C. ZombieQueue (g C) = ZombieQueue C" "\<And>C. SleepingQueue (g C) = SleepingQueue C" "\<And>C. ReadyCount (g C) = ReadyCount C"
  shows "sched_rep c (upd_cpu c g s) (a\<lparr>others := upd_cpu c g (others a)\<rparr>)"
proof -
  have "outer c (upd_cpu c g s) = upd_cpu c g (outer c s)" by (rule outer_upd_other) (rule assms(2))
  then show ?thesis using assms by (simp add: sched_rep_def queues_rep_def locks_free_upd_cpu)
qed

text \<open>The scheduler between two interrupts: the running thread is in no queue, and there are fewer than
  \<open>2 ^ 32\<close> threads, so that the 32-bit count of ready threads is exact.\<close>

definition sched_ok :: "u32 \<Rightarrow> sched \<Rightarrow> asched \<Rightarrow> bool" where
  "sched_ok c s a \<longleftrightarrow> sched_rep c s a \<and>
     (if CurrentThread (CpuSchedulers s c) = 0 then length (queued a) < 2 ^ 32
      else length (queued a) + 1 < 2 ^ 32 \<and> detached (CurrentThread (CpuSchedulers s c)) s a)"

lemma a_put_away_length: "length (queued (a_put_away c t a)) = length (queued a) + 1"
  by (simp add: a_put_away_def a_wait_def a_sleep_def a_bury_def split: ThreadState.splits)

lemma rotate_queue_length:
  "rotate_queue c ts d = (t, us, e) \<Longrightarrow> (if ts = [] then t = 0 \<and> us = [] else t \<in> set ts \<and> set us \<subseteq> set ts \<and> length ts = Suc (length us))"
  by (induction c ts d arbitrary: t us e rule: rotate_queue.induct) (fastforce split: if_splits)+

lemma a_select_length: "length (queued (snd (a_select c a))) \<le> length (queued a)"
  "fst (a_select c a) \<noteq> 0 \<Longrightarrow> length (queued (snd (a_select c a))) < length (queued a)"
proof -
  let ?k = "SystemTicks (others a)" let ?b = "a_cleanup (a_wake ?k a)"
  obtain t us e where r: "rotate_queue c (ready ?b) (datas ?b) = (t, us, e)" by (metis prod_cases3)
  have s: "a_select c a = (t, ?b\<lparr>ready := us, datas := e\<rparr>)" by (simp add: a_select_def a_rotate_def r)
  have "length (queued ?b) \<le> length (queued a)"
    using length_filter_not [of "due ?k a" "sleeping a"] by (simp add: a_cleanup_def a_wake_def)
  then show "length (queued (snd (a_select c a))) \<le> length (queued a)"
    "fst (a_select c a) \<noteq> 0 \<Longrightarrow> length (queued (snd (a_select c a))) < length (queued a)"
    using rotate_queue_length [OF r] s by (auto split: if_splits)
qed

lemma Schedule_step:
  assumes ok: "sched_ok c s a" and c: "c < MaxCPUs"
  obtains u where "Schedule c f s = Some (fst (a_schedule c f a), u)" "sched_ok c u (snd (a_schedule c f a))"
proof -
  have R: "sched_rep c s a" using ok by (simp add: sched_ok_def)
  let ?t = "CurrentThread (CpuSchedulers s c)"
  have cur: "?t \<noteq> 0 \<Longrightarrow> detached ?t s a" using ok by (simp add: sched_ok_def)
  let ?g = "\<lambda>C. C\<lparr>ScheduleTicks := ScheduleTicks C + 1, LastSchedule := SystemTicks s\<rparr>"
  let ?s = "upd_cpu c ?g s" and ?a = "a\<lparr>others := upd_cpu c ?g (others a)\<rparr>"
  have R1: "sched_rep c ?s ?a" by (rule sched_rep_upd_cpu [OF R]) (simp_all add: blank_queues_def)
  let ?b = "if ?t \<noteq> 0 then a_put_away c ?t (a_upd ?t (saved (Fpu s) f) ?a) else ?a"
  have "\<exists>v. (if ?t \<noteq> 0 then switch_out c ?t f ?s else Some ?s) = Some v \<and> sched_rep c v ?b"
  proof (cases "?t = 0")
    case True
    then show ?thesis using R1 by simp
  next
    case False
    then have d: "?t \<notin> set (queued ?a)" "tPrev (Threads ?s ?t) = 0" using cur by (simp_all add: detached_def)
    obtain v where "switch_out c ?t f ?s = Some v" "sched_rep c v (a_put_away c ?t (a_upd ?t (saved (Fpu ?s) f) ?a))"
      by (rule switch_out_rep [OF R1 c False d(1)]) (use d(2) in simp)
    then show ?thesis using False by simp
  qed
  then obtain v where v: "(if ?t \<noteq> 0 then switch_out c ?t f ?s else Some ?s) = Some v" "sched_rep c v ?b" by blast
  have lb: "length (queued ?b) < 2 ^ 32" using ok by (auto simp: sched_ok_def a_put_away_length simp del: length_append split: if_splits)
  obtain n b where sel: "a_select c ?b = (n, b)" by (cases "a_select c ?b")
  obtain w where w: "SelectAgain c v = Some (n, w)" "sched_rep c w b" "n \<noteq> 0 \<longrightarrow> detached n w b"
    using SelectAgain_rep [OF v(2) c lb] sel by auto
  have lc: "length (queued b) \<le> length (queued ?b)" "n \<noteq> 0 \<Longrightarrow> length (queued b) < length (queued ?b)"
    using a_select_length [of c ?b] sel by simp_all
  have tk: "SystemTicks (others a) = SystemTicks s" "Fpu (others a) = Fpu s"
    "CurrentThread (CpuSchedulers (others a) c) = ?t" using others_simps [OF R] by simp_all
  have ab: "a_schedule c f a =
     (if n = 0 then (f, b\<lparr>others := upd_cpu c (\<lambda>C. C\<lparr>CurrentThread := 0, IdleTicks := IdleTicks C + 1\<rparr>) (others b)\<rparr>)
      else (context_frame (tContext (datas b n)) f, a_dispatch c n b))"
    using sel by (cases "?t = 0") (simp_all add: a_schedule_def Let_def tk)
  have sch: "Schedule c f s = (if n = 0
       then Some (f, upd_cpu c (\<lambda>C. C\<lparr>CurrentThread := 0, IdleTicks := IdleTicks C + 1\<rparr>) w) else switch_in c n f w)"
    using c [unfolded not_le [symmetric]] v(1) w(1) by (simp add: Schedule_def Let_def GetSystemTicks_def del: not_le)
  show ?thesis
  proof (cases "n = 0")
    case True
    let ?h = "\<lambda>C. C\<lparr>CurrentThread := 0, IdleTicks := IdleTicks C + 1\<rparr>"
    have "sched_rep c (upd_cpu c ?h w) (b\<lparr>others := upd_cpu c ?h (others b)\<rparr>)"
      by (rule sched_rep_upd_cpu [OF w(2)]) (simp_all add: blank_queues_def)
    moreover have "length (queued b) < 2 ^ 32" using lc(1) lb by simp
    ultimately show ?thesis using that [of "upd_cpu c ?h w"] sch ab True by (simp add: sched_ok_def)
  next
    case False
    then have d: "detached n w b" using w(3) by simp
    then have nq: "n \<notin> set (queued b)" by (simp add: detached_def)
    obtain u where u: "switch_in c n f w = Some (context_frame (tContext (datas b n)) f, u)" "sched_rep c u (a_dispatch c n b)"
      "Threads u = (Threads w)(n := (Threads w n)\<lparr>tState := ThreadStateRunning, LastCpu := c, StartTime := SystemTicks w,
         tContextSwitches := tContextSwitches (Threads w n) + 1\<rparr>)"
      by (rule switch_in_rep [OF w(2) c False nq])
    have q: "queued (a_dispatch c n b) = queued b" by (simp add: a_dispatch_def Let_def)
    have "CurrentThread (CpuSchedulers u c) = n"
      using others_simps(1) [OF u(2)] by (simp add: a_dispatch_def Let_def)
    moreover have "length (queued b) + 1 < 2 ^ 32" using lc(2) [OF False] lb by linarith
    moreover have "detached n u (a_dispatch c n b)" using d u(3) q by (simp add: detached_def)
    ultimately have "sched_ok c u (a_dispatch c n b)" using u(2) False unfolding sched_ok_def q by simp
    then show ?thesis using that [of u] sch ab u(1) False by simp
  qed
qed


section \<open>The selection in closed form\<close>

definition start :: "Thread \<Rightarrow> Thread" where
  "start T = (selectors T)\<lparr>Cooldown := stride (tPriority T) - 1\<rparr>"

lemma rotate_queue_Cons:
  "rotate_queue c (t # ts) d =
     (if 0 < Cooldown (d t) then rotate_queue c (ts @ [t]) (d(t := turn c (d t))) else (t, ts, d(t := start (d t))))"
  by (simp add: start_def)

lemma rotate_prefix:
  assumes "\<forall>x \<in> set xs. 0 < Cooldown (d x)" "distinct xs"
  shows "rotate_queue c (xs @ rest) d = rotate_queue c (rest @ xs) (\<lambda>x. if x \<in> set xs then turn c (d x) else d x)"
  using assms
proof (induction xs arbitrary: rest d)
  case (Cons x xs)
  let ?d = "d(x := turn c (d x))"
  have "rotate_queue c ((x # xs) @ rest) d = rotate_queue c (xs @ rest @ [x]) ?d"
    using Cons.prems by (simp add: rotate_queue_Cons del: rotate_queue.simps)
  also have "\<dots> = rotate_queue c ((rest @ [x]) @ xs) (\<lambda>y. if y \<in> set xs then turn c (?d y) else ?d y)"
    by (rule Cons.IH) (use Cons.prems in auto)
  also have "(\<lambda>y. if y \<in> set xs then turn c (?d y) else ?d y) = (\<lambda>y. if y \<in> set (x # xs) then turn c (d y) else d y)"
    using Cons.prems(2) by auto
  finally show ?case by simp
qed simp

definition after_select :: "u32 \<Rightarrow> nat \<Rightarrow> u64 list \<Rightarrow> u64 \<Rightarrow> u64 list \<Rightarrow> (u64 \<Rightarrow> Thread) \<Rightarrow> u64 \<Rightarrow> Thread" where
  "after_select c m xs t ys d x =
     (if x = t then start ((turn c ^^ m) (d t))
      else if x \<in> set xs then (turn c ^^ Suc m) (d x)
      else if x \<in> set ys then (turn c ^^ m) (d x) else d x)"

lemma rotate_queue_min:
  assumes "distinct (xs @ t # ys)" "cool d t = m" "\<forall>x \<in> set xs. m < cool d x" "\<forall>y \<in> set ys. m \<le> cool d y"
  shows "rotate_queue c (xs @ t # ys) d = (t, ys @ xs, after_select c m xs t ys d)"
  using assms
proof (induction m arbitrary: d)
  case 0
  have pos: "\<forall>x \<in> set xs. 0 < Cooldown (d x)" using "0.prems"(3) by (simp add: cool_def word_gt_0_no word_less_nat_alt)
  have z: "Cooldown (d t) = 0" using "0.prems"(2) by (simp add: cool_def unsigned_eq_0_iff)
  have "rotate_queue c (xs @ t # ys) d = rotate_queue c ((t # ys) @ xs) (\<lambda>x. if x \<in> set xs then turn c (d x) else d x)"
    by (rule rotate_prefix) (use pos "0.prems"(1) in auto)
  moreover have "t \<notin> set xs" using "0.prems"(1) by simp
  ultimately show ?case
    using z by (simp add: rotate_queue_Cons after_select_def fun_eq_iff del: rotate_queue.simps)
next
  case (Suc m)
  let ?ts = "xs @ t # ys" let ?d = "\<lambda>x. if x \<in> set ?ts then turn c (d x) else d x"
  have pos: "\<forall>x \<in> set ?ts. 0 < Cooldown (d x)"
    using Suc.prems(2-4) by (fastforce simp: cool_def word_less_nat_alt)
  have dec: "Suc (cool ?d x) = cool d x" if "x \<in> set ?ts" for x
      using cool_turn [OF pos [rule_format, OF that], of c] that by (simp add: cool_def)
  have "rotate_queue c (?ts @ []) d = rotate_queue c ([] @ ?ts) ?d"
    by (rule rotate_prefix [OF pos Suc.prems(1)])
  also have "\<dots> = (t, ys @ xs, after_select c m xs t ys ?d)"
    unfolding append_Nil
  proof (rule Suc.IH [OF Suc.prems(1)])
    show "cool ?d t = m" using dec [of t] Suc.prems(2) by simp
    have "Suc (cool ?d x) = cool d x" "Suc m < cool d x" if "x \<in> set xs" for x
      using dec [of x] Suc.prems(3) that by simp_all
    then show "\<forall>x \<in> set xs. m < cool ?d x" by fastforce
    have "Suc (cool ?d x) = cool d x" "Suc m \<le> cool d x" if "x \<in> set ys" for x
      using dec [of x] Suc.prems(4) that by simp_all
    then show "\<forall>y \<in> set ys. m \<le> cool ?d y" by fastforce
  qed
  also have "after_select c m xs t ys ?d = after_select c (Suc m) xs t ys d"
    using Suc.prems(1) by (auto simp: after_select_def fun_eq_iff funpow_swap1)
  finally show ?case by simp
qed

text \<open>Every non-empty queue has that shape.\<close>

lemma first_min:
  fixes f :: "'b \<Rightarrow> nat"
  assumes "ts \<noteq> []"
  obtains xs t ys where "ts = xs @ t # ys" "\<forall>x \<in> set xs. f t < f x" "\<forall>y \<in> set ys. f t \<le> f y"
proof -
  have "\<exists>xs t ys. ts = xs @ t # ys \<and> (\<forall>x \<in> set xs. f t < f x) \<and> (\<forall>y \<in> set ys. f t \<le> f y)"
    using assms
  proof (induction ts)
    case (Cons a ts)
    show ?case
    proof (cases "ts = []")
      case False
      then obtain xs t ys where e: "ts = xs @ t # ys" "\<forall>x \<in> set xs. f t < f x" "\<forall>y \<in> set ys. f t \<le> f y"
        using Cons.IH by blast
      show ?thesis
      proof (cases "f a \<le> f t")
        case True
        then have "a # ts = [] @ a # ts \<and> (\<forall>x \<in> set []. f a < f x) \<and> (\<forall>y \<in> set ts. f a \<le> f y)"
          using e by force
        then show ?thesis by blast
      next
        case f: False
        then have "a # ts = (a # xs) @ t # ys \<and> (\<forall>x \<in> set (a # xs). f t < f x) \<and> (\<forall>y \<in> set ys. f t \<le> f y)"
          using e by simp
        then show ?thesis by blast
      qed
    qed force
  qed simp
  then show ?thesis using that by blast
qed

section \<open>The timer interrupt\<close>

definition tick :: "sched \<Rightarrow> sched" where
  "tick s = s\<lparr>CpuDataArray := (CpuDataArray s)(ThisCpu s := (CpuDataArray s (ThisCpu s))
                \<lparr>LocalInterrupts := LocalInterrupts (CpuDataArray s (ThisCpu s)) + 1,
                 LocalTicks := LocalTicks (CpuDataArray s (ThisCpu s)) + 1\<rparr>),
              TimerInterruptCount := TimerInterruptCount s + 1,
              SystemTicks := SystemTicks s + 1\<rparr>"

definition eoi :: "u32 \<Rightarrow> sched \<Rightarrow> sched" where
  "eoi c s = s\<lparr>MmioWrites := MmioWrites s @ [(ApicBase (CpuDataArray s c) + TimerApicRegEoi, 0)]\<rparr>"

definition a_timer :: "u32 \<Rightarrow> InterruptFrame \<Rightarrow> asched \<Rightarrow> InterruptFrame \<times> asched" where
  "a_timer c f a =
     (let a = a\<lparr>others := tick (others a)\<rparr>;
          (f, a) = a_schedule c f (a_wake (SystemTicks (others a)) a)
      in (f, a\<lparr>others := eoi c (others a)\<rparr>))"

lemma outer_tick [simp]: "outer c (tick s) = tick (outer c s)" "outer c (eoi d s) = eoi d (outer c s)"
  by (simp_all add: outer_def tick_def eoi_def)

lemma tick_simps [simp]:
  "Threads (tick s) = Threads s" "CpuSchedulers (tick s) = CpuSchedulers s" "ThisCpu (tick s) = ThisCpu s"
  "locks_free (tick s) = locks_free s" "SystemTicks (tick s) = SystemTicks s + 1" "Heap (tick s) = Heap s"
  "Threads (eoi c s) = Threads s" "CpuSchedulers (eoi c s) = CpuSchedulers s" "ThisCpu (eoi c s) = ThisCpu s"
  "locks_free (eoi c s) = locks_free s" "SystemTicks (eoi c s) = SystemTicks s" "Heap (eoi c s) = Heap s"
  by (simp_all add: tick_def eoi_def locks_free_def)

lemma sched_rep_tick:
  "sched_rep c s a \<Longrightarrow> sched_rep c (tick s) (a\<lparr>others := tick (others a)\<rparr>)"
  "sched_rep c s a \<Longrightarrow> sched_rep c (eoi d s) (a\<lparr>others := eoi d (others a)\<rparr>)"
  by (simp_all add: sched_rep_def queues_rep_def)

lemma sched_ok_tick:
  "sched_ok c s a \<Longrightarrow> sched_ok c (tick s) (a\<lparr>others := tick (others a)\<rparr>)"
  "sched_ok c s a \<Longrightarrow> sched_ok c (eoi d s) (a\<lparr>others := eoi d (others a)\<rparr>)"
  by (simp_all add: sched_ok_def sched_rep_tick detached_def split: if_splits)

lemma a_wake_queued: "set (queued (a_wake k a)) = set (queued a)" "length (queued (a_wake k a)) = length (queued a)"
  using length_filter_not [of "due k a" "sleeping a"] by (auto simp: a_wake_def)

lemma a_wake_others [simp]: "others (a_wake k a) = others a"
  by (simp add: a_wake_def)

lemma WakeupSleepingThreads_ok:
  assumes ok: "sched_ok c s a" and c: "c < MaxCPUs"
  obtains u where "WakeupSleepingThreads c s = Some u" "sched_ok c u (a_wake (SystemTicks s) a)"
proof -
  have R: "sched_rep c s a" using ok by (simp add: sched_ok_def)
  obtain u where u: "WakeupSleepingThreads c s = Some u" "sched_rep c u (a_wake (SystemTicks s) a)"
    "\<forall>y. y \<notin> set (sleeping a) \<longrightarrow> tPrev (Threads u y) = tPrev (Threads s y)"
    by (rule WakeupSleepingThreads_rep [OF R c])
  have cur: "CurrentThread (CpuSchedulers u c) = CurrentThread (CpuSchedulers s c)"
    using others_simps(1) [OF u(2)] others_simps(1) [OF R] by simp
  have "detached t u (a_wake (SystemTicks s) a)" if "detached t s a" for t
    using that u(3) by (auto simp only: detached_def a_wake_queued) simp
  then have "sched_ok c u (a_wake (SystemTicks s) a)"
    using ok u(2) unfolding sched_ok_def cur a_wake_queued by (auto split: if_splits)
  then show ?thesis using that u(1) by blast
qed

lemma ThisCpu_rep: "sched_rep c s a \<Longrightarrow> ThisCpu (others a) = ThisCpu s"
  by (simp add: sched_rep_def queues_rep_def outer_def)

lemma a_put_away_ThisCpu [simp]: "ThisCpu (others (a_put_away c t a)) = ThisCpu (others a)"
  by (simp add: a_put_away_def a_wait_def a_sleep_def a_bury_def split: ThreadState.split)

lemma a_reap_ThisCpu [simp]: "ThisCpu (others (a_reap ts a)) = ThisCpu (others a)"
  by (induction ts arbitrary: a) (simp_all add: a_destroy_def)

lemma a_select_ThisCpu: "a_select c a = (t, b) \<Longrightarrow> ThisCpu (others b) = ThisCpu (others a)"
  by (auto simp: a_select_def a_rotate_def a_cleanup_def split: prod.splits)

lemma a_schedule_ThisCpu: "ThisCpu (others (snd (a_schedule c f a))) = ThisCpu (others a)"
  by (auto simp: a_schedule_def Let_def a_dispatch_def dest!: a_select_ThisCpu split: prod.splits if_splits)

lemma TimerHandler_step:
  assumes ok: "sched_ok c s a" and c: "c < MaxCPUs" and cpu: "ThisCpu s = c"
  obtains u where "TimerHandler f s = Some (fst (a_timer c f a), u)" "sched_ok c u (snd (a_timer c f a))" "ThisCpu u = c"
proof -
  let ?a = "a\<lparr>others := tick (others a)\<rparr>"
  have ok1: "sched_ok c (tick s) ?a" by (rule sched_ok_tick [OF ok])
  obtain v where v: "WakeupSleepingThreads c (tick s) = Some v" "sched_ok c v (a_wake (SystemTicks (tick s)) ?a)"
    by (rule WakeupSleepingThreads_ok [OF ok1 c])
  obtain w where w: "Schedule c f v = Some (fst (a_schedule c f (a_wake (SystemTicks (tick s)) ?a)), w)"
    "sched_ok c w (snd (a_schedule c f (a_wake (SystemTicks (tick s)) ?a)))"
    by (rule Schedule_step [OF v(2) c])
  have R: "sched_rep c s a" using ok by (simp add: sched_ok_def)
  then have k: "SystemTicks (others a) = SystemTicks s" "ThisCpu (others a) = c"
    using cpu by (simp_all add: sched_rep_ticks ThisCpu_rep)
  have t: "a_timer c f a = (let (f, b) = a_schedule c f (a_wake (SystemTicks (tick s)) ?a) in (f, b\<lparr>others := eoi c (others b)\<rparr>))"
    by (simp add: a_timer_def k)
  have "sched_rep c w (snd (a_schedule c f (a_wake (SystemTicks (tick s)) ?a)))"
    using w(2) unfolding sched_ok_def by (rule conjunct1)
  from ThisCpu_rep [OF this] have wc: "ThisCpu w = c" by (simp add: a_schedule_ThisCpu k)
  show ?thesis
  proof (rule that)
    show "TimerHandler f s = Some (fst (a_timer c f a), eoi c w)"
      using v(1) w(1) cpu by (simp add: TimerHandler_def Let_def t case_prod_beta tick_def eoi_def)
    show "sched_ok c (eoi c w) (snd (a_timer c f a))" using sched_ok_tick(2) [OF w(2)] by (simp add: t case_prod_beta)
  qed (simp add: wc)
qed

lemma push_IntNo [simp]: "IntNo (frame_at (push_frame n e r)) = n"
  by (simp add: frame_at_def push_frame_def)

definition a_irq :: "u32 \<Rightarrow> Regs \<Rightarrow> asched \<Rightarrow> Regs \<times> asched" where
  "a_irq c r a = (let (f, a) = a_timer c (frame_at (push_frame 32 0 r)) a in (pop_frame (frame_words f), a))"

lemma IrqStub_step:
  assumes "sched_ok c s a" "c < MaxCPUs" "ThisCpu s = c"
  shows "\<exists>u. IrqStub 32 r s = Some (fst (a_irq c r a), u) \<and> sched_ok c u (snd (a_irq c r a)) \<and> ThisCpu u = c"
proof -
  obtain u where "TimerHandler (frame_at (push_frame 32 0 r)) s = Some (fst (a_timer c (frame_at (push_frame 32 0 r)) a), u)"
    "sched_ok c u (snd (a_timer c (frame_at (push_frame 32 0 r)) a))" "ThisCpu u = c"
    by (rule TimerHandler_step [OF assms])
  then show ?thesis by (simp add: IrqStub_def IrqHandler_def a_irq_def case_prod_beta)
qed

section \<open>Runs\<close>

text \<open>A system driven by inputs, and its abstraction: when each step is simulated, so is every run.\<close>

fun run :: "('i \<Rightarrow> 's \<Rightarrow> ('o \<times> 's) option) \<Rightarrow> 'i list \<Rightarrow> 's \<Rightarrow> ('o list \<times> 's) option" where
  "run f [] s = Some ([], s)"
| "run f (i # is) s = do { (x, s) \<leftarrow> f i s; (xs, s) \<leftarrow> run f is s; Some (x # xs, s) }"

fun a_run :: "('i \<Rightarrow> 'a \<Rightarrow> 'o \<times> 'a) \<Rightarrow> 'i list \<Rightarrow> 'a \<Rightarrow> 'o list \<times> 'a" where
  "a_run g [] a = ([], a)"
| "a_run g (i # is) a = (let (x, a) = g i a; (xs, a) = a_run g is a in (x # xs, a))"

locale driven =
  fixes step :: "'i \<Rightarrow> 's \<Rightarrow> ('o \<times> 's) option" and astep :: "'i \<Rightarrow> 'a \<Rightarrow> 'o \<times> 'a" and rep :: "'s \<Rightarrow> 'a \<Rightarrow> bool"
  assumes step_refines: "rep s a \<Longrightarrow> \<exists>u. step i s = Some (fst (astep i a), u) \<and> rep u (snd (astep i a))"
begin

lemma run_refines: "rep s a \<Longrightarrow> \<exists>u. run step is s = Some (fst (a_run astep is a), u) \<and> rep u (snd (a_run astep is a))"
proof (induction "is" arbitrary: s a)
  case (Cons i "is")
  obtain u where u: "step i s = Some (fst (astep i a), u)" "rep u (snd (astep i a))" using step_refines [OF Cons.prems] by blast
  obtain v where "run step is u = Some (fst (a_run astep is (snd (astep i a))), v)" "rep v (snd (a_run astep is (snd (astep i a))))"
    using Cons.IH [OF u(2)] by blast
  then show ?case using u(1) by (simp add: case_prod_beta)
qed simp

text \<open>Progress: a measure that falls until a goal is met is a bound on the steps to the goal.\<close>

lemma run_reaches:
  assumes "rep s a" "\<not> goal a" "Suc m \<le> length is" "I a" "\<mu> a \<le> m"
    and "\<And>a i. I a \<Longrightarrow> \<not> goal a \<Longrightarrow> goal (snd (astep i a)) \<or> I (snd (astep i a)) \<and> \<mu> (snd (astep i a)) < \<mu> a"
  shows "\<exists>n xs u b. 0 < n \<and> n \<le> Suc m \<and> run step (take n is) s = Some (xs, u) \<and> rep u b \<and> goal b"
  using assms(1-5)
proof (induction m arbitrary: s a "is")
  case (0 s a "is")
  then obtain i js where i: "is = i # js" by (cases "is") auto
  obtain u where u: "step i s = Some (fst (astep i a), u)" "rep u (snd (astep i a))" using step_refines [OF 0(1)] by blast
  have "goal (snd (astep i a))" using assms(6) [OF 0(4,2), of i] 0(5) by auto
  then show ?case using i u by (intro exI [of _ 1]) auto
next
  case (Suc m s a "is")
  then obtain i js where i: "is = i # js" by (cases "is") auto
  obtain u where u: "step i s = Some (fst (astep i a), u)" "rep u (snd (astep i a))" using step_refines [OF Suc.prems(1)] by blast
  show ?case
  proof (cases "goal (snd (astep i a))")
    case True
    then show ?thesis using i u by (intro exI [of _ 1]) auto
  next
    case False
    then have inv: "I (snd (astep i a))" "\<mu> (snd (astep i a)) < \<mu> a" using assms(6) [OF Suc.prems(4,2), of i] by auto
    have "Suc m \<le> length js" "\<mu> (snd (astep i a)) \<le> m" using i Suc.prems(3,5) inv(2) by simp_all
    then obtain n xs w b where n: "0 < n" "n \<le> Suc m" "run step (take n js) u = Some (xs, w)" "rep w b" "goal b"
      using Suc.IH [OF u(2) False _ inv(1)] by blast
    have "run step (take (Suc n) is) s = Some (fst (astep i a) # xs, w)" using i u(1) n(3) by simp
    then show ?thesis using n by (intro exI [of _ "Suc n"]) auto
  qed
qed

end

definition cpu_ok :: "u32 \<Rightarrow> sched \<Rightarrow> asched \<Rightarrow> bool" where
  "cpu_ok c s a \<longleftrightarrow> c < MaxCPUs \<and> ThisCpu s = c \<and> sched_ok c s a"

interpretation preempt: driven "IrqStub 32" "a_irq c" "cpu_ok c" for c
proof unfold_locales
  fix s a r
  assume "cpu_ok c s a"
  then show "\<exists>u. IrqStub 32 r s = Some (fst (a_irq c r a), u) \<and> cpu_ok c u (snd (a_irq c r a))"
    using IrqStub_step [of c s a r] unfolding cpu_ok_def by blast
qed

section \<open>Every ready thread runs\<close>

lemma Cooldown_keep [simp]:
  "Cooldown (datas (a_wake k a) x) = Cooldown (datas a x)"
  "Cooldown (datas (a_put_away c t a) x) = Cooldown (datas a x)"
  "Cooldown (datas (a_reap ts a) x) = Cooldown (datas a x)"
  "Cooldown (saved fpu f T) = Cooldown T"
  by (simp add: a_wake_def a_wake_list_def woken_def,
      simp add: a_put_away_def a_wait_def a_sleep_def a_bury_def split: ThreadState.split,
      induction ts arbitrary: a, simp_all add: a_destroy_def saved_def)

lemma ready_grows:
  "\<exists>zs. ready (a_wake k a) = ready a @ zs" "\<exists>zs. ready (a_put_away c t a) = ready a @ zs"
  by (simp add: a_wake_def) (auto simp: a_put_away_def a_wait_def a_sleep_def a_bury_def split: ThreadState.split)

lemma a_wake_distinct: "distinct (queued a) \<Longrightarrow> distinct (queued (a_wake k a))"
  by (auto simp: a_wake_def)

lemma a_put_away_set: "set (queued (a_put_away c t a)) = insert t (set (queued a))"
  by (auto simp: a_put_away_def a_wait_def a_sleep_def a_bury_def split: ThreadState.split)

lemma a_put_away_distinct: "distinct (queued a) \<Longrightarrow> t \<notin> set (queued a) \<Longrightarrow> distinct (queued (a_put_away c t a))"
  by (auto simp: a_put_away_def a_wait_def a_sleep_def a_bury_def split: ThreadState.split)

text \<open>The state from which the loop rotates: the queue has only grown, at its end.\<close>

lemma before_rotation:
  assumes d: "distinct (queued a)" and cur: "cur \<noteq> 0 \<longrightarrow> cur \<notin> set (queued a)"
    and e: "a' = (if cur \<noteq> 0 then a_put_away c cur (a_upd cur (saved fpu f) a) else a)"
  shows "\<exists>zs. ready (a_cleanup (a_wake k a')) = ready a @ zs" "distinct (ready (a_cleanup (a_wake k a')))"
    "cool (datas (a_cleanup (a_wake k a'))) x = cool (datas a) x"
    "length (queued (a_cleanup (a_wake k a'))) \<le> length (queued a) + (if cur = 0 then 0 else 1)"
    "0 \<notin> set (queued a) \<Longrightarrow> 0 \<notin> set (ready (a_cleanup (a_wake k a')))"
proof -
  have d': "distinct (queued a')"
    using d cur a_put_away_distinct [of "a_upd cur (saved fpu f) a" cur c] unfolding e by auto
  have dw: "distinct (queued (a_wake k a'))" by (rule a_wake_distinct [OF d'])
  obtain ys where ys: "ready a' = ready a @ ys"
    unfolding e using ready_grows(2) [of c cur "a_upd cur (saved fpu f) a"] by fastforce
  obtain zs where zs: "ready (a_wake k a') = ready a' @ zs" using ready_grows(1) by blast
  show "\<exists>zs. ready (a_cleanup (a_wake k a')) = ready a @ zs" using ys zs by (simp add: a_cleanup_def)
  show "distinct (ready (a_cleanup (a_wake k a')))" using dw by (simp add: a_cleanup_def)
  show "cool (datas (a_cleanup (a_wake k a'))) x = cool (datas a) x"
    by (simp add: a_cleanup_def cool_def e)
  have "length (queued (a_cleanup (a_wake k a'))) \<le> length (queued (a_wake k a'))" by (simp add: a_cleanup_def)
  also have "\<dots> = length (queued a')" by (rule a_wake_queued)
  also have "\<dots> = length (queued a) + (if cur = 0 then 0 else 1)"
    using a_put_away_length [of c cur "a_upd cur (saved fpu f) a"] unfolding e by simp
  finally show "length (queued (a_cleanup (a_wake k a'))) \<le> length (queued a) + (if cur = 0 then 0 else 1)" .
  assume "0 \<notin> set (queued a)"
  then have "0 \<notin> set (queued a')" using a_put_away_set [of c cur "a_upd cur (saved fpu f) a"] unfolding e by auto
  then have "0 \<notin> set (queued (a_wake k a'))" using a_wake_queued(1) by blast
  then show "0 \<notin> set (ready (a_cleanup (a_wake k a')))" by (simp add: a_cleanup_def)
qed

definition pos :: "u64 \<Rightarrow> u64 list \<Rightarrow> nat" where
  "pos t ts = length (takeWhile (\<lambda>x. x \<noteq> t) ts)"

lemma pos_less: "t \<in> set ts \<Longrightarrow> pos t ts < length ts"
  unfolding pos_def by (induction ts) auto

lemma pos_append: "pos t (xs @ ys) = (if t \<in> set xs then pos t xs else length xs + pos t ys)"
  unfolding pos_def by (induction xs) auto

definition a_load :: "u32 \<Rightarrow> asched \<Rightarrow> nat" where
  "a_load c a = length (queued a) + (if CurrentThread (CpuSchedulers (others a) c) = 0 then 0 else 1)"

definition wait_bound :: "nat \<Rightarrow> u64 \<Rightarrow> asched \<Rightarrow> nat" where
  "wait_bound N t a = cool (datas a) t * N + pos t (ready a)"

lemma after_select_cool:
  assumes "distinct (xs @ p # ys)" "t \<noteq> p" "t \<in> set (xs @ p # ys)" "\<forall>x \<in> set xs. m < cool d x" "\<forall>y \<in> set ys. m \<le> cool d y"
  shows "cool (after_select c m xs p ys d) t + (if t \<in> set xs then Suc m else m) = cool d t"
proof -
  have "unat (Cooldown ((turn c ^^ n) T)) + n = unat (Cooldown T)" if "n \<le> unat (Cooldown T)" for n T
    using that
  proof (induction n)
    case (Suc n)
    then have e: "unat (Cooldown ((turn c ^^ n) T)) + n = unat (Cooldown T)" by simp
    then have "0 < unat (Cooldown ((turn c ^^ n) T))" using Suc.prems by linarith
    then have "0 < Cooldown ((turn c ^^ n) T)" by (simp add: word_less_nat_alt)
    then show ?case using cool_turn [of "(turn c ^^ n) T" c] e by simp
  qed simp
  note k = this [unfolded cool_def [symmetric]]
  show ?thesis
  proof (cases "t \<in> set xs")
    case True
    then have "Suc m \<le> unat (Cooldown (d t))" using assms(4) by (simp add: cool_def Suc_le_eq)
    then show ?thesis using k [of "Suc m" "d t"] True assms(2) by (simp add: after_select_def cool_def)
  next
    case False
    then have ty: "t \<in> set ys" using assms(2,3) by simp
    then have "m \<le> unat (Cooldown (d t))" using assms(5) by (simp add: cool_def)
    then show ?thesis using k [of m "d t"] False ty assms(2) by (simp add: after_select_def cool_def)
  qed
qed

lemma rotation_progress:
  assumes "rotate_queue c ts d = (p, us, e)" "distinct ts" "t \<in> set ts" "p \<noteq> t" "length ts \<le> N"
  shows "t \<in> set us \<and> cool e t * N + pos t us < cool d t * N + pos t ts"
proof -
  have "ts \<noteq> []" using assms(3) by auto
  then obtain xs q ys where q: "ts = xs @ q # ys" "\<forall>x \<in> set xs. cool d q < cool d x" "\<forall>y \<in> set ys. cool d q \<le> cool d y"
    by (rule first_min [of ts "cool d"])
  let ?m = "cool d q"
  have r: "p = q" "us = ys @ xs" "e = after_select c ?m xs q ys d"
    using rotate_queue_min [of xs q ys d ?m c] assms(1,2) q by simp_all
  have tq: "t \<noteq> q" using assms(4) r by simp
  have c: "cool e t + (if t \<in> set xs then Suc ?m else ?m) = cool d t"
    unfolding r(3) by (rule after_select_cool) (use assms(2,3) q tq in auto)
  have tu: "t \<in> set us" using assms(3) q r tq by auto
  have pu: "pos t us < N" using pos_less [OF tu] assms(5) q r by simp
  show ?thesis
  proof (cases "t \<in> set xs \<or> ?m \<noteq> 0")
    case True
    then have "Suc (cool e t) \<le> cool d t" using c by (auto split: if_splits)
    then have "Suc (cool e t) * N \<le> cool d t * N" by (rule mult_le_mono1)
    then show ?thesis using tu pu by simp
  next
    case False
    then have "cool e t = cool d t" "t \<in> set ys" using c tu r by auto
    moreover have "pos t us < pos t ts" using False q(1) r(2) tq calculation(2) by (simp add: pos_append) (simp add: pos_def)
    ultimately show ?thesis using tu by simp
  qed
qed

lemma a_schedule_eq:
  assumes "a_select c a4 = (t, b)" "t \<noteq> 0" "cur = CurrentThread (CpuSchedulers (others a) c)" "k = SystemTicks (others a)" "fpu = Fpu (others a)"
    and "a4 = (let a = a\<lparr>others := upd_cpu c (\<lambda>C. C\<lparr>ScheduleTicks := ScheduleTicks C + 1, LastSchedule := k\<rparr>) (others a)\<rparr>
      in if cur \<noteq> 0 then a_put_away c cur (a_upd cur (saved fpu f) a) else a)"
  shows "a_schedule c f a = (context_frame (tContext (datas b t)) f, a_dispatch c t b)"
  using assms by (cases "cur = 0") (simp_all add: a_schedule_def Let_def)

definition waiting_in :: "u32 \<Rightarrow> nat \<Rightarrow> u64 \<Rightarrow> asched \<Rightarrow> bool" where
  "waiting_in c N t a \<longleftrightarrow> (\<exists>s. cpu_ok c s a) \<and> t \<in> set (ready a) \<and> a_load c a \<le> N"

lemma a_irq_progress:
  assumes w: "waiting_in c N t a"
  shows "CurrentThread (CpuSchedulers (others (snd (a_irq c r a))) c) = t \<and>
       tState (datas (snd (a_irq c r a)) t) = ThreadStateRunning \<or>
    waiting_in c N t (snd (a_irq c r a)) \<and> wait_bound N t (snd (a_irq c r a)) < wait_bound N t a"
proof -
  obtain s where s: "cpu_ok c s a" using w by (auto simp: waiting_in_def)
  have ok: "\<exists>s. cpu_ok c s (snd (a_irq c r a))" using preempt.step_refines [OF s, of r] by blast
  have so: "sched_ok c s a" using s by (simp add: cpu_ok_def)
  then have R: "sched_rep c s a" by (simp add: sched_ok_def)
  let ?cur = "CurrentThread (CpuSchedulers (others a) c)"
  let ?a1 = "a\<lparr>others := tick (others a)\<rparr>" let ?a2 = "a_wake (SystemTicks (tick (others a))) ?a1"
  let ?f = "frame_at (push_frame 32 0 r)" let ?k = "SystemTicks (tick (others a))"
  let ?g = "\<lambda>C. C\<lparr>ScheduleTicks := ScheduleTicks C + 1, LastSchedule := ?k\<rparr>"
  let ?a3 = "?a2\<lparr>others := upd_cpu c ?g (others ?a2)\<rparr>"
  define a4 where "a4 = (if ?cur \<noteq> 0 then a_put_away c ?cur (a_upd ?cur (saved (Fpu (others ?a3)) ?f) ?a3) else ?a3)"
  let ?b = "a_cleanup (a_wake (SystemTicks (others a4)) a4)"
  have ct: "CurrentThread (CpuSchedulers s c) = ?cur" using others_simps(1) [OF R] by simp
  have q: "distinct (queued a)" "0 \<notin> set (queued a)"
    using R queues_repD(5) queued_nonzero by (auto simp: sched_rep_def simp del: distinct_append set_append)
  have cq: "?cur \<noteq> 0 \<longrightarrow> ?cur \<notin> set (queued a)" using so ct by (auto simp: sched_ok_def detached_def)
  have q3: "distinct (queued ?a3)" "0 \<notin> set (queued ?a3)" "?cur \<noteq> 0 \<longrightarrow> ?cur \<notin> set (queued ?a3)"
    "length (queued ?a3) = length (queued a)"
    using a_wake_distinct [of ?a1 ?k] a_wake_queued [of ?k ?a1] q cq by (simp_all del: distinct_append set_append length_append)
  note br = before_rotation [OF q3(1,3) a4_def, of "SystemTicks (others a4)"]
  obtain y1 y2 where "ready ?a3 = ready a @ y1" "ready ?b = ready ?a3 @ y2"
    using ready_grows(1) [of ?k ?a1] br(1) by auto
  then have rb: "ready ?b = ready a @ y1 @ y2" by simp
  have cb: "cool (datas ?b) t = cool (datas a) t" using br(3) [of t] by (simp add: cool_def)
  have ta: "t \<in> set (ready a)" using w by (simp add: waiting_in_def)
  have lb: "length (queued ?b) \<le> N" using br(4) q3(4) w by (simp add: waiting_in_def a_load_def split: if_splits)
  obtain p us e where rot: "rotate_queue c (ready ?b) (datas ?b) = (p, us, e)" by (metis prod_cases3)
  have p: "p \<noteq> 0" "length (ready ?b) = Suc (length us)"
    using rotate_queue_length [OF rot] br(5) [OF q3(2)] rb ta by (auto split: if_splits)
  have sel: "a_select c a4 = (p, ?b\<lparr>ready := us, datas := e\<rparr>)" by (simp add: a_select_def a_rotate_def rot)
  have sch: "a_schedule c ?f ?a2 = (context_frame (tContext (datas (?b\<lparr>ready := us, datas := e\<rparr>) p)) ?f, a_dispatch c p (?b\<lparr>ready := us, datas := e\<rparr>))"
    by (rule a_schedule_eq [OF sel p(1), where cur = ?cur and fpu = "Fpu (others ?a3)" and k = ?k])
      (simp_all add: a4_def)
  have irq: "snd (a_irq c r a) = (let b = a_dispatch c p (?b\<lparr>ready := us, datas := e\<rparr>) in b\<lparr>others := eoi c (others b)\<rparr>)"
    using sch by (simp add: a_irq_def a_timer_def Let_def)
  have after: "CurrentThread (CpuSchedulers (others (snd (a_irq c r a))) c) = p" "ready (snd (a_irq c r a)) = us"
    "tState (datas (snd (a_irq c r a)) p) = ThreadStateRunning" "cool (datas (snd (a_irq c r a))) t = cool e t" "length (queued (snd (a_irq c r a))) + 1 = length (queued ?b)"
    unfolding irq using p(2) by (simp_all add: a_dispatch_def Let_def cool_def)
  show ?thesis
  proof (cases "p = t")
    case True
    then show ?thesis using after(1,3) by simp
  next
    case False
    have lr: "length (ready ?b) \<le> N" using lb by simp
    have "t \<in> set us \<and> cool e t * N + pos t us < cool (datas ?b) t * N + pos t (ready ?b)"
      by (rule rotation_progress [OF rot br(2) _ False lr]) (use rb ta in simp)
    moreover have "pos t (ready ?b) = pos t (ready a)" unfolding rb using ta by (simp add: pos_append)
    ultimately show ?thesis
      using ok after cb lb p(1) by (simp add: waiting_in_def wait_bound_def a_load_def del: length_append)
  qed
qed

end
