(* ===== verification/ThreadSwitch.thy ===== *)
theory ThreadSwitch
  imports ThreadSched
begin

text \<open>Registers across a context switch, the exit of a thread, the creation of a thread, and the list of all threads.\<close>

section \<open>Registers across a context switch\<close>

definition ctx :: "Thread \<Rightarrow> ThreadContext" where
  "ctx T = tContext (selectors T)"

text \<open>The registers with which a thread continues when it is dispatched.\<close>

definition regs_of :: "Thread \<Rightarrow> Regs" where
  "regs_of T = pop_frame (frame_words (context_frame (ctx T) (frame_at (replicate 22 0))))"

definition type_selectors :: "ThreadType \<Rightarrow> Regs \<Rightarrow> Regs" where
  "type_selectors ty r =
     (if ty = ThreadTypeUser then r\<lparr>rcs := ucast UserCodeSelector, rss := ucast UserDataSelector\<rparr>
      else r\<lparr>rcs := ucast KernelCodeSelector, rss := ucast KernelDataSelector\<rparr>)"

lemma ctx_simps [simp]:
  "ctx (turn c T) = ctx T" "ctx (start T) = ctx T" "ctx (woken T) = ctx T" "ctx (data T) = ctx T" "ctx (selectors T) = ctx T"
  "ctx (T\<lparr>tState := st\<rparr>) = ctx T" "ctx (T\<lparr>LastCpu := lc\<rparr>) = ctx T" "ctx (T\<lparr>StartTime := k\<rparr>) = ctx T"
  "ctx (T\<lparr>tContextSwitches := n\<rparr>) = ctx T"
  by (simp_all add: ctx_def turn_def start_def woken_def data_def selectors_def)

lemma start_ctx: "tContext (start T) = ctx T"
  by (simp add: ctx_def start_def)

lemma type_simps [simp]:
  "tType (turn c T) = tType T" "tType (start T) = tType T" "tType (woken T) = tType T" "tType (saved fpu f T) = tType T"
  by (simp_all add: turn_def start_def woken_def saved_def)

lemma context_frame_regs:
  "pop_frame (frame_words (context_frame C f)) = pop_frame (frame_words (context_frame C g))"
  by (simp add: pop_frame_def frame_words_def context_frame_def)

lemma frame_roundtrip: "pop_frame (frame_words (frame_at (push_frame n e r))) = r"
  by (cases r) (simp add: pop_frame_def frame_words_def frame_at_def push_frame_def)

lemma regs_of_ctx: "ctx T = ctx U \<Longrightarrow> regs_of T = regs_of U"
  by (simp add: regs_of_def)

text \<open>What \<^verbatim>\<open>SaveInterruptFrameToThread\<close> stores gives the interrupted registers back: the frame names its words
  in the reverse of the order in which the stub pushed them, and the two reversals cancel.\<close>

lemma regs_of_saved: "regs_of (saved fpu (frame_at (push_frame n e r)) T) = type_selectors (tType T) r"
proof (cases r)
  case (fields a1 a2 a3 a4 a5 a6 a7 a8 a9 a10 a11 a12 a13 a14 a15 a16 a17 a18 a19 a20)
  show ?thesis
    unfolding regs_of_def ctx_def selectors_def saved_def type_selectors_def
    by (cases "tType T") (simp_all add: fields frame_at_def push_frame_def frame_context_def context_frame_def
        frame_words_def pop_frame_def)
qed

lemma ctx_steps [simp]:
  "ctx (datas (a_wake k a) x) = ctx (datas a x)"
  "ctx (datas (a_put_away c t a) x) = ctx (datas a x)"
  "ctx (datas (a_reap ts a) x) = ctx (datas a x)"
  by (simp add: a_wake_def a_wake_list_def,
      simp add: a_put_away_def a_wait_def a_sleep_def a_bury_def split: ThreadState.split,
      induction ts arbitrary: a, simp_all add: a_destroy_def)

lemma type_steps [simp]:
  "tType (datas (a_wake k a) x) = tType (datas a x)"
  "tType (datas (a_put_away c t a) x) = tType (datas a x)"
  "tType (datas (a_reap ts a) x) = tType (datas a x)"
  by (simp add: a_wake_def a_wake_list_def,
      simp add: a_put_away_def a_wait_def a_sleep_def a_bury_def split: ThreadState.split,
      induction ts arbitrary: a, simp_all add: a_destroy_def)

lemma rotate_queue_ctx:
  "rotate_queue c ts d = (p, us, e) \<Longrightarrow>
     ctx (e x) = ctx (d x) \<and> tType (e x) = tType (d x) \<and> (p \<in> set ts \<longrightarrow> tContext (e p) = ctx (d p))"
proof (induction c ts d arbitrary: p us e rule: rotate_queue.induct)
  case (2 c t ts d)
  show ?case
  proof (cases "0 < Cooldown (d t)")
    case True
    then have "rotate_queue c (ts @ [t]) (d(t := turn c (d t))) = (p, us, e)" using "2.prems" by simp
    from "2.IH" [OF True this] show ?thesis by (auto split: if_splits)
  next
    case False
    then show ?thesis using "2.prems" by (auto simp: rotate_queue_Cons start_ctx simp del: rotate_queue.simps)
  qed
qed simp

lemma ctx_of_rep: "sched_rep c s a \<Longrightarrow> ctx (datas a x) = ctx (Threads s x)" "sched_rep c s a \<Longrightarrow> tType (datas a x) = tType (Threads s x)"
  by (simp_all add: sched_rep_def queues_rep_def)

lemma a_schedule_idle:
  assumes "a_select c a4 = (0, b)" "cur = CurrentThread (CpuSchedulers (others a) c)" "k = SystemTicks (others a)" "fpu = Fpu (others a)"
    and "a4 = (let a = a\<lparr>others := upd_cpu c (\<lambda>C. C\<lparr>ScheduleTicks := ScheduleTicks C + 1, LastSchedule := k\<rparr>) (others a)\<rparr>
      in if cur \<noteq> 0 then a_put_away c cur (a_upd cur (saved fpu f) a) else a)"
  shows "a_schedule c f a = (f, b\<lparr>others := upd_cpu c (\<lambda>C. C\<lparr>CurrentThread := 0, IdleTicks := IdleTicks C + 1\<rparr>) (others b)\<rparr>)"
  using assms by (cases "cur = 0") (simp_all add: a_schedule_def Let_def)

text \<open>One interrupt, on the abstract side.\<close>

lemma a_irq_ctx:
  assumes "t = CurrentThread (CpuSchedulers (others a) c)"
  shows "x \<noteq> t \<Longrightarrow> ctx (datas (snd (a_irq c r a)) x) = ctx (datas a x)"
    "t \<noteq> 0 \<Longrightarrow> ctx (datas (snd (a_irq c r a)) t) = ctx (saved (Fpu (others a)) (frame_at (push_frame 32 0 r)) (datas a t))"
    "tType (datas (snd (a_irq c r a)) x) = tType (datas a x)"
    "q = CurrentThread (CpuSchedulers (others (snd (a_irq c r a))) c) \<Longrightarrow>
       if q = 0 then fst (a_irq c r a) = r
       else fst (a_irq c r a) = regs_of (datas (snd (a_irq c r a)) q) \<and>
         Fpu (others (snd (a_irq c r a))) = FpuState (ctx (datas (snd (a_irq c r a)) q))"
proof -
  let ?f = "frame_at (push_frame 32 0 r)"
  let ?k = "SystemTicks (tick (others a))" and ?a2 = "a_wake (SystemTicks (tick (others a))) (a\<lparr>others := tick (others a)\<rparr>)"
  let ?a3 = "?a2\<lparr>others := upd_cpu c (\<lambda>C. C\<lparr>ScheduleTicks := ScheduleTicks C + 1, LastSchedule := ?k\<rparr>) (others ?a2)\<rparr>"
  define a4 where "a4 = (if t \<noteq> 0 then a_put_away c t (a_upd t (saved (Fpu (others a)) ?f) ?a3) else ?a3)"
  obtain p b where sel: "a_select c a4 = (p, b)" by (cases "a_select c a4")
  let ?k4 = "SystemTicks (others a4)" let ?b4 = "a_cleanup (a_wake ?k4 a4)"
  obtain us e where rot: "rotate_queue c (ready ?b4) (datas ?b4) = (p, us, e)" and b: "b = ?b4\<lparr>ready := us, datas := e\<rparr>"
    using sel by (auto simp: a_select_def a_rotate_def split: prod.splits)
  have pin: "p \<noteq> 0 \<Longrightarrow> p \<in> set (ready ?b4)" using rotate_queue_length [OF rot] by (auto split: if_splits)
  have b4: "ctx (datas ?b4 x) = ctx (datas a4 x)" "tType (datas ?b4 x) = tType (datas a4 x)" for x
    by (simp_all add: a_cleanup_def)
  have e: "ctx (datas b x) = ctx (datas a4 x)" "tType (datas b x) = tType (datas a4 x)" for x
    using rotate_queue_ctx [OF rot, of x] b4 by (simp_all add: b)
  have ep: "p \<noteq> 0 \<Longrightarrow> tContext (datas b p) = ctx (datas a4 p)" using rotate_queue_ctx [OF rot] pin b4 by (simp add: b)
  have a4: "ctx (datas a4 x) = (if x = t \<and> t \<noteq> 0 then ctx (saved (Fpu (others a)) ?f (datas ?a3 t)) else ctx (datas a x))"
    "tType (datas a4 x) = tType (datas a x)" for x
    by (simp_all add: a4_def)
  have d3: "ctx (saved fpu ?f (datas ?a3 t)) = ctx (saved fpu ?f (datas a t))" for fpu
    by (simp add: ctx_def selectors_def saved_def a_wake_def a_wake_list_def woken_def frame_context_def)
  have fp: "Fpu (others ?a2) = Fpu (others a)" by (simp add: tick_def)
  have cur: "t = CurrentThread (CpuSchedulers (others ?a2) c)" using assms(1) by simp
  have irq: "a_irq c r a = (if p = 0
      then (r, let b = b\<lparr>others := upd_cpu c (\<lambda>C. C\<lparr>CurrentThread := 0, IdleTicks := IdleTicks C + 1\<rparr>) (others b)\<rparr> in b\<lparr>others := eoi c (others b)\<rparr>)
      else (pop_frame (frame_words (context_frame (tContext (datas b p)) ?f)), let b = a_dispatch c p b in b\<lparr>others := eoi c (others b)\<rparr>))"
  proof (cases "p = 0")
    case True
    have "a_schedule c ?f ?a2 = (?f, b\<lparr>others := upd_cpu c (\<lambda>C. C\<lparr>CurrentThread := 0, IdleTicks := IdleTicks C + 1\<rparr>) (others b)\<rparr>)"
      by (rule a_schedule_idle [OF sel [unfolded True] cur, where k = ?k and fpu = "Fpu (others a)"])
        (use fp in \<open>simp_all add: a4_def\<close>)
    then show ?thesis using True by (simp add: a_irq_def a_timer_def Let_def frame_roundtrip)
  next
    case False
    have "a_schedule c ?f ?a2 = (context_frame (tContext (datas b p)) ?f, a_dispatch c p b)"
      by (rule a_schedule_eq [OF sel False cur, where k = ?k and fpu = "Fpu (others a)"]) (use fp in \<open>simp_all add: a4_def\<close>)
    then show ?thesis using False by (simp add: a_irq_def a_timer_def Let_def)
  qed
  have res: "ctx (datas (snd (a_irq c r a)) x) = ctx (datas a4 x)" "tType (datas (snd (a_irq c r a)) x) = tType (datas a x)" for x
    using e a4(2) by (simp_all add: irq Let_def a_dispatch_def)
  show "x \<noteq> t \<Longrightarrow> ctx (datas (snd (a_irq c r a)) x) = ctx (datas a x)"
    "t \<noteq> 0 \<Longrightarrow> ctx (datas (snd (a_irq c r a)) t) = ctx (saved (Fpu (others a)) ?f (datas a t))"
    "tType (datas (snd (a_irq c r a)) x) = tType (datas a x)"
    using res a4(1) d3 by simp_all
  assume q: "q = CurrentThread (CpuSchedulers (others (snd (a_irq c r a))) c)"
  have "q = p" unfolding q irq by (simp add: Let_def a_dispatch_def)
  then show "if q = 0 then fst (a_irq c r a) = r
       else fst (a_irq c r a) = regs_of (datas (snd (a_irq c r a)) q) \<and>
         Fpu (others (snd (a_irq c r a))) = FpuState (ctx (datas (snd (a_irq c r a)) q))"
    using ep e(1) [of p] context_frame_regs [of "ctx (datas a4 p)" ?f "frame_at (replicate 22 0)"]
    by (simp add: irq Let_def regs_of_def a_dispatch_def eoi_def)
qed

section \<open>Exiting on an otherwise idle CPU\<close>

lemma GetCurrentThread_rep:
  assumes R: "sched_rep c s a" and d: "d < MaxCPUs"
  obtains u where "GetCurrentThread d s = Some (CurrentThreads s d, u)" "sched_rep c u a" "Threads u = Threads s"
    "ThisCpu u = ThisCpu s" "SystemTicks u = SystemTicks s"
proof (rule that)
  let ?f = "SchedFlags s" and ?c = "ThisCpu s"
  let ?L = "(CurrentThreadLock s)\<lparr>SpinLock_Lock := 0, SpinLock_CpuId := NoOwner\<rparr>"
  let ?F = "?f\<lparr>RFlags := RFlags ?f, SavedFlags := (SavedFlags ?f)(?c := RFlags ?f ?c)\<rparr>"
  let ?u = "s\<lparr>CurrentThreadLock := ?L, SchedFlags := ?F\<rparr>"
  have L: "locks_free s" using R by (simp add: sched_rep_def)
  show "GetCurrentThread d s = Some (CurrentThreads s d, ?u)"
    using d [unfolded not_le [symmetric]]
    by (simp add: GetCurrentThread_def lock_current_def unlock_current_def AcquireSpinLock_def ReleaseSpinLock_def
        Let_def locks_freeD [OF L] fun_upd_idem del: not_le)
  have "locks_free ?u" using L by (simp add: locks_free_def)
  moreover have "outer c ?u = outer c s" by (simp add: outer_def)
  ultimately show "sched_rep c ?u a" using R by (simp add: sched_rep_def queues_rep_def)
qed simp_all

definition heads :: "u32 \<Rightarrow> sched \<Rightarrow> u64 \<times> u64 \<times> u64 \<times> u64 \<times> u32" where
  "heads c s = (ReadyQueue (CpuSchedulers s c), WaitingQueue (CpuSchedulers s c), ZombieQueue (CpuSchedulers s c),
     SleepingQueue (CpuSchedulers s c), ReadyCount (CpuSchedulers s c))"

lemma AddThreadToReadyQueue_empty:
  assumes L: "locks_free s" and c: "c < MaxCPUs" and t: "t \<noteq> 0" and h: "heads c s = (0, w, z, l, n)"
  obtains u where "AddThreadToReadyQueue c t s = Some u" "locks_free u" "heads c u = (t, w, z, l, n + 1)" "outer c u = outer c s"
    "Threads u = (Threads s)(t := (Threads s t)\<lparr>tState := ThreadStateReady, LastCpu := c, tNext := 0, tPrev := 0\<rparr>)"
proof -
  let ?s = "upd_thread t (\<lambda>T. T\<lparr>tState := ThreadStateReady, LastCpu := c, tNext := 0, tPrev := 0\<rparr>) s"
  have "locks_free ?s" using L by simp
  then obtain v where v: "lock_cpu c ?s = Some v" "Threads v = Threads ?s" "locks_but c v" "\<And>d. outer d v = outer d ?s"
    "ReadyQueue (CpuSchedulers v c) = ReadyQueue (CpuSchedulers ?s c)" "WaitingQueue (CpuSchedulers v c) = WaitingQueue (CpuSchedulers ?s c)"
    "ZombieQueue (CpuSchedulers v c) = ZombieQueue (CpuSchedulers ?s c)" "SleepingQueue (CpuSchedulers v c) = SleepingQueue (CpuSchedulers ?s c)"
    "ReadyCount (CpuSchedulers v c) = ReadyCount (CpuSchedulers ?s c)"
    by (rule lock_cpu_free) blast
  have "ReadyQueue (CpuSchedulers s c) = 0" using h by (simp add: heads_def)
  then show ?thesis
    using c t v h that [of "unlock_cpu c (upd_cpu c (\<lambda>C. C\<lparr>ReadyCount := ReadyCount C + 1\<rparr>) (upd_cpu c (\<lambda>C. C\<lparr>ReadyQueue := t\<rparr>) v))"]
    by (simp add: AddThreadToReadyQueue_def enqueue_tail_def heads_def not_le)
qed

lemma WakeupSleepingThreads_none:
  assumes L: "locks_free s" and c: "c < MaxCPUs" and h: "heads c s = (q, w, z, 0, n)"
  obtains u where "WakeupSleepingThreads c s = Some u" "locks_free u" "heads c u = (q, w, z, 0, n)" "outer c u = outer c s"
    "Threads u = Threads s"
proof -
  obtain v where v: "lock_cpu c s = Some v" "Threads v = Threads s" "locks_but c v" "\<And>d. outer d v = outer d s"
    "ReadyQueue (CpuSchedulers v c) = ReadyQueue (CpuSchedulers s c)" "WaitingQueue (CpuSchedulers v c) = WaitingQueue (CpuSchedulers s c)"
    "ZombieQueue (CpuSchedulers v c) = ZombieQueue (CpuSchedulers s c)" "SleepingQueue (CpuSchedulers v c) = SleepingQueue (CpuSchedulers s c)"
    "ReadyCount (CpuSchedulers v c) = ReadyCount (CpuSchedulers s c)"
    using lock_cpu_free [OF L] by blast
  have "wakeup_loop c k 0 0 v = Some v" for k by (subst wakeup_loop.simps) simp
  then show ?thesis using c v h that [of "unlock_cpu c v"] by (simp add: WakeupSleepingThreads_def heads_def not_le)
qed

lemma CleanupZombieThreads_one:
  assumes L: "locks_free s" and c: "c < MaxCPUs" and h: "heads c s = (q, w, t, l, n)"
    and t: "t \<noteq> 0" "tNext (Threads s t) = 0" "tPrev (Threads s t) = 0"
  obtains u where "CleanupZombieThreads c s = Some u" "locks_free u" "heads c u = (q, w, 0, l, n)"
    "outer c u = (outer c s)\<lparr>ThreadList := 0, Heap := free_thread t (Threads s t) (Heap s)\<rparr>"
    "Threads u = (Threads s)(t := (Threads s t)\<lparr>tState := ThreadStateTerminated\<rparr>)"
proof -
  obtain v where v: "lock_cpu c s = Some v" "Threads v = Threads s" "locks_but c v" "\<And>d. outer d v = outer d s"
    "ReadyQueue (CpuSchedulers v c) = ReadyQueue (CpuSchedulers s c)" "WaitingQueue (CpuSchedulers v c) = WaitingQueue (CpuSchedulers s c)"
    "ZombieQueue (CpuSchedulers v c) = ZombieQueue (CpuSchedulers s c)" "SleepingQueue (CpuSchedulers v c) = SleepingQueue (CpuSchedulers s c)"
    "ReadyCount (CpuSchedulers v c) = ReadyCount (CpuSchedulers s c)"
    using lock_cpu_free [OF L] by blast
  let ?w = "unlock_cpu c (upd_cpu c (\<lambda>C. C\<lparr>ZombieQueue := 0\<rparr>) v)"
  have w: "locks_free ?w" "Threads ?w = Threads s" "heads c ?w = (q, w, 0, l, n)" "outer c ?w = outer c s"
    using v h by (simp_all add: heads_def)
  have hw: "Heap ?w = Heap s" by (metis outer_simps(3) w(4))
  obtain u where u: "DestroyThread t ?w = Some u" "locks_free u" "CpuSchedulers u = CpuSchedulers ?w"
    "Threads u = (let T = (Threads ?w)(t := (Threads ?w t)\<lparr>tState := ThreadStateTerminated\<rparr>); n = tNext (Threads ?w t)
       in if n = 0 then T else T(n := (T n)\<lparr>tPrev := 0\<rparr>))"
    "outer c u = (outer c ?w)\<lparr>ThreadList := tNext (Threads ?w t), Heap := free_thread t (Threads ?w t) (Heap ?w)\<rparr>"
    by (rule DestroyThread_first [OF w(1) t(1), of c]) (use t v(2) in auto)
  have cl: "cleanup_loop 0 u = Some u" by (subst cleanup_loop.simps) simp
  have "cleanup_loop t ?w = Some u"
    by (subst cleanup_loop.simps) (use t u(1) cl w(2) in simp)
  moreover have "ZombieQueue (CpuSchedulers v c) = t" using h v(7) by (simp add: heads_def)
  ultimately have "CleanupZombieThreads c s = Some u" using c v(1) by (simp add: CleanupZombieThreads_def not_le Let_def)
  moreover have "heads c u = (q, w, 0, l, n)" using w(3) u(3) by (simp add: heads_def)
  ultimately show ?thesis using that u(2,4,5) t(2) w(2,4) hw by simp
qed

lemma rotate_single: "\<exists>d'. rotate_queue c [t] d = (t, [], d') \<and> ctx (d' t) = ctx (d t) \<and> tContext (d' t) = ctx (d t)"
proof -
  have r: "rotate_queue c ([] @ t # []) d = (t, [] @ [], after_select c (cool d t) [] t [] d)"
    by (rule rotate_queue_min) simp_all
  then show ?thesis using rotate_queue_ctx [of c "[t]" d t "[]" "after_select c (cool d t) [] t [] d" t] by simp
qed

lemma a_wake_none: "sleeping a = [] \<Longrightarrow> a_wake k a = a"
  by (rule asched.equality) (auto simp: a_wake_def a_wake_list_def)

lemma ThreadExit_idle:
  assumes ok: "cpu_ok c s a" and t: "CurrentThread (CpuSchedulers s c) = t" "CurrentThreads s c = t" "t \<noteq> 0"
    and e: "ready a = []" "zombies a = []" "sleeping a = []"
  obtains r' u where "ThreadExit code r s = Some (r', u)" "CurrentThread (CpuSchedulers u c) = t"
    "tState (Threads u t) = ThreadStateRunning" "Heap u = free_thread t (Threads s t) (Heap s)"
    "r' = type_selectors (tType (Threads s t)) r"
proof -
  have c: "c < MaxCPUs" "ThisCpu s = c" and R: "sched_rep c s a" and d: "t \<notin> set (queued a)" "tPrev (Threads s t) = 0"
    using ok t by (auto simp: cpu_ok_def sched_ok_def detached_def)
  obtain s0 where s0: "GetCurrentThread c s = Some (t, s0)" "sched_rep c s0 a" "Threads s0 = Threads s" "ThisCpu s0 = ThisCpu s"
    "SystemTicks s0 = SystemTicks s"
    using GetCurrentThread_rep [OF R c(1)] t(2) by metis
  let ?f1 = "\<lambda>T. T\<lparr>tState := ThreadStateZombie, ExitCode := code\<rparr>"
  let ?s1 = "upd_thread t ?f1 s0" and ?a1 = "a_upd t ?f1 a"
  have R1: "sched_rep c ?s1 ?a1" by (rule upd_thread_sched_rep [OF s0(2)]) (use d in \<open>auto simp: data_def\<close>)
  obtain s2 where s2: "AddThreadToZombieQueue c t ?s1 = Some s2" "sched_rep c s2 (a_bury c t ?a1)"
    by (rule AddThreadToZombieQueue_rep [OF R1 c(1) t(3)]) (use d s0(3) in auto)
  define a2 where "a2 = a_bury c t ?a1"
  have a2: "ready a2 = []" "sleeping a2 = []" "zombies a2 = [t]" "waiting a2 = waiting a"
    "others a2 = upd_cpu c (\<lambda>C. C\<lparr>ThreadCount := ThreadCount C - 1\<rparr>) (others a)"
    "datas a2 t = (datas a t)\<lparr>tState := ThreadStateZombie, ExitCode := code\<rparr>"
    using e by (simp_all add: a2_def a_bury_def)
  let ?a3 = "a2\<lparr>others := tick (others a2)\<rparr>"
  have R3: "sched_rep c (tick s2) ?a3" using sched_rep_tick(1) [OF s2(2)] by (simp add: a2_def)
  have w3: "a_wake k ?a3 = ?a3" for k by (rule a_wake_none) (simp add: a2)
  obtain s4 where s4: "WakeupSleepingThreads c (tick s2) = Some s4" "sched_rep c s4 ?a3"
    using WakeupSleepingThreads_rep [OF R3 c(1)] w3 by metis
  have q4: "queues_rep c s4 ?a3" and L4: "locks_free s4" using s4(2) by (simp_all add: sched_rep_def)
  let ?g = "\<lambda>C. C\<lparr>ScheduleTicks := ScheduleTicks C + 1, LastSchedule := SystemTicks s4\<rparr>"
  let ?s5 = "upd_cpu c ?g s4"
  have cur: "CurrentThread (CpuSchedulers s4 c) = t"
    using others_simps(1) [OF s4(2)] others_simps(1) [OF R] t(1) by (simp add: a2)
  let ?f = "frame_at (push_frame 32 0 r)"
  have dt: "data (Threads s4 t) = datas a2 t" using others_simps(4) [OF s4(2), of t] by simp
  have st: "tState (Threads s4 t) = ThreadStateZombie" using arg_cong [OF dt, of tState] a2(6) by simp
  have ds: "datas a t = data (Threads s t)" by (rule others_simps(4) [OF R])
  have keep: "KernelStack (Threads s4 t) = KernelStack (Threads s t)" "UserStack (Threads s4 t) = UserStack (Threads s t)"
    "StackSize (Threads s4 t) = StackSize (Threads s t)" "tType (Threads s4 t) = tType (Threads s t)"
    using arg_cong [OF dt, of KernelStack] arg_cong [OF dt, of UserStack] arg_cong [OF dt, of StackSize] arg_cong [OF dt, of tType]
    by (simp_all add: a2(6) ds)
  let ?sv = "saved (Fpu s4) ?f"
  let ?s6 = "upd_thread t (\<lambda>T. T\<lparr>tState := ThreadStateReady\<rparr>) (upd_thread t ?sv ?s5)"
  have out: "switch_out c t ?f ?s5 = AddThreadToReadyQueue c t ?s6"
  proof -
    have "upd_thread t (\<lambda>T. T\<lparr>CpuTime := CpuTime T + 1\<rparr>) (SaveInterruptFrameToThread t ?f
        (upd_thread t (\<lambda>T. T\<lparr>tContext := (tContext T)\<lparr>FpuState := Fpu ?s5\<rparr>\<rparr>) ?s5)) = upd_thread t ?sv ?s5"
      using t(3) by (simp add: SaveInterruptFrameToThread_def upd_thread_def saved_def)
    then show ?thesis unfolding switch_out_def Let_def using st by (simp add: saved_def)
  qed
  let ?W = "WaitingQueue (CpuSchedulers s4 c)"
  have z: "ZombieQueue (CpuSchedulers s4 c) = t" using queues_repD(3) [OF q4] a2(3) by simp
  have h6: "heads c ?s6 = (0, ?W, t, 0, 0)" using queues_repD(1,4,6) [OF q4] z by (simp add: heads_def a2)
  have L6: "locks_free ?s6" using L4 by (simp add: locks_free_upd_cpu)
  obtain s7 where s7: "AddThreadToReadyQueue c t ?s6 = Some s7" "locks_free s7" "heads c s7 = (t, ?W, t, 0, 0 + 1)" "outer c s7 = outer c ?s6"
    "Threads s7 = (Threads ?s6)(t := (Threads ?s6 t)\<lparr>tState := ThreadStateReady, LastCpu := c, tNext := 0, tPrev := 0\<rparr>)"
    by (rule AddThreadToReadyQueue_empty [OF L6 c(1) t(3) h6])
  obtain s8 where s8: "WakeupSleepingThreads c s7 = Some s8" "locks_free s8" "heads c s8 = (t, ?W, t, 0, 0 + 1)" "outer c s8 = outer c s7"
    "Threads s8 = Threads s7"
    by (rule WakeupSleepingThreads_none [OF s7(2) c(1) s7(3)])
  obtain s9 where s9: "CleanupZombieThreads c s8 = Some s9" "locks_free s9" "heads c s9 = (t, ?W, 0, 0, 0 + 1)"
    "outer c s9 = (outer c s8)\<lparr>ThreadList := 0, Heap := free_thread t (Threads s8 t) (Heap s8)\<rparr>"
    "Threads s9 = (Threads s8)(t := (Threads s8 t)\<lparr>tState := ThreadStateTerminated\<rparr>)"
    by (rule CleanupZombieThreads_one [OF s8(2) c(1) s8(3) t(3)]) (simp_all add: s8(5) s7(5))
  have n9: "tNext (Threads s9 t) = 0" "\<And>x. x \<noteq> t \<Longrightarrow> Threads s9 x = Threads s4 x" by (simp_all add: s9(5) s8(5) s7(5))
  have x9: "ctx (Threads s9 t) = ctx (?sv (Threads s4 t))" "KernelStack (Threads s8 t) = KernelStack (Threads s t)"
    "UserStack (Threads s8 t) = UserStack (Threads s t)" "StackSize (Threads s8 t) = StackSize (Threads s t)"
    by (simp_all add: s9(5) s8(5) s7(5) saved_def keep) (simp add: ctx_def selectors_def)
  define a9 where "a9 = \<lparr>ready = [t], waiting = waiting a, zombies = [], sleeping = [], datas = (\<lambda>x. data (Threads s9 x)), others = outer c s9\<rparr>"
  have tw: "t \<notin> set (waiting a)" "distinct (waiting a)" using d(1) queues_repD(5) [OF q4] by (simp_all add: a2)
  have "thread_queue (Threads s4) ?W (waiting a)" using queues_repD(2) [OF q4] by (simp add: a2)
  moreover have "thread_queue (Threads s9) ?W (waiting a) = thread_queue (Threads s4) ?W (waiting a)"
    by (rule thread_queue_cong) (metis n9(2) tw(1))
  ultimately have R9: "sched_rep c s9 a9"
    using s9(2,3) n9(1) t(3) tw by (simp add: sched_rep_def queues_rep_def a9_def heads_def)
  obtain d' where rot: "rotate_queue c [t] (datas a9) = (t, [], d')" "ctx (d' t) = ctx (datas a9 t)" "tContext (d' t) = ctx (datas a9 t)"
    using rotate_single by blast
  define b where "b = a9\<lparr>ready := [], datas := d'\<rparr>"
  have ar: "a_rotate c a9 = (t, b)" using rot(1) by (simp add: a_rotate_def b_def a9_def)
  have "length (queued a) + 1 < 2 ^ 32" using ok t by (simp add: cpu_ok_def sched_ok_def)
  then have len: "length (queued a9) < 2 ^ 32" using e by (simp add: a9_def)
  obtain s10 where s10: "select_rest c s9 = Some (t, s10)" "sched_rep c s10 b" "detached t s10 b"
    using select_rest_settled [OF R9 _ c(1) len refl refl] t(3) ar by (auto simp: settled_def a9_def)
  have sel: "SelectAgain c s7 = Some (t, s10)" using s8(1) s9(1) s10(1) by (simp add: SelectAgain_rest)
  have tb: "t \<notin> set (queued b)" using s10(3) by (simp add: detached_def)
  obtain s11 where s11: "switch_in c t ?f s10 = Some (context_frame (tContext (datas b t)) ?f, s11)" "sched_rep c s11 (a_dispatch c t b)"
    "Threads s11 = (Threads s10)(t := (Threads s10 t)\<lparr>tState := ThreadStateRunning, LastCpu := c, StartTime := SystemTicks s10,
       tContextSwitches := tContextSwitches (Threads s10 t) + 1\<rparr>)"
    by (rule switch_in_rep [OF s10(2) c(1) t(3) tb])
  let ?f' = "context_frame (tContext (datas b t)) ?f"
  have sched: "Schedule c ?f s4 = Some (?f', s11)"
    using c(1) [unfolded not_le [symmetric]] t(3) cur out s7(1) sel s11(1)
    by (simp add: Schedule_def Let_def GetSystemTicks_def del: not_le)
  have cpu2: "ThisCpu s2 = c" using ThisCpu_rep [OF s2(2)] ThisCpu_rep [OF R] c(2) by (simp add: a2_def [symmetric] a2(5))
  then have timer: "TimerHandler ?f s2 = Some (?f', eoi c s11)"
    using s4(1) sched by (simp add: TimerHandler_def Let_def tick_def eoi_def)
  have exit: "ThreadExit code r s = Some (pop_frame (frame_words ?f'), eoi c s11)"
    using s0(1) t(3) c(2) s2(1) timer by (simp add: ThreadExit_def IrqStub_def IrqHandler_def Let_def)
  have heap: "Heap s11 = free_thread t (Threads s t) (Heap s)"
  proof -
    have "Heap s8 = Heap (outer c s8)" by simp
    also have "outer c s8 = upd_cpu c ?g (outer c s4)"
      using outer_upd_other [of ?g c s4] by (simp add: s8(4) s7(4) blank_queues_def)
    also have "Heap \<dots> = Heap (others ?a3)" using arg_cong [OF queues_repD(9) [OF q4], of Heap] by simp
    also have "\<dots> = Heap (others a)" by (simp add: a2(5))
    also have "others a = outer c s" using R by (simp add: sched_rep_def queues_rep_def)
    finally have "Heap s8 = Heap s" by simp
    moreover have "Heap s11 = Heap (outer c s11)" by simp
    moreover have "outer c s11 = others (a_dispatch c t b)" using s11(2) by (simp add: sched_rep_def queues_rep_def)
    moreover have "Heap (others (a_dispatch c t b)) = free_thread t (Threads s8 t) (Heap s8)"
      by (simp add: a_dispatch_def Let_def b_def a9_def s9(4))
    moreover have "free_thread t (Threads s8 t) h = free_thread t (Threads s t) h" for h by (simp add: free_thread_def x9)
    ultimately show ?thesis by simp
  qed
  have "tContext (datas b t) = ctx (?sv (Threads s4 t))" using rot(3) x9(1) by (simp add: b_def a9_def)
  then have "pop_frame (frame_words ?f') = regs_of (?sv (Threads s4 t))"
    unfolding regs_of_def using context_frame_regs by metis
  then have regs: "pop_frame (frame_words ?f') = type_selectors (tType (Threads s t)) r" by (simp add: regs_of_saved keep(4))
  have "CurrentThread (CpuSchedulers s11 c) = t" using others_simps(1) [OF s11(2)] by (simp add: a_dispatch_def Let_def)
  then show ?thesis using that [OF exit] heap regs s11(3) by simp
qed

section \<open>Creating a thread\<close>

lemma thread_kmalloc_frame:
  assumes "thread_kmalloc n s = Some (p, u)"
  obtains h where "KMalloc n (Heap s) = Some (p, h)" "u = s\<lparr>Heap := h\<rparr>"
  using assms by (auto simp: thread_kmalloc_def split: Option.bind_splits)

lemma create_stacks_ok:
  assumes "create_stacks ty t s = Some (True, u)"
  obtains k m h where "Threads u = (Threads s)(t := (Threads s t)\<lparr>KernelStack := k + 8192, UserStack := m, StackSize := 8192\<rparr>)"
    "ThreadList u = ThreadList s" "NextThreadId u = NextThreadId s" "SystemTicks u = SystemTicks s"
    "ThreadListLock u = ThreadListLock s" "k \<noteq> 0" "KMalloc 8192 (Heap s) = Some (k, h)"
    "if ty = ThreadTypeKernel then m = 0 \<and> Heap u = h else KMalloc 8192 h = Some (m - 8192, Heap u) \<and> m \<noteq> 8192"
proof (cases "ty = ThreadTypeKernel")
  case True
  then obtain k v where v: "thread_kmalloc 8192 s = Some (k, v)" "k \<noteq> 0"
    "u = upd_thread t (\<lambda>T. T\<lparr>KernelStack := k + 8192, UserStack := 0, StackSize := 8192\<rparr>) v"
    using assms by (auto simp: create_stacks_def split: Option.bind_splits if_splits)
  obtain h where h: "KMalloc 8192 (Heap s) = Some (k, h)" "v = s\<lparr>Heap := h\<rparr>" using v(1) by (rule thread_kmalloc_frame)
  show ?thesis by (rule that [where k = k and m = 0 and h = h]) (use v h True in simp_all)
next
  case False
  then obtain k v m w where v: "thread_kmalloc 8192 s = Some (k, v)" "k \<noteq> 0" "thread_kmalloc 8192 v = Some (m, w)" "m \<noteq> 0"
    "u = upd_thread t (\<lambda>T. T\<lparr>KernelStack := k + 8192, UserStack := m + 8192, StackSize := 8192\<rparr>) w"
    using assms by (auto simp: create_stacks_def Let_def split: Option.bind_splits if_splits)
  obtain h where h: "KMalloc 8192 (Heap s) = Some (k, h)" "v = s\<lparr>Heap := h\<rparr>" using v(1) by (rule thread_kmalloc_frame)
  obtain g where g: "KMalloc 8192 (Heap v) = Some (m, g)" "w = v\<lparr>Heap := g\<rparr>" using v(3) by (rule thread_kmalloc_frame)
  show ?thesis by (rule that [where k = k and m = "m + 8192" and h = h]) (use v h g False in simp_all)
qed

definition fresh_thread :: "ThreadType \<Rightarrow> u64 \<Rightarrow> u64 \<Rightarrow> ThreadPriority \<Rightarrow> u32 \<Rightarrow> u64 \<Rightarrow> u64 \<Rightarrow> u64 \<Rightarrow> Thread" where
  "fresh_thread ty E A P n k m now =
     (init_context ty E A (zero_thread\<lparr>ThreadId := n, ProcessId := 1, tState := ThreadStateReady, tType := ty, tPriority := P,
        BasePriority := P, KernelStack := k, UserStack := m, StackSize := 8192\<rparr>))
      \<lparr>CpuAffinity := AllCpus, LastCpu := AllCpus, TimeSlice := 10, StartTime := now, CreationTick := now,
       VirtualBase := UserVirtualBase, MemoryUsage := 16\<rparr>"

lemma init_context_simps [simp]:
  "StackSize (init_context ty E A T) = StackSize T" "tNext (init_context ty E A T) = tNext T" "tPrev (init_context ty E A T) = tPrev T"
  "Cooldown (init_context ty E A T) = Cooldown T" "WaitReason (init_context ty E A T) = WaitReason T"
  "PageDirectory (init_context ty E A T) = PageDirectory T"
  by (simp_all add: init_context_def Let_def)

lemma thread_update_same [simp]:
  "Cooldown T = 0 \<Longrightarrow> T\<lparr>Cooldown := 0\<rparr> = T" "WaitReason T = 0 \<Longrightarrow> T\<lparr>WaitReason := 0\<rparr> = T" "PageDirectory T = 0 \<Longrightarrow> T\<lparr>PageDirectory := 0\<rparr> = T"
  by (cases T; simp)+

lemma CreateThread_ok:
  assumes C: "CreateThread ty E A P s = Some (t, u)" and t: "t \<noteq> 0"
  obtains k m h h' where "KMalloc sizeof_Thread (Heap s) = Some (t, h)" "KMalloc 8192 h = Some (k, h')" "k \<noteq> 0"
    "if ty = ThreadTypeKernel then m = 0 \<and> Heap u = h' else KMalloc 8192 h' = Some (m - 8192, Heap u) \<and> m \<noteq> 8192"
    "ThreadList u = t" "NextThreadId u = NextThreadId s + 1" "ThreadListLock u = ThreadListLock s"
    "Threads u = (let T = (Threads s)(t := (fresh_thread ty E A P (NextThreadId s) (k + 8192) m (SystemTicks s))\<lparr>tNext := ThreadList s\<rparr>)
       in if ThreadList s = 0 then T else T(ThreadList s := (T (ThreadList s))\<lparr>tPrev := t\<rparr>))"
proof -
  let ?z = "zero_thread\<lparr>ThreadId := NextThreadId s, ProcessId := 1, tState := ThreadStateReady, tType := ty, tPriority := P, BasePriority := P\<rparr>"
  let ?w = "\<lambda>v. (upd_thread t (\<lambda>_. ?z) v)\<lparr>NextThreadId := NextThreadId v + 1\<rparr>"
  have "\<exists>v w. thread_kmalloc sizeof_Thread s = Some (t, v) \<and>
      create_stacks ty t (upd_thread t (\<lambda>T. T\<lparr>ThreadId := NextThreadId v, ProcessId := 1, tState := ThreadStateReady, tType := ty,
                 tPriority := P, BasePriority := P\<rparr>) ((upd_thread t (\<lambda>_. zero_thread) v)\<lparr>NextThreadId := NextThreadId v + 1\<rparr>)) = Some (True, w) \<and>
      u = finish_thread ty E A t w"
    using C t by (auto simp: CreateThread_def AllocateThreadId_def Let_def split: Option.bind_splits if_splits)
  then obtain v w where v: "thread_kmalloc sizeof_Thread s = Some (t, v)"
    and w: "create_stacks ty t (upd_thread t (\<lambda>T. T\<lparr>ThreadId := NextThreadId v, ProcessId := 1, tState := ThreadStateReady, tType := ty,
                 tPriority := P, BasePriority := P\<rparr>) ((upd_thread t (\<lambda>_. zero_thread) v)\<lparr>NextThreadId := NextThreadId v + 1\<rparr>)) = Some (True, w)"
    and u: "u = finish_thread ty E A t w" by blast
  obtain h where h: "KMalloc sizeof_Thread (Heap s) = Some (t, h)" "v = s\<lparr>Heap := h\<rparr>" using v by (rule thread_kmalloc_frame)
  obtain k m h' where x: "Threads w = (Threads s)(t := ?z\<lparr>KernelStack := k + 8192, UserStack := m, StackSize := 8192\<rparr>)"
    "ThreadList w = ThreadList s" "NextThreadId w = NextThreadId s + 1" "SystemTicks w = SystemTicks s"
    "ThreadListLock w = ThreadListLock s" "k \<noteq> 0" "KMalloc 8192 h = Some (k, h')"
    "if ty = ThreadTypeKernel then m = 0 \<and> Heap w = h' else KMalloc 8192 h' = Some (m - 8192, Heap w) \<and> m \<noteq> 8192"
    by (rule create_stacks_ok [OF w]) (simp_all add: h(2))
  have ft: "(init_context ty E A (?z\<lparr>KernelStack := k + 8192, UserStack := m, StackSize := 8192\<rparr>))\<lparr>CpuAffinity := AllCpus, LastCpu := AllCpus,
      TimeSlice := 10, Cooldown := 0, StartTime := n, CreationTick := n, WaitReason := WaitReasonNone,
      PageDirectory := 0, VirtualBase := UserVirtualBase, MemoryUsage := 16\<rparr> = fresh_thread ty E A P (NextThreadId s) (k + 8192) m n" for n
    by (simp add: fresh_thread_def init_context_def Let_def zero_thread_def)
  show ?thesis
  proof (rule that [OF h(1) x(7,6)])
    show "Threads u = (let T = (Threads s)(t := (fresh_thread ty E A P (NextThreadId s) (k + 8192) m (SystemTicks s))\<lparr>tNext := ThreadList s\<rparr>)
       in if ThreadList s = 0 then T else T(ThreadList s := (T (ThreadList s))\<lparr>tPrev := t\<rparr>))"
      unfolding u ft [symmetric] finish_thread_def by (simp add: x Let_def GetSystemTicks_def)
  qed (use x in \<open>simp_all add: u finish_thread_def Let_def\<close>)
qed

text \<open>The registers a new thread starts with: the argument was put into the field \<^verbatim>\<open>Rdi\<close> of the frame, which
  the stub pops into \<open>r10\<close>; \<open>rdi\<close> comes from the field \<^verbatim>\<open>R10\<close>, which is zero.\<close>

definition first_regs :: "ThreadType \<Rightarrow> u64 \<Rightarrow> u64 \<Rightarrow> u64 \<Rightarrow> Regs" where
  "first_regs ty E A stack = type_selectors ty
     \<lparr>rax = 0, rbx = 0, rcx = 0, rdx = 0, rsi = 0, rdi = 0, rbp = 0, r8 = 0, r9 = 0, r10 = A, r11 = 0, r12 = 0, r13 = 0, r14 = 0, r15 = 0,
      rip = E, rcs = 0, rflags = 0x202, rsp = (stack AND NOT 0xF) - 16, rss = 0\<rparr>"

lemma fresh_thread_regs: "regs_of (fresh_thread ty E A P n k m now) = first_regs ty E A (if ty = ThreadTypeKernel then k else m)"
  by (cases ty) (simp_all add: regs_of_def ctx_def selectors_def fresh_thread_def init_context_def Let_def zero_thread_def zero_context_def
      frame_words_def context_frame_def pop_frame_def first_regs_def type_selectors_def)

lemma regs_of_links [simp]: "regs_of (T\<lparr>tNext := x\<rparr>) = regs_of T" "regs_of (T\<lparr>tPrev := x\<rparr>) = regs_of T"
  by (simp_all add: regs_of_def ctx_def selectors_def)

section \<open>The list of all threads\<close>

lemma find_thread_list:
  "thread_queue T p xs \<Longrightarrow>
     find_thread T n p = Some (case filter (\<lambda>x. ThreadId (T x) = n) xs of [] \<Rightarrow> 0 | x # _ \<Rightarrow> x)"
  by (induction xs arbitrary: p) (subst find_thread.simps; auto)+

lemma count_threads_list:
  "thread_queue T p xs \<Longrightarrow> count_threads T p n = Some (n + word_of_nat (length xs))"
proof (induction xs arbitrary: p n)
  case (Cons x xs)
  then show ?case using Cons.IH [of "tNext (T x)" "n + 1"] by (subst count_threads.simps) (simp add: ac_simps)
qed (simp add: count_threads.simps)

lemma thread_queue_cut:
  assumes "thread_queue T p (xs @ t # ys)" "distinct (xs @ t # ys)" "tNext v = 0"
  shows "thread_queue (T(t := v)) p (xs @ [t])"
  using assms
proof (induction xs arbitrary: p)
  case (Cons x xs)
  then show ?case by simp
qed simp

end
