(* ===== verification/ThreadSpec.thy ===== *)
theory ThreadSpec
  imports ThreadSwitch
begin

text \<open>The properties of the scheduler and the thread manager, each with a concrete machine it applies to.\<close>

section \<open>A running system\<close>

definition idle_cpu :: CpuScheduler where
  "idle_cpu = \<lparr>ReadyQueue = 0, WaitingQueue = 0, ZombieQueue = 0, SleepingQueue = 0, CurrentThread = 0, NextThread = 0,
     IdleThread = 0, ThreadCount = 0, ReadyCount = 0, sPriority = 0, LastSchedule = 0, ScheduleTicks = 0,
     SchedulerLock = free_lock, sContextSwitches = 0, IdleTicks = 0, LoadAverage = 0\<rparr>"

definition boot_sched :: sched where
  "boot_sched = \<lparr>Threads = (\<lambda>_. zero_thread), Heap = demo_kmem, NextThreadId = 1, ThreadList = 0, ThreadListLock = free_lock,
     CurrentThreads = (\<lambda>_. 0), CurrentThreadLock = free_lock, CpuSchedulers = (\<lambda>_. idle_cpu), SystemTicks = 0,
     TimerInterruptCount = 0, CpuDataArray = (\<lambda>_. \<lparr>ApicBase = 0xFFFF8000FEE00000, LocalTicks = 0, LocalInterrupts = 0\<rparr>),
     CpuCount = 1, SchedFlags = no_flags, ThisCpu = 0, Cr3 = 0, Fpu = replicate 512 0, MmioWrites = [], PortWrites = []\<rparr>"

text \<open>One thread running on CPU 0, and another ready with a cooldown of 3.\<close>

definition demo_sched :: sched where
  "demo_sched = (upd_thread 0x2000 (\<lambda>T. T\<lparr>Cooldown := 3\<rparr>)
     (upd_thread 0x1000 (\<lambda>T. T\<lparr>tState := ThreadStateRunning\<rparr>)
       (upd_cpu 0 (\<lambda>C. C\<lparr>ReadyQueue := 0x2000, ReadyCount := 1, CurrentThread := 0x1000\<rparr>) boot_sched)))
     \<lparr>CurrentThreads := (\<lambda>_. 0)(0 := 0x1000)\<rparr>"

definition demo_alone :: sched where
  "demo_alone = (upd_thread 0x1000 (\<lambda>T. T\<lparr>tState := ThreadStateRunning\<rparr>)
       (upd_cpu 0 (\<lambda>C. C\<lparr>CurrentThread := 0x1000\<rparr>) boot_sched))
     \<lparr>CurrentThreads := (\<lambda>_. 0)(0 := 0x1000)\<rparr>"

definition demo_first :: sched where
  "demo_first = upd_cpu 0 (\<lambda>C. C\<lparr>ReadyQueue := 0x1000, ReadyCount := 1\<rparr>) boot_sched"

definition view_of :: "sched \<Rightarrow> u64 list \<Rightarrow> asched" where
  "view_of s ts = \<lparr>ready = ts, waiting = [], zombies = [], sleeping = [], datas = (\<lambda>x. data (Threads s x)), others = outer 0 s\<rparr>"

lemma demo_ok: "cpu_ok 0 demo_sched (view_of demo_sched [0x2000])" "cpu_ok 0 demo_alone (view_of demo_alone [])"
  "cpu_ok 0 demo_first (view_of demo_first [0x1000])"
  by (simp_all add: cpu_ok_def sched_ok_def sched_rep_def queues_rep_def detached_def view_of_def demo_sched_def demo_alone_def demo_first_def
      boot_sched_def idle_cpu_def locks_free_def free_lock_def zero_thread_def)

text \<open>C3: the preemptive scheduler, over any number of timer interrupts on a CPU. Started in a state whose four
  queues represent four lists of distinct threads (the running one in none of them), every interrupt returns,
  the queues again represent the lists of the abstract scheduler, and the registers given back are the abstract
  scheduler's.\<close>

theorem scheduler_refines:
  assumes "cpu_ok c s a"
  shows "\<exists>u. run (IrqStub 32) rs s = Some (fst (a_run (a_irq c) rs a), u) \<and> cpu_ok c u (snd (a_run (a_irq c) rs a))"
  by (rule preempt.run_refines [OF assms])

theorem scheduler_refines_witness:
  "\<exists>u. run (IrqStub 32) (replicate 7 (first_regs ThreadTypeKernel 0x100 5 0x9000)) demo_sched =
      Some (fst (a_run (a_irq 0) (replicate 7 (first_regs ThreadTypeKernel 0x100 5 0x9000)) (view_of demo_sched [0x2000])), u)"
  using scheduler_refines [OF demo_ok(1)] by blast

text \<open>C10: no ready thread starves. A thread in the ready queue of a CPU with cooldown \<open>k\<close> is running after at most
  \<open>(k + 1) * n\<close> timer interrupts, where \<open>n\<close> is the number of threads of the CPU, whatever the interrupted code
  does to the registers meanwhile.\<close>

theorem ready_thread_runs:
  assumes "cpu_ok c s a" "t \<in> set (ready a)"
    and "length rs = (unat (Cooldown (Threads s t)) + 1) * (length (queued a) + 1)"
  shows "\<exists>n xs u. 0 < n \<and> n \<le> length rs \<and> run (IrqStub 32) (take n rs) s = Some (xs, u) \<and>
    CurrentThread (CpuSchedulers u c) = t \<and> tState (Threads u t) = ThreadStateRunning"
proof -
  let ?N = "length (queued a) + 1"
  let ?goal = "\<lambda>b. CurrentThread (CpuSchedulers (others b) c) = t \<and> tState (datas b t) = ThreadStateRunning"
  have ok: "sched_ok c s a" using assms(1) by (simp add: cpu_ok_def)
  then have R: "sched_rep c s a" by (simp add: sched_ok_def)
  have "t \<noteq> 0" using R assms(2) queued_nonzero by (auto simp: sched_rep_def)
  then have ng: "\<not> ?goal a" using ok assms(2) others_simps(1) [OF R] by (auto simp: sched_ok_def detached_def)
  have w: "waiting_in c ?N t a" using assms(1,2) by (auto simp: waiting_in_def a_load_def)
  have "cool (datas a) t = unat (Cooldown (Threads s t))" using others_simps(4) [OF R, of t] by (simp add: cool_def)
  moreover have "pos t (ready a) < ?N" using pos_less [OF assms(2)] by simp
  ultimately have "Suc (wait_bound ?N t a) \<le> length rs" using assms(3) by (simp add: wait_bound_def)
  then have "\<exists>n xs u b. 0 < n \<and> n \<le> Suc (wait_bound ?N t a) \<and> run (IrqStub 32) (take n rs) s = Some (xs, u) \<and> cpu_ok c u b \<and> ?goal b"
    by (rule preempt.run_reaches [where goal = ?goal and I = "waiting_in c ?N t" and \<mu> = "wait_bound ?N t", OF assms(1) ng _ w order_refl]) (rule a_irq_progress)
  then obtain n xs u b where n: "0 < n" "n \<le> Suc (wait_bound ?N t a)" "run (IrqStub 32) (take n rs) s = Some (xs, u)"
    "cpu_ok c u b" "?goal b" by blast
  then have "sched_rep c u b" by (simp add: cpu_ok_def sched_ok_def)
  then have "CurrentThread (CpuSchedulers u c) = t" "tState (Threads u t) = ThreadStateRunning"
    using n(5) others_simps(1) [of c u b] others_simps(4) [of c u b t] data_fields(1) [of "Threads u t"] by simp_all
  moreover have "n \<le> length rs" using n(2) \<open>Suc (wait_bound ?N t a) \<le> length rs\<close> by simp
  ultimately show ?thesis using n(1,3) by blast
qed

theorem ready_thread_runs_witness:
  "\<exists>n xs u. 0 < n \<and> n \<le> 8 \<and> run (IrqStub 32) (take n (replicate 8 (first_regs ThreadTypeKernel 0x100 5 0x9000))) demo_sched = Some (xs, u) \<and>
    CurrentThread (CpuSchedulers u 0) = 0x2000 \<and> tState (Threads u 0x2000) = ThreadStateRunning"
  using ready_thread_runs [OF demo_ok(1), where t = "0x2000" and rs = "replicate 8 (first_regs ThreadTypeKernel 0x100 5 0x9000)"]
  by (simp add: view_of_def demo_sched_def boot_sched_def)


text \<open>C14: the loop of \<^verbatim>\<open>Schedule\<close> in closed form. It ends for every queue, and after waking and reaping it
  takes the first of the threads with the smallest cooldown \<open>m\<close>: those before it have gone round \<open>m + 1\<close> times and
  those behind it \<open>m\<close> times, so the queue is left rotated and every cooldown has fallen by that number; the
  thread taken gets the cooldown of its priority.\<close>

theorem SelectAgain_min_cooldown:
  assumes "sched_rep c s a" "c < MaxCPUs" "length (queued a) < 2 ^ 32"
    and "b = a_cleanup (a_wake (SystemTicks s) a)" "ready b = xs @ t # ys"
    and "\<forall>x \<in> set xs. Cooldown (datas b t) < Cooldown (datas b x)" "\<forall>y \<in> set ys. Cooldown (datas b t) \<le> Cooldown (datas b y)"
  shows "\<exists>u. SelectAgain c s = Some (t, u) \<and>
    sched_rep c u (b\<lparr>ready := ys @ xs, datas := after_select c (unat (Cooldown (datas b t))) xs t ys (datas b)\<rparr>)"
proof -
  have k: "SystemTicks (others a) = SystemTicks s" by (rule sched_rep_ticks [OF assms(1)])
  have "distinct (queued a)" using assms(1) queues_repD(5) by (simp add: sched_rep_def) blast
  then have "distinct (queued (a_wake (SystemTicks s) a))" by (rule a_wake_distinct)
  then have "distinct (ready b)" by (simp add: assms(4) a_cleanup_def)
  then have "rotate_queue c (ready b) (datas b) = (t, ys @ xs, after_select c (cool (datas b) t) xs t ys (datas b))"
    unfolding assms(5) by (rule rotate_queue_min) (use assms(6,7) in \<open>simp_all add: cool_def word_less_nat_alt word_le_nat_alt\<close>)
  then have "a_select c a = (t, b\<lparr>ready := ys @ xs, datas := after_select c (cool (datas b) t) xs t ys (datas b)\<rparr>)"
    by (simp add: a_select_def a_rotate_def k assms(4) [symmetric])
  then show ?thesis using SelectAgain_rep [OF assms(1-3)] by (auto simp: cool_def)
qed

theorem SelectAgain_min_cooldown_witness:
  "\<exists>u. SelectAgain 0 demo_sched = Some (0x2000, u)"
proof -
  have R: "sched_rep 0 demo_sched (view_of demo_sched [0x2000])" using demo_ok(1) by (simp add: cpu_ok_def sched_ok_def)
  have "a_wake k (view_of demo_sched [0x2000]) = view_of demo_sched [0x2000]" for k by (rule a_wake_none) (simp add: view_of_def)
  then show ?thesis
    using SelectAgain_min_cooldown [OF R, where xs = "[]" and ys = "[]" and t = "0x2000"] by (auto simp: a_cleanup_def view_of_def)
qed

text \<open>C5: the registers and the FPU state of every thread survive context switches. A timer interrupt leaves the saved
  context of every thread but the running one as it was; the running thread's becomes exactly the interrupted
  registers (with the code and stack selectors of its type) and the FPU image; and the registers and FPU image the
  interrupt returns with are those saved for the thread that now runs.\<close>

theorem context_switch:
  assumes "cpu_ok c s a" "t = CurrentThread (CpuSchedulers s c)"
  shows "\<exists>r' u. IrqStub 32 r s = Some (r', u) \<and>
    (\<forall>x. x \<noteq> t \<longrightarrow> ctx (Threads u x) = ctx (Threads s x)) \<and>
    (t \<noteq> 0 \<longrightarrow> regs_of (Threads u t) = type_selectors (tType (Threads s t)) r \<and> FpuState (ctx (Threads u t)) = Fpu s) \<and>
    (let p = CurrentThread (CpuSchedulers u c) in
       if p = 0 then r' = r else r' = regs_of (Threads u p) \<and> Fpu u = FpuState (ctx (Threads u p)))"
proof -
  have ok: "sched_ok c s a" "c < MaxCPUs" "ThisCpu s = c" using assms(1) by (simp_all add: cpu_ok_def)
  then have R: "sched_rep c s a" by (simp add: sched_ok_def)
  obtain u where u: "IrqStub 32 r s = Some (fst (a_irq c r a), u)" "sched_ok c u (snd (a_irq c r a))" using IrqStub_step [OF ok] by blast
  then have Ru: "sched_rep c u (snd (a_irq c r a))" by (simp add: sched_ok_def)
  have t: "t = CurrentThread (CpuSchedulers (others a) c)" using others_simps(1) [OF R] assms(2) by simp
  note i = a_irq_ctx [OF t] and o = others_simps [OF R] others_simps [OF Ru]
  have "regs_of (Threads u t) = type_selectors (tType (Threads s t)) r \<and> FpuState (ctx (Threads u t)) = Fpu s" if "t \<noteq> 0"
  proof -
    let ?sv = "saved (Fpu (others a)) (frame_at (push_frame 32 0 r)) (datas a t)"
    have "ctx (Threads u t) = ctx ?sv" using i(2) [OF that, of r] ctx_of_rep(1) [OF Ru] by simp
    moreover have "FpuState (ctx ?sv) = Fpu s" by (simp add: ctx_def selectors_def saved_def frame_context_def o)
    ultimately show ?thesis using regs_of_ctx [of "Threads u t" ?sv] by (simp add: regs_of_saved ctx_of_rep(2) [OF R])
  qed
  moreover have "ctx (Threads u x) = ctx (Threads s x)" if "x \<noteq> t" for x
    using i(1) [OF that, of r] ctx_of_rep(1) [OF Ru] ctx_of_rep(1) [OF R] by metis
  moreover have "regs_of (datas (snd (a_irq c r a)) x) = regs_of (Threads u x)" for x
    using ctx_of_rep(1) [OF Ru] by (rule regs_of_ctx)
  ultimately show ?thesis
    using u(1) i(4) [OF refl, of r] ctx_of_rep(1) [OF Ru] others_simps(1,2) [OF Ru]
    by (intro exI [of _ "fst (a_irq c r a)"] exI [of _ u]) (auto simp: Let_def split: if_splits)
qed

theorem context_switch_witness:
  "\<exists>r' u. IrqStub 32 (first_regs ThreadTypeKernel 0x100 5 0x9000) demo_sched = Some (r', u) \<and>
    regs_of (Threads u 0x1000) = first_regs ThreadTypeKernel 0x100 5 0x9000"
  using context_switch [OF demo_ok(1) refl, of "first_regs ThreadTypeKernel 0x100 5 0x9000"]
  by (auto simp: demo_sched_def boot_sched_def zero_thread_def first_regs_def type_selectors_def)

text \<open>C20: privilege. When a timer interrupt dispatches a thread, the CPU returns to ring 3 exactly when the thread is a
  user thread, with the code and stack selectors of that ring.\<close>

theorem dispatch_privilege:
  assumes "cpu_ok c s a" "IrqStub 32 r s = Some (r', u)" "CurrentThread (CpuSchedulers u c) \<noteq> 0"
  shows "(rcs r', rss r') =
    (if tType (Threads s (CurrentThread (CpuSchedulers u c))) = ThreadTypeUser then (0x23, 0x1B) else (0x08, 0x10))"
proof -
  have ok: "sched_ok c s a" "c < MaxCPUs" "ThisCpu s = c" using assms(1) by (simp_all add: cpu_ok_def)
  then have R: "sched_rep c s a" by (simp add: sched_ok_def)
  have u: "r' = fst (a_irq c r a)" "sched_ok c u (snd (a_irq c r a))" using IrqStub_step [OF ok, of r] assms(2) by auto
  then have Ru: "sched_rep c u (snd (a_irq c r a))" by (simp add: sched_ok_def)
  let ?p = "CurrentThread (CpuSchedulers u c)"
  have t: "CurrentThread (CpuSchedulers s c) = CurrentThread (CpuSchedulers (others a) c)" using others_simps(1) [OF R] by simp
  note i = a_irq_ctx(3) [OF t, where r = r] a_irq_ctx(4) [OF t, where r = r]
  have sel: "(rcs (regs_of T), rss (regs_of T)) = (if tType T = ThreadTypeUser then (0x23, 0x1B) else (0x08, 0x10))" for T
    by (simp add: regs_of_def ctx_def selectors_def frame_words_def context_frame_def pop_frame_def)
  have "?p = CurrentThread (CpuSchedulers (others (snd (a_irq c r a))) c)" using others_simps(1) [OF Ru] by simp
  from i(2) [OF this] have "r' = regs_of (datas (snd (a_irq c r a)) ?p)" using u(1) assms(3) by simp
  moreover have "tType (datas (snd (a_irq c r a)) ?p) = tType (Threads s ?p)" using i(1) ctx_of_rep(2) [OF R] by simp
  ultimately show ?thesis using sel [of "datas (snd (a_irq c r a)) ?p"] by simp
qed

theorem dispatch_privilege_witness:
  "\<exists>r' u. IrqStub 32 (first_regs ThreadTypeUser 0x100 5 0x9000) demo_first = Some (r', u) \<and>
     CurrentThread (CpuSchedulers u 0) = 0x1000 \<and> (rcs r', rss r') = (0x08, 0x10)"
proof -
  let ?r = "first_regs ThreadTypeUser 0x100 5 0x9000" and ?a = "view_of demo_first [0x1000]"
  obtain r' u where u: "IrqStub 32 ?r demo_first = Some (r', u)" "r' = fst (a_irq 0 ?r ?a)" "cpu_ok 0 u (snd (a_irq 0 ?r ?a))"
    using preempt.step_refines [OF demo_ok(3), of ?r] by blast
  have c: "CurrentThread (CpuSchedulers (others ?a) 0) = 0" "ready ?a = [0x1000]" "Cooldown (datas ?a 0x1000) = 0"
    by (simp_all add: view_of_def outer_def outer_cpus_def blank_queues_def demo_first_def boot_sched_def idle_cpu_def zero_thread_def)
  have "waiting_in 0 1 0x1000 ?a" using demo_ok(3) c by (auto simp: waiting_in_def a_load_def view_of_def)
  moreover have "wait_bound 1 0x1000 ?a = 0" using c by (simp add: wait_bound_def cool_def pos_def)
  ultimately have "CurrentThread (CpuSchedulers (others (snd (a_irq 0 ?r ?a))) 0) = 0x1000" using a_irq_progress [where c = 0 and N = 1 and t = "0x1000" and a = ?a and r = ?r] by auto
  moreover have R: "sched_rep 0 u (snd (a_irq 0 ?r ?a))" using u(3) by (simp add: cpu_ok_def sched_ok_def)
  ultimately have p: "CurrentThread (CpuSchedulers u 0) = 0x1000" by (simp only: others_simps(1) [OF R])
  then show ?thesis
    using u(1) dispatch_privilege [OF demo_ok(3) u(1)] by (simp add: demo_first_def boot_sched_def zero_thread_def)
qed

text \<open>C28: a thread that exits while no other thread of its CPU is ready or asleep is destroyed, its stacks and its record are
  given back to the heap, and then it is resumed: \<^verbatim>\<open>ThreadExit\<close> returns to its caller, with the thread still the
  running one. \<^verbatim>\<open>Schedule\<close> puts the zombie back into the ready queue before it empties the zombie queue.\<close>

theorem ThreadExit_resumes_freed:
  assumes "cpu_ok c s a" "CurrentThread (CpuSchedulers s c) = t" "CurrentThreads s c = t" "t \<noteq> 0"
    and "ready a = []" "zombies a = []" "sleeping a = []"
  shows "\<exists>u. ThreadExit code r s = Some (type_selectors (tType (Threads s t)) r, u) \<and>
    CurrentThread (CpuSchedulers u c) = t \<and> tState (Threads u t) = ThreadStateRunning \<and>
    Heap u = free_thread t (Threads s t) (Heap s)"
proof -
  obtain r' u where "ThreadExit code r s = Some (r', u)" "CurrentThread (CpuSchedulers u c) = t"
    "tState (Threads u t) = ThreadStateRunning" "Heap u = free_thread t (Threads s t) (Heap s)"
    "r' = type_selectors (tType (Threads s t)) r"
    by (rule ThreadExit_idle [OF assms, of code r]) blast
  then show ?thesis by blast
qed

theorem ThreadExit_resumes_freed_witness:
  "\<exists>u. ThreadExit 7 (first_regs ThreadTypeKernel 0x100 5 0x9000) demo_alone =
     Some (first_regs ThreadTypeKernel 0x100 5 0x9000, u) \<and> CurrentThread (CpuSchedulers u 0) = 0x1000 \<and>
     Heap u = free_thread 0x1000 (Threads demo_alone 0x1000) (Heap demo_alone)"
  using ThreadExit_resumes_freed [OF demo_ok(2), where t = "0x1000" and code = 7 and r = "first_regs ThreadTypeKernel 0x100 5 0x9000"]
  by (auto simp: demo_alone_def boot_sched_def zero_thread_def first_regs_def type_selectors_def view_of_def)


lemma a_rotate_empty: "ready a = [] \<Longrightarrow> a_rotate c a = (0, a)"
  by (cases a) (simp add: a_rotate_def)

text \<open>A thread that goes to sleep while no other thread of its CPU is ready does not sleep. \<^verbatim>\<open>Schedule\<close> puts it into
  the sleeping queue, finds no thread to run and returns with the interrupt frame unchanged, so that the interrupted
  code, \<^verbatim>\<open>ThreadSleep\<close> itself, goes on at once on a CPU whose current thread is none.\<close>

theorem ThreadSleep_idle_returns:
  assumes "cpu_ok c s a" "CurrentThread (CpuSchedulers s c) = t" "CurrentThreads s c = t" "t \<noteq> 0"
    and "ready a = []" "zombies a = []" "sleeping a = []" and "SystemTicks s + 1 < SystemTicks s + ms"
  shows "\<exists>u b. ThreadSleep ms r s = Some (r, u) \<and> cpu_ok c u b \<and> CurrentThread (CpuSchedulers u c) = 0 \<and>
    sleeping b = [t] \<and> WakeupTime (Threads u t) = SystemTicks s + ms \<and> SystemTicks u = SystemTicks s + 1"
proof -
  have ok: "sched_ok c s a" "c < MaxCPUs" "ThisCpu s = c" using assms(1) by (simp_all add: cpu_ok_def)
  then have R: "sched_rep c s a" and d: "detached t s a" using assms(2,4) by (auto simp: sched_ok_def)
  obtain s0 where s0: "GetCurrentThread c s = Some (t, s0)" "sched_rep c s0 a" "Threads s0 = Threads s" "ThisCpu s0 = ThisCpu s"
    "SystemTicks s0 = SystemTicks s"
    using GetCurrentThread_rep [OF R ok(2)] assms(3) by metis
  let ?f = "\<lambda>T. T\<lparr>tState := ThreadStateSleeping, WaitReason := WaitReasonSleep, WakeupTime := SystemTicks s + ms\<rparr>"
  let ?s1 = "upd_thread t ?f s0" and ?a1 = "a_upd t ?f a"
  have R1: "sched_rep c ?s1 ?a1" by (rule upd_thread_sched_rep [OF s0(2)]) (use d in \<open>auto simp: data_def detached_def\<close>)
  have ct: "CurrentThread (CpuSchedulers s0 c) = t" using others_simps(1) [OF R] others_simps(1) [OF s0(2)] assms(2) by simp
  have "sched_ok c ?s1 ?a1"
    using R1 ok(1) d assms(2,4) s0(3) ct by (simp add: sched_ok_def detached_def)
  then have c1: "cpu_ok c ?s1 ?a1" using ok s0(4) by (simp add: cpu_ok_def)
  obtain u where u: "IrqStub 32 r ?s1 = Some (fst (a_irq c r ?a1), u)" "cpu_ok c u (snd (a_irq c r ?a1))"
    using preempt.step_refines [OF c1] by blast
  let ?k = "SystemTicks (tick (others ?a1))" and ?f' = "frame_at (push_frame 32 0 r)"
  let ?a2 = "?a1\<lparr>others := tick (others ?a1)\<rparr>"
  have k: "?k = SystemTicks s + 1" "SystemTicks (others ?a1) = SystemTicks s" using sched_rep_ticks [OF R] by simp_all
  have w2: "a_wake ?k ?a2 = ?a2" by (rule a_wake_none) (simp add: assms(7))
  have ct2: "t = CurrentThread (CpuSchedulers (others ?a2) c)" using others_simps(1) [OF R] assms(2) by simp
  let ?a3 = "?a2\<lparr>others := upd_cpu c (\<lambda>C. C\<lparr>ScheduleTicks := ScheduleTicks C + 1, LastSchedule := ?k\<rparr>) (others ?a2)\<rparr>"
  let ?a4 = "a_sleep t (a_upd t (saved (Fpu (others ?a2)) ?f') ?a3)"
  have pa: "a_put_away c t (a_upd t (saved (Fpu (others ?a2)) ?f') ?a3) = ?a4" by (simp add: a_put_away_def saved_def)
  have a4: "ready ?a4 = []" "zombies ?a4 = []" "sleeping ?a4 = [t]" "SystemTicks (others ?a4) = SystemTicks s + 1"
    "WakeupTime (datas ?a4 t) = SystemTicks s + ms"
    using assms(5-7) k by (simp_all add: a_sleep_def saved_def)
  then have "settled ?a4" using assms(8) by (auto simp: settled_def due_def)
  then have "a_select c ?a4 = a_rotate c ?a4" using a_wake_settled a_cleanup_settled by (simp add: a_select_def)
  moreover have "a_rotate c ?a4 = (0, ?a4)"
    by (rule a_rotate_empty [OF a4(1)])
  ultimately have sel: "a_select c ?a4 = (0, ?a4)" by simp
  let ?b = "?a4\<lparr>others := upd_cpu c (\<lambda>C. C\<lparr>CurrentThread := 0, IdleTicks := IdleTicks C + 1\<rparr>) (others ?a4)\<rparr>"
  have sch: "a_schedule c ?f' ?a2 = (?f', ?b)"
    by (rule a_schedule_idle [OF sel ct2, where k = ?k and fpu = "Fpu (others ?a2)"])
      (use pa assms(4) in \<open>simp_all add: Let_def\<close>)
  have irq: "a_irq c r ?a1 = (r, ?b\<lparr>others := eoi c (others ?b)\<rparr>)"
    using sch w2 by (simp add: a_irq_def a_timer_def Let_def frame_roundtrip)
  let ?e = "?b\<lparr>others := eoi c (others ?b)\<rparr>"
  have Ru: "sched_rep c u ?e" using u(2) irq by (simp add: cpu_ok_def sched_ok_def)
  have "ThreadSleep ms r s = Some (r, u)"
    using s0(1,5) ok(3) assms(4) u(1) irq by (simp add: ThreadSleep_def GetSystemTicks_def)
  moreover have "cpu_ok c u ?e" using u(2) irq by simp
  moreover have "CurrentThread (CpuSchedulers u c) = 0" "SystemTicks u = SystemTicks s + 1"
    using others_simps(1,3) [OF Ru] a4(4) by simp_all
  moreover have "WakeupTime (Threads u t) = SystemTicks s + ms"
    using others_simps(4) [OF Ru, of t] a4(5) data_fields(6) [of "Threads u t"] by simp
  moreover have "sleeping ?e = [t]" using a4(3) by simp
  ultimately show ?thesis by blast
qed

theorem ThreadSleep_idle_returns_witness:
  "\<exists>u. ThreadSleep 500 (first_regs ThreadTypeKernel 0x100 5 0x9000) demo_alone = Some (first_regs ThreadTypeKernel 0x100 5 0x9000, u) \<and>
     CurrentThread (CpuSchedulers u 0) = 0"
  using ThreadSleep_idle_returns [OF demo_ok(2), where t = "0x1000" and ms = 500 and r = "first_regs ThreadTypeKernel 0x100 5 0x9000"]
  by (auto simp: demo_alone_def boot_sched_def view_of_def)

lemma thread_update_links [simp]:
  "ThreadId (fresh_thread ty E A P n k m now) = n" "tState (fresh_thread ty E A P n k m now) = ThreadStateReady"
  "tType (fresh_thread ty E A P n k m now) = ty" "tPriority (fresh_thread ty E A P n k m now) = P"
  by (simp_all add: fresh_thread_def init_context_def Let_def)

lemma CreateThread_kernel_returns:
  assumes "KMalloc sizeof_Thread (Heap s) = Some (t, h)" "t \<noteq> 0" "KMalloc 8192 h = Some (k, h')" "k \<noteq> 0"
  obtains u where "CreateThread ThreadTypeKernel E A P s = Some (t, u)"
  using assms by (auto simp: CreateThread_def thread_kmalloc_def create_stacks_def AllocateThreadId_def Let_def)

text \<open>C21: creating a kernel thread when the heap can serve it. The thread is linked at the head of the list of threads
  with the next identifier, ready, and no other record changes but the back link of the old head; its first
  registers are the entry point, the top of its own stack and the kernel's selectors. The argument arrives in
  \<^verbatim>\<open>r10\<close> and \<^verbatim>\<open>rdi\<close> is 0, as the fields of \<^verbatim>\<open>InterruptFrame\<close> are declared in the reverse of the order in which the
  stub pushes them: an entry function of the C calling convention does not get its argument.\<close>

theorem CreateThread_argument:
  assumes "KMalloc 1744 (Heap s) = Some (t, h)" "t \<noteq> 0" "KMalloc 8192 h = Some (k, h')" "k \<noteq> 0" "ThreadList s \<noteq> t"
  shows "\<exists>u. CreateThread ThreadTypeKernel E A P s = Some (t, u) \<and> Heap u = h' \<and> ThreadList u = t \<and>
    NextThreadId u = NextThreadId s + 1 \<and> tNext (Threads u t) = ThreadList s \<and> ThreadId (Threads u t) = NextThreadId s \<and>
    tState (Threads u t) = ThreadStateReady \<and> tPriority (Threads u t) = P \<and>
    (\<forall>x \<in> - {t, ThreadList s}. Threads u x = Threads s x) \<and>
    (let r = regs_of (Threads u t) in rip r = E \<and> r10 r = A \<and> rdi r = 0 \<and>
       rsp r = ((k + 8192) AND NOT 0xF) - 16 \<and> rcs r = 0x08 \<and> rss r = 0x10)"
proof -
  obtain u where u: "CreateThread ThreadTypeKernel E A P s = Some (t, u)"
    by (rule CreateThread_kernel_returns [OF assms(1-4)])
  show ?thesis
  proof (rule CreateThread_ok [OF u assms(2)])
    fix j m g g'
    assume c: "KMalloc sizeof_Thread (Heap s) = Some (t, g)" "KMalloc 8192 g = Some (j, g')"
      "if ThreadTypeKernel = ThreadTypeKernel then m = 0 \<and> Heap u = g' else KMalloc 8192 g' = Some (m - 8192, Heap u) \<and> m \<noteq> 8192"
      "ThreadList u = t" "NextThreadId u = NextThreadId s + 1"
      and T: "Threads u = (let T = (Threads s)(t := (fresh_thread ThreadTypeKernel E A P (NextThreadId s) (j + 8192) m (SystemTicks s))\<lparr>tNext := ThreadList s\<rparr>)
       in if ThreadList s = 0 then T else T(ThreadList s := (T (ThreadList s))\<lparr>tPrev := t\<rparr>))"
    have j: "j = k" "g' = h'" using c(1,2) assms(1,3) by simp_all
    have t: "Threads u t = (fresh_thread ThreadTypeKernel E A P (NextThreadId s) (k + 8192) m (SystemTicks s))\<lparr>tNext := ThreadList s\<rparr>"
      using T assms(5) by (simp add: j Let_def)
    have x: "Threads u x = Threads s x" if "x \<in> - {t, ThreadList s}" for x using T that by (simp add: Let_def)
    show ?thesis
      using u c(3-5) x by (intro exI [of _ u]) (simp add: j t fresh_thread_regs first_regs_def type_selectors_def Let_def)
  qed
qed

section \<open>A machine with more memory\<close>

definition big_pmm :: PhysicalMemoryManager where
  "big_pmm = InitializePmm 0 6 (Some 0xFFFF800000000000)
     (Some [\<lparr>entry_base = 0, entry_length = 0x1000, entry_type = 1\<rparr>, \<lparr>entry_base = 0x1000, entry_length = 0x7000, entry_type = 0\<rparr>]) pmm_static"

definition big_kmem :: kmem where
  "big_kmem = InitializeKHeap
     \<lparr>KHeap = \<lparr>Caches = replicate 8 \<lparr>Slabs = 0, CacheObjectSize = 0, ObjectsPerSlab = 0\<rparr>,
               SlabSizes = replicate 8 0, CacheCount = 0\<rparr>, Pmm = big_pmm, Mem = (\<lambda>_. 0)\<rparr>"

lemma big_pmm_eval:
  "Bitmap big_pmm \<noteq> 0" "HhdmOffset big_pmm = 0xFFFF800000000000" "TotalPages big_pmm = 8"
  "fst (AllocPages 2 big_pmm) = 0x2000" "fst (AllocPage big_pmm) = 0x2000" "fst (AllocPages 2 (snd (AllocPage big_pmm))) = 0x3000"
  by code_simp+

lemma KMalloc_small_pmm:
  assumes "KMalloc n h = Some (p, t)" "n \<le> 2048"
  shows "Pmm t = Pmm h \<or> Pmm t = snd (AllocPage (Pmm h))"
  using assms
  by (auto simp: KMalloc_def Let_def AllocateSlab_def take_object_def push_slab_def not_le [symmetric]
      split: prod.splits if_splits option.splits)

lemma big_kmem_ok: "heap_ok (\<lambda>_. []) big_kmem" "Pmm big_kmem = big_pmm"
proof -
  have "memmap_ok 0 [\<lparr>entry_base = 0, entry_length = 0x1000, entry_type = 1\<rparr>, \<lparr>entry_base = 0x1000, entry_length = 0x7000, entry_type = 0\<rparr>]"
    by (simp add: memmap_ok_def)
  then have "pmm_inv big_pmm" by (rule InitializePmm_spec [OF _ pmm_static_simps(1-3) big_pmm_def big_pmm_eval(1)])
  moreover have "hhdm_ok big_pmm" by (simp add: hhdm_ok_def big_pmm_eval)
  ultimately show "heap_ok (\<lambda>_. []) big_kmem"
    unfolding big_kmem_def by (intro InitializeKHeap_ok) (simp_all add: InitializeKHeap_def Let_def)
  show "Pmm big_kmem = big_pmm" by (simp add: big_kmem_def InitializeKHeap_def Let_def)
qed

lemma big_kmem_serves:
  obtains t h k h' where "KMalloc 1744 big_kmem = Some (t, h)" "t \<noteq> 0" "KMalloc 8192 h = Some (k, h')" "k \<noteq> 0"
proof -
  have inv: "heap_inv big_kmem" using big_kmem_ok(1) by (auto simp: heap_inv_def)
  have av: "avail_addrs (Pmm big_kmem) \<noteq> {}"
  proof
    assume "avail_addrs (Pmm big_kmem) = {}"
    then have "fst (AllocPage big_pmm) = 0"
      using pmm.alloc_succeeds_iff [OF heap_okD(1) [OF big_kmem_ok(1)]] big_kmem_ok(2) by simp
    then show False by (simp add: big_pmm_eval)
  qed
  obtain t k h where h: "KMalloc 1744 big_kmem = Some (t, h)" "t \<noteq> 0" 
    by (rule KMalloc_succeeds [OF inv _ _ av, of 1744]) simp_all
  have P: "Pmm h = big_pmm \<or> Pmm h = snd (AllocPage big_pmm)" using KMalloc_small_pmm [OF h(1)] big_kmem_ok(2) by simp
  obtain a Q where Q: "AllocPages 2 (Pmm h) = (a, Q)" by force
  have "HhdmOffset (snd (AllocPage big_pmm)) = HhdmOffset big_pmm"
    using alloc_pmm_frame(1) [OF heap_okD(1) [OF big_kmem_ok(1)] prod.collapse [symmetric]] unfolding big_kmem_ok(2) .
  then have "HhdmOffset (Pmm h) = 0xFFFF800000000000" using P by (elim disjE) (simp_all only: big_pmm_eval(2))
  then have hh: "HhdmOffset Q = 0xFFFF800000000000" using AllocPages_frame(1) [of 2 "Pmm h"] by (simp only: Q snd_conv)
  have a': "a = 0x2000 \<or> a = 0x3000"
    using P
  proof
    assume "Pmm h = big_pmm"
    then show ?thesis using Q big_pmm_eval(4) by simp
  next
    assume "Pmm h = snd (AllocPage big_pmm)"
    then show ?thesis using Q big_pmm_eval(6) by simp
  qed
  then have a: "a \<noteq> 0" by auto
  have "PhysToVirt a Q \<noteq> 0" using a' by (auto simp: PhysToVirt_def hh)
  moreover have "KMalloc 8192 h = Some (PhysToVirt a Q, h\<lparr>Pmm := Q\<rparr>)" using Q a by (simp add: KMalloc_def Let_def)
  ultimately show ?thesis using that [OF h] by blast
qed


theorem CreateThread_argument_witness:
  "\<exists>t u. CreateThread ThreadTypeKernel 0xFFFFFFFF80100000 42 ThreadPriorityNormal (boot_sched\<lparr>Heap := big_kmem\<rparr>) = Some (t, u) \<and> t \<noteq> 0 \<and>
     ThreadList u = t \<and> rdi (regs_of (Threads u t)) = 0 \<and> r10 (regs_of (Threads u t)) = 42"
proof -
  obtain t h k h' where m: "KMalloc 1744 big_kmem = Some (t, h)" "t \<noteq> 0" "KMalloc 8192 h = Some (k, h')" "k \<noteq> 0" by (rule big_kmem_serves)
  then show ?thesis
    using CreateThread_argument [OF _ m(2-4), where s = "boot_sched\<lparr>Heap := big_kmem\<rparr>" and E = "0xFFFFFFFF80100000" and A = 42 and P = ThreadPriorityNormal]
    by (auto simp: boot_sched_def Let_def)
qed

lemma outer_lists:
  assumes "outer c u = outer c s"
  shows "ThreadList u = ThreadList s" "Heap u = Heap s"
  using arg_cong [OF assms, of ThreadList] arg_cong [OF assms, of Heap] by simp_all

lemma thread_queue_mid_nonzero: "thread_queue T p (xs @ t # ys) \<Longrightarrow> t \<noteq> 0"
  by (induction xs arbitrary: p) auto

lemma ThreadExecute_empty:
  assumes L: "locks_free s" and t: "t \<noteq> 0" and c: "CalculateOptimalCpu t s = c" "c < MaxCPUs" and e: "ReadyQueue (CpuSchedulers s c) = 0"
  obtains u where "ThreadExecute t s = Some u" "locks_free u" "ReadyQueue (CpuSchedulers u c) = t"
    "ThreadList u = ThreadList s" "Threads u = (Threads s)(t := (Threads s t)\<lparr>tState := ThreadStateReady, LastCpu := c, tNext := 0, tPrev := 0\<rparr>)"
proof -
  obtain v where v: "lock_list s = Some v" "Threads v = Threads s" "CpuSchedulers v = CpuSchedulers s" "list_held v"
    "ThreadList v = ThreadList s"
    using lock_list_free [OF L] by metis
  let ?w = "unlock_list (upd_thread t (\<lambda>T. T\<lparr>LastCpu := c, tState := ThreadStateReady\<rparr>) v)"
  have w: "locks_free ?w" using v(4) by (simp add: list_held_def)
  obtain a b d n where h: "heads c ?w = (0, a, b, d, n)" using v(3) e by (simp add: heads_def)
  obtain u where u: "AddThreadToReadyQueue c t ?w = Some u" "locks_free u" "heads c u = (t, a, b, d, n + 1)" "outer c u = outer c ?w"
    "Threads u = (Threads ?w)(t := (Threads ?w t)\<lparr>tState := ThreadStateReady, LastCpu := c, tNext := 0, tPrev := 0\<rparr>)"
    by (rule AddThreadToReadyQueue_empty [OF w c(2) t h])
  have "ThreadExecute t s = Some u" using u(1) v(1) t c(1) by (simp add: ThreadExecute_def Let_def)
  then show ?thesis
    by (rule that) (use u v outer_lists [OF u(4)] in \<open>simp_all add: heads_def\<close>)
qed

text \<open>Executing a thread cuts the list of all threads. The ready queue and the list of all threads are linked by the same
  two fields, and entering a ready queue clears them: when a thread is executed on a CPU with an empty ready queue, every
  thread behind it in the list, each older than it, is lost from the list. \<^verbatim>\<open>GetThreadCount\<close> no longer counts
  them and \<^verbatim>\<open>FindThreadById\<close> answers null for their identifiers.\<close>

theorem ThreadExecute_truncates_list:
  assumes "locks_free s" "thread_queue (Threads s) (ThreadList s) (xs @ t # ys)" "distinct (xs @ t # ys)"
    and "CalculateOptimalCpu t s = c" "c < MaxCPUs" "ReadyQueue (CpuSchedulers s c) = 0"
  shows "\<exists>u. ThreadExecute t s = Some u \<and> thread_queue (Threads u) (ReadyQueue (CpuSchedulers u c)) [t] \<and>
    thread_queue (Threads u) (ThreadList u) (xs @ [t]) \<and>
    (\<exists>v. GetThreadCount u = Some (word_of_nat (Suc (length xs)), v)) \<and>
    (\<forall>n \<in> - ThreadId ` Threads s ` set (xs @ [t]). \<exists>v. FindThreadById n u = Some (0, v))"
proof -
  have t: "t \<noteq> 0" using assms(2) by (rule thread_queue_mid_nonzero)
  obtain u where u: "ThreadExecute t s = Some u" "locks_free u" "ReadyQueue (CpuSchedulers u c) = t" "ThreadList u = ThreadList s"
    "Threads u = (Threads s)(t := (Threads s t)\<lparr>tState := ThreadStateReady, LastCpu := c, tNext := 0, tPrev := 0\<rparr>)"
    by (rule ThreadExecute_empty [OF assms(1) t assms(4-6)])
  have q: "thread_queue (Threads u) (ThreadList u) (xs @ [t])"
    unfolding u(4,5) by (rule thread_queue_cut [OF assms(2,3)]) simp
  obtain w where w: "lock_list u = Some w" "Threads w = Threads u" "ThreadList w = ThreadList u" using lock_list_free [OF u(2)] by metis
  have id: "ThreadId (Threads u x) = ThreadId (Threads s x)" for x by (simp add: u(5))
  have "GetThreadCount u = Some (word_of_nat (Suc (length xs)), unlock_list w)"
    using count_threads_list [OF q, of 0] w by (simp add: GetThreadCount_def)
  moreover have "FindThreadById n u = Some (0, unlock_list w)" if "n \<in> - ThreadId ` Threads s ` set (xs @ [t])" for n
  proof -
    have "filter (\<lambda>x. ThreadId (Threads u x) = n) (xs @ [t]) = []" using that by (auto simp: filter_empty_conv id)
    then show ?thesis using find_thread_list [OF q, of n] w by (simp add: FindThreadById_def)
  qed
  moreover have "thread_queue (Threads u) (ReadyQueue (CpuSchedulers u c)) [t]" using t by (simp add: u(3,5))
  ultimately show ?thesis using u(1) q by blast
qed

definition demo_listed :: sched where
  "demo_listed = (upd_thread 0x2000 (\<lambda>T. T\<lparr>ThreadId := 2, CpuAffinity := AllCpus, tNext := 0x1000\<rparr>)
     (upd_thread 0x1000 (\<lambda>T. T\<lparr>ThreadId := 1, tPrev := 0x2000\<rparr>) boot_sched))\<lparr>ThreadList := 0x2000\<rparr>"

theorem ThreadExecute_truncates_list_witness:
  "\<exists>u. ThreadExecute 0x2000 demo_listed = Some u \<and> thread_queue (Threads demo_listed) (ThreadList demo_listed) [0x2000, 0x1000] \<and>
     thread_queue (Threads u) (ThreadList u) [0x2000] \<and> (\<exists>v. FindThreadById 1 u = Some (0, v))"
proof -
  have q: "thread_queue (Threads demo_listed) (ThreadList demo_listed) ([] @ 0x2000 # [0x1000])"
    by (simp add: demo_listed_def boot_sched_def zero_thread_def)
  have l: "locks_free demo_listed"
    by (simp add: demo_listed_def boot_sched_def idle_cpu_def locks_free_def free_lock_def)
  have "CpuAffinity (Threads demo_listed 0x2000) = AllCpus" "CpuCount demo_listed = 1"
    by (simp_all add: demo_listed_def boot_sched_def zero_thread_def)
  then have c: "CalculateOptimalCpu 0x2000 demo_listed = 0"
    by (simp add: CalculateOptimalCpu_def FindLeastLoadedCpu_def for_range.simps [of 1 1])
  show ?thesis
    using ThreadExecute_truncates_list [OF l q _ c] q by (auto simp: demo_listed_def boot_sched_def idle_cpu_def zero_thread_def)
qed

end
