(* ===== verification/ProcessSpec.thy ===== *)
theory ProcessSpec
  imports Process ThreadSpec
begin

text \<open>The table of processes as a map; leaving a process and waiting for it; what is lost of a command line; the descriptors
  of a child.\<close>

section \<open>The table of processes\<close>

text \<open>The table as a map from process numbers to processes, and when it is one: the items are processes, each once, with
  different positive numbers.\<close>

definition ptable :: "'z procs_scheme \<Rightarrow> int \<rightharpoonup> nat" where
  "ptable s = (\<lambda>pid. if PosixFind pid s = 0 then None else Some (PosixFind pid s))"

definition table_ok :: "'z procs_scheme \<Rightarrow> bool" where
  "table_ok s \<longleftrightarrow> ItemsPtr (PosixProcs s) \<noteq> 0 \<and> 0 \<notin> set (Items (PosixProcs s)) \<and>
     distinct (map (\<lambda>p. Pid (Procs s p)) (Items (PosixProcs s))) \<and>
     (\<forall>p \<in> set (Items (PosixProcs s)). 0 < Pid (Procs s p)) \<and>
     int (length (Items (PosixProcs s))) \<le> ProcCap (PosixProcs s) \<and> SpinLock_Lock (ProcsLock (PosixProcs s)) = 0"

lemma PosixFind_iff:
  assumes "table_ok s" "p \<noteq> 0"
  shows "PosixFind pid s = p \<longleftrightarrow> p \<in> set (Items (PosixProcs s)) \<and> Pid (Procs s p) = pid"
proof -
  let ?xs = "Items (PosixProcs s)" and ?P = "\<lambda>P. P \<noteq> 0 \<and> Pid (Procs s P) = pid"
  have d: "inj_on (\<lambda>p. Pid (Procs s p)) (set ?xs)" using assms(1) by (simp add: table_ok_def distinct_map)
  have pos: "\<forall>q \<in> set ?xs. 0 < Pid (Procs s q) \<and> q \<noteq> 0" using assms(1) unfolding table_ok_def by metis
  show ?thesis
  proof (cases "find ?P ?xs")
    case None
    then have "\<forall>q \<in> set ?xs. \<not> ?P q" by (simp add: find_None_iff)
    moreover have "PosixFind pid s = 0" using None by (simp add: PosixFind_def)
    ultimately show ?thesis using assms(2) by auto
  next
    case (Some q)
    then have q: "q \<in> set ?xs" "?P q" by (auto simp: find_Some_iff)
    then have "PosixFind pid s = q" using Some pos assms(1) by (auto simp: PosixFind_def table_ok_def)
    then show ?thesis using q d pos by (auto dest: inj_onD)
  qed
qed

lemma ptable_Some_iff: "table_ok s \<Longrightarrow> ptable s pid = Some p \<longleftrightarrow> p \<in> set (Items (PosixProcs s)) \<and> Pid (Procs s p) = pid"
  using PosixFind_iff [of s p pid] by (cases "p = 0") (auto simp: ptable_def table_ok_def)

lemma ptable_dom: "table_ok s \<Longrightarrow> dom (ptable s) = (\<lambda>p. Pid (Procs s p)) ` set (Items (PosixProcs s))"
  by (force simp: ptable_Some_iff)

text \<open>The lock of the table, and what taking and releasing it leave alone.\<close>

lemma lock_procs_free:
  assumes "SpinLock_Lock (ProcsLock (PosixProcs s)) = 0"
  shows "\<exists>t. lock_procs s = Some t \<and> Items (PosixProcs t) = Items (PosixProcs s) \<and> ProcCap (PosixProcs t) = ProcCap (PosixProcs s) \<and>
    ItemsPtr (PosixProcs t) = ItemsPtr (PosixProcs s) \<and> Procs t = Procs s"
  using assms by (simp add: lock_procs_def AcquireSpinLock_def Let_def)

lemma unlock_procs_simps [simp]:
  "Items (PosixProcs (unlock_procs s)) = Items (PosixProcs s)" "ProcCap (PosixProcs (unlock_procs s)) = ProcCap (PosixProcs s)"
  "ItemsPtr (PosixProcs (unlock_procs s)) = ItemsPtr (PosixProcs s)" "Procs (unlock_procs s) = Procs s"
  "SpinLock_Lock (ProcsLock (PosixProcs (unlock_procs s))) = 0"
  by (simp_all add: unlock_procs_def ReleaseSpinLock_def Let_def split: prod.split)

lemma find_after: "\<forall>j \<in> set ks. \<not> P j \<Longrightarrow> P k \<Longrightarrow> find P (ks @ k # ls) = Some k"
  by (induction ks) auto

lemma remove_item_split:
  assumes "p \<notin> set as"
  shows "remove_item p (as @ p # bs) = (if bs = [] then as else as @ last bs # butlast bs)"
proof -
  let ?xs = "as @ p # bs"
  have r: "[0..<length ?xs] = [0..<length as] @ length as # [Suc (length as)..<length ?xs]"
    using upt_add_eq_append [of 0 "length as" "Suc (length bs)"] upt_conv_Cons [of "length as" "length as + Suc (length bs)"]
    by (simp del: upt_Suc)
  have "find (\<lambda>I. ?xs ! I = p) [0..<length ?xs] = Some (length as)"
    unfolding r by (rule find_after) (use assms in \<open>auto simp: nth_append\<close>)
  then show ?thesis
    by (cases bs rule: rev_cases) (auto simp: remove_item_def list_update_append nth_append butlast_append)
qed

lemma remove_item_set:
  assumes "distinct xs"
  shows "distinct (remove_item p xs) \<and> set (remove_item p xs) = set xs - {p}"
proof (cases "p \<in> set xs")
  case True
  then obtain as bs where x: "xs = as @ p # bs" "p \<notin> set as" by (auto dest: split_list_first)
  show ?thesis
    using assms unfolding x(1) remove_item_split [OF x(2)] by (cases bs rule: rev_cases) auto
next
  case False
  then have "find (\<lambda>I. xs ! I = p) [0..<length xs] = None" by (auto simp: find_None_iff)
  then show ?thesis using assms False by (simp add: remove_item_def)
qed

text \<open>Two good tables with the same entries represent the same map.\<close>

lemma ptable_eqI:
  assumes "table_ok t" "\<And>p. p \<in> set (Items (PosixProcs t)) \<and> Pid (Procs t p) = pid \<longleftrightarrow> R p"
    "\<And>p. m pid = Some p \<longleftrightarrow> R p"
  shows "ptable t pid = m pid"
  using ptable_Some_iff [OF assms(1), of pid] assms(2,3) by (metis not_Some_eq)

lemma TableInsert_spec:
  assumes ok: "table_ok s" and p: "p \<noteq> 0" "0 < Pid (Procs s p)" "Pid (Procs s p) \<notin> dom (ptable s)"
  shows "\<exists>t. TableInsert p s =
      Some (if int (length (Items (PosixProcs s))) < ProcCap (PosixProcs s) then 0 else -1, t) \<and> table_ok t \<and> Procs t = Procs s \<and>
      ptable t = (if int (length (Items (PosixProcs s))) < ProcCap (PosixProcs s) then (ptable s)(Pid (Procs s p) \<mapsto> p) else ptable s)"
proof -
  obtain u where u: "lock_procs s = Some u" "Items (PosixProcs u) = Items (PosixProcs s)" "ProcCap (PosixProcs u) = ProcCap (PosixProcs s)"
    "ItemsPtr (PosixProcs u) = ItemsPtr (PosixProcs s)" "Procs u = Procs s"
    using lock_procs_free [of s] ok unfolding table_ok_def by blast
  have fresh: "Pid (Procs s p) \<notin> (\<lambda>p. Pid (Procs s p)) ` set (Items (PosixProcs s))" using p(3) ptable_dom [OF ok] by simp
  then have ne: "Pid (Procs s q) \<noteq> Pid (Procs s p)" if "q \<in> set (Items (PosixProcs s))" for q using that by (metis imageI)
  show ?thesis
  proof (cases "int (length (Items (PosixProcs s))) < ProcCap (PosixProcs s)")
    case True
    define t where "t = unlock_procs (u\<lparr>PosixProcs := (PosixProcs u)\<lparr>Items := Items (PosixProcs u) @ [p]\<rparr>\<rparr>)"
    have t: "TableInsert p s = Some (0, t)" using True u by (simp add: TableInsert_def t_def)
    have i: "Items (PosixProcs t) = Items (PosixProcs s) @ [p]" "Procs t = Procs s" by (simp_all add: t_def u)
    have ot: "table_ok t" using ok fresh p True by (simp add: table_ok_def i) (simp add: t_def u)
    have "ptable t pid = ((ptable s)(Pid (Procs s p) \<mapsto> p)) pid" for pid
    proof (rule ptable_eqI [OF ot])
      show "q \<in> set (Items (PosixProcs t)) \<and> Pid (Procs t q) = pid \<longleftrightarrow>
          (q \<in> set (Items (PosixProcs s)) \<and> Pid (Procs s q) = pid) \<or> (q = p \<and> Pid (Procs s p) = pid)" for q
        by (auto simp: i)
      show "((ptable s)(Pid (Procs s p) \<mapsto> p)) pid = Some q \<longleftrightarrow>
          (q \<in> set (Items (PosixProcs s)) \<and> Pid (Procs s q) = pid) \<or> (q = p \<and> Pid (Procs s p) = pid)" for q
        using ne [of q] ptable_Some_iff [OF ok, of pid q] by auto
    qed
    then show ?thesis using True t ot i by (auto simp: fun_eq_iff)
  next
    case False
    have t: "TableInsert p s = Some (-1, unlock_procs u)" using False u by (simp add: TableInsert_def)
    have "PosixFind pid (unlock_procs u) = PosixFind pid s" for pid by (simp add: PosixFind_def u)
    then have "ptable (unlock_procs u) = ptable s" by (simp add: ptable_def fun_eq_iff)
    moreover have "table_ok (unlock_procs u)" using ok by (simp add: table_ok_def u)
    ultimately show ?thesis using False t u by auto
  qed
qed

lemma TableRemove_spec:
  assumes ok: "table_ok s" and p: "ptable s pid = Some p"
  shows "\<exists>t. TableRemove p s = Some (0, t) \<and> table_ok t \<and> Procs t = Procs s \<and> ptable t = (ptable s)(pid := None)"
proof -
  obtain u where u: "lock_procs s = Some u" "Items (PosixProcs u) = Items (PosixProcs s)" "ProcCap (PosixProcs u) = ProcCap (PosixProcs s)"
    "ItemsPtr (PosixProcs u) = ItemsPtr (PosixProcs s)" "Procs u = Procs s"
    using lock_procs_free [of s] ok unfolding table_ok_def by blast
  define t where "t = unlock_procs (u\<lparr>PosixProcs := (PosixProcs u)\<lparr>Items := remove_item p (Items (PosixProcs u))\<rparr>\<rparr>)"
  have t: "TableRemove p s = Some (0, t)" using u by (simp add: TableRemove_def t_def)
  have i: "Items (PosixProcs t) = remove_item p (Items (PosixProcs s))" "Procs t = Procs s" by (simp_all add: t_def u)
  have pin: "p \<in> set (Items (PosixProcs s))" "Pid (Procs s p) = pid" using p ptable_Some_iff [OF ok] by auto
  have d: "distinct (Items (PosixProcs s))" "inj_on (\<lambda>p. Pid (Procs s p)) (set (Items (PosixProcs s)))"
    using ok by (auto simp: table_ok_def distinct_map)
  have r: "distinct (Items (PosixProcs t))" "set (Items (PosixProcs t)) = set (Items (PosixProcs s)) - {p}"
    using remove_item_set [OF d(1), of p] by (simp_all add: i)
  have "length (Items (PosixProcs t)) \<le> length (Items (PosixProcs s))"
    using r d(1) by (metis card_mono distinct_card finite_set Diff_subset)
  then have ot: "table_ok t"
    using ok r inj_on_subset [OF d(2), of "set (Items (PosixProcs t))"]
    by (auto simp: table_ok_def distinct_map i(2)) (auto simp: t_def u)
  have "ptable t n = ((ptable s)(pid := None)) n" for n
  proof (rule ptable_eqI [OF ot])
    show "q \<in> set (Items (PosixProcs t)) \<and> Pid (Procs t q) = n \<longleftrightarrow>
        q \<in> set (Items (PosixProcs s)) \<and> Pid (Procs s q) = n \<and> q \<noteq> p" for q
      by (auto simp: r i(2))
    show "((ptable s)(pid := None)) n = Some q \<longleftrightarrow> q \<in> set (Items (PosixProcs s)) \<and> Pid (Procs s q) = n \<and> q \<noteq> p" for q
      using pin d(2) ptable_Some_iff [OF ok, of n q] by (auto dest: inj_onD)
  qed
  then show ?thesis using t ot i by (auto simp: fun_eq_iff)
qed

section \<open>Leaving a process\<close>

lemma upd_proc_simps [simp]:
  "Procs (upd_proc p f s) = (Procs s)(p := f (Procs s p))" "Th (upd_proc p f s) = Th s" "PosixProcs (upd_proc p f s) = PosixProcs s"
  "FdTabs (upd_proc p f s) = FdTabs s" "ProcPriv (upd_proc p f s) = ProcPriv s" "ProcFsLock (upd_proc p f s) = ProcFsLock s"
  "PidCache (upd_proc p f s) = PidCache s" "NextPid (upd_proc p f s) = NextPid s" "PNodes (upd_proc p f s) = PNodes s"
  by (simp_all add: upd_proc_def)

lemma on_thread_simps [simp]:
  "Procs (on_thread t f s) = Procs s" "PosixProcs (on_thread t f s) = PosixProcs s" "Th (on_thread t f s) = upd_thread t f (Th s)"
  by (simp_all add: on_thread_def)

lemma thread_field_simps [simp]:
  "ThreadListLock (upd_thread t f s) = ThreadListLock s" "ThreadList (upd_thread t f s) = ThreadList s"
  "Threads (upd_thread t f s) = (Threads s)(t := f (Threads s t))"
  by (simp_all add: upd_thread_def)


lemma lock_list_held: "lock_list s = Some t \<Longrightarrow> SpinLock_Lock (ThreadListLock t) \<noteq> 0 \<and> ThreadList t = ThreadList s \<and> Threads t = Threads s"
  by (auto simp: lock_list_def AcquireSpinLock_def Let_def split: if_splits)

lemma lock_list_None: "SpinLock_Lock (ThreadListLock s) \<noteq> 0 \<Longrightarrow> lock_list s = None"
  by (simp add: lock_list_def AcquireSpinLock_def Let_def)

lemma clear_current_simps [simp]:
  "ThreadListLock (clear_current pid s) = ThreadListLock s" "ThreadList (clear_current pid s) = ThreadList s"
  "Threads (clear_current pid s) = Threads s"
  by (auto simp: clear_current_def Let_def intro!: for_range_same)

lemma destroy_held: "SpinLock_Lock (ThreadListLock (Th s)) \<noteq> 0 \<Longrightarrow> t \<noteq> 0 \<Longrightarrow> destroy t s = None"
  by (simp add: destroy_def DestroyThread_def lock_list_None)

lemma UpdateTimes_simps [simp]:
  "Th (UpdateTimesOnExit p s) = Th s" "PosixProcs (UpdateTimesOnExit p s) = PosixProcs s" "FdTabs (UpdateTimesOnExit p s) = FdTabs s"
  "ProcPriv (UpdateTimesOnExit p s) = ProcPriv s" "ProcFsLock (UpdateTimesOnExit p s) = ProcFsLock s"
  "MainThread (Procs (UpdateTimesOnExit p s) q) = MainThread (Procs s q)" "Pid (Procs (UpdateTimesOnExit p s) q) = Pid (Procs s q)"
  "Ppid (Procs (UpdateTimesOnExit p s) q) = Ppid (Procs s q)" "Zombie (Procs (UpdateTimesOnExit p s) q) = Zombie (Procs s q)"
  "prExitCode (Procs (UpdateTimesOnExit p s) q) = prExitCode (Procs s q)" "FdTable (Procs (UpdateTimesOnExit p s) q) = FdTable (Procs s q)"
  "UserUsec (Times (Procs (UpdateTimesOnExit p s) q)) = UserUsec (Times (Procs s q))"
  by (simp_all add: UpdateTimesOnExit_def Let_def)

lemma PosixExit_hang:
  assumes "p \<noteq> 0" "MainThread (Procs s p) \<noteq> 0"
  shows "PosixExit p st s = None"
proof (cases "lock_list (Th s)")
  case None
  then show ?thesis using assms(1) by (simp add: PosixExit_def Let_def)
next
  case (Some t)
  then have "SpinLock_Lock (ThreadListLock t) \<noteq> 0" using lock_list_held by blast
  then show ?thesis using assms Some by (simp add: PosixExit_def Let_def DetachThread_def destroy_held)
qed

lemma fold_fixed: "(\<And>x. x \<in> set xs \<Longrightarrow> f x s = s) \<Longrightarrow> fold f xs s = s"
  by (induction xs) auto

lemma sig_bit_AND: "i < 64 \<Longrightarrow> j < 64 \<Longrightarrow> sig_bit (int i) AND sig_bit (int j) = (if i = j then sig_bit (int i) else 0)"
  by (rule bit_word_eqI) (auto simp: sig_bit_def bit_simps nat_mod_as_int)

lemma sig_bit_neq_0: "i < 64 \<Longrightarrow> sig_bit (int i) \<noteq> 0"
proof -
  assume "i < 64"
  then have "bit (sig_bit (int i)) i" by (simp add: sig_bit_def bit_simps nat_mod_as_int)
  then show ?thesis by auto
qed

lemma kill_delivery_hangs:
  assumes p: "p \<noteq> 0" "MainThread (Procs s p) \<noteq> 0" "PosixFind pid s = p"
    and quiet: "SigPending (Procs s p) = 0" "SigMask (Procs s p) AND sig_bit SigKill = 0"
      "SignalHandlers (Threads (Th s) (MainThread (Procs s p))) ! 9 = 0"
  shows "\<exists>t. PosixKill pid SigKill s = (0, t) \<and> DeliverPendingSignals p t = None"
proof -
  define t where "t = upd_proc p (\<lambda>P. P\<lparr>SigPending := SigPending P OR sig_bit SigKill\<rparr>) s"
  have k: "PosixKill pid SigKill s = (0, t)" using p by (simp add: PosixKill_def t_def Let_def)
  have tp: "SigPending (Procs t p) = sig_bit 9" "SigMask (Procs t p) = SigMask (Procs s p)" "MainThread (Procs t p) = MainThread (Procs s p)" "Th t = Th s"
    by (simp_all add: t_def quiet)
  have pend: "sig_bit 9 AND NOT (SigMask (Procs s p)) = sig_bit 9"
    using quiet(2) by (auto simp: bit_eq_iff bit_simps)
  have and0: "sig_bit 9 AND sig_bit (int j) = (if j = 9 then sig_bit 9 else 0)" if "j < 64" for j
    using sig_bit_AND [of 9 j] that by auto
  have nz: "sig_bit 9 \<noteq> 0" using sig_bit_neq_0 [of 9] by simp
  have cont: "sig_bit 9 AND sig_bit 18 = 0" "sig_bit 9 AND sig_bit 19 = 0" "sig_bit 9 AND sig_bit 15 = 0" "sig_bit 9 AND sig_bit 9 = sig_bit 9"
    using and0 [of 18] and0 [of 19] and0 [of 15] and0 [of 9] by simp_all
  have "fold (enter_handler p (sig_bit 9)) [1..<32] t = t"
  proof (rule fold_fixed)
    fix x :: nat assume "x \<in> set [1..<32]"
    then have "x < 64" by simp
    from and0 [OF this] show "enter_handler p (sig_bit 9) x t = t"
      by (cases "x = 9") (auto simp: enter_handler_def Let_def tp quiet(3))
  qed
  then have "DeliverPendingSignals p t = default_exit p 9 t"
    using p nz by (simp add: DeliverPendingSignals_def Let_def tp pend cont)
  also have "\<dots> = None"
    using PosixExit_hang [of p "clear_signal p 9 t"] p by (simp add: default_exit_def clear_signal_def tp)
  finally show ?thesis using k by blast
qed



text \<open>What closing descriptors reads, which the other steps of exiting and waiting leave alone.\<close>

definition fds_frame :: "'z procs_scheme \<Rightarrow> 'z procs_scheme \<Rightarrow> bool" where
  "fds_frame s t \<longleftrightarrow> FdTabs t = FdTabs s \<and> PPipes t = PPipes s \<and> VfsLock t = VfsLock s \<and> CurCpu t = CurCpu s"

lemma fds_frame_simps [simp]:
  "fds_frame s s" "fds_frame s (upd_proc p f t) = fds_frame s t" "fds_frame s (t\<lparr>Th := h\<rparr>) = fds_frame s t"
  "fds_frame s (t\<lparr>PosixProcs := P\<rparr>) = fds_frame s t" "fds_frame s (t\<lparr>PidCache := C\<rparr>) = fds_frame s t"
  "fds_frame s (UpdateTimesOnExit p t) = fds_frame s t" "fds_frame s (kfree q t) = fds_frame s t"
  "fds_frame s (unlock_procfs t) = fds_frame s t" "fds_frame s (unlock_procs t) = fds_frame s t"
  by (simp_all add: fds_frame_def upd_proc_def UpdateTimesOnExit_def kfree_def unlock_procfs_def unlock_procs_def Let_def split: prod.splits)

lemma fds_frame_lock [simp]:
  "lock_procs s = Some t \<Longrightarrow> fds_frame s t" "lock_procfs s = Some t \<Longrightarrow> fds_frame s t"
  by (auto simp: fds_frame_def lock_procs_def lock_procfs_def split: bind_splits if_splits prod.splits)



section \<open>Waiting for a child\<close>




lemma wait_candidate_0:
  assumes ok: "table_ok s"
    and "\<And>p. p \<in> set (Items (PosixProcs s)) \<Longrightarrow> Ppid (Procs s p) = Pid (Procs s Parent) \<Longrightarrow> Zombie (Procs s p) \<Longrightarrow> 32768 < Pid (Procs s p)"
  shows "wait_candidate Parent TargetPid s = 0"
proof -
  let ?P = "\<lambda>I. let P = PosixFind I s in P \<noteq> 0 \<and> Ppid (Procs s P) = Pid (Procs s Parent) \<and>
      \<not> (0 < TargetPid \<and> Pid (Procs s P) \<noteq> TargetPid) \<and> Zombie (Procs s P)"
  have "\<not> ?P I" if I: "I \<in> set [1..32768]" for I
  proof
    assume "?P I"
    then have P: "PosixFind I s \<noteq> 0" "Ppid (Procs s (PosixFind I s)) = Pid (Procs s Parent)" "Zombie (Procs s (PosixFind I s))"
      by (auto simp: Let_def)
    then have "PosixFind I s \<in> set (Items (PosixProcs s))" "Pid (Procs s (PosixFind I s)) = I"
      using PosixFind_iff [OF ok P(1), of I] by auto
    then show False using assms(2) P I by fastforce
  qed
  then have "find ?P [1..32768] = None" unfolding find_None_iff by blast
  then show ?thesis unfolding wait_candidate_def by (simp del: upto.simps)
qed

lemma kfree_frame [simp]:
  "PosixProcs (kfree q s) = PosixProcs s" "Procs (kfree q s) = Procs s" "FdTabs (kfree q s) = FdTabs s" "Th (kfree q s) = Th s"
  "PidCache (kfree q s) = PidCache s" "ProcPriv (kfree q s) = ProcPriv s" "ProcFsLock (kfree q s) = ProcFsLock s"
  "NextPid (kfree q s) = NextPid s"
  by (simp_all add: kfree_def)

lemma unlock_procfs_simps [simp]:
  "PosixProcs (unlock_procfs s) = PosixProcs s" "Procs (unlock_procfs s) = Procs s" "FdTabs (unlock_procfs s) = FdTabs s"
  "PidCache (unlock_procfs s) = PidCache s" "PNodes (unlock_procfs s) = PNodes s" "ProcPriv (unlock_procfs s) = ProcPriv s"
  "SpinLock_Lock (ProcFsLock (unlock_procfs s)) = 0" "NextPid (unlock_procfs s) = NextPid s"
  by (simp_all add: unlock_procfs_def ReleaseSpinLock_def Let_def split: prod.split)















lemma put_vm_simps [simp]:
  "PosixProcs (put_vm v s) = PosixProcs s" "Procs (put_vm v s) = Procs s" "FdTabs (put_vm v s) = FdTabs s" "NextPid (put_vm v s) = NextPid s"
  by (simp_all add: put_vm_def)

lemma free_entries_simps [simp]:
  "PosixProcs (free_entries F s) = PosixProcs s" "Procs (free_entries F s) = Procs s" "FdTabs (free_entries F s) = FdTabs s"
  by (simp_all add: free_entries_def)






section \<open>A machine with three processes\<close>

text \<open>Process 1 at 11, its child 2 at 12, and process 40000 at 13, another child, which has exited. Only process 1 has a
  thread, at \<open>0x1000\<close>. Process 2 has an open file and both ends of a pipe, one of them with a second use, and a free slot.\<close>

definition demo_exit_table :: PosixFdTable where
  "demo_exit_table =
     \<lparr>Entries = [\<lparr>Fd = 0, FdFlags = 0, Obj = 7, FdRefcnt = 1, IsFile = True, IsChar = False, IsBlock = False\<rparr>,
                \<lparr>Fd = 1, FdFlags = 0, Obj = 40, FdRefcnt = 1, IsFile = False, IsChar = True, IsBlock = False\<rparr>,
                \<lparr>Fd = 2, FdFlags = 0, Obj = 40, FdRefcnt = 2, IsFile = False, IsChar = True, IsBlock = False\<rparr>, InitEntry],
      FdCount = 3, FdCap = 4, StdinFd = 0, StdoutFd = 1, StderrFd = -1, TabLock = demo_lock\<rparr>"

definition demo_exit_pipe :: PosixPipeT where
  "demo_exit_pipe = \<lparr>PBufPtr = 41, PBuf = replicate 8 (CHR 0x00), PCap = 8, PHead = 0, PTail = 0, PLen = 0, PLock = demo_lock\<rparr>"

definition demo_procs :: procs where
  "demo_procs = vfs.extend demo_vfs
     \<lparr>FdTabs = (\<lambda>_. \<lparr>Entries = [], FdCount = 0, FdCap = 0, StdinFd = -1, StdoutFd = -1, StderrFd = -1, TabLock = demo_lock\<rparr>)
         (21 := demo_exit_table),
      PPipes = [40 \<mapsto> demo_exit_pipe], Th = demo_sched,
      PVmm = \<lparr>KernelSpace = 0, VmmHhdmOffset = 0, KernelPml4Physical = 0\<rparr>, PTlb = [], NextPid = 40001,
      PosixProcs = \<lparr>Items = [11, 12, 13], ItemsPtr = 5, ProcCap = 32768, ProcsLock = demo_lock\<rparr>,
      Procs = ((\<lambda>_. zero_proc)(11 := zero_proc\<lparr>Pid := 1, MainThread := 0x1000\<rparr>, 12 := zero_proc\<lparr>Pid := 2, Ppid := 1, FdTable := 21\<rparr>,
           13 := zero_proc\<lparr>Pid := 40000, Ppid := 1, Zombie := True\<rparr>)),
      ProcPriv = 6, ProcFsLock = demo_lock, PidCache = (\<lambda>_. \<lparr>pePid = 0, DirNode = 0\<rparr>), PNodes = (\<lambda>_. zero_node)\<rparr>"

definition demo_proc_tables :: "procs tables" where
  "demo_proc_tables = \<lparr>VOps = (\<lambda>_. no_vnode_ops), SOps = (\<lambda>_. \<lparr>sop_Sync = None, sop_StatFs = None, sop_Release = None, sop_Umount = None\<rparr>),
     MountHooks = (\<lambda>_ _ _ s. (0, s))\<rparr>"

lemmas demo_proc_defs = demo_procs_def vfs.defs zero_proc_def demo_sched_def boot_sched_def zero_thread_def demo_lock_def free_lock_def

lemma demo_table_ok: "table_ok demo_procs"
  by (simp add: table_ok_def demo_proc_defs)

text \<open>C37: The table of processes is a map from process numbers to processes: an insertion adds a new number, or is refused
  with the map unchanged when the table is full; a removal deletes it; a search finds exactly what is in the map. All of
  them keep the table well formed.\<close>

theorem process_table_map:
  assumes "table_ok s"
  shows "(\<nexists>pid. PosixFind pid s \<noteq> (case ptable s pid of None \<Rightarrow> 0 | Some p \<Rightarrow> p)) \<and>
    (\<forall>p. p \<noteq> 0 \<and> 0 < Pid (Procs s p) \<and> Pid (Procs s p) \<notin> dom (ptable s) \<longrightarrow>
       (\<exists>t. TableInsert p s = Some (if card (dom (ptable s)) < nat (ProcCap (PosixProcs s)) then 0 else -1, t) \<and> table_ok t \<and>
            ptable t = (if card (dom (ptable s)) < nat (ProcCap (PosixProcs s)) then (ptable s)(Pid (Procs s p) \<mapsto> p) else ptable s))) \<and>
    (\<forall>pid p. ptable s pid = Some p \<longrightarrow>
       (\<exists>t. TableRemove p s = Some (0, t) \<and> table_ok t \<and> ptable t = (ptable s)(pid := None)))"
proof (intro conjI allI impI)
  show "\<nexists>pid. PosixFind pid s \<noteq> (case ptable s pid of None \<Rightarrow> 0 | Some p \<Rightarrow> p)" by (auto simp: ptable_def)
  have "card (dom (ptable s)) = length (Items (PosixProcs s))"
    using assms unfolding ptable_dom [OF assms] by (simp add: table_ok_def distinct_map card_image distinct_card)
  then have c: "card (dom (ptable s)) < nat (ProcCap (PosixProcs s)) \<longleftrightarrow> int (length (Items (PosixProcs s))) < ProcCap (PosixProcs s)"
    by auto
  show "\<exists>t. TableInsert p s = Some (if card (dom (ptable s)) < nat (ProcCap (PosixProcs s)) then 0 else -1, t) \<and> table_ok t \<and>
      ptable t = (if card (dom (ptable s)) < nat (ProcCap (PosixProcs s)) then (ptable s)(Pid (Procs s p) \<mapsto> p) else ptable s)"
    if "p \<noteq> 0 \<and> 0 < Pid (Procs s p) \<and> Pid (Procs s p) \<notin> dom (ptable s)" for p
    using TableInsert_spec [OF assms, of p] that unfolding c by blast
  show "\<exists>t. TableRemove p s = Some (0, t) \<and> table_ok t \<and> ptable t = (ptable s)(pid := None)" if "ptable s pid = Some p" for pid p
    using TableRemove_spec [OF assms that] by blast
qed

theorem process_table_map_witness:
  "\<exists>t. TableRemove 12 demo_procs = Some (0, t) \<and> table_ok t \<and> ptable t = (ptable demo_procs)(2 := None)"
proof -
  have "ptable demo_procs 2 = Some 12" by (simp add: ptable_def PosixFind_def demo_proc_defs)
  with process_table_map [OF demo_table_ok] show ?thesis by blast
qed

text \<open>C39: A process that still has its main thread cannot exit: \<^verbatim>\<open>PosixExit\<close> destroys the thread while it holds the lock that
  \<^verbatim>\<open>DestroyThread\<close> waits for, and does not come back. So the default action of \<^verbatim>\<open>SIGKILL\<close> stops the CPU.\<close>

theorem process_exit_hangs:
  assumes "p \<noteq> 0" "MainThread (Procs s p) \<noteq> 0"
  shows "PosixExit p st s = None \<and>
    (PosixFind pid s = p \<and> SigPending (Procs s p) = 0 \<and> SigMask (Procs s p) AND sig_bit SigKill = 0 \<and>
       SignalHandlers (Threads (Th s) (MainThread (Procs s p))) ! 9 = 0 \<longrightarrow>
     (\<exists>t. PosixKill pid SigKill s = (0, t) \<and> DeliverPendingSignals p t = None))"
  using PosixExit_hang [OF assms] kill_delivery_hangs [OF assms] by blast

theorem process_exit_hangs_witness:
  "PosixExit 11 0 demo_procs = None \<and> (\<exists>t. PosixKill 1 SigKill demo_procs = (0, t) \<and> DeliverPendingSignals 11 t = None)"
proof -
  have d: "(11 :: nat) \<noteq> 0" "MainThread (Procs demo_procs 11) \<noteq> 0" "PosixFind 1 demo_procs = 11" "SigPending (Procs demo_procs 11) = 0"
    "SigMask (Procs demo_procs 11) AND sig_bit SigKill = 0" "SignalHandlers (Threads (Th demo_procs) (MainThread (Procs demo_procs 11))) ! 9 = 0"
    by (simp_all add: PosixFind_def demo_proc_defs)
  show ?thesis using process_exit_hangs [OF d(1,2), where st = 0 and pid = 1] d by blast
qed



text \<open>Process numbers are handed out upwards without end, and waiting looks at the numbers up to 32768 only: a child with a
  larger number is never found, \<^verbatim>\<open>PosixWait4\<close> with \<^verbatim>\<open>WNOHANG\<close> reports that no child has exited, and without it the
  caller is put to sleep over a child that has already exited.\<close>

theorem process_beyond_table_lost:
  assumes "table_ok s" "Parent \<noteq> 0"
    and "\<forall>p \<in> set (Items (PosixProcs s)). Ppid (Procs s p) = Pid (Procs s Parent) \<and> Zombie (Procs s p) \<longrightarrow> 32768 < Pid (Procs s p)"
  shows "PosixWait4 resume T Parent TargetPid St 1 Us s = Some ((0, None, None), s) \<and>
    PosixWait4 resume T Parent TargetPid St 0 Us s = (case resume (block_parent Parent s) of None \<Rightarrow> None
       | Some t \<Rightarrow> PosixWait4 resume T Parent TargetPid St 0 Us t) \<and>
    (0 < NextPid s \<longrightarrow> fst (FindFreePid s) = NextPid s \<and> NextPid (snd (FindFreePid s)) = NextPid s + 1)"
proof -
  have c: "wait_candidate Parent TargetPid s = 0" by (rule wait_candidate_0 [OF assms(1)]) (use assms(3) in blast)
  have "wait_loop resume T Parent TargetPid True s = Some ((0, None), s)" by (subst wait_loop.simps) (simp add: c)
  moreover have "wait_loop resume T Parent TargetPid False s = Option.bind (resume (block_parent Parent s)) (wait_loop resume T Parent TargetPid False)"
    by (subst wait_loop.simps) (simp add: c)
  ultimately show ?thesis
    using assms(2) by (auto simp: PosixWait4_def FindFreePid_def Let_def split: option.split)
qed

theorem process_beyond_table_lost_witness:
  "Zombie (Procs demo_procs 13) \<and> PosixWait4 Some demo_proc_tables 11 (-1) True 1 True demo_procs = Some ((0, None, None), demo_procs)"
proof -
  have "\<forall>p \<in> set (Items (PosixProcs demo_procs)). Ppid (Procs demo_procs p) = Pid (Procs demo_procs 11) \<and> Zombie (Procs demo_procs p) \<longrightarrow>
      32768 < Pid (Procs demo_procs p)"
    by (simp add: demo_proc_defs)
  from process_beyond_table_lost [OF demo_table_ok _ this] show ?thesis
    by (simp add: demo_proc_defs)
qed

section \<open>Command lines\<close>

definition stored_arg :: "string \<Rightarrow> string" where
  "stored_arg x = (if x = [] then [CHR 0x00] else butlast x @ [CHR 0x00, CHR 0x00])"

lemma strncpy_bytes_stored: "strncpy_bytes (length x) x @ [CHR 0x00] = stored_arg x"
  by (cases x rule: rev_cases) (auto simp: strncpy_bytes_def stored_arg_def)

lemma length_stored_arg: "length (stored_arg x) = length x + 1"
  by (cases x rule: rev_cases) (auto simp: stored_arg_def)

lemma pack_strings_fit:
  "length Buf + sum_list (map (\<lambda>x. length x + 1) xs) < Cap \<Longrightarrow> pack_strings Cap xs Buf = Buf @ concat (map stored_arg xs)"
proof (induction xs arbitrary: Buf)
  case (Cons x xs)
  let ?Buf = "Buf @ stored_arg x"
  have "int (length x) < int Cap - int (length Buf) - 1" "\<not> int Cap - int (length Buf) \<le> 1" using Cons.prems by auto
  then have "pack_strings Cap (x # xs) Buf = pack_strings Cap xs ?Buf"
    using strncpy_bytes_stored [of x] by (simp add: Let_def)
  also have "\<dots> = ?Buf @ concat (map stored_arg xs)"
    by (rule Cons.IH) (use Cons.prems in \<open>simp add: length_stored_arg\<close>)
  finally show ?case by simp
qed simp

lemma length_concat_stored: "length (concat (map stored_arg xs)) = sum_list (map (\<lambda>x. length x + 1) xs)"
  by (induction xs) (auto simp: length_stored_arg)

text \<open>The command line and the environment that \<^verbatim>\<open>execve\<close> keeps for the process file system lose the last character of every
  string: \<^verbatim>\<open>strncpy\<close> is asked for as many characters as the string has, and terminates within them. (For strings that fit
  the two buffers.)\<close>

theorem command_line_truncated:
  assumes "p \<noteq> 0" "sum_list (map (\<lambda>x. length x + 1) Argv) < 4096" "sum_list (map (\<lambda>x. length x + 1) Envp) < 8192"
  shows "\<exists>t. BuildArgsEnv (Some Argv) (Some Envp) Path p s = (0, t) \<and>
    CmdlineData (Procs t p) = concat (map stored_arg Argv) @ [CHR 0x00] \<and>
    EnvironData (Procs t p) = concat (map stored_arg Envp) @ [CHR 0x00] \<and>
    CmdlineLen (Procs t p) = int (length (CmdlineData (Procs t p))) \<and> EnvironLen (Procs t p) = int (length (EnvironData (Procs t p)))"
proof -
  have "pack_all 4096 (Some Argv) = concat (map stored_arg Argv) @ [CHR 0x00]"
    using pack_strings_fit [of "[]" Argv 4096] assms(2) length_concat_stored [of Argv] by (simp add: pack_all_def Let_def)
  moreover have "pack_all 8192 (Some Envp) = concat (map stored_arg Envp) @ [CHR 0x00]"
    using pack_strings_fit [of "[]" Envp 8192] assms(3) length_concat_stored [of Envp] by (simp add: pack_all_def Let_def)
  ultimately show ?thesis using assms(1) by (simp add: BuildArgsEnv_def Let_def)
qed

theorem command_line_truncated_witness:
  "\<exists>t. BuildArgsEnv (Some [''ls'', ''-l'']) (Some []) None 12 demo_procs = (0, t) \<and>
    CmdlineData (Procs t 12) = [CHR ''l'', CHR 0x00, CHR 0x00, CHR ''-'', CHR 0x00, CHR 0x00, CHR 0x00]"
  using command_line_truncated [of 12 "[''ls'', ''-l'']" "[]" None demo_procs] by (auto simp: stored_arg_def)

section \<open>Descriptors of a child\<close>

definition open_fds :: "PosixFd list \<Rightarrow> PosixFd list" where
  "open_fds Es = filter (\<lambda>E. 0 \<le> Fd E) Es"

text \<open>The copy of the \<open>i\<close>-th open descriptor.\<close>

definition child_fd :: "nat \<Rightarrow> PosixFd \<Rightarrow> PosixFd" where
  "child_fd i E = E\<lparr>Fd := int i, FdRefcnt := FdRefcnt E + 1\<rparr>"

lemma FindFreeFd_first:
  assumes "Entries T = as @ replicate m InitEntry" "\<forall>E \<in> set as. 0 \<le> Fd E" "FdCap T = int (length as + m)"
  shows "FindFreeFd T 0 = (if m = 0 then -1 else int (length as))"
proof -
  have lo: "\<not> Fd (Entries T ! i) < 0" if "i < length as" for i
    using assms(1,2) that by (simp add: nth_append not_less)
  show ?thesis
  proof (cases m)
    case 0
    then have "find (\<lambda>i. Fd (Entries T ! i) < 0) [0..<length as] = None" using lo by (auto simp: find_None_iff)
    then show ?thesis using 0 assms(3) by (simp add: FindFreeFd_def)
  next
    case (Suc k)
    have r: "[0..<length as + m] = [0..<length as] @ length as # [Suc (length as)..<length as + m]"
      using upt_add_eq_append [of 0 "length as" m] upt_conv_Cons [of "length as" "length as + m"] Suc by (simp del: upt_Suc)
    have "find (\<lambda>i. Fd (Entries T ! i) < 0) [0..<length as + m] = Some (length as)"
      unfolding r by (rule find_after) (use lo assms(1) Suc in \<open>auto simp: nth_append InitEntry_def\<close>)
    moreover have "nat (FdCap T) = length as + m" using assms(3) by simp
    ultimately show ?thesis using Suc by (simp add: FindFreeFd_def del: upt_Suc)
  qed
qed

text \<open>What the loop leaves of everything but the child's table and the counts of the files.\<close>

definition fork_frame :: "nat \<Rightarrow> 'z procs_scheme \<Rightarrow> 'z procs_scheme \<Rightarrow> bool" where
  "fork_frame F s t \<longleftrightarrow> Procs t = Procs s \<and> PosixProcs t = PosixProcs s \<and> PPipes t = PPipes s \<and> (\<forall>G. G \<noteq> F \<longrightarrow> FdTabs t G = FdTabs s G) \<and>
     StdinFd (FdTabs t F) = StdinFd (FdTabs s F) \<and> (\<forall>f. fNode (Files t f) = fNode (Files s f) \<and> fOffset (Files t f) = fOffset (Files s f))"

definition file_uses :: "nat \<Rightarrow> PosixFd list \<Rightarrow> nat" where
  "file_uses f Es = length (filter (\<lambda>E. 0 \<le> Fd E \<and> IsFile E \<and> Obj E = f) Es)"

lemma fork_fds_spec:
  assumes "Entries (FdTabs s F) = as @ replicate m InitEntry" "\<forall>E \<in> set as. 0 \<le> Fd E" "FdCap (FdTabs s F) = int (length as + m)"
    "length (open_fds Es) \<le> m"
  shows "\<exists>t. fork_fds F Es s = Some (0, t) \<and> fork_frame F s t \<and> FdCap (FdTabs t F) = FdCap (FdTabs s F) \<and>
    Entries (FdTabs t F) = as @ map (\<lambda>(i, E). child_fd i E) (enumerate (length as) (open_fds Es)) @ replicate (m - length (open_fds Es)) InitEntry \<and>
    FdCount (FdTabs t F) = FdCount (FdTabs s F) + int (length (open_fds Es)) \<and>
    (\<forall>f. f \<noteq> 0 \<longrightarrow> fRefcnt (Files t f) = fRefcnt (Files s f) + int (file_uses f Es))"
  using assms
proof (induction Es arbitrary: s as m)
  case Nil
  then show ?case by (simp add: open_fds_def fork_frame_def file_uses_def)
next
  case (Cons E Es)
  show ?case
  proof (cases "Fd E < 0")
    case True
    then have "open_fds (E # Es) = open_fds Es" "\<And>f. file_uses f (E # Es) = file_uses f Es"
      by (simp_all add: open_fds_def file_uses_def)
    then show ?thesis using Cons True by simp
  next
    case False
    then have o: "open_fds (E # Es) = E # open_fds Es" by (simp add: open_fds_def)
    obtain k where m: "m = Suc k" using Cons.prems(4) o by (cases m) auto
    have ff: "FindFreeFd (FdTabs s F) 0 = int (length as)" using FindFreeFd_first [OF Cons.prems(1-3)] m by simp
    define s0 where "s0 = (if IsFile E \<and> Obj E \<noteq> 0
        then s\<lparr>Files := (Files s)(Obj E := (Files s (Obj E))\<lparr>fRefcnt := fRefcnt (Files s (Obj E)) + 1\<rparr>)\<rparr> else s)"
    define s1 where "s1 = s0\<lparr>FdTabs := (FdTabs s)(F := (FdTabs s F)\<lparr>Entries := (Entries (FdTabs s F))[length as := child_fd (length as) E],
        FdCount := FdCount (FdTabs s F) + 1\<rparr>)\<rparr>"
    have s0: "FdTabs s0 = FdTabs s" "Procs s0 = Procs s" "PosixProcs s0 = PosixProcs s" "PPipes s0 = PPipes s" "Th s0 = Th s"
      "\<And>f. fNode (Files s0 f) = fNode (Files s f)" "\<And>f. fOffset (Files s0 f) = fOffset (Files s f)"
      "\<And>f. f \<noteq> 0 \<Longrightarrow> fRefcnt (Files s0 f) = fRefcnt (Files s f) + (if IsFile E \<and> Obj E = f then 1 else 0)"
      by (simp_all add: s0_def)
    have w: "fork_fds F (E # Es) s = fork_fds F Es s1"
      using False by (simp add: with_fds_def Let_def ff copy_entry_def set_entry_def s1_def child_fd_def s0_def)
    have e1: "Entries (FdTabs s1 F) = (as @ [child_fd (length as) E]) @ replicate k InitEntry"
      by (simp add: s1_def Cons.prems(1) m list_update_append)
    have "\<exists>t. fork_fds F Es s1 = Some (0, t) \<and> fork_frame F s1 t \<and> FdCap (FdTabs t F) = FdCap (FdTabs s1 F) \<and>
        Entries (FdTabs t F) = (as @ [child_fd (length as) E]) @
          map (\<lambda>(i, E). child_fd i E) (enumerate (length (as @ [child_fd (length as) E])) (open_fds Es)) @ replicate (k - length (open_fds Es)) InitEntry \<and>
        FdCount (FdTabs t F) = FdCount (FdTabs s1 F) + int (length (open_fds Es)) \<and>
        (\<forall>f. f \<noteq> 0 \<longrightarrow> fRefcnt (Files t f) = fRefcnt (Files s1 f) + int (file_uses f Es))"
    proof (rule Cons.IH [OF e1])
      show "\<forall>E \<in> set (as @ [child_fd (length as) E]). 0 \<le> Fd E" using Cons.prems(2) by (auto simp: child_fd_def)
      show "FdCap (FdTabs s1 F) = int (length (as @ [child_fd (length as) E]) + k)" using Cons.prems(3) m by (simp add: s1_def)
      show "length (open_fds Es) \<le> k" using Cons.prems(4) o m by simp
    qed
    then obtain t where t: "fork_fds F Es s1 = Some (0, t)" "fork_frame F s1 t" "FdCap (FdTabs t F) = FdCap (FdTabs s1 F)"
        "Entries (FdTabs t F) = as @ child_fd (length as) E #
          map (\<lambda>(i, E). child_fd i E) (enumerate (Suc (length as)) (open_fds Es)) @ replicate (k - length (open_fds Es)) InitEntry"
        "FdCount (FdTabs t F) = FdCount (FdTabs s1 F) + int (length (open_fds Es))"
        "\<forall>f. f \<noteq> 0 \<longrightarrow> fRefcnt (Files t f) = fRefcnt (Files s1 f) + int (file_uses f Es)"
      by auto
    have "fork_frame F s t" using t(2) by (auto simp: fork_frame_def s1_def s0)
    moreover have "fRefcnt (Files s1 f) + int (file_uses f Es) = fRefcnt (Files s f) + int (file_uses f (E # Es))" if "f \<noteq> 0" for f
      using that False by (auto simp: s1_def s0 file_uses_def)
    moreover have "FdCap (FdTabs s1 F) = FdCap (FdTabs s F)" "FdCount (FdTabs s1 F) = FdCount (FdTabs s F) + 1"
      by (simp_all add: s1_def)
    ultimately show ?thesis
      unfolding w o using t m by (intro exI [of _ t]) simp
  qed
qed

lemma open_fds_length: "length (open_fds Es) \<le> length Es"
  by (simp add: open_fds_def)

text \<open>C40: A fork gives the child the open descriptors of the parent, but under new numbers: the \<open>i\<close>-th open descriptor of the
  parent becomes descriptor \<open>i\<close> of the child, so that every gap moves the ones behind it; every copy has one use more than
  the original, and so has every file behind them. The parent keeps its table, and the numbers of the standard descriptors
  are copied as they are.\<close>

theorem fork_renumbers_descriptors:
  assumes "Parent \<noteq> 0" "Child \<noteq> 0" "FdTable (Procs s Parent) = G" "G \<noteq> 0" "Child \<noteq> Parent"
    and "length (Entries (FdTabs s G)) = nat (FdCap (FdTabs s G))" "0 < FdCap (FdTabs s G)"
    and "2 \<le> HeapLeft s" "NextPtr s \<noteq> 0" "G \<noteq> NextPtr s"
  shows "\<exists>t F. ForkCopyFds Parent Child s = Some (0, t) \<and> FdTable (Procs t Child) = F \<and> F \<noteq> G \<and>
    Entries (FdTabs t F) = map (\<lambda>(i, E). child_fd i E) (enumerate 0 (open_fds (Entries (FdTabs s G)))) @
      replicate (nat (FdCap (FdTabs s G)) - length (open_fds (Entries (FdTabs s G)))) InitEntry \<and>
    FdCount (FdTabs t F) = int (length (open_fds (Entries (FdTabs s G)))) \<and> StdinFd (FdTabs t F) = StdinFd (FdTabs s G) \<and>
    StdoutFd (FdTabs t F) = StdoutFd (FdTabs s G) \<and> StderrFd (FdTabs t F) = StderrFd (FdTabs s G) \<and>
    FdTabs t G = FdTabs s G \<and> (\<nexists>f. f \<noteq> 0 \<and> fRefcnt (Files t f) \<noteq> fRefcnt (Files s f) + int (file_uses f (Entries (FdTabs s G))))"
proof -
  let ?T = "FdTabs s G" and ?F = "NextPtr s"
  define s1 where "s1 = upd_proc Child (\<lambda>C. C\<lparr>SigMask := SigMask (Procs s Parent), SigPending := 0, MainThread := 0,
      Times := \<lparr>UserUsec = 0, SysUsec = 0, StartTick = StartTick (Times (Procs s Parent))\<rparr>\<rparr>) s"
  have k: "kmalloc s1 = (?F, s1\<lparr>NextPtr := NextPtr s + 1, HeapLeft := HeapLeft s - 1\<rparr>)"
    using assms(8) by (simp add: kmalloc_def s1_def upd_proc_def)
  define s2 where "s2 = upd_proc Child (\<lambda>C. C\<lparr>FdTable := ?F\<rparr>) (s1\<lparr>NextPtr := NextPtr s + 1, HeapLeft := HeapLeft s - 1\<rparr>)"
  have s2: "FdTabs s2 = FdTabs s" "Procs s2 Parent = Procs s Parent" "Files s2 = Files s" "HeapLeft s2 = HeapLeft s - 1" "NextPtr s2 = NextPtr s + 1"
    "FdTable (Procs s2 Child) = ?F" "Th s2 = Th s" "PPipes s2 = PPipes s"
    using assms(5) by (simp_all add: s2_def s1_def upd_proc_def)
  have "\<exists>s3. with_fds ?F (PosixFdInit (FdCap ?T)) s2 = Some (0, s3) \<and> Procs s3 = Procs s2 \<and> Files s3 = Files s \<and>
      (\<forall>H. H \<noteq> ?F \<longrightarrow> FdTabs s3 H = FdTabs s H) \<and> Entries (FdTabs s3 ?F) = replicate (nat (FdCap ?T)) InitEntry \<and>
      FdCap (FdTabs s3 ?F) = FdCap ?T \<and> FdCount (FdTabs s3 ?F) = 0"
    using assms(8) by (simp add: with_fds_def PosixFdInit_def kmalloc_def s2)
  then obtain s3 where s3: "with_fds ?F (PosixFdInit (FdCap ?T)) s2 = Some (0, s3)" "Procs s3 = Procs s2" "Files s3 = Files s"
      "\<And>H. H \<noteq> ?F \<Longrightarrow> FdTabs s3 H = FdTabs s H" "Entries (FdTabs s3 ?F) = replicate (nat (FdCap ?T)) InitEntry"
      "FdCap (FdTabs s3 ?F) = FdCap ?T" "FdCount (FdTabs s3 ?F) = 0"
    by blast
  have fs1: "FdTabs s1 = FdTabs s" by (simp add: s1_def)
  have tk: "take (nat (FdCap ?T)) (Entries ?T) = Entries ?T" using assms(6) by simp
  have "\<exists>t. fork_fds ?F (Entries ?T) s3 = Some (0, t) \<and> fork_frame ?F s3 t \<and> FdCap (FdTabs t ?F) = FdCap (FdTabs s3 ?F) \<and>
      Entries (FdTabs t ?F) = [] @ map (\<lambda>(i, E). child_fd i E) (enumerate (length ([] :: PosixFd list)) (open_fds (Entries ?T))) @
        replicate (nat (FdCap ?T) - length (open_fds (Entries ?T))) InitEntry \<and>
      FdCount (FdTabs t ?F) = FdCount (FdTabs s3 ?F) + int (length (open_fds (Entries ?T))) \<and>
      (\<forall>f. f \<noteq> 0 \<longrightarrow> fRefcnt (Files t f) = fRefcnt (Files s3 f) + int (file_uses f (Entries ?T)))"
    by (rule fork_fds_spec) (use s3 assms(6,7) open_fds_length [of "Entries ?T"] in auto)
  then obtain t where t: "fork_fds ?F (Entries ?T) s3 = Some (0, t)" "fork_frame ?F s3 t"
      "Entries (FdTabs t ?F) = map (\<lambda>(i, E). child_fd i E) (enumerate 0 (open_fds (Entries ?T))) @
        replicate (nat (FdCap ?T) - length (open_fds (Entries ?T))) InitEntry"
      "FdCount (FdTabs t ?F) = int (length (open_fds (Entries ?T)))"
      "\<forall>f. f \<noteq> 0 \<longrightarrow> fRefcnt (Files t f) = fRefcnt (Files s f) + int (file_uses f (Entries ?T))"
    by (auto simp: s3)
  define t1 where "t1 = t\<lparr>FdTabs := (FdTabs t)(?F := (FdTabs t ?F)\<lparr>StdinFd := StdinFd ?T, StdoutFd := StdoutFd ?T, StderrFd := StderrFd ?T\<rparr>)\<rparr>"
  have "ForkCopyFds Parent Child s = Some (0, upd_proc Child (inherit (Procs s Parent)) t1)"
    using assms(1,2,4,9,10) s3(4) [of G] s3(1)
    by (simp add: ForkCopyFds_def assms(3) s1_def [symmetric] k fs1 s2_def [simplified, symmetric] s3 tk t t1_def Let_def)
  moreover have "FdTable (Procs (upd_proc Child (inherit (Procs s Parent)) t1) Child) = ?F"
    using t(2) by (simp add: t1_def inherit_def Let_def fork_frame_def s3 s2)
  moreover have "FdTabs t G = FdTabs s G" using t(2) s3(4) assms(10) by (simp add: fork_frame_def)
  moreover have "Files (upd_proc Child f t1) = Files t" for f by (simp add: upd_proc_def t1_def)
  ultimately show ?thesis
    using t(3-5) assms(10) by (intro exI [of _ "upd_proc Child (inherit (Procs s Parent)) t1"] exI [of _ ?F]) (auto simp: t1_def)
qed

definition demo_fd :: "int \<Rightarrow> nat \<Rightarrow> PosixFd" where
  "demo_fd i f = \<lparr>Fd = i, FdFlags = 1, Obj = f, FdRefcnt = 1, IsFile = True, IsChar = False, IsBlock = False\<rparr>"

text \<open>Process 1 with descriptor 1 closed: the child sees descriptor 2 as 1.\<close>

definition demo_forking :: procs where
  "demo_forking = upd_proc 11 (\<lambda>P. P\<lparr>FdTable := 20\<rparr>) (demo_procs\<lparr>FdTabs := (\<lambda>_. \<lparr>Entries = [demo_fd 0 7, InitEntry, demo_fd 2 8],
     FdCount = 2, FdCap = 3, StdinFd = 0, StdoutFd = 2, StderrFd = 2, TabLock = demo_lock\<rparr>)\<rparr>)"

theorem fork_renumbers_descriptors_witness:
  "\<exists>t F. ForkCopyFds 11 12 demo_forking = Some (0, t) \<and> FdTable (Procs t 12) = F \<and>
     map (\<lambda>E. (Fd E, Obj E)) (Entries (FdTabs t F)) = [(0, 7), (1, 8), (-1, 0)]"
proof -
  have d: "FdTable (Procs demo_forking 11) = 20" "FdTabs demo_forking 20 = \<lparr>Entries = [demo_fd 0 7, InitEntry, demo_fd 2 8],
     FdCount = 2, FdCap = 3, StdinFd = 0, StdoutFd = 2, StderrFd = 2, TabLock = demo_lock\<rparr>" "HeapLeft demo_forking = 50" "NextPtr demo_forking = 100"
    by (simp_all add: demo_forking_def upd_proc_def demo_procs_def vfs.defs demo_vfs_def)
  have e: "open_fds [demo_fd 0 7, InitEntry, demo_fd 2 8] = [demo_fd 0 7, demo_fd 2 8]" by (simp add: open_fds_def demo_fd_def InitEntry_def)
  show ?thesis
    using fork_renumbers_descriptors [of 11 12 demo_forking 20] unfolding d
    by (auto simp: e child_fd_def) (auto simp: demo_fd_def InitEntry_def)
qed

end
