(* ===== verification/PrintfSpec.thy ===== *)
theory PrintfSpec
  imports Printf
begin

text \<open>The numbers the routines print are the numbers \<^verbatim>\<open>atol\<close> reads back, and the conversions that lose something.\<close>

section \<open>What the routines print\<close>

lemma length_reverse_loop [simp]: "length (reverse_loop i j xs) = length xs"
  by (induction i j xs rule: reverse_loop.induct) (subst reverse_loop.simps, simp)

lemma reverse_loop_nth:
  assumes "j = int (length xs) - 1 - int i" "k < length xs"
  shows "reverse_loop i j xs ! k = (if i \<le> k \<and> k + i < length xs then xs ! (length xs - 1 - k) else xs ! k)"
  using assms
proof (induction i j xs arbitrary: k rule: reverse_loop.induct)
  case (1 i j xs)
  show ?case
  proof (cases "int i < j")
    case True
    have j: "nat j = length xs - 1 - i" "i < length xs" "length xs - 1 - i < length xs" using 1(2) True by auto
    have "reverse_loop i j xs ! k = reverse_loop (i + 1) (j - 1) (xs[i := xs ! nat j, nat j := xs ! i]) ! k"
      using True by (subst reverse_loop.simps) simp
    also have "\<dots> = (if i + 1 \<le> k \<and> k + (i + 1) < length xs then (xs[i := xs ! nat j, nat j := xs ! i]) ! (length xs - 1 - k)
                     else (xs[i := xs ! nat j, nat j := xs ! i]) ! k)"
      using 1(1) [OF True, of k] 1(2,3) by simp
    also have "\<dots> = (if i \<le> k \<and> k + i < length xs then xs ! (length xs - 1 - k) else xs ! k)"
      using True 1(2,3) unfolding j(1) by (auto simp: nth_list_update)
    finally show ?thesis .
  next
    case False
    then have "xs ! (length xs - 1 - k) = xs ! k" if "i \<le> k" "k + i < length xs"
    proof -
      have "length xs - 1 - k = k" using False that 1(2) by linarith
      then show ?thesis by simp
    qed
    then show ?thesis using False by (subst reverse_loop.simps) auto
  qed
qed

lemma ReverseString_rev [simp]: "ReverseString xs = rev xs"
proof (rule nth_equalityI)
  fix k assume "k < length (ReverseString xs)"
  then show "ReverseString xs ! k = rev xs ! k"
    by (simp add: ReverseString_def reverse_loop_nth rev_nth)
qed (simp add: ReverseString_def)

text \<open>The digits of a number that is not zero, in the order they are printed.\<close>

lemma digits_rev_0 [simp]: "digits_rev Base up 0 = []"
  by (subst digits_rev.simps) simp

lemma digits_rev_step: "2 \<le> Base \<Longrightarrow> n \<noteq> 0 \<Longrightarrow> digits_rev Base up n = digit_char up (n mod Base) # digits_rev Base up (n div Base)"
  by (subst digits_rev.simps) simp

lemma digits_rev_pos: "2 \<le> Base \<Longrightarrow> n \<noteq> 0 \<Longrightarrow> digits_rev Base up n \<noteq> []"
  by (subst digits_rev.simps) simp

definition dec_text :: "int \<Rightarrow> string" where
  "dec_text i = (if i < 0 then ''-'' else []) @ UnsignedToStringEx (word_of_int \<bar>i\<bar>) 10 False"

definition is_decimal :: "char \<Rightarrow> bool" where
  "is_decimal c \<longleftrightarrow> 48 \<le> (of_char c :: nat) \<and> (of_char c :: nat) \<le> 57"

definition dec_value :: "nat \<Rightarrow> string \<Rightarrow> nat" where
  "dec_value acc ds = foldl (\<lambda>n c. n * 10 + (of_char c - 48)) acc ds"

lemma digit_char_dec: "d < 10 \<Longrightarrow> is_decimal (digit_char up d) \<and> (of_char (digit_char up d) :: nat) = d + 48"
  by (simp add: digit_char_def is_decimal_def)

lemma dec_value_digits: "dec_value 0 (rev (digits_rev 10 up n)) = n \<and> list_all is_decimal (digits_rev 10 up n)"
proof (induction "10 :: nat" up n rule: digits_rev.induct)
  case (1 up n)
  show ?case
  proof (cases "n = 0")
    case False
    have "(of_char (digit_char up (n mod 10)) :: nat) - 48 = n mod 10" using digit_char_dec [of "n mod 10" up] by simp
    then show ?thesis using 1 False digit_char_dec [of "n mod 10" up]
      by (simp add: digits_rev_step dec_value_def)
  qed (simp add: dec_value_def)
qed

lemma Unsigned_dec: "list_all is_decimal (UnsignedToStringEx v 10 up) \<and> dec_value 0 (UnsignedToStringEx v 10 up) = unat v \<and>
    UnsignedToStringEx v 10 up \<noteq> []"
proof (cases "v = 0")
  case True
  then show ?thesis by (simp add: UnsignedToStringEx_def dec_value_def is_decimal_def)
next
  case False
  then have "unat v \<noteq> 0" by (simp add: unat_eq_0)
  then show ?thesis using False dec_value_digits [of up "unat v"] digits_rev_pos [of 10 "unat v" up]
    by (simp add: UnsignedToStringEx_def)
qed

lemma digits_rev_length:
  assumes "n < Base ^ k" "2 \<le> Base"
  shows "length (digits_rev Base up n) \<le> k"
  using assms
proof (induction k arbitrary: n)
  case (Suc k)
  show ?case
  proof (cases "n = 0")
    case False
    have "n div Base < Base ^ k" using Suc.prems by (simp add: less_mult_imp_div_less mult.commute)
    then show ?thesis using Suc.IH [of "n div Base"] Suc.prems False by (simp add: digits_rev_step)
  qed simp
qed simp

lemma Unsigned_dec_length: "length (UnsignedToStringEx v 10 up) \<le> 20"
proof -
  have "unat v < 2 ^ LENGTH(64)" by (rule unsigned_less)
  also have "(2 ^ LENGTH(64) :: nat) \<le> 10 ^ 20" by simp
  finally show ?thesis using digits_rev_length [of "unat v" 10 20 up] by (simp add: UnsignedToStringEx_def)
qed


lemma is_decimal_chars: "is_decimal c \<Longrightarrow> c \<notin> {CHR ''-'', CHR ''+'', CHR '' '', CHR ''#'', CHR ''*'', CHR ''.'', CHR ''l''}"
  by (auto simp: is_decimal_def)

lemma of_char_int: "(of_char c :: int) = int (of_char c)"
  by (cases c) simp

lemma parse_number_decimal:
  assumes "list_all is_decimal ds" "\<not> is_decimal (at f)"
  shows "parse_number (int n) (ds @ f) = (int (dec_value n ds), f)"
  using assms
proof (induction ds arbitrary: n)
  case Nil
  then show ?case
    by (cases f) (auto simp: dec_value_def at_def is_decimal_def of_char_int not_le)
next
  case (Cons d ds)
  have d: "48 \<le> (of_char d :: nat)" "(of_char d :: nat) \<le> 57" using Cons.prems by (auto simp: is_decimal_def)
  have i: "(of_char d :: int) = int (of_char d)" by (rule of_char_int)
  have e: "int n * 10 + (of_char d - 48) = int (n * 10 + (of_char d - 48))" unfolding i using d by simp
  have b: "48 \<le> (of_char d :: int) \<and> (of_char d :: int) \<le> 57" unfolding i using d by simp
  have "parse_number (int n) ((d # ds) @ f) = parse_number (int (n * 10 + (of_char d - 48))) (ds @ f)"
    unfolding append_Cons parse_number.simps(2) if_P [OF b] e ..
  also have "\<dots> = (int (dec_value (n * 10 + (of_char d - 48)) ds), f)"
    by (rule Cons.IH) (use Cons.prems in auto)
  finally show ?case by (simp add: dec_value_def)
qed

lemma last_digit_rev: "2 \<le> Base \<Longrightarrow> Base \<le> 10 \<Longrightarrow> n \<noteq> 0 \<Longrightarrow> last (digits_rev Base up n) \<noteq> CHR ''0''"
proof (induction Base up n rule: digits_rev.induct)
  case (1 Base up n)
  show ?case
  proof (cases "n div Base = 0")
    case True
    then have "n mod Base = n" "n < 10" using 1 by (auto simp: div_eq_0_iff)
    then have "digits_rev Base up n = [digit_char up n]" using 1 True by (simp add: digits_rev_step)
    moreover have "(of_char (digit_char up n) :: nat) \<noteq> of_char (CHR ''0'')"
      using 1 digit_char_dec [of n up] \<open>n < 10\<close> by simp
    ultimately show ?thesis by (metis last.simps)
  next
    case False
    then show ?thesis using 1 digits_rev_pos [of Base "n div Base" up] by (simp add: digits_rev_step)
  qed
qed

lemma Unsigned_head: "n \<noteq> 0 \<Longrightarrow> \<exists>d ds. UnsignedToStringEx n 10 up = d # ds \<and> is_decimal d \<and> d \<noteq> CHR ''0''"
proof -
  assume n: "n \<noteq> 0"
  then have u: "unat n \<noteq> 0" by (simp add: unat_eq_0)
  have t: "UnsignedToStringEx n 10 up = rev (digits_rev 10 up (unat n))" using n by (simp add: UnsignedToStringEx_def)
  have "digits_rev 10 up (unat n) \<noteq> []" by (rule digits_rev_pos) (use u in simp_all)
  then obtain ds d where d: "digits_rev 10 up (unat n) = ds @ [d]" by (cases "digits_rev 10 up (unat n)" rule: rev_cases) auto
  have "d \<noteq> CHR ''0''" using last_digit_rev [of 10 "unat n" up] u d by simp
  moreover have "is_decimal d" using Unsigned_dec [of n up] unfolding t d by simp
  ultimately show ?thesis unfolding t d by simp
qed

text \<open>Parsing a width followed by \<^verbatim>\<open>ld\<close>.\<close>

lemma parse_width_ld:
  assumes "n \<noteq> 0"
  shows "parse_spec (UnsignedToStringEx n 10 False @ ''ld'' @ rest) As = Some (no_flags\<lparr>Width := int (unat n), Length := 1\<rparr>, CHR ''d'' # rest, As)"
proof -
  obtain d ds where d: "UnsignedToStringEx n 10 False = d # ds" "is_decimal d" "d \<noteq> CHR ''0''" using Unsigned_head [OF assms] by blast
  have f: "parse_flags (UnsignedToStringEx n 10 False @ ''ld'' @ rest) no_flags = (no_flags, UnsignedToStringEx n 10 False @ ''ld'' @ rest)"
    using d is_decimal_chars [OF d(2)] by simp
  have "parse_number 0 (UnsignedToStringEx n 10 False @ ''ld'' @ rest) = (int (unat n), ''ld'' @ rest)"
    using parse_number_decimal [of "UnsignedToStringEx n 10 False" "''ld'' @ rest" 0] Unsigned_dec [of n False]
    by (simp add: at_def is_decimal_def)
  moreover have "at (UnsignedToStringEx n 10 False @ ''ld'' @ rest) \<noteq> CHR ''*''"
    using d is_decimal_chars [OF d(2)] by (simp add: at_def)
  ultimately have "parse_star (UnsignedToStringEx n 10 False @ ''ld'' @ rest) As = Some (int (unat n), ''ld'' @ rest, As)"
    by (simp add: parse_star_def)
  then show ?thesis
    unfolding parse_spec_def f by (simp add: parse_precision_def parse_length_def at_def)
qed

lemma FormatOutput_width:
  "FormatOutput Buf (no_flags\<lparr>Width := int k, Length := 1\<rparr>) neg 10 =
     replicate (k - length ((if neg then ''-'' else []) @ Buf)) (CHR '' '') @ (if neg then ''-'' else []) @ Buf"
  by (cases neg) (auto simp: FormatOutput_def no_flags_def Let_def nat_diff_distrib nat_add_distrib Suc_nat_eq_nat_zadd1)

lemma convert_ld:
  "convert CHR ''d'' (no_flags\<lparr>Width := int k, Length := 1\<rparr>) (Slot w # As) =
     Some (replicate (k - length (dec_text (sint w))) (CHR '' '') @ dec_text (sint w), As)"
proof -
  have v: "(if sint w < 0 then - word_of_int (sint w) else word_of_int (sint w) :: u64) = word_of_int \<bar>sint w\<bar>"
    by (auto simp: abs_if)
  have l: "\<not> 64 \<le> length (UnsignedToStringEx (word_of_int \<bar>sint w\<bar>) 10 False)"
    using Unsigned_dec_length [of "word_of_int \<bar>sint w\<bar>" False] by simp
  have "ProcessInteger (no_flags\<lparr>Width := int k, Length := 1\<rparr>) 10 True (Slot w # As) =
      Some (FormatOutput (UnsignedToStringEx (word_of_int \<bar>sint w\<bar>) 10 False) (no_flags\<lparr>Width := int k, Length := 1\<rparr>) (sint w < 0) 10, As)"
    using l by (simp add: ProcessInteger_def signed_value_def no_flags_def v Let_def)
  then show ?thesis by (simp add: convert_def FormatOutput_width dec_text_def del: append_assoc)
qed


section \<open>Reading printed numbers back\<close>

definition text_bytes :: "string \<Rightarrow> u8 list" where
  "text_bytes = map (\<lambda>c. word_of_nat (of_char c))"

lemma text_byte: "unat (word_of_nat (of_char c) :: u8) = of_char c"
proof -
  have "(of_char c :: nat) < 256" by simp
  then show ?thesis by (simp add: unsigned_of_nat take_bit_nat_eq_self)
qed

lemma text_bytes_digits:
  "list_all is_decimal ds \<Longrightarrow> list_all is_digit (text_bytes ds) \<and> digits_value (text_bytes ds) n = dec_value n ds"
proof (induction ds arbitrary: n)
  case (Cons d ds)
  have "is_digit (word_of_nat (of_char d))"
    using Cons.prems unfolding is_digit_def word_le_nat_alt text_byte by (simp add: is_decimal_def)
  then show ?case using Cons by (simp add: text_bytes_def digits_value_def dec_value_def text_byte)
qed (simp add: text_bytes_def digits_value_def dec_value_def)

lemma cstr_append: "cstr m p (a @ b) \<longleftrightarrow> (\<forall>i < length a. m (p + word_of_nat i) = a ! i \<and> a ! i \<noteq> 0) \<and> cstr m (p + word_of_nat (length a)) b"
proof (induction a arbitrary: p)
  case (Cons c a)
  show ?case
    unfolding append_Cons cstr.simps Cons.IH length_Cons All_less_Suc2
    by (auto simp: ac_simps)
qed simp

lemma atol_digits_text:
  assumes "list_all is_decimal ds" "cstr m p (text_bytes ds)"
  shows "atol_digits m p 0 = Some (word_of_nat (dec_value 0 ds))"
proof -
  have l: "list_all is_digit (text_bytes ds)" "digits_value (text_bytes ds) 0 = dec_value 0 ds"
    using text_bytes_digits [OF assms(1), of 0] by simp_all
  have c: "(\<forall>i < length (text_bytes ds). m (p + word_of_nat i) = text_bytes ds ! i) \<and> m (p + word_of_nat (length (text_bytes ds))) = 0"
    using assms(2) cstr_append [of m p "text_bytes ds" "[]"] by auto
  then show ?thesis using atol_digits_spec [OF l(1), of m p 0] l(2) by (simp add: is_digit_def)
qed

lemma atol_skip_spaces:
  assumes "\<forall>i < k. m (p + word_of_nat i) = 0x20" "m (p + word_of_nat k) \<notin> {0x20, 0x09, 0x0A}"
  shows "atol_skip m p = Some (p + word_of_nat k)"
  using assms
proof (induction k arbitrary: p)
  case 0
  then show ?case by (subst atol_skip.simps) auto
next
  case (Suc k)
  have "m p = 0x20" using Suc.prems(1) by (auto dest: spec [of _ 0])
  moreover have "atol_skip m (p + 1) = Some (p + 1 + word_of_nat k)"
  proof (rule Suc.IH)
    show "\<forall>i < k. m (p + 1 + word_of_nat i) = 0x20"
      using Suc.prems(1) by (auto simp: ac_simps dest: spec [of _ "Suc _"])
    show "m (p + 1 + word_of_nat k) \<notin> {0x20, 0x09, 0x0A}" using Suc.prems(2) by (simp add: ac_simps)
  qed
  ultimately show ?case by (subst atol_skip.simps) (simp add: ac_simps)
qed

lemma atol_dec_text:
  assumes "cstr m p (text_bytes (replicate k (CHR '' '') @ dec_text (sint w)))" "p \<noteq> 0"
  shows "atol m p = Some (w :: u64)"
proof -
  let ?d = "UnsignedToStringEx (word_of_int \<bar>sint w\<bar>) 10 False" and ?q = "p + word_of_nat k"
  have d: "list_all is_decimal ?d" "dec_value 0 ?d = unat (word_of_int \<bar>sint w\<bar> :: u64)" "?d \<noteq> []"
    using Unsigned_dec [of "word_of_int \<bar>sint w\<bar>" False] by simp_all
  have c: "cstr m p (replicate k 0x20 @ text_bytes (dec_text (sint w)))"
    using assms(1) by (simp add: text_bytes_def)
  then have s: "\<forall>i < k. m (p + word_of_nat i) = 0x20" and q: "cstr m ?q (text_bytes (dec_text (sint w)))"
    unfolding cstr_append by auto
  obtain x xs where x: "?d = x # xs" "is_decimal x" using d by (cases ?d) auto
  have xb: "(word_of_nat (of_char x) :: u8) \<notin> {0x20, 0x09, 0x0A, 0x2D, 0x2B}"
    using x(2) text_byte [of x] by (auto simp: is_decimal_def)
  show ?thesis
  proof (cases "sint w < 0")
    case True
    then have t: "text_bytes (dec_text (sint w)) = 0x2D # text_bytes ?d" by (simp add: dec_text_def text_bytes_def)
    then have m: "m ?q = 0x2D" "cstr m (?q + 1) (text_bytes ?d)" using q by auto
    have "atol m p = map_option uminus (atol_digits m (?q + 1) 0)"
      using atol_skip_spaces [OF s] m(1) assms(2) by (simp add: atol_def)
    also have "\<dots> = Some (- word_of_int \<bar>sint w\<bar>)" unfolding atol_digits_text [OF d(1) m(2)] d(2) by simp
    also have "- word_of_int \<bar>sint w\<bar> = w" using True by (simp add: abs_if)
    finally show ?thesis .
  next
    case False
    then have t: "dec_text (sint w) = ?d" by (simp add: dec_text_def)
    have m: "m ?q = word_of_nat (of_char x)" using q unfolding t x(1) by (simp add: text_bytes_def)
    have sk: "atol_skip m p = Some ?q" by (rule atol_skip_spaces [OF s]) (use m xb in auto)
    have "atol m p = atol_digits m ?q 0"
      using sk m xb assms(2) by (simp add: atol_def)
    also have "\<dots> = Some (word_of_int \<bar>sint w\<bar>)" using q unfolding t by (simp add: atol_digits_text [OF d(1)] d(2))
    also have "word_of_int \<bar>sint w\<bar> = w" using False by (simp add: abs_if)
    finally show ?thesis .
  qed
qed


section \<open>Properties\<close>

lemma format_nil [simp]: "format_loop [] As = Some []"
  by (subst format_loop.simps) simp

lemma format_spec:
  "ProcessFormatSpecifier f As = Some (out, [], As') \<Longrightarrow> format_loop (CHR ''%'' # f) As = Some out"
  by (subst format_loop.simps) simp

lemma format_spec_None: "ProcessFormatSpecifier f As = None \<Longrightarrow> format_loop (CHR ''%'' # f) As = None"
  by (subst format_loop.simps) simp

lemma format_width_ld:
  assumes "n \<noteq> 0"
  shows "format_loop (''%'' @ UnsignedToStringEx n 10 False @ ''ld'') [Slot w] =
    Some (replicate (unat n - length (dec_text (sint w))) (CHR '' '') @ dec_text (sint w))"
proof -
  have "ProcessFormatSpecifier (UnsignedToStringEx n 10 False @ ''ld'') [Slot w] =
      Some (replicate (unat n - length (dec_text (sint w))) (CHR '' '') @ dec_text (sint w), [], [])"
    using parse_width_ld [OF assms, of "[]" "[Slot w]"] convert_ld [of "unat n" w "[]"]
    by (simp add: ProcessFormatSpecifier_def at_def)
  then show ?thesis by (simp add: format_spec)
qed

lemma KrnPrintf_free:
  assumes "SpinLock_Lock (ConsoleLock P) = 0" "format_loop f As = Some out"
  shows "\<exists>Q. KrnPrintf f As P = Some Q \<and> Screen Q = Screen P @ map (\<lambda>c. (c, TXColor P, BGColor P)) out \<and>
    SpinLock_Lock (ConsoleLock Q) = 0 \<and> TXColor Q = TXColor P \<and> BGColor Q = BGColor P"
  using assms
  by (simp add: KrnPrintf_def lock_console_def AcquireSpinLock_def Let_def print_args_def PutPrint_def unlock_console_def
      ReleaseSpinLock_def split: prod.split)

text \<open>C35: Printing a 64-bit number with \<^verbatim>\<open>%<width>ld\<close> puts at least \<^verbatim>\<open>width\<close> characters on the console, in the colours
  that are set, and leaves the console unlocked; and whatever the number, \<^verbatim>\<open>atol\<close> reads it back from those
  characters, padding and sign included.\<close>

theorem KrnPrintf_number_read_back:
  assumes "SpinLock_Lock (ConsoleLock P) = 0" "n \<noteq> 0" "n < 0x80000000"
  shows "\<exists>Q out. KrnPrintf (''%'' @ UnsignedToStringEx n 10 False @ ''ld'') [Slot w] P = Some Q \<and>
    Screen Q = Screen P @ map (\<lambda>c. (c, TXColor P, BGColor P)) out \<and> SpinLock_Lock (ConsoleLock Q) = 0 \<and>
    length out = max (unat n) (length (dec_text (sint w))) \<and>
    (\<forall>m p. p \<noteq> 0 \<and> cstr m p (text_bytes out) \<longrightarrow> atol m p = Some w)"
proof -
  define out where "out = replicate (unat n - length (dec_text (sint w))) (CHR '' '') @ dec_text (sint w)"
  obtain Q where Q: "KrnPrintf (''%'' @ UnsignedToStringEx n 10 False @ ''ld'') [Slot w] P = Some Q"
      "Screen Q = Screen P @ map (\<lambda>c. (c, TXColor P, BGColor P)) out" "SpinLock_Lock (ConsoleLock Q) = 0"
    using KrnPrintf_free [OF assms(1) format_width_ld [OF assms(2), of w]] unfolding out_def by blast
  moreover have "length out = max (unat n) (length (dec_text (sint w)))" by (simp add: out_def)
  moreover have "\<forall>m p. p \<noteq> 0 \<and> cstr m p (text_bytes out) \<longrightarrow> atol m p = Some w"
    unfolding out_def by (blast intro: atol_dec_text)
  ultimately show ?thesis by blast
qed

definition demo_printer :: printer where
  "demo_printer = \<lparr>ConsoleLock = \<lparr>SpinLock_Lock = 0, SpinLock_CpuId = 0, SpinLock_Name = [], SpinLock_Flags = 0\<rparr>,
     PrFlags = \<lparr>RFlags = (\<lambda>_. 0x202), SavedFlags = (\<lambda>_. 0)\<rparr>, PrCpu = 0, TXColor = ClrNormal, BGColor = 0, Screen = []\<rparr>"

theorem KrnPrintf_number_read_back_witness:
  "\<exists>Q out. KrnPrintf (''%'' @ UnsignedToStringEx 8 10 False @ ''ld'') [Slot (- 42)] demo_printer = Some Q \<and>
    Screen Q = map (\<lambda>c. (c, ClrNormal, 0)) out \<and> length out = max (unat (8 :: u64)) (length (dec_text (sint (- 42 :: u64))))"
proof -
  have "SpinLock_Lock (ConsoleLock demo_printer) = 0" by (simp add: demo_printer_def)
  from KrnPrintf_number_read_back [OF this, where n = 8 and w = "- 42"] show ?thesis
    by (auto simp: demo_printer_def)
qed

lemma digits_rev_2_length: "n \<noteq> 0 \<Longrightarrow> 2 ^ length (digits_rev 2 up n) \<le> 2 * n \<and> n < 2 ^ length (digits_rev 2 up n)"
proof (induction "2 :: nat" up n rule: digits_rev.induct)
  case (1 up n)
  show ?case
  proof (cases "n div 2 = 0")
    case True
    then have "n = 1" using 1(2) by auto
    then show ?thesis by (simp add: digits_rev_step)
  next
    case False
    have ih: "2 ^ length (digits_rev 2 up (n div 2)) \<le> 2 * (n div 2)" "n div 2 < 2 ^ length (digits_rev 2 up (n div 2))"
      using 1(1) [OF _ False] 1(2) by auto
    have "n < 2 * 2 ^ length (digits_rev 2 up (n div 2))" using ih(2) by linarith
    moreover have "2 * 2 ^ length (digits_rev 2 up (n div 2)) \<le> 2 * n" using ih(1) by linarith
    ultimately show ?thesis using 1(2) by (simp add: digits_rev_step)
  qed
qed

lemma hex_length: "length (UnsignedToStringEx w 16 up) \<le> 16"
proof -
  have "unat w < 2 ^ LENGTH(64)" by (rule unsigned_less)
  also have "(2 ^ LENGTH(64) :: nat) = 16 ^ 16" by simp
  finally show ?thesis using digits_rev_length [of "unat w" 16 16 up] by (simp add: UnsignedToStringEx_def)
qed

lemma bin_length: "bit w 63 \<Longrightarrow> 64 \<le> length (UnsignedToStringEx (w :: u64) 2 up)"
proof -
  assume "bit w 63"
  then have "bit (unat w) 63" by (simp add: bit_unsigned_iff)
  then have u: "(2 :: nat) ^ 63 \<le> unat w" by (metis bit_iff_odd div_less even_zero not_le)
  then have "unat w \<noteq> 0" by (metis not_numeral_le_zero of_nat_numeral power_not_zero le_0_eq zero_neq_numeral)
  then have "(2 :: nat) ^ 63 < 2 ^ length (digits_rev 2 up (unat w))" using digits_rev_2_length [of "unat w" up] u by linarith
  then have "63 < length (digits_rev 2 up (unat w))" by (rule power_less_imp_less_exp [rotated]) simp
  then show ?thesis using u by (auto simp: UnsignedToStringEx_def)
qed

lemma FormatOutput_plain: "FormatOutput Buf (no_flags\<lparr>Length := k\<rparr>) False Base = Buf"
  by (simp add: FormatOutput_def no_flags_def)

lemma ProcessInteger_hex:
  "ProcessInteger (no_flags\<lparr>Length := k\<rparr>) 16 False (Slot w # As) =
     Some (UnsignedToStringEx (unsigned_value k w) 16 (k AND 0x80 \<noteq> 0), As)"
  using hex_length [of "unsigned_value k w" "k AND 0x80 \<noteq> 0"]
  by (simp add: ProcessInteger_def FormatOutput_plain)

text \<open>A specifier with no flags, width or precision.\<close>

lemma plain_spec:
  assumes "parse_length f = (k, [c])" "at f \<notin> set ''-+ #*.''" "\<not> is_decimal (at f)"
  shows "ProcessFormatSpecifier f As = map_option (\<lambda>(out, As). (out, [], As)) (convert c (no_flags\<lparr>Length := k\<rparr>) As)"
proof -
  obtain a g where f: "f = a # g" using assms(1) by (cases f) (auto simp: parse_length_def at_def)
  then have a: "a \<notin> set ''-+ #*.''" "\<not> is_decimal a" using assms(2,3) by (simp_all add: at_def)
  have "is_decimal (CHR ''0'')" by (simp add: is_decimal_def)
  then have "a \<noteq> CHR ''0''" using a(2) by metis
  moreover have "a \<noteq> CHR ''-''" "a \<noteq> CHR ''+''" "a \<noteq> CHR '' ''" "a \<noteq> CHR ''#''" using a(1) by simp_all
  ultimately have pf: "parse_flags f no_flags = (no_flags, f)" unfolding f by simp
  have pn: "parse_number 0 f = (0, f)"
    using a(2) unfolding f is_decimal_def by (auto simp: of_char_int)
  have ps: "parse_star f As = Some (0, f, As)" using a(1) pn by (simp add: parse_star_def f at_def)
  have pp: "parse_precision F f As = Some (F, f, As)" for F using a(1) by (simp add: parse_precision_def f at_def)
  have "no_flags\<lparr>Width := 0\<rparr> = no_flags" by (simp add: no_flags_def)
  then have "parse_spec f As = Some (no_flags\<lparr>Length := k\<rparr>, [c], As)"
    unfolding parse_spec_def pf by (simp add: ps pp assms(1))
  then show ?thesis
    by (cases "convert c (no_flags\<lparr>Length := k\<rparr>) As") (auto simp: ProcessFormatSpecifier_def at_def)
qed

lemma OR_0x80: "(1 :: int) OR 0x80 = 0x81" "(-1 :: int) AND 0x80 = 0x80" "(1 :: int) AND 0x80 = 0" "(0x81 :: int) AND 0x80 = 0x80"
  by (simp_all add: eval_nat_numeral)

lemma unsigned_value_simps: "unsigned_value 1 w = w" "unsigned_value 0x81 w = ucast (ucast w :: u32)"
    "unsigned_value (- 1) w = ucast (ucast w :: u16)"
  by (simp_all add: unsigned_value_def)

text \<open>C36: What the conversions lose: for a number with its top bit set, \<^verbatim>\<open>%lx\<close> prints all of it and \<^verbatim>\<open>%lX\<close> only its
  lower 32 bits; the buffer of \<^verbatim>\<open>%lb\<close> is too short for it (the terminator is written past its end); \<^verbatim>\<open>%hx\<close> prints
  upper-case digits; and a format that ends in \<^verbatim>\<open>%\<close> is read past its terminator.\<close>

theorem KrnPrintf_conversion_faults:
  assumes "bit w 63"
  shows "format_loop ''%lx'' [Slot w] = Some (UnsignedToStringEx w 16 False) \<and>
    format_loop ''%lX'' [Slot w] = Some (UnsignedToStringEx (ucast (ucast w :: u32)) 16 True) \<and>
    format_loop ''%lb'' [Slot w] = None \<and>
    format_loop ''%hx'' [Slot w] = Some (UnsignedToStringEx (ucast (ucast w :: u16)) 16 True) \<and>
    format_loop ''%'' As = None"
proof (intro conjI)
  have l: "parse_length ''lx'' = (1, ''x'')" "parse_length ''lX'' = (1, ''X'')" "parse_length ''lb'' = (1, ''b'')"
      "parse_length ''hx'' = (-1, ''x'')"
    by (simp_all add: parse_length_def at_def)
  show "format_loop ''%lx'' [Slot w] = Some (UnsignedToStringEx w 16 False)"
    by (rule format_spec) (simp add: plain_spec [OF l(1)] at_def is_decimal_def convert_def ProcessInteger_hex OR_0x80 unsigned_value_simps)
  show "format_loop ''%lX'' [Slot w] = Some (UnsignedToStringEx (ucast (ucast w :: u32)) 16 True)"
    by (rule format_spec)
      (simp add: plain_spec [OF l(2)] at_def is_decimal_def convert_def ProcessInteger_hex OR_0x80 unsigned_value_simps)
  have "ProcessInteger (no_flags\<lparr>Length := 1\<rparr>) 2 False [Slot w] = None"
    using bin_length [OF assms] by (simp add: ProcessInteger_def OR_0x80 unsigned_value_simps no_flags_def Let_def)
  then show "format_loop ''%lb'' [Slot w] = None"
    by (intro format_spec_None) (simp add: plain_spec [OF l(3)] at_def is_decimal_def convert_def)
  show "format_loop ''%hx'' [Slot w] = Some (UnsignedToStringEx (ucast (ucast w :: u16)) 16 True)"
    by (rule format_spec) (simp add: plain_spec [OF l(4)] at_def is_decimal_def convert_def ProcessInteger_hex OR_0x80 unsigned_value_simps)
  show "format_loop ''%'' As = None"
    by (rule format_spec_None)
      (simp add: ProcessFormatSpecifier_def parse_spec_def parse_star_def parse_precision_def parse_length_def at_def)
qed

theorem KrnPrintf_conversion_faults_witness: "format_loop ''%lb'' [Slot 0x8000000000000000] = None"
proof -
  have "bit (0x8000000000000000 :: u64) 63" by code_simp
  from KrnPrintf_conversion_faults [OF this] show ?thesis by blast
qed

end
