(* ===== verification/RamFS.thy ===== *)
theory RamFS
  imports VFS "HOL-Library.Sublist"
begin

text \<open>
  The RAM file system: \<^verbatim>\<open>Kernel/RamFS\<close> (the tree, the cpio reader), \<^verbatim>\<open>Kernel/VFS/VfsRamFs.c\<close> (its tables
  of operations for the switch) and \<^verbatim>\<open>Kernel/BootImg/ParseImage.c\<close>.

  The state adds to the switch's the node store, \<^verbatim>\<open>RamFS.Root\<close> and the private objects of vnodes and
  open files. The fixed array of 64 child pointers with its counter is the list of the first
  \<^verbatim>\<open>ChildCount\<close> entries; a node's data pointer is the list of the bytes it points to. The cpio
  image is a list of bytes, read as NUL past its end; offsets are 32-bit and wrap, so the reader
  need not end on a hostile image, which is the value \<open>None\<close>.
\<close>

section \<open>Data\<close>

datatype RamFSNodeType = RamFSNode_File | RamFSNode_Directory

record RamFSNode =
  rNext :: nat
  Children :: "nat list"
  rName :: string
  rType :: RamFSNodeType
  rSize :: u32
  rData :: string
  rMagic :: u32

record RamVfsPrivFile =
  pfNode :: nat
  pfOffset :: int

record ramfs = vfs +
  RNodes :: "nat \<Rightarrow> RamFSNode"
  RamFS_Root :: nat
  PrivNodes :: "nat \<Rightarrow> nat"
  PrivFiles :: "nat \<Rightarrow> RamVfsPrivFile"

abbreviation RamFSMaxChildren :: nat where "RamFSMaxChildren \<equiv> 64"
abbreviation RamFSNodeMagic :: u32 where "RamFSNodeMagic \<equiv> 0xBAADF00D"

section \<open>Nodes (Nodehelpers.c)\<close>

definition RamFSCreateNode :: "string \<Rightarrow> RamFSNodeType \<Rightarrow> 'z ramfs_scheme \<Rightarrow> nat \<times> 'z ramfs_scheme" where
  "RamFSCreateNode Name Ty s =
     (let (Node, s) = kmalloc s in
      if Node = 0 then (0, s)
      else (Node, s\<lparr>RNodes := (RNodes s)(Node := \<lparr>rNext = 0, Children = [], rName = Name, rType = Ty,
                                              rSize = 0, rData = [], rMagic = RamFSNodeMagic\<rparr>)\<rparr>))"

definition RamFSAddChild :: "nat \<Rightarrow> nat \<Rightarrow> 'z ramfs_scheme \<Rightarrow> 'z ramfs_scheme" where
  "RamFSAddChild Parent Child s =
     (if Parent = 0 \<or> Child = 0 then s
      else if length (Children (RNodes s Parent)) < RamFSMaxChildren
      then s\<lparr>RNodes := (RNodes s)(Parent := (RNodes s Parent)\<lparr>Children := Children (RNodes s Parent) @ [Child]\<rparr>)\<rparr>
      else s)"

definition RamFSEnsureRoot :: "'z ramfs_scheme \<Rightarrow> nat \<times> 'z ramfs_scheme" where
  "RamFSEnsureRoot s =
     (if RamFS_Root s = 0
      then (let (Root, s) = RamFSCreateNode ''/'' RamFSNode_Directory s in (Root, s\<lparr>RamFS_Root := Root\<rparr>))
      else (RamFS_Root s, s))"

section \<open>Paths (RamFs.c)\<close>

text \<open>The first child with the given name; \<open>find_dir\<close> considers directories only.\<close>

definition find_child :: "nat \<Rightarrow> string \<Rightarrow> 'z ramfs_scheme \<Rightarrow> nat option" where
  "find_child n seg s = find (\<lambda>c. c \<noteq> 0 \<and> rName (RNodes s c) = seg) (Children (RNodes s n))"

definition find_dir :: "nat \<Rightarrow> string \<Rightarrow> 'z ramfs_scheme \<Rightarrow> nat option" where
  "find_dir n seg s =
     find (\<lambda>c. c \<noteq> 0 \<and> rType (RNodes s c) = RamFSNode_Directory \<and> rName (RNodes s c) = seg) (Children (RNodes s n))"

text \<open>Copy of the segment name, creation of the node and its attachment.\<close>

definition add_node :: "nat \<Rightarrow> string \<Rightarrow> RamFSNodeType \<Rightarrow> 'z ramfs_scheme \<Rightarrow> nat \<times> 'z ramfs_scheme" where
  "add_node Cur seg Ty s =
     (let (Name, s) = kmalloc s in
      if Name = 0 then (0, s)
      else
        (let (Next, s) = RamFSCreateNode seg Ty s in
         if Next = 0 then (0, s) else (Next, RamFSAddChild Cur Next s)))"

text \<open>The scan of \<^verbatim>\<open>RamFSAttachPath\<close>: the current node, the segment read since \<^verbatim>\<open>SegStart\<close>, the rest of the path.
  \<open>None\<close> is the early return of a null pointer.\<close>

fun attach_loop :: "nat \<Rightarrow> string \<Rightarrow> string \<Rightarrow> 'z ramfs_scheme \<Rightarrow> (nat \<times> string) option \<times> 'z ramfs_scheme" where
  "attach_loop Cur seg [] s = (Some (Cur, seg), s)"
| "attach_loop Cur seg (c # rest) s =
     (if c = CHR ''/'' then
        (if seg = [] then attach_loop Cur [] rest s
         else
           (case find_dir Cur seg s of
              Some Next \<Rightarrow> attach_loop Next [] rest s
            | None \<Rightarrow>
                (let (Next, s) = add_node Cur seg RamFSNode_Directory s in
                 if Next = 0 then (None, s) else attach_loop Next [] rest s)))
      else attach_loop Cur (seg @ [c]) rest s)"

definition set_data :: "nat \<Rightarrow> RamFSNodeType \<Rightarrow> string \<Rightarrow> u32 \<Rightarrow> 'z ramfs_scheme \<Rightarrow> 'z ramfs_scheme" where
  "set_data Leaf Ty Data Size s =
     (if Ty = RamFSNode_File
      then s\<lparr>RNodes := (RNodes s)(Leaf := (RNodes s Leaf)\<lparr>rData := Data, rSize := Size\<rparr>)\<rparr>
      else s)"

definition RamFSAttachPath ::
  "nat \<Rightarrow> string option \<Rightarrow> RamFSNodeType \<Rightarrow> string \<Rightarrow> u32 \<Rightarrow> 'z ramfs_scheme \<Rightarrow> nat \<times> 'z ramfs_scheme"
where
  "RamFSAttachPath Root FullPath Ty Data Size s =
     (case FullPath of
        None \<Rightarrow> (0, s)
      | Some path \<Rightarrow>
          if Root = 0 then (0, s)
          else
            (case path of
               [] \<Rightarrow> (0, s)
             | c # rest \<Rightarrow>
                 if c \<noteq> CHR ''/'' then (0, s)
                 else
                   (case attach_loop Root [] rest s of
                      (None, s) \<Rightarrow> (0, s)
                    | (Some (Cur, seg), s) \<Rightarrow>
                        if seg = [] then (Cur, s)
                        else
                          (case find_child Cur seg s of
                             Some Leaf \<Rightarrow> (Leaf, set_data Leaf Ty Data Size s)
                           | None \<Rightarrow>
                               (let (Leaf, s) = add_node Cur seg Ty s in
                                if Leaf = 0 then (0, s) else (Leaf, set_data Leaf Ty Data Size s))))))"

fun lookup_loop :: "nat \<Rightarrow> string \<Rightarrow> string \<Rightarrow> 'z ramfs_scheme \<Rightarrow> nat" where
  "lookup_loop Cur seg [] s =
     (if seg = [] then Cur else (case find_child Cur seg s of Some C \<Rightarrow> C | None \<Rightarrow> 0))"
| "lookup_loop Cur seg (c # rest) s =
     (if c = CHR ''/'' then
        (if seg = [] then lookup_loop Cur [] rest s
         else (case find_child Cur seg s of None \<Rightarrow> 0 | Some Next \<Rightarrow> lookup_loop Next [] rest s))
      else lookup_loop Cur (seg @ [c]) rest s)"

definition RamFSLookup :: "nat \<Rightarrow> string option \<Rightarrow> 'z ramfs_scheme \<Rightarrow> nat" where
  "RamFSLookup Root Path s =
     (case Path of
        None \<Rightarrow> 0
      | Some path \<Rightarrow>
          if Root = 0 then 0
          else (case path of [] \<Rightarrow> 0 | c # rest \<Rightarrow> if c \<noteq> CHR ''/'' then 0 else lookup_loop Root [] rest s))"

section \<open>The cpio reader (CpioHelpers.c, RamFs.c)\<close>

definition CpioAlignUp :: "u32 \<Rightarrow> u32 \<Rightarrow> u32" where
  "CpioAlignUp Value Align = (Value + (Align - 1)) AND NOT (Align - 1)"

definition hex_digit :: "char \<Rightarrow> u32" where
  "hex_digit c =
     (let n = (of_char c :: nat) in
      if 48 \<le> n \<and> n \<le> 57 then word_of_nat (n - 48)
      else if 97 \<le> n \<and> n \<le> 102 then word_of_nat (n - 97 + 10)
      else if 65 \<le> n \<and> n \<le> 70 then word_of_nat (n - 65 + 10)
      else 0)"

definition img :: "string \<Rightarrow> nat \<Rightarrow> char" where
  "img buf i = (if i < length buf then buf ! i else CHR 0x00)"

definition CpioParseHex :: "string \<Rightarrow> nat \<Rightarrow> u32" where
  "CpioParseHex buf off =
     fold (\<lambda>i Value. push_bit 4 Value OR hex_digit (img buf (off + i))) [0..<8] 0"

definition CpioTrailer :: string where "CpioTrailer = ''TRAILER!!!'' @ [CHR 0x00]"

definition matches_at :: "string \<Rightarrow> nat \<Rightarrow> string \<Rightarrow> bool" where
  "matches_at buf off t = list_all (\<lambda>i. img buf (off + i) = t ! i) [0..<length t]"

definition cstring_at :: "string \<Rightarrow> nat \<Rightarrow> string" where
  "cstring_at buf off = takeWhile (\<lambda>c. c \<noteq> CHR 0x00) (drop off buf)"

text \<open>What one pass of the loop reads at \<open>Off\<close>: it stops, or it yields the type, the data, the size, the name
  and the next offset.\<close>

datatype cpio_step = CpioStop | CpioEntry RamFSNodeType string u32 string u32

definition cpio_read :: "string \<Rightarrow> u32 \<Rightarrow> u32 \<Rightarrow> cpio_step" where
  "cpio_read buf Len Off0 =
     (let Off = CpioAlignUp Off0 4 in
      if Len < Off + 110 then CpioStop
      else if \<not> matches_at buf (unat Off) ''070701'' then CpioStop
      else
        (let NameLen = CpioParseHex buf (unat Off + 94);
             DataLen = CpioParseHex buf (unat Off + 54);
             ModeBits = CpioParseHex buf (unat Off + 14);
             NameOff = Off + 110;
             NameEnd = NameOff + NameLen
         in if Len < NameEnd then CpioStop
            else if 11 \<le> NameLen \<and> matches_at buf (unat NameOff) CpioTrailer then CpioStop
            else
              (let Off = CpioAlignUp NameEnd 4;
                   NType = (if ModeBits AND 0xF000 = 0x4000 then RamFSNode_Directory else RamFSNode_File);
                   Name = cstring_at buf (unat NameOff)
               in if NType = RamFSNode_File then
                    (if Len < Off + DataLen then CpioStop
                     else CpioEntry NType (drop (unat Off) buf) DataLen Name (CpioAlignUp (Off + DataLen) 4))
                  else CpioEntry NType [] DataLen Name Off)))"

partial_function (option) mount_loop ::
  "string \<Rightarrow> u32 \<Rightarrow> nat \<Rightarrow> u32 \<Rightarrow> 'z ramfs_scheme \<Rightarrow> (nat \<times> 'z ramfs_scheme) option"
where
  "mount_loop buf Len Root Off s =
     (if \<not> Off + 6 \<le> Len then Some (RamFS_Root s, s)
      else
        (case cpio_read buf Len Off of
           CpioStop \<Rightarrow> Some (RamFS_Root s, s)
         | CpioEntry Ty Data Size Name Off' \<Rightarrow>
             (let (FullPath, s) = kmalloc s in
              if FullPath = 0 then Some (0, s)
              else mount_loop buf Len Root Off' (snd (RamFSAttachPath Root (Some (CHR ''/'' # Name)) Ty Data Size s)))))"

definition RamFSMount :: "string option \<Rightarrow> u64 \<Rightarrow> 'z ramfs_scheme \<Rightarrow> (nat \<times> 'z ramfs_scheme) option" where
  "RamFSMount Img Len s =
     (let (Root, s) = RamFSEnsureRoot s in
      case Img of
        None \<Rightarrow> Some (0, s)
      | Some buf \<Rightarrow> if Root = 0 \<or> Len = 0 then Some (0, s) else mount_loop buf (ucast Len) Root 0 s)"

section \<open>Queries (FSOperations.c)\<close>

text \<open>The number of bytes and the bytes stored in the buffer.\<close>

definition RamFSRead :: "nat \<Rightarrow> u64 \<Rightarrow> bool \<Rightarrow> u64 \<Rightarrow> 'z ramfs_scheme \<Rightarrow> u64 \<times> string" where
  "RamFSRead Node Offset Buffer Len s =
     (if Node = 0 \<or> \<not> Buffer then (0, [])
      else if rType (RNodes s Node) \<noteq> RamFSNode_File then (0, [])
      else if ucast (rSize (RNodes s Node)) \<le> Offset then (0, [])
      else
        (let Available = ucast (rSize (RNodes s Node)) - Offset;
             n = (if Available < Len then Available else Len)
         in (n, map (\<lambda>i. img (rData (RNodes s Node)) (unat Offset + i)) [0..<unat n])))"

definition RamFSExists :: "string option \<Rightarrow> 'z ramfs_scheme \<Rightarrow> int" where
  "RamFSExists Path s =
     (if Path = None \<or> RamFS_Root s = 0 then 0
      else if RamFSLookup (RamFS_Root s) Path s \<noteq> 0 then 1 else 0)"

definition RamFSIsDir :: "string option \<Rightarrow> 'z ramfs_scheme \<Rightarrow> int" where
  "RamFSIsDir Path s =
     (if Path = None \<or> RamFS_Root s = 0 then 0
      else
        (let Node = RamFSLookup (RamFS_Root s) Path s in
         if Node = 0 then 0 else if rType (RNodes s Node) = RamFSNode_Directory then 1 else 0))"

definition RamFSIsFile :: "string option \<Rightarrow> 'z ramfs_scheme \<Rightarrow> int" where
  "RamFSIsFile Path s =
     (if Path = None \<or> RamFS_Root s = 0 then 0
      else
        (let Node = RamFSLookup (RamFS_Root s) Path s in
         if Node = 0 then 0 else if rType (RNodes s Node) = RamFSNode_File then 1 else 0))"

definition RamFSGetSize :: "string option \<Rightarrow> 'z ramfs_scheme \<Rightarrow> u32" where
  "RamFSGetSize Path s =
     (if Path = None \<or> RamFS_Root s = 0 then 0
      else
        (let Node = RamFSLookup (RamFS_Root s) Path s in
         if Node = 0 \<or> rType (RNodes s Node) \<noteq> RamFSNode_File then 0 else rSize (RNodes s Node)))"

definition RamFSListChildren :: "nat \<Rightarrow> bool \<Rightarrow> u32 \<Rightarrow> 'z ramfs_scheme \<Rightarrow> nat list" where
  "RamFSListChildren Dir Buffer MaxCount s =
     (if Dir = 0 \<or> \<not> Buffer \<or> MaxCount = 0 then []
      else if rType (RNodes s Dir) \<noteq> RamFSNode_Directory then []
      else take (unat MaxCount) (Children (RNodes s Dir)))"

definition RamFSReadFile :: "string option \<Rightarrow> bool \<Rightarrow> 'z ramfs_scheme \<Rightarrow> u64 \<times> string" where
  "RamFSReadFile Path Buffer s =
     (if Path = None \<or> \<not> Buffer \<or> RamFS_Root s = 0 then (0, [])
      else
        (let Node = RamFSLookup (RamFS_Root s) Path s in
         if Node = 0 \<or> rType (RNodes s Node) \<noteq> RamFSNode_File then (0, [])
         else RamFSRead Node 0 Buffer (ucast (rSize (RNodes s Node))) s))"

definition RamFSGetChildByIndex :: "nat \<Rightarrow> u32 \<Rightarrow> 'z ramfs_scheme \<Rightarrow> nat" where
  "RamFSGetChildByIndex Dir Index s =
     (if Dir = 0 \<or> rType (RNodes s Dir) \<noteq> RamFSNode_Directory then 0
      else if length (Children (RNodes s Dir)) \<le> unat Index then 0
      else Children (RNodes s Dir) ! unat Index)"

text \<open>The joined path and the state after its allocation; no path when the allocation fails.\<close>

definition RamFSJoinPath :: "string option \<Rightarrow> string option \<Rightarrow> 'z ramfs_scheme \<Rightarrow> (nat \<times> string) \<times> 'z ramfs_scheme" where
  "RamFSJoinPath DirPath Name s =
     (case (DirPath, Name) of
        (Some d, Some n) \<Rightarrow>
          (let NeedSlash = \<not> (d \<noteq> [] \<and> last d = CHR ''/'');
               (Out, s) = kmalloc s
           in if Out = 0 then ((0, []), s)
              else ((Out, d @ (if NeedSlash then ''/'' else []) @ n), s))
      | _ \<Rightarrow> ((0, []), s))"

section \<open>Operations for the switch (VfsRamFs.c)\<close>

definition RamVfsOpen :: "nat \<Rightarrow> nat \<Rightarrow> 'z ramfs_scheme \<Rightarrow> int \<times> 'z ramfs_scheme" where
  "RamVfsOpen Node F s =
     (if Node = 0 \<or> F = 0 then (-1, s)
      else
        (let PN = vPriv (Vnodes s Node) in
         if PN = 0 \<or> PrivNodes s PN = 0 then (-1, s)
         else
           (case rType (RNodes s (PrivNodes s PN)) of
              RamFSNode_Directory \<Rightarrow>
                (0, s\<lparr>Files := (Files s)(F := (Files s F)\<lparr>fNode := Node, fOffset := 0, fRefcnt := 1, fPriv := 0\<rparr>)\<rparr>)
            | RamFSNode_File \<Rightarrow>
                (let (PF, s) = kmalloc s in
                 if PF = 0 then (-1, s)
                 else
                   (0, s\<lparr>PrivFiles := (PrivFiles s)(PF := \<lparr>pfNode = PrivNodes s PN, pfOffset = 0\<rparr>),
                         Files := (Files s)(F := (Files s F)\<lparr>fNode := Node, fOffset := 0, fRefcnt := 1, fPriv := PF\<rparr>)\<rparr>)))))"

definition RamVfsClose :: "nat \<Rightarrow> 'z ramfs_scheme \<Rightarrow> int \<times> 'z ramfs_scheme" where
  "RamVfsClose F s =
     (if F = 0 then (-1, s)
      else if fPriv (Files s F) \<noteq> 0
      then (let s = kfree (fPriv (Files s F)) s
            in (0, s\<lparr>Files := (Files s)(F := (Files s F)\<lparr>fPriv := 0\<rparr>)\<rparr>))
      else (0, s))"

text \<open>The buffer is not null: the switch has checked it.\<close>

definition RamVfsRead :: "nat \<Rightarrow> int \<Rightarrow> 'z ramfs_scheme \<Rightarrow> (int \<times> string) \<times> 'z ramfs_scheme" where
  "RamVfsRead F Len s =
     (if F = 0 \<or> Len \<le> 0 then ((-1, []), s)
      else
        (let PF = fPriv (Files s F) in
         if PF = 0 \<or> pfNode (PrivFiles s PF) = 0 then ((-1, []), s)
         else
           (let (Got, data) = RamFSRead (pfNode (PrivFiles s PF)) (word_of_int (pfOffset (PrivFiles s PF))) True
                                (word_of_int Len) s
            in if Got > 0
               then ((int (unat Got), data),
                     s\<lparr>PrivFiles := (PrivFiles s)(PF := (PrivFiles s PF)\<lparr>pfOffset := pfOffset (PrivFiles s PF) + int (unat Got)\<rparr>),
                       Files := (Files s)(F := (Files s F)\<lparr>fOffset := fOffset (Files s F) + int (unat Got)\<rparr>)\<rparr>)
               else ((0, []), s))))"

definition RamVfsWrite :: "nat \<Rightarrow> string \<Rightarrow> int \<Rightarrow> 'z ramfs_scheme \<Rightarrow> int \<times> 'z ramfs_scheme" where
  "RamVfsWrite F Buf Len s = (-1, s)"

definition RamVfsLseek :: "nat \<Rightarrow> int \<Rightarrow> int \<Rightarrow> 'z ramfs_scheme \<Rightarrow> int \<times> 'z ramfs_scheme" where
  "RamVfsLseek F Off Whence s =
     (if F = 0 then (-1, s)
      else
        (let PF = fPriv (Files s F);
             HasNode = (PF \<noteq> 0 \<and> pfNode (PrivFiles s PF) \<noteq> 0);
             Node = RNodes s (pfNode (PrivFiles s PF));
             Size = (if HasNode \<and> rType Node = RamFSNode_File then int (unat (rSize Node)) else 0)
         in if Whence < 0 \<or> 2 < Whence then (-1, s)
            else
              (let Base = (if Whence = 0 then 0 else if Whence = 1 then fOffset (Files s F) else Size);
                   New = Base + Off;
                   New = (if New < 0 then 0 else New);
                   New = (if HasNode \<and> New > int (unat (rSize Node)) then int (unat (rSize Node)) else New);
                   s = s\<lparr>Files := (Files s)(F := (Files s F)\<lparr>fOffset := New\<rparr>)\<rparr>;
                   s = (if PF \<noteq> 0 then s\<lparr>PrivFiles := (PrivFiles s)(PF := (PrivFiles s PF)\<lparr>pfOffset := New\<rparr>)\<rparr> else s)
               in (New, s))))"

definition RamVfsIoctl :: "nat \<Rightarrow> u64 \<Rightarrow> u64 \<Rightarrow> 'z ramfs_scheme \<Rightarrow> int \<times> 'z ramfs_scheme" where
  "RamVfsIoctl F Cmd Arg s = (-1, s)"

definition RamVfsStat :: "nat \<Rightarrow> 'z ramfs_scheme \<Rightarrow> (int \<times> VfsStat option) \<times> 'z ramfs_scheme" where
  "RamVfsStat Node s =
     (if Node = 0 then ((-1, None), s)
      else
        (let PN = vPriv (Vnodes s Node) in
         if PN = 0 \<or> PrivNodes s PN = 0 then ((-1, None), s)
         else
           (let R = RNodes s (PrivNodes s PN); zero = \<lparr>Sec = 0, Nsec = 0\<rparr> in
            ((0, Some \<lparr>StIno = int (PrivNodes s PN),
                       StSize = (if rType R = RamFSNode_File then int (unat (rSize R)) else 0),
                       StBlocks = 0, StBlkSize = 0, StNlink = 1, StRdev = 0, StDev = 0, StFlags = 0,
                       StType = vType (Vnodes s Node), StPerm = \<lparr>Mode = 0, Uid = 0, Gid = 0\<rparr>,
                       StAtime = zero, StMtime = zero, StCtime = zero\<rparr>), s))))"

definition dirent_of :: "nat \<Rightarrow> 'z ramfs_scheme \<Rightarrow> VfsDirEnt" where
  "dirent_of C s = \<lparr>DeName = take 255 (rName (RNodes s C)),
     DeType = (if rType (RNodes s C) = RamFSNode_Directory then VNodeDIR else VNodeFILE), DeIno = int C\<rparr>"

definition RamVfsReaddir :: "nat \<Rightarrow> int \<Rightarrow> 'z ramfs_scheme \<Rightarrow> (int \<times> VfsDirEnt list) \<times> 'z ramfs_scheme" where
  "RamVfsReaddir Dir BufLen s =
     (if Dir = 0 \<or> BufLen \<le> 0 then ((-1, []), s)
      else
        (let PN = vPriv (Vnodes s Dir) in
         if PN = 0 \<or> PrivNodes s PN = 0 then ((-1, []), s)
         else if rType (RNodes s (PrivNodes s PN)) \<noteq> RamFSNode_Directory then ((-1, []), s)
         else
           (let Tmp = RamFSListChildren (PrivNodes s PN) True 64 s;
                Out = map (\<lambda>C. dirent_of C s) (take (nat BufLen) Tmp)
            in ((int (length Out), Out), s))))"

definition RamVfsLookup :: "nat \<Rightarrow> string \<Rightarrow> 'z ramfs_scheme \<Rightarrow> nat \<times> 'z ramfs_scheme" where
  "RamVfsLookup Dir Name s =
     (if Dir = 0 then (0, s)
      else
        (let PN = vPriv (Vnodes s Dir) in
         if PN = 0 \<or> PrivNodes s PN = 0 \<or> rType (RNodes s (PrivNodes s PN)) \<noteq> RamFSNode_Directory then (0, s)
         else
           (case find_child (PrivNodes s PN) Name s of
              None \<Rightarrow> (0, s)
            | Some Child \<Rightarrow>
                (let (V, s) = kmalloc s in
                 if V = 0 then (0, s)
                 else
                   (let (Priv, s) = kmalloc s in
                    if Priv = 0 then (0, kfree V s)
                    else
                      (V, s\<lparr>PrivNodes := (PrivNodes s)(Priv := Child),
                            Vnodes := (Vnodes s)(V := \<lparr>vType = (if rType (RNodes s Child) = RamFSNode_Directory
                                                              then VNodeDIR else VNodeFILE),
                                                      vOps = 1, vSb = vSb (Vnodes s Dir), vPriv = Priv, vRefcnt = 1\<rparr>)\<rparr>))))))"

text \<open>\<^verbatim>\<open>RamVfsCreate\<close> and \<^verbatim>\<open>RamVfsMkdir\<close> differ in the type only.\<close>

definition make_entry :: "RamFSNodeType \<Rightarrow> nat \<Rightarrow> string \<Rightarrow> 'z ramfs_scheme \<Rightarrow> int \<times> 'z ramfs_scheme" where
  "make_entry Ty Dir Name s =
     (if Dir = 0 then (-1, s)
      else
        (let PN = vPriv (Vnodes s Dir) in
         if PN = 0 \<or> PrivNodes s PN = 0 then (-1, s)
         else if rType (RNodes s (PrivNodes s PN)) \<noteq> RamFSNode_Directory then (-1, s)
         else
           (let ((Out, Path), s) = RamFSJoinPath (Some (rName (RNodes s (PrivNodes s PN)))) (Some Name) s in
            if Out = 0 then (-1, s)
            else
              (let (Leaf, s) = RamFSAttachPath (RamFS_Root s) (Some Path) Ty [] 0 s
               in (if Leaf \<noteq> 0 then 0 else -1, kfree Out s)))))"

definition RamVfsCreate :: "nat \<Rightarrow> string \<Rightarrow> int \<Rightarrow> VfsPerm \<Rightarrow> 'z ramfs_scheme \<Rightarrow> int \<times> 'z ramfs_scheme" where
  "RamVfsCreate Dir Name flags perm s = make_entry RamFSNode_File Dir Name s"

definition RamVfsMkdir :: "nat \<Rightarrow> string \<Rightarrow> VfsPerm \<Rightarrow> 'z ramfs_scheme \<Rightarrow> int \<times> 'z ramfs_scheme" where
  "RamVfsMkdir Dir Name perm s = make_entry RamFSNode_Directory Dir Name s"

text \<open>The operations that are refused or have nothing to do.\<close>

definition RamVfsUnlink :: "nat \<Rightarrow> string \<Rightarrow> 'z ramfs_scheme \<Rightarrow> int \<times> 'z ramfs_scheme" where
  "RamVfsUnlink Dir Name s = (-1, s)"

definition RamVfsRmdir :: "nat \<Rightarrow> string \<Rightarrow> 'z ramfs_scheme \<Rightarrow> int \<times> 'z ramfs_scheme" where
  "RamVfsRmdir Dir Name s = (-1, s)"

definition RamVfsSymlink :: "nat \<Rightarrow> string \<Rightarrow> string \<Rightarrow> VfsPerm \<Rightarrow> 'z ramfs_scheme \<Rightarrow> int \<times> 'z ramfs_scheme" where
  "RamVfsSymlink Dir Name Target perm s = (-1, s)"

definition RamVfsReadlink :: "nat \<Rightarrow> int \<Rightarrow> 'z ramfs_scheme \<Rightarrow> (int \<times> string) \<times> 'z ramfs_scheme" where
  "RamVfsReadlink Node Len s = ((-1, []), s)"

definition RamVfsLink :: "nat \<Rightarrow> nat \<Rightarrow> string \<Rightarrow> 'z ramfs_scheme \<Rightarrow> int \<times> 'z ramfs_scheme" where
  "RamVfsLink Dir Src Name s = (-1, s)"

definition RamVfsRename :: "nat \<Rightarrow> string \<Rightarrow> nat \<Rightarrow> string \<Rightarrow> int \<Rightarrow> 'z ramfs_scheme \<Rightarrow> int \<times> 'z ramfs_scheme" where
  "RamVfsRename OldDir OldName NewDir NewName flags s = (-1, s)"

definition RamVfsChmod :: "nat \<Rightarrow> int \<Rightarrow> 'z ramfs_scheme \<Rightarrow> int \<times> 'z ramfs_scheme" where
  "RamVfsChmod Node mode s = (0, s)"

definition RamVfsChown :: "nat \<Rightarrow> int \<Rightarrow> int \<Rightarrow> 'z ramfs_scheme \<Rightarrow> int \<times> 'z ramfs_scheme" where
  "RamVfsChown Node uid gid s = (0, s)"

definition RamVfsTruncate :: "nat \<Rightarrow> int \<Rightarrow> 'z ramfs_scheme \<Rightarrow> int \<times> 'z ramfs_scheme" where
  "RamVfsTruncate Node Len s = (-1, s)"

definition RamVfsSync :: "nat \<Rightarrow> 'z ramfs_scheme \<Rightarrow> int \<times> 'z ramfs_scheme" where
  "RamVfsSync Node s = (0, s)"

definition RamVfsMap :: "nat \<Rightarrow> int \<Rightarrow> int \<Rightarrow> 'z ramfs_scheme \<Rightarrow> (int \<times> nat) \<times> 'z ramfs_scheme" where
  "RamVfsMap Node Off Len s = ((-1, 0), s)"

definition RamVfsUnmap :: "nat \<Rightarrow> nat \<Rightarrow> int \<Rightarrow> 'z ramfs_scheme \<Rightarrow> int \<times> 'z ramfs_scheme" where
  "RamVfsUnmap Node Addr Len s = (-1, s)"

definition RamVfsSuperSync :: "nat \<Rightarrow> 'z ramfs_scheme \<Rightarrow> int \<times> 'z ramfs_scheme" where
  "RamVfsSuperSync Sb s = (0, s)"

definition RamVfsSuperStatFs :: "nat \<Rightarrow> 'z ramfs_scheme \<Rightarrow> (int \<times> VfsStatFs option) \<times> 'z ramfs_scheme" where
  "RamVfsSuperStatFs Sb s =
     (if Sb = 0 then ((-1, None), s)
      else ((0, Some \<lparr>TypeId = 0xCAFEBABE, Bsize = 0, Blocks = 0, Bfree = 0, Bavail = 0, FsFiles = 0,
                      Ffree = 0, Namelen = 255, StatFsFlags = 0\<rparr>), s))"

definition RamVfsSuperRelease :: "nat \<Rightarrow> 'z ramfs_scheme \<Rightarrow> 'z ramfs_scheme" where
  "RamVfsSuperRelease Sb s =
     (if Sb = 0 then s
      else
        (let Root = sbRoot (Superblocks s Sb);
             s = (if Root \<noteq> 0
                  then (let PN = vPriv (Vnodes s Root);
                            s = (if PN \<noteq> 0 then kfree PN s else s);
                            s = kfree Root s
                        in s\<lparr>Superblocks := (Superblocks s)(Sb := (Superblocks s Sb)\<lparr>sbRoot := 0\<rparr>)\<rparr>)
                  else s)
         in kfree Sb s))"

definition RamVfsSuperUmount :: "nat \<Rightarrow> 'z ramfs_scheme \<Rightarrow> int \<times> 'z ramfs_scheme" where
  "RamVfsSuperUmount Sb s = (0, s)"

section \<open>Registration and the boot image\<close>

definition RamFsMountImpl :: "string option \<Rightarrow> string option \<Rightarrow> 'z ramfs_scheme \<Rightarrow> nat \<times> 'z ramfs_scheme" where
  "RamFsMountImpl Dev Opts s =
     (if RamFS_Root s = 0 then (0, s)
      else
        (let (Sb, s) = kmalloc s in
         if Sb = 0 then (0, s)
         else
           (let (Root, s) = kmalloc s in
            if Root = 0 then (0, kfree Sb s)
            else
              (let (Priv, s) = kmalloc s in
               if Priv = 0 then (0, kfree Sb (kfree Root s))
               else
                 (Sb, s\<lparr>PrivNodes := (PrivNodes s)(Priv := RamFS_Root s),
                        Vnodes := (Vnodes s)(Root := \<lparr>vType = VNodeDIR, vOps = 1, vSb = Sb, vPriv = Priv, vRefcnt = 1\<rparr>),
                        Superblocks := (Superblocks s)(Sb := \<lparr>sbType = 0, sbDev = 0, sbFlags = 0, sbRoot = Root,
                                                            sbOps = 1, sbPriv = 0\<rparr>)\<rparr>)))))"

text \<open>Table 1 of each kind is the one of this file system; the others are the argument.\<close>

definition RamVfsOps :: "'z ramfs_scheme VnodeOps" where
  "RamVfsOps =
     \<lparr>op_Open = Some RamVfsOpen, op_Close = Some RamVfsClose, op_Read = Some RamVfsRead,
      op_Write = Some RamVfsWrite, op_Lseek = Some RamVfsLseek, op_Ioctl = Some RamVfsIoctl,
      op_Stat = Some RamVfsStat, op_Readdir = Some RamVfsReaddir, op_Lookup = Some RamVfsLookup,
      op_Create = Some RamVfsCreate, op_Unlink = Some RamVfsUnlink, op_Mkdir = Some RamVfsMkdir,
      op_Rmdir = Some RamVfsRmdir, op_Symlink = Some RamVfsSymlink, op_Readlink = Some RamVfsReadlink,
      op_Link = Some RamVfsLink, op_Rename = Some RamVfsRename, op_Chmod = Some RamVfsChmod,
      op_Chown = Some RamVfsChown, op_Truncate = Some RamVfsTruncate, op_Sync = Some RamVfsSync,
      op_Map = Some RamVfsMap, op_Unmap = Some RamVfsUnmap\<rparr>"

definition RamVfsSuperOps :: "'z ramfs_scheme SuperOps" where
  "RamVfsSuperOps =
     \<lparr>sop_Sync = Some RamVfsSuperSync, sop_StatFs = Some RamVfsSuperStatFs,
      sop_Release = Some RamVfsSuperRelease, sop_Umount = Some RamVfsSuperUmount\<rparr>"

definition ram_tables :: "'z ramfs_scheme tables \<Rightarrow> 'z ramfs_scheme tables" where
  "ram_tables T = T\<lparr>VOps := (VOps T)(1 := RamVfsOps), SOps := (SOps T)(1 := RamVfsSuperOps),
                    MountHooks := (MountHooks T)(1 := RamFsMountImpl)\<rparr>"

definition RamFsRegister :: "'z ramfs_scheme \<Rightarrow> (int \<times> 'z ramfs_scheme) option" where
  "RamFsRegister s = do {
     (r, s) \<leftarrow> VfsRegisterFs (Some \<lparr>FsName = Some ''ramfs'', FsMount = 1, FsPriv = 0\<rparr>) s;
     Some (if r \<noteq> 0 then -1 else 0, s) }"

definition BootMountRamFs ::
  "'z ramfs_scheme tables \<Rightarrow> string option \<Rightarrow> u64 \<Rightarrow> 'z ramfs_scheme \<Rightarrow> (int \<times> 'z ramfs_scheme) option"
where
  "BootMountRamFs T Initrd Len s =
     (if Initrd = None \<or> Len = 0 then Some (-1, s)
      else do {
        (Root, s) \<leftarrow> RamFSMount Initrd Len s;
        if Root = 0 then Some (-1, s)
        else do {
          (r, s) \<leftarrow> RamFsRegister s;
          if r \<noteq> 0 then Some (-1, s)
          else do {
            (Sb, s) \<leftarrow> VfsMount (ram_tables T) None (Some ''/'') (Some ''ramfs'') None s;
            Some (if Sb = 0 then -1 else 0, s) } } })"

text \<open>The response of the boot loader, which is an argument: no response, or the list of its modules, a null entry
  being \<open>None\<close>.\<close>

record limine_file =
  mod_path :: "string option"
  mod_address :: "string option"
  mod_size :: u64

fun boot_module :: "limine_file option list \<Rightarrow> limine_file option" where
  "boot_module [] = None"
| "boot_module (m # ms) =
     (case m of
        None \<Rightarrow> boot_module ms
      | Some f \<Rightarrow> if mod_path f = Some ''/BootImg.img'' then Some f else boot_module ms)"

definition InitializeBootImage ::
  "'z ramfs_scheme tables \<Rightarrow> limine_file option list option \<Rightarrow> 'z ramfs_scheme \<Rightarrow> (int \<times> 'z ramfs_scheme) option"
where
  "InitializeBootImage T response s =
     (case response of
        None \<Rightarrow> Some (-1, s)
      | Some ms \<Rightarrow>
          if ms = [] then Some (-1, s)
          else
            (case boot_module ms of
               None \<Rightarrow> Some (-3, s)
             | Some f \<Rightarrow> BootMountRamFs T (mod_address f) (mod_size f) s))"

section \<open>The tree as a map from paths\<close>

text \<open>The node that a list of names leads to, 0 when there is none.\<close>

fun follow :: "nat \<Rightarrow> string list \<Rightarrow> 'z ramfs_scheme \<Rightarrow> nat" where
  "follow n [] s = n"
| "follow n (seg # segs) s = (case find_child n seg s of None \<Rightarrow> 0 | Some c \<Rightarrow> follow c segs s)"

text \<open>The names completed by a slash, and the last one.\<close>

fun dir_segs :: "string \<Rightarrow> string \<Rightarrow> string list" where
  "dir_segs acc [] = []"
| "dir_segs acc (c # r) =
     (if c = CHR ''/'' then (if acc = [] then dir_segs [] r else acc # dir_segs [] r)
      else dir_segs (acc @ [c]) r)"

fun leaf_seg :: "string \<Rightarrow> string \<Rightarrow> string" where
  "leaf_seg acc [] = acc"
| "leaf_seg acc (c # r) = (if c = CHR ''/'' then leaf_seg [] r else leaf_seg (acc @ [c]) r)"

definition leaf_list :: "string \<Rightarrow> string list" where
  "leaf_list l = (if l = [] then [] else [l])"

definition path_segs :: "string \<Rightarrow> string list" where
  "path_segs r = dir_segs [] r @ leaf_list (leaf_seg [] r)"

lemma lookup_loop_follow:
  "lookup_loop Cur acc r s = follow Cur (dir_segs acc r @ leaf_list (leaf_seg acc r)) s"
  by (induction acc r arbitrary: Cur rule: dir_segs.induct) (auto simp: leaf_list_def split: option.split)

lemma RamFSLookup_follow:
  "Root \<noteq> 0 \<Longrightarrow> RamFSLookup Root (Some (CHR ''/'' # r)) s = follow Root (path_segs r) s"
  by (simp add: RamFSLookup_def lookup_loop_follow path_segs_def)

lemma find_child_nonzero: "find_child n seg s = Some c \<Longrightarrow> c \<noteq> 0"
  by (auto simp: find_child_def find_Some_iff)

lemma find_child_in: "find_child n seg s = Some c \<Longrightarrow> c \<in> set (Children (RNodes s n)) \<and> rName (RNodes s c) = seg"
  by (auto simp: find_child_def find_Some_iff)

lemma follow_snoc:
  "follow n (p @ [seg]) s =
     (if p \<noteq> [] \<and> follow n p s = 0 then 0
      else (case find_child (follow n p s) seg s of None \<Rightarrow> 0 | Some c \<Rightarrow> c))"
  by (induction p arbitrary: n) (auto split: option.split dest: find_child_nonzero)

lemma follow_prefix: "follow n (p @ q) s \<noteq> 0 \<Longrightarrow> n \<noteq> 0 \<Longrightarrow> follow n p s \<noteq> 0"
  by (induction p arbitrary: n) (auto split: option.splits dest: find_child_nonzero)

lemma follow_append_eq: "n \<noteq> 0 \<Longrightarrow> follow n p s \<noteq> 0 \<Longrightarrow> follow n (p @ q) s = follow (follow n p s) q s"
  by (induction p arbitrary: n) (auto split: option.splits dest: find_child_nonzero)

lemma follow_append_0: "n \<noteq> 0 \<Longrightarrow> follow n p s = 0 \<Longrightarrow> follow n (p @ q) s = 0"
  by (induction p arbitrary: n) (auto split: option.splits dest: find_child_nonzero)

text \<open>Numbers in use lie below \<open>NextPtr\<close>, and no node is reached by two paths.\<close>

definition tree_ok :: "'z ramfs_scheme \<Rightarrow> bool" where
  "tree_ok s \<longleftrightarrow>
     0 < RamFS_Root s \<and> RamFS_Root s < NextPtr s \<and>
     (\<forall>n. set (Children (RNodes s n)) \<subseteq> {0<..<NextPtr s}) \<and>
     (\<forall>p q. follow (RamFS_Root s) p s \<noteq> 0 \<and> follow (RamFS_Root s) p s = follow (RamFS_Root s) q s \<longrightarrow> p = q)"

lemma tree_ok_child: "tree_ok s \<Longrightarrow> c \<in> set (Children (RNodes s n)) \<Longrightarrow> 0 < c \<and> c < NextPtr s"
  unfolding tree_ok_def by fastforce

lemma tree_ok_root: "tree_ok s \<Longrightarrow> 0 < RamFS_Root s \<and> RamFS_Root s < NextPtr s"
  unfolding tree_ok_def by blast

lemma tree_ok_inj:
  "tree_ok s \<Longrightarrow> follow (RamFS_Root s) p s = n \<Longrightarrow> n \<noteq> 0 \<Longrightarrow> follow (RamFS_Root s) q s = n \<longleftrightarrow> q = p"
  unfolding tree_ok_def by metis

lemma tree_ok_range:
  assumes "tree_ok s" "n < NextPtr s"
  shows "follow n p s < NextPtr s"
  using assms(2)
proof (induction p arbitrary: n)
  case (Cons seg p)
  show ?case
  proof (cases "find_child n seg s")
    case (Some c)
    then have "c < NextPtr s" using find_child_in [OF Some] tree_ok_child [OF assms(1)] by blast
    then show ?thesis using Cons Some by simp
  qed (use assms in \<open>auto simp: tree_ok_def\<close>)
qed simp

text \<open>One new node under \<open>Cur\<close>, which is reached by \<open>p0\<close>.\<close>

lemma add_node_step:
  assumes "2 \<le> HeapLeft s" "Cur \<noteq> 0" "length (Children (RNodes s Cur)) < 64" "Cur \<noteq> NextPtr s + 1" "0 < NextPtr s"
  shows "add_node Cur seg Ty s =
    (NextPtr s + 1,
     s\<lparr>NextPtr := NextPtr s + 2, HeapLeft := HeapLeft s - 2,
       RNodes := (RNodes s)
         (NextPtr s + 1 := \<lparr>rNext = 0, Children = [], rName = seg, rType = Ty, rSize = 0, rData = [], rMagic = RamFSNodeMagic\<rparr>,
          Cur := (RNodes s Cur)\<lparr>Children := Children (RNodes s Cur) @ [NextPtr s + 1]\<rparr>)\<rparr>)"
  using assms by (auto simp: add_node_def kmalloc_def RamFSCreateNode_def RamFSAddChild_def Let_def fun_upd_twist)

lemma find_cong_names:
  assumes "\<And>c. c \<in> set xs \<Longrightarrow> P c = Q c"
  shows "find P xs = find Q xs"
  using assms by (induction xs) auto

lemma find_append: "find P (xs @ ys) = (case find P xs of None \<Rightarrow> find P ys | Some x \<Rightarrow> Some x)"
  by (induction xs) auto

definition grown :: "nat \<Rightarrow> string \<Rightarrow> RamFSNodeType \<Rightarrow> 'z ramfs_scheme \<Rightarrow> 'z ramfs_scheme" where
  "grown Cur seg Ty s = snd (add_node Cur seg Ty s)"

lemma grown_find_child:
  assumes "tree_ok s" "2 \<le> HeapLeft s" "Cur \<noteq> 0" "Cur < NextPtr s" "length (Children (RNodes s Cur)) < 64"
    and "find_child Cur seg s = None" "n < NextPtr s"
  shows "find_child n g (grown Cur seg Ty s) =
           (if n = Cur \<and> g = seg then Some (NextPtr s + 1) else find_child n g s)"
    and "find_child (NextPtr s + 1) g (grown Cur seg Ty s) = None"
proof -
  let ?f = "NextPtr s + 1"
  have old: "c \<noteq> ?f" if "c \<in> set (Children (RNodes s m))" for c m
    using tree_ok_child [OF assms(1) that] by simp
  have step: "grown Cur seg Ty s =
     s\<lparr>NextPtr := NextPtr s + 2, HeapLeft := HeapLeft s - 2,
       RNodes := (RNodes s)
         (?f := \<lparr>rNext = 0, Children = [], rName = seg, rType = Ty, rSize = 0, rData = [], rMagic = RamFSNodeMagic\<rparr>,
          Cur := (RNodes s Cur)\<lparr>Children := Children (RNodes s Cur) @ [?f]\<rparr>)\<rparr>"
    unfolding grown_def using assms by (subst add_node_step) auto
  have old_find: "find (\<lambda>c. c \<noteq> 0 \<and> rName (RNodes (grown Cur seg Ty s) c) = h) (Children (RNodes s m)) = find_child m h s"
    for m h unfolding find_child_def step
    by (rule find_cong_names) (use old in \<open>auto simp: fun_upd_def\<close>)
  have new: "rName (RNodes (grown Cur seg Ty s) ?f) = seg" unfolding step using assms(4) by simp
  have ch: "Children (RNodes (grown Cur seg Ty s) n) = Children (RNodes s n) @ (if n = Cur then [?f] else [])"
    unfolding step using assms(4,7) by auto
  show "find_child n g (grown Cur seg Ty s) = (if n = Cur \<and> g = seg then Some ?f else find_child n g s)"
    unfolding find_child_def [of n g "grown Cur seg Ty s"] ch find_append old_find
    using assms(6) new by (auto split: option.split)
  show "find_child ?f g (grown Cur seg Ty s) = None"
    unfolding find_child_def step using assms(4) by simp
qed

lemma grown_simps:
  assumes "2 \<le> HeapLeft s" "Cur \<noteq> 0" "Cur < NextPtr s" "length (Children (RNodes s Cur)) < 64"
  shows "add_node Cur seg Ty s = (NextPtr s + 1, grown Cur seg Ty s)"
    and "NextPtr (grown Cur seg Ty s) = NextPtr s + 2"
    and "HeapLeft (grown Cur seg Ty s) = HeapLeft s - 2"
    and "RamFS_Root (grown Cur seg Ty s) = RamFS_Root s"
    and "n < NextPtr s \<Longrightarrow> RNodes (grown Cur seg Ty s) n =
           (if n = Cur then (RNodes s Cur)\<lparr>Children := Children (RNodes s Cur) @ [NextPtr s + 1]\<rparr> else RNodes s n)"
    and "RNodes (grown Cur seg Ty s) (NextPtr s + 1) =
           \<lparr>rNext = 0, Children = [], rName = seg, rType = Ty, rSize = 0, rData = [], rMagic = RamFSNodeMagic\<rparr>"
    and "n \<noteq> NextPtr s + 1 \<Longrightarrow> n \<noteq> Cur \<Longrightarrow> RNodes (grown Cur seg Ty s) n = RNodes s n"
  using assms by (auto simp: grown_def add_node_step)

lemma grown_follow:
  assumes ok: "tree_ok s" and h: "2 \<le> HeapLeft s" and Cur: "follow (RamFS_Root s) p0 s = Cur" "Cur \<noteq> 0"
    and room: "length (Children (RNodes s Cur)) < 64" and none: "find_child Cur seg s = None"
  shows "follow (RamFS_Root s) p (grown Cur seg Ty s) =
           (if p = p0 @ [seg] then NextPtr s + 1 else follow (RamFS_Root s) p s)"
proof -
  let ?r = "RamFS_Root s" and ?s = "grown Cur seg Ty s"
  have r: "0 < ?r" "?r < NextPtr s" using tree_ok_root [OF ok] by auto
  have lt: "follow ?r q s < NextPtr s" for q using tree_ok_range [OF ok r(2)] .
  have inj: "follow ?r q s = Cur \<longleftrightarrow> q = p0" for q using ok Cur unfolding tree_ok_def by metis
  have CurN: "Cur < NextPtr s" using lt [of p0] Cur by simp
  note fc = grown_find_child [OF ok h Cur(2) CurN room none]
  have none0: "follow ?r (p0 @ [seg]) s = 0" using Cur none by (simp add: follow_snoc)
  show ?thesis
  proof (induction p rule: rev_induct)
    case (snoc g p)
    show ?case
    proof (cases "p = p0 @ [seg]")
      case True
      then have f: "follow ?r p ?s = NextPtr s + 1" using snoc by simp
      have "follow ?r (p @ [g]) ?s = 0" unfolding follow_snoc f using fc(2) [OF r(2)] by simp
      moreover have "follow ?r (p @ [g]) s = 0" using True none0 r follow_append_0 by (metis less_irrefl)
      ultimately show ?thesis using True by simp
    next
      case False
      then have eq: "follow ?r p ?s = follow ?r p s" using snoc by simp
      show ?thesis
      proof (cases "follow ?r p s = 0")
        case True
        then have "p \<noteq> p0" using Cur by auto
        then show ?thesis using True eq r by (auto simp: follow_snoc)
      next
        case nz: False
        show ?thesis using nz eq fc(1) [OF lt [of p]] inj [of p] by (auto simp: follow_snoc)
      qed
    qed
  qed simp
qed

lemma grown_tree_ok:
  assumes ok: "tree_ok s" and h: "2 \<le> HeapLeft s" and Cur: "follow (RamFS_Root s) p0 s = Cur" "Cur \<noteq> 0"
    and room: "length (Children (RNodes s Cur)) < 64" and none: "find_child Cur seg s = None"
  shows "tree_ok (grown Cur seg Ty s)"
proof -
  let ?r = "RamFS_Root s" and ?s = "grown Cur seg Ty s"
  have r: "0 < ?r" "?r < NextPtr s" using tree_ok_root [OF ok] by auto
  have lt: "follow ?r q s < NextPtr s" for q using tree_ok_range [OF ok r(2)] .
  have CurN: "Cur < NextPtr s" using lt [of p0] Cur by simp
  note g = grown_simps [OF h Cur(2) CurN room, where seg = seg and Ty = Ty]
  have ch: "set (Children (RNodes ?s n)) \<subseteq> {0<..<NextPtr s + 2}" for n
  proof (cases "n = Cur \<or> n = NextPtr s + 1")
    case True
    then show ?thesis using g(5) [of Cur] g(6) CurN by (auto dest!: tree_ok_child [OF ok])
  next
    case False
    then show ?thesis using g(7) [of n] by (auto dest!: tree_ok_child [OF ok])
  qed
  have inj: "p = q" if "follow ?r p ?s \<noteq> 0" "follow ?r p ?s = follow ?r q ?s" for p q
  proof -
    have "follow ?r p s = follow ?r q s \<Longrightarrow> follow ?r p s \<noteq> 0 \<Longrightarrow> p = q" using ok unfolding tree_ok_def by blast
    then show ?thesis using that lt [of p] lt [of q] unfolding grown_follow [OF assms] by (auto split: if_splits)
  qed
  show ?thesis unfolding tree_ok_def g(2) g(4) using r ch inj by auto
qed

text \<open>What is stored at a path, and how many entries the directory there has.\<close>

type_synonym file_tree = "string list \<Rightarrow> (RamFSNodeType \<times> u32 \<times> string) option"

definition node_at :: "'z ramfs_scheme \<Rightarrow> file_tree" where
  "node_at s p = (let n = follow (RamFS_Root s) p s in
     if n = 0 then None else Some (rType (RNodes s n), rSize (RNodes s n), rData (RNodes s n)))"

definition kids :: "'z ramfs_scheme \<Rightarrow> string list \<Rightarrow> nat" where
  "kids s p = (let n = follow (RamFS_Root s) p s in if n = 0 then 0 else length (Children (RNodes s n)))"

definition put_dirs :: "string list \<Rightarrow> file_tree \<Rightarrow> file_tree" where
  "put_dirs ds t = (\<lambda>q. if t q = None \<and> prefix q ds then Some (RamFSNode_Directory, 0, []) else t q)"

lemma node_at_None: "node_at s p = None \<longleftrightarrow> follow (RamFS_Root s) p s = 0"
  by (simp add: node_at_def Let_def)

lemma grown_view:
  assumes ok: "tree_ok s" and h: "2 \<le> HeapLeft s" and Cur: "follow (RamFS_Root s) p0 s = Cur" "Cur \<noteq> 0"
    and room: "length (Children (RNodes s Cur)) < 64" and none: "find_child Cur seg s = None"
  shows "node_at (grown Cur seg Ty s) = (node_at s)(p0 @ [seg] \<mapsto> (Ty, 0, []))"
    and "kids (grown Cur seg Ty s) q = kids s q + (if q = p0 then 1 else 0)"
proof -
  let ?r = "RamFS_Root s" and ?s = "grown Cur seg Ty s"
  have lt: "follow ?r q s < NextPtr s" for q using tree_ok_range [OF ok] tree_ok_root [OF ok] by blast
  have CurN: "Cur < NextPtr s" using lt [of p0] Cur by simp
  note g = grown_simps [OF h Cur(2) CurN room, where seg = seg and Ty = Ty]
  note f = grown_follow [OF assms]
  show "node_at ?s = (node_at s)(p0 @ [seg] \<mapsto> (Ty, 0, []))"
  proof
    fix q
    show "node_at ?s q = ((node_at s)(p0 @ [seg] \<mapsto> (Ty, 0, []))) q"
      using lt [of q] g(5) [of "follow ?r q s"] g(6) by (auto simp: node_at_def Let_def f g(4))
  qed
  have none0: "follow ?r (p0 @ [seg]) s = 0" using Cur none by (simp add: follow_snoc)
  have p0: "follow ?r q s = Cur \<longleftrightarrow> q = p0" using tree_ok_inj [OF ok Cur] .
  show "kids ?s q = kids s q + (if q = p0 then 1 else 0)"
  proof (cases "q = p0 @ [seg]")
    case True
    then show ?thesis using none0 g(6) by (simp add: kids_def Let_def f g(4))
  next
    case False
    then show ?thesis using lt [of q] g(5) [of "follow ?r q s"] p0 Cur by (auto simp: kids_def Let_def f g(4))
  qed
qed

lemma find_dir_find_child:
  "find_dir n seg s = find_child n seg s"
  if "\<And>c. find_child n seg s = Some c \<Longrightarrow> rType (RNodes s c) = RamFSNode_Directory"
proof -
  have "find (\<lambda>c. c \<noteq> 0 \<and> rType (RNodes s c) = RamFSNode_Directory \<and> rName (RNodes s c) = seg) xs =
        find (\<lambda>c. c \<noteq> 0 \<and> rName (RNodes s c) = seg) xs"
    if "\<And>c. find (\<lambda>c. c \<noteq> 0 \<and> rName (RNodes s c) = seg) xs = Some c \<Longrightarrow> rType (RNodes s c) = RamFSNode_Directory" for xs
    using that by (induction xs) auto
  then show ?thesis using that by (auto simp: find_dir_def find_child_def)
qed

fun attach_dirs :: "nat \<Rightarrow> string list \<Rightarrow> 'z ramfs_scheme \<Rightarrow> nat \<times> 'z ramfs_scheme" where
  "attach_dirs Cur [] s = (Cur, s)"
| "attach_dirs Cur (seg # segs) s =
     (case find_dir Cur seg s of
        Some Next \<Rightarrow> attach_dirs Next segs s
      | None \<Rightarrow> (let (Next, s) = add_node Cur seg RamFSNode_Directory s
                 in if Next = 0 then (0, s) else attach_dirs Next segs s))"

lemma find_dir_nonzero: "find_dir n seg s = Some c \<Longrightarrow> c \<noteq> 0"
  by (auto simp: find_dir_def find_Some_iff)

lemma attach_loop_dirs:
  "Cur \<noteq> 0 \<Longrightarrow> attach_loop Cur acc r s =
     (case attach_dirs Cur (dir_segs acc r) s of
        (c, s') \<Rightarrow> (if c = 0 then None else Some (c, leaf_seg acc r), s'))"
proof (induction r arbitrary: Cur acc s)
  case (Cons c r)
  show ?case
  proof (cases "c = CHR ''/'' \<and> acc \<noteq> []")
    case True
    show ?thesis
    proof (cases "find_dir Cur acc s")
      case None
      obtain n s' where "add_node Cur acc RamFSNode_Directory s = (n, s')" by fastforce
      then show ?thesis using True None Cons.IH [of n "[]" s'] by (auto split: prod.split)
    qed (use True Cons.IH [OF find_dir_nonzero, of Cur acc s _ "[]" s] in \<open>auto split: prod.split\<close>)
  qed (use Cons.IH [OF Cons.prems] in \<open>auto split: prod.split\<close>)
qed simp

text \<open>What attaching the directories \<open>ds\<close> below the node at \<open>p0\<close> gives.\<close>

definition attached :: "string list \<Rightarrow> string list \<Rightarrow> 'z ramfs_scheme \<Rightarrow> nat \<Rightarrow> 'z ramfs_scheme \<Rightarrow> bool" where
  "attached p0 ds s c s' \<longleftrightarrow>
     tree_ok s' \<and> RamFS_Root s' = RamFS_Root s \<and> c \<noteq> 0 \<and> follow (RamFS_Root s) (p0 @ ds) s' = c \<and>
     node_at s' = put_dirs (p0 @ ds) (node_at s) \<and>
     HeapLeft s \<le> HeapLeft s' + 2 * length ds \<and>
     (\<forall>q. kids s' q \<le> kids s q + (if prefix p0 q \<and> q \<noteq> p0 @ ds then 1 else 0)) \<and>
     (\<forall>q. follow (RamFS_Root s) q s \<noteq> 0 \<longrightarrow> follow (RamFS_Root s) q s' = follow (RamFS_Root s) q s)"

lemma put_dirs_same: "(\<And>q. prefix q ds \<Longrightarrow> t q \<noteq> None) \<Longrightarrow> put_dirs ds t = t"
  by (auto simp: put_dirs_def fun_eq_iff)

lemma node_at_prefix:
  "tree_ok s \<Longrightarrow> node_at s p \<noteq> None \<Longrightarrow> prefix q p \<Longrightarrow> node_at s q \<noteq> None"
  unfolding node_at_None using follow_prefix [of "RamFS_Root s"] tree_ok_root [of s] by (auto simp: prefix_def)

lemma put_dirs_snoc:
  assumes "\<And>q. prefix q p \<Longrightarrow> t q \<noteq> None" "t (p @ [x]) = None"
  shows "put_dirs (p @ x # ds) (t(p @ [x] \<mapsto> (RamFSNode_Directory, 0, []))) = put_dirs (p @ x # ds) t"
  using assms by (auto simp: put_dirs_def fun_eq_iff prefix_append)

lemma attach_dirs_attached:
  assumes "tree_ok s" "follow (RamFS_Root s) p0 s = Cur" "Cur \<noteq> 0" "2 * length ds \<le> HeapLeft s"
    and "\<And>q. prefix p0 q \<Longrightarrow> kids s q < 64"
    and "\<And>q v. prefix q (p0 @ ds) \<Longrightarrow> node_at s q = Some v \<Longrightarrow> fst v = RamFSNode_Directory"
  shows "\<exists>c s'. attach_dirs Cur ds s = (c, s') \<and> attached p0 ds s c s'"
  using assms
proof (induction ds arbitrary: p0 Cur s)
  case Nil
  have "node_at s q \<noteq> None" if "prefix q p0" for q
    using node_at_prefix [OF Nil(1) _ that] Nil by (simp add: node_at_None)
  then show ?case using Nil put_dirs_same [of p0 "node_at s"] by (auto simp: attached_def)
next
  case (Cons seg ds)
  let ?r = "RamFS_Root s"
  have pre: "node_at s q \<noteq> None" if "prefix q p0" for q
    using node_at_prefix [OF Cons.prems(1) _ that] Cons.prems(2,3) by (simp add: node_at_None)
  have next_eq: "follow ?r (p0 @ [seg]) s = (case find_child Cur seg s of None \<Rightarrow> 0 | Some c \<Rightarrow> c)"
    using Cons.prems(2,3) by (simp add: follow_snoc)
  have fd: "find_dir Cur seg s = find_child Cur seg s"
  proof (rule find_dir_find_child)
    fix c assume "find_child Cur seg s = Some c"
    then have "node_at s (p0 @ [seg]) = Some (rType (RNodes s c), rSize (RNodes s c), rData (RNodes s c))"
      using next_eq by (simp add: node_at_def Let_def find_child_nonzero)
    from Cons.prems(6) [OF _ this] show "rType (RNodes s c) = RamFSNode_Directory" by simp
  qed
  show ?case
  proof (cases "find_child Cur seg s")
    case (Some c)
    have "\<exists>c' s'. attach_dirs c ds s = (c', s') \<and> attached (p0 @ [seg]) ds s c' s'"
    proof (rule Cons.IH)
      show "kids s q < 64" if "prefix (p0 @ [seg]) q" for q
        using Cons.prems(5) append_prefixD that by blast
    qed (use Cons.prems Some next_eq find_child_nonzero [OF Some] in auto)
    then obtain c' s' where 1: "attach_dirs c ds s = (c', s')" "attached (p0 @ [seg]) ds s c' s'" by blast
    have "kids s' q \<le> kids s q + (if prefix p0 q \<and> q \<noteq> p0 @ seg # ds then 1 else 0)" for q
      using 1(2) by (cases "prefix (p0 @ [seg]) q \<and> q \<noteq> p0 @ seg # ds") (auto simp: attached_def dest: append_prefixD spec [of _ q])
    then show ?thesis using 1 Some fd by (auto simp: attached_def)
  next
    case None
    have h: "2 \<le> HeapLeft s" using Cons.prems(4) by simp
    have room: "length (Children (RNodes s Cur)) < 64"
      using Cons.prems(5) [of p0] Cons.prems(2,3) by (simp add: kids_def Let_def)
    have CurN: "Cur < NextPtr s"
      using tree_ok_range [OF Cons.prems(1)] tree_ok_root [OF Cons.prems(1)] Cons.prems(2) by blast
    let ?g = "grown Cur seg RamFSNode_Directory s"
    note g = grown_simps [OF h Cons.prems(3) CurN room, where seg = seg and Ty = RamFSNode_Directory]
    note gf = grown_follow [OF Cons.prems(1) h Cons.prems(2,3) room None, where Ty = RamFSNode_Directory]
    note gv = grown_view [OF Cons.prems(1) h Cons.prems(2,3) room None, where Ty = RamFSNode_Directory]
    have gok: "tree_ok ?g" by (rule grown_tree_ok [OF Cons.prems(1) h Cons.prems(2,3) room None])
    have no: "node_at s (p0 @ [seg]) = None" using next_eq None by (simp add: node_at_None)
    have "\<exists>c' s'. attach_dirs (NextPtr s + 1) ds ?g = (c', s') \<and> attached (p0 @ [seg]) ds ?g c' s'"
    proof (rule Cons.IH [OF gok])
      show "kids ?g q < 64" if "prefix (p0 @ [seg]) q" for q
        using Cons.prems(5) [of q] that gv(2) [of q] by (auto dest: append_prefixD)
      show "fst v = RamFSNode_Directory" if "prefix q ((p0 @ [seg]) @ ds)" "node_at ?g q = Some v" for q v
        using Cons.prems(6) [of q v] that gv(1) by (auto split: if_splits)
    qed (use gf g Cons.prems(4) in auto)
    then obtain c' s' where 1: "attach_dirs (NextPtr s + 1) ds ?g = (c', s')" "attached (p0 @ [seg]) ds ?g c' s'" by blast
    have k: "kids s' q \<le> kids s q + (if prefix p0 q \<and> q \<noteq> p0 @ seg # ds then 1 else 0)" for q
    proof -
      have "kids s' q \<le> kids ?g q + (if prefix (p0 @ [seg]) q \<and> q \<noteq> p0 @ seg # ds then 1 else 0)"
        using 1(2) by (simp add: attached_def)
      moreover have "prefix (p0 @ [seg]) q \<Longrightarrow> prefix p0 q \<and> q \<noteq> p0" by (auto dest: append_prefixD)
      ultimately show ?thesis using gv(2) [of q] by (auto split: if_splits)
    qed
    have v: "node_at s' = put_dirs (p0 @ seg # ds) (node_at s)"
      using 1(2) put_dirs_snoc [of p0 "node_at s" seg ds, OF pre no] gv(1) by (simp add: attached_def)
    have m: "follow ?r q s \<noteq> 0 \<Longrightarrow> follow ?r q s' = follow ?r q s" for q
      using 1(2) gf [of q] next_eq None g(4) by (auto simp: attached_def split: if_splits)
    show ?thesis using 1 None fd k v m g by (auto simp: attached_def)
  qed
qed

definition put_leaf :: "string list \<Rightarrow> RamFSNodeType \<Rightarrow> string \<Rightarrow> u32 \<Rightarrow> file_tree \<Rightarrow> file_tree" where
  "put_leaf p Ty Data Size t =
     t(p \<mapsto> (let (ty, sz, d) = (case t p of None \<Rightarrow> (Ty, 0, []) | Some v \<Rightarrow> v)
             in if Ty = RamFSNode_File then (ty, Size, Data) else (ty, sz, d)))"

definition put_path :: "string \<Rightarrow> RamFSNodeType \<Rightarrow> string \<Rightarrow> u32 \<Rightarrow> file_tree \<Rightarrow> file_tree" where
  "put_path r Ty Data Size t =
     (let t' = put_dirs (dir_segs [] r) t
      in if leaf_seg [] r = [] then t' else put_leaf (path_segs r) Ty Data Size t')"

lemma set_data_frame:
  "rName (RNodes (set_data Leaf Ty Data Size s) n) = rName (RNodes s n)"
  "Children (RNodes (set_data Leaf Ty Data Size s) n) = Children (RNodes s n)"
  "rType (RNodes (set_data Leaf Ty Data Size s) n) = rType (RNodes s n)"
  "NextPtr (set_data Leaf Ty Data Size s) = NextPtr s"
  "HeapLeft (set_data Leaf Ty Data Size s) = HeapLeft s"
  "RamFS_Root (set_data Leaf Ty Data Size s) = RamFS_Root s"
  by (simp_all add: set_data_def)

lemma set_data_follow: "follow n p (set_data Leaf Ty Data Size s) = follow n p s"
  by (induction p arbitrary: n) (auto simp: find_child_def set_data_frame split: option.split)

lemma set_data_tree:
  "tree_ok (set_data Leaf Ty Data Size s) = tree_ok s"
  "kids (set_data Leaf Ty Data Size s) q = kids s q"
  by (simp_all add: tree_ok_def kids_def Let_def set_data_frame set_data_follow)

lemma set_data_view:
  assumes "tree_ok s" "follow (RamFS_Root s) p s = Leaf" "Leaf \<noteq> 0"
  shows "node_at (set_data Leaf Ty Data Size s) = put_leaf p Ty Data Size (node_at s)"
proof
  fix q
  show "node_at (set_data Leaf Ty Data Size s) q = put_leaf p Ty Data Size (node_at s) q"
  proof (cases "q = p")
    case True
    then show ?thesis using assms
      by (auto simp: node_at_def put_leaf_def set_data_follow set_data_frame Let_def) (auto simp: set_data_def)
  next
    case False
    then have "follow (RamFS_Root s) q s \<noteq> Leaf" using tree_ok_inj [OF assms] by blast
    then have "RNodes (set_data Leaf Ty Data Size s) (follow (RamFS_Root s) q s) = RNodes s (follow (RamFS_Root s) q s)"
      by (simp add: set_data_def)
    then show ?thesis using False by (simp add: node_at_def put_leaf_def set_data_follow set_data_frame Let_def)
  qed
qed

lemma put_leaf_fresh:
  "t p = None \<Longrightarrow> put_leaf p Ty Data Size (t(p \<mapsto> (Ty, 0, []))) = put_leaf p Ty Data Size t"
  by (auto simp: put_leaf_def fun_eq_iff)

lemma attach_leaf:
  assumes ok: "tree_ok s" and Cur: "follow (RamFS_Root s) ds s = Cur" "Cur \<noteq> 0" and h: "2 \<le> HeapLeft s"
    and room: "kids s ds < 64"
  shows "\<exists>c s'. (case find_child Cur seg s of
             Some Leaf \<Rightarrow> (Leaf, set_data Leaf Ty Data Size s)
           | None \<Rightarrow> (let (Leaf, s) = add_node Cur seg Ty s in if Leaf = 0 then (0, s) else (Leaf, set_data Leaf Ty Data Size s)))
           = (c, s') \<and> c \<noteq> 0 \<and> tree_ok s' \<and> RamFS_Root s' = RamFS_Root s \<and>
         follow (RamFS_Root s) (ds @ [seg]) s' = c \<and>
         node_at s' = put_leaf (ds @ [seg]) Ty Data Size (node_at s) \<and> HeapLeft s \<le> HeapLeft s' + 2 \<and>
         (\<forall>q. kids s' q \<le> kids s q + (if q = ds then 1 else 0))"
proof -
  have f: "follow (RamFS_Root s) (ds @ [seg]) s = (case find_child Cur seg s of None \<Rightarrow> 0 | Some c \<Rightarrow> c)"
    using Cur by (simp add: follow_snoc)
  show ?thesis
  proof (cases "find_child Cur seg s")
    case (Some c)
    then show ?thesis
      using f ok find_child_nonzero [OF Some] set_data_view [OF ok, of "ds @ [seg]" c]
      by (auto simp: set_data_frame set_data_follow set_data_tree)
  next
    case None
    have r: "length (Children (RNodes s Cur)) < 64" using room Cur by (simp add: kids_def Let_def)
    have CurN: "Cur < NextPtr s" using tree_ok_range [OF ok] tree_ok_root [OF ok] Cur by blast
    let ?g = "grown Cur seg Ty s"
    note g = grown_simps [OF h Cur(2) CurN r, where seg = seg and Ty = Ty]
    have gok: "tree_ok ?g" by (rule grown_tree_ok [OF ok h Cur r None])
    have gf: "follow (RamFS_Root ?g) (ds @ [seg]) ?g = NextPtr s + 1"
      using grown_follow [OF ok h Cur r None] g(4) by simp
    have no: "node_at s (ds @ [seg]) = None" using f None by (simp add: node_at_None)
    have "node_at (set_data (NextPtr s + 1) Ty Data Size ?g) = put_leaf (ds @ [seg]) Ty Data Size (node_at s)"
      using set_data_view [OF gok gf] put_leaf_fresh [where t = "node_at s" and p = "ds @ [seg]", OF no] grown_view(1) [OF ok h Cur r None] by simp
    then show ?thesis using None g gok gf grown_view(2) [OF ok h Cur r None]
      by (auto simp: set_data_frame set_data_follow set_data_tree)
  qed
qed

lemma put_dirs_leaf: "leaf_seg [] r \<noteq> [] \<Longrightarrow> put_dirs (dir_segs [] r) t (path_segs r) = t (path_segs r)"
  by (auto simp: put_dirs_def path_segs_def leaf_list_def)

text \<open>The tree may take the path: no file is in the way, every directory has an entry left, the heap has two
  blocks for each name.\<close>

definition path_fits :: "string \<Rightarrow> 'z ramfs_scheme \<Rightarrow> bool" where
  "path_fits r s \<longleftrightarrow>
     2 * length (path_segs r) \<le> HeapLeft s \<and> (\<forall>q. kids s q < 64) \<and>
     (\<forall>q v. prefix q (dir_segs [] r) \<longrightarrow> node_at s q = Some v \<longrightarrow> fst v = RamFSNode_Directory)"

definition attach_done :: "string \<Rightarrow> RamFSNodeType \<Rightarrow> string \<Rightarrow> u32 \<Rightarrow> 'z ramfs_scheme \<Rightarrow> nat \<Rightarrow> 'z ramfs_scheme \<Rightarrow> bool" where
  "attach_done r Ty Data Size s c s' \<longleftrightarrow>
     c \<noteq> 0 \<and> tree_ok s' \<and> RamFS_Root s' = RamFS_Root s \<and> RamFSLookup (RamFS_Root s) (Some (CHR ''/'' # r)) s' = c \<and>
     node_at s' = put_path r Ty Data Size (node_at s) \<and>
     HeapLeft s \<le> HeapLeft s' + 2 * length (path_segs r) \<and> (\<forall>q. kids s' q \<le> kids s q + 1)"

lemma RamFSAttachPath_done:
  assumes ok: "tree_ok s" and fits: "path_fits r s"
  shows "\<exists>c s'. RamFSAttachPath (RamFS_Root s) (Some (CHR ''/'' # r)) Ty Data Size s = (c, s') \<and>
                attach_done r Ty Data Size s c s'"
proof -
  let ?r = "RamFS_Root s" and ?ds = "dir_segs [] r" and ?l = "leaf_seg [] r"
  have root: "?r \<noteq> 0" using tree_ok_root [OF ok] by simp
  have "2 * length ?ds \<le> HeapLeft s" using fits by (simp add: path_fits_def path_segs_def)
  then obtain c s' where 1: "attach_dirs ?r ?ds s = (c, s')" "attached [] ?ds s c s'"
    using attach_dirs_attached [OF ok, of "[]" ?r ?ds] fits root by (auto simp: path_fits_def)
  have loop: "attach_loop ?r [] r s = (Some (c, ?l), s')"
    using attach_loop_dirs [OF root, of "[]" r s] 1 by (simp add: attached_def)
  have kds: "kids s' ?ds \<le> kids s ?ds" "kids s' q \<le> kids s q + 1" for q
  proof -
    have le: "kids s' q \<le> kids s q + (if q \<noteq> ?ds then 1 else 0)" for q using 1(2) by (simp add: attached_def)
    show "kids s' ?ds \<le> kids s ?ds" using le [of ?ds] by simp
    show "kids s' q \<le> kids s q + 1" using le [of q] by (simp split: if_splits)
  qed
  show ?thesis
  proof (cases "?l = []")
    case True
    then have "attach_done r Ty Data Size s c s'"
      using 1(2) root kds(2) by (auto simp: attach_done_def attached_def RamFSLookup_follow path_segs_def leaf_list_def put_path_def)
    then show ?thesis using loop root True by (simp add: RamFSAttachPath_def)
  next
    case False
    then have segs: "path_segs r = ?ds @ [?l]" by (simp add: path_segs_def leaf_list_def)
    have s': "tree_ok s'" "follow (RamFS_Root s') ?ds s' = c" "c \<noteq> 0" "RamFS_Root s' = ?r" using 1(2) by (auto simp: attached_def)
    have heap: "2 \<le> HeapLeft s'" "HeapLeft s \<le> HeapLeft s' + 2 * length ?ds" using 1(2) fits segs by (auto simp: attached_def path_fits_def)
    have "kids s' ?ds < 64" using fits kds(1) by (meson le_less_trans path_fits_def)
    from attach_leaf [OF s'(1-3) heap(1) this, of ?l Ty Data Size] obtain c' s'' where
      2: "(case find_child c ?l s' of
             Some Leaf \<Rightarrow> (Leaf, set_data Leaf Ty Data Size s')
           | None \<Rightarrow> (let (Leaf, s) = add_node c ?l Ty s' in if Leaf = 0 then (0, s) else (Leaf, set_data Leaf Ty Data Size s)))
           = (c', s'')" "c' \<noteq> 0" "tree_ok s''" "RamFS_Root s'' = ?r" "follow ?r (?ds @ [?l]) s'' = c'"
         "node_at s'' = put_leaf (?ds @ [?l]) Ty Data Size (node_at s')" "HeapLeft s' \<le> HeapLeft s'' + 2"
         "\<And>q. kids s'' q \<le> kids s' q + (if q = ?ds then 1 else 0)"
      using s'(4) by auto
    have k: "kids s'' q \<le> kids s q + 1" for q using 2(8) [of q] kds(1) kds(2) [of q] by (auto split: if_splits)
    have "attach_done r Ty Data Size s c' s''"
      using 1(2) 2(2-7) heap k root segs False
      by (auto simp: attach_done_def attached_def RamFSLookup_follow put_path_def)
    then show ?thesis using loop root False 2(1) by (auto simp: RamFSAttachPath_def)
  qed
qed

end
