(* ===== verification/BootImage.thy ===== *)
theory BootImage
  imports RamFS
begin

text \<open>
  What the cpio reader of \<^verbatim>\<open>Kernel/RamFS\<close> does with a well-formed archive.

  \<open>archive\<close> writes entries in the format that the comments of \<^verbatim>\<open>RamFSMount\<close> describe (a header of 110
  bytes with eight-digit hexadecimal fields, the name with its NUL, both padded to four bytes, the
  data padded to four bytes, a trailer). The lemmas follow the reader over such an image: the
  numbers it reads back are the ones written (\<open>CpioParseHex_hex8\<close>), its 32-bit offsets do not wrap,
  it stops at the trailer, and the tree it builds is the one the entries describe (\<open>tree_of\<close>).
\<close>

unbundle bit_operations_syntax

section \<open>Numbers in the archive\<close>

lemma align_word: "(v :: u32) AND NOT 3 = push_bit 2 (drop_bit 2 v)"
proof (rule bit_word_eqI)
  fix n assume "n < LENGTH(32)"
  have "bit (3 :: u32) n \<longleftrightarrow> n < 2" using bit_mask_iff [where 'a = u32, of 2 n] by (auto simp: mask_eq_exp_minus_1)
  moreover have "2 \<le> n \<Longrightarrow> Suc (Suc (n - 2)) = n" by simp
  ultimately show "bit (v AND NOT 3) n = bit (push_bit 2 (drop_bit 2 v)) n"
    by (auto simp: bit_simps)
qed

definition pad4 :: "nat \<Rightarrow> nat" where "pad4 n = (4 - n mod 4) mod 4"

lemma align_nat: "(n + 3) div 2 ^ 2 * 2 ^ 2 = n + pad4 n"
proof -
  define q r where "q = n div 4" and "r = n mod 4"
  have n: "n = 4 * q + r" "r < 4" by (simp_all add: q_def r_def)
  then have "r = 0 \<or> r = 1 \<or> r = 2 \<or> r = 3" by auto
  then show ?thesis using n(1) by (auto simp: pad4_def)
qed

lemma unat_CpioAlignUp:
  assumes "unat v + 3 < 2 ^ 32"
  shows "unat (CpioAlignUp v 4) = unat v + pad4 (unat v)"
proof -
  have a: "unat (v + 3) = unat v + 3" using assms by (simp add: unat_word_ariths)
  have "CpioAlignUp v 4 = push_bit 2 (drop_bit 2 (v + 3))" using align_word [of "v + 3"] by (simp add: CpioAlignUp_def)
  moreover have "unat (push_bit 2 (drop_bit 2 (v + 3))) = take_bit 32 (push_bit 2 (drop_bit 2 (unat v + 3)))"
    unfolding a [symmetric] unsigned_push_bit_eq unat_drop_bit_eq by simp
  moreover have "take_bit 32 (push_bit 2 (drop_bit 2 (unat v + 3))) = ((unat v + 3) div 2 ^ 2 * 2 ^ 2) mod 2 ^ 32"
    by (simp only: take_bit_eq_mod push_bit_eq_mult drop_bit_eq_div)
  moreover have "(unat v + 3) div 2 ^ 2 * 2 ^ 2 = unat v + pad4 (unat v)" by (rule align_nat)
  moreover have "unat v + pad4 (unat v) < 2 ^ 32" using assms mod_less_divisor [of 4 "4 - unat v mod 4"] unfolding pad4_def by linarith
  ultimately show ?thesis by (simp only: mod_less)
qed

definition hex_char :: "nat \<Rightarrow> char" where
  "hex_char d = char_of (if d < 10 then 48 + d else 55 + d)"

definition hex8 :: "u32 \<Rightarrow> string" where
  "hex8 w = map (\<lambda>i. hex_char (unat (drop_bit (28 - 4 * i) w AND 15))) [0..<8]"

lemma hex_digit_hex_char: "d < 16 \<Longrightarrow> hex_digit (hex_char d) = word_of_nat d"
  by (auto simp: hex_digit_def hex_char_def Let_def of_char_of)

lemma hex_step:
  assumes "m + 4 \<le> 32"
  shows "push_bit 4 (drop_bit (m + 4) w) OR (drop_bit m w AND 15) = drop_bit m (w :: u32)"
proof (rule bit_word_eqI)
  fix n assume n: "n < LENGTH(32)"
  have "bit (15 :: u32) n \<longleftrightarrow> n < 4" using bit_mask_iff [where 'a = u32, of 4 n] by (auto simp: mask_eq_exp_minus_1)
  moreover have "4 \<le> n \<Longrightarrow> m + 4 + (n - 4) = m + n" by simp
  ultimately show "bit (push_bit 4 (drop_bit (m + 4) w) OR (drop_bit m w AND 15)) n = bit (drop_bit m w) n"
    using n by (auto simp: bit_simps)
qed

section \<open>Bytes at an offset\<close>

definition holds_at :: "string \<Rightarrow> nat \<Rightarrow> string \<Rightarrow> bool" where
  "holds_at buf off t \<longleftrightarrow> take (length t) (drop off buf) = t"

lemma holds_at_append: "holds_at buf off (a @ b) \<longleftrightarrow> holds_at buf off a \<and> holds_at buf (off + length a) b"
proof
  assume h: "holds_at buf off (a @ b)"
  then have "take (length a) (take (length (a @ b)) (drop off buf)) = a" by (simp add: holds_at_def)
  moreover have "drop (length a) (take (length (a @ b)) (drop off buf)) = b" using h by (simp add: holds_at_def)
  ultimately show "holds_at buf off a \<and> holds_at buf (off + length a) b"
    by (simp add: holds_at_def drop_take add.commute)
qed (simp add: holds_at_def take_add add.commute)

lemma holds_at_img: "holds_at buf off t \<Longrightarrow> i < length t \<Longrightarrow> img buf (off + i) = t ! i"
proof -
  assume h: "holds_at buf off t" and i: "i < length t"
  then have "length t \<le> length (drop off buf)" unfolding holds_at_def by (metis length_take min.cobounded1 min.commute)
  then have "off + i < length buf" using i by simp
  moreover have "t ! i = take (length t) (drop off buf) ! i" using h by (simp add: holds_at_def)
  ultimately show ?thesis using i by (simp add: img_def)
qed

lemma holds_at_length: "holds_at buf off t \<Longrightarrow> t \<noteq> [] \<Longrightarrow> off + length t \<le> length buf"
proof -
  assume h: "holds_at buf off t" and "t \<noteq> []"
  then have "length t \<le> length (drop off buf)" "0 < length t" unfolding holds_at_def by (metis length_take min.cobounded1 min.commute, simp)
  then show ?thesis unfolding length_drop by linarith
qed

lemma holds_at_here: "holds_at (pre @ t @ post) (length pre) t"
  by (simp add: holds_at_def)

lemma hex8_length: "length (hex8 w) = 8"
  by (simp add: hex8_def)

lemma CpioParseHex_hex8:
  assumes "holds_at buf off (hex8 w)"
  shows "CpioParseHex buf off = w"
proof -
  have d: "hex_digit (img buf (off + i)) = drop_bit (28 - 4 * i) w AND 15" if "i < 8" for i
  proof -
    have "img buf (off + i) = hex_char (unat (drop_bit (28 - 4 * i) w AND 15))"
      using holds_at_img [OF assms, of i] that by (simp add: hex8_def)
    moreover have "unat (drop_bit (28 - 4 * i) w AND 15) < 16"
      using word_and_le1 [of "drop_bit (28 - 4 * i) w" 15] by (simp add: word_le_nat_alt)
    ultimately show ?thesis by (simp add: hex_digit_hex_char)
  qed
  have "fold (\<lambda>i Value. push_bit 4 Value OR hex_digit (img buf (off + i))) [0..<k] 0 = drop_bit (32 - 4 * k) w" if "k \<le> 8" for k
    using that
  proof (induction k)
    case 0
    show ?case by (simp add: drop_bit_word_beyond)
  next
    case (Suc k)
    then have k: "32 - 4 * k = 28 - 4 * k + 4" "32 - 4 * Suc k = 28 - 4 * k" "28 - 4 * k + 4 \<le> 32" by auto
    have "fold (\<lambda>i Value. push_bit 4 Value OR hex_digit (img buf (off + i))) [0..<Suc k] 0 =
          push_bit 4 (drop_bit (28 - 4 * k + 4) w) OR (drop_bit (28 - 4 * k) w AND 15)"
      using Suc d [of k] unfolding k(1) by simp
    then show ?case unfolding k(2) hex_step [OF k(3)] .
  qed
  from this [of 8] show ?thesis by (simp add: CpioParseHex_def)
qed

lemma matches_at_holds: "holds_at buf off t \<Longrightarrow> matches_at buf off t"
  by (auto simp: matches_at_def list_all_iff holds_at_img)

lemma cstring_at_holds:
  assumes "holds_at buf off (t @ [CHR 0x00])" "CHR 0x00 \<notin> set t"
  shows "cstring_at buf off = t"
proof -
  obtain r where "drop off buf = (t @ [CHR 0x00]) @ r"
    using assms(1) unfolding holds_at_def by (metis append_take_drop_id)
  moreover have "takeWhile (\<lambda>c. c \<noteq> CHR 0x00) (t @ CHR 0x00 # r) = t @ takeWhile (\<lambda>c. c \<noteq> CHR 0x00) (CHR 0x00 # r)"
    by (rule takeWhile_append2) (use assms(2) in auto)
  ultimately show ?thesis by (simp add: cstring_at_def)
qed

lemma trailer_only:
  assumes "holds_at buf off (t @ [CHR 0x00])" "CHR 0x00 \<notin> set t" "matches_at buf off CpioTrailer" "11 \<le> length t + 1"
  shows "t = ''TRAILER!!!''"
proof -
  have m: "img buf (off + i) = CpioTrailer ! i" if "i < 11" for i
  proof -
    have "length CpioTrailer = 11" by (simp add: CpioTrailer_def)
    then show ?thesis using assms(3) that by (auto simp: matches_at_def list_all_iff)
  qed
  have "length t = 10"
  proof (rule ccontr)
    assume "length t \<noteq> 10"
    then have l: "10 < length t" using assms(4) by simp
    then have "img buf (off + 10) = t ! 10" using holds_at_img [OF assms(1), of 10] by (simp add: nth_append)
    then show False using m [of 10] l assms(2) nth_mem [OF l] by (simp add: CpioTrailer_def)
  qed
  moreover have "t ! i = CpioTrailer ! i" if "i < 10" for i
    using holds_at_img [OF assms(1), of i] m [of i] that calculation by (simp add: nth_append)
  moreover have "length CpioTrailer = 11" by (simp add: CpioTrailer_def)
  ultimately have "t = take 10 CpioTrailer" by (intro nth_equalityI) auto
  then show ?thesis by (simp add: CpioTrailer_def)
qed

section \<open>The archive format\<close>

text \<open>An entry in the format the reader expects; the fields it skips are kept as they are.\<close>

record cpio_entry =
  ceIno :: string
  ceMode :: u32
  ceOwner :: string
  ceDev :: string
  ceCheck :: string
  ceName :: string
  ceData :: string

definition is_dir :: "cpio_entry \<Rightarrow> bool" where
  "is_dir e \<longleftrightarrow> ceMode e AND 0xF000 = 0x4000"

definition entry_type :: "cpio_entry \<Rightarrow> RamFSNodeType" where
  "entry_type e = (if is_dir e then RamFSNode_Directory else RamFSNode_File)"

definition header :: "cpio_entry \<Rightarrow> string" where
  "header e = ''070701'' @ ceIno e @ hex8 (ceMode e) @ ceOwner e @ hex8 (word_of_nat (length (ceData e))) @ ceDev e @
     hex8 (word_of_nat (length (ceName e) + 1)) @ ceCheck e"

definition padding :: "nat \<Rightarrow> string" where "padding n = replicate (pad4 n) (CHR 0x00)"

definition entry_bytes :: "cpio_entry \<Rightarrow> string" where
  "entry_bytes e = header e @ (ceName e @ [CHR 0x00]) @ padding (110 + (length (ceName e) + 1)) @ ceData e @ padding (length (ceData e))"

definition entry_ok :: "cpio_entry \<Rightarrow> bool" where
  "entry_ok e \<longleftrightarrow> length (ceIno e) = 8 \<and> length (ceOwner e) = 32 \<and> length (ceDev e) = 32 \<and> length (ceCheck e) = 8 \<and>
     CHR 0x00 \<notin> set (ceName e) \<and> (is_dir e \<longrightarrow> ceData e = [])"

lemma pad4_add: "4 dvd n \<Longrightarrow> pad4 (n + m) = pad4 m"
  unfolding pad4_def by (metis add_0 dvd_imp_mod_0 mod_add_left_eq)

lemma pad4_sum: "4 dvd n + pad4 n"
  unfolding align_nat [symmetric] by simp

lemma header_length: "entry_ok e \<Longrightarrow> length (header e) = 110"
  by (simp add: header_def entry_ok_def hex8_length)

lemma entry_length:
  "entry_ok e \<Longrightarrow> length (entry_bytes e) =
     110 + (length (ceName e) + 1) + pad4 (110 + (length (ceName e) + 1)) + length (ceData e) + pad4 (length (ceData e))"
  by (simp add: entry_bytes_def header_length padding_def)

lemma entry_dvd: "entry_ok e \<Longrightarrow> 4 dvd length (entry_bytes e)"
  using dvd_add [OF pad4_sum [of "110 + (length (ceName e) + 1)"] pad4_sum [of "length (ceData e)"]]
  by (simp add: entry_length add.assoc)

lemma unat_of_nat_u32: "n < 2 ^ 32 \<Longrightarrow> unat (word_of_nat n :: u32) = n"
  by (simp add: unat_of_nat take_bit_eq_mod)

text \<open>Where the parts of an entry lie in the image.\<close>

lemma entry_fields:
  assumes "holds_at buf off (entry_bytes e)" "entry_ok e"
  shows "holds_at buf off ''070701''" "holds_at buf (off + 14) (hex8 (ceMode e))"
    "holds_at buf (off + 54) (hex8 (word_of_nat (length (ceData e))))"
    "holds_at buf (off + 94) (hex8 (word_of_nat (length (ceName e) + 1)))"
    "holds_at buf (off + 110) (ceName e @ [CHR 0x00])"
    "holds_at buf (off + 110 + (length (ceName e) + 1) + pad4 (110 + (length (ceName e) + 1))) (ceData e)"
proof -
  have len: "length (ceIno e) = 8" "length (ceOwner e) = 32" "length (ceDev e) = 32" "length (ceCheck e) = 8"
    using assms(2) by (auto simp: entry_ok_def)
  have h: "holds_at buf off (header e)"
    "holds_at buf (off + 110) (ceName e @ [CHR 0x00])"
    "holds_at buf (off + 110 + (length (ceName e) + 1) + pad4 (110 + (length (ceName e) + 1))) (ceData e)"
    using assms(1) unfolding entry_bytes_def holds_at_append header_length [OF assms(2)]
    by (simp_all add: holds_at_append padding_def add.assoc)
  show "holds_at buf (off + 110) (ceName e @ [CHR 0x00])"
    "holds_at buf (off + 110 + (length (ceName e) + 1) + pad4 (110 + (length (ceName e) + 1))) (ceData e)" by (rule h(2,3))+
  show "holds_at buf off ''070701''" "holds_at buf (off + 14) (hex8 (ceMode e))"
    "holds_at buf (off + 54) (hex8 (word_of_nat (length (ceData e))))"
    "holds_at buf (off + 94) (hex8 (word_of_nat (length (ceName e) + 1)))"
    using h(1) unfolding header_def holds_at_append by (simp_all add: len hex8_length add.commute [of off])
qed

lemma cpio_read_entry:
  assumes at: "holds_at buf (unat Off) (entry_bytes e)" and ok: "entry_ok e" and al: "4 dvd unat Off"
    and len: "length buf = unat Len" "unat Len + 3 < 2 ^ 32" and nt: "ceName e \<noteq> ''TRAILER!!!''"
  shows "cpio_read buf Len Off =
    CpioEntry (entry_type e)
      (if is_dir e then [] else drop (unat Off + 110 + (length (ceName e) + 1) + pad4 (110 + (length (ceName e) + 1))) buf)
      (word_of_nat (length (ceData e))) (ceName e) (word_of_nat (unat Off + length (entry_bytes e)))"
proof -
  let ?n = "length (ceName e) + 1" and ?d = "length (ceData e)"
  let ?doff = "unat Off + 110 + ?n + pad4 (110 + ?n)"
  note f = entry_fields [OF at ok]
  have "entry_bytes e \<noteq> []" by (simp add: entry_bytes_def)
  then have total: "?doff + ?d + pad4 ?d \<le> unat Len"
    using holds_at_length [OF at] by (simp add: entry_length [OF ok] len(1))
  then have small: "unat Off + 110 < 2 ^ 32" "unat Off + 3 < 2 ^ 32" "?n < 2 ^ 32" "?d < 2 ^ 32" "unat Off + 110 + ?n + 3 < 2 ^ 32" "?doff + ?d + 3 < 2 ^ 32"
    using len(2) by linarith+
  have p0: "pad4 (unat Off) = 0" using pad4_add [OF al, of 0] by (simp add: pad4_def)
  have Off: "CpioAlignUp Off 4 = Off"
    using unat_CpioAlignUp [OF small(2)] p0 by (simp add: word_unat_eq_iff)
  have NameLen: "CpioParseHex buf (unat Off + 94) = word_of_nat ?n" by (rule CpioParseHex_hex8 [OF f(4)])
  have DataLen: "CpioParseHex buf (unat Off + 54) = word_of_nat ?d" by (rule CpioParseHex_hex8 [OF f(3)])
  have Mode: "CpioParseHex buf (unat Off + 14) = ceMode e" by (rule CpioParseHex_hex8 [OF f(2)])
  have un: "unat (word_of_nat ?n :: u32) = ?n" "unat (word_of_nat ?d :: u32) = ?d" using small unat_of_nat_u32 by blast+
  have u110: "unat (Off + 110) = unat Off + 110" using small(1) by (simp add: unat_word_ariths)
  have uend: "unat (Off + 110 + word_of_nat ?n) = unat Off + 110 + ?n"
    using small(5) by (simp only: unat_word_ariths u110 un) simp
  have pn: "pad4 (unat Off + 110 + ?n) = pad4 (110 + ?n)" using pad4_add [OF al, of "110 + ?n"] by (simp only: add.assoc)
  have ual: "unat (CpioAlignUp (Off + 110 + word_of_nat ?n) 4) = ?doff"
    using unat_CpioAlignUp [of "Off + 110 + word_of_nat ?n"] unfolding uend pn using small(5) by blast
  have uda: "unat (CpioAlignUp (Off + 110 + word_of_nat ?n) 4 + word_of_nat ?d) = ?doff + ?d"
    using small(6) by (simp only: unat_word_ariths ual un) simp
  have "4 dvd ?doff" using dvd_add [OF al pad4_sum [of "110 + ?n"]] by (simp only: add.assoc)
  then have pd: "pad4 (?doff + ?d) = pad4 ?d" by (rule pad4_add)
  have "unat (CpioAlignUp (CpioAlignUp (Off + 110 + word_of_nat ?n) 4 + word_of_nat ?d) 4) = ?doff + ?d + pad4 ?d"
    using unat_CpioAlignUp [of "CpioAlignUp (Off + 110 + word_of_nat ?n) 4 + word_of_nat ?d"] unfolding uda pd using small(6) by blast
  moreover have tot: "unat (word_of_nat (unat Off + length (entry_bytes e)) :: u32) = ?doff + ?d + pad4 ?d"
    using total len(2) by (subst unat_of_nat_u32) (simp_all add: entry_length [OF ok])
  ultimately have nxt: "CpioAlignUp (CpioAlignUp (Off + 110 + word_of_nat ?n) 4 + word_of_nat ?d) 4 = word_of_nat (unat Off + length (entry_bytes e))"
    by (simp only: word_unat_eq_iff)
  have dnxt: "CpioAlignUp (Off + 110 + word_of_nat ?n) 4 = word_of_nat (unat Off + length (entry_bytes e))" if "is_dir e"
  proof -
    have "ceData e = []" using ok that by (simp add: entry_ok_def)
    then show ?thesis unfolding word_unat_eq_iff tot ual by (simp add: pad4_def)
  qed
  have notr: "\<not> (11 \<le> (word_of_nat ?n :: u32) \<and> matches_at buf (unat (Off + 110)) CpioTrailer)"
    using trailer_only [OF f(5)] ok nt un(1) by (auto simp: entry_ok_def u110 word_le_nat_alt)
  have le: "\<not> Len < Off + 110" "\<not> Len < Off + 110 + word_of_nat ?n" "\<not> Len < CpioAlignUp (Off + 110 + word_of_nat ?n) 4 + word_of_nat ?d"
    using total by (simp_all only: word_less_nat_alt u110 uend uda)
  have name: "cstring_at buf (unat (Off + 110)) = ceName e" using cstring_at_holds [OF f(5)] ok u110 by (simp add: entry_ok_def)
  show ?thesis
    unfolding cpio_read_def Let_def Off NameLen DataLen Mode
    using le notr matches_at_holds [OF f(1)] name nxt dnxt ual by (simp add: entry_type_def is_dir_def)
qed

section \<open>The tree an archive describes\<close>

type_synonym placed = "(cpio_entry \<times> string) list"

definition data_at :: "string \<Rightarrow> nat \<Rightarrow> cpio_entry \<Rightarrow> string" where
  "data_at buf off e =
     (if is_dir e then []
      else drop (off + 110 + (length (ceName e) + 1) + pad4 (110 + (length (ceName e) + 1))) buf)"

fun place :: "string \<Rightarrow> nat \<Rightarrow> cpio_entry list \<Rightarrow> placed" where
  "place buf off [] = []"
| "place buf off (e # es) = (e, data_at buf off e) # place buf (off + length (entry_bytes e)) es"

abbreviation segs_of :: "cpio_entry \<times> string \<Rightarrow> string list" where "segs_of x \<equiv> path_segs (ceName (fst x))"
abbreviation dirs_of :: "cpio_entry \<times> string \<Rightarrow> string list" where "dirs_of x \<equiv> dir_segs [] (ceName (fst x))"
abbreviation size_of :: "cpio_entry \<times> string \<Rightarrow> u32" where "size_of x \<equiv> word_of_nat (length (ceData (fst x)))"

definition tree_of :: "placed \<Rightarrow> file_tree" where
  "tree_of xs q =
     (case find (\<lambda>x. segs_of x = q) xs of
        Some x \<Rightarrow> Some (entry_type (fst x), size_of x, snd x)
      | None \<Rightarrow> if q = [] \<or> list_ex (\<lambda>x. prefix q (dirs_of x)) xs then Some (RamFSNode_Directory, 0, []) else None)"

text \<open>No two entries have the same path, no file is an ancestor of another entry.\<close>

definition consistent :: "placed \<Rightarrow> bool" where
  "consistent xs \<longleftrightarrow>
     distinct (map segs_of xs) \<and>
     list_all (\<lambda>x. is_dir (fst x) \<or> (leaf_seg [] (ceName (fst x)) \<noteq> [] \<and> \<not> list_ex (\<lambda>y. prefix (segs_of x) (dirs_of y)) xs)) xs \<and>
     list_all (\<lambda>x. is_dir (fst x) \<longrightarrow> snd x = [] \<and> ceData (fst x) = []) xs"

lemma segs_leaf: "leaf_seg [] n \<noteq> [] \<Longrightarrow> path_segs n = dir_segs [] n @ [leaf_seg [] n]"
  "leaf_seg [] n = [] \<Longrightarrow> path_segs n = dir_segs [] n"
  by (simp_all add: path_segs_def leaf_list_def)

lemma tree_of_file:
  assumes "consistent xs" "tree_of xs q = Some v" "fst v \<noteq> RamFSNode_Directory"
  shows "\<exists>x \<in> set xs. \<not> is_dir (fst x) \<and> segs_of x = q"
  using assms unfolding tree_of_def
  by (auto split: option.splits if_splits simp: find_Some_iff entry_type_def intro: nth_mem)

lemma put_dirs_tree:
  assumes "consistent (xs @ [x])" "q \<noteq> segs_of x"
  shows "put_dirs (dirs_of x) (tree_of xs) q = tree_of (xs @ [x]) q"
  using assms by (auto simp: put_dirs_def tree_of_def find_append split: option.splits)

lemma consistent_new: "consistent (xs @ [x]) \<Longrightarrow> find (\<lambda>y. segs_of y = segs_of x) xs = None"
proof -
  assume "consistent (xs @ [x])"
  then have "segs_of x \<notin> set (map segs_of xs)" by (simp add: consistent_def)
  then show ?thesis unfolding find_None_iff set_map by (metis image_eqI)
qed

lemma tree_of_self:
  assumes "consistent (xs @ [x])"
  shows "tree_of (xs @ [x]) (segs_of x) = Some (entry_type (fst x), size_of x, snd x)"
  using consistent_new [OF assms] by (simp add: tree_of_def find_append)

lemma put_path_tree:
  assumes c: "consistent (xs @ [x])"
  shows "put_path (ceName (fst x)) (entry_type (fst x)) (snd x) (size_of x) (tree_of xs) = tree_of (xs @ [x])"
proof
  fix q
  let ?n = "ceName (fst x)" and ?t = "put_dirs (dirs_of x) (tree_of xs)"
  have none: "find (\<lambda>y. segs_of y = segs_of x) xs = None" by (rule consistent_new [OF c])
  have dir: "is_dir (fst x) \<Longrightarrow> snd x = [] \<and> ceData (fst x) = []" using c by (simp add: consistent_def)
  have plain: "\<not> is_dir (fst x) \<Longrightarrow> leaf_seg [] ?n \<noteq> [] \<and> tree_of xs (segs_of x) = None"
    using c none by (auto simp: consistent_def tree_of_def segs_leaf list_ex_iff)
  have olddir: "tree_of xs (segs_of x) = Some v \<Longrightarrow> v = (RamFSNode_Directory, 0, [])" for v
    using none by (auto simp: tree_of_def split: if_splits)
  show "put_path ?n (entry_type (fst x)) (snd x) (size_of x) (tree_of xs) q = tree_of (xs @ [x]) q"
  proof (cases "q = segs_of x")
    case False
    then show ?thesis using put_dirs_tree [OF c False] by (simp add: put_path_def Let_def put_leaf_def)
  next
    case True
    show ?thesis
    proof (cases "leaf_seg [] ?n = []")
      case l: True
      then have "is_dir (fst x)" using plain by blast
      then show ?thesis
        using True l dir olddir tree_of_self [OF c] segs_leaf(2) [OF l]
        by (cases "tree_of xs (segs_of x)") (auto simp: put_path_def Let_def put_dirs_def entry_type_def)
    next
      case l: False
      have "?t (segs_of x) = tree_of xs (segs_of x)" using segs_leaf(1) [OF l] by (auto simp: put_dirs_def)
      then show ?thesis
        using True l dir plain olddir tree_of_self [OF c]
        by (cases "tree_of xs (segs_of x)") (auto simp: put_path_def Let_def put_leaf_def entry_type_def)
    qed
  qed
qed

section \<open>Reading an archive\<close>

lemma follow_heap: "follow n p (s\<lparr>NextPtr := a, HeapLeft := b\<rparr>) = follow n p s"
  by (induction p arbitrary: n) (auto simp: find_child_def split: option.split)

lemma kmalloc_view:
  assumes "0 < HeapLeft s" "tree_ok s"
  shows "\<exists>p s'. kmalloc s = (p, s') \<and> p \<noteq> 0 \<and> tree_ok s' \<and> RamFS_Root s' = RamFS_Root s \<and> node_at s' = node_at s \<and>
           kids s' = kids s \<and> HeapLeft s' = HeapLeft s - 1"
proof -
  have "tree_ok (s\<lparr>NextPtr := NextPtr s + 1, HeapLeft := HeapLeft s - 1\<rparr>)"
    unfolding tree_ok_def follow_heap using tree_ok_root [OF assms(2)] tree_ok_inj [OF assms(2) refl]
    by (auto dest!: tree_ok_child [OF assms(2)])
  then show ?thesis using assms tree_ok_root [OF assms(2)]
    by (auto simp: kmalloc_def node_at_def kids_def fun_eq_iff follow_heap Let_def)
qed

lemma cpio_read_trailer:
  assumes at: "holds_at buf (unat Off) (entry_bytes e)" and ok: "entry_ok e" and al: "4 dvd unat Off"
    and len: "length buf = unat Len" "unat Len + 3 < 2 ^ 32" and nt: "ceName e = ''TRAILER!!!''"
  shows "cpio_read buf Len Off = CpioStop"
proof -
  note f = entry_fields [OF at ok]
  have "entry_bytes e \<noteq> []" by (simp add: entry_bytes_def)
  then have total: "unat Off + 110 \<le> unat Len"
    using holds_at_length [OF at] by (simp add: entry_length [OF ok] len(1))
  have Off: "CpioAlignUp Off 4 = Off"
    using unat_CpioAlignUp [of Off] pad4_add [OF al, of 0] total len(2) by (simp add: word_unat_eq_iff pad4_def)
  have "unat (Off + 110) = unat Off + 110" using total len(2) by (simp add: unat_word_ariths)
  moreover have "CpioParseHex buf (unat Off + 94) = 11" using CpioParseHex_hex8 [OF f(4)] nt by simp
  moreover have "matches_at buf (unat Off + 110) CpioTrailer"
    using matches_at_holds [OF f(5)] nt by (simp add: CpioTrailer_def)
  ultimately show ?thesis unfolding cpio_read_def Let_def Off by simp
qed

lemma consistent_append: "consistent (xs @ ys) \<Longrightarrow> consistent xs"
  by (auto simp: consistent_def list_all_iff)

lemma consistent_no_file:
  assumes "consistent (xs @ y # ys)" "tree_of xs q = Some v" "prefix q (dirs_of y)"
  shows "fst v = RamFSNode_Directory"
proof (rule ccontr)
  assume "fst v \<noteq> RamFSNode_Directory"
  then obtain x where "x \<in> set xs" "\<not> is_dir (fst x)" "segs_of x = q"
    using tree_of_file [OF consistent_append [OF assms(1)] assms(2)] by blast
  then show False using assms(1,3) by (auto simp: consistent_def list_all_iff)
qed

text \<open>Heap blocks used: one for the path, two for each name.\<close>

definition blocks_for :: "cpio_entry list \<Rightarrow> nat" where
  "blocks_for es = sum_list (map (\<lambda>e. 1 + 2 * length (path_segs (ceName e))) es)"

lemma mount_loop_step:
  assumes "holds_at buf off (entry_bytes e)" "entry_ok e" "4 dvd off" "ceName e \<noteq> ''TRAILER!!!''"
    and "length buf = unat Len" "unat Len + 3 < 2 ^ 32"
    and "tree_ok s" "node_at s = tree_of xs" "consistent (xs @ (e, data_at buf off e) # ys)"
    and "\<And>q. kids s q < 64" "1 + 2 * length (path_segs (ceName e)) \<le> HeapLeft s"
  shows "\<exists>s'. mount_loop buf Len (RamFS_Root s) (word_of_nat off) s =
                mount_loop buf Len (RamFS_Root s) (word_of_nat (off + length (entry_bytes e))) s' \<and>
              tree_ok s' \<and> RamFS_Root s' = RamFS_Root s \<and> node_at s' = tree_of (xs @ [(e, data_at buf off e)]) \<and>
              HeapLeft s \<le> HeapLeft s' + (1 + 2 * length (path_segs (ceName e))) \<and> (\<forall>q. kids s' q \<le> kids s q + 1)"
proof -
  let ?x = "(e, data_at buf off e)"
  have "off + length (entry_bytes e) \<le> unat Len" "6 \<le> length (entry_bytes e)"
    using holds_at_length [OF assms(1)] assms(5) entry_length [OF assms(2)] by (auto simp: entry_bytes_def)
  then have u: "unat (word_of_nat off :: u32) = off" "(word_of_nat off :: u32) + 6 \<le> Len"
    using assms(6) unat_of_nat_u32 [of off] by (auto simp: word_le_nat_alt unat_word_ariths)
  obtain p s1 where k: "kmalloc s = (p, s1)" "p \<noteq> 0" "tree_ok s1" "RamFS_Root s1 = RamFS_Root s" "node_at s1 = node_at s"
    "kids s1 = kids s" "HeapLeft s1 = HeapLeft s - 1"
    using kmalloc_view [OF _ assms(7)] assms(11) by auto
  have "path_fits (ceName e) s1"
    using assms(8,10,11) k consistent_no_file [OF assms(9)] by (auto simp: path_fits_def)
  from RamFSAttachPath_done [OF k(3) this, of "entry_type e" "data_at buf off e" "size_of ?x"] obtain c s2 where
    a: "RamFSAttachPath (RamFS_Root s) (Some (CHR ''/'' # ceName e)) (entry_type e) (data_at buf off e) (size_of ?x) s1 = (c, s2)"
    "attach_done (ceName e) (entry_type e) (data_at buf off e) (size_of ?x) s1 c s2" using k(4) by auto
  have "consistent (xs @ [?x])" using assms(9) consistent_append [of "xs @ [?x]" ys] by simp
  from put_path_tree [OF this] have "node_at s2 = tree_of (xs @ [?x])"
    using a(2) assms(8) k(5) by (simp add: attach_done_def)
  moreover have "cpio_read buf Len (word_of_nat off) =
      CpioEntry (entry_type e) (data_at buf off e) (size_of ?x) (ceName e) (word_of_nat (off + length (entry_bytes e)))"
    using cpio_read_entry [of buf "word_of_nat off" e Len, unfolded u(1)] assms(1-6) by (simp add: data_at_def)
  then have "mount_loop buf Len (RamFS_Root s) (word_of_nat off) s =
      mount_loop buf Len (RamFS_Root s) (word_of_nat (off + length (entry_bytes e))) s2"
    using u k(1,2) a(1) by (subst mount_loop.simps) simp
  ultimately show ?thesis using a(2) k assms(11) by (auto simp: attach_done_def)
qed

definition archive :: "cpio_entry list \<Rightarrow> cpio_entry \<Rightarrow> string \<Rightarrow> string" where
  "archive es tr rest = concat (map entry_bytes es) @ entry_bytes tr @ rest"

definition archive_ok :: "cpio_entry list \<Rightarrow> cpio_entry \<Rightarrow> string \<Rightarrow> bool" where
  "archive_ok es tr rest \<longleftrightarrow>
     list_all (\<lambda>e. entry_ok e \<and> ceName e \<noteq> ''TRAILER!!!'') es \<and> entry_ok tr \<and> ceName tr = ''TRAILER!!!'' \<and>
     length (archive es tr rest) + 3 < 2 ^ 32 \<and> consistent (place (archive es tr rest) 0 es) \<and> length es \<le> 64"

lemma mount_loop_stop:
  assumes "holds_at buf off (entry_bytes e)" "entry_ok e" "4 dvd off" "ceName e = ''TRAILER!!!''"
    and "length buf = unat Len" "unat Len + 3 < 2 ^ 32"
  shows "mount_loop buf Len Root (word_of_nat off) s = Some (RamFS_Root s, s)"
proof -
  have "off + length (entry_bytes e) \<le> unat Len" using holds_at_length [OF assms(1)] assms(5) by (auto simp: entry_bytes_def)
  then have "unat (word_of_nat off :: u32) = off" using assms(6) unat_of_nat_u32 [of off] by simp
  then have "cpio_read buf Len (word_of_nat off) = CpioStop"
    using cpio_read_trailer [of buf "word_of_nat off" e Len] assms by simp
  then show ?thesis by (subst mount_loop.simps) simp
qed

lemma mount_loop_entries:
  assumes "buf = pre @ archive es tr rest" "length pre = off" "4 dvd off" "length buf = unat Len" "unat Len + 3 < 2 ^ 32"
    and "list_all (\<lambda>e. entry_ok e \<and> ceName e \<noteq> ''TRAILER!!!'') es" "entry_ok tr" "ceName tr = ''TRAILER!!!''"
    and "tree_ok s" "node_at s = tree_of xs" "consistent (xs @ place buf off es)"
    and "\<And>q. kids s q + length es \<le> 64" "blocks_for es \<le> HeapLeft s"
  shows "\<exists>s'. mount_loop buf Len (RamFS_Root s) (word_of_nat off) s = Some (RamFS_Root s, s') \<and> tree_ok s' \<and>
              RamFS_Root s' = RamFS_Root s \<and> node_at s' = tree_of (xs @ place buf off es) \<and>
              HeapLeft s \<le> HeapLeft s' + blocks_for es"
  using assms
proof (induction es arbitrary: pre off s xs)
  case Nil
  have "holds_at buf off (entry_bytes tr)" using Nil.prems(1,2) holds_at_here [of pre] by (auto simp: archive_def)
  from mount_loop_stop [OF this Nil.prems(7,3,8,4,5)] show ?case by (intro exI [of _ s]) (use Nil.prems(9-11) in simp)
next
  case (Cons e es)
  let ?x = "(e, data_at buf off e)" and ?off = "off + length (entry_bytes e)"
  have at: "holds_at buf off (entry_bytes e)"
    using Cons.prems(1,2) holds_at_here [of pre "entry_bytes e"] by (auto simp: archive_def)
  have e: "entry_ok e" "ceName e \<noteq> ''TRAILER!!!''" using Cons.prems(6) by auto
  have c: "consistent (xs @ ?x # place buf ?off es)" using Cons.prems(11) by simp
  have room: "kids s q < 64" "1 + 2 * length (path_segs (ceName e)) \<le> HeapLeft s" for q
    using Cons.prems(12) [of q] Cons.prems(13) by (auto simp: blocks_for_def)
  obtain s1 where s1: "mount_loop buf Len (RamFS_Root s) (word_of_nat off) s = mount_loop buf Len (RamFS_Root s) (word_of_nat ?off) s1"
      "tree_ok s1" "RamFS_Root s1 = RamFS_Root s" "node_at s1 = tree_of (xs @ [?x])"
      "HeapLeft s \<le> HeapLeft s1 + (1 + 2 * length (path_segs (ceName e)))" "\<And>q. kids s1 q \<le> kids s q + 1"
    using mount_loop_step [OF at e(1) Cons.prems(3) e(2) Cons.prems(4,5,9,10) c room] by blast
  have "\<exists>s'. mount_loop buf Len (RamFS_Root s1) (word_of_nat ?off) s1 = Some (RamFS_Root s1, s') \<and> tree_ok s' \<and>
              RamFS_Root s' = RamFS_Root s1 \<and> node_at s' = tree_of ((xs @ [?x]) @ place buf ?off es) \<and>
              HeapLeft s1 \<le> HeapLeft s' + blocks_for es"
  proof (rule Cons.IH [of "pre @ entry_bytes e"])
    show "kids s1 q + length es \<le> 64" for q using s1(6) [of q] Cons.prems(12) [of q] by simp
    show "4 dvd ?off" by (rule dvd_add [OF Cons.prems(3) entry_dvd [OF e(1)]])
    show "blocks_for es \<le> HeapLeft s1" using s1(5) Cons.prems(13) by (simp add: blocks_for_def)
  qed (use Cons.prems s1 c in \<open>auto simp: archive_def\<close>)
  then show ?case using s1 by (auto simp: blocks_for_def)
qed

text \<open>The state before the first mount.\<close>

definition ramfs_fresh :: "'z ramfs_scheme \<Rightarrow> bool" where
  "ramfs_fresh s \<longleftrightarrow> RamFS_Root s = 0 \<and> 0 < NextPtr s \<and> (\<forall>n. Children (RNodes s n) = [])"

lemma RamFSEnsureRoot_fresh:
  assumes "ramfs_fresh s" "0 < HeapLeft s"
  shows "\<exists>r s'. RamFSEnsureRoot s = (r, s') \<and> r \<noteq> 0 \<and> r = RamFS_Root s' \<and> tree_ok s' \<and> node_at s' = tree_of [] \<and>
           (\<forall>q. kids s' q = 0) \<and> HeapLeft s' = HeapLeft s - 1"
proof -
  let ?n = "\<lparr>rNext = 0, Children = [], rName = ''/'', rType = RamFSNode_Directory, rSize = 0, rData = [], rMagic = RamFSNodeMagic\<rparr>"
  let ?s = "s\<lparr>NextPtr := NextPtr s + 1, HeapLeft := HeapLeft s - 1, RNodes := (RNodes s)(NextPtr s := ?n), RamFS_Root := NextPtr s\<rparr>"
  have e: "RamFSEnsureRoot s = (NextPtr s, ?s)"
    using assms by (simp add: RamFSEnsureRoot_def ramfs_fresh_def RamFSCreateNode_def kmalloc_def)
  have ch: "Children (RNodes ?s n) = []" for n using assms(1) by (simp add: ramfs_fresh_def)
  have f: "follow (NextPtr s) p ?s = (if p = [] then NextPtr s else 0)" for p
    using ch by (cases p) (auto simp: find_child_def)
  have r: "RamFS_Root ?s = NextPtr s" "NextPtr ?s = NextPtr s + 1" "RNodes ?s (NextPtr s) = ?n" by simp_all
  have "tree_ok ?s" unfolding tree_ok_def r ch f using assms(1) by (auto simp: ramfs_fresh_def)
  moreover have "node_at ?s = tree_of []" "kids ?s q = 0" for q
    using assms(1) unfolding node_at_def kids_def r f Let_def ch by (auto simp: fun_eq_iff tree_of_def r ramfs_fresh_def)
  ultimately show ?thesis using e assms(1) by (auto simp: ramfs_fresh_def)
qed

lemma RamFSMount_tree:
  assumes "archive_ok es tr rest" "ramfs_fresh s" "1 + blocks_for es \<le> HeapLeft s"
  defines "buf \<equiv> archive es tr rest"
  shows "\<exists>s'. RamFSMount (Some buf) (word_of_nat (length buf)) s = Some (RamFS_Root s', s') \<and> tree_ok s' \<and>
              node_at s' = tree_of (place buf 0 es) \<and> HeapLeft s \<le> HeapLeft s' + 1 + blocks_for es"
proof -
  obtain r s1 where r: "RamFSEnsureRoot s = (r, s1)" "r \<noteq> 0" "r = RamFS_Root s1" "tree_ok s1" "node_at s1 = tree_of []"
    "\<And>q. kids s1 q = 0" "HeapLeft s1 = HeapLeft s - 1"
    using RamFSEnsureRoot_fresh [OF assms(2)] assms(3) by auto
  have ok: "list_all (\<lambda>e. entry_ok e \<and> ceName e \<noteq> ''TRAILER!!!'') es" "entry_ok tr" "ceName tr = ''TRAILER!!!''"
    "length buf + 3 < 2 ^ 32" "consistent (place buf 0 es)" "length es \<le> 64"
    using assms(1) by (auto simp: archive_ok_def buf_def)
  have bn: "buf \<noteq> []" by (simp add: buf_def archive_def entry_bytes_def)
  have ne: "(word_of_nat (length buf) :: u64) \<noteq> 0"
  proof
    assume "(word_of_nat (length buf) :: u64) = 0"
    then show False using unat_word_of_nat64 [of "length buf"] ok(4) bn by simp
  qed
  have len: "unat (ucast (word_of_nat (length buf) :: u64) :: u32) = length buf"
    using ok(4) by (simp add: unsigned_ucast_eq unsigned_of_nat take_bit_nat_eq_self)
  have "\<exists>s'. mount_loop buf (ucast (word_of_nat (length buf) :: u64)) (RamFS_Root s1) (word_of_nat 0) s1 = Some (RamFS_Root s1, s') \<and>
          tree_ok s' \<and> RamFS_Root s' = RamFS_Root s1 \<and> node_at s' = tree_of ([] @ place buf 0 es) \<and> HeapLeft s1 \<le> HeapLeft s' + blocks_for es"
    by (rule mount_loop_entries [where pre = "[]" and tr = tr and rest = rest])
      (use ok r assms(3) len in \<open>auto simp: buf_def\<close>)
  then show ?thesis using r ne assms(3) by (auto simp: RamFSMount_def)
qed

lemma place_in:
  assumes "buf = pre @ archive es tr rest" "length pre = off" "e \<in> set es" "list_all entry_ok es"
  shows "\<exists>d. (e, d) \<in> set (place buf off es) \<and> (\<not> is_dir e \<longrightarrow> take (length (ceData e)) d = ceData e)"
  using assms
proof (induction es arbitrary: pre off)
  case (Cons f es)
  show ?case
  proof (cases "e = f")
    case True
    have "holds_at buf off (entry_bytes f)"
      using Cons.prems(1,2) holds_at_here [of pre "entry_bytes f"] by (auto simp: archive_def)
    from entry_fields(6) [OF this] show ?thesis using True Cons.prems(4) by (auto simp: data_at_def holds_at_def)
  next
    case False
    then show ?thesis using Cons.IH [of "pre @ entry_bytes f" "off + length (entry_bytes f)"] Cons.prems by (auto simp: archive_def)
  qed
qed simp

lemma tree_of_in:
  assumes "consistent xs" "x \<in> set xs"
  shows "tree_of xs (segs_of x) = Some (entry_type (fst x), size_of x, snd x)"
proof -
  obtain as bs where xs: "xs = as @ x # bs" using assms(2) by (meson split_list)
  then have "consistent (as @ [x])" using assms(1) consistent_append [of "as @ [x]" bs] by simp
  from consistent_new [OF this] show ?thesis by (simp add: tree_of_def xs find_append)
qed

text \<open>Queries by path, from what is stored there.\<close>

lemma queries_node_at:
  assumes "tree_ok s" "node_at s (path_segs n) = Some (ty, sz, d)"
  shows "RamFSIsDir (Some (CHR ''/'' # n)) s = (if ty = RamFSNode_Directory then 1 else 0)"
    and "ty = RamFSNode_File \<Longrightarrow> RamFSReadFile (Some (CHR ''/'' # n)) True s = (ucast sz, map (img d) [0..<unat sz])"
proof -
  have root: "RamFS_Root s \<noteq> 0" using tree_ok_root [OF assms(1)] by simp
  obtain c where c: "follow (RamFS_Root s) (path_segs n) s = c" "c \<noteq> 0" "rType (RNodes s c) = ty" "rSize (RNodes s c) = sz" "rData (RNodes s c) = d"
    using assms(2) by (auto simp: node_at_def Let_def split: if_splits)
  show "RamFSIsDir (Some (CHR ''/'' # n)) s = (if ty = RamFSNode_Directory then 1 else 0)"
    using root c by (simp add: RamFSIsDir_def RamFSLookup_follow Let_def)
  have "unat (ucast sz :: u64) = unat sz" using unsigned_less [where 'a = nat, of sz] by (simp add: unsigned_ucast_eq take_bit_nat_eq_self)
  then show "RamFSReadFile (Some (CHR ''/'' # n)) True s = (ucast sz, map (img d) [0..<unat sz])" if "ty = RamFSNode_File"
    using root c that by (auto simp: RamFSReadFile_def RamFSLookup_follow RamFSRead_def Let_def word_le_nat_alt unat_eq_zero)
qed

lemma map_img_take: "length t \<le> length d \<Longrightarrow> map (img d) [0..<length t] = take (length t) d"
  by (rule nth_equalityI) (auto simp: img_def)

lemma RamFSMount_entries:
  assumes "archive_ok es tr rest" "ramfs_fresh s" "1 + blocks_for es \<le> HeapLeft s" "e \<in> set es"
  defines "buf \<equiv> archive es tr rest" and "path \<equiv> Some (CHR ''/'' # ceName e)"
  shows "\<exists>s'. RamFSMount (Some buf) (word_of_nat (length buf)) s = Some (RamFS_Root s', s') \<and> RamFS_Root s' \<noteq> 0 \<and>
           (if is_dir e then RamFSIsDir path s' = 1
            else RamFSReadFile path True s' = (word_of_nat (length (ceData e)), ceData e))"
proof -
  obtain s' where s': "RamFSMount (Some buf) (word_of_nat (length buf)) s = Some (RamFS_Root s', s')" "tree_ok s'"
    "node_at s' = tree_of (place buf 0 es)"
    using RamFSMount_tree [OF assms(1-3)] unfolding buf_def by blast
  have ok: "consistent (place buf 0 es)" "list_all entry_ok es" "length buf + 3 < 2 ^ 32"
    using assms(1) by (auto simp: archive_ok_def buf_def list_all_iff)
  obtain d where d: "(e, d) \<in> set (place buf 0 es)" "\<not> is_dir e \<Longrightarrow> take (length (ceData e)) d = ceData e"
    using place_in [of buf "[]" es tr rest 0 e] assms(4) ok(2) by (auto simp: buf_def)
  have n: "node_at s' (path_segs (ceName e)) = Some (entry_type e, word_of_nat (length (ceData e)), d)"
    using tree_of_in [OF ok(1) d(1)] s'(3) by simp
  have "length (entry_bytes e) \<le> length buf"
    using assms(4) by (auto simp: buf_def archive_def dest!: split_list)
  moreover have "length (ceData e) \<le> length (entry_bytes e)" by (simp add: entry_bytes_def)
  ultimately have len: "length (ceData e) < 2 ^ 32" using ok(3) by linarith
  then have sz: "unat (word_of_nat (length (ceData e)) :: u32) = length (ceData e)" by (rule unat_of_nat_u32)
  have uc: "ucast (word_of_nat (length (ceData e)) :: u32) = (word_of_nat (length (ceData e)) :: u64)"
    using len by (simp add: word_unat_eq_iff unsigned_ucast_eq unsigned_of_nat take_bit_nat_eq_self)
  have "length (ceData e) \<le> length d" if "\<not> is_dir e" using arg_cong [OF d(2) [OF that], of length] by simp
  then show ?thesis
    using s'(1) tree_ok_root [OF s'(2)] queries_node_at [OF s'(2) n] sz uc d(2) map_img_take [of "ceData e" d]
    by (auto simp: entry_type_def path_def)
qed

section \<open>Mounting an archive\<close>

definition demo_ramfs :: ramfs where
  "demo_ramfs = \<lparr>NextPtr = 1, HeapLeft = 100, CurCpu = 0,
     VfsLock = \<lparr>Mutex_Lock = 0, Owner = NoOwner, RecursionCount = 0, Mutex_Name = ''vfs-central''\<rparr>,
     FsReg = [], Mounts = [], RootNode = 0, RootDe = 0, Umask = 0,
     MaxName = 256, MaxPath = 1024, DirCacheLimit = 0, FileCacheLimit = 0, IoBlockSize = 0, DefaultFs = [],
     Vnodes = (\<lambda>_. \<lparr>vType = VNodeDIR, vOps = 1, vSb = 0, vPriv = 0, vRefcnt = 1\<rparr>),
     Dentries = (\<lambda>_. \<lparr>dName = ''/'', dParent = 0, dNode = 3, dFlags = 0\<rparr>),
     Files = (\<lambda>_. \<lparr>fNode = 0, fOffset = 0, fFlags = 0, fRefcnt = 0, fPriv = 0\<rparr>),
     Superblocks = (\<lambda>_. \<lparr>sbType = 0, sbDev = 0, sbFlags = 0, sbRoot = 0, sbOps = 0, sbPriv = 0\<rparr>),
     RNodes = (\<lambda>_. \<lparr>rNext = 0, Children = [], rName = [], rType = RamFSNode_File, rSize = 0, rData = [], rMagic = 0\<rparr>),
     RamFS_Root = 0, PrivNodes = (\<lambda>_. 0), PrivFiles = (\<lambda>_. \<lparr>pfNode = 0, pfOffset = 0\<rparr>)\<rparr>"

definition demo_entry :: "u32 \<Rightarrow> string \<Rightarrow> string \<Rightarrow> cpio_entry" where
  "demo_entry mode name data = \<lparr>ceIno = replicate 8 (CHR ''0''), ceMode = mode, ceOwner = replicate 32 (CHR ''0''),
     ceDev = replicate 32 (CHR ''0''), ceCheck = replicate 8 (CHR ''0''), ceName = name, ceData = data\<rparr>"

definition demo_entries :: "cpio_entry list" where
  "demo_entries = [demo_entry 0x41ED ''etc'' [], demo_entry 0x81A4 ''etc/motd'' ''hello'']"

definition demo_trailer :: cpio_entry where "demo_trailer = demo_entry 0 ''TRAILER!!!'' []"

lemma demo_fresh: "ramfs_fresh demo_ramfs"
  by (simp add: ramfs_fresh_def demo_ramfs_def)

lemma demo_blocks: "1 + blocks_for demo_entries \<le> HeapLeft demo_ramfs"
  by (simp add: blocks_for_def demo_entries_def demo_entry_def demo_ramfs_def path_segs_def leaf_list_def)

lemma demo_consistent: "consistent [(demo_entry 0x41ED ''etc'' [], []), (demo_entry 0x81A4 ''etc/motd'' ''hello'', d)]"
  by (simp add: consistent_def demo_entry_def path_segs_def leaf_list_def is_dir_def)

lemma demo_entry_ok:
  "CHR 0x00 \<notin> set name \<Longrightarrow> (ceMode (demo_entry mode name data) AND 0xF000 = 0x4000 \<longrightarrow> data = []) \<Longrightarrow>
   entry_ok (demo_entry mode name data)"
  by (simp add: entry_ok_def demo_entry_def is_dir_def)

lemma demo_archive_ok: "archive_ok demo_entries demo_trailer []"
proof -
  have ok: "entry_ok (demo_entry 0x41ED ''etc'' [])" "entry_ok (demo_entry 0x81A4 ''etc/motd'' ''hello'')" "entry_ok demo_trailer"
    unfolding demo_trailer_def by (rule demo_entry_ok; simp add: demo_entry_def)+
  have n: "ceName (demo_entry m x d) = x" "ceData (demo_entry m x d) = d" for m x d by (simp_all add: demo_entry_def)
  have "length (archive demo_entries demo_trailer []) = 368"
    using ok entry_length by (simp add: archive_def demo_entries_def n pad4_def demo_trailer_def)
  then show ?thesis
    unfolding archive_ok_def using ok demo_consistent
    by (simp add: demo_entries_def n data_at_def is_dir_def [of "demo_entry 0x41ED ''etc'' []"]) (simp add: demo_trailer_def demo_entry_def)
qed

text \<open>C8: the boot image round trip. For every well-formed cpio archive of at most 64 entries (no two
  with one path, no file above another entry) mounted into an empty tree with enough heap,
  \<^verbatim>\<open>RamFSMount\<close> ends, returns the root, and afterwards every directory entry is a directory and reading
  every file by its path gives its size and exactly the archived bytes.\<close>

theorem RamFSMount_archive:
  assumes "archive_ok es tr rest" "ramfs_fresh s" "1 + blocks_for es \<le> HeapLeft s"
  shows "\<exists>s'. RamFSMount (Some (archive es tr rest)) (word_of_nat (length (archive es tr rest))) s = Some (RamFS_Root s', s') \<and>
           RamFS_Root s' \<noteq> 0 \<and>
           (\<forall>e \<in> set es.
              if is_dir e then RamFSIsDir (Some (CHR ''/'' # ceName e)) s' = 1
              else RamFSReadFile (Some (CHR ''/'' # ceName e)) True s' = (word_of_nat (length (ceData e)), ceData e))"
proof -
  obtain s' where s': "RamFSMount (Some (archive es tr rest)) (word_of_nat (length (archive es tr rest))) s = Some (RamFS_Root s', s')"
    "tree_ok s'" using RamFSMount_tree [OF assms] by blast
  have e: "if is_dir e then RamFSIsDir (Some (CHR ''/'' # ceName e)) s' = 1
              else RamFSReadFile (Some (CHR ''/'' # ceName e)) True s' = (word_of_nat (length (ceData e)), ceData e)"
    if "e \<in> set es" for e
    using RamFSMount_entries [OF assms that] unfolding s'(1) option.inject prod.inject by blast
  show ?thesis using s'(1) tree_ok_root [OF s'(2)] e by (intro exI [of _ s'] conjI ballI) auto
qed

theorem RamFSMount_archive_witness:
  "\<exists>s'. RamFSMount (Some (archive demo_entries demo_trailer [])) (word_of_nat (length (archive demo_entries demo_trailer [])))
          demo_ramfs = Some (RamFS_Root s', s') \<and>
        RamFSReadFile (Some ''/etc/motd'') True s' = (5, ''hello'')"
proof -
  let ?e = "demo_entry 0x81A4 ''etc/motd'' ''hello''"
  obtain s' where s': "RamFSMount (Some (archive demo_entries demo_trailer []))
      (word_of_nat (length (archive demo_entries demo_trailer []))) demo_ramfs = Some (RamFS_Root s', s')"
    "\<forall>e \<in> set demo_entries.
       if is_dir e then RamFSIsDir (Some (CHR ''/'' # ceName e)) s' = 1
       else RamFSReadFile (Some (CHR ''/'' # ceName e)) True s' = (word_of_nat (length (ceData e)), ceData e)"
    using RamFSMount_archive [OF demo_archive_ok demo_fresh demo_blocks] by blast
  moreover have "?e \<in> set demo_entries" "\<not> is_dir ?e" "ceName ?e = ''etc/motd''" "ceData ?e = ''hello''"
    by (simp_all add: demo_entries_def is_dir_def demo_entry_def)
  ultimately have "RamFSReadFile (Some ''/etc/motd'') True s' = (5, ''hello'')" by fastforce
  then show ?thesis using s'(1) by blast
qed

section \<open>Operations on a mounted tree\<close>

lemma demo_root:
  "\<exists>r s. RamFSEnsureRoot demo_ramfs = (r, s) \<and> tree_ok s \<and> RamFS_Root s = r \<and> path_fits ''bin/sh'' s"
proof -
  obtain r s where s: "RamFSEnsureRoot demo_ramfs = (r, s)" "r \<noteq> 0" "r = RamFS_Root s" "tree_ok s" "node_at s = tree_of []"
    "\<forall>q. kids s q = 0" "HeapLeft s = HeapLeft demo_ramfs - 1"
    using RamFSEnsureRoot_fresh [OF demo_fresh] by (auto simp: demo_ramfs_def)
  have "HeapLeft s = 99" using s(7) by (simp add: demo_ramfs_def)
  then have "path_fits ''bin/sh'' s"
    using s(5,6) by (auto simp: path_fits_def path_segs_def leaf_list_def tree_of_def split: if_splits)
  then show ?thesis using s by blast
qed

text \<open>C25: \<^verbatim>\<open>RamFSAttachPath\<close> refines insertion into a map from paths. When no file stands in the way, every
  directory has a free entry and the heap lasts, it returns a node that \<^verbatim>\<open>RamFSLookup\<close> of the same path
  then finds, the tree stays well formed, and the map from paths to contents changes exactly as \<open>put_path\<close>
  says: missing parents become directories, the leaf gets the type, size and data, nothing else changes.\<close>

theorem RamFSAttachPath_refines:
  assumes "tree_ok s" "path_fits r s"
  shows "\<exists>c s'. RamFSAttachPath (RamFS_Root s) (Some (CHR ''/'' # r)) Ty Data Size s = (c, s') \<and> c \<noteq> 0 \<and> tree_ok s' \<and>
           RamFSLookup (RamFS_Root s') (Some (CHR ''/'' # r)) s' = c \<and>
           node_at s' = put_path r Ty Data Size (node_at s)"
  using RamFSAttachPath_done [OF assms, of Ty Data Size] by (auto simp: attach_done_def)

theorem RamFSAttachPath_refines_witness:
  "\<exists>r s c s'. RamFSEnsureRoot demo_ramfs = (r, s) \<and>
     RamFSAttachPath r (Some ''/bin/sh'') RamFSNode_File ''ELF'' 3 s = (c, s') \<and> c \<noteq> 0 \<and>
     RamFSLookup (RamFS_Root s') (Some ''/bin/sh'') s' = c"
  using demo_root RamFSAttachPath_refines [where r = "''bin/sh''" and Ty = RamFSNode_File and Data = "''ELF''" and Size = 3]
  by metis

text \<open>A new entry can be made in the root directory only. \<^verbatim>\<open>RamVfsCreate\<close> and \<^verbatim>\<open>RamVfsMkdir\<close> join the bare
  name of the directory's node, not its path, with the new name; below the root that path does not start
  with a slash, so both report failure and no node is created, for every name.\<close>

theorem RamVfsCreate_below_root_fails:
  assumes "rName (RNodes s (PrivNodes s (vPriv (Vnodes s Dir)))) = c # cs" "c \<noteq> CHR ''/''"
  shows "fst (RamVfsCreate Dir Name fl pm s) = -1 \<and> RNodes (snd (RamVfsCreate Dir Name fl pm s)) = RNodes s \<and>
         fst (RamVfsMkdir Dir Name pm s) = -1 \<and> RNodes (snd (RamVfsMkdir Dir Name pm s)) = RNodes s"
  using assms
  by (auto simp: RamVfsCreate_def RamVfsMkdir_def make_entry_def Let_def RamFSJoinPath_def kmalloc_def kfree_def
      RamFSAttachPath_def split: prod.split)

definition demo_dir :: ramfs where
  "demo_dir = demo_ramfs\<lparr>
     RNodes := (RNodes demo_ramfs)(7 := \<lparr>rNext = 0, Children = [], rName = ''etc'', rType = RamFSNode_Directory, rSize = 0, rData = [], rMagic = 0\<rparr>),
     PrivNodes := (\<lambda>_. 7), Vnodes := (\<lambda>_. \<lparr>vType = VNodeDIR, vOps = 1, vSb = 0, vPriv = 3, vRefcnt = 1\<rparr>)\<rparr>"

theorem RamVfsCreate_below_root_fails_witness:
  "fst (RamVfsCreate 5 ''motd'' 0 \<lparr>Mode = 0, Uid = 0, Gid = 0\<rparr> demo_dir) = -1"
proof -
  have "rName (RNodes demo_dir (PrivNodes demo_dir (vPriv (Vnodes demo_dir 5)))) = CHR ''e'' # ''tc''"
    by (simp add: demo_dir_def)
  from RamVfsCreate_below_root_fails [OF this] show ?thesis by simp
qed

text \<open>An open file: its private object names a file node and carries the position.\<close>

definition open_file :: "nat \<Rightarrow> nat \<Rightarrow> 'z ramfs_scheme \<Rightarrow> bool" where
  "open_file F n s \<longleftrightarrow>
     F \<noteq> 0 \<and> fNode (Files s F) \<noteq> 0 \<and> vOps (Vnodes s (fNode (Files s F))) = 1 \<and> fPriv (Files s F) \<noteq> 0 \<and>
     pfNode (PrivFiles s (fPriv (Files s F))) = n \<and> n \<noteq> 0 \<and> rType (RNodes s n) = RamFSNode_File"

lemma unat_of_long: "0 \<le> i \<Longrightarrow> i < 2 ^ 63 \<Longrightarrow> unat (word_of_int i :: u64) = nat i"
  by (simp add: unsigned_of_int take_bit_int_eq_self flip: nat_uint_eq)

lemma unat_ucast_u32: "unat (ucast (w :: u32) :: u64) = unat w"
  using unsigned_less [where 'a = nat, of w] by (simp add: unsigned_ucast_eq take_bit_nat_eq_self)

lemma read_len:
  "0 \<le> off \<Longrightarrow> off < int z \<Longrightarrow> 0 < Len \<Longrightarrow>
   (if z - nat off < nat Len then z - nat off else nat Len) = nat (min Len (int z - off))"
  by (auto simp: min_def)

lemma RamFSRead_bytes:
  assumes "n \<noteq> 0" "rType (RNodes s n) = RamFSNode_File" "0 \<le> off" "off < int (unat (rSize (RNodes s n)))" "0 < Len" "Len < 2 ^ 63"
  defines "k \<equiv> min Len (int (unat (rSize (RNodes s n))) - off)"
  shows "\<exists>g. RamFSRead n (word_of_int off) True (word_of_int Len) s =
           (g, map (\<lambda>i. img (rData (RNodes s n)) (nat off + i)) [0..<nat k]) \<and> unat g = nat k \<and> 0 < g"
proof -
  let ?sz = "rSize (RNodes s n)"
  have small: "off < 2 ^ 63" using assms(4) unsigned_less [where 'a = int, of ?sz] by simp
  have o: "unat (word_of_int off :: u64) = nat off" using unat_of_long [OF assms(3) small] by simp
  have l: "unat (word_of_int Len :: u64) = nat Len" using unat_of_long [of Len] assms(5,6) by simp
  have "nat off < unat ?sz" using assms(3,4) by (simp only: nat_less_iff)
  then have le: "\<not> ucast ?sz \<le> (word_of_int off :: u64)" by (simp add: word_le_nat_alt o unat_ucast_u32)
  have av: "unat (ucast ?sz - word_of_int off :: u64) = unat ?sz - nat off"
    using le by (subst unat_sub) (simp_all add: o unat_ucast_u32)
  have lt: "(ucast ?sz - word_of_int off :: u64) < word_of_int Len \<longleftrightarrow> unat ?sz - nat off < nat Len"
    by (simp add: word_less_nat_alt av l)
  have g: "unat (if (ucast ?sz - word_of_int off :: u64) < word_of_int Len then ucast ?sz - word_of_int off else word_of_int Len :: u64) = nat k"
    unfolding lt if_distrib [of unat] av l k_def by (rule read_len [OF assms(3-5)])
  moreover have "0 < k" using assms(4,5) by (simp add: k_def)
  ultimately show ?thesis using le assms(1,2) o
    by (intro exI [of _ "if (ucast ?sz - word_of_int off :: u64) < word_of_int Len then ucast ?sz - word_of_int off else word_of_int Len"])
      (auto simp: RamFSRead_def Let_def word_gt_0 unat_eq_zero [symmetric] simp del: unat_eq_zero)
qed

lemma VfsRead_ram_file:
  assumes "lock_idle s" "open_file F n s" "0 < Len" "Len < 2 ^ 63"
    and "0 \<le> pfOffset (PrivFiles s (fPriv (Files s F)))" "pfOffset (PrivFiles s (fPriv (Files s F))) < int (unat (rSize (RNodes s n)))"
  defines "off \<equiv> pfOffset (PrivFiles s (fPriv (Files s F)))"
  defines "k \<equiv> min Len (int (unat (rSize (RNodes s n))) - off)"
  shows "\<exists>t. VfsRead (ram_tables T) F True Len s =
             Some ((k, map (\<lambda>i. img (rData (RNodes s n)) (nat off + i)) [0..<nat k]), t) \<and>
           pfOffset (PrivFiles t (fPriv (Files t F))) = off + k \<and> fOffset (Files t F) = fOffset (Files s F) + 2 * k \<and>
           lock_idle t"
proof -
  obtain m where m: "vfs_acquire s = Some (s\<lparr>VfsLock := m\<rparr>)" "lock_held 1 (s\<lparr>VfsLock := m\<rparr>)"
    using acquire_idle [OF assms(1)] by blast
  let ?s = "s\<lparr>VfsLock := m\<rparr>"
  have f: "F \<noteq> 0" "fNode (Files s F) \<noteq> 0" "vOps (Vnodes s (fNode (Files s F))) = 1" "fPriv (Files s F) \<noteq> 0"
    "pfNode (PrivFiles s (fPriv (Files s F))) = n" "n \<noteq> 0" "rType (RNodes s n) = RamFSNode_File"
    using assms(2) by (auto simp: open_file_def)
  have k: "0 < k" using assms(3,6) by (simp add: k_def off_def)
  obtain g where g: "RamFSRead n (word_of_int off) True (word_of_int Len) ?s =
       (g, map (\<lambda>i. img (rData (RNodes s n)) (nat off + i)) [0..<nat k])" "unat g = nat k" "0 < g"
    using RamFSRead_bytes [of n ?s off Len] f assms(3-6) by (auto simp: k_def off_def)
  have ops: "Option.bind (node_ops (ram_tables T) (fNode (Files s F)) ?s) op_Read = Some RamVfsRead"
    using f by (simp add: node_ops_def ram_tables_def RamVfsOps_def)
  let ?r = "?s\<lparr>PrivFiles := (PrivFiles s)(fPriv (Files s F) := (PrivFiles s (fPriv (Files s F)))\<lparr>pfOffset := off + k\<rparr>),
              Files := (Files s)(F := (Files s F)\<lparr>fOffset := fOffset (Files s F) + k\<rparr>)\<rparr>"
  have r: "RamVfsRead F Len ?s = ((k, map (\<lambda>i. img (rData (RNodes s n)) (nat off + i)) [0..<nat k]), ?r)"
    using f assms(3) g k unfolding RamVfsRead_def by (simp add: off_def Let_def)
  have "lock_idle (vfs_release (advance F k ?r))"
    using release_once [of "advance F k ?r"] m(2) by (simp add: lock_held_def advance_def)
  moreover have "VfsRead (ram_tables T) F True Len s =
      Some ((k, map (\<lambda>i. img (rData (RNodes s n)) (nat off + i)) [0..<nat k]), vfs_release (advance F k ?r))"
    using f assms(3) m(1) ops r by (simp add: VfsRead_def)
  ultimately show ?thesis using k by (auto simp: vfs_release_def advance_def)
qed

text \<open>C26: a read through the switch from a file of the RAM file system. It returns the smaller of the
  requested length and what is left, and exactly the bytes at the position of the private object; that
  position advances by the length read, but the offset in the \<^verbatim>\<open>File\<close> by twice that length, since both the file
  system and the switch add to it; the mutex is released.\<close>

theorem VfsRead_ramfs:
  assumes "lock_idle s" "open_file F n s" "0 < Len" "Len < 2 ^ 63"
    and "0 \<le> pfOffset (PrivFiles s (fPriv (Files s F)))" "pfOffset (PrivFiles s (fPriv (Files s F))) < int (unat (rSize (RNodes s n)))"
  defines "off \<equiv> pfOffset (PrivFiles s (fPriv (Files s F)))"
  defines "k \<equiv> min Len (int (unat (rSize (RNodes s n))) - off)"
  shows "\<exists>t. VfsRead (ram_tables T) F True Len s =
             Some ((k, map (\<lambda>i. img (rData (RNodes s n)) (nat off + i)) [0..<nat k]), t) \<and>
           pfOffset (PrivFiles t (fPriv (Files t F))) = off + k \<and> fOffset (Files t F) = fOffset (Files s F) + 2 * k \<and>
           lock_idle t"
  unfolding k_def off_def by (rule VfsRead_ram_file [OF assms(1-6)])

definition demo_open :: ramfs where
  "demo_open = demo_ramfs\<lparr>
     RNodes := (RNodes demo_ramfs)(7 := \<lparr>rNext = 0, Children = [], rName = ''motd'', rType = RamFSNode_File, rSize = 5, rData = ''hello'', rMagic = 0\<rparr>),
     PrivFiles := (\<lambda>_. \<lparr>pfNode = 7, pfOffset = 0\<rparr>),
     Files := (\<lambda>_. \<lparr>fNode = 4, fOffset = 0, fFlags = 0, fRefcnt = 1, fPriv = 3\<rparr>)\<rparr>"

definition demo_ram_tables :: "ramfs tables" where
  "demo_ram_tables = ram_tables \<lparr>VOps = (\<lambda>_. RamVfsOps), SOps = (\<lambda>_. RamVfsSuperOps), MountHooks = (\<lambda>_. RamFsMountImpl)\<rparr>"

theorem VfsRead_ramfs_witness:
  "\<exists>t. VfsRead demo_ram_tables 9 True 3 demo_open = Some ((3, ''hel''), t) \<and> fOffset (Files t 9) = 6"
proof -
  have "lock_idle demo_open" "open_file 9 7 demo_open"
    by (simp_all add: lock_idle_def open_file_def demo_open_def demo_ramfs_def)
  from VfsRead_ramfs [OF this, where Len = 3, of "\<lparr>VOps = (\<lambda>_. RamVfsOps), SOps = (\<lambda>_. RamVfsSuperOps), MountHooks = (\<lambda>_. RamFsMountImpl)\<rparr>", folded demo_ram_tables_def]
  moreover have "[0..<3] = [0, 1, 2 :: nat]" by (simp add: eval_nat_numeral)
  ultimately show ?thesis by (auto simp: demo_open_def img_def)
qed

end
