(* ===== verification/Walk.thy ===== *)
theory Walk
  imports VFS
begin

text \<open>
  The contract between the switch and a file system for \<^verbatim>\<open>Lookup\<close>, and what \<^verbatim>\<open>__walk__\<close> of
  \<^verbatim>\<open>Kernel/VFS/VFS.c\<close> makes of it.

  The locale \<open>vnode_lookup\<close> fixes the tables of a file system, the part of the state it keeps its
  objects in (\<open>store\<close>), the object behind a vnode (\<open>obj\<close>) and the child relation on objects. Its laws are
  what the source relies on when it calls \<^verbatim>\<open>Lookup\<close>: no vnode for a missing child, a live vnode of
  the child when the heap has \<open>cost\<close> blocks, and nothing else changed that the caller looks at. In it the walk
  is shown to reach exactly the object that the path names.
\<close>

section \<open>Paths as lists of names\<close>

function comps :: "string \<Rightarrow> string list" where
  "comps p = (if next_comp 256 p = [] then [] else next_comp 256 p # comps (after_comp p))"
  by pat_completeness auto
termination
  by (relation "measure length") (auto intro: next_comp_nonempty)

declare comps.simps [simp del]

fun walk_to :: "(nat \<Rightarrow> string \<Rightarrow> nat) \<Rightarrow> nat \<Rightarrow> string list \<Rightarrow> nat" where
  "walk_to child n [] = n"
| "walk_to child n (c # cs) = (if child n c = 0 then 0 else walk_to child (child n c) cs)"

text \<open>What an operation below the switch leaves alone.\<close>

definition same_switch :: "'z vfs_scheme \<Rightarrow> 'z vfs_scheme \<Rightarrow> bool" where
  "same_switch s s' \<longleftrightarrow> VfsLock s' = VfsLock s \<and> CurCpu s' = CurCpu s \<and> Mounts s' = Mounts s \<and>
     RootNode s' = RootNode s \<and> RootDe s' = RootDe s"

lemma same_switch_refl [simp]: "same_switch s s"
  and same_switch_trans [trans]: "same_switch s s' \<Longrightarrow> same_switch s' s'' \<Longrightarrow> same_switch s s''"
  by (simp_all add: same_switch_def)

section \<open>The contract\<close>

locale vnode_lookup =
  fixes T :: "'z vfs_scheme tables"
    and store :: "'z vfs_scheme \<Rightarrow> 'st"
    and obj :: "nat \<Rightarrow> 'z vfs_scheme \<Rightarrow> nat"
    and live :: "nat \<Rightarrow> 'z vfs_scheme \<Rightarrow> bool"
    and child :: "'st \<Rightarrow> nat \<Rightarrow> string \<Rightarrow> nat"
    and cost :: nat
  assumes lookup: "live v s \<Longrightarrow>
      \<exists>f w s'. Option.bind (node_ops T v s) op_Lookup = Some f \<and> f v name s = (w, s') \<and> same_switch s s' \<and>
        store s' = store s \<and>
        (child (store s) (obj v s) name = 0 \<longrightarrow> w = 0) \<and>
        (child (store s) (obj v s) name \<noteq> 0 \<and> cost \<le> HeapLeft s \<longrightarrow>
           w \<noteq> 0 \<and> live w s' \<and> obj w s' = child (store s) (obj v s) name \<and> HeapLeft s \<le> HeapLeft s' + cost)"
    and frame: "live v s \<Longrightarrow> NextPtr s \<le> a \<Longrightarrow>
      live v (s\<lparr>NextPtr := a, HeapLeft := b, Dentries := d\<rparr>) \<and> obj v (s\<lparr>NextPtr := a, HeapLeft := b, Dentries := d\<rparr>) = obj v s"
    and frame_store: "store (s\<lparr>NextPtr := a, HeapLeft := b, Dentries := d\<rparr>) = store s"
    and live_ptr: "live v s \<Longrightarrow> 0 < NextPtr s"
begin

lemma step:
  assumes "live v s" "cost + 2 \<le> HeapLeft s" "child (store s) (obj v s) name \<noteq> 0"
  shows "\<exists>f w s1 s2 De. Option.bind (node_ops T v s) op_Lookup = Some f \<and> f v name s = (w, s1) \<and> w \<noteq> 0 \<and>
     fst (kmalloc s1) \<noteq> 0 \<and> alloc_dentry nm par w (snd (kmalloc s1)) = (De, s2) \<and> De \<noteq> 0 \<and>
     dNode (Dentries s2 De) = w \<and> live w s2 \<and> obj w s2 = child (store s) (obj v s) name \<and> store s2 = store s \<and>
     same_switch s s2 \<and> HeapLeft s \<le> HeapLeft s2 + (cost + 2)"
proof -
  obtain f w s1 where f: "Option.bind (node_ops T v s) op_Lookup = Some f" "f v name s = (w, s1)" "same_switch s s1"
    "store s1 = store s" "w \<noteq> 0" "live w s1" "obj w s1 = child (store s) (obj v s) name" "HeapLeft s \<le> HeapLeft s1 + cost"
    using lookup [OF assms(1), of name] assms(2,3) by auto
  let ?De = "NextPtr s1 + 1"
  let ?d = "(Dentries s1)(?De := \<lparr>dName = nm, dParent = par, dNode = w, dFlags = 0\<rparr>)"
  let ?s2 = "s1\<lparr>NextPtr := NextPtr s1 + 2, HeapLeft := HeapLeft s1 - 2, Dentries := ?d\<rparr>"
  have h: "2 \<le> HeapLeft s1" "0 < NextPtr s1" using f(8) assms(2) live_ptr [OF f(6)] by auto
  then have k: "fst (kmalloc s1) \<noteq> 0" "alloc_dentry nm par w (snd (kmalloc s1)) = (?De, ?s2)"
    by (auto simp: kmalloc_def alloc_dentry_def Let_def)
  have "same_switch s ?s2" using f(3) by (simp add: same_switch_def)
  then show ?thesis
    using f h k frame [OF f(6), where a = "NextPtr s1 + 2" and b = "HeapLeft s1 - 2" and d = ?d] frame_store [where s = s1]
    by (intro exI [of _ f] exI [of _ w] exI [of _ s1] exI [of _ ?s2] exI [of _ ?De]) auto
qed

lemma walk_loop_missing:
  assumes "live Cur s" "(cost + 2) * length (comps p) \<le> HeapLeft s" "walk_to (child (store s)) (obj Cur s) (comps p) = 0" "obj Cur s \<noteq> 0"
  shows "fst (walk_loop T Cur Parent p s) = 0"
  using assms
proof (induction "length p" arbitrary: Cur Parent p s rule: less_induct)
  case less
  let ?c = "next_comp 256 p"
  have ne: "?c \<noteq> []" using less.prems(3,4) by (auto simp: comps.simps [of p] split: if_splits)
  then have p: "p \<noteq> []" by (auto simp: next_comp_def)
  have cs: "comps p = ?c # comps (after_comp p)" using ne by (simp add: comps.simps [of p])
  show ?case
  proof (cases "child (store s) (obj Cur s) ?c = 0")
    case True
    then show ?thesis using lookup [OF less.prems(1), of ?c] ne p by (subst walk_loop.simps) (auto simp: Let_def)
  next
    case False
    have h: "cost + 2 \<le> HeapLeft s" using less.prems(2) by (simp add: cs)
    obtain f w s1 s2 De where st: "Option.bind (node_ops T Cur s) op_Lookup = Some f" "f Cur ?c s = (w, s1)" "w \<noteq> 0"
      "fst (kmalloc s1) \<noteq> 0" "alloc_dentry ?c Parent w (snd (kmalloc s1)) = (De, s2)" "De \<noteq> 0" "live w s2"
      "obj w s2 = child (store s) (obj Cur s) ?c" "store s2 = store s" "HeapLeft s \<le> HeapLeft s2 + (cost + 2)"
      using step [OF less.prems(1) h False, of ?c Parent] by blast
    have "walk_loop T Cur Parent p s = walk_loop T w De (after_comp p) s2"
      using st ne p by (subst walk_loop.simps) (auto simp: Let_def split: prod.split)
    then show ?thesis
      using less.hyps [OF next_comp_nonempty [OF ne] st(7)] less.prems(2,3) st False cs by simp
  qed
qed

lemma walk_loop_found:
  assumes "live Cur s" "(cost + 2) * length (comps p) \<le> HeapLeft s" "walk_to (child (store s)) (obj Cur s) (comps p) \<noteq> 0"
    and "comps p \<noteq> []"
  shows "\<exists>De s'. walk_loop T Cur Parent p s = (De, s') \<and> De \<noteq> 0 \<and> live (dNode (Dentries s' De)) s' \<and>
     obj (dNode (Dentries s' De)) s' = walk_to (child (store s)) (obj Cur s) (comps p) \<and> store s' = store s \<and>
     same_switch s s' \<and> HeapLeft s \<le> HeapLeft s' + (cost + 2) * length (comps p)"
  using assms
proof (induction "length p" arbitrary: Cur Parent p s rule: less_induct)
  case less
  let ?c = "next_comp 256 p"
  have ne: "?c \<noteq> []" using less.prems(4) by (auto simp: comps.simps [of p] split: if_splits)
  then have p: "p \<noteq> []" by (auto simp: next_comp_def)
  have cs: "comps p = ?c # comps (after_comp p)" using ne by (simp add: comps.simps [of p])
  have nz: "child (store s) (obj Cur s) ?c \<noteq> 0" using less.prems(3) by (auto simp: cs split: if_splits)
  have h: "cost + 2 \<le> HeapLeft s" using less.prems(2) by (simp add: cs)
  obtain f w s1 s2 De where st: "Option.bind (node_ops T Cur s) op_Lookup = Some f" "f Cur ?c s = (w, s1)" "w \<noteq> 0"
      "fst (kmalloc s1) \<noteq> 0" "alloc_dentry ?c Parent w (snd (kmalloc s1)) = (De, s2)" "De \<noteq> 0" "live w s2"
      "obj w s2 = child (store s) (obj Cur s) ?c" "store s2 = store s" "HeapLeft s \<le> HeapLeft s2 + (cost + 2)"
      "dNode (Dentries s2 De) = w" "same_switch s s2"
    using step [OF less.prems(1) h nz, of ?c Parent] by blast
  have eq: "walk_loop T Cur Parent p s = walk_loop T w De (after_comp p) s2"
    using st ne p by (subst walk_loop.simps) (auto simp: Let_def split: prod.split)
  show ?case
  proof (cases "comps (after_comp p) = []")
    case True
    then have "next_comp 256 (after_comp p) = []" by (auto simp: comps.simps [of "after_comp p"] split: if_splits)
    then have "walk_loop T w De (after_comp p) s2 = (De, s2)" by (subst walk_loop.simps) (simp add: Let_def)
    then show ?thesis using eq st True cs nz by auto
  next
    case rest: False
    from less.hyps [OF next_comp_nonempty [OF ne] st(7) _ _ rest] obtain De' s' where
      "walk_loop T w De (after_comp p) s2 = (De', s')" "De' \<noteq> 0" "live (dNode (Dentries s' De')) s'"
      "obj (dNode (Dentries s' De')) s' = walk_to (child (store s2)) (obj w s2) (comps (after_comp p))" "store s' = store s2"
      "same_switch s2 s'" "HeapLeft s2 \<le> HeapLeft s' + (cost + 2) * length (comps (after_comp p))"
      using less.prems(2,3) st nz cs by fastforce
    then show ?thesis using eq st cs nz same_switch_trans [of s s2 s'] by auto
  qed
qed

end

end
