(* ===== verification/RamMount.thy ===== *)
theory RamMount
  imports BootImage Walk
begin

text \<open>
  The RAM file system under the switch: its \<^verbatim>\<open>Lookup\<close> keeps the contract of \<open>vnode_lookup\<close>, the boot
  image is mounted at the root (\<^verbatim>\<open>BootMountRamFs\<close>), and a path of the image opened through
  \<^verbatim>\<open>VfsOpen\<close> leads to the archived bytes.
\<close>

section \<open>Lookup keeps the contract\<close>

definition ram_obj :: "nat \<Rightarrow> 'z ramfs_scheme \<Rightarrow> nat" where
  "ram_obj v s = PrivNodes s (vPriv (Vnodes s v))"

definition ram_live :: "nat \<Rightarrow> 'z ramfs_scheme \<Rightarrow> bool" where
  "ram_live v s \<longleftrightarrow> v \<noteq> 0 \<and> v < NextPtr s \<and> vOps (Vnodes s v) = 1 \<and> vPriv (Vnodes s v) \<noteq> 0 \<and>
     vPriv (Vnodes s v) < NextPtr s \<and> ram_obj v s \<noteq> 0"

definition ram_child :: "(nat \<Rightarrow> RamFSNode) \<Rightarrow> nat \<Rightarrow> string \<Rightarrow> nat" where
  "ram_child st n name =
     (if rType (st n) \<noteq> RamFSNode_Directory then 0
      else (case find (\<lambda>c. c \<noteq> 0 \<and> rName (st c) = name) (Children (st n)) of None \<Rightarrow> 0 | Some c \<Rightarrow> c))"

lemma ram_child_find:
  "rType (RNodes s n) = RamFSNode_Directory \<Longrightarrow>
   ram_child (RNodes s) n name = (case find_child n name s of None \<Rightarrow> 0 | Some c \<Rightarrow> c)"
  by (simp add: ram_child_def find_child_def)

lemma RamVfsLookup_contract:
  assumes "ram_live v s"
  shows "\<exists>w s'. RamVfsLookup v name s = (w, s') \<and> same_switch s s' \<and> RNodes s' = RNodes s \<and>
     (ram_child (RNodes s) (ram_obj v s) name = 0 \<longrightarrow> w = 0) \<and>
     (ram_child (RNodes s) (ram_obj v s) name \<noteq> 0 \<and> 2 \<le> HeapLeft s \<longrightarrow>
        w \<noteq> 0 \<and> ram_live w s' \<and> ram_obj w s' = ram_child (RNodes s) (ram_obj v s) name \<and> HeapLeft s \<le> HeapLeft s' + 2)"
proof (cases "rType (RNodes s (ram_obj v s)) = RamFSNode_Directory")
  case False
  then show ?thesis using assms by (auto simp: RamVfsLookup_def ram_live_def ram_obj_def ram_child_def Let_def)
next
  case True
  have v: "v \<noteq> 0" "vPriv (Vnodes s v) \<noteq> 0" "ram_obj v s \<noteq> 0" "0 < NextPtr s" using assms by (auto simp: ram_live_def)
  note ch = ram_child_find [OF True, of name]
  show ?thesis
  proof (cases "find_child (ram_obj v s) name s")
    case None
    then show ?thesis using v True ch by (auto simp: RamVfsLookup_def ram_obj_def Let_def)
  next
    case (Some c)
    then have c: "ram_child (RNodes s) (ram_obj v s) name = c" "c \<noteq> 0" using ch by (auto dest: find_child_nonzero)
    have f: "find_child (PrivNodes s (vPriv (Vnodes s v))) name s = Some c" using Some by (simp add: ram_obj_def)
    consider "HeapLeft s = 0" | "HeapLeft s = 1" | "2 \<le> HeapLeft s" by linarith
    then show ?thesis
    proof cases
      case 3
      then show ?thesis using v True f c
        by (auto simp: RamVfsLookup_def ram_obj_def Let_def kmalloc_def same_switch_def ram_live_def)
    qed (use v True f c in \<open>auto simp: RamVfsLookup_def ram_obj_def Let_def kmalloc_def kfree_def same_switch_def\<close>)
  qed
qed

interpretation ram: vnode_lookup "ram_tables T" RNodes ram_obj ram_live ram_child 2 for T :: "'z ramfs_scheme tables"
proof
  fix v :: nat and s :: "'z ramfs_scheme" and name
  assume "ram_live v s"
  moreover have "Option.bind (node_ops (ram_tables T) v s) op_Lookup = Some RamVfsLookup"
    using calculation by (simp add: ram_live_def node_ops_def ram_tables_def RamVfsOps_def)
  ultimately show "\<exists>f w s'. Option.bind (node_ops (ram_tables T) v s) op_Lookup = Some f \<and> f v name s = (w, s') \<and> same_switch s s' \<and>
        RNodes s' = RNodes s \<and> (ram_child (RNodes s) (ram_obj v s) name = 0 \<longrightarrow> w = 0) \<and>
        (ram_child (RNodes s) (ram_obj v s) name \<noteq> 0 \<and> 2 \<le> HeapLeft s \<longrightarrow>
           w \<noteq> 0 \<and> ram_live w s' \<and> ram_obj w s' = ram_child (RNodes s) (ram_obj v s) name \<and> HeapLeft s \<le> HeapLeft s' + 2)"
    using RamVfsLookup_contract [of v s name] by (intro exI [of _ RamVfsLookup]) simp
qed (auto simp: ram_live_def ram_obj_def)

section \<open>Components and names\<close>

lemma dir_segs_split:
  "CHR ''/'' \<notin> set a \<Longrightarrow> acc @ a \<noteq> [] \<Longrightarrow> dir_segs acc (a @ CHR ''/'' # r) = (acc @ a) # dir_segs [] r"
  "CHR ''/'' \<notin> set a \<Longrightarrow> leaf_seg acc (a @ CHR ''/'' # r) = leaf_seg [] r"
  "CHR ''/'' \<notin> set a \<Longrightarrow> dir_segs acc a = [] \<and> leaf_seg acc a = acc @ a"
  by (induction a arbitrary: acc) auto

lemma path_segs_skip: "path_segs (skip_sep p) = path_segs p"
  by (induction p) (auto simp: path_segs_def skip_sep_def is_sep_def)

lemma path_segs_step:
  assumes "p \<noteq> []" "\<not> is_sep (hd p)"
  shows "path_segs p = takeWhile (\<lambda>c. \<not> is_sep c) p # path_segs (after_comp p)"
proof -
  let ?a = "takeWhile (\<lambda>c. \<not> is_sep c) p" and ?r = "dropWhile (\<lambda>c. \<not> is_sep c) p"
  have a: "CHR ''/'' \<notin> set ?a" by (auto simp: is_sep_def dest: set_takeWhileD)
  have ne: "?a \<noteq> []" using assms by (cases p) auto
  have p: "p = ?a @ ?r" by simp
  show ?thesis
  proof (cases ?r)
    case Nil
    then have "p = ?a" by (metis append_Nil2 takeWhile_dropWhile_id)
    moreover have "path_segs ?a = [?a]" using dir_segs_split(3) [OF a, of "[]"] ne by (simp add: path_segs_def leaf_list_def)
    moreover have "after_comp p = []" unfolding after_comp_def Nil by (simp add: skip_sep_def)
    ultimately show ?thesis by (simp add: path_segs_def leaf_list_def)
  next
    case (Cons c q)
    then have c: "c = CHR ''/''" using hd_dropWhile [of "\<lambda>c. \<not> is_sep c" p] by (simp add: is_sep_def)
    have "path_segs (?a @ CHR ''/'' # q) = ?a # path_segs q"
      using dir_segs_split(1,2) [OF a, of "[]"] ne by (simp add: path_segs_def)
    moreover have "path_segs (after_comp p) = path_segs q"
      using path_segs_skip [of "c # q"] Cons c by (simp add: after_comp_def path_segs_def)
    ultimately show ?thesis using Cons c p by (metis (no_types))
  qed
qed

lemma comps_path_segs:
  assumes "p = [] \<or> \<not> is_sep (hd p)" "\<forall>c \<in> set (path_segs p). length c \<le> 255"
  shows "comps p = path_segs p"
  using assms
proof (induction p rule: comps.induct)
  case (1 p)
  show ?case
  proof (cases "p = []")
    case True
    then show ?thesis by (simp add: comps.simps [of "[]"] next_comp_def path_segs_def leaf_list_def)
  next
    case False
    let ?a = "takeWhile (\<lambda>c. \<not> is_sep c) p"
    have st: "path_segs p = ?a # path_segs (after_comp p)" using path_segs_step [OF False] 1(2) False by blast
    have n: "next_comp 256 p = ?a" using 1(3) st by (simp add: next_comp_def)
    have ne: "next_comp 256 p \<noteq> []" using 1(2) False unfolding n by (cases p) auto
    have "after_comp p = [] \<or> \<not> is_sep (hd (after_comp p))"
      unfolding after_comp_def skip_sep_def using hd_dropWhile by blast
    from 1(1) [OF ne this] 1(3) st n ne show ?thesis by (simp add: comps.simps [of p])
  qed
qed

text \<open>Below directories, the walk and \<^verbatim>\<open>RamFSLookup\<close> agree.\<close>

lemma walk_to_follow:
  assumes "n \<noteq> 0" "\<And>q x r. cs = q @ x # r \<Longrightarrow> follow n q s \<noteq> 0 \<Longrightarrow> rType (RNodes s (follow n q s)) = RamFSNode_Directory"
  shows "walk_to (ram_child (RNodes s)) n cs = follow n cs s"
  using assms
proof (induction cs arbitrary: n)
  case (Cons c cs)
  have d: "rType (RNodes s n) = RamFSNode_Directory" using Cons.prems(2) [of "[]" c cs] Cons.prems(1) by simp
  show ?case
  proof (cases "find_child n c s")
    case (Some m)
    have m: "m \<noteq> 0" by (rule find_child_nonzero [OF Some])
    have "walk_to (ram_child (RNodes s)) m cs = follow m cs s"
      using Cons.IH [OF m] Cons.prems(2) [of "c # _"] Some by fastforce
    then show ?thesis using Some m ram_child_find [OF d] by simp
  qed (use ram_child_find [OF d] in simp)
qed simp

section \<open>Mounting the boot image\<close>

text \<open>The tree operations change the heap counters, the node store and the root pointer only.\<close>

definition ram_only :: "'z ramfs_scheme \<Rightarrow> 'z ramfs_scheme \<Rightarrow> bool" where
  "ram_only s s' \<longleftrightarrow> (\<exists>a b r n. s' = s\<lparr>NextPtr := a, HeapLeft := b, RNodes := r, RamFS_Root := n\<rparr>)"

lemma ram_only_trans: "ram_only s s' \<Longrightarrow> ram_only s' s'' \<Longrightarrow> ram_only s s''"
  unfolding ram_only_def by (elim exE) (simp, intro exI, rule refl)

lemma ram_only_upd:
  "ram_only s s" "ram_only s (s\<lparr>RNodes := r\<rparr>)" "ram_only s (s\<lparr>NextPtr := a, HeapLeft := b\<rparr>)"
  "ram_only s (s\<lparr>RamFS_Root := n\<rparr>)"
proof -
  have full: "ram_only s (s\<lparr>NextPtr := a, HeapLeft := b, RNodes := r, RamFS_Root := n\<rparr>)" for a b r n
    by (auto simp: ram_only_def)
  show "ram_only s s" using full [where a = "NextPtr s" and b = "HeapLeft s" and r = "RNodes s" and n = "RamFS_Root s"] by simp
  show "ram_only s (s\<lparr>RNodes := r\<rparr>)" using full [where a = "NextPtr s" and b = "HeapLeft s" and r = r and n = "RamFS_Root s"] by simp
  show "ram_only s (s\<lparr>NextPtr := a, HeapLeft := b\<rparr>)" using full [where a = a and b = b and r = "RNodes s" and n = "RamFS_Root s"] by simp
  show "ram_only s (s\<lparr>RamFS_Root := n\<rparr>)" using full [where a = "NextPtr s" and b = "HeapLeft s" and r = "RNodes s" and n = n] by simp
qed

lemma ram_only_kmalloc: "ram_only s (snd (kmalloc s))"
  by (simp add: kmalloc_def ram_only_upd)

lemma ram_only_add_child: "ram_only s (RamFSAddChild p c s)"
  by (simp add: RamFSAddChild_def ram_only_upd)

lemma ram_only_create: "ram_only s (snd (RamFSCreateNode n ty s))"
proof -
  obtain p s1 where k: "kmalloc s = (p, s1)" by force
  then have "ram_only s s1" using ram_only_kmalloc [of s] by simp
  then show ?thesis using k by (auto simp: RamFSCreateNode_def intro: ram_only_trans ram_only_upd)
qed

lemma ram_only_add_node: "ram_only s (snd (add_node p g ty s))"
proof -
  obtain a s1 where k: "kmalloc s = (a, s1)" by force
  obtain b s2 where c: "RamFSCreateNode g ty s1 = (b, s2)" by force
  have "ram_only s s1" "ram_only s1 s2" using k c ram_only_kmalloc [of s] ram_only_create [of s1 g ty] by simp_all
  then show ?thesis using k c by (auto simp: add_node_def intro: ram_only_trans ram_only_add_child)
qed

lemma ram_only_attach_loop: "ram_only s (snd (attach_loop Cur seg r s))"
proof (induction r arbitrary: Cur seg s)
  case (Cons c r)
  show ?case
  proof (cases "c = CHR ''/'' \<and> seg \<noteq> [] \<and> find_dir Cur seg s = None")
    case True
    obtain n s1 where a: "add_node Cur seg RamFSNode_Directory s = (n, s1)" by force
    then have "ram_only s s1" using ram_only_add_node [of s Cur seg RamFSNode_Directory] by simp
    then show ?thesis using True a Cons.IH [of s1 n "[]"] by (auto intro: ram_only_trans)
  qed (use Cons.IH in \<open>auto split: option.split\<close>)
qed (simp add: ram_only_upd)

lemma ram_only_set_data: "ram_only s (set_data l ty d z s)"
  by (simp add: set_data_def ram_only_upd)

lemma ram_only_attach: "ram_only s (snd (RamFSAttachPath R p ty d z s))"
proof (cases "\<exists>rest. p = Some (CHR ''/'' # rest) \<and> R \<noteq> 0")
  case True
  then obtain rest where p: "p = Some (CHR ''/'' # rest)" "R \<noteq> 0" by blast
  obtain o1 s1 where l: "attach_loop R [] rest s = (o1, s1)" by force
  then have 1: "ram_only s s1" using ram_only_attach_loop [of s R "[]" rest] by simp
  show ?thesis
  proof (cases o1)
    case (Some cs)
    obtain Cur seg where cs: "cs = (Cur, seg)" by force
    obtain n s2 where a: "add_node Cur seg ty s1 = (n, s2)" by force
    then have 2: "ram_only s s2" using 1 ram_only_add_node [of s1 Cur seg ty] by (auto intro: ram_only_trans)
    show ?thesis using p l Some cs a 1 2
      by (auto simp: RamFSAttachPath_def Let_def split: option.split intro: ram_only_trans ram_only_set_data)
  qed (use p l 1 in \<open>simp add: RamFSAttachPath_def\<close>)
qed (auto simp: RamFSAttachPath_def ram_only_upd split: option.split list.split)

lemma ram_only_mount_loop: "mount_loop buf Len R off s = Some y \<Longrightarrow> ram_only s (snd y)"
proof (erule mount_loop.raw_induct [rotated])
  fix loop :: "string \<Rightarrow> u32 \<Rightarrow> nat \<Rightarrow> u32 \<Rightarrow> 'a ramfs_scheme \<Rightarrow> (nat \<times> 'a ramfs_scheme) option"
    and buf Len R off s y
  assume IH: "\<And>buf Len R off s y. loop buf Len R off s = Some y \<Longrightarrow> ram_only s (snd y)"
    and b: "(if \<not> off + 6 \<le> Len then Some (RamFS_Root s, s)
      else case cpio_read buf Len off of CpioStop \<Rightarrow> Some (RamFS_Root s, s)
           | CpioEntry Ty Data Size Name Off' \<Rightarrow>
               let (FullPath, s) = kmalloc s
               in if FullPath = 0 then Some (0, s)
                  else loop buf Len R Off' (snd (RamFSAttachPath R (Some (CHR ''/'' # Name)) Ty Data Size s))) = Some y"
  obtain p s1 where k: "kmalloc s = (p, s1)" by force
  then have 1: "ram_only s s1" using ram_only_kmalloc [of s] by simp
  show "ram_only s (snd y)"
  proof (cases "off + 6 \<le> Len \<and> cpio_read buf Len off \<noteq> CpioStop \<and> p \<noteq> 0")
    case True
    then obtain Ty Data Size Name Off' where "cpio_read buf Len off = CpioEntry Ty Data Size Name Off'"
      by (cases "cpio_read buf Len off") auto
    then have "loop buf Len R Off' (snd (RamFSAttachPath R (Some (CHR ''/'' # Name)) Ty Data Size s1)) = Some y"
      using b k True by simp
    from IH [OF this] show ?thesis using 1 ram_only_attach ram_only_trans by blast
  qed (use b k 1 in \<open>auto simp: ram_only_upd ram_only_kmalloc split: if_splits cpio_step.splits\<close>)
qed

lemma ram_only_mount: "RamFSMount i l s = Some (c, s') \<Longrightarrow> ram_only s s'"
proof -
  assume m: "RamFSMount i l s = Some (c, s')"
  obtain r s1 where e: "RamFSEnsureRoot s = (r, s1)" by force
  obtain n s2 where c: "RamFSCreateNode ''/'' RamFSNode_Directory s = (n, s2)" by force
  have "ram_only s s2" using c ram_only_create [of s "''/''" RamFSNode_Directory] by simp
  then have 1: "ram_only s s1" using e c by (auto simp: RamFSEnsureRoot_def ram_only_upd split: if_splits intro: ram_only_trans)
  show ?thesis using m e 1 ram_only_mount_loop
    by (fastforce simp: RamFSMount_def split: option.splits if_splits intro: ram_only_trans)
qed

definition boot_ready :: "'z ramfs_scheme \<Rightarrow> bool" where
  "boot_ready s \<longleftrightarrow> lock_idle s \<and> FsReg s = [] \<and> Mounts s = [] \<and> RootNode s = 0 \<and> 1 < MaxPath s"

text \<open>The RAM file system is mounted at the root.\<close>

definition ram_mounted :: "'z ramfs_scheme \<Rightarrow> bool" where
  "ram_mounted t \<longleftrightarrow> lock_idle t \<and> ram_live (RootNode t) t \<and> ram_obj (RootNode t) t = RamFS_Root t \<and>
     (\<exists>Sb. Mounts t = [\<lparr>mSb = Sb, mPath = ''/''\<rparr>] \<and> sbRoot (Superblocks t Sb) = RootNode t)"

lemma ram_only_ready: "ram_only s s' \<Longrightarrow> boot_ready s' = boot_ready s"
  by (auto simp: ram_only_def boot_ready_def lock_idle_def)

lemma RamFsRegister_ready:
  assumes "boot_ready s"
  shows "\<exists>t m. RamFsRegister s = Some (0, t) \<and> lock_idle t \<and>
     t = s\<lparr>VfsLock := m, FsReg := [\<lparr>FsName = Some ''ramfs'', FsMount = 1, FsPriv = 0\<rparr>]\<rparr>"
proof -
  obtain m where m: "vfs_acquire s = Some (s\<lparr>VfsLock := m\<rparr>)" "lock_held 1 (s\<lparr>VfsLock := m\<rparr>)"
    using acquire_idle assms by (auto simp: boot_ready_def)
  let ?t = "s\<lparr>VfsLock := m, FsReg := [\<lparr>FsName = Some ''ramfs'', FsMount = 1, FsPriv = 0\<rparr>]\<rparr>"
  have "lock_idle (vfs_release ?t)" using release_once [of ?t] m(2) by (simp add: lock_held_def)
  then show ?thesis using m(1) assms
    by (intro exI [of _ "vfs_release ?t"] exI [of _ "ReleaseMutex (CurCpu s) m"])
      (simp add: RamFsRegister_def VfsRegisterFs_def boot_ready_def vfs_release_def)
qed

lemma RamFsMountImpl_ok:
  assumes "RamFS_Root s \<noteq> 0" "3 \<le> HeapLeft s" "0 < NextPtr s"
  shows "RamFsMountImpl d o' s =
    (NextPtr s,
     s\<lparr>NextPtr := NextPtr s + 3, HeapLeft := HeapLeft s - 3,
       PrivNodes := (PrivNodes s)(NextPtr s + 2 := RamFS_Root s),
       Vnodes := (Vnodes s)(NextPtr s + 1 := \<lparr>vType = VNodeDIR, vOps = 1, vSb = NextPtr s, vPriv = NextPtr s + 2, vRefcnt = 1\<rparr>),
       Superblocks := (Superblocks s)(NextPtr s := \<lparr>sbType = 0, sbDev = 0, sbFlags = 0, sbRoot = NextPtr s + 1, sbOps = 1, sbPriv = 0\<rparr>)\<rparr>)"
  using assms by (simp add: RamFsMountImpl_def kmalloc_def Let_def)

lemma BootMountRamFs_mounted:
  assumes mt: "RamFSMount (Some buf) len s = Some (RamFS_Root s1, s1)" and len: "len \<noteq> 0"
    and ok: "tree_ok s1" and ready: "boot_ready s" and heap: "4 \<le> HeapLeft s1"
  shows "\<exists>t. BootMountRamFs T (Some buf) len s = Some (0, t) \<and> ram_mounted t \<and> RNodes t = RNodes s1 \<and>
     RamFS_Root t = RamFS_Root s1 \<and> HeapLeft t = HeapLeft s1 - 4"
proof -
  have r1: "boot_ready s1" using ram_only_ready [OF ram_only_mount [OF mt]] ready by simp
  have p: "RamFS_Root s1 \<noteq> 0" "0 < NextPtr s1" using tree_ok_root [OF ok] by auto
  obtain s2 m where s2: "RamFsRegister s1 = Some (0, s2)" "lock_idle s2"
    "s2 = s1\<lparr>VfsLock := m, FsReg := [\<lparr>FsName = Some ''ramfs'', FsMount = 1, FsPriv = 0\<rparr>]\<rparr>"
    using RamFsRegister_ready [OF r1] by blast
  obtain m' where m': "vfs_acquire s2 = Some (s2\<lparr>VfsLock := m'\<rparr>)" "lock_held 1 (s2\<lparr>VfsLock := m'\<rparr>)"
    using acquire_idle [OF s2(2)] by blast
  let ?s3 = "s2\<lparr>VfsLock := m'\<rparr>"
  obtain Sb s4 where hook: "RamFsMountImpl None None ?s3 = (Sb, s4)" by force
  note h = RamFsMountImpl_ok [of ?s3 None None]
  let ?root = "sbRoot (Superblocks s4 Sb)"
  let ?s5 = "s4\<lparr>Mounts := [\<lparr>mSb = Sb, mPath = ''/''\<rparr>], RootNode := ?root, NextPtr := NextPtr s4 + 1, HeapLeft := HeapLeft s4 - 1,
      Dentries := (Dentries s4)(NextPtr s4 := \<lparr>dName = ''/'', dParent = 0, dNode = ?root, dFlags = 0\<rparr>), RootDe := NextPtr s4\<rparr>"
  have facts: "Sb \<noteq> 0" "?root \<noteq> 0" "Mounts s4 = []" "RootNode s4 = 0" "HeapLeft s4 \<noteq> 0" "NextPtr s4 \<noteq> 0" "VfsLock s4 = m'" "CurCpu s4 = CurCpu ?s3"
    "HeapLeft s4 = HeapLeft s1 - 3" "RNodes s4 = RNodes s1" "RamFS_Root s4 = RamFS_Root s1" "ram_live ?root s4" "ram_obj ?root s4 = RamFS_Root s4"
    using hook h s2(3) r1 p heap by (auto simp: boot_ready_def ram_live_def ram_obj_def)
  have "VfsMount (ram_tables T) None (Some ''/'') (Some ''ramfs'') None s2 = Some (Sb, vfs_release ?s5)"
    using m'(1) hook s2(3) r1 facts
    by (simp add: VfsMount_def VfsFindFs_def ram_tables_def boot_ready_def alloc_dentry_def kmalloc_def)
  then have "BootMountRamFs T (Some buf) len s = Some (0, vfs_release ?s5)"
    using mt len p s2(1) facts(1) by (simp add: BootMountRamFs_def)
  moreover have "lock_idle (vfs_release ?s5)"
    using release_once [of ?s5] m'(2) facts by (simp add: lock_held_def)
  moreover have "ram_live ?root (vfs_release ?s5)" "ram_obj ?root (vfs_release ?s5) = RamFS_Root s1"
    using facts by (auto simp: ram_live_def ram_obj_def vfs_release_def)
  ultimately show ?thesis using facts
    by (intro exI [of _ "vfs_release ?s5"]) (simp add: ram_mounted_def vfs_release_def)
qed

section \<open>Opening a path of the image\<close>

lemma ram_lock_frame:
  "ram_live v (s\<lparr>VfsLock := m\<rparr>) = ram_live v s" "ram_obj v (s\<lparr>VfsLock := m\<rparr>) = ram_obj v s"
  by (simp_all add: ram_live_def ram_obj_def)

lemma follow_cong: "RNodes s' = RNodes s \<Longrightarrow> follow n p s' = follow n p s"
  by (induction p arbitrary: n) (auto simp: find_child_def split: option.split)

lemma find_root_mount:
  "Mounts s = [\<lparr>mSb = Sb, mPath = ''/''\<rparr>] \<Longrightarrow> find_mount (CHR ''/'' # r) s = Some 0"
  by (simp add: find_mount_def has_prefix_def)

lemma skip_sep_idem: "skip_sep (skip_sep p) = skip_sep p" "skip_sep p = [] \<or> \<not> is_sep (hd (skip_sep p))"
proof -
  show "skip_sep (skip_sep p) = skip_sep p" by (simp add: skip_sep_def)
  show "skip_sep p = [] \<or> \<not> is_sep (hd (skip_sep p))" unfolding skip_sep_def using hd_dropWhile by blast
qed

lemma resolve_ram:
  assumes mt: "ram_mounted t" and ne: "path_segs r \<noteq> []" and short: "\<forall>c \<in> set (path_segs r). length c \<le> 255"
    and held: "lock_held 1 t1" "t1 = t\<lparr>VfsLock := m\<rparr>"
    and n: "follow (RamFS_Root t) (path_segs r) t = n" "n \<noteq> 0"
    and dirs: "\<forall>q x rest. path_segs r = q @ x # rest \<longrightarrow> follow (RamFS_Root t) q t \<noteq> 0 \<longrightarrow>
        rType (RNodes t (follow (RamFS_Root t) q t)) = RamFSNode_Directory"
    and heap: "4 * length (path_segs r) \<le> HeapLeft t"
  shows "\<exists>De u. VfsResolve (ram_tables T) (Some (CHR ''/'' # r)) t1 = Some (De, u) \<and> De \<noteq> 0 \<and>
     ram_live (dNode (Dentries u De)) u \<and> ram_obj (dNode (Dentries u De)) u = n \<and> RNodes u = RNodes t \<and> lock_held 1 u \<and>
     HeapLeft t \<le> HeapLeft u + 4 * length (path_segs r)"
proof -
  obtain Sb where live: "ram_live (RootNode t) t" "ram_obj (RootNode t) t = RamFS_Root t"
    "Mounts t = [\<lparr>mSb = Sb, mPath = ''/''\<rparr>]" "sbRoot (Superblocks t Sb) = RootNode t"
    using mt by (auto simp: ram_mounted_def)
  obtain m' where m': "vfs_acquire t1 = Some (t1\<lparr>VfsLock := m'\<rparr>)" "lock_held 2 (t1\<lparr>VfsLock := m'\<rparr>)"
    using acquire_held [OF held(1), unfolded one_add_one] by auto
  let ?t2 = "t1\<lparr>VfsLock := m'\<rparr>" and ?w = "vfs_release (t1\<lparr>VfsLock := m'\<rparr>)"
  have r: "r \<noteq> []" "skip_sep r \<noteq> []" using ne path_segs_skip [of r] by (auto simp: path_segs_def leaf_list_def)
  have cs: "comps (skip_sep r) = path_segs r"
    using comps_path_segs [OF skip_sep_idem(2)] short path_segs_skip [of r] by simp
  have root: "RamFS_Root t \<noteq> 0" "RootNode t \<noteq> 0" using live(1,2) by (auto simp: ram_live_def)
  have obj: "ram_obj (RootNode t) ?w = RamFS_Root t" "RNodes ?w = RNodes t" "HeapLeft ?w = HeapLeft t" "ram_live (RootNode t) ?w"
    using live held(2) by (simp_all add: vfs_release_def ram_lock_frame)
  have "walk_to (ram_child (RNodes t)) (RamFS_Root t) (path_segs r) = n"
    using walk_to_follow [OF root(1), of "path_segs r" t] dirs n by simp
  then obtain De u where u: "walk_loop (ram_tables T) (RootNode t) (RootDe t) (skip_sep r) ?w = (De, u)" "De \<noteq> 0"
      "ram_live (dNode (Dentries u De)) u" "ram_obj (dNode (Dentries u De)) u = n" "RNodes u = RNodes t" "same_switch ?w u"
      "HeapLeft t \<le> HeapLeft u + 4 * length (path_segs r)"
    using ram.walk_loop_found [OF obj(4), of "skip_sep r" T "RootDe t"] cs ne obj n(2) heap by auto
  have "lock_held 1 ?w" using release_nested [of 1 ?t2] m'(2) by (simp add: numeral_2_eq_2)
  then have "lock_held 1 u" using u(6) by (simp add: lock_held_def same_switch_def)
  moreover have "VfsResolve (ram_tables T) (Some (CHR ''/'' # r)) t1 = Some (De, u)"
    using m'(1) held(2) root r find_root_mount [of ?t2 Sb r] live(3,4) u(1) skip_sep_idem(1) [of r]
    by (simp add: VfsResolve_def walk_def)
  ultimately show ?thesis using u by blast
qed

lemma VfsOpen_ram:
  assumes mt: "ram_mounted t" and ne: "path_segs r \<noteq> []" and short: "\<forall>c \<in> set (path_segs r). length c \<le> 255"
    and n: "follow (RamFS_Root t) (path_segs r) t = n" "n \<noteq> 0" "rType (RNodes t n) = RamFSNode_File"
    and dirs: "\<forall>q x rest. path_segs r = q @ x # rest \<longrightarrow> follow (RamFS_Root t) q t \<noteq> 0 \<longrightarrow>
        rType (RNodes t (follow (RamFS_Root t) q t)) = RamFSNode_Directory"
    and heap: "4 * length (path_segs r) + 2 \<le> HeapLeft t"
  shows "\<exists>F u. VfsOpen (ram_tables T) (Some (CHR ''/'' # r)) fl t = Some (F, u) \<and> open_file F n u \<and> lock_idle u \<and>
     RNodes u = RNodes t \<and> pfOffset (PrivFiles u (fPriv (Files u F))) = 0"
proof -
  have idle: "lock_idle t" using mt by (simp add: ram_mounted_def)
  obtain m where m: "vfs_acquire t = Some (t\<lparr>VfsLock := m\<rparr>)" "lock_held 1 (t\<lparr>VfsLock := m\<rparr>)"
    using acquire_idle [OF idle] by blast
  have "4 * length (path_segs r) \<le> HeapLeft t" using heap by simp
  from resolve_ram [OF mt ne short m(2) refl n(1,2) dirs this] obtain De u where
    u: "VfsResolve (ram_tables T) (Some (CHR ''/'' # r)) (t\<lparr>VfsLock := m\<rparr>) = Some (De, u)" "De \<noteq> 0"
     "ram_live (dNode (Dentries u De)) u" "ram_obj (dNode (Dentries u De)) u = n" "RNodes u = RNodes t" "lock_held 1 u"
     "HeapLeft t \<le> HeapLeft u + 4 * length (path_segs r)" by blast
  let ?v = "dNode (Dentries u De)" and ?F = "NextPtr u"
  have v: "?v \<noteq> 0" "vOps (Vnodes u ?v) = 1" "vPriv (Vnodes u ?v) \<noteq> 0" "PrivNodes u (vPriv (Vnodes u ?v)) = n" "0 < NextPtr u"
    using u(3,4) by (auto simp: ram_live_def ram_obj_def)
  have h: "2 \<le> HeapLeft u" using heap u(7) by simp
  let ?o = "u\<lparr>NextPtr := ?F + 2, HeapLeft := HeapLeft u - 2,
       PrivFiles := (PrivFiles u)(?F + 1 := \<lparr>pfNode = n, pfOffset = 0\<rparr>),
       Files := (Files u)(?F := \<lparr>fNode = ?v, fOffset = 0, fFlags = fl, fRefcnt = 1, fPriv = ?F + 1\<rparr>)\<rparr>"
  have "open_dentry (ram_tables T) De fl u = (?F, vfs_release ?o)"
    using u(2,5) v h n by (simp add: open_dentry_def node_ops_def ram_tables_def RamVfsOps_def RamVfsOpen_def kmalloc_def Let_def numeral_2_eq_2)
  then have "VfsOpen (ram_tables T) (Some (CHR ''/'' # r)) fl t = Some (?F, vfs_release ?o)"
    using m(1) u(1) by (simp add: VfsOpen_def)
  moreover have "lock_idle (vfs_release ?o)" using release_once [of ?o] u(6) by (simp add: lock_held_def)
  moreover have "open_file ?F n (vfs_release ?o)" using v n u(5) by (simp add: open_file_def vfs_release_def)
  ultimately show ?thesis using u(5)
    by (intro exI [of _ ?F] exI [of _ "vfs_release ?o"]) (simp add: vfs_release_def)
qed

section \<open>From the archive to the reader\<close>

text \<open>Every proper prefix of an entry's path is a directory of the tree.\<close>

lemma tree_of_above:
  assumes "consistent xs" "x \<in> set xs" "segs_of x = q @ y # rest" "tree_of xs q = Some v"
  shows "fst v = RamFSNode_Directory"
proof (rule ccontr)
  assume "fst v \<noteq> RamFSNode_Directory"
  then obtain z where z: "z \<in> set xs" "\<not> is_dir (fst z)" "segs_of z = q" using tree_of_file [OF assms(1,4)] by blast
  have "prefix q (dirs_of x)"
  proof (cases "leaf_seg [] (ceName (fst x)) = []")
    case True
    then show ?thesis using assms(3) segs_leaf(2) by (simp add: prefix_def)
  next
    case False
    then have "dirs_of x @ [leaf_seg [] (ceName (fst x))] = q @ y # rest" using assms(3) segs_leaf(1) by simp
    then show ?thesis by (metis append_butlast_last_id butlast_append butlast_snoc list.distinct(1) prefixI)
  qed
  then show False using z assms(1,2) by (auto simp: consistent_def list_all_iff list_ex_iff)
qed

lemma follow_node_at:
  "RNodes t = RNodes s \<Longrightarrow> RamFS_Root t = RamFS_Root s \<Longrightarrow>
   node_at s q = (if follow (RamFS_Root t) q t = 0 then None
     else Some (rType (RNodes t (follow (RamFS_Root t) q t)), rSize (RNodes t (follow (RamFS_Root t) q t)), rData (RNodes t (follow (RamFS_Root t) q t))))"
  using follow_cong [of t s] by (simp add: node_at_def Let_def)

lemma boot_open_read:
  assumes "archive_ok es tr rest" "ramfs_fresh s" "boot_ready s" "e \<in> set es" "\<not> is_dir e" "ceData e \<noteq> []"
    and short: "\<forall>c \<in> set (path_segs (ceName e)). length c \<le> 255"
    and heap: "blocks_for es + 4 * length (path_segs (ceName e)) + 7 \<le> HeapLeft s"
  defines "buf \<equiv> archive es tr rest"
  shows "\<exists>t F u v. BootMountRamFs T (Some buf) (word_of_nat (length buf)) s = Some (0, t) \<and>
     VfsOpen (ram_tables T) (Some (CHR ''/'' # ceName e)) fl t = Some (F, u) \<and> F \<noteq> 0 \<and>
     VfsRead (ram_tables T) F True (int (length (ceData e))) u = Some ((int (length (ceData e)), ceData e), v) \<and> lock_idle v"
proof -
  have ok: "consistent (place buf 0 es)" "list_all entry_ok es" "length buf + 3 < 2 ^ 32"
    using assms(1) by (auto simp: archive_ok_def buf_def list_all_iff)
  have "1 + blocks_for es \<le> HeapLeft s" using heap by simp
  from RamFSMount_tree [OF assms(1,2) this] obtain s1 where
    s1: "RamFSMount (Some buf) (word_of_nat (length buf)) s = Some (RamFS_Root s1, s1)" "tree_ok s1"
      "node_at s1 = tree_of (place buf 0 es)" "HeapLeft s \<le> HeapLeft s1 + 1 + blocks_for es"
    unfolding buf_def by blast
  have nz: "(word_of_nat (length buf) :: u64) \<noteq> 0"
  proof
    assume "(word_of_nat (length buf) :: u64) = 0"
    then show False using unat_word_of_nat64 [of "length buf"] ok(3) by (simp add: buf_def archive_def entry_bytes_def)
  qed
  obtain t where t: "BootMountRamFs T (Some buf) (word_of_nat (length buf)) s = Some (0, t)" "ram_mounted t" "RNodes t = RNodes s1"
      "RamFS_Root t = RamFS_Root s1" "HeapLeft t = HeapLeft s1 - 4"
    using BootMountRamFs_mounted [OF s1(1) nz s1(2) assms(3), of T] heap s1(4) by auto
  obtain d where d: "(e, d) \<in> set (place buf 0 es)" "take (length (ceData e)) d = ceData e"
    using place_in [of buf "[]" es tr rest 0 e] assms(4,5) ok(2) by (auto simp: buf_def)
  note nat = follow_node_at [OF t(3,4)]
  let ?n = "follow (RamFS_Root t) (path_segs (ceName e)) t"
  have "node_at s1 (path_segs (ceName e)) = Some (RamFSNode_File, word_of_nat (length (ceData e)), d)"
    using tree_of_in [OF ok(1) d(1)] s1(3) assms(5) by (simp add: entry_type_def)
  then have n: "?n \<noteq> 0" "rType (RNodes t ?n) = RamFSNode_File" "rSize (RNodes t ?n) = word_of_nat (length (ceData e))" "rData (RNodes t ?n) = d"
    unfolding nat by (simp_all split: if_splits)
  have ne: "path_segs (ceName e) \<noteq> []" 
  proof -
    have "leaf_seg [] (ceName e) \<noteq> []" using ok(1) d(1) assms(5) by (auto simp: consistent_def list_all_iff)
    then show ?thesis by (simp add: segs_leaf(1))
  qed
  have dirs: "rType (RNodes t (follow (RamFS_Root t) q t)) = RamFSNode_Directory"
    if "path_segs (ceName e) = q @ x # r" "follow (RamFS_Root t) q t \<noteq> 0" for q x r
    using tree_of_above [OF ok(1) d(1), of q x r] that nat [of q] s1(3) by simp
  then have dirs': "\<forall>q x r. path_segs (ceName e) = q @ x # r \<longrightarrow> follow (RamFS_Root t) q t \<noteq> 0 \<longrightarrow>
      rType (RNodes t (follow (RamFS_Root t) q t)) = RamFSNode_Directory" by blast
  have h2: "4 * length (path_segs (ceName e)) + 2 \<le> HeapLeft t" using heap s1(4) t(5) by linarith
  obtain F u where u: "VfsOpen (ram_tables T) (Some (CHR ''/'' # ceName e)) fl t = Some (F, u)" "open_file F ?n u" "lock_idle u"
      "RNodes u = RNodes t" "pfOffset (PrivFiles u (fPriv (Files u F))) = 0"
    using VfsOpen_ram [OF t(2) ne short refl n(1,2) dirs' h2, of T fl] by blast
  have "length (ceData e) \<le> length (entry_bytes e)" "length (entry_bytes e) \<le> length buf"
    using assms(4) by (auto simp: entry_bytes_def buf_def archive_def dest!: split_list)
  then have len: "length (ceData e) < 2 ^ 32" using ok(3) by linarith
  have sz: "unat (rSize (RNodes u ?n)) = length (ceData e)" using unat_of_nat_u32 [OF len] n(3) u(4) by simp
  have dl: "length (ceData e) \<le> length d" using arg_cong [OF d(2), of length] by simp
  have bytes: "map (\<lambda>i. img (rData (RNodes u ?n)) (nat 0 + i)) [0..<length (ceData e)] = ceData e"
    using map_img_take [OF dl] d(2) n(4) u(4) by simp
  have "\<exists>v. VfsRead (ram_tables T) F True (int (length (ceData e))) u = Some ((int (length (ceData e)), ceData e), v) \<and> lock_idle v"
    using VfsRead_ram_file [OF u(3,2), of "int (length (ceData e))" T, unfolded u(5) sz] bytes assms(6) len by auto
  moreover have "F \<noteq> 0" using u(2) by (simp add: open_file_def)
  ultimately show ?thesis using t(1) u(1) by blast
qed

end
