(* ===== verification/Devices.thy ===== *)
theory Devices
  imports VFS "HOL-Library.Monad_Syntax" "HOL-Library.Signed_Division"
begin

section \<open>Devices\<close>

text \<open>The device file system (\<^verbatim>\<open>DevFS/DevFS.c\<close>), the block layer (\<^verbatim>\<open>BlocksDevs/\<close>: disks and partitions), the character
  buses (\<^verbatim>\<open>CharsDevs/\<close>), the names of devices, and the loading of the driver modules of the boot image
  (\<^verbatim>\<open>DevFS/DevInitMgr.c\<close>), on the state \<open>devfs\<close>, which adds the static variables of \<^verbatim>\<open>DevFS.c\<close> and the objects it
  allocates to the state of the switch. Drivers are arguments: records of functions over a state \<open>Drv\<close> of their own, which
  the block layer instantiates with its table of disks and partitions.\<close>

section \<open>Data\<close>

text \<open>The functions of a driver work on the driver's own state \<open>'d\<close>; the device context is the number of the
  object that the driver registered. A buffer to be filled is returned as a string, with a \<open>bool\<close> argument for its
  pointer; a buffer to be read is a \<open>string option\<close>.\<close>

record 'd CharDevOps =
  C_Open :: "(nat \<Rightarrow> 'd \<Rightarrow> int \<times> 'd) option"
  C_Close :: "(nat \<Rightarrow> 'd \<Rightarrow> int \<times> 'd) option"
  C_Read :: "(nat \<Rightarrow> bool \<Rightarrow> int \<Rightarrow> 'd \<Rightarrow> (int \<times> string) \<times> 'd) option"
  C_Write :: "(nat \<Rightarrow> string option \<Rightarrow> int \<Rightarrow> 'd \<Rightarrow> int \<times> 'd) option"
  C_Ioctl :: "(nat \<Rightarrow> u64 \<Rightarrow> u64 \<Rightarrow> 'd \<Rightarrow> int \<times> 'd) option"

record 'd BlockDevOps =
  B_Open :: "(nat \<Rightarrow> 'd \<Rightarrow> int \<times> 'd) option"
  B_Close :: "(nat \<Rightarrow> 'd \<Rightarrow> int \<times> 'd) option"
  B_ReadBlocks :: "(nat \<Rightarrow> u64 \<Rightarrow> bool \<Rightarrow> int \<Rightarrow> 'd \<Rightarrow> (int \<times> string) \<times> 'd) option"
  B_WriteBlocks :: "(nat \<Rightarrow> u64 \<Rightarrow> string option \<Rightarrow> int \<Rightarrow> 'd \<Rightarrow> int \<times> 'd) option"
  B_Ioctl :: "(nat \<Rightarrow> u64 \<Rightarrow> u64 \<Rightarrow> 'd \<Rightarrow> int \<times> 'd) option"
  BlockSize :: int

text \<open>\<^verbatim>\<open>Type\<close> and the union \<^verbatim>\<open>Ops\<close> of a device entry, which are always set together.\<close>

datatype 'd DevOps = DevChar "'d CharDevOps" | DevBlock "'d BlockDevOps"

record 'd DeviceEntry =
  deName :: string
  deMajor :: u32
  deMinor :: u32
  deContext :: nat
  deOps :: "'d DevOps"

record DevFsFileCtx =
  fcDev :: nat
  fcLba :: u64
  fcOffset :: int

record 'd devfs = vfs +
  DevTable :: "nat list"
  DevCount :: int
  DevSuper :: nat
  DevEntries :: "nat \<Rightarrow> 'd DeviceEntry"
  NodeDevs :: "nat \<Rightarrow> nat"
  FileCtxs :: "nat \<Rightarrow> DevFsFileCtx"
  Drv :: 'd

abbreviation (input) MaxDevices :: int where "MaxDevices \<equiv> 256"
abbreviation (input) sizeof_VfsDirEnt :: int where "sizeof_VfsDirEnt \<equiv> 272"

section \<open>The registry (DevFS.c)\<close>

definition dev_index :: "string option \<Rightarrow> ('d, 'z) devfs_scheme \<Rightarrow> int" where
  "dev_index Name s =
     (case Name of
        None \<Rightarrow> -1
      | Some n \<Rightarrow>
          (case find (\<lambda>I. DevTable s ! I \<noteq> 0 \<and> deName (DevEntries s (DevTable s ! I)) = n) [0..<nat (DevCount s)] of
             None \<Rightarrow> -1
           | Some I \<Rightarrow> int I))"

definition dev_find :: "string option \<Rightarrow> ('d, 'z) devfs_scheme \<Rightarrow> nat" where
  "dev_find Name s = (let idx = dev_index Name s in if idx \<ge> 0 then DevTable s ! nat idx else 0)"

definition DevFsInit :: "('d, 'z) devfs_scheme \<Rightarrow> int \<times> ('d, 'z) devfs_scheme" where
  "DevFsInit s = (0, s\<lparr>DevCount := 0, DevSuper := 0\<rparr>)"

text \<open>The new entry becomes the last of the table.\<close>

definition append_entry :: "nat \<Rightarrow> 'd DeviceEntry \<Rightarrow> ('d, 'z) devfs_scheme \<Rightarrow> ('d, 'z) devfs_scheme" where
  "append_entry E e s = s\<lparr>DevEntries := (DevEntries s)(E := e), DevTable := (DevTable s)[nat (DevCount s) := E],
     DevCount := DevCount s + 1\<rparr>"

definition DevFsRegisterCharDevice ::
  "string option \<Rightarrow> u32 \<Rightarrow> u32 \<Rightarrow> 'd CharDevOps \<Rightarrow> nat \<Rightarrow> ('d, 'z) devfs_scheme \<Rightarrow> int \<times> ('d, 'z) devfs_scheme"
where
  "DevFsRegisterCharDevice Name Major Minor Ops Ctx s =
     (case Name of
        None \<Rightarrow> (-1, s)
      | Some n \<Rightarrow>
          if DevCount s \<ge> MaxDevices then (-1, s)
          else if dev_find Name s \<noteq> 0 then (-1, s)
          else
            (let (E, s) = kmalloc s in
             if E = 0 then (-1, s)
             else
               (let (NameStore, s) = kmalloc s in
                if NameStore = 0 then (-1, kfree E s)
                else (0, append_entry E
                       \<lparr>deName = take 254 n, deMajor = Major, deMinor = Minor, deContext = Ctx, deOps = DevChar Ops\<rparr> s))))"

definition DevFsRegisterBlockDevice ::
  "string option \<Rightarrow> u32 \<Rightarrow> u32 \<Rightarrow> 'd BlockDevOps \<Rightarrow> nat \<Rightarrow> ('d, 'z) devfs_scheme \<Rightarrow> int \<times> ('d, 'z) devfs_scheme"
where
  "DevFsRegisterBlockDevice Name Major Minor Ops Ctx s =
     (case Name of
        None \<Rightarrow> (-1, s)
      | Some n \<Rightarrow>
          if DevCount s \<ge> MaxDevices then (-1, s)
          else if dev_find Name s \<noteq> 0 then (-1, s)
          else
            (let (E, s) = kmalloc s in
             if E = 0 then (-1, s)
             else (0, append_entry E
                    \<lparr>deName = n, deMajor = Major, deMinor = Minor, deContext = Ctx, deOps = DevBlock Ops\<rparr> s)))"

definition DevFsUnregisterDevice :: "string option \<Rightarrow> ('d, 'z) devfs_scheme \<Rightarrow> int \<times> ('d, 'z) devfs_scheme" where
  "DevFsUnregisterDevice Name s =
     (let idx = dev_index Name s in
      if idx < 0 then (-1, s)
      else
        (let s = kfree (DevTable s ! nat idx) s;
             T = fold (\<lambda>J T. T[J := T ! (J + 1)]) [nat idx..<nat (DevCount s - 1)] (DevTable s)
         in (0, s\<lparr>DevTable := T[nat (DevCount s - 1) := 0], DevCount := DevCount s - 1\<rparr>)))"

definition DevFsRegister :: "('d, 'z) devfs_scheme \<Rightarrow> (int \<times> ('d, 'z) devfs_scheme) option" where
  "DevFsRegister s = do {
     (r, s) \<leftarrow> VfsRegisterFs (Some \<lparr>FsName = Some ''devfs'', FsMount = 2, FsPriv = 0\<rparr>) s;
     Some (if r \<noteq> 0 then -1 else 0, s) }"

section \<open>Vnode operations (DevFS.c)\<close>

text \<open>The root's \<^verbatim>\<open>Priv\<close> is an allocation without content.\<close>

definition DevFsMountImpl :: "string option \<Rightarrow> string option \<Rightarrow> ('d, 'z) devfs_scheme \<Rightarrow> nat \<times> ('d, 'z) devfs_scheme" where
  "DevFsMountImpl Dev Opts s =
     (let (Sb, s) = kmalloc s in
      if Sb = 0 then (0, s)
      else
        (let (Root, s) = kmalloc s in
         if Root = 0 then (0, kfree Sb s)
         else
           (let (RPriv, s) = kmalloc s in
            if RPriv = 0 then (0, kfree Sb (kfree Root s))
            else
              (Sb, s\<lparr>Vnodes := (Vnodes s)(Root := \<lparr>vType = VNodeDIR, vOps = 2, vSb = Sb, vPriv = RPriv, vRefcnt = 1\<rparr>),
                     Superblocks := (Superblocks s)(Sb := \<lparr>sbType = 0, sbDev = 0, sbFlags = 0, sbRoot = Root,
                                                         sbOps = 2, sbPriv = 0\<rparr>),
                     DevSuper := Sb\<rparr>))))"

text \<open>A call of a driver's function.\<close>

definition drive :: "('d \<Rightarrow> 'r \<times> 'd) \<Rightarrow> ('d, 'z) devfs_scheme \<Rightarrow> 'r \<times> ('d, 'z) devfs_scheme" where
  "drive f s = (let (r, d) = f (Drv s) in (r, s\<lparr>Drv := d\<rparr>))"

definition set_file :: "nat \<Rightarrow> (File \<Rightarrow> File) \<Rightarrow> ('d, 'z) devfs_scheme \<Rightarrow> ('d, 'z) devfs_scheme" where
  "set_file F f s = s\<lparr>Files := (Files s)(F := f (Files s F))\<rparr>"

definition set_ctx :: "nat \<Rightarrow> (DevFsFileCtx \<Rightarrow> DevFsFileCtx) \<Rightarrow> ('d, 'z) devfs_scheme \<Rightarrow> ('d, 'z) devfs_scheme" where
  "set_ctx C f s = s\<lparr>FileCtxs := (FileCtxs s)(C := f (FileCtxs s C))\<rparr>"

definition DevVfsOpen :: "nat \<Rightarrow> nat \<Rightarrow> ('d, 'z) devfs_scheme \<Rightarrow> int \<times> ('d, 'z) devfs_scheme" where
  "DevVfsOpen Node F s =
     (if Node = 0 \<or> F = 0 then (-1, s)
      else if vType (Vnodes s Node) = VNodeDIR
      then (0, set_file F (\<lambda>X. X\<lparr>fNode := Node, fOffset := 0, fRefcnt := 1, fPriv := 0\<rparr>) s)
      else if vType (Vnodes s Node) = VNodeDEV
      then
        (let NPriv = vPriv (Vnodes s Node) in
         if NPriv = 0 \<or> NodeDevs s NPriv = 0 then (-1, s)
         else
           (let Dev = NodeDevs s NPriv; (FC, s) = kmalloc s in
            if FC = 0 then (-1, s)
            else
              (let s = s\<lparr>FileCtxs := (FileCtxs s)(FC := \<lparr>fcDev = Dev, fcLba = 0, fcOffset = 0\<rparr>)\<rparr>;
                   s = set_file F (\<lambda>X. X\<lparr>fNode := Node, fOffset := 0, fRefcnt := 1, fPriv := FC\<rparr>) s;
                   E = DevEntries s Dev
               in case (case deOps E of DevChar Ops \<Rightarrow> C_Open Ops | DevBlock Ops \<Rightarrow> B_Open Ops) of
                    None \<Rightarrow> (0, s)
                  | Some open_op \<Rightarrow> drive (open_op (deContext E)) s)))
      else (-1, s))"

definition DevVfsClose :: "nat \<Rightarrow> ('d, 'z) devfs_scheme \<Rightarrow> int \<times> ('d, 'z) devfs_scheme" where
  "DevVfsClose F s =
     (if F = 0 then (-1, s)
      else
        (let FC = fPriv (Files s F);
             s = (if FC \<noteq> 0 \<and> fcDev (FileCtxs s FC) \<noteq> 0
                  then
                    (let E = DevEntries s (fcDev (FileCtxs s FC)) in
                     case (case deOps E of DevChar Ops \<Rightarrow> C_Close Ops | DevBlock Ops \<Rightarrow> B_Close Ops) of
                       None \<Rightarrow> s
                     | Some close \<Rightarrow> snd (drive (close (deContext E)) s))
                  else s)
         in if fPriv (Files s F) \<noteq> 0
            then (0, set_file F (\<lambda>X. X\<lparr>fPriv := 0\<rparr>) (kfree (fPriv (Files s F)) s))
            else (0, s)))"

text \<open>The device a file is open on; 0 when there is none.\<close>

definition file_dev :: "nat \<Rightarrow> ('d, 'z) devfs_scheme \<Rightarrow> nat" where
  "file_dev F s = (let FC = fPriv (Files s F) in if FC = 0 then 0 else fcDev (FileCtxs s FC))"

text \<open>The end of each round of the streaming loops: the cursor moves on, into the next block at the end of one.\<close>

definition step_cursor :: "nat \<Rightarrow> int \<Rightarrow> int \<Rightarrow> ('d, 'z) devfs_scheme \<Rightarrow> ('d, 'z) devfs_scheme" where
  "step_cursor FC n Blk = set_ctx FC (\<lambda>C.
     let Off = fcOffset C + n in
     if Off \<ge> Blk then C\<lparr>fcOffset := 0, fcLba := fcLba C + 1\<rparr> else C\<lparr>fcOffset := Off\<rparr>)"

text \<open>The streaming loops. The result says whether the loop ended in the early return, the bytes done so far, and for
  reading the data. \<open>None\<close> is the \<^verbatim>\<open>memcpy\<close> of a negative length, which as a \<^verbatim>\<open>size_t\<close> is nearly \<open>2 ^ 64\<close> bytes.\<close>

partial_function (option) read_blocks ::
  "'d BlockDevOps \<Rightarrow> (nat \<Rightarrow> u64 \<Rightarrow> bool \<Rightarrow> int \<Rightarrow> 'd \<Rightarrow> (int \<times> string) \<times> 'd) \<Rightarrow> nat \<Rightarrow> nat \<Rightarrow> int \<Rightarrow> int \<Rightarrow> string \<Rightarrow>
   ('d, 'z) devfs_scheme \<Rightarrow> ((bool \<times> int \<times> string) \<times> ('d, 'z) devfs_scheme) option"
where
  "read_blocks Ops rd Ctx FC Remaining Tot Dst s =
     (if Remaining \<le> 0 then Some ((False, Tot, Dst), s)
      else
        (let Blk = BlockSize Ops;
             Off = fcOffset (FileCtxs s FC);
             ToRead = (if Remaining > Blk - Off then Blk - Off else Remaining);
             (Tmp, s) = kmalloc s
         in if Tmp = 0 then Some ((True, Tot, Dst), s)
            else
              (let ((rb, bytes), s) = drive (rd Ctx (fcLba (FileCtxs s FC)) True 1) s;
                   s = kfree Tmp s
               in if rb \<noteq> 1 then Some ((False, Tot, Dst), s)
                  else if ToRead < 0 then None
                  else read_blocks Ops rd Ctx FC (Remaining - ToRead) (Tot + ToRead)
                         (Dst @ take (nat ToRead) (drop (nat Off) bytes)) (step_cursor FC ToRead Blk s))))"

partial_function (option) write_blocks ::
  "'d BlockDevOps \<Rightarrow> (nat \<Rightarrow> u64 \<Rightarrow> string option \<Rightarrow> int \<Rightarrow> 'd \<Rightarrow> int \<times> 'd) \<Rightarrow> nat \<Rightarrow> nat \<Rightarrow> int \<Rightarrow> int \<Rightarrow> string \<Rightarrow>
   ('d, 'z) devfs_scheme \<Rightarrow> ((bool \<times> int) \<times> ('d, 'z) devfs_scheme) option"
where
  "write_blocks Ops wr Ctx FC Remaining Tot Src s =
     (if Remaining \<le> 0 then Some ((False, Tot), s)
      else
        (let Blk = BlockSize Ops;
             Off = fcOffset (FileCtxs s FC);
             ToWrite = (if Remaining > Blk - Off then Blk - Off else Remaining);
             (Tmp, s) = kmalloc s
         in if Tmp = 0 then Some ((True, Tot), s)
            else
              (case B_ReadBlocks Ops of
                 None \<Rightarrow> None
               | Some rd \<Rightarrow>
                   (let ((rb, bytes), s) = drive (rd Ctx (fcLba (FileCtxs s FC)) True 1) s;
                        bytes = (if rb \<noteq> 1 then replicate (nat Blk) (CHR 0x00) else bytes)
                    in if ToWrite < 0 then None
                       else
                         (let chunk = take (nat ToWrite) (drop (nat Tot) Src);
                              bytes = take (nat Off) bytes @ chunk @ drop (nat (Off + ToWrite)) bytes;
                              (wb, s) = drive (wr Ctx (fcLba (FileCtxs s FC)) (Some bytes) 1) s;
                              s = kfree Tmp s
                          in if wb \<noteq> 1 then Some ((False, Tot), s)
                             else write_blocks Ops wr Ctx FC (Remaining - ToWrite) (Tot + ToWrite) Src
                                    (step_cursor FC ToWrite Blk s))))))"

definition DevVfsRead :: "nat \<Rightarrow> bool \<Rightarrow> int \<Rightarrow> ('d, 'z) devfs_scheme \<Rightarrow> ((int \<times> string) \<times> ('d, 'z) devfs_scheme) option" where
  "DevVfsRead F Buf Len s =
     (if F = 0 \<or> \<not> Buf \<or> Len \<le> 0 then Some ((-1, []), s)
      else if file_dev F s = 0 then Some ((-1, []), s)
      else
        (let E = DevEntries s (file_dev F s) in
         case deOps E of
           DevChar Ops \<Rightarrow>
             (case C_Read Ops of
                None \<Rightarrow> Some ((-1, []), s)
              | Some rd \<Rightarrow>
                  (let ((r, data), s) = drive (rd (deContext E) True Len) s;
                       s = (if r > 0 then set_file F (\<lambda>X. X\<lparr>fOffset := fOffset X + r\<rparr>) s else s)
                   in Some ((r, data), s)))
         | DevBlock Ops \<Rightarrow>
             (case B_ReadBlocks Ops of
                None \<Rightarrow> Some ((-1, []), s)
              | Some rd \<Rightarrow>
                  if BlockSize Ops \<le> 0 then Some ((-1, []), s)
                  else do {
                    ((Early, Tot, Dst), s) \<leftarrow> read_blocks Ops rd (deContext E) (fPriv (Files s F)) Len 0 [] s;
                    if Early then Some ((if Tot > 0 then Tot else -1, Dst), s)
                    else Some ((Tot, Dst), set_file F (\<lambda>X. X\<lparr>fOffset := fOffset X + Tot\<rparr>) s) })))"

definition DevVfsWrite :: "nat \<Rightarrow> string option \<Rightarrow> int \<Rightarrow> ('d, 'z) devfs_scheme \<Rightarrow> (int \<times> ('d, 'z) devfs_scheme) option" where
  "DevVfsWrite F Buf Len s =
     (case Buf of
        None \<Rightarrow> Some (-1, s)
      | Some Src \<Rightarrow>
          if F = 0 \<or> Len \<le> 0 then Some (-1, s)
          else if file_dev F s = 0 then Some (-1, s)
          else
            (let E = DevEntries s (file_dev F s) in
             case deOps E of
               DevChar Ops \<Rightarrow>
                 (case C_Write Ops of
                    None \<Rightarrow> Some (-1, s)
                  | Some wr \<Rightarrow>
                      (let (w, s) = drive (wr (deContext E) (Some Src) Len) s;
                           s = (if w > 0 then set_file F (\<lambda>X. X\<lparr>fOffset := fOffset X + w\<rparr>) s else s)
                       in Some (w, s)))
             | DevBlock Ops \<Rightarrow>
                 (case B_WriteBlocks Ops of
                    None \<Rightarrow> Some (-1, s)
                  | Some wr \<Rightarrow>
                      if BlockSize Ops \<le> 0 then Some (-1, s)
                      else do {
                        ((Early, Tot), s) \<leftarrow> write_blocks Ops wr (deContext E) (fPriv (Files s F)) Len 0 Src s;
                        if Early then Some (if Tot > 0 then Tot else -1, s)
                        else Some (Tot, set_file F (\<lambda>X. X\<lparr>fOffset := fOffset X + Tot\<rparr>) s) })))"

text \<open>The new position; \<open>None\<close> is the division by a block size of zero. \<open>sdiv\<close> and \<open>smod\<close> truncate,
  as division does in C.\<close>

definition DevVfsLseek :: "nat \<Rightarrow> int \<Rightarrow> int \<Rightarrow> ('d, 'z) devfs_scheme \<Rightarrow> (int \<times> ('d, 'z) devfs_scheme) option" where
  "DevVfsLseek F Off Whence s =
     (if F = 0 \<or> file_dev F s = 0 then Some (-1, s)
      else
        (let E = DevEntries s (file_dev F s);
             Pos = fOffset (Files s F);
             Base = (if Whence = 0 then Some 0
                     else if Whence = 1 then Some Pos
                     else if Whence = 2
                     then (case deOps E of
                             DevBlock Ops \<Rightarrow> if BlockSize Ops > 0 then Some (Pos - Pos smod BlockSize Ops + BlockSize Ops) else None
                           | DevChar _ \<Rightarrow> None)
                     else None)
         in case Base of
              None \<Rightarrow> Some (-1, s)
            | Some b \<Rightarrow>
                (let New = (if b + Off < 0 then 0 else b + Off);
                     s = set_file F (\<lambda>X. X\<lparr>fOffset := New\<rparr>) s
                 in case deOps E of
                      DevBlock Ops \<Rightarrow>
                        if BlockSize Ops = 0 then None
                        else Some (New, set_ctx (fPriv (Files s F))
                               (\<lambda>C. C\<lparr>fcLba := word_of_int (New sdiv BlockSize Ops), fcOffset := New smod BlockSize Ops\<rparr>) s)
                    | DevChar _ \<Rightarrow> Some (New, set_ctx (fPriv (Files s F)) (\<lambda>C. C\<lparr>fcOffset := New\<rparr>) s))))"

definition DevVfsIoctl :: "nat \<Rightarrow> u64 \<Rightarrow> u64 \<Rightarrow> ('d, 'z) devfs_scheme \<Rightarrow> int \<times> ('d, 'z) devfs_scheme" where
  "DevVfsIoctl F Cmd Arg s =
     (if F = 0 \<or> file_dev F s = 0 then (-1, s)
      else
        (let E = DevEntries s (file_dev F s) in
         case (case deOps E of DevChar Ops \<Rightarrow> C_Ioctl Ops | DevBlock Ops \<Rightarrow> B_Ioctl Ops) of
           None \<Rightarrow> (-1, s)
         | Some ioctl \<Rightarrow> drive (ioctl (deContext E) Cmd Arg) s))"

text \<open>The record is filled before the type is known to be one of the two; \<open>None\<close> stands for a record that
  the caller must not read.\<close>

definition DevVfsStat :: "nat \<Rightarrow> ('d, 'z) devfs_scheme \<Rightarrow> (int \<times> VfsStat option) \<times> ('d, 'z) devfs_scheme" where
  "DevVfsStat Node s =
     (if Node = 0 then ((-1, None), s)
      else
        (let zero = \<lparr>Sec = 0, Nsec = 0\<rparr>;
             St = \<lparr>StIno = int Node, StSize = 0, StBlocks = 0, StBlkSize = 0, StNlink = 1, StRdev = 0, StDev = 0,
                   StFlags = 0, StType = vType (Vnodes s Node), StPerm = \<lparr>Mode = 0, Uid = 0, Gid = 0\<rparr>,
                   StAtime = zero, StMtime = zero, StCtime = zero\<rparr>
         in if vType (Vnodes s Node) = VNodeDIR then ((0, Some St), s)
            else if vType (Vnodes s Node) = VNodeDEV
            then
              (let NPriv = vPriv (Vnodes s Node);
                   St = (if NPriv \<noteq> 0 \<and> NodeDevs s NPriv \<noteq> 0
                         then (case deOps (DevEntries s (NodeDevs s NPriv)) of
                                 DevBlock Ops \<Rightarrow> St\<lparr>StBlkSize := BlockSize Ops\<rparr>
                               | DevChar _ \<Rightarrow> St)
                         else St)
               in ((0, Some St), s))
            else ((-1, None), s)))"

definition DevVfsReaddir :: "nat \<Rightarrow> int \<Rightarrow> ('d, 'z) devfs_scheme \<Rightarrow> (int \<times> VfsDirEnt list) \<times> ('d, 'z) devfs_scheme" where
  "DevVfsReaddir Dir BufLen s =
     (if Dir = 0 \<or> BufLen \<le> 0 then ((-1, []), s)
      else if vType (Vnodes s Dir) \<noteq> VNodeDIR then ((-1, []), s)
      else
        (let Max = BufLen div sizeof_VfsDirEnt in
         if Max \<le> 0 then ((-1, []), s)
         else
           (let Dots = [\<lparr>DeName = ''.'', DeType = VNodeDIR, DeIno = int Dir\<rparr>, \<lparr>DeName = ''..'', DeType = VNodeDIR, DeIno = int Dir\<rparr>];
                Devs = map (\<lambda>I. \<lparr>DeName = take 255 (deName (DevEntries s (DevTable s ! I))), DeType = VNodeDEV, DeIno = int I\<rparr>)
                         (filter (\<lambda>I. DevTable s ! I \<noteq> 0) [0..<nat (DevCount s)]);
                Out = take (nat Max) (Dots @ Devs)
            in ((int (length Out) * sizeof_VfsDirEnt, Out), s))))"

definition DevVfsLookup :: "nat \<Rightarrow> string \<Rightarrow> ('d, 'z) devfs_scheme \<Rightarrow> nat \<times> ('d, 'z) devfs_scheme" where
  "DevVfsLookup Dir Name s =
     (if Dir = 0 then (0, s)
      else if vType (Vnodes s Dir) \<noteq> VNodeDIR then (0, s)
      else
        (let E = dev_find (Some Name) s in
         if E = 0 then (0, s)
         else
           (let (V, s) = kmalloc s in
            if V = 0 then (0, s)
            else
              (let (NPriv, s) = kmalloc s in
               if NPriv = 0 then (0, kfree V s)
               else
                 (V, s\<lparr>NodeDevs := (NodeDevs s)(NPriv := E),
                       Vnodes := (Vnodes s)(V := \<lparr>vType = VNodeDEV, vOps = 2, vSb = vSb (Vnodes s Dir), vPriv = NPriv,
                                                 vRefcnt = 1\<rparr>)\<rparr>)))))"

definition DevVfsCreate :: "nat \<Rightarrow> string \<Rightarrow> int \<Rightarrow> VfsPerm \<Rightarrow> ('d, 'z) devfs_scheme \<Rightarrow> int \<times> ('d, 'z) devfs_scheme" where
  "DevVfsCreate Dir Name flags perm s = (-1, s)"

definition DevVfsMkdir :: "nat \<Rightarrow> string \<Rightarrow> VfsPerm \<Rightarrow> ('d, 'z) devfs_scheme \<Rightarrow> int \<times> ('d, 'z) devfs_scheme" where
  "DevVfsMkdir Dir Name perm s = (-1, s)"

definition DevVfsSync :: "nat \<Rightarrow> ('d, 'z) devfs_scheme \<Rightarrow> int \<times> ('d, 'z) devfs_scheme" where
  "DevVfsSync Node s = (0, s)"

definition DevVfsSuperSync :: "nat \<Rightarrow> ('d, 'z) devfs_scheme \<Rightarrow> int \<times> ('d, 'z) devfs_scheme" where
  "DevVfsSuperSync Sb s = (0, s)"

definition DevVfsSuperStatFs :: "nat \<Rightarrow> ('d, 'z) devfs_scheme \<Rightarrow> (int \<times> VfsStatFs option) \<times> ('d, 'z) devfs_scheme" where
  "DevVfsSuperStatFs Sb s =
     (if Sb = 0 then ((-1, None), s)
      else ((0, Some \<lparr>TypeId = 0x64657666, Bsize = 0, Blocks = 0, Bfree = 0, Bavail = 0, FsFiles = DevCount s,
                      Ffree = 0, Namelen = 255, StatFsFlags = 0\<rparr>), s))"

definition DevVfsSuperRelease :: "nat \<Rightarrow> ('d, 'z) devfs_scheme \<Rightarrow> ('d, 'z) devfs_scheme" where
  "DevVfsSuperRelease Sb s =
     (if Sb = 0 then s
      else
        (let Root = sbRoot (Superblocks s Sb);
             s = (if Root \<noteq> 0
                  then (let RPriv = vPriv (Vnodes s Root);
                            s = (if RPriv \<noteq> 0 then kfree RPriv s else s);
                            s = kfree Root s
                        in s\<lparr>Superblocks := (Superblocks s)(Sb := (Superblocks s Sb)\<lparr>sbRoot := 0\<rparr>)\<rparr>)
                  else s)
         in kfree Sb s))"

definition DevVfsSuperUmount :: "nat \<Rightarrow> ('d, 'z) devfs_scheme \<Rightarrow> int \<times> ('d, 'z) devfs_scheme" where
  "DevVfsSuperUmount Sb s = (0, s)"

text \<open>Table 2 of each kind. The entries of a table return, so the three operations that may not are put in through
  \<open>the\<close>, whose value on \<open>None\<close> is left open: nothing can be shown of such a call.\<close>

definition DevVfsOps :: "('d, 'z) devfs_scheme VnodeOps" where
  "DevVfsOps =
     \<lparr>op_Open = Some DevVfsOpen, op_Close = Some DevVfsClose, op_Read = Some (\<lambda>F n s. the (DevVfsRead F True n s)),
      op_Write = Some (\<lambda>F b n s. the (DevVfsWrite F (Some b) n s)), op_Lseek = Some (\<lambda>F o' w s. the (DevVfsLseek F o' w s)),
      op_Ioctl = Some DevVfsIoctl, op_Stat = Some DevVfsStat, op_Readdir = Some DevVfsReaddir,
      op_Lookup = Some DevVfsLookup, op_Create = Some DevVfsCreate, op_Unlink = None, op_Mkdir = Some DevVfsMkdir,
      op_Rmdir = None, op_Symlink = None, op_Readlink = None, op_Link = None, op_Rename = None, op_Chmod = None,
      op_Chown = None, op_Truncate = None, op_Sync = Some DevVfsSync, op_Map = None, op_Unmap = None\<rparr>"

definition DevVfsSuperOps :: "('d, 'z) devfs_scheme SuperOps" where
  "DevVfsSuperOps =
     \<lparr>sop_Sync = Some DevVfsSuperSync, sop_StatFs = Some DevVfsSuperStatFs,
      sop_Release = Some DevVfsSuperRelease, sop_Umount = Some DevVfsSuperUmount\<rparr>"

definition dev_tables :: "('d, 'z) devfs_scheme tables \<Rightarrow> ('d, 'z) devfs_scheme tables" where
  "dev_tables T = T\<lparr>VOps := (VOps T)(2 := DevVfsOps), SOps := (SOps T)(2 := DevVfsSuperOps),
                    MountHooks := (MountHooks T)(2 := DevFsMountImpl)\<rparr>"

section \<open>The devices null and zero (DevFS.c)\<close>

definition null_read :: "nat \<Rightarrow> bool \<Rightarrow> int \<Rightarrow> 'd \<Rightarrow> (int \<times> string) \<times> 'd" where
  "null_read Ctx Buf Len d = ((0, []), d)"

definition null_write :: "nat \<Rightarrow> string option \<Rightarrow> int \<Rightarrow> 'd \<Rightarrow> int \<times> 'd" where
  "null_write Ctx Buf Len d = (Len, d)"

definition null_open :: "nat \<Rightarrow> 'd \<Rightarrow> int \<times> 'd" where
  "null_open Ctx d = (0, d)"

definition null_close :: "nat \<Rightarrow> 'd \<Rightarrow> int \<times> 'd" where
  "null_close Ctx d = (0, d)"

definition null_ioctl :: "nat \<Rightarrow> u64 \<Rightarrow> u64 \<Rightarrow> 'd \<Rightarrow> int \<times> 'd" where
  "null_ioctl Ctx Cmd Arg d = (-1, d)"

definition zero_read :: "nat \<Rightarrow> bool \<Rightarrow> int \<Rightarrow> 'd \<Rightarrow> (int \<times> string) \<times> 'd" where
  "zero_read Ctx Buf Len d = (if \<not> Buf \<or> Len \<le> 0 then ((-1, []), d) else ((Len, replicate (nat Len) (CHR 0x00)), d))"

definition zero_write :: "nat \<Rightarrow> string option \<Rightarrow> int \<Rightarrow> 'd \<Rightarrow> int \<times> 'd" where
  "zero_write Ctx Buf Len d = (Len, d)"

definition NullOps :: "'d CharDevOps" where
  "NullOps = \<lparr>C_Open = Some null_open, C_Close = Some null_close, C_Read = Some null_read, C_Write = Some null_write,
     C_Ioctl = Some null_ioctl\<rparr>"

definition ZeroOps :: "'d CharDevOps" where
  "ZeroOps = \<lparr>C_Open = Some null_open, C_Close = Some null_close, C_Read = Some zero_read, C_Write = Some zero_write,
     C_Ioctl = Some null_ioctl\<rparr>"

definition DevFsRegisterSeedDevices :: "('d, 'z) devfs_scheme \<Rightarrow> int \<times> ('d, 'z) devfs_scheme" where
  "DevFsRegisterSeedDevices s =
     (let (_, s) = DevFsRegisterCharDevice (Some ''null'') 1 3 NullOps 0 s;
          (_, s) = DevFsRegisterCharDevice (Some ''zero'') 1 5 ZeroOps 0 s
      in (0, s))"

section \<open>Disks and partitions (BlockDev.c)\<close>

record 'd BlockDisk =
  bdName :: "string option"
  bdCtrlCtx :: nat
  TotalBlocks :: u64
  bdBlockSize :: int
  bdOps :: "'d BlockDevOps"

record BlockPart =
  bpName :: "string option"
  bpParent :: nat
  StartLba :: u64
  NumBlocks :: u64
  bpBlockSize :: int

record 'd CharBus =
  cbName :: "string option"
  cbCtrlCtx :: nat
  cbOps :: "'d CharDevOps"

text \<open>What the functions of the block and character layers work on: the descriptors that the controllers' drivers
  registered, and the state of those drivers.\<close>

record 'd drivers =
  Disks :: "nat \<Rightarrow> 'd BlockDisk"
  Parts :: "nat \<Rightarrow> BlockPart"
  Buses :: "nat \<Rightarrow> 'd CharBus"
  Controllers :: 'd

definition control :: "('d \<Rightarrow> 'r \<times> 'd) \<Rightarrow> 'd drivers \<Rightarrow> 'r \<times> 'd drivers" where
  "control f s = (let (r, d) = f (Controllers s) in (r, s\<lparr>Controllers := d\<rparr>))"

definition BlkDiskOpen :: "nat \<Rightarrow> 'd drivers \<Rightarrow> int \<times> 'd drivers" where
  "BlkDiskOpen Ctx s =
     (if Ctx = 0 then (-1, s)
      else (case B_Open (bdOps (Disks s Ctx)) of None \<Rightarrow> (0, s) | Some f \<Rightarrow> control (f (bdCtrlCtx (Disks s Ctx))) s))"

definition BlkDiskClose :: "nat \<Rightarrow> 'd drivers \<Rightarrow> int \<times> 'd drivers" where
  "BlkDiskClose Ctx s =
     (if Ctx = 0 then (-1, s)
      else (case B_Close (bdOps (Disks s Ctx)) of None \<Rightarrow> (0, s) | Some f \<Rightarrow> control (f (bdCtrlCtx (Disks s Ctx))) s))"

text \<open>\<^verbatim>\<open>doCount\<close>: the number of blocks that are left is compared after a cast to \<^verbatim>\<open>long\<close>.\<close>

definition do_count :: "int \<Rightarrow> u64 \<Rightarrow> int" where
  "do_count cnt left = (if cnt > sint left then sint left else cnt)"

definition BlkDiskReadBlocks :: "nat \<Rightarrow> u64 \<Rightarrow> bool \<Rightarrow> int \<Rightarrow> 'd drivers \<Rightarrow> (int \<times> string) \<times> 'd drivers" where
  "BlkDiskReadBlocks Ctx Lba Buf cnt s =
     (if Ctx = 0 \<or> \<not> Buf \<or> cnt \<le> 0 then ((0, []), s)
      else if TotalBlocks (Disks s Ctx) \<le> Lba then ((0, []), s)
      else
        (case B_ReadBlocks (bdOps (Disks s Ctx)) of
           None \<Rightarrow> ((0, []), s)
         | Some rd \<Rightarrow>
             if bdCtrlCtx (Disks s Ctx) = 0 then ((0, []), s)
             else
               (let ((got, data), s) = control (rd (bdCtrlCtx (Disks s Ctx)) Lba Buf
                                                 (do_count cnt (TotalBlocks (Disks s Ctx) - Lba))) s
                in ((if got < 0 then 0 else got, data), s))))"

definition BlkDiskWriteBlocks :: "nat \<Rightarrow> u64 \<Rightarrow> string option \<Rightarrow> int \<Rightarrow> 'd drivers \<Rightarrow> int \<times> 'd drivers" where
  "BlkDiskWriteBlocks Ctx Lba Buf cnt s =
     (if Ctx = 0 \<or> Buf = None \<or> cnt \<le> 0 then (0, s)
      else if TotalBlocks (Disks s Ctx) \<le> Lba then (0, s)
      else
        (case B_WriteBlocks (bdOps (Disks s Ctx)) of
           None \<Rightarrow> (0, s)
         | Some wr \<Rightarrow>
             if bdCtrlCtx (Disks s Ctx) = 0 then (0, s)
             else
               (let (put, s) = control (wr (bdCtrlCtx (Disks s Ctx)) Lba Buf
                                         (do_count cnt (TotalBlocks (Disks s Ctx) - Lba))) s
                in (if put < 0 then 0 else put, s))))"

definition BlkDiskIoctl :: "nat \<Rightarrow> u64 \<Rightarrow> u64 \<Rightarrow> 'd drivers \<Rightarrow> int \<times> 'd drivers" where
  "BlkDiskIoctl Ctx Cmd Arg s =
     (if Ctx = 0 then (-1, s)
      else
        (case B_Ioctl (bdOps (Disks s Ctx)) of
           None \<Rightarrow> (0, s)
         | Some f \<Rightarrow> if bdCtrlCtx (Disks s Ctx) = 0 then (0, s) else control (f (bdCtrlCtx (Disks s Ctx)) Cmd Arg) s))"

definition BlkPartOpen :: "nat \<Rightarrow> 'd drivers \<Rightarrow> int \<times> 'd drivers" where
  "BlkPartOpen Ctx s = (if Ctx = 0 \<or> bpParent (Parts s Ctx) = 0 then (-1, s) else (0, s))"

definition BlkPartClose :: "nat \<Rightarrow> 'd drivers \<Rightarrow> int \<times> 'd drivers" where
  "BlkPartClose Ctx s = (0, s)"

definition BlkPartReadBlocks :: "nat \<Rightarrow> u64 \<Rightarrow> bool \<Rightarrow> int \<Rightarrow> 'd drivers \<Rightarrow> (int \<times> string) \<times> 'd drivers" where
  "BlkPartReadBlocks Ctx Lba Buf cnt s =
     (let P = Parts s Ctx; Parent = (if Ctx = 0 then 0 else bpParent P); D = Disks s Parent in
      if Ctx = 0 \<or> Parent = 0 \<or> \<not> Buf \<or> cnt \<le> 0 then ((0, []), s)
      else if NumBlocks P \<le> Lba then ((0, []), s)
      else
        (case B_ReadBlocks (bdOps D) of
           None \<Rightarrow> ((0, []), s)
         | Some rd \<Rightarrow>
             if bdCtrlCtx D = 0 then ((0, []), s)
             else
               (let ((got, data), s) = control (rd (bdCtrlCtx D) (StartLba P + Lba) Buf (do_count cnt (NumBlocks P - Lba))) s
                in ((if got < 0 then 0 else got, data), s))))"

definition BlkPartWriteBlocks :: "nat \<Rightarrow> u64 \<Rightarrow> string option \<Rightarrow> int \<Rightarrow> 'd drivers \<Rightarrow> int \<times> 'd drivers" where
  "BlkPartWriteBlocks Ctx Lba Buf cnt s =
     (let P = Parts s Ctx; Parent = (if Ctx = 0 then 0 else bpParent P); D = Disks s Parent in
      if Ctx = 0 \<or> Parent = 0 \<or> Buf = None \<or> cnt \<le> 0 then (0, s)
      else if NumBlocks P \<le> Lba then (0, s)
      else
        (case B_WriteBlocks (bdOps D) of
           None \<Rightarrow> (0, s)
         | Some wr \<Rightarrow>
             if bdCtrlCtx D = 0 then (0, s)
             else
               (let (put, s) = control (wr (bdCtrlCtx D) (StartLba P + Lba) Buf (do_count cnt (NumBlocks P - Lba))) s
                in (if put < 0 then 0 else put, s))))"

definition BlkPartIoctl :: "nat \<Rightarrow> u64 \<Rightarrow> u64 \<Rightarrow> 'd drivers \<Rightarrow> int \<times> 'd drivers" where
  "BlkPartIoctl Ctx Cmd Arg s = (if Ctx = 0 then (-1, s) else (0, s))"

definition DiskOps :: "int \<Rightarrow> 'd drivers BlockDevOps" where
  "DiskOps b = \<lparr>B_Open = Some BlkDiskOpen, B_Close = Some BlkDiskClose, B_ReadBlocks = Some BlkDiskReadBlocks,
     B_WriteBlocks = Some BlkDiskWriteBlocks, B_Ioctl = Some BlkDiskIoctl, BlockSize = b\<rparr>"

definition PartOps :: "int \<Rightarrow> 'd drivers BlockDevOps" where
  "PartOps b = \<lparr>B_Open = Some BlkPartOpen, B_Close = Some BlkPartClose, B_ReadBlocks = Some BlkPartReadBlocks,
     B_WriteBlocks = Some BlkPartWriteBlocks, B_Ioctl = Some BlkPartIoctl, BlockSize = b\<rparr>"

definition BlockRegisterDisk :: "nat \<Rightarrow> ('d drivers, 'z) devfs_scheme \<Rightarrow> int \<times> ('d drivers, 'z) devfs_scheme" where
  "BlockRegisterDisk Disk s =
     (let D = Disks (Drv s) Disk in
      if Disk = 0 \<or> bdName D = None \<or> bdBlockSize D \<le> 0 then (-1, s)
      else DevFsRegisterBlockDevice (bdName D) 8 0 (DiskOps (bdBlockSize D)) Disk s)"

definition BlockRegisterPartition :: "nat \<Rightarrow> ('d drivers, 'z) devfs_scheme \<Rightarrow> int \<times> ('d drivers, 'z) devfs_scheme" where
  "BlockRegisterPartition Part s =
     (let P = Parts (Drv s) Part in
      if Part = 0 \<or> bpName P = None \<or> bpParent P = 0 then (-1, s)
      else DevFsRegisterBlockDevice (bpName P) 8 0 (PartOps (bpBlockSize P)) Part s)"

text \<open>The two partition-table scanners are stubs in the source.\<close>

definition BlockRegisterGPTPartitions :: "nat \<Rightarrow> nat \<Rightarrow> nat \<Rightarrow> int \<Rightarrow> 's \<Rightarrow> int \<times> 's" where
  "BlockRegisterGPTPartitions Disk GptHeader GptEntries EntryCount s = (0, s)"

definition BlockRegisterMBRPartitions :: "nat \<Rightarrow> nat \<Rightarrow> 's \<Rightarrow> int \<times> 's" where
  "BlockRegisterMBRPartitions Disk MbrSector s = (0, s)"

section \<open>Character buses (CharsDevs/Bus.c)\<close>

definition bus_ok :: "nat \<Rightarrow> 'd drivers \<Rightarrow> bool" where
  "bus_ok Ctx s \<longleftrightarrow> Ctx \<noteq> 0 \<and> cbName (Buses s Ctx) \<noteq> None \<and> cbCtrlCtx (Buses s Ctx) \<noteq> 0"

definition CharBusOpen :: "nat \<Rightarrow> 'd drivers \<Rightarrow> int \<times> 'd drivers" where
  "CharBusOpen Ctx s =
     (if \<not> bus_ok Ctx s then (-1, s)
      else (case C_Open (cbOps (Buses s Ctx)) of None \<Rightarrow> (0, s) | Some f \<Rightarrow> control (f (cbCtrlCtx (Buses s Ctx))) s))"

definition CharBusClose :: "nat \<Rightarrow> 'd drivers \<Rightarrow> int \<times> 'd drivers" where
  "CharBusClose Ctx s =
     (if \<not> bus_ok Ctx s then (-1, s)
      else (case C_Close (cbOps (Buses s Ctx)) of None \<Rightarrow> (0, s) | Some f \<Rightarrow> control (f (cbCtrlCtx (Buses s Ctx))) s))"

definition CharBusRead :: "nat \<Rightarrow> bool \<Rightarrow> int \<Rightarrow> 'd drivers \<Rightarrow> (int \<times> string) \<times> 'd drivers" where
  "CharBusRead Ctx Buf Len s =
     (if \<not> bus_ok Ctx s \<or> \<not> Buf \<or> Len \<le> 0 then ((0, []), s)
      else
        (case C_Read (cbOps (Buses s Ctx)) of
           None \<Rightarrow> ((0, []), s)
         | Some f \<Rightarrow>
             (let ((Got, data), s) = control (f (cbCtrlCtx (Buses s Ctx)) Buf Len) s
              in ((if Got < 0 then 0 else Got, data), s))))"

definition CharBusWrite :: "nat \<Rightarrow> string option \<Rightarrow> int \<Rightarrow> 'd drivers \<Rightarrow> int \<times> 'd drivers" where
  "CharBusWrite Ctx Buf Len s =
     (if \<not> bus_ok Ctx s \<or> Buf = None \<or> Len \<le> 0 then (-1, s)
      else
        (case C_Write (cbOps (Buses s Ctx)) of
           None \<Rightarrow> (-1, s)
         | Some f \<Rightarrow>
             (let (Put, s) = control (f (cbCtrlCtx (Buses s Ctx)) Buf Len) s
              in (if Put < 0 then -1 else Put, s))))"

definition CharBusIoctl :: "nat \<Rightarrow> u64 \<Rightarrow> u64 \<Rightarrow> 'd drivers \<Rightarrow> int \<times> 'd drivers" where
  "CharBusIoctl Ctx Cmd Arg s =
     (if \<not> bus_ok Ctx s then (-1, s)
      else (case C_Ioctl (cbOps (Buses s Ctx)) of None \<Rightarrow> (0, s) | Some f \<Rightarrow> control (f (cbCtrlCtx (Buses s Ctx)) Cmd Arg) s))"

definition BusOps :: "'d drivers CharDevOps" where
  "BusOps = \<lparr>C_Open = Some CharBusOpen, C_Close = Some CharBusClose, C_Read = Some CharBusRead,
     C_Write = Some CharBusWrite, C_Ioctl = Some CharBusIoctl\<rparr>"

definition CharRegisterBus :: "nat \<Rightarrow> u32 \<Rightarrow> u32 \<Rightarrow> ('d drivers, 'z) devfs_scheme \<Rightarrow> int \<times> ('d drivers, 'z) devfs_scheme" where
  "CharRegisterBus Bus Major Minor s =
     (let B = Buses (Drv s) Bus in
      if Bus = 0 \<or> cbName B = None \<or> cbCtrlCtx B = 0 then (-1, s)
      else if C_Open (cbOps B) = None \<or> C_Close (cbOps B) = None \<or> C_Read (cbOps B) = None \<or>
              C_Write (cbOps B) = None \<or> C_Ioctl (cbOps B) = None then (-1, s)
      else DevFsRegisterCharDevice (cbName B) Major Minor BusOps Bus s)"

section \<open>Device names (BlockNameHelpers.c, CharNameHelpers.c)\<close>

text \<open>The result of each is the return value and what the buffer then holds as a string, when the name was written.\<close>

definition BlockMakeName :: "bool \<Rightarrow> int \<Rightarrow> string option \<Rightarrow> int \<Rightarrow> int \<times> string option" where
  "BlockMakeName Out Cap Prefix Index =
     (case Prefix of
        None \<Rightarrow> (-1, None)
      | Some p \<Rightarrow>
          if \<not> Out \<or> Cap \<le> 0 then (-1, None)
          else
            (let suffix = (char_of (nat ((97 + Index smod 26) mod 256)) :: char) in
             if int (length p) + 1 + 1 > Cap then (-2, None)
             else (0, Some (p @ [suffix]))))"

text \<open>The digits of a number, the last first; none for zero.\<close>

function dec_rev :: "nat \<Rightarrow> string" where
  "dec_rev t = (if t > 0 then char_of (48 + t mod 10) # dec_rev (t div 10) else [])"
  by pat_completeness auto
termination
  by (relation "measure id") auto

declare dec_rev.simps [simp del]

text \<open>The digits go through two buffers of 16 bytes; \<open>None\<close> is a number that does not fit.\<close>

definition BlockMakePartName :: "bool \<Rightarrow> int \<Rightarrow> string option \<Rightarrow> int \<Rightarrow> (int \<times> string option) option" where
  "BlockMakePartName Out Cap DiskName PartIndex =
     (case DiskName of
        None \<Rightarrow> Some (-1, None)
      | Some d \<Rightarrow>
          if \<not> Out \<or> Cap \<le> 0 then Some (-1, None)
          else
            (let idx = (if PartIndex \<le> 0 then 1 else PartIndex); num = rev (dec_rev (nat idx)) in
             if length num \<ge> 16 then None
             else if int (length d) + int (length num) + 1 > Cap then Some (-2, None)
             else Some (0, Some (d @ num))))"

text \<open>The bytes that \<^verbatim>\<open>CharMakeName\<close> leaves in the buffer: the terminator is written only when there is room for it.\<close>

definition CharMakeName :: "bool \<Rightarrow> int \<Rightarrow> string option \<Rightarrow> int \<Rightarrow> int \<times> string option" where
  "CharMakeName Out Cap Prefix Index =
     (case Prefix of
        None \<Rightarrow> (-1, None)
      | Some p \<Rightarrow>
          if \<not> Out \<or> Cap \<le> 0 then (-1, None)
          else if int (length p) \<ge> Cap then (-1, None)
          else
            (let N = unat (word_of_int Index :: u64);
                 digits = (if N = 0 then ''0'' else rev (take 20 (dec_rev N)))
             in if int (length p) + int (length digits) > Cap then (-1, None)
                else
                  (let Pos = length p + length digits
                   in (int Pos, Some (p @ digits @ (if int Pos < Cap then [CHR 0x00] else []))))))"

definition CharMakeSubName :: "bool \<Rightarrow> int \<Rightarrow> string option \<Rightarrow> int \<Rightarrow> int \<times> string option" where
  "CharMakeSubName Out Cap Base SubIndex = CharMakeName Out Cap Base SubIndex"

section \<open>Driver modules of the boot image (DevInitMgr.c)\<close>

definition is_dec :: "char \<Rightarrow> bool" where
  "is_dec c \<longleftrightarrow> 48 \<le> (of_char c :: nat) \<and> (of_char c :: nat) \<le> 57"

text \<open>\<^verbatim>\<open>atol\<close> of a string of digits, in 64-bit arithmetic.\<close>

definition digits_long :: "string \<Rightarrow> int" where
  "digits_long ds = sint (fold (\<lambda>c r. r * 10 + word_of_nat (of_char c - 48)) ds (0 :: u64))"

definition module_seq :: "string \<Rightarrow> int" where
  "module_seq Name = (let NumBuf = take 31 (takeWhile is_dec Name) in if NumBuf = [] then -1 else digits_long NumBuf)"

definition is_module :: "string \<Rightarrow> bool" where
  "is_module Name \<longleftrightarrow> length Name > 3 \<and> drop (length Name - 3) Name = ''.ko''"

type_synonym module_entry = "string \<times> int"

primrec collect_modules ::
  "string list \<Rightarrow> module_entry list \<Rightarrow> 'z vfs_scheme \<Rightarrow> (module_entry list \<times> 'z vfs_scheme) option"
where
  "collect_modules [] Mods s = Some (Mods, s)"
| "collect_modules (Name # Names) Mods s =
     (if is_module Name
      then do {
        ((r, Path), s) \<leftarrow> VfsJoinPath (Some []) (Some Name) True 256 s;
        if r < 0 then collect_modules Names Mods s
        else collect_modules Names (Mods @ [(take 255 (the Path), module_seq Name)]) s }
      else collect_modules Names Mods s)"

text \<open>The exchange sort: position \<open>I\<close> against every later position \<open>J\<close>.\<close>

definition sort_step :: "nat \<Rightarrow> nat \<Rightarrow> module_entry list \<Rightarrow> module_entry list" where
  "sort_step I J Mods =
     (if snd (Mods ! I) < 0 \<or> (snd (Mods ! J) \<ge> 0 \<and> snd (Mods ! J) < snd (Mods ! I))
      then Mods[I := Mods ! J, J := Mods ! I] else Mods)"

definition sort_modules :: "module_entry list \<Rightarrow> module_entry list" where
  "sort_modules Mods =
     fold (\<lambda>I Mods. fold (sort_step I) [I + 1..<length Mods] Mods) [0..<length Mods - 1] Mods"

primrec load_modules ::
  "(string \<Rightarrow> 's \<Rightarrow> (int \<times> 's) option) \<Rightarrow> module_entry list \<Rightarrow> 's \<Rightarrow> 's option"
where
  "load_modules Install [] s = Some s"
| "load_modules Install (M # Mods) s = do {
     (_, s) \<leftarrow> Install (fst M) s;
     load_modules Install Mods s }"

text \<open>\<^verbatim>\<open>InstallModule\<close>, the module linker, is the argument \<open>Install\<close>.\<close>

definition InitRamDiskDevDrvs ::
  "'z vfs_scheme tables \<Rightarrow> (string \<Rightarrow> 'z vfs_scheme \<Rightarrow> (int \<times> 'z vfs_scheme) option) \<Rightarrow> 'z vfs_scheme \<Rightarrow> 'z vfs_scheme option"
where
  "InitRamDiskDevDrvs T Install s = do {
     ((cnt, Entries), s) \<leftarrow> VfsReaddir T (Some ''/'') True 128 s;
     if cnt < 0 then Some s
     else do {
       (Mods, s) \<leftarrow> collect_modules (map DeName (take (nat cnt) Entries)) [] s;
       load_modules Install (sort_modules Mods) s } }"

end
