(* ===== verification/DeviceRegistry.thy ===== *)
theory DeviceRegistry
  imports Devices "HOL-Library.Multiset"
begin

text \<open>What the device table represents: a map from names to devices (\<open>registry\<close>), under the invariant \<open>reg_ok\<close>; and the order
  in which \<open>sort_modules\<close> leaves the driver modules.\<close>

section \<open>The order in which modules are loaded\<close>

definition loads_before :: "module_entry \<Rightarrow> module_entry \<Rightarrow> bool" where
  "loads_before a b \<longleftrightarrow> snd b < 0 \<or> (0 \<le> snd a \<and> snd a \<le> snd b)"

lemma loads_before_trans: "loads_before a b \<Longrightarrow> loads_before b c \<Longrightarrow> loads_before a c"
  by (auto simp: loads_before_def)

lemma sort_step_simps [simp]: "length (sort_step I J xs) = length xs"
  by (simp add: sort_step_def)

lemma sort_step_mset: "I < length xs \<Longrightarrow> J < length xs \<Longrightarrow> mset (sort_step I J xs) = mset xs"
  by (simp add: sort_step_def mset_swap)

lemma sort_step_least: "I < length xs \<Longrightarrow> J < length xs \<Longrightarrow> I \<noteq> J \<Longrightarrow> loads_before (sort_step I J xs ! I) (sort_step I J xs ! J)"
  by (auto simp: sort_step_def loads_before_def)

text \<open>What one round keeps: the part before \<open>I\<close>, and the elements; the element at \<open>I\<close> only gets smaller.\<close>

lemma sort_step_other: "K \<noteq> I \<Longrightarrow> K \<noteq> J \<Longrightarrow> sort_step I J xs ! K = xs ! K"
  by (simp add: sort_step_def)

lemma sort_step_down: "I < length xs \<Longrightarrow> J < length xs \<Longrightarrow> I \<noteq> J \<Longrightarrow> loads_before (sort_step I J xs ! I) (xs ! I)"
  by (auto simp: sort_step_def loads_before_def)

lemma sort_inner:
  assumes "I < k" "k \<le> length xs"
  defines "ys \<equiv> fold (sort_step I) [I + 1..<k] xs"
  shows "length ys = length xs \<and> mset ys = mset xs \<and> take I ys = take I xs \<and>
    (\<forall>K. I < K \<and> K < k \<longrightarrow> loads_before (ys ! I) (ys ! K))"
  using assms(1,2) unfolding ys_def
proof (induction k)
  case (Suc k)
  show ?case
  proof (cases "I < k")
    case True
    let ?y = "fold (sort_step I) [I + 1..<k] xs"
    have y: "length ?y = length xs" "mset ?y = mset xs" "take I ?y = take I xs" "\<And>K. I < K \<Longrightarrow> K < k \<Longrightarrow> loads_before (?y ! I) (?y ! K)"
      using Suc.IH True Suc.prems by auto
    have st: "fold (sort_step I) [I + 1..<Suc k] xs = sort_step I k ?y" using True by simp
    have "take I (sort_step I k ?y) = take I ?y" using True by (simp add: sort_step_def)
    moreover have "loads_before (sort_step I k ?y ! I) (sort_step I k ?y ! K)" if "I < K" "K < Suc k" for K
    proof (cases "K = k")
      case True
      then show ?thesis using that Suc.prems y(1) by (simp add: sort_step_least)
    next
      case False
      then have "loads_before (?y ! I) (sort_step I k ?y ! K)" using that y(4) by (simp add: sort_step_other)
      moreover have "loads_before (sort_step I k ?y ! I) (?y ! I)" using True Suc.prems y(1) by (intro sort_step_down) auto
      ultimately show ?thesis by (rule loads_before_trans [rotated])
    qed
    ultimately show ?thesis unfolding st using y Suc.prems True by (simp add: sort_step_mset)
  next
    case False
    then have k: "k = I" using Suc.prems(1) by simp
    show ?thesis unfolding k by auto
  qed
qed simp

lemma mset_drop_same:
  assumes "mset ys = mset xs" "take I ys = take I xs"
  shows "set (drop I ys) = set (drop I xs)"
proof -
  have "mset (take I ys) + mset (drop I ys) = mset (take I xs) + mset (drop I xs)"
    using assms(1) by (metis append_take_drop_id mset_append)
  then have "mset (drop I ys) = mset (drop I xs)" using assms(2) by simp
  then show ?thesis by (rule mset_eq_setD)
qed

lemma sort_outer:
  assumes "k \<le> length xs - 1"
  defines "ys \<equiv> fold (\<lambda>I Mods. fold (sort_step I) [I + 1..<length xs] Mods) [0..<k] xs"
  shows "length ys = length xs \<and> mset ys = mset xs \<and> (\<forall>A B. A < k \<and> A < B \<and> B < length xs \<longrightarrow> loads_before (ys ! A) (ys ! B))"
  using assms(1) unfolding ys_def
proof (induction k)
  case (Suc k)
  let ?y = "fold (\<lambda>I Mods. fold (sort_step I) [I + 1..<length xs] Mods) [0..<k] xs"
  let ?z = "fold (sort_step k) [k + 1..<length xs] ?y"
  have y: "length ?y = length xs" "mset ?y = mset xs" "\<And>A B. A < k \<Longrightarrow> A < B \<Longrightarrow> B < length xs \<Longrightarrow> loads_before (?y ! A) (?y ! B)"
    using Suc.IH Suc_leD [OF Suc.prems] by simp_all
  have z: "length ?z = length xs" "mset ?z = mset xs" "take k ?z = take k ?y" "\<And>K. k < K \<Longrightarrow> K < length xs \<Longrightarrow> loads_before (?z ! k) (?z ! K)"
    using sort_inner [of k "length xs" ?y] Suc.prems y by auto
  have "loads_before (?z ! A) (?z ! B)" if "A < Suc k" "A < B" "B < length xs" for A B
  proof (cases "A = k")
    case True
    then show ?thesis using z(4) that by simp
  next
    case False
    then have A: "A < k" using that by simp
    have eq: "?z ! C = ?y ! C" if "C < k" for C using arg_cong [OF z(3), of "\<lambda>l. l ! C"] that by simp
    show ?thesis
    proof (cases "B < k")
      case True
      show ?thesis unfolding eq [OF A] eq [OF True] using A that by (intro y(3))
    next
      case False
      then have "?z ! B \<in> set (drop k ?z)" using that z(1) by (auto simp: in_set_conv_nth intro!: exI [of _ "B - k"])
      then have "?z ! B \<in> set (drop k ?y)" using mset_drop_same [OF _ z(3)] z(2) y(2) by simp
      then obtain C where "k \<le> C" "C < length xs" "?z ! B = ?y ! C" using y(1)
        by (auto simp: in_set_conv_nth) (metis add.commute le_add2 less_diff_conv)
      then show ?thesis using y(3) [of A C] A unfolding eq [OF A] by simp
    qed
  qed
  then show ?case using z by simp
qed simp

lemma sort_modules_correct: "mset (sort_modules xs) = mset xs" "sorted_wrt loads_before (sort_modules xs)"
proof -
  have F: "fold (\<lambda>I Mods. fold (sort_step I) [I + 1..<length Mods] Mods) ks zs =
        fold (\<lambda>I Mods. fold (sort_step I) [I + 1..<length xs] Mods) ks zs" if "length zs = length xs" for ks zs
    using that
  proof (induction ks arbitrary: zs)
    case (Cons k ks)
    have "length (fold (sort_step k) [k + 1..<n] zs) = length zs" for n by (induction n) auto
    then show ?case using Cons by simp
  qed simp
  have "sort_modules xs = fold (\<lambda>I Mods. fold (sort_step I) [I + 1..<length xs] Mods) [0..<length xs - 1] xs"
    unfolding sort_modules_def by (rule F) simp
  then have s: "length (sort_modules xs) = length xs" "mset (sort_modules xs) = mset xs"
    "\<And>A B. A < length xs - 1 \<Longrightarrow> A < B \<Longrightarrow> B < length xs \<Longrightarrow> loads_before (sort_modules xs ! A) (sort_modules xs ! B)"
    using sort_outer [of "length xs - 1" xs] by auto
  then show "mset (sort_modules xs) = mset xs" "sorted_wrt loads_before (sort_modules xs)"
    by (auto simp: sorted_wrt_iff_nth_less)
qed

section \<open>The registry as a map\<close>

text \<open>The entries in use, in the order of the table, and the map from names that they represent.\<close>

definition devs :: "('d, 'z) devfs_scheme \<Rightarrow> nat list" where
  "devs s = take (nat (DevCount s)) (DevTable s)"

definition dev_names :: "('d, 'z) devfs_scheme \<Rightarrow> string list" where
  "dev_names s = map (\<lambda>E. deName (DevEntries s E)) (devs s)"

definition registry :: "('d, 'z) devfs_scheme \<Rightarrow> string \<Rightarrow> 'd DeviceEntry option" where
  "registry s = map_of (map (\<lambda>E. (deName (DevEntries s E), DevEntries s E)) (devs s))"

definition reg_ok :: "('d, 'z) devfs_scheme \<Rightarrow> bool" where
  "reg_ok s \<longleftrightarrow> length (DevTable s) = 256 \<and> 0 \<le> DevCount s \<and> DevCount s \<le> 256 \<and>
     (\<forall>E \<in> set (devs s). E \<noteq> 0 \<and> E < NextPtr s) \<and> distinct (dev_names s) \<and> 0 < NextPtr s"

lemma devs_nth: "I < nat (DevCount s) \<Longrightarrow> devs s ! I = DevTable s ! I"
  by (simp add: devs_def)

lemma length_devs: "reg_ok s \<Longrightarrow> length (devs s) = nat (DevCount s)"
  by (auto simp: reg_ok_def devs_def min_def)

lemma find_upt:
  "find P [0..<k] = Some i \<longleftrightarrow> i < k \<and> P i \<and> (\<forall>j<i. \<not> P j)"
  by (auto simp: find_Some_iff)

lemma dev_index_cases:
  assumes "reg_ok s"
  obtains (none) "dev_index (Some n) s = -1" "n \<notin> set (dev_names s)" "dev_find (Some n) s = 0"
  | (some) I where "dev_index (Some n) s = int I" "I < nat (DevCount s)" "deName (DevEntries s (devs s ! I)) = n"
      "dev_find (Some n) s = devs s ! I" "devs s ! I \<noteq> 0" "n \<in> set (dev_names s)"
proof (cases "find (\<lambda>I. DevTable s ! I \<noteq> 0 \<and> deName (DevEntries s (DevTable s ! I)) = n) [0..<nat (DevCount s)]")
  case None
  have "deName (DevEntries s (devs s ! I)) \<noteq> n" if "I < nat (DevCount s)" for I
  proof -
    have "devs s ! I \<in> set (devs s)" using that length_devs [OF assms] by simp
    then have "devs s ! I \<noteq> 0" using assms by (simp add: reg_ok_def)
    then show ?thesis using None that by (auto simp: find_None_iff devs_nth [OF that])
  qed
  then have "n \<notin> set (dev_names s)" using length_devs [OF assms] by (fastforce simp: dev_names_def in_set_conv_nth)
  moreover have "dev_index (Some n) s = -1" using None by (simp add: dev_index_def)
  ultimately show ?thesis by (intro none) (simp_all add: dev_find_def)
next
  case (Some I)
  then have I: "I < nat (DevCount s)" "DevTable s ! I \<noteq> 0" "deName (DevEntries s (DevTable s ! I)) = n"
    by (auto simp: find_upt)
  then have "n \<in> set (dev_names s)" using length_devs [OF assms] devs_nth [OF I(1)]
    by (auto simp: dev_names_def in_set_conv_nth intro!: bexI [of _ "devs s ! I"] exI [of _ I])
  moreover have "dev_index (Some n) s = int I" using Some by (simp add: dev_index_def)
  ultimately show ?thesis using I devs_nth [OF I(1)] by (intro some [of I]) (simp_all add: dev_find_def)
qed

lemma dom_registry: "dom (registry s) = set (dev_names s)"
  by (force simp: registry_def dev_names_def dom_map_of_conv_image_fst)

lemma append_entry_devs:
  assumes "reg_ok s" "DevCount s < 256" "E \<noteq> 0" "E < p" "E \<notin> set (devs s)" "deName e \<notin> set (dev_names s)"
    and "NextPtr t = p" "NextPtr s \<le> p" "DevTable t = DevTable s" "DevCount t = DevCount s" "DevEntries t = DevEntries s"
  shows "reg_ok (append_entry E e t)" "registry (append_entry E e t) = (registry s)(deName e \<mapsto> e)"
proof -
  let ?t = "append_entry E e t"
  have L: "length (DevTable s) = 256" "0 \<le> DevCount s" using assms(1) by (simp_all add: reg_ok_def)
  have n: "nat (DevCount s + 1) = Suc (nat (DevCount s))" using L(2) by (simp add: nat_add_distrib)
  have d: "devs ?t = devs s @ [E]"
    using L assms(2,9,10) by (simp add: devs_def append_entry_def n take_Suc_conv_app_nth)
  have same: "DevEntries ?t x = DevEntries s x" if "x \<in> set (devs s)" for x using that assms(5,11) by (auto simp: append_entry_def)
  have names: "dev_names ?t = dev_names s @ [deName e]"
    using same by (simp add: dev_names_def d) (simp add: append_entry_def)
  show "reg_ok ?t"
    using assms(1-4,6-10) names d by (auto simp: reg_ok_def append_entry_def)
  have "map (\<lambda>E. (deName (DevEntries ?t E), DevEntries ?t E)) (devs ?t) =
      map (\<lambda>E. (deName (DevEntries s E), DevEntries s E)) (devs s) @ [(deName e, e)]"
    using same by (simp add: d) (simp add: append_entry_def)
  moreover have "registry s (deName e) = None" using assms(6) dom_registry by (metis domIff)
  ultimately show "registry ?t = (registry s)(deName e \<mapsto> e)"
    by (auto simp: registry_def map_add_def fun_eq_iff split: option.splits)
qed

lemma kmalloc_new:
  assumes "kmalloc s = (p, t)"
  shows "if HeapLeft s = 0 then p = 0 \<and> t = s else p = NextPtr s \<and> t = s\<lparr>NextPtr := NextPtr s + 1, HeapLeft := HeapLeft s - 1\<rparr>"
  using assms by (auto simp: kmalloc_def split: if_splits)

lemma reg_ok_cong:
  assumes "DevTable t = DevTable s" "DevCount t = DevCount s" "DevEntries t = DevEntries s" "NextPtr s \<le> NextPtr t"
  shows "reg_ok s \<Longrightarrow> reg_ok t" "registry t = registry s"
  using assms by (auto simp: reg_ok_def registry_def devs_def dev_names_def)

lemma DevFsRegisterBlockDevice_map:
  assumes "reg_ok s" "DevFsRegisterBlockDevice (Some n) ma mi Ops Ctx s = (r, t)"
  shows "reg_ok t \<and>
    (if n \<in> dom (registry s) \<or> DevCount s = 256 \<or> HeapLeft s = 0 then r = -1 \<and> registry t = registry s
     else r = 0 \<and> registry t = (registry s)(n \<mapsto> \<lparr>deName = n, deMajor = ma, deMinor = mi, deContext = Ctx, deOps = DevBlock Ops\<rparr>))"
proof -
  let ?e = "\<lparr>deName = n, deMajor = ma, deMinor = mi, deContext = Ctx, deOps = DevBlock Ops\<rparr>"
  consider (refused) "n \<in> dom (registry s) \<or> DevCount s = 256" | (empty) "n \<notin> dom (registry s)" "DevCount s \<noteq> 256" "HeapLeft s = 0"
    | (new) "n \<notin> dom (registry s)" "DevCount s \<noteq> 256" "HeapLeft s \<noteq> 0" by blast
  then show ?thesis
  proof cases
    case refused
    then have "dev_find (Some n) s \<noteq> 0 \<or> 256 \<le> DevCount s"
      using dom_registry [of s] by (cases rule: dev_index_cases [OF assms(1), of n]) auto
    then have "DevFsRegisterBlockDevice (Some n) ma mi Ops Ctx s = (-1, s)"
      by (cases "256 \<le> DevCount s") (simp_all add: DevFsRegisterBlockDevice_def)
    then show ?thesis using assms refused by auto
  next
    case empty
    then have "DevFsRegisterBlockDevice (Some n) ma mi Ops Ctx s = (-1, s)"
      by (simp add: DevFsRegisterBlockDevice_def kmalloc_def Let_def)
    then show ?thesis using assms empty by simp
  next
    case new
    have f: "dev_find (Some n) s = 0" using new(1) dom_registry [of s] by (cases rule: dev_index_cases [OF assms(1), of n]) auto
    have c: "DevCount s < 256" using assms(1) new(2) by (simp add: reg_ok_def)
    have p: "NextPtr s \<noteq> 0" "NextPtr s \<notin> set (devs s)" using assms(1) by (auto simp: reg_ok_def)
    let ?t = "s\<lparr>NextPtr := NextPtr s + 1, HeapLeft := HeapLeft s - 1\<rparr>"
    have "r = 0 \<and> t = append_entry (NextPtr s) ?e ?t"
      using assms(2) f c p new(3) by (simp add: DevFsRegisterBlockDevice_def kmalloc_def Let_def)
    then show ?thesis
      using append_entry_devs [OF assms(1) c p(1) _ p(2), of "NextPtr s + 1" ?e ?t] new dom_registry [of s] by simp
  qed
qed

text \<open>The loop that closes the gap.\<close>

lemma shift_down:
  assumes "i \<le> k" "k < length T"
  shows "fold (\<lambda>J T. T[J := T ! (J + 1)]) [i..<k] T = take i T @ take (k - i) (drop (Suc i) T) @ drop k T"
  using assms
proof (induction k)
  case (Suc k)
  show ?case
  proof (cases "i = Suc k")
    case False
    then have ik: "i \<le> k" "k < length T" using Suc.prems by auto
    let ?X = "take i T @ take (k - i) (drop (Suc i) T) @ drop k T"
    have "fold (\<lambda>J T. T[J := T ! (J + 1)]) [i..<Suc k] T = ?X[k := ?X ! Suc k]"
      using ik Suc.IH by simp
    also have "\<dots> = take i T @ take (Suc k - i) (drop (Suc i) T) @ drop (Suc k) T"
    proof (rule nth_equalityI)
      have len: "length (take (m - i) (drop (Suc i) T)) = m - i" "length (take i T) = i" if "m < length T" "i \<le> m" for m
        using that by auto
      show "length (?X[k := ?X ! Suc k]) = length (take i T @ take (Suc k - i) (drop (Suc i) T) @ drop (Suc k) T)"
        using ik Suc.prems by simp
      fix j assume "j < length (?X[k := ?X ! Suc k])"
      then show "?X[k := ?X ! Suc k] ! j = (take i T @ take (Suc k - i) (drop (Suc i) T) @ drop (Suc k) T) ! j"
        using ik Suc.prems by (auto simp: nth_append nth_list_update len simp del: length_take)
    qed
    finally show ?thesis .
  qed simp
qed simp

lemma DevFsRegisterCharDevice_map:
  assumes "reg_ok s" "length n \<le> 254" "DevFsRegisterCharDevice (Some n) ma mi Ops Ctx s = (r, t)"
  shows "reg_ok t \<and>
    (if n \<in> dom (registry s) \<or> DevCount s = 256 \<or> HeapLeft s < 2 then r = -1 \<and> registry t = registry s
     else r = 0 \<and> registry t = (registry s)(n \<mapsto> \<lparr>deName = n, deMajor = ma, deMinor = mi, deContext = Ctx, deOps = DevChar Ops\<rparr>))"
proof -
  let ?e = "\<lparr>deName = n, deMajor = ma, deMinor = mi, deContext = Ctx, deOps = DevChar Ops\<rparr>"
  consider (refused) "n \<in> dom (registry s) \<or> DevCount s = 256" | (empty) "n \<notin> dom (registry s)" "DevCount s \<noteq> 256" "HeapLeft s < 2"
    | (new) "n \<notin> dom (registry s)" "DevCount s \<noteq> 256" "\<not> HeapLeft s < 2" by blast
  then show ?thesis
  proof cases
    case refused
    then have "dev_find (Some n) s \<noteq> 0 \<or> 256 \<le> DevCount s"
      using dom_registry [of s] by (cases rule: dev_index_cases [OF assms(1), of n]) auto
    then have "DevFsRegisterCharDevice (Some n) ma mi Ops Ctx s = (-1, s)"
      by (cases "256 \<le> DevCount s") (simp_all add: DevFsRegisterCharDevice_def)
    then show ?thesis using assms refused by auto
  next
    case empty
    have p: "NextPtr s \<noteq> 0" using assms(1) by (simp add: reg_ok_def)
    have "r = -1 \<and> DevTable t = DevTable s \<and> DevCount t = DevCount s \<and> DevEntries t = DevEntries s \<and> NextPtr s \<le> NextPtr t"
    proof (cases "256 \<le> DevCount s \<or> dev_find (Some n) s \<noteq> 0 \<or> HeapLeft s = 0")
      case True
      then have "DevFsRegisterCharDevice (Some n) ma mi Ops Ctx s = (-1, s)"
        by (auto simp: DevFsRegisterCharDevice_def kmalloc_def Let_def)
      then show ?thesis using assms(3) by simp
    next
      case False
      then have "HeapLeft s = 1" using empty(3) by simp
      then have "t = kfree (NextPtr s) (s\<lparr>NextPtr := NextPtr s + 1, HeapLeft := 0\<rparr>) \<and> r = -1"
        using False p assms(3) by (simp add: DevFsRegisterCharDevice_def kmalloc_def Let_def)
      then show ?thesis using p by (simp add: kfree_def)
    qed
    then show ?thesis using reg_ok_cong [of t s] assms(1) empty(3) by simp
  next
    case new
    have f: "dev_find (Some n) s = 0" using new(1) dom_registry [of s] by (cases rule: dev_index_cases [OF assms(1), of n]) auto
    have c: "DevCount s < 256" using assms(1) new(2) by (simp add: reg_ok_def)
    have p: "NextPtr s \<noteq> 0" "NextPtr s \<notin> set (devs s)" using assms(1) by (auto simp: reg_ok_def)
    let ?t = "s\<lparr>NextPtr := NextPtr s + 1 + 1, HeapLeft := HeapLeft s - 1 - 1\<rparr>"
    have "r = 0 \<and> t = append_entry (NextPtr s) ?e ?t"
      using assms(2,3) f c p new(3) by (simp add: DevFsRegisterCharDevice_def kmalloc_def Let_def)
    then show ?thesis
      using append_entry_devs [OF assms(1) c p(1) _ p(2), of "NextPtr s + 1 + 1" ?e ?t] new dom_registry [of s] by simp
  qed
qed

lemma map_of_remove:
  assumes "distinct (map fst (xs @ (k, v) # ys))"
  shows "map_of (xs @ ys) = (map_of (xs @ (k, v) # ys))(k := None)"
proof
  fix x
  have "map_of xs k = None" "map_of ys k = None" using assms by (auto simp: map_of_eq_None_iff)
  then show "map_of (xs @ ys) x = ((map_of (xs @ (k, v) # ys))(k := None)) x"
    by (auto simp: map_add_def split: option.splits)
qed

lemma kfree_fields [simp]:
  "DevTable (kfree p s) = DevTable s" "DevCount (kfree p s) = DevCount s" "DevEntries (kfree p s) = DevEntries s"
  "NextPtr (kfree p s) = NextPtr s" "Files (kfree p s) = Files s" "FileCtxs (kfree p s) = FileCtxs s" "Drv (kfree p s) = Drv s"
  by (simp_all add: kfree_def)

lemma DevFsUnregisterDevice_map:
  assumes R: "reg_ok s" and U: "DevFsUnregisterDevice (Some n) s = (r, t)"
  shows "reg_ok t \<and> (if n \<in> dom (registry s) then r = 0 \<and> registry t = (registry s)(n := None) else r = -1 \<and> t = s)"
proof (rule dev_index_cases [OF R, of n], goal_cases)
  case 1
  then show ?thesis using R U dom_registry [of s] by (simp add: DevFsUnregisterDevice_def)
next
  case some: (2 I)
  let ?k = "nat (DevCount s - 1)" and ?T = "DevTable s"
  have L: "length ?T = 256" "0 \<le> DevCount s" "DevCount s \<le> 256" using R by (simp_all add: reg_ok_def)
  have k: "nat (DevCount s) = Suc ?k" "I \<le> ?k" "?k < length ?T" using some(2) L by auto
  let ?S = "take I ?T @ take (?k - I) (drop (Suc I) ?T) @ drop ?k ?T"
  let ?E = "devs s ! I"
  have t: "r = 0" "DevTable t = ?S[?k := 0]" "DevCount t = DevCount s - 1" "DevEntries t = DevEntries s" "NextPtr t = NextPtr s"
    using U shift_down [OF k(2,3)] by (simp_all add: DevFsUnregisterDevice_def some(1) Let_def split: if_splits prod.splits) force+
  have k1: "?k \<le> length ?T - Suc 0" using k(3) by linarith
  have S: "take ?k (?S[?k := 0]) = take I ?T @ take (?k - I) (drop (Suc I) ?T)" using k k1 by (auto simp: min_def)
  have "I < length (devs s)" using some(2) length_devs [OF R] by simp
  then have "devs s = take I (devs s) @ ?E # drop (Suc I) (devs s)" by (rule id_take_nth_drop)
  moreover have "take I (devs s) = take I ?T" "drop (Suc I) (devs s) = take (?k - I) (drop (Suc I) ?T)"
    using k(1,2) by (simp_all add: devs_def drop_take min_def)
  ultimately have d: "devs s = take I ?T @ ?E # take (?k - I) (drop (Suc I) ?T)" by simp
  have dt: "devs t = take I ?T @ take (?k - I) (drop (Suc I) ?T)" unfolding devs_def t(2,3) by (rule S)
  obtain xs E ys where D: "devs s = xs @ E # ys" "devs t = xs @ ys" "deName (DevEntries s E) = n" using d dt some(3) by blast
  have "reg_ok t"
    using R t(2-5) L some(2) k(1) D by (auto simp: reg_ok_def dev_names_def)
  moreover have "registry t = (registry s)(n := None)"
  proof -
    have "distinct (map (\<lambda>E. deName (DevEntries s E)) (xs @ E # ys))" using R D(1) by (simp add: reg_ok_def dev_names_def)
    then show ?thesis
      unfolding registry_def t(4) D(1,2)
      using map_of_remove [of "map (\<lambda>E. (deName (DevEntries s E), DevEntries s E)) xs" n "DevEntries s E"
          "map (\<lambda>E. (deName (DevEntries s E), DevEntries s E)) ys"] D(3) by (simp add: comp_def)
  qed
  ultimately show ?thesis using t(1) some(6) dom_registry [of s] by simp
qed

end
