(* ===== verification/DeviceStreams.thy ===== *)
theory DeviceStreams
  imports DeviceRegistry
begin

text \<open>The contract of a block device (locale \<open>block_device\<close>: blocks that are read and replaced one at a time) and what the
  streaming loops of \<^verbatim>\<open>DevVfsRead\<close> and \<^verbatim>\<open>DevVfsWrite\<close> do under it: they read and overwrite a run of bytes.\<close>

section \<open>Blocks as bytes\<close>

definition uniform :: "nat \<Rightarrow> string list \<Rightarrow> bool" where
  "uniform b xs \<longleftrightarrow> (\<forall>x \<in> set xs. length x = b)"

definition overwrite :: "nat \<Rightarrow> string \<Rightarrow> string \<Rightarrow> string" where
  "overwrite p x y = take p y @ x @ drop (p + length x) y"

lemma length_concat_uniform: "uniform b xs \<Longrightarrow> length (concat xs) = length xs * b"
  by (induction xs) (auto simp: uniform_def)

lemma concat_block:
  assumes "uniform b xs" "l < length xs"
  shows "take (l * b) (concat xs) = concat (take l xs)" "drop (l * b) (concat xs) = xs ! l @ concat (drop (Suc l) xs)"
proof -
  have "concat xs = concat (take l xs) @ xs ! l @ concat (drop (Suc l) xs)"
    using arg_cong [OF id_take_nth_drop [OF assms(2)], of concat] by simp
  moreover have "length (concat (take l xs)) = l * b"
    using assms length_concat_uniform [of b "take l xs"] by (auto simp: uniform_def min_def dest: in_set_takeD)
  ultimately show "take (l * b) (concat xs) = concat (take l xs)" "drop (l * b) (concat xs) = xs ! l @ concat (drop (Suc l) xs)"
    by simp_all
qed

text \<open>A piece inside one block, read and replaced.\<close>

lemma block_slice:
  assumes "uniform b xs" "l < length xs" "off + m \<le> b"
  shows "take m (drop off (xs ! l)) = take m (drop (l * b + off) (concat xs))"
proof -
  have "length (xs ! l) = b" using assms(1,2) by (simp add: uniform_def)
  moreover have "drop (l * b + off) (concat xs) = drop off (drop (l * b) (concat xs))" by (simp add: add.commute)
  ultimately show ?thesis using assms(3) by (simp add: concat_block(2) [OF assms(1,2)])
qed

lemma block_overwrite:
  assumes "uniform b xs" "l < length xs" "off + length x \<le> b"
  shows "concat (xs[l := overwrite off x (xs ! l)]) = overwrite (l * b + off) x (concat xs)"
proof -
  have len: "length (xs ! l) = b" using assms(1,2) by (simp add: uniform_def)
  have "xs[l := overwrite off x (xs ! l)] = take l xs @ overwrite off x (xs ! l) # drop (Suc l) xs"
    using assms(2) by (simp add: upd_conv_take_nth_drop)
  then have "concat (xs[l := overwrite off x (xs ! l)]) = concat (take l xs) @ overwrite off x (xs ! l) @ concat (drop (Suc l) xs)" by simp
  moreover have L: "length (concat (take l xs)) = l * b"
    using assms(1,2) length_concat_uniform [of b "take l xs"] by (auto simp: uniform_def min_def dest: in_set_takeD)
  moreover have "concat xs = concat (take l xs) @ xs ! l @ concat (drop (Suc l) xs)"
    using arg_cong [OF id_take_nth_drop [OF assms(2)], of concat] by simp
  ultimately show ?thesis using assms(3) len by (simp add: overwrite_def)
qed

lemma length_overwrite: "p + length x \<le> length y \<Longrightarrow> length (overwrite p x y) = length y"
  by (simp add: overwrite_def)

lemma overwrite_overwrite:
  assumes "p + length x + length z \<le> length y"
  shows "overwrite (p + length x) z (overwrite p x y) = overwrite p (x @ z) y"
  proof -
  have "length y \<le> p \<Longrightarrow> x = []" using assms by (cases x) auto
  then show ?thesis using assms by (auto simp: overwrite_def min_def ac_simps)
qed

lemma take_drop_append: "take m (drop p y) @ take k (drop (p + m) y) = take (m + k) (drop p y)"
  by (simp add: take_add add.commute [of p m])

text \<open>The contract of one block device: a list of blocks, read and replaced one at a time; \<open>rest\<close> is what it leaves alone.\<close>

locale block_device =
  fixes rd :: "u64 \<Rightarrow> 'd \<Rightarrow> (int \<times> string) \<times> 'd"
    and wr :: "u64 \<Rightarrow> string \<Rightarrow> 'd \<Rightarrow> int \<times> 'd"
    and blocks :: "'d \<Rightarrow> string list"
    and rest :: "'d \<Rightarrow> 'r"
    and b :: nat
    and ok :: "'d \<Rightarrow> bool"
  assumes read_in: "ok d \<Longrightarrow> unat l < length (blocks d) \<Longrightarrow>
      \<exists>e. rd l d = ((1, blocks d ! unat l), e) \<and> ok e \<and> blocks e = blocks d \<and> rest e = rest d"
    and read_out: "ok d \<Longrightarrow> length (blocks d) \<le> unat l \<Longrightarrow>
      \<exists>r x e. rd l d = ((r, x), e) \<and> r \<noteq> 1 \<and> ok e \<and> blocks e = blocks d \<and> rest e = rest d"
    and write_in: "ok d \<Longrightarrow> unat l < length (blocks d) \<Longrightarrow> length x = b \<Longrightarrow>
      \<exists>e. wr l x d = (1, e) \<and> ok e \<and> blocks e = (blocks d)[unat l := x] \<and> rest e = rest d"
    and write_out: "ok d \<Longrightarrow> length (blocks d) \<le> unat l \<Longrightarrow>
      \<exists>r e. wr l x d = (r, e) \<and> r \<noteq> 1 \<and> ok e \<and> blocks e = blocks d \<and> rest e = rest d"
    and uniform_blocks: "ok d \<Longrightarrow> uniform b (blocks d)"
    and block_bound: "ok d \<Longrightarrow> length (blocks d) < 2 ^ 63"
begin

definition bytes :: "'d \<Rightarrow> string" where
  "bytes d = concat (blocks d)"

lemma length_bytes: "ok d \<Longrightarrow> length (bytes d) = length (blocks d) * b"
  using uniform_blocks length_concat_uniform by (simp add: bytes_def)

end

text \<open>The position of a cursor in the bytes, and what the streaming loops change of the file system's state.\<close>

definition cursor_at :: "nat \<Rightarrow> DevFsFileCtx \<Rightarrow> nat \<Rightarrow> bool" where
  "cursor_at b C p \<longleftrightarrow> 0 \<le> fcOffset C \<and> nat (fcOffset C) < b \<and> p = unat (fcLba C) * b + nat (fcOffset C)"

definition stream_frame :: "nat \<Rightarrow> ('d, 'z) devfs_scheme \<Rightarrow> ('d, 'z) devfs_scheme \<Rightarrow> bool" where
  "stream_frame FC s t \<longleftrightarrow>
     (\<exists>C d np. NextPtr s \<le> np \<and> fcDev C = fcDev (FileCtxs s FC) \<and>
        t = s\<lparr>NextPtr := np, FileCtxs := (FileCtxs s)(FC := C), Drv := d\<rparr>)"

lemma stream_frame_refl: "stream_frame FC s (s\<lparr>NextPtr := NextPtr s + k, Drv := d\<rparr>)"
  unfolding stream_frame_def by (intro exI [of _ "FileCtxs s FC"] exI [of _ d] exI [of _ "NextPtr s + k"]) simp

lemma stream_frame_trans:
  assumes "stream_frame FC s t" "stream_frame FC t u"
  shows "stream_frame FC s u"
proof -
  obtain C d np D e mp where "NextPtr s \<le> np" "fcDev C = fcDev (FileCtxs s FC)"
    "t = s\<lparr>NextPtr := np, FileCtxs := (FileCtxs s)(FC := C), Drv := d\<rparr>" "np \<le> mp" "fcDev D = fcDev C"
    "u = t\<lparr>NextPtr := mp, FileCtxs := (FileCtxs t)(FC := D), Drv := e\<rparr>"
    using assms by (auto simp: stream_frame_def)
  then show ?thesis unfolding stream_frame_def by (intro exI [of _ D] exI [of _ e] exI [of _ mp]) simp
qed

text \<open>One round of the loops leaves the budget of the heap as it was.\<close>

lemma tmp_buffer:
  assumes "HeapLeft s \<noteq> 0" "0 < NextPtr s"
  obtains u where "kmalloc s = (NextPtr s, u)" "kfree (NextPtr s) u = s\<lparr>NextPtr := NextPtr s + 1\<rparr>"
    "u = s\<lparr>NextPtr := NextPtr s + 1, HeapLeft := HeapLeft s - 1\<rparr>"
  using assms by (auto simp: kmalloc_def kfree_def)

lemma set_ctx_frame:
  assumes "\<And>C. fcDev (f C) = fcDev C"
  shows "stream_frame FC s (set_ctx FC f s)"
  unfolding stream_frame_def set_ctx_def
  by (intro exI [of _ "f (FileCtxs s FC)"] exI [of _ "Drv s"] exI [of _ "NextPtr s"]) (simp add: assms)

lemma step_cursor_at:
  assumes "cursor_at b (FileCtxs s FC) p" "nat (fcOffset (FileCtxs s FC)) + m \<le> b" "unat (fcLba (FileCtxs s FC)) < 2 ^ 63" "0 < b"
  shows "cursor_at b (FileCtxs (step_cursor FC (int m) (int b) s) FC) (p + m)"
    "stream_frame FC s (step_cursor FC (int m) (int b) s)"
proof -
  let ?C = "FileCtxs s FC"
  have u: "unat (fcLba ?C + 1) = Suc (unat (fcLba ?C))" using assms(3) by (simp add: unat_word_ariths)
  show "cursor_at b (FileCtxs (step_cursor FC (int m) (int b) s) FC) (p + m)"
    using assms(1,2,4) u by (auto simp: cursor_at_def step_cursor_def set_ctx_def Let_def nat_add_distrib algebra_simps)
  show "stream_frame FC s (step_cursor FC (int m) (int b) s)"
    unfolding step_cursor_def by (rule set_ctx_frame) (simp add: Let_def)
qed

lemma chunk_int:
  assumes "0 \<le> x" "nat x < b"
  shows "(if int n > int b - x then int b - x else int n) = int (min n (b - nat x))"
proof -
  obtain k where "x = int k" using assms(1) by (rule nonneg_int_cases)
  then show ?thesis using assms(2) by (auto simp: min_def of_nat_diff)
qed

lemma read_blocks_step:
  assumes "0 < n" "kmalloc s = (p, u)" "p \<noteq> 0" "drive (rd Ctx (fcLba (FileCtxs u FC)) True 1) u = ((1, x), v)"
    and "(if n > BlockSize Ops - fcOffset (FileCtxs s FC) then BlockSize Ops - fcOffset (FileCtxs s FC) else n) = m" "0 \<le> m"
  shows "read_blocks Ops rd Ctx FC n Tot Dst s =
    read_blocks Ops rd Ctx FC (n - m) (Tot + m) (Dst @ take (nat m) (drop (nat (fcOffset (FileCtxs s FC))) x))
      (step_cursor FC m (BlockSize Ops) (kfree p v))"
  unfolding assms(5) [symmetric] using assms by (subst read_blocks.simps) (simp add: Let_def)

context block_device begin

lemma cursor_bound:
  assumes "ok d" "cursor_at b C p" "unat (fcLba C) < length (blocks d)" "nat (fcOffset C) + m \<le> b"
  shows "p + m \<le> length (bytes d)" "unat (fcLba C) < 2 ^ 63"
proof -
  have "Suc (unat (fcLba C)) * b \<le> length (blocks d) * b" using assms(3) by (intro mult_le_mono1) simp
  then show "p + m \<le> length (bytes d)" using assms(2,4) length_bytes [OF assms(1)] by (simp add: cursor_at_def)
  show "unat (fcLba C) < 2 ^ 63" using assms(3) block_bound [OF assms(1)] by simp
qed

lemma cursor_past:
  assumes "ok d" "cursor_at b C p" "length (blocks d) \<le> unat (fcLba C)"
  shows "length (bytes d) \<le> p"
proof -
  have "length (blocks d) * b \<le> unat (fcLba C) * b" using assms(3) by (rule mult_le_mono1)
  then show ?thesis using assms(2) length_bytes [OF assms(1)] unfolding cursor_at_def by linarith
qed

text \<open>Reading \<open>n\<close> bytes through the loop yields the bytes from the cursor on, up to the end of the device.\<close>

lemma read_stream:
  assumes f: "\<And>l. f Ctx l True 1 = rd l" and B: "BlockSize Ops = int b"
    and "ok (Drv s)" "cursor_at b (FileCtxs s FC) p" "HeapLeft s \<noteq> 0" "0 < NextPtr s"
  shows "\<exists>t. read_blocks Ops f Ctx FC (int n) Tot Dst s =
      Some ((False, Tot + int (min n (length (bytes (Drv s)) - p)), Dst @ take n (drop p (bytes (Drv s)))), t) \<and>
    stream_frame FC s t \<and> ok (Drv t) \<and> blocks (Drv t) = blocks (Drv s) \<and> rest (Drv t) = rest (Drv s) \<and>
    cursor_at b (FileCtxs t FC) (p + min n (length (bytes (Drv s)) - p))"
  using assms(3-)
proof (induction n arbitrary: Tot Dst s p rule: less_induct)
  case (less n)
  let ?C = "FileCtxs s FC" and ?L = "length (bytes (Drv s))"
  obtain u where u: "kmalloc s = (NextPtr s, u)" "kfree (NextPtr s) u = s\<lparr>NextPtr := NextPtr s + 1\<rparr>"
    "u = s\<lparr>NextPtr := NextPtr s + 1, HeapLeft := HeapLeft s - 1\<rparr>"
    using less.prems by (elim tmp_buffer)
  have km: "kfree (NextPtr s) (u\<lparr>Drv := e\<rparr>) = s\<lparr>NextPtr := NextPtr s + 1, Drv := e\<rparr>" for e
    using less.prems by (simp add: u(3) kfree_def)
  have b: "0 < b" and off: "fcOffset ?C = int (nat (fcOffset ?C))" "nat (fcOffset ?C) < b"
    using less.prems(2) by (auto simp: cursor_at_def)
  show ?case
  proof (cases "n = 0")
    case True
    then show ?thesis using less.prems by (subst read_blocks.simps) (auto intro!: exI [of _ s] simp: stream_frame_refl [of FC s "Drv s" 0, simplified])
  next
    case n: False
    show ?thesis
    proof (cases "unat (fcLba ?C) < length (blocks (Drv s))")
      case False
      then obtain r x e where e: "rd (fcLba ?C) (Drv s) = ((r, x), e)" "r \<noteq> 1" "ok e" "blocks e = blocks (Drv s)" "rest e = rest (Drv s)"
        using read_out [OF less.prems(1), of "fcLba ?C"] by fastforce
      have L: "?L \<le> p" using cursor_past [OF less.prems(1,2)] False by simp
      have "read_blocks Ops f Ctx FC (int n) Tot Dst s = Some ((False, Tot, Dst), s\<lparr>NextPtr := NextPtr s + 1, Drv := e\<rparr>)"
        using n e u(1) less.prems(4) km [of e] by (subst read_blocks.simps) (simp add: drive_def f u(3))
      then show ?thesis
        using L e less.prems(2) stream_frame_refl [of FC s e 1] by (intro exI [of _ "s\<lparr>NextPtr := NextPtr s + 1, Drv := e\<rparr>"]) (simp)
    next
      case True
      then obtain e where e: "rd (fcLba ?C) (Drv s) = ((1, blocks (Drv s) ! unat (fcLba ?C)), e)" "ok e"
          "blocks e = blocks (Drv s)" "rest e = rest (Drv s)"
        using read_in [OF less.prems(1), of "fcLba ?C"] by blast
      define m where "m = min n (b - nat (fcOffset ?C))"
      have m: "0 < m" "m \<le> n" "nat (fcOffset ?C) + m \<le> b" using n off by (auto simp: m_def)
      have TR: "(if int n > BlockSize Ops - fcOffset ?C then BlockSize Ops - fcOffset ?C else int n) = int m"
        unfolding m_def B by (rule chunk_int) (use off less.prems(2) in \<open>simp_all add: cursor_at_def\<close>)
      have p: "p = unat (fcLba ?C) * b + nat (fcOffset ?C)" using less.prems(2) by (simp add: cursor_at_def)
      let ?blk = "blocks (Drv s) ! unat (fcLba ?C)"
      let ?s = "s\<lparr>NextPtr := NextPtr s + 1, Drv := e\<rparr>"
      let ?t = "step_cursor FC (int m) (int b) ?s"
      have st: "drive (f Ctx (fcLba (FileCtxs u FC)) True 1) u = ((1, ?blk), u\<lparr>Drv := e\<rparr>)"
        using e(1) by (simp add: drive_def f u(3))
      have r1: "read_blocks Ops f Ctx FC (int n) Tot Dst s =
          read_blocks Ops f Ctx FC (int n - int m) (Tot + int m) (Dst @ take m (drop (nat (fcOffset ?C)) ?blk)) ?t"
        using read_blocks_step [where rd = f and Ctx = Ctx and FC = FC, OF _ u(1) _ st TR] n less.prems(4) unfolding km B nat_int by simp
      have r2: "take m (drop (nat (fcOffset ?C)) ?blk) = take m (drop p (bytes (Drv s)))"
        unfolding p bytes_def by (rule block_slice [OF uniform_blocks [OF less.prems(1)] True m(3)])
      have r3: "int n - int m = int (n - m)" using m(2) by simp
      have R: "read_blocks Ops f Ctx FC (int n) Tot Dst s =
          read_blocks Ops f Ctx FC (int (n - m)) (Tot + int m) (Dst @ take m (drop p (bytes (Drv s)))) ?t"
        using r1 unfolding r2 r3 .
      note cb = cursor_bound [OF less.prems(1,2) True m(3)]
      have c: "cursor_at b (FileCtxs ?t FC) (p + m)" "stream_frame FC ?s ?t"
        using step_cursor_at [of b ?s FC p m] less.prems(2) m(3) cb(2) b by simp_all
      have fr: "stream_frame FC s ?t" using stream_frame_trans [OF stream_frame_refl [of FC s e 1] c(2)] by simp
      have t: "Drv ?t = e" "HeapLeft ?t \<noteq> 0" "0 < NextPtr ?t" using less.prems(3) by (simp_all add: step_cursor_def set_ctx_def)
      have be: "bytes e = bytes (Drv s)" using e(3) by (simp add: bytes_def)
      obtain v where v: "read_blocks Ops f Ctx FC (int (n - m)) (Tot + int m) (Dst @ take m (drop p (bytes (Drv s)))) ?t =
          Some ((False, Tot + int m + int (min (n - m) (?L - (p + m))), (Dst @ take m (drop p (bytes (Drv s)))) @ take (n - m) (drop (p + m) (bytes (Drv s)))), v)"
        "stream_frame FC ?t v" "ok (Drv v)" "blocks (Drv v) = blocks (Drv s)" "rest (Drv v) = rest (Drv s)"
        "cursor_at b (FileCtxs v FC) (p + m + min (n - m) (?L - (p + m)))"
        using less.IH [of "n - m" ?t "p + m" "Tot + int m" "Dst @ take m (drop p (bytes (Drv s)))"] m c(1) t e be by auto
      have k: "m + min (n - m) (?L - (p + m)) = min n (?L - p)" using cb(1) m(2) by auto
      have "Tot + int m + int (min (n - m) (?L - (p + m))) = Tot + int (min n (?L - p))" using arg_cong [OF k, of int] by simp
      moreover have "take m (drop p (bytes (Drv s))) @ take (n - m) (drop (p + m) (bytes (Drv s))) = take n (drop p (bytes (Drv s)))"
        using take_drop_append [of m p "bytes (Drv s)" "n - m"] m(2) by simp
      moreover have "cursor_at b (FileCtxs v FC) (p + min n (?L - p))"
        using v(6) unfolding add.assoc k .
      ultimately show ?thesis
        using R v(1,3-5) stream_frame_trans [OF fr v(2)] by (intro exI [of _ v]) simp
    qed
  qed
qed

end

lemma write_blocks_step:
  assumes "0 < n" "kmalloc s = (p, u)" "p \<noteq> 0" "B_ReadBlocks Ops = Some rd"
    and "drive (rd Ctx (fcLba (FileCtxs u FC)) True 1) u = ((1, x), v)"
    and "(if n > BlockSize Ops - fcOffset (FileCtxs s FC) then BlockSize Ops - fcOffset (FileCtxs s FC) else n) = m" "0 \<le> m"
    and "take (nat (fcOffset (FileCtxs s FC))) x @ take (nat m) (drop (nat Tot) Src) @ drop (nat (fcOffset (FileCtxs s FC) + m)) x = y"
    and "drive (wr Ctx (fcLba (FileCtxs v FC)) (Some y) 1) v = (1, w)"
  shows "write_blocks Ops wr Ctx FC n Tot Src s =
    write_blocks Ops wr Ctx FC (n - m) (Tot + m) Src (step_cursor FC m (BlockSize Ops) (kfree p w))"
  unfolding assms(6) [symmetric] using assms by (subst write_blocks.simps) (simp add: Let_def)

lemma write_blocks_fail:
  assumes "0 < n" "kmalloc s = (p, u)" "p \<noteq> 0" "B_ReadBlocks Ops = Some rd"
    and "drive (rd Ctx (fcLba (FileCtxs u FC)) True 1) u = ((r, x), v)"
    and "(if n > BlockSize Ops - fcOffset (FileCtxs s FC) then BlockSize Ops - fcOffset (FileCtxs s FC) else n) = m" "0 \<le> m"
    and "\<And>y. \<exists>k e. k \<noteq> 1 \<and> drive (wr Ctx (fcLba (FileCtxs v FC)) (Some y) 1) v = (k, v\<lparr>Drv := e\<rparr>) \<and> P e"
  shows "\<exists>e. P e \<and> write_blocks Ops wr Ctx FC n Tot Src s = Some ((False, Tot), kfree p (v\<lparr>Drv := e\<rparr>))"
proof -
  define y where "y = (let z = (if r \<noteq> 1 then replicate (nat (BlockSize Ops)) (CHR 0x00) else x);
      off = fcOffset (FileCtxs s FC) in take (nat off) z @ take (nat m) (drop (nat Tot) Src) @ drop (nat (off + m)) z)"
  obtain k e where ke: "k \<noteq> 1" "drive (wr Ctx (fcLba (FileCtxs v FC)) (Some y) 1) v = (k, v\<lparr>Drv := e\<rparr>)" "P e" using assms(8) by blast
  have "write_blocks Ops wr Ctx FC n Tot Src s = Some ((False, Tot), kfree p (v\<lparr>Drv := e\<rparr>))"
    using assms(1-5,7) ke(1,2) unfolding y_def assms(6) [symmetric]
    by (subst write_blocks.simps) (simp add: Let_def)
  then show ?thesis using ke(3) by blast
qed

lemma overwrite_nil [simp]: "overwrite p [] y = y"
  by (simp add: overwrite_def)

context block_device begin

text \<open>Writing \<open>n\<close> bytes through the loop replaces the bytes from the cursor on, up to the end of the device.\<close>

lemma write_stream:
  assumes f: "B_ReadBlocks Ops = Some f" "\<And>l. f Ctx l True 1 = rd l" and g: "\<And>l x. g Ctx l (Some x) 1 = wr l x"
    and B: "BlockSize Ops = int b"
    and "ok (Drv s)" "cursor_at b (FileCtxs s FC) p" "HeapLeft s \<noteq> 0" "0 < NextPtr s" "T + n \<le> length Src"
  shows "\<exists>t. write_blocks Ops g Ctx FC (int n) (int T) Src s =
      Some ((False, int (T + min n (length (bytes (Drv s)) - p))), t) \<and>
    stream_frame FC s t \<and> ok (Drv t) \<and>
    bytes (Drv t) = overwrite p (take (min n (length (bytes (Drv s)) - p)) (drop T Src)) (bytes (Drv s)) \<and> rest (Drv t) = rest (Drv s) \<and>
    cursor_at b (FileCtxs t FC) (p + min n (length (bytes (Drv s)) - p))"
  using assms(5-)
proof (induction n arbitrary: T s p rule: less_induct)
  case (less n)
  let ?C = "FileCtxs s FC" and ?L = "length (bytes (Drv s))"
  obtain u where u: "kmalloc s = (NextPtr s, u)" "kfree (NextPtr s) u = s\<lparr>NextPtr := NextPtr s + 1\<rparr>"
    "u = s\<lparr>NextPtr := NextPtr s + 1, HeapLeft := HeapLeft s - 1\<rparr>"
    using less.prems(3,4) by (elim tmp_buffer)
  have km: "kfree (NextPtr s) (u\<lparr>Drv := e\<rparr>) = s\<lparr>NextPtr := NextPtr s + 1, Drv := e\<rparr>" for e
    using less.prems(3,4) by (simp add: u(3) kfree_def)
  have b: "0 < b" and off: "fcOffset ?C = int (nat (fcOffset ?C))" "nat (fcOffset ?C) < b"
    using less.prems(2) by (auto simp: cursor_at_def)
  define m where "m = min n (b - nat (fcOffset ?C))"
  have TW: "(if int n > BlockSize Ops - fcOffset ?C then BlockSize Ops - fcOffset ?C else int n) = int m"
    unfolding m_def B by (rule chunk_int) (use off less.prems(2) in \<open>simp_all add: cursor_at_def\<close>)
  show ?case
  proof (cases "n = 0")
    case True
    then show ?thesis using less.prems by (subst write_blocks.simps) (auto intro!: exI [of _ s] simp: stream_frame_refl [of FC s "Drv s" 0, simplified])
  next
    case n: False
    show ?thesis
    proof (cases "unat (fcLba ?C) < length (blocks (Drv s))")
      case False
      then have F: "length (blocks (Drv s)) \<le> unat (fcLba ?C)" by simp
      obtain r x e where e: "rd (fcLba ?C) (Drv s) = ((r, x), e)" "r \<noteq> 1" "ok e" "blocks e = blocks (Drv s)" "rest e = rest (Drv s)"
        using read_out [OF less.prems(1) F] by blast
      have L: "?L \<le> p" using cursor_past [OF less.prems(1,2) F] .
      let ?P = "\<lambda>d. ok d \<and> blocks d = blocks (Drv s) \<and> rest d = rest (Drv s)"
      have wr: "\<exists>k d. k \<noteq> 1 \<and> drive (g Ctx (fcLba (FileCtxs (u\<lparr>Drv := e\<rparr>) FC)) (Some y) 1) (u\<lparr>Drv := e\<rparr>) = (k, u\<lparr>Drv := e\<rparr>\<lparr>Drv := d\<rparr>) \<and> ?P d" for y
        using write_out [OF e(3), of "fcLba ?C" y] F e(4,5) by (auto simp: drive_def g u(3))
      have st: "drive (f Ctx (fcLba (FileCtxs u FC)) True 1) u = ((r, x), u\<lparr>Drv := e\<rparr>)"
        using e(1) by (simp add: drive_def f(2) u(3))
      obtain d where d: "?P d" "write_blocks Ops g Ctx FC (int n) (int T) Src s = Some ((False, int T), s\<lparr>NextPtr := NextPtr s + 1, Drv := d\<rparr>)"
      proof -
        have "\<exists>d. ?P d \<and> write_blocks Ops g Ctx FC (int n) (int T) Src s = Some ((False, int T), kfree (NextPtr s) (u\<lparr>Drv := e\<rparr>\<lparr>Drv := d\<rparr>))"
          by (rule write_blocks_fail [where wr = g and P = ?P, OF _ u(1) _ f(1) st TW _ wr]) (use n less.prems(4) in simp_all)
        then show ?thesis using that km by auto
      qed
      then show ?thesis
        using L less.prems(2) stream_frame_refl [of FC s d 1] by (intro exI [of _ "s\<lparr>NextPtr := NextPtr s + 1, Drv := d\<rparr>"]) (simp add: bytes_def)
    next
      case True
      let ?blk = "blocks (Drv s) ! unat (fcLba ?C)" and ?ch = "take m (drop T Src)" and ?off = "nat (fcOffset ?C)"
      obtain e where e: "rd (fcLba ?C) (Drv s) = ((1, ?blk), e)" "ok e" "blocks e = blocks (Drv s)" "rest e = rest (Drv s)"
        using read_in [OF less.prems(1), of "fcLba ?C"] True by blast
      have m: "0 < m" "m \<le> n" "?off + m \<le> b" using n off by (auto simp: m_def)
      have p: "p = unat (fcLba ?C) * b + ?off" using less.prems(2) by (simp add: cursor_at_def)
      have ch: "length ?ch = m" using less.prems(5) m(2) by simp
      have len: "length ?blk = b" using uniform_blocks [OF less.prems(1)] True by (simp add: uniform_def)
      have y: "take ?off ?blk @ take (nat (int m)) (drop (nat (int T)) Src) @ drop (nat (fcOffset ?C + int m)) ?blk = overwrite ?off ?ch ?blk"
      proof -
        have "nat (fcOffset ?C + int m) = ?off + m" using off(1) by linarith
        then show ?thesis by (simp only: nat_int overwrite_def ch)
      qed
      have ly: "length (overwrite ?off ?ch ?blk) = b" using length_overwrite [of ?off ?ch ?blk] len ch m(3) by simp
      obtain d where d: "wr (fcLba ?C) (overwrite ?off ?ch ?blk) e = (1, d)" "ok d" "blocks d = (blocks e)[unat (fcLba ?C) := overwrite ?off ?ch ?blk]" "rest d = rest e"
        using write_in [OF e(2) _ ly, of "fcLba ?C"] True e(3) by auto
      have bd: "bytes d = overwrite p ?ch (bytes (Drv s))"
        using block_overwrite [OF uniform_blocks [OF less.prems(1)] True, of ?off ?ch] ch m(3) d(3) e(3) unfolding bytes_def p by simp
      let ?s = "s\<lparr>NextPtr := NextPtr s + 1, Drv := d\<rparr>"
      let ?t = "step_cursor FC (int m) (int b) ?s"
      have st: "drive (f Ctx (fcLba (FileCtxs u FC)) True 1) u = ((1, ?blk), u\<lparr>Drv := e\<rparr>)"
        using e(1) by (simp add: drive_def f(2) u(3))
      have sw: "drive (g Ctx (fcLba (FileCtxs (u\<lparr>Drv := e\<rparr>) FC)) (Some (overwrite ?off ?ch ?blk)) 1) (u\<lparr>Drv := e\<rparr>) = (1, u\<lparr>Drv := d\<rparr>)"
        using d(1) by (simp add: drive_def g u(3))
      have r2: "int n - int m = int (n - m)" "int T + int m = int (T + m)" using m(2) by simp_all
      have r1: "write_blocks Ops g Ctx FC (int n) (int T) Src s =
          write_blocks Ops g Ctx FC (int n - int m) (int T + int m) Src (step_cursor FC (int m) (BlockSize Ops) (kfree (NextPtr s) (u\<lparr>Drv := d\<rparr>)))"
        by (rule write_blocks_step [where rd = f and wr = g and Ctx = Ctx and FC = FC and s = s and n = "int n", OF _ u(1) _ f(1) st TW _ y sw])
          (use n less.prems(4) in simp_all)
      have R: "write_blocks Ops g Ctx FC (int n) (int T) Src s = write_blocks Ops g Ctx FC (int (n - m)) (int (T + m)) Src ?t"
        using r1 unfolding r2 km B .
      note cb = cursor_bound [OF less.prems(1,2) True m(3)]
      have c: "cursor_at b (FileCtxs ?t FC) (p + m)" "stream_frame FC ?s ?t"
        using step_cursor_at [of b ?s FC p m] less.prems(2) m(3) cb(2) b by simp_all
      have fr: "stream_frame FC s ?t" using stream_frame_trans [OF stream_frame_refl [of FC s d 1] c(2)] by simp
      have t: "Drv ?t = d" "HeapLeft ?t \<noteq> 0" "0 < NextPtr ?t" using less.prems(3) by (simp_all add: step_cursor_def set_ctx_def)
      have ld: "length (bytes d) = ?L" using length_overwrite [of p ?ch "bytes (Drv s)"] bd ch cb(1) by simp
      let ?k = "min (n - m) (?L - (p + m))"
      obtain v where v: "write_blocks Ops g Ctx FC (int (n - m)) (int (T + m)) Src ?t = Some ((False, int (T + m + ?k)), v)"
        "stream_frame FC ?t v" "ok (Drv v)" "bytes (Drv v) = overwrite (p + m) (take ?k (drop (T + m) Src)) (bytes d)" "rest (Drv v) = rest d"
        "cursor_at b (FileCtxs v FC) (p + m + ?k)"
        using less.IH [of "n - m" ?t "p + m" "T + m"] m c(1) t d(2) ld less.prems(5) by auto
      have k: "m + ?k = min n (?L - p)" using cb(1) m(2) by auto
      have tk: "?ch @ take ?k (drop (T + m) Src) = take (min n (?L - p)) (drop T Src)"
        using take_drop_append [of m T Src ?k] k by simp
      have "length (take ?k (drop (T + m) Src)) \<le> ?k" unfolding length_take by (rule min.cobounded2)
      moreover have "?k \<le> ?L - (p + m)" by (rule min.cobounded2)
      ultimately have "p + length ?ch + length (take ?k (drop (T + m) Src)) \<le> ?L" using ch cb(1) by linarith
      then have "overwrite (p + m) (take ?k (drop (T + m) Src)) (bytes d) = overwrite p (take (min n (?L - p)) (drop T Src)) (bytes (Drv s))"
        using overwrite_overwrite [of p ?ch "take ?k (drop (T + m) Src)" "bytes (Drv s)"] unfolding bd ch tk by simp
      moreover have "cursor_at b (FileCtxs v FC) (p + min n (?L - p))" using v(6) unfolding add.assoc k .
      moreover have "T + m + ?k = T + min n (?L - p)" using k by simp
      ultimately show ?thesis
        using R v(1-5) stream_frame_trans [OF fr v(2)] d(4) e(4) by (intro exI [of _ v]) simp
    qed
  qed
qed

end

end
