(* ===== verification/DeviceFiles.thy ===== *)
theory DeviceFiles
  imports DeviceStreams
begin

text \<open>Files that are open on a device: reading, writing and seeking return whatever the driver answers (\<open>stream_ok\<close>), but for two
  faults (\<open>write_faults\<close>, \<open>seek_faults\<close>); and what they do to a file of a block device (\<open>block_file\<close>).\<close>

section \<open>The streams end\<close>

definition cursor_ok :: "int \<Rightarrow> DevFsFileCtx \<Rightarrow> bool" where
  "cursor_ok Blk C \<longleftrightarrow> 0 \<le> fcOffset C \<and> fcOffset C < Blk"

lemma kmalloc_frame [simp]:
  "kmalloc s = (p, u) \<Longrightarrow> FileCtxs u = FileCtxs s" "kmalloc s = (p, u) \<Longrightarrow> Files u = Files s"
  "kmalloc s = (p, u) \<Longrightarrow> DevEntries u = DevEntries s"
  by (auto simp: kmalloc_def split: if_splits)

lemma drive_fields:
  assumes "drive f s = (r, t)"
  shows "FileCtxs t = FileCtxs s" "Files t = Files s" "DevEntries t = DevEntries s"
  using assms by (auto simp: drive_def split: prod.splits)

text \<open>What the rounds of a loop leave as it was.\<close>

definition loop_frame :: "int \<Rightarrow> nat \<Rightarrow> ('d, 'z) devfs_scheme \<Rightarrow> ('d, 'z) devfs_scheme \<Rightarrow> bool" where
  "loop_frame Blk FC s t \<longleftrightarrow> cursor_ok Blk (FileCtxs t FC) \<and> Files t = Files s \<and> DevEntries t = DevEntries s \<and>
     fcDev (FileCtxs t FC) = fcDev (FileCtxs s FC)"

lemma loop_frame_same:
  assumes "cursor_ok Blk (FileCtxs s FC)" "FileCtxs t = FileCtxs s" "Files t = Files s" "DevEntries t = DevEntries s"
  shows "loop_frame Blk FC s t"
  using assms by (simp add: loop_frame_def)

lemma loop_frame_step:
  assumes "cursor_ok Blk (FileCtxs s FC)" "0 \<le> m" "fcOffset (FileCtxs s FC) + m \<le> Blk"
    and "FileCtxs t = FileCtxs s" "Files t = Files s" "DevEntries t = DevEntries s"
  shows "cursor_ok Blk (FileCtxs (step_cursor FC m Blk t) FC)"
    "loop_frame Blk FC (step_cursor FC m Blk t) u \<Longrightarrow> loop_frame Blk FC s u"
  using assms by (auto simp: cursor_ok_def loop_frame_def step_cursor_def set_ctx_def Let_def)

lemma ex_bool [simp]: "Ex Not" "\<exists>x::bool. x"
  by auto

text \<open>Whatever the driver answers, a round that goes on has taken at least one byte.\<close>

lemma read_blocks_returns:
  assumes "cursor_ok (BlockSize Ops) (FileCtxs s FC)"
  shows "\<exists>early tot dst t. read_blocks Ops rd Ctx FC n Tot Dst s = Some ((early, tot, dst), t) \<and>
    loop_frame (BlockSize Ops) FC s t"
  using assms
proof (induction "nat n" arbitrary: n Tot Dst s rule: less_induct)
  case less
  let ?Blk = "BlockSize Ops" and ?Off = "fcOffset (FileCtxs s FC)"
  let ?m = "if n > ?Blk - ?Off then ?Blk - ?Off else n"
  obtain p u where k: "kmalloc s = (p, u)" by fastforce
  obtain r x v where d: "drive (rd Ctx (fcLba (FileCtxs u FC)) True 1) u = ((r, x), v)" by (metis surj_pair)
  note F = kmalloc_frame [OF k] drive_fields [OF d]
  consider "n \<le> 0" | "0 < n" "p = 0" | "0 < n" "p \<noteq> 0" "r \<noteq> 1" | "0 < n" "p \<noteq> 0" "r = 1" by linarith
  then show ?case
  proof cases
    case 4
    have m: "0 < ?m" "?Off + ?m \<le> ?Blk" using 4(1) less.prems by (auto simp: cursor_ok_def)
    note step = loop_frame_step [OF less.prems _ m(2), of "kfree p v"]
    have "cursor_ok ?Blk (FileCtxs (step_cursor FC ?m ?Blk (kfree p v)) FC)"
      by (rule step(1)) (use m F in simp_all)
    moreover have "nat (n - ?m) < nat n" using m(1) 4(1) by simp
    ultimately have "\<exists>early tot dst t. read_blocks Ops rd Ctx FC (n - ?m) (Tot + ?m) (Dst @ take (nat ?m) (drop (nat ?Off) x))
        (step_cursor FC ?m ?Blk (kfree p v)) = Some ((early, tot, dst), t) \<and> loop_frame ?Blk FC s t"
      using less.hyps step(2) m(1) F by (metis (no_types, lifting) kfree_fields(3,5,6) less_imp_le)
    then show ?thesis
      using read_blocks_step [where rd = rd and Ctx = Ctx and FC = FC, OF 4(1) k 4(2) _ refl] d m(1) 4(3) by simp
  next
    case 1
    then show ?thesis using less.prems by (subst read_blocks.simps) (simp add: loop_frame_same)
  next
    case 2
    then show ?thesis using less.prems k F by (subst read_blocks.simps) (simp add: Let_def loop_frame_same)
  next
    case 3
    then show ?thesis using less.prems k d F by (subst read_blocks.simps) (simp add: Let_def loop_frame_same)
  qed
qed

lemma write_blocks_returns:
  assumes "cursor_ok (BlockSize Ops) (FileCtxs s FC)" "B_ReadBlocks Ops = Some rd"
  shows "\<exists>early tot t. write_blocks Ops wr Ctx FC n Tot Src s = Some ((early, tot), t) \<and>
    loop_frame (BlockSize Ops) FC s t"
  using assms(1)
proof (induction "nat n" arbitrary: n Tot s rule: less_induct)
  case less
  let ?Blk = "BlockSize Ops" and ?Off = "fcOffset (FileCtxs s FC)"
  let ?m = "if n > ?Blk - ?Off then ?Blk - ?Off else n"
  obtain p u where k: "kmalloc s = (p, u)" by fastforce
  obtain r x v where d: "drive (rd Ctx (fcLba (FileCtxs u FC)) True 1) u = ((r, x), v)" by (metis surj_pair)
  note F = kmalloc_frame [OF k] drive_fields [OF d]
  show ?case
  proof (cases "0 < n \<and> p \<noteq> 0")
    case True
    have m: "0 < ?m" "?Off + ?m \<le> ?Blk" using True less.prems by (auto simp: cursor_ok_def)
    define z where "z = (if r \<noteq> 1 then replicate (nat ?Blk) (CHR 0x00) else x)"
    define y where "y = take (nat ?Off) z @ take (nat ?m) (drop (nat Tot) Src) @ drop (nat (?Off + ?m)) z"
    obtain q w where e: "drive (wr Ctx (fcLba (FileCtxs v FC)) (Some y) 1) v = (q, w)" by fastforce
    note G = F drive_fields [OF e]
    have unf: "write_blocks Ops wr Ctx FC n Tot Src s =
        (if q \<noteq> 1 then Some ((False, Tot), kfree p w)
         else write_blocks Ops wr Ctx FC (n - ?m) (Tot + ?m) Src (step_cursor FC ?m ?Blk (kfree p w)))"
      using True k d assms(2) m(1) e unfolding y_def z_def by (subst write_blocks.simps) (simp add: Let_def)
    note step = loop_frame_step [OF less.prems _ m(2), of "kfree p w"]
    have "cursor_ok ?Blk (FileCtxs (step_cursor FC ?m ?Blk (kfree p w)) FC)"
      by (rule step(1)) (use m G in simp_all)
    moreover have "nat (n - ?m) < nat n" using m(1) True by simp
    ultimately have "\<exists>early tot t. write_blocks Ops wr Ctx FC (n - ?m) (Tot + ?m) Src (step_cursor FC ?m ?Blk (kfree p w)) =
        Some ((early, tot), t) \<and> loop_frame ?Blk FC s t"
      using less.hyps step(2) m(1) G by (metis (no_types, lifting) kfree_fields(3,5,6) less_imp_le)
    moreover have "loop_frame ?Blk FC s (kfree p w)" by (rule loop_frame_same [OF less.prems]) (use G in simp_all)
    ultimately show ?thesis unfolding unf by simp
  next
    case False
    then show ?thesis using less.prems k F by (subst write_blocks.simps) (auto simp: Let_def loop_frame_same)
  qed
qed

text \<open>What an open file keeps: on a block device whose blocks have a size, the cursor is inside its block.\<close>

definition stream_ok :: "nat \<Rightarrow> ('d, 'z) devfs_scheme \<Rightarrow> bool" where
  "stream_ok F s \<longleftrightarrow> (file_dev F s \<noteq> 0 \<longrightarrow>
     (case deOps (DevEntries s (file_dev F s)) of
        DevChar Ops \<Rightarrow> True
      | DevBlock Ops \<Rightarrow> 0 < BlockSize Ops \<longrightarrow> cursor_ok (BlockSize Ops) (FileCtxs s (fPriv (Files s F)))))"

text \<open>The two calls that do not come back: a write calls \<^verbatim>\<open>ReadBlocks\<close> without asking whether there is one, and a seek divides by
  the block size without asking whether it is zero.\<close>

definition write_faults :: "nat \<Rightarrow> string option \<Rightarrow> int \<Rightarrow> ('d, 'z) devfs_scheme \<Rightarrow> bool" where
  "write_faults F Src n s \<longleftrightarrow> Src \<noteq> None \<and> F \<noteq> 0 \<and> 0 < n \<and> file_dev F s \<noteq> 0 \<and> fst (kmalloc s) \<noteq> 0 \<and>
     (case deOps (DevEntries s (file_dev F s)) of
        DevChar Ops \<Rightarrow> False
      | DevBlock Ops \<Rightarrow> B_WriteBlocks Ops \<noteq> None \<and> 0 < BlockSize Ops \<and> B_ReadBlocks Ops = None)"

definition seek_faults :: "nat \<Rightarrow> int \<Rightarrow> ('d, 'z) devfs_scheme \<Rightarrow> bool" where
  "seek_faults F Whence s \<longleftrightarrow> F \<noteq> 0 \<and> file_dev F s \<noteq> 0 \<and> (Whence = 0 \<or> Whence = 1) \<and>
     (case deOps (DevEntries s (file_dev F s)) of DevChar Ops \<Rightarrow> False | DevBlock Ops \<Rightarrow> BlockSize Ops = 0)"

lemma drive_frame [simp]:
  "FileCtxs (snd (drive f s)) = FileCtxs s" "Files (snd (drive f s)) = Files s" "DevEntries (snd (drive f s)) = DevEntries s"
  by (simp_all add: drive_def split: prod.splits)

lemma set_file_fields [simp]:
  "FileCtxs (set_file F f s) = FileCtxs s" "DevEntries (set_file F f s) = DevEntries s" "Drv (set_file F f s) = Drv s"
  "Files (set_file F f s) F = f (Files s F)" "NextPtr (set_file F f s) = NextPtr s" "HeapLeft (set_file F f s) = HeapLeft s"
  by (simp_all add: set_file_def)

lemma set_ctx_fields [simp]:
  "Files (set_ctx C f s) = Files s" "DevEntries (set_ctx C f s) = DevEntries s" "Drv (set_ctx C f s) = Drv s"
  "FileCtxs (set_ctx C f s) C = f (FileCtxs s C)"
  by (simp_all add: set_ctx_def)

lemma file_dev_cong:
  assumes "fPriv (Files t F) = fPriv (Files s F)" "fcDev (FileCtxs t (fPriv (Files s F))) = fcDev (FileCtxs s (fPriv (Files s F)))"
  shows "file_dev F t = file_dev F s"
  using assms by (simp add: file_dev_def Let_def)

lemma stream_ok_char:
  assumes "deOps (DevEntries s (file_dev F s)) = DevChar Ops" "fPriv (Files t F) = fPriv (Files s F)"
    "fcDev (FileCtxs t (fPriv (Files s F))) = fcDev (FileCtxs s (fPriv (Files s F)))" "DevEntries t = DevEntries s"
  shows "stream_ok F t"
  using assms file_dev_cong [OF assms(2,3)] by (simp add: stream_ok_def)

lemma stream_ok_block:
  assumes "deOps (DevEntries s (file_dev F s)) = DevBlock Ops" "fPriv (Files t F) = fPriv (Files s F)"
    "fcDev (FileCtxs t (fPriv (Files s F))) = fcDev (FileCtxs s (fPriv (Files s F)))" "DevEntries t = DevEntries s"
    "0 < BlockSize Ops \<Longrightarrow> cursor_ok (BlockSize Ops) (FileCtxs t (fPriv (Files s F)))"
  shows "stream_ok F t"
  using assms file_dev_cong [OF assms(2,3)] by (simp add: stream_ok_def)

lemma smod_range:
  fixes a :: int
  assumes "0 \<le> a" "0 < b"
  shows "0 \<le> a smod b" "a smod b < b" "a sdiv b = a div b" "a smod b = a mod b"
  using assms by (simp_all add: signed_modulo_int_def signed_divide_int_def sgn_if)

lemma drive_eq:
  obtains r d where "f (Drv s) = (r, d)" "drive f s = (r, s\<lparr>Drv := d\<rparr>)"
  by (cases "f (Drv s)") (auto simp: drive_def)

lemma DevVfsRead_returns:
  assumes "stream_ok F s"
  shows "\<exists>x t. DevVfsRead F Buf n s = Some (x, t) \<and> stream_ok F t"
proof (cases "F = 0 \<or> \<not> Buf \<or> n \<le> 0 \<or> file_dev F s = 0")
  case True
  then show ?thesis using assms by (auto simp: DevVfsRead_def)
next
  case go: False
  show ?thesis
  proof (cases "deOps (DevEntries s (file_dev F s))")
    case (DevChar Ops)
    show ?thesis
    proof (cases "C_Read Ops")
      case None
      then show ?thesis using go assms DevChar by (simp add: DevVfsRead_def)
    next
      case (Some rd)
      let ?E = "DevEntries s (file_dev F s)"
      obtain r x d where d: "drive (rd (deContext ?E) True n) s = ((r, x), s\<lparr>Drv := d\<rparr>)"
        by (metis drive_eq surj_pair)
      show ?thesis
        using go DevChar Some d by (auto simp: DevVfsRead_def Let_def intro!: stream_ok_char [OF DevChar])
    qed
  next
    case (DevBlock Ops)
    show ?thesis
    proof (cases "B_ReadBlocks Ops = None \<or> BlockSize Ops \<le> 0")
      case True
      then show ?thesis using go assms DevBlock by (auto simp: DevVfsRead_def split: option.splits)
    next
      case False
      then obtain rd where rd: "B_ReadBlocks Ops = Some rd" "0 < BlockSize Ops" by auto
      then have b: "cursor_ok (BlockSize Ops) (FileCtxs s (fPriv (Files s F)))" using assms go DevBlock by (simp add: stream_ok_def)
      obtain early tot dst t where t: "read_blocks Ops rd (deContext (DevEntries s (file_dev F s))) (fPriv (Files s F)) n 0 [] s = Some ((early, tot, dst), t)"
          "loop_frame (BlockSize Ops) (fPriv (Files s F)) s t"
        using read_blocks_returns [OF b] by blast
      then have "stream_ok F t" "stream_ok F (set_file F (\<lambda>X. X\<lparr>fOffset := fOffset X + tot\<rparr>) t)"
        by (auto simp: loop_frame_def intro!: stream_ok_block [OF DevBlock])
      then show ?thesis using go DevBlock rd t(1) by (simp add: DevVfsRead_def)
    qed
  qed
qed

lemma write_blocks_faults:
  assumes "B_ReadBlocks Ops = None" "0 < n" "fst (kmalloc s) \<noteq> 0"
  shows "write_blocks Ops wr Ctx FC n Tot Src s = None"
proof -
  obtain p u where "kmalloc s = (p, u)" "p \<noteq> 0" using assms(3) by (metis prod.collapse)
  then show ?thesis using assms(1,2) by (subst write_blocks.simps) simp
qed

lemma DevVfsWrite_faults: "write_faults F Src n s \<Longrightarrow> DevVfsWrite F Src n s = None"
  by (auto simp: write_faults_def DevVfsWrite_def write_blocks_faults Let_def split: DevOps.splits)

lemma DevVfsWrite_returns:
  assumes "stream_ok F s" "\<not> write_faults F Buf n s"
  shows "\<exists>x t. DevVfsWrite F Buf n s = Some (x, t) \<and> stream_ok F t"
proof (cases "F = 0 \<or> Buf = None \<or> n \<le> 0 \<or> file_dev F s = 0")
  case True
  then show ?thesis using assms by (auto simp: DevVfsWrite_def split: option.splits)
next
  case False
  then obtain Src where go: "Buf = Some Src" "F \<noteq> 0" "0 < n" "file_dev F s \<noteq> 0" by auto
  show ?thesis
  proof (cases "deOps (DevEntries s (file_dev F s))")
    case (DevChar Ops)
    show ?thesis
    proof (cases "C_Write Ops")
      case None
      then show ?thesis using go assms DevChar by (simp add: DevVfsWrite_def)
    next
      case (Some wr)
      obtain r d where d: "drive (wr (deContext (DevEntries s (file_dev F s))) (Some Src) n) s = (r, s\<lparr>Drv := d\<rparr>)"
        by (metis drive_eq)
      show ?thesis
        using go DevChar Some d by (auto simp: DevVfsWrite_def Let_def intro!: stream_ok_char [OF DevChar])
    qed
  next
    case (DevBlock Ops)
    show ?thesis
    proof (cases "B_WriteBlocks Ops = None \<or> BlockSize Ops \<le> 0")
      case True
      then show ?thesis using go assms DevBlock by (auto simp: DevVfsWrite_def split: option.splits)
    next
      case False
      then obtain wr where wr: "B_WriteBlocks Ops = Some wr" "0 < BlockSize Ops" by auto
      then have b: "cursor_ok (BlockSize Ops) (FileCtxs s (fPriv (Files s F)))" using assms(1) go DevBlock by (simp add: stream_ok_def)
      obtain early tot t where t: "write_blocks Ops wr (deContext (DevEntries s (file_dev F s))) (fPriv (Files s F)) n 0 Src s = Some ((early, tot), t)"
          "loop_frame (BlockSize Ops) (fPriv (Files s F)) s t"
      proof (cases "B_ReadBlocks Ops")
        case None
        then have k: "fst (kmalloc s) = 0" using assms(2) go DevBlock wr by (simp add: write_faults_def)
        obtain u where u: "kmalloc s = (0, u)" using k by (metis prod.collapse)
        have "write_blocks Ops wr (deContext (DevEntries s (file_dev F s))) (fPriv (Files s F)) n 0 Src s = Some ((True, 0), u)"
          using go u by (subst write_blocks.simps) simp
        moreover have "loop_frame (BlockSize Ops) (fPriv (Files s F)) s u"
          using kmalloc_frame [OF u] by (intro loop_frame_same [OF b]) simp_all
        ultimately show ?thesis by (rule that)
      next
        case (Some rd)
        then show ?thesis using write_blocks_returns [OF b Some] that by blast
      qed
      then have "stream_ok F t" "stream_ok F (set_file F (\<lambda>X. X\<lparr>fOffset := fOffset X + tot\<rparr>) t)"
        by (auto simp: loop_frame_def intro!: stream_ok_block [OF DevBlock])
      then show ?thesis using go DevBlock wr t(1) by (simp add: DevVfsWrite_def)
    qed
  qed
qed

lemma DevVfsLseek_faults:
  assumes "seek_faults F Whence s"
  shows "DevVfsLseek F Off Whence s = None"
proof -
  have g: "F \<noteq> 0" "file_dev F s \<noteq> 0" "Whence = 0 \<or> Whence = 1" using assms unfolding seek_faults_def by blast+
  obtain Ops where o: "deOps (DevEntries s (file_dev F s)) = DevBlock Ops" "BlockSize Ops = 0"
    using assms by (cases "deOps (DevEntries s (file_dev F s))") (simp_all add: seek_faults_def)
  from g(3) show ?thesis using g(1,2) o by (elim disjE) (simp_all add: DevVfsLseek_def Let_def)
qed

lemma DevVfsLseek_returns:
  assumes "stream_ok F s" "\<not> seek_faults F Whence s"
  shows "\<exists>x t. DevVfsLseek F Off Whence s = Some (x, t) \<and> stream_ok F t"
proof (cases "F = 0 \<or> file_dev F s = 0")
  case True
  then show ?thesis using assms by (simp add: DevVfsLseek_def)
next
  case go: False
  show ?thesis
  proof (cases "deOps (DevEntries s (file_dev F s))")
    case (DevChar Ops)
    then show ?thesis
      using go assms by (auto simp: DevVfsLseek_def Let_def split: option.splits intro!: stream_ok_char [OF DevChar])
  next
    case (DevBlock Ops)
    let ?t = "\<lambda>n. set_ctx (fPriv (Files s F)) (\<lambda>C. C\<lparr>fcLba := word_of_int (n sdiv BlockSize Ops), fcOffset := n smod BlockSize Ops\<rparr>)
        (set_file F (\<lambda>X. X\<lparr>fOffset := n\<rparr>) s)"
    have "stream_ok F (?t n)" if "0 \<le> n" for n
      using smod_range [OF that] by (intro stream_ok_block [OF DevBlock]) (simp_all add: cursor_ok_def)
    note ok = this
    show ?thesis
    proof (cases "BlockSize Ops = 0")
      case True
      then have "Whence \<noteq> 0" "Whence \<noteq> 1" using assms(2) go DevBlock by (auto simp: seek_faults_def)
      then show ?thesis using go assms(1) DevBlock True by (simp add: DevVfsLseek_def Let_def)
    next
      case False
      have seek: "\<exists>x t. Some (if b + Off < 0 then 0 else b + Off, ?t (if b + Off < 0 then 0 else b + Off)) = Some (x, t) \<and> stream_ok F t" for b
        using ok by simp
      consider "Whence = 0" | "Whence = 1" | "Whence = 2" "0 < BlockSize Ops" | "Whence \<noteq> 0" "Whence \<noteq> 1" "\<not> (Whence = 2 \<and> 0 < BlockSize Ops)"
        by blast
      then show ?thesis
      proof cases
        case 1
        then show ?thesis using go DevBlock False seek [of 0] by (simp add: DevVfsLseek_def Let_def)
      next
        case 2
        then show ?thesis using go DevBlock False seek [of "fOffset (Files s F)"] by (simp add: DevVfsLseek_def Let_def)
      next
        case 3
        then show ?thesis
          using go DevBlock False seek [of "fOffset (Files s F) - fOffset (Files s F) smod BlockSize Ops + BlockSize Ops"]
          by (simp add: DevVfsLseek_def Let_def)
      next
        case 4
        then show ?thesis using go assms(1) DevBlock by (auto simp: DevVfsLseek_def Let_def)
      qed
    qed
  qed
qed

text \<open>Opening a node of a device puts the file at the start of it.\<close>

lemma DevVfsOpen_ctx:
  assumes "DevVfsOpen Node F s = (0, t)" "vType (Vnodes s Node) = VNodeDEV"
  shows "\<exists>FC. fPriv (Files t F) = FC \<and> FileCtxs t FC = \<lparr>fcDev = NodeDevs s (vPriv (Vnodes s Node)), fcLba = 0, fcOffset = 0\<rparr> \<and>
    DevEntries t = DevEntries s"
proof -
  let ?Dev = "NodeDevs s (vPriv (Vnodes s Node))"
  obtain FC u where k: "kmalloc s = (FC, u)" by fastforce
  let ?u = "u\<lparr>FileCtxs := (FileCtxs u)(FC := \<lparr>fcDev = ?Dev, fcLba = 0, fcOffset = 0\<rparr>)\<rparr>"
  let ?v = "set_file F (\<lambda>X. X\<lparr>fNode := Node, fOffset := 0, fRefcnt := 1, fPriv := FC\<rparr>) ?u"
  note F = kmalloc_frame [OF k]
  have "Files t = Files ?v \<and> FileCtxs t = FileCtxs ?v \<and> DevEntries t = DevEntries s"
  proof (cases "case deOps (DevEntries s ?Dev) of DevChar Ops \<Rightarrow> C_Open Ops | DevBlock Ops \<Rightarrow> B_Open Ops")
    case None
    then have "t = ?v" using assms k F by (simp add: DevVfsOpen_def Let_def split: if_splits)
    then show ?thesis using F by simp
  next
    case (Some f)
    have "(0, t) = drive (f (deContext (DevEntries s ?Dev))) ?v"
      using assms k F Some by (simp add: DevVfsOpen_def Let_def split: if_splits)
    then have "t = snd (drive (f (deContext (DevEntries s ?Dev))) ?v)" by (metis snd_conv)
    then show ?thesis using F by simp
  qed
  then show ?thesis by simp
qed

lemma DevVfsOpen_stream_ok:
  assumes "DevVfsOpen Node F s = (0, t)" "vType (Vnodes s Node) = VNodeDEV"
  shows "stream_ok F t"
  using DevVfsOpen_ctx [OF assms]
  by (auto simp: stream_ok_def file_dev_def cursor_ok_def Let_def split: DevOps.splits)

section \<open>Files of a block device\<close>

text \<open>The file \<open>F\<close> is open on the device with these operations and this context, with its cursor at byte \<open>p\<close>.\<close>

definition block_file :: "nat \<Rightarrow> 'd BlockDevOps \<Rightarrow> nat \<Rightarrow> nat \<Rightarrow> ('d, 'z) devfs_scheme \<Rightarrow> bool" where
  "block_file F Ops Ctx p s \<longleftrightarrow> F \<noteq> 0 \<and> file_dev F s \<noteq> 0 \<and> deOps (DevEntries s (file_dev F s)) = DevBlock Ops \<and>
     deContext (DevEntries s (file_dev F s)) = Ctx \<and> 0 < BlockSize Ops \<and>
     cursor_at (nat (BlockSize Ops)) (FileCtxs s (fPriv (Files s F))) p"

definition heap_left :: "('d, 'z) devfs_scheme \<Rightarrow> bool" where
  "heap_left s \<longleftrightarrow> HeapLeft s \<noteq> 0 \<and> 0 < NextPtr s"

text \<open>What no operation on the file \<open>F\<close> touches in the switch.\<close>

definition same_vfs :: "nat \<Rightarrow> ('d, 'z) devfs_scheme \<Rightarrow> ('d, 'z) devfs_scheme \<Rightarrow> bool" where
  "same_vfs F s t \<longleftrightarrow> VfsLock t = VfsLock s \<and> CurCpu t = CurCpu s \<and> Vnodes t = Vnodes s \<and> fNode (Files t F) = fNode (Files s F)"

lemma block_file_cong:
  assumes "block_file F Ops Ctx p s" "FileCtxs t = FileCtxs s" "DevEntries t = DevEntries s" "fPriv (Files t F) = fPriv (Files s F)"
  shows "block_file F Ops Ctx p t"
  using assms file_dev_cong [OF assms(4)] by (simp add: block_file_def)

lemma stream_frame_heap: "stream_frame FC s t \<Longrightarrow> heap_left s \<Longrightarrow> heap_left t"
  by (auto simp: stream_frame_def heap_left_def)

lemma block_file_stream:
  assumes "block_file F Ops Ctx p s" "stream_frame (fPriv (Files s F)) s t"
    and "cursor_at (nat (BlockSize Ops)) (FileCtxs t (fPriv (Files s F))) q"
  shows "block_file F Ops Ctx q t" "block_file F Ops Ctx q (set_file F (\<lambda>X. X\<lparr>fOffset := n\<rparr>) t)"
    "Files t = Files s"
proof -
  have t: "Files t = Files s" "DevEntries t = DevEntries s" "fcDev (FileCtxs t (fPriv (Files s F))) = fcDev (FileCtxs s (fPriv (Files s F)))"
    using assms(2) by (auto simp: stream_frame_def)
  then have "file_dev F t = file_dev F s" by (intro file_dev_cong) simp_all
  then show "block_file F Ops Ctx q t" using assms(1,3) t by (simp add: block_file_def)
  have "file_dev F (set_file F (\<lambda>X. X\<lparr>fOffset := n\<rparr>) t) = file_dev F s" using t by (intro file_dev_cong) simp_all
  then show "block_file F Ops Ctx q (set_file F (\<lambda>X. X\<lparr>fOffset := n\<rparr>) t)" using assms(1,3) t by (simp add: block_file_def)
  show "Files t = Files s" by (rule t(1))
qed

lemma stream_same_vfs:
  assumes "stream_frame FC s t" "\<And>X. fNode (f X) = fNode X"
  shows "same_vfs F s (set_file F f t)"
  using assms by (auto simp: stream_frame_def same_vfs_def set_file_def)

context block_device begin

text \<open>What \<^verbatim>\<open>read\<close> and \<^verbatim>\<open>write\<close> do to a file of the device.\<close>

lemma file_read:
  assumes F: "block_file F Ops Ctx p s" and B: "BlockSize Ops = int b" "B_ReadBlocks Ops = Some f" "\<And>l. f Ctx l True 1 = rd l"
    and "ok (Drv s)" "heap_left s" "0 < n"
  shows "\<exists>t. DevVfsRead F True (int n) s =
      Some ((int (min n (length (bytes (Drv s)) - p)), take n (drop p (bytes (Drv s)))), t) \<and>
    ok (Drv t) \<and> blocks (Drv t) = blocks (Drv s) \<and> rest (Drv t) = rest (Drv s) \<and> heap_left t \<and>
    block_file F Ops Ctx (p + min n (length (bytes (Drv s)) - p)) t \<and> same_vfs F s t \<and>
    fOffset (Files t F) = fOffset (Files s F) + int (min n (length (bytes (Drv s)) - p))"
proof -
  let ?k = "min n (length (bytes (Drv s)) - p)"
  have c: "cursor_at b (FileCtxs s (fPriv (Files s F))) p" "F \<noteq> 0" "file_dev F s \<noteq> 0" "0 < int b"
    "deOps (DevEntries s (file_dev F s)) = DevBlock Ops" "deContext (DevEntries s (file_dev F s)) = Ctx"
    using F by (simp_all add: block_file_def B(1))
  obtain t where t: "read_blocks Ops f Ctx (fPriv (Files s F)) (int n) 0 [] s = Some ((False, int ?k, take n (drop p (bytes (Drv s)))), t)"
    "stream_frame (fPriv (Files s F)) s t" "ok (Drv t)" "blocks (Drv t) = blocks (Drv s)" "rest (Drv t) = rest (Drv s)"
    "cursor_at b (FileCtxs t (fPriv (Files s F))) (p + ?k)"
    using read_stream [where f = f and Ctx = Ctx, OF B(3) B(1) assms(5) c(1), of n 0 "[]"] assms(6) by (auto simp: heap_left_def)
  have "DevVfsRead F True (int n) s =
      Some ((int ?k, take n (drop p (bytes (Drv s)))), set_file F (\<lambda>X. X\<lparr>fOffset := fOffset X + int ?k\<rparr>) t)"
    using c B(1,2) t(1) assms(7) by (simp add: DevVfsRead_def Let_def)
  moreover have "set_file F (\<lambda>X. X\<lparr>fOffset := fOffset X + int ?k\<rparr>) t = set_file F (\<lambda>X. X\<lparr>fOffset := fOffset (Files s F) + int ?k\<rparr>) t"
    using block_file_stream(3) [OF F t(2), of "p + ?k"] t(6) by (simp add: set_file_def B(1))
  ultimately show ?thesis
    using t stream_frame_heap [OF t(2) assms(6)] block_file_stream [OF F t(2), of "p + ?k"] B(1)
      stream_same_vfs [OF t(2), where F = F and f = "\<lambda>X. X\<lparr>fOffset := fOffset (Files s F) + int ?k\<rparr>"]
    by (intro exI [of _ "set_file F (\<lambda>X. X\<lparr>fOffset := fOffset (Files s F) + int ?k\<rparr>) t"]) (simp add: heap_left_def)
qed

lemma file_write:
  assumes F: "block_file F Ops Ctx p s" and B: "BlockSize Ops = int b" "B_ReadBlocks Ops = Some f" "\<And>l. f Ctx l True 1 = rd l"
      "B_WriteBlocks Ops = Some g" "\<And>l x. g Ctx l (Some x) 1 = wr l x"
    and "ok (Drv s)" "heap_left s" "Src \<noteq> []"
  shows "\<exists>t. DevVfsWrite F (Some Src) (int (length Src)) s = Some (int (min (length Src) (length (bytes (Drv s)) - p)), t) \<and>
    ok (Drv t) \<and> bytes (Drv t) = overwrite p (take (length (bytes (Drv s)) - p) Src) (bytes (Drv s)) \<and> rest (Drv t) = rest (Drv s) \<and>
    heap_left t \<and> block_file F Ops Ctx (p + min (length Src) (length (bytes (Drv s)) - p)) t"
proof -
  let ?n = "length Src"
  let ?k = "min ?n (length (bytes (Drv s)) - p)"
  have c: "cursor_at b (FileCtxs s (fPriv (Files s F))) p" "F \<noteq> 0" "file_dev F s \<noteq> 0" "0 < int b"
    "deOps (DevEntries s (file_dev F s)) = DevBlock Ops" "deContext (DevEntries s (file_dev F s)) = Ctx"
    using F by (simp_all add: block_file_def B(1))
  obtain t where t: "write_blocks Ops g Ctx (fPriv (Files s F)) (int ?n) 0 Src s = Some ((False, int ?k), t)"
    "stream_frame (fPriv (Files s F)) s t" "ok (Drv t)" "bytes (Drv t) = overwrite p (take ?k Src) (bytes (Drv s))" "rest (Drv t) = rest (Drv s)"
    "cursor_at b (FileCtxs t (fPriv (Files s F))) (p + ?k)"
    using write_stream [where f = f and g = g and Ctx = Ctx and T = 0 and n = ?n and Src = Src, OF B(2,3,5,1) assms(7) c(1)] assms(8)
    by (auto simp: heap_left_def)
  have tk: "take ?k Src = take (length (bytes (Drv s)) - p) Src" by (simp add: min_def)
  have "DevVfsWrite F (Some Src) (int ?n) s = Some (int ?k, set_file F (\<lambda>X. X\<lparr>fOffset := fOffset X + int ?k\<rparr>) t)"
    using c B(1,4) t(1) assms(9) by (simp add: DevVfsWrite_def Let_def)
  moreover have "set_file F (\<lambda>X. X\<lparr>fOffset := fOffset X + int ?k\<rparr>) t = set_file F (\<lambda>X. X\<lparr>fOffset := fOffset (Files s F) + int ?k\<rparr>) t"
    using block_file_stream(3) [OF F t(2), of "p + ?k"] t(6) by (simp add: set_file_def B(1))
  ultimately show ?thesis
    using t(3,5) t(4) [unfolded tk] stream_frame_heap [OF t(2) assms(8)] block_file_stream [OF F t(2), of "p + ?k"] t(6) B(1)
    by (intro exI [of _ "set_file F (\<lambda>X. X\<lparr>fOffset := fOffset (Files s F) + int ?k\<rparr>) t"]) (simp add: heap_left_def)
qed

end

text \<open>Seeking puts the cursor at the byte asked for.\<close>

lemma seek_set:
  assumes "block_file F Ops Ctx p s" "int q div BlockSize Ops < 2 ^ 64"
  shows "\<exists>t. DevVfsLseek F (int q) 0 s = Some (int q, t) \<and> block_file F Ops Ctx q t \<and> Drv t = Drv s \<and>
    HeapLeft t = HeapLeft s \<and> NextPtr t = NextPtr s"
proof -
  obtain b where b: "BlockSize Ops = int b" "0 < b" using assms(1) unfolding block_file_def by (metis of_nat_0_less_iff zero_less_imp_eq_int)
  let ?C = "\<lambda>C. C\<lparr>fcLba := word_of_int (int q sdiv BlockSize Ops), fcOffset := int q smod BlockSize Ops\<rparr> :: DevFsFileCtx"
  let ?t = "set_ctx (fPriv (Files s F)) ?C (set_file F (\<lambda>X. X\<lparr>fOffset := int q\<rparr>) s)"
  have d: "file_dev F ?t = file_dev F s" by (intro file_dev_cong) simp_all
  have sm: "int q sdiv int b = int (q div b)" "int q smod int b = int (q mod b)"
    using smod_range [of "int q" "int b"] b(2) by (simp_all add: zdiv_int zmod_int)
  have "int (q div b) < 2 ^ 64" using assms(2) b(1) by (simp add: zdiv_int)
  then have "q div b < 2 ^ 64" by simp
  then have u: "unat (word_of_nat (q div b) :: u64) = q div b" by (simp add: unat_of_nat take_bit_nat_eq_self)
  have "block_file F Ops Ctx q ?t"
    using assms(1) d u b sm by (simp add: block_file_def cursor_at_def)
  moreover have "DevVfsLseek F (int q) 0 s = Some (int q, ?t)"
    using assms(1) b by (simp add: DevVfsLseek_def block_file_def Let_def)
  ultimately show ?thesis by (intro exI [of _ ?t]) (simp add: set_ctx_def set_file_def)
qed

end
