(* ===== verification/DeviceSpec.thy ===== *)
theory DeviceSpec
  imports DeviceFiles
begin

text \<open>Disks and partitions as instances of the block device contract, and the properties of the devices, each with a
  machine of one disk and one partition it applies to.\<close>

section \<open>Disks and partitions as block devices\<close>

text \<open>What the driver of a controller promises of the two functions it registers: a block inside the medium is read,
  and replaced, as asked. \<open>media\<close> are the blocks, \<open>sound\<close> is what the driver keeps of its state.\<close>

definition controller ::
  "(nat \<Rightarrow> u64 \<Rightarrow> bool \<Rightarrow> int \<Rightarrow> 'd \<Rightarrow> (int \<times> string) \<times> 'd) \<Rightarrow> (nat \<Rightarrow> u64 \<Rightarrow> string option \<Rightarrow> int \<Rightarrow> 'd \<Rightarrow> int \<times> 'd) \<Rightarrow>
   nat \<Rightarrow> nat \<Rightarrow> ('d \<Rightarrow> string list) \<Rightarrow> ('d \<Rightarrow> bool) \<Rightarrow> bool" where
  "controller rd wr ctx b media sound \<longleftrightarrow>
     (\<forall>d l. sound d \<longrightarrow> unat l < length (media d) \<longrightarrow> (\<exists>e. rd ctx l True 1 d = ((1, media d ! unat l), e) \<and> sound e \<and> media e = media d)) \<and>
     (\<forall>d l x. sound d \<longrightarrow> unat l < length (media d) \<longrightarrow> length x = b \<longrightarrow>
        (\<exists>e. wr ctx l (Some x) 1 d = (1, e) \<and> sound e \<and> media e = (media d)[unat l := x])) \<and>
     (\<forall>d. sound d \<longrightarrow> uniform b (media d) \<and> length (media d) < 2 ^ 63)"

lemma controller_read:
  assumes "controller rd wr ctx b media sound" "sound d" "unat l < length (media d)"
  obtains e where "rd ctx l True 1 d = ((1, media d ! unat l), e)" "sound e" "media e = media d"
  using assms unfolding controller_def by blast

lemma controller_write:
  assumes "controller rd wr ctx b media sound" "sound d" "unat l < length (media d)" "length x = b"
  obtains e where "wr ctx l (Some x) 1 d = (1, e)" "sound e" "media e = (media d)[unat l := x]"
  using assms unfolding controller_def by blast

lemma controller_blocks:
  assumes "controller rd wr ctx b media sound" "sound d"
  shows "uniform b (media d)" "length (media d) < 2 ^ 63"
  using assms unfolding controller_def by blast+

text \<open>A disk with such a driver, and a partition of it that lies on the medium.\<close>

definition disk_on where
  "disk_on rd wr b media sound Ctx s \<longleftrightarrow>
     (let D = Disks s Ctx in
      Ctx \<noteq> 0 \<and> bdCtrlCtx D \<noteq> 0 \<and> B_ReadBlocks (bdOps D) = Some rd \<and> B_WriteBlocks (bdOps D) = Some wr \<and>
      controller rd wr (bdCtrlCtx D) b media sound \<and> sound (Controllers s))"

definition disk_ok where
  "disk_ok rd wr b media sound Ctx s \<longleftrightarrow>
     disk_on rd wr b media sound Ctx s \<and> unat (TotalBlocks (Disks s Ctx)) \<le> length (media (Controllers s))"

definition part_ok where
  "part_ok rd wr b media sound Ctx s \<longleftrightarrow>
     Ctx \<noteq> 0 \<and> disk_on rd wr b media sound (bpParent (Parts s Ctx)) s \<and>
     unat (StartLba (Parts s Ctx)) + unat (NumBlocks (Parts s Ctx)) \<le> length (media (Controllers s))"

lemma do_count_one:
  assumes "unat left < 2 ^ 63" "left \<noteq> 0"
  shows "do_count 1 left = 1"
proof -
  have "uint left < 2 ^ 63" using assms(1) unfolding uint_nat of_nat_less_iff [symmetric, where 'a = int] by simp
  moreover have "- (2 ^ 63) \<le> uint left" by (rule order_trans [OF _ uint_ge_0]) simp
  ultimately have "sint left = uint left" using signed_take_bit_int_eq_self [of 63 "uint left"] by (simp add: sint_uint)
  moreover have "0 < uint left" using assms(2) by (simp add: uint_0_iff order_less_le)
  ultimately show ?thesis by (simp add: do_count_def)
qed

lemma unat_diff:
  fixes a b :: u64
  assumes "unat b < unat a"
  shows "unat (a - b) = unat a - unat b" "a - b \<noteq> 0"
proof -
  show e: "unat (a - b) = unat a - unat b" using assms by (intro unat_sub) (simp add: word_le_nat_alt)
  show "a - b \<noteq> 0" using assms e by (metis unat_0 zero_less_diff less_numeral_extra(3))
qed

lemma do_count_left:
  fixes a l :: u64
  assumes "unat l < unat a" "unat a < 2 ^ 63"
  shows "do_count 1 (a - l) = 1"
  using unat_diff [OF assms(1)] assms(2) by (intro do_count_one) simp_all

lemma disk_read:
  assumes "disk_ok rd wr b media sound Ctx s" "unat l < unat (TotalBlocks (Disks s Ctx))"
  obtains e where "BlkDiskReadBlocks Ctx l True 1 s = ((1, media (Controllers s) ! unat l), s\<lparr>Controllers := e\<rparr>)"
    "sound e" "media e = media (Controllers s)"
proof -
  have c: "controller rd wr (bdCtrlCtx (Disks s Ctx)) b media sound" "sound (Controllers s)" "unat (TotalBlocks (Disks s Ctx)) < 2 ^ 63"
    "unat l < length (media (Controllers s))"
    using assms controller_blocks(2) by (fastforce simp: disk_ok_def disk_on_def Let_def)+
  obtain e where "rd (bdCtrlCtx (Disks s Ctx)) l True 1 (Controllers s) = ((1, media (Controllers s) ! unat l), e)"
    "sound e" "media e = media (Controllers s)"
    using controller_read [OF c(1,2,4)] .
  then show ?thesis
    using that assms do_count_left [OF assms(2) c(3)]
    by (simp add: disk_ok_def disk_on_def BlkDiskReadBlocks_def control_def word_le_nat_alt Let_def)
qed

lemma disk_write:
  assumes "disk_ok rd wr b media sound Ctx s" "unat l < unat (TotalBlocks (Disks s Ctx))" "length x = b"
  obtains e where "BlkDiskWriteBlocks Ctx l (Some x) 1 s = (1, s\<lparr>Controllers := e\<rparr>)"
    "sound e" "media e = (media (Controllers s))[unat l := x]"
proof -
  have c: "controller rd wr (bdCtrlCtx (Disks s Ctx)) b media sound" "sound (Controllers s)" "unat (TotalBlocks (Disks s Ctx)) < 2 ^ 63"
    "unat l < length (media (Controllers s))"
    using assms controller_blocks(2) by (fastforce simp: disk_ok_def disk_on_def Let_def)+
  obtain e where "wr (bdCtrlCtx (Disks s Ctx)) l (Some x) 1 (Controllers s) = (1, e)"
    "sound e" "media e = (media (Controllers s))[unat l := x]"
    using controller_write [OF c(1,2,4) assms(3)] .
  then show ?thesis
    using that assms do_count_left [OF assms(2) c(3)]
    by (simp add: disk_ok_def disk_on_def BlkDiskWriteBlocks_def control_def word_le_nat_alt Let_def)
qed

lemma uniform_sub: "uniform b xs \<Longrightarrow> uniform b (take n (drop k xs))"
  by (auto simp: uniform_def dest: in_set_takeD in_set_dropD)

interpretation disk: block_device "\<lambda>l. BlkDiskReadBlocks Ctx l True 1" "\<lambda>l x. BlkDiskWriteBlocks Ctx l (Some x) 1"
  "\<lambda>s. take (unat (TotalBlocks (Disks s Ctx))) (media (Controllers s))"
  "\<lambda>s. (drop (unat (TotalBlocks (Disks s Ctx))) (media (Controllers s)), Disks s, Parts s, Buses s)"
  b "disk_ok rd wr b media sound Ctx"
  for Ctx rd wr b media sound
proof (unfold_locales, goal_cases)
  case (1 d l)
  then have l: "unat l < unat (TotalBlocks (Disks d Ctx))" by simp
  show ?case by (rule disk_read [OF 1(1) l]) (use 1 l in \<open>auto simp: disk_ok_def disk_on_def Let_def\<close>)
next
  case (2 d l)
  then have "TotalBlocks (Disks d Ctx) \<le> l" by (auto simp: word_le_nat_alt disk_ok_def)
  then show ?case using 2 by (auto simp: BlkDiskReadBlocks_def)
next
  case (3 d l x)
  then have l: "unat l < unat (TotalBlocks (Disks d Ctx))" by simp
  show ?case
    by (rule disk_write [OF 3(1) l 3(3)]) (use 3 l in \<open>auto simp: disk_ok_def disk_on_def Let_def take_update_swap\<close>)
next
  case (4 d l x)
  then have "TotalBlocks (Disks d Ctx) \<le> l" by (auto simp: word_le_nat_alt disk_ok_def)
  then show ?case using 4 by (auto simp: BlkDiskWriteBlocks_def)
next
  case (5 d)
  then show ?case using uniform_sub [of b "media (Controllers d)" _ 0] by (auto simp: disk_ok_def disk_on_def Let_def controller_def)
next
  case (6 d)
  then have "length (media (Controllers d)) < 2 ^ 63" using controller_blocks(2) by (fastforce simp: disk_ok_def disk_on_def Let_def)
  then show ?case by simp
qed

abbreviation part_blocks where
  "part_blocks media Ctx s \<equiv> take (unat (NumBlocks (Parts s Ctx))) (drop (unat (StartLba (Parts s Ctx))) (media (Controllers s)))"

lemma part_lba:
  assumes "part_ok rd wr b media sound Ctx s" "unat l < unat (NumBlocks (Parts s Ctx))"
  shows "unat (StartLba (Parts s Ctx) + l) = unat (StartLba (Parts s Ctx)) + unat l"
    "unat (StartLba (Parts s Ctx) + l) < length (media (Controllers s))" "unat (NumBlocks (Parts s Ctx)) < 2 ^ 63"
proof -
  have m: "length (media (Controllers s)) < 2 ^ 63"
    using assms controller_blocks(2) by (fastforce simp: part_ok_def disk_on_def Let_def)
  then have "unat (StartLba (Parts s Ctx)) + unat l < 2 ^ 64" using assms by (simp add: part_ok_def)
  then show a: "unat (StartLba (Parts s Ctx) + l) = unat (StartLba (Parts s Ctx)) + unat l"
    by (simp add: unat_word_ariths)
  show "unat (StartLba (Parts s Ctx) + l) < length (media (Controllers s))" "unat (NumBlocks (Parts s Ctx)) < 2 ^ 63"
    using assms m unfolding a by (simp_all add: part_ok_def)
qed

lemma part_read:
  assumes "part_ok rd wr b media sound Ctx s" "unat l < unat (NumBlocks (Parts s Ctx))"
  obtains e where "BlkPartReadBlocks Ctx l True 1 s = ((1, media (Controllers s) ! (unat (StartLba (Parts s Ctx)) + unat l)), s\<lparr>Controllers := e\<rparr>)"
    "sound e" "media e = media (Controllers s)"
proof -
  let ?D = "bdCtrlCtx (Disks s (bpParent (Parts s Ctx)))"
  note L = part_lba [OF assms]
  have c: "controller rd wr ?D b media sound" "sound (Controllers s)"
    using assms by (auto simp: part_ok_def disk_on_def Let_def)
  obtain e where "rd ?D (StartLba (Parts s Ctx) + l) True 1 (Controllers s) =
      ((1, media (Controllers s) ! (unat (StartLba (Parts s Ctx)) + unat l)), e)" "sound e" "media e = media (Controllers s)"
    using controller_read [OF c L(2)] unfolding L(1) .
  then show ?thesis
    using that assms do_count_left [OF assms(2) L(3)]
    by (simp add: part_ok_def disk_on_def BlkPartReadBlocks_def control_def word_le_nat_alt Let_def)
qed

lemma part_write:
  assumes "part_ok rd wr b media sound Ctx s" "unat l < unat (NumBlocks (Parts s Ctx))" "length x = b"
  obtains e where "BlkPartWriteBlocks Ctx l (Some x) 1 s = (1, s\<lparr>Controllers := e\<rparr>)"
    "sound e" "media e = (media (Controllers s))[unat (StartLba (Parts s Ctx)) + unat l := x]"
proof -
  let ?D = "bdCtrlCtx (Disks s (bpParent (Parts s Ctx)))"
  note L = part_lba [OF assms(1,2)]
  have c: "controller rd wr ?D b media sound" "sound (Controllers s)"
    using assms by (auto simp: part_ok_def disk_on_def Let_def)
  obtain e where "wr ?D (StartLba (Parts s Ctx) + l) (Some x) 1 (Controllers s) = (1, e)"
    "sound e" "media e = (media (Controllers s))[unat (StartLba (Parts s Ctx)) + unat l := x]"
    using controller_write [OF c L(2) assms(3)] unfolding L(1) .
  then show ?thesis
    using that assms do_count_left [OF assms(2) L(3)]
    by (simp add: part_ok_def disk_on_def BlkPartWriteBlocks_def control_def word_le_nat_alt Let_def)
qed

lemma middle_update:
  assumes "i < n" "k + n \<le> length xs"
  shows "take n (drop k (xs[k + i := x])) = (take n (drop k xs))[i := x]"
    "take k (xs[k + i := x]) = take k xs" "drop (k + n) (xs[k + i := x]) = drop (k + n) xs"
  using assms by (simp_all add: drop_update_swap take_update_swap list_update_beyond)

interpretation part: block_device "\<lambda>l. BlkPartReadBlocks Ctx l True 1" "\<lambda>l x. BlkPartWriteBlocks Ctx l (Some x) 1"
  "part_blocks media Ctx"
  "\<lambda>s. (take (unat (StartLba (Parts s Ctx))) (media (Controllers s)),
        drop (unat (StartLba (Parts s Ctx)) + unat (NumBlocks (Parts s Ctx))) (media (Controllers s)), Disks s, Parts s, Buses s)"
  b "part_ok rd wr b media sound Ctx"
  for Ctx rd wr b media sound
proof (unfold_locales, goal_cases)
  case (1 d l)
  then have l: "unat l < unat (NumBlocks (Parts d Ctx))" by simp
  show ?case by (rule part_read [OF 1(1) l]) (use 1 l in \<open>auto simp: part_ok_def disk_on_def Let_def\<close>)
next
  case (2 d l)
  then have "NumBlocks (Parts d Ctx) \<le> l" by (auto simp: word_le_nat_alt part_ok_def)
  then show ?case using 2 by (auto simp: BlkPartReadBlocks_def Let_def)
next
  case (3 d l x)
  then have l: "unat l < unat (NumBlocks (Parts d Ctx))" by simp
  have "unat (StartLba (Parts d Ctx)) + unat (NumBlocks (Parts d Ctx)) \<le> length (media (Controllers d))"
    using 3(1) by (simp add: part_ok_def)
  note M = middle_update [OF l this]
  show ?case
    by (rule part_write [OF 3(1) l 3(3)]) (use 3 l in \<open>auto simp: part_ok_def disk_on_def Let_def M\<close>)
next
  case (4 d l x)
  then have "NumBlocks (Parts d Ctx) \<le> l" by (auto simp: word_le_nat_alt part_ok_def)
  then show ?case using 4 by (auto simp: BlkPartWriteBlocks_def Let_def)
next
  case (5 d)
  then show ?case using uniform_sub by (auto simp: part_ok_def disk_on_def Let_def controller_def)
next
  case (6 d)
  then have "length (media (Controllers d)) < 2 ^ 63" using controller_blocks(2) by (fastforce simp: part_ok_def disk_on_def Let_def)
  then show ?case by simp
qed

section \<open>The modules found in the root directory\<close>

definition module_at :: "string \<Rightarrow> module_entry" where
  "module_at Name = (''/'' @ Name, module_seq Name)"

lemma join_root:
  assumes "lock_held k s" "k + 1 < 2 ^ 31" "length n \<le> 254"
  shows "\<exists>t. VfsJoinPath (Some []) (Some n) True 256 s = Some ((0, Some (''/'' @ n)), t) \<and> lock_held k t"
proof -
  obtain m where m: "vfs_acquire s = Some (s\<lparr>VfsLock := m\<rparr>)" "lock_held (k + 1) (s\<lparr>VfsLock := m\<rparr>)"
    using acquire_held [OF assms(1,2)] by blast
  have "0 < k" using assms(1) by (simp add: lock_held_def)
  then have "lock_held k (vfs_release (s\<lparr>VfsLock := m\<rparr>))" using release_nested m(2) by simp
  then show ?thesis using m(1) assms(3) by (simp add: VfsJoinPath_def)
qed

lemma collect_modules_at:
  assumes "lock_held k s" "k + 1 < 2 ^ 31" "list_all (\<lambda>n. length n \<le> 254) Names"
  shows "\<exists>t. collect_modules Names Mods s = Some (Mods @ map module_at (filter is_module Names), t) \<and> lock_held k t"
  using assms
proof (induction Names arbitrary: Mods s)
  case (Cons n Names)
  have rest: "list_all (\<lambda>n. length n \<le> 254) Names" using Cons.prems(3) by simp
  obtain u where u: "VfsJoinPath (Some []) (Some n) True 256 s = Some ((0, Some (''/'' @ n)), u)" "lock_held k u"
    using join_root [OF Cons.prems(1,2), of n] Cons.prems(3) by auto
  show ?case using Cons.IH [OF u(2) Cons.prems(2) rest, of "Mods @ [module_at n]"] Cons.IH [OF Cons.prems(1,2) rest, of Mods] u(1) Cons.prems(3) by (simp add: module_at_def)
qed simp

section \<open>A small machine\<close>

text \<open>A controller that keeps its blocks in a list.\<close>

definition demo_read :: "nat \<Rightarrow> u64 \<Rightarrow> bool \<Rightarrow> int \<Rightarrow> string list \<Rightarrow> (int \<times> string) \<times> string list" where
  "demo_read ctx l buf n d = (if unat l < length d then ((1, d ! unat l), d) else ((0, []), d))"

definition demo_write :: "nat \<Rightarrow> u64 \<Rightarrow> string option \<Rightarrow> int \<Rightarrow> string list \<Rightarrow> int \<times> string list" where
  "demo_write ctx l buf n d = (case buf of None \<Rightarrow> (-1, d) | Some x \<Rightarrow> if unat l < length d \<and> length x = 4 then (1, d[unat l := x]) else (0, d))"

definition demo_sound :: "string list \<Rightarrow> bool" where
  "demo_sound d \<longleftrightarrow> list_all (\<lambda>x. length x = 4) d \<and> length d < 2 ^ 63"

lemma demo_controller: "controller demo_read demo_write c 4 (\<lambda>d. d) demo_sound"
  by (auto simp: controller_def demo_read_def demo_write_def demo_sound_def uniform_def list_all_iff dest: set_update_memI
      elim!: in_set_conv_nth [THEN iffD1, elim_format] simp: nth_list_update)

definition demo_ops :: "string list BlockDevOps" where
  "demo_ops = \<lparr>B_Open = None, B_Close = None, B_ReadBlocks = Some demo_read, B_WriteBlocks = Some demo_write, B_Ioctl = None, BlockSize = 4\<rparr>"

definition demo_chars :: "string list drivers CharDevOps" where
  "demo_chars = \<lparr>C_Open = None, C_Close = None, C_Read = None, C_Write = None, C_Ioctl = None\<rparr>"

text \<open>The disk 1 of four blocks, and the partition 1 of it that holds the middle two.\<close>

definition demo_drivers :: "string list drivers" where
  "demo_drivers =
     \<lparr>Disks = (\<lambda>_. \<lparr>bdName = Some ''sda'', bdCtrlCtx = 1, TotalBlocks = 4, bdBlockSize = 4, bdOps = demo_ops\<rparr>),
      Parts = (\<lambda>_. \<lparr>bpName = Some ''sda1'', bpParent = 1, StartLba = 1, NumBlocks = 2, bpBlockSize = 4\<rparr>),
      Buses = (\<lambda>_. \<lparr>cbName = None, cbCtrlCtx = 0, cbOps = \<lparr>C_Open = None, C_Close = None, C_Read = None, C_Write = None, C_Ioctl = None\<rparr>\<rparr>),
      Controllers = [''boot'', ''abcd'', ''efgh'', ''last'']\<rparr>"

definition demo_devfs :: "string list drivers devfs" where
  "demo_devfs = vfs.extend demo_vfs
     \<lparr>DevTable = replicate 256 0, DevCount = 0, DevSuper = 0,
      DevEntries = (\<lambda>_. \<lparr>deName = [], deMajor = 0, deMinor = 0, deContext = 0, deOps = DevChar demo_chars\<rparr>),
      NodeDevs = (\<lambda>_. 0), FileCtxs = (\<lambda>_. \<lparr>fcDev = 0, fcLba = 0, fcOffset = 0\<rparr>), Drv = demo_drivers\<rparr>"

lemma demo_reg_ok: "reg_ok demo_devfs"
  by (simp add: reg_ok_def devs_def dev_names_def demo_devfs_def vfs.defs demo_vfs_def)

text \<open>File 5 is open on the device 7, with the context 6.\<close>

definition demo_dev_file :: "string list drivers BlockDevOps \<Rightarrow> nat \<Rightarrow> string list drivers devfs" where
  "demo_dev_file Ops off = demo_devfs\<lparr>DevEntries := (\<lambda>_. \<lparr>deName = ''dev'', deMajor = 8, deMinor = 0, deContext = 1, deOps = DevBlock Ops\<rparr>),
     FileCtxs := (\<lambda>_. \<lparr>fcDev = 7, fcLba = 0, fcOffset = int off\<rparr>),
     Files := (\<lambda>_. \<lparr>fNode = 3, fOffset = int off, fFlags = 0, fRefcnt = 1, fPriv = 6\<rparr>),
     Vnodes := (\<lambda>_. \<lparr>vType = VNodeDEV, vOps = 2, vSb = 0, vPriv = 0, vRefcnt = 1\<rparr>)\<rparr>"

lemma demo_dev_file_open:
  assumes "BlockSize Ops = 4" "off < 4"
  shows "block_file 5 Ops 1 off (demo_dev_file Ops off)" "heap_left (demo_dev_file Ops off)" "Drv (demo_dev_file Ops off) = demo_drivers"
    "lock_idle (demo_dev_file Ops off)" "fOffset (Files (demo_dev_file Ops off) 5) = int off" "fNode (Files (demo_dev_file Ops off) 5) = 3"
    "vOps (Vnodes (demo_dev_file Ops off) 3) = 2"
  using assms by (simp_all add: block_file_def heap_left_def demo_dev_file_def demo_devfs_def vfs.defs demo_vfs_def file_dev_def cursor_at_def lock_idle_def)

lemma demo_disk_on: "disk_on demo_read demo_write 4 (\<lambda>d. d) demo_sound 1 demo_drivers"
  using demo_controller by (simp add: disk_on_def demo_drivers_def demo_ops_def demo_sound_def Let_def)

lemma demo_disk_ok: "disk_ok demo_read demo_write 4 (\<lambda>d. d) demo_sound 1 demo_drivers"
  using demo_disk_on by (simp add: disk_ok_def) (simp add: demo_drivers_def)

lemma demo_part_ok: "part_ok demo_read demo_write 4 (\<lambda>d. d) demo_sound 1 demo_drivers"
proof -
  have "bpParent (Parts demo_drivers 1) = 1" by (simp add: demo_drivers_def)
  then show ?thesis using demo_disk_on by (simp add: part_ok_def) (simp add: demo_drivers_def)
qed

section \<open>The registry\<close>

lemma dev_find_registry:
  assumes "reg_ok s"
  shows "registry s n = (if dev_find (Some n) s = 0 then None else Some (DevEntries s (dev_find (Some n) s)))"
proof (rule dev_index_cases [OF assms, of n], goal_cases)
  case 1
  then show ?thesis using dom_registry [of s] by (auto simp: domIff)
next
  case (2 I)
  have "devs s ! I \<in> set (devs s)" using 2 length_devs [OF assms] by simp
  then have "(n, DevEntries s (devs s ! I)) \<in> set (map (\<lambda>E. (deName (DevEntries s E), DevEntries s E)) (devs s))"
    using 2(3) by force
  moreover have "distinct (map fst (map (\<lambda>E. (deName (DevEntries s E), DevEntries s E)) (devs s)))"
    using assms by (simp add: reg_ok_def dev_names_def comp_def)
  ultimately show ?thesis using 2 unfolding registry_def by simp
qed

text \<open>C29: the device table is a map from names to devices. Registering a device under a new name adds it, and is refused,
  with the map unchanged, for a name in use, a full table or an empty heap; unregistering removes the name; looking a
  name up finds its device. Each keeps the table well formed.\<close>

theorem DevFs_registry:
  assumes "reg_ok s" "length n \<le> 254"
  shows "(case DevFsRegisterBlockDevice (Some n) ma mi BOps Ctx s of (r, t) \<Rightarrow> reg_ok t \<and>
      (if n \<in> dom (registry s) \<or> DevCount s = 256 \<or> HeapLeft s = 0 then r = -1 \<and> registry t = registry s
       else r = 0 \<and> registry t = (registry s)(n \<mapsto> \<lparr>deName = n, deMajor = ma, deMinor = mi, deContext = Ctx, deOps = DevBlock BOps\<rparr>))) \<and>
    (case DevFsRegisterCharDevice (Some n) ma mi COps Ctx s of (r, t) \<Rightarrow> reg_ok t \<and>
      (if n \<in> dom (registry s) \<or> DevCount s = 256 \<or> HeapLeft s < 2 then r = -1 \<and> registry t = registry s
       else r = 0 \<and> registry t = (registry s)(n \<mapsto> \<lparr>deName = n, deMajor = ma, deMinor = mi, deContext = Ctx, deOps = DevChar COps\<rparr>))) \<and>
    (case DevFsUnregisterDevice (Some n) s of (r, t) \<Rightarrow> reg_ok t \<and>
      (if n \<in> dom (registry s) then r = 0 \<and> registry t = (registry s)(n := None) else r = -1 \<and> t = s)) \<and>
    registry s n = (if dev_find (Some n) s = 0 then None else Some (DevEntries s (dev_find (Some n) s)))"
proof (intro conjI)
  obtain r t where 1: "DevFsRegisterBlockDevice (Some n) ma mi BOps Ctx s = (r, t)" by fastforce
  show "case DevFsRegisterBlockDevice (Some n) ma mi BOps Ctx s of (r, t) \<Rightarrow> reg_ok t \<and>
      (if n \<in> dom (registry s) \<or> DevCount s = 256 \<or> HeapLeft s = 0 then r = -1 \<and> registry t = registry s
       else r = 0 \<and> registry t = (registry s)(n \<mapsto> \<lparr>deName = n, deMajor = ma, deMinor = mi, deContext = Ctx, deOps = DevBlock BOps\<rparr>))"
    unfolding 1 prod.case by (rule DevFsRegisterBlockDevice_map [OF assms(1) 1])
next
  obtain r t where 1: "DevFsRegisterCharDevice (Some n) ma mi COps Ctx s = (r, t)" by fastforce
  show "case DevFsRegisterCharDevice (Some n) ma mi COps Ctx s of (r, t) \<Rightarrow> reg_ok t \<and>
      (if n \<in> dom (registry s) \<or> DevCount s = 256 \<or> HeapLeft s < 2 then r = -1 \<and> registry t = registry s
       else r = 0 \<and> registry t = (registry s)(n \<mapsto> \<lparr>deName = n, deMajor = ma, deMinor = mi, deContext = Ctx, deOps = DevChar COps\<rparr>))"
    unfolding 1 prod.case by (rule DevFsRegisterCharDevice_map [OF assms 1])
next
  obtain r t where 1: "DevFsUnregisterDevice (Some n) s = (r, t)" by fastforce
  show "case DevFsUnregisterDevice (Some n) s of (r, t) \<Rightarrow> reg_ok t \<and>
      (if n \<in> dom (registry s) then r = 0 \<and> registry t = (registry s)(n := None) else r = -1 \<and> t = s)"
    unfolding 1 prod.case by (rule DevFsUnregisterDevice_map [OF assms(1) 1])
next
  show "registry s n = (if dev_find (Some n) s = 0 then None else Some (DevEntries s (dev_find (Some n) s)))"
    by (rule dev_find_registry [OF assms(1)])
qed

theorem DevFs_registry_witness:
  "\<exists>t. DevFsRegisterCharDevice (Some ''null'') 1 3 NullOps 0 demo_devfs = (0, t) \<and> ''null'' \<in> dom (registry t)"
proof -
  have e: "''null'' \<notin> dom (registry demo_devfs)" by (simp add: registry_def devs_def demo_devfs_def vfs.defs demo_vfs_def)
  have d: "DevCount demo_devfs \<noteq> 256" "\<not> HeapLeft demo_devfs < 2" by (simp_all add: demo_devfs_def vfs.defs demo_vfs_def)
  obtain r t where rt: "DevFsRegisterCharDevice (Some ''null'') 1 3 NullOps 0 demo_devfs = (r, t)" by fastforce
  then show ?thesis
    using DevFs_registry [OF demo_reg_ok, where n = "''null''" and ma = 1 and mi = 3 and Ctx = 0 and COps = NullOps, THEN conjunct2, THEN conjunct1] e d
    by simp
qed

section \<open>Streams\<close>

text \<open>C30: a file that is opened on a device has its cursor inside its block. From there, provided the calls of the driver itself
  return, and whatever they answer: reading always returns; writing returns unless the device has \<^verbatim>\<open>WriteBlocks\<close> but no \<^verbatim>\<open>ReadBlocks\<close>,
  in which case it calls a null pointer (when there is memory for the block); seeking returns unless the block size is 0, in
  which case a seek from the start or from the position divides by it. What returns leaves the cursor inside its block.\<close>

theorem DevVfs_streams_return:
  assumes "(DevVfsOpen Node F r = (0, s) \<and> vType (Vnodes r Node) = VNodeDEV) \<or> stream_ok F s"
  shows "(\<exists>x t. DevVfsRead F Buf n s = Some (x, t) \<and> stream_ok F t) \<and>
    (if write_faults F Src n s then DevVfsWrite F Src n s = None
     else \<exists>x t. DevVfsWrite F Src n s = Some (x, t) \<and> stream_ok F t) \<and>
    (if seek_faults F Whence s then DevVfsLseek F Off Whence s = None
     else \<exists>x t. DevVfsLseek F Off Whence s = Some (x, t) \<and> stream_ok F t)"
proof -
  have ok: "stream_ok F s" using assms DevVfsOpen_stream_ok by blast
  show ?thesis
    using DevVfsRead_returns [OF ok, of Buf n] DevVfsWrite_returns [OF ok, of Src n] DevVfsWrite_faults [of F Src n s]
      DevVfsLseek_returns [OF ok, of Whence Off] DevVfsLseek_faults [of F Whence s Off]
    by presburger
qed

theorem DevVfs_streams_return_witness:
  "(\<exists>x t. DevVfsWrite 5 (Some ''wxyz'') 4 (demo_dev_file (DiskOps 4) 2) = Some (x, t) \<and> stream_ok 5 t) \<and>
    DevVfsLseek 5 0 1 (demo_dev_file (DiskOps 0) 2) = None"
proof -
  have "stream_ok 5 (demo_dev_file (DiskOps 4) 2)" "\<not> write_faults 5 (Some ''wxyz'') 4 (demo_dev_file (DiskOps 4) 2)"
    by (simp_all add: stream_ok_def write_faults_def demo_dev_file_def file_dev_def DiskOps_def cursor_ok_def)
  then have "\<exists>x t. DevVfsWrite 5 (Some ''wxyz'') 4 (demo_dev_file (DiskOps 4) 2) = Some (x, t) \<and> stream_ok 5 t"
    using DevVfs_streams_return [of 0 5 undefined "demo_dev_file (DiskOps 4) 2"] by (metis (no_types, lifting))
  moreover have "stream_ok 5 (demo_dev_file (DiskOps 0) 2)" "seek_faults 5 1 (demo_dev_file (DiskOps 0) 2)"
    by (simp_all add: stream_ok_def seek_faults_def demo_dev_file_def file_dev_def DiskOps_def cursor_ok_def)
  then have "DevVfsLseek 5 0 1 (demo_dev_file (DiskOps 0) 2) = None"
    using DevVfs_streams_return [of 0 5 undefined "demo_dev_file (DiskOps 0) 2"] by (metis (no_types, lifting))
  ultimately show ?thesis by blast
qed

text \<open>C31: a file open on a disk reads as the bytes of its blocks, one after the other. With the cursor at byte \<open>p\<close>, \<open>read\<close>
  returns the next \<open>n\<close> bytes, or what is left of them, leaves the disk as it is and the cursor behind them.\<close>

theorem Disk_file_read:
  assumes "block_file F (DiskOps (int b)) Ctx p s" "disk_ok rd wr b media sound Ctx (Drv s)" "heap_left s" "0 < n"
    and "data = concat (take (unat (TotalBlocks (Disks (Drv s) Ctx))) (media (Controllers (Drv s))))"
    and "k = min n (length data - p)"
  shows "\<exists>t. DevVfsRead F True (int n) s = Some ((int k, take n (drop p data)), t) \<and>
    media (Controllers (Drv t)) = media (Controllers (Drv s)) \<and> disk_ok rd wr b media sound Ctx (Drv t) \<and>
    block_file F (DiskOps (int b)) Ctx (p + k) t \<and> fOffset (Files t F) = fOffset (Files s F) + int k"
proof -
  let ?T = "unat (TotalBlocks (Disks (Drv s) Ctx))"
  have D: "disk.bytes Ctx media (Drv s) = data" unfolding disk.bytes_def assms(5) ..
  obtain t where t: "DevVfsRead F True (int n) s = Some ((int k, take n (drop p data)), t)"
    "disk_ok rd wr b media sound Ctx (Drv t)"
    "take (unat (TotalBlocks (Disks (Drv t) Ctx))) (media (Controllers (Drv t))) = take ?T (media (Controllers (Drv s)))"
    "drop (unat (TotalBlocks (Disks (Drv t) Ctx))) (media (Controllers (Drv t))) = drop ?T (media (Controllers (Drv s)))"
    "block_file F (DiskOps (int b)) Ctx (p + k) t" "fOffset (Files t F) = fOffset (Files s F) + int k"
    using disk.file_read [OF assms(1) _ _ _ assms(2,3,4), where f = BlkDiskReadBlocks] unfolding D assms(6) by (auto simp: DiskOps_def)
  have "media (Controllers (Drv t)) = media (Controllers (Drv s))" using t(3,4) by (metis append_take_drop_id)
  then show ?thesis using t by blast
qed

theorem Disk_file_read_witness:
  "\<exists>t. DevVfsRead 5 True 7 (demo_dev_file (DiskOps 4) 2) = Some ((7, ''otabcde''), t)"
proof -
  have b: "BlockSize (DiskOps 4) = 4" by (simp add: DiskOps_def)
  have "concat (take (unat (TotalBlocks (Disks demo_drivers 1))) (Controllers demo_drivers)) = ''bootabcdefghlast''"
    by (simp add: demo_drivers_def)
  then show ?thesis
    using Disk_file_read [where F = 5 and b = 4 and Ctx = 1 and p = 2 and s = "demo_dev_file (DiskOps 4) 2" and n = 7 and media = "\<lambda>d. d" and
        rd = demo_read and wr = demo_write and sound = demo_sound, OF _ _ _ _ refl refl] demo_dev_file_open [OF b, of 2] demo_disk_ok by auto
qed

text \<open>Replacing bytes in the middle.\<close>

lemma overwrite_middle:
  assumes "p + length x \<le> length y \<or> x = []"
  shows "overwrite (length a + p) x (a @ y @ c) = a @ overwrite p x y @ c"
  using assms by (cases "x = []") (simp, simp add: overwrite_def)

text \<open>C32: a write to a partition stays inside it. The bytes of the whole medium change only from the start of the partition
  plus the cursor on, for as many bytes of the buffer as the partition has room for; whatever precedes and follows the
  partition is untouched, also by a write that runs past its end.\<close>

theorem Partition_file_write_isolated:
  assumes "block_file F (PartOps (int b)) Ctx p s" "part_ok rd wr b media sound Ctx (Drv s)" "heap_left s" "Src \<noteq> []"
    and "base = unat (StartLba (Parts (Drv s) Ctx)) * b" "room = unat (NumBlocks (Parts (Drv s) Ctx)) * b"
  shows "\<exists>t. DevVfsWrite F (Some Src) (int (length Src)) s = Some (int (min (length Src) (room - p)), t) \<and>
    concat (media (Controllers (Drv t))) = overwrite (base + p) (take (room - p) Src) (concat (media (Controllers (Drv s)))) \<and>
    part_ok rd wr b media sound Ctx (Drv t) \<and> Parts (Drv t) = Parts (Drv s) \<and>
    block_file F (PartOps (int b)) Ctx (p + min (length Src) (room - p)) t \<and> heap_left t"
proof -
  let ?S = "unat (StartLba (Parts (Drv s) Ctx))" and ?N = "unat (NumBlocks (Parts (Drv s) Ctx))"
  let ?m = "media (Controllers (Drv s))"
  have inn: "?S + ?N \<le> length ?m" "uniform b ?m" using assms(2) controller_blocks(1) by (fastforce simp: part_ok_def disk_on_def Let_def)+
  have ops: "BlockSize (PartOps (int b)) = int b" "B_ReadBlocks (PartOps (int b)) = Some BlkPartReadBlocks"
    "B_WriteBlocks (PartOps (int b)) = Some BlkPartWriteBlocks" by (simp_all add: PartOps_def)
  have D: "part.bytes Ctx media d = concat (part_blocks media Ctx d)" for d unfolding part.bytes_def ..
  have L: "length (part.bytes Ctx media (Drv s)) = room"
    using part.length_bytes [OF assms(2)] inn(1) unfolding assms(6) by simp
  obtain t where t: "DevVfsWrite F (Some Src) (int (length Src)) s = Some (int (min (length Src) (room - p)), t)"
    "part_ok rd wr b media sound Ctx (Drv t)" "Parts (Drv t) = Parts (Drv s)"
    "concat (part_blocks media Ctx (Drv t)) = overwrite p (take (room - p) Src) (concat (part_blocks media Ctx (Drv s)))"
    "take (unat (StartLba (Parts (Drv t) Ctx))) (media (Controllers (Drv t))) = take ?S ?m"
    "drop (unat (StartLba (Parts (Drv t) Ctx)) + unat (NumBlocks (Parts (Drv t) Ctx))) (media (Controllers (Drv t))) = drop (?S + ?N) ?m"
    "block_file F (PartOps (int b)) Ctx (p + min (length Src) (room - p)) t" "heap_left t"
    using part.file_write [OF assms(1) _ _ _ _ _ assms(2,3,4), where f = BlkPartReadBlocks and g = BlkPartWriteBlocks] unfolding L unfolding D
    by (auto simp: ops)
  have split: "concat xs = concat (take S xs) @ concat (take N (drop S xs)) @ concat (drop (S + N) xs)" for xs :: "string list" and S N
    by (metis append_take_drop_id concat_append drop_drop add.commute)
  have a: "length (concat (take ?S ?m)) = base"
    using length_concat_uniform [OF uniform_sub [OF inn(2), of ?S 0]] inn(1) unfolding assms(5) by simp
  have "concat (media (Controllers (Drv t))) = concat (take ?S ?m) @ overwrite p (take (room - p) Src) (concat (part_blocks media Ctx (Drv s))) @ concat (drop (?S + ?N) ?m)"
    using split [of "media (Controllers (Drv t))" ?S ?N] t(3-6) by simp
  also have "\<dots> = overwrite (base + p) (take (room - p) Src) (concat (take ?S ?m) @ concat (part_blocks media Ctx (Drv s)) @ concat (drop (?S + ?N) ?m))"
    unfolding a [symmetric] by (rule overwrite_middle [symmetric]) (use L in \<open>auto simp: D min_def\<close>)
  also have "\<dots> = overwrite (base + p) (take (room - p) Src) (concat ?m)" using split [of ?m ?S ?N] by simp
  finally show ?thesis using t by blast
qed

theorem Partition_file_write_isolated_witness:
  "\<exists>t. DevVfsWrite 5 (Some ''0123456789'') 10 (demo_dev_file (PartOps 4) 3) = Some (5, t) \<and>
     concat (Controllers (Drv t)) = ''bootabc01234last''"
proof -
  have b: "BlockSize (PartOps 4) = 4" by (simp add: PartOps_def)
  have f: "Drv (demo_dev_file (PartOps 4) 3) = demo_drivers" "concat (Controllers demo_drivers) = ''bootabcdefghlast''"
    using demo_dev_file_open(3) [OF b, of 3] by simp_all (simp add: demo_drivers_def)
  have n: "unat (StartLba (Parts (Drv (demo_dev_file (PartOps 4) 3)) 1)) * 4 = 4" "unat (NumBlocks (Parts (Drv (demo_dev_file (PartOps 4) 3)) 1)) * 4 = 8"
    unfolding f(1) by (simp_all add: demo_drivers_def)
  show ?thesis
    using Partition_file_write_isolated [where F = 5 and b = 4 and Ctx = 1 and p = 3 and s = "demo_dev_file (PartOps 4) 3" and Src = "''0123456789''" and media = "\<lambda>d. d" and
        rd = demo_read and wr = demo_write and sound = demo_sound, OF _ _ _ _ n(1) [symmetric] n(2) [symmetric]]
      demo_dev_file_open [OF b, of 3] demo_part_ok f
    by (auto simp: overwrite_def)
qed

text \<open>C33: what is written to a partition's file is read back. After a write that fits, seeking to where it began and reading
  as many bytes returns the bytes written.\<close>

theorem Partition_write_seek_read:
  assumes "block_file F (PartOps (int b)) Ctx p s" "part_ok rd wr b media sound Ctx (Drv s)" "heap_left s" "Src \<noteq> []"
    and "p + length Src \<le> unat (NumBlocks (Parts (Drv s) Ctx)) * b"
  shows "\<exists>t u v. DevVfsWrite F (Some Src) (int (length Src)) s = Some (int (length Src), t) \<and>
    DevVfsLseek F (int p) 0 t = Some (int p, u) \<and> DevVfsRead F True (int (length Src)) u = Some ((int (length Src), Src), v)"
proof -
  let ?N = "unat (NumBlocks (Parts (Drv s) Ctx))" and ?P = "PartOps (int b)"
  have ops: "BlockSize ?P = int b" "B_ReadBlocks ?P = Some BlkPartReadBlocks" "B_WriteBlocks ?P = Some BlkPartWriteBlocks"
    by (simp_all add: PartOps_def)
  have L: "length (part.bytes Ctx media (Drv s)) = ?N * b"
  proof -
    have "unat (StartLba (Parts (Drv s) Ctx)) + ?N \<le> length (media (Controllers (Drv s)))" using assms(2) by (simp add: part_ok_def)
    then show ?thesis using part.length_bytes [OF assms(2)] by simp
  qed
  have k: "min (length Src) (?N * b - p) = length Src" "take (?N * b - p) Src = Src" using assms(5) by auto
  obtain t where t: "DevVfsWrite F (Some Src) (int (length Src)) s = Some (int (length Src), t)"
    "part_ok rd wr b media sound Ctx (Drv t)" "part.bytes Ctx media (Drv t) = overwrite p Src (part.bytes Ctx media (Drv s))"
    "block_file F ?P Ctx (p + length Src) t" "heap_left t"
    using part.file_write [OF assms(1) ops(1,2) _ ops(3) _ assms(2-4)] unfolding L k by auto
  have "0 < length Src" using assms(4) by simp
  then have bN: "p < ?N * b" using assms(5) by linarith
  then have "p div b < ?N" by (simp add: less_mult_imp_div_less)
  also have "?N < 2 ^ 64" using unsigned_less [of "NumBlocks (Parts (Drv s) Ctx)", where 'a = nat] by simp
  finally have "int p div BlockSize ?P < 2 ^ 64" unfolding ops(1) by (simp add: zdiv_int [symmetric])
  then obtain u where u: "DevVfsLseek F (int p) 0 t = Some (int p, u)" "block_file F ?P Ctx p u" "Drv u = Drv t"
      "HeapLeft u = HeapLeft t" "NextPtr u = NextPtr t"
    using seek_set [OF t(4)] by blast
  have hu: "heap_left u" using t(5) u(4,5) by (simp add: heap_left_def)
  have room: "length (overwrite p Src (part.bytes Ctx media (Drv s))) = ?N * b" using length_overwrite [of p Src "part.bytes Ctx media (Drv s)"] L assms(5) by simp
  have again: "take (length Src) (drop p (overwrite p Src (part.bytes Ctx media (Drv s)))) = Src"
    using L assms(5) by (simp add: overwrite_def)
  obtain v where "DevVfsRead F True (int (length Src)) u = Some ((int (length Src), Src), v)"
  proof -
    have d: "part_ok rd wr b media sound Ctx (Drv u)" "0 < length Src" "part.bytes Ctx media (Drv u) = part.bytes Ctx media (Drv t)"
      using t(2) assms(4) u(3) by simp_all
    show ?thesis
      using part.file_read [OF u(2) ops(1,2) refl d(1) hu d(2)] that unfolding d(3) t(3) room k(1) again by auto
  qed
  then show ?thesis using t(1) u(1) by blast
qed

theorem Partition_write_seek_read_witness:
  "\<exists>t u v. DevVfsWrite 5 (Some ''123456'') 6 (demo_dev_file (PartOps 4) 1) = Some (6, t) \<and> DevVfsLseek 5 1 0 t = Some (1, u) \<and>
     DevVfsRead 5 True 6 u = Some ((6, ''123456''), v)"
proof -
  have b: "BlockSize (PartOps 4) = 4" by (simp add: PartOps_def)
  have n: "1 + length ''123456'' \<le> unat (NumBlocks (Parts demo_drivers 1)) * 4" by (simp add: demo_drivers_def)
  then show ?thesis
    using Partition_write_seek_read [where F = 5 and b = 4 and Ctx = 1 and p = 1 and s = "demo_dev_file (PartOps 4) 1" and Src = "''123456''" and
        media = "\<lambda>d. d" and rd = demo_read and wr = demo_write and sound = demo_sound] demo_dev_file_open [OF b, of 1] demo_part_ok
    by simp
qed

section \<open>The offset of a device file\<close>

lemma VfsLseek_step:
  assumes "vfs_acquire s = Some u" "F \<noteq> 0" "Option.bind (node_ops T (fNode (Files u F)) u) op_Lseek = Some seek"
    and "seek F off w u = (q, v)" "0 \<le> q"
  shows "VfsLseek T F off w s = Some (q, vfs_release (v\<lparr>Files := (Files v)(F := (Files v F)\<lparr>fOffset := q\<rparr>)\<rparr>))"
  using assms by (simp add: VfsLseek_def)

lemma seek_current: "fOffset (Files s F) = int q \<Longrightarrow> DevVfsLseek F 0 1 s = DevVfsLseek F (int q) 0 s"
  by (simp add: DevVfsLseek_def)

text \<open>Reading a device file through the switch counts the bytes twice. Both \<^verbatim>\<open>VfsRead\<close> and \<^verbatim>\<open>DevVfsRead\<close> add what was read to
  the offset of the file, so after a read of \<open>k\<close> bytes at \<open>p\<close> it is at \<open>p + 2 * k\<close> although the next byte read is that at
  \<open>p + k\<close>; asking for the current position by a seek of zero bytes returns the wrong one and moves the cursor there.\<close>

theorem VfsRead_device_offset_doubled:
  assumes "block_file F (DiskOps (int b)) Ctx p s" "disk_ok rd wr b media sound Ctx (Drv s)" "heap_left s" "lock_idle s"
    and "vOps (Vnodes s (fNode (Files s F))) = 2" "fNode (Files s F) \<noteq> 0" "fOffset (Files s F) = int p"
    and "0 < n" "p + 2 * n < unat (TotalBlocks (Disks (Drv s) Ctx)) * b"
  shows "\<exists>x t u. VfsRead (dev_tables T) F True (int n) s = Some ((int n, x), t) \<and> fOffset (Files t F) = int (p + 2 * n) \<and>
    block_file F (DiskOps (int b)) Ctx (p + n) t \<and>
    VfsLseek (dev_tables T) F 0 1 t = Some (int (p + 2 * n), u) \<and> block_file F (DiskOps (int b)) Ctx (p + 2 * n) u"
proof -
  let ?N = "unat (TotalBlocks (Disks (Drv s) Ctx))" and ?D = "DiskOps (int b)"
  have ops: "BlockSize ?D = int b" "B_ReadBlocks ?D = Some BlkDiskReadBlocks" by (simp_all add: DiskOps_def)
  have tab: "op_Read (VOps (dev_tables T) 2) = Some (\<lambda>F n s. the (DevVfsRead F True n s))"
    "op_Lseek (VOps (dev_tables T) 2) = Some (\<lambda>F o' w s. the (DevVfsLseek F o' w s))"
    by (simp_all add: dev_tables_def DevVfsOps_def)
  obtain m where m: "vfs_acquire s = Some (s\<lparr>VfsLock := m\<rparr>)" "lock_held 1 (s\<lparr>VfsLock := m\<rparr>)" using acquire_idle [OF assms(4)] by blast
  let ?s = "s\<lparr>VfsLock := m\<rparr>"
  have bf: "block_file F ?D Ctx p ?s" by (rule block_file_cong [OF assms(1)]) simp_all
  have L: "length (disk.bytes Ctx media (Drv s)) = ?N * b"
    using disk.length_bytes [OF assms(2)] assms(2) by (simp add: disk_ok_def)
  have k: "min n (?N * b - p) = n" using assms(9) by simp
  obtain x t where t: "DevVfsRead F True (int n) ?s = Some ((int n, x), t)" "block_file F ?D Ctx (p + n) t" "same_vfs F ?s t"
    "fOffset (Files t F) = int p + int n"
  proof -
    have d: "disk_ok rd wr b media sound Ctx (Drv ?s)" "heap_left ?s" "length (disk.bytes Ctx media (Drv ?s)) = ?N * b"
      using assms(2,3) L by (simp_all add: heap_left_def)
    show ?thesis
      using disk.file_read [OF bf ops(1,2) refl d(1,2) assms(8)] that assms(7) unfolding d(3) k by auto
  qed
  have op: "Option.bind (node_ops (dev_tables T) (fNode (Files v F)) v) g = g (VOps (dev_tables T) 2)"
    if "Vnodes v = Vnodes s" "fNode (Files v F) = fNode (Files s F)" for v :: "('a drivers, 'b) devfs_scheme" and g
    using that assms(5,6) by (simp add: node_ops_def)
  note same = t(3) [unfolded same_vfs_def]
  have F: "F \<noteq> 0" using assms(1) by (simp add: block_file_def)
  let ?t = "vfs_release (advance F (int n) t)"
  have "VfsRead (dev_tables T) F True (int n) s = Some ((int n, x), ?t)"
    using m(1) F assms(8) t(1) op [of ?s op_Read] by (simp add: VfsRead_def tab)
  moreover have off: "fOffset (Files ?t F) = int (p + 2 * n)" using t(4) assms(8) by (simp add: advance_def vfs_release_def)
  moreover have bt: "block_file F ?D Ctx (p + n) ?t"
    by (rule block_file_cong [OF t(2)]) (simp_all add: advance_def vfs_release_def)
  moreover have "\<exists>u. VfsLseek (dev_tables T) F 0 1 ?t = Some (int (p + 2 * n), u) \<and> block_file F ?D Ctx (p + 2 * n) u"
  proof -
    have "lock_held 1 (advance F (int n) t)" using m(2) same by (simp add: lock_held_def advance_def)
    then obtain m' where m': "vfs_acquire ?t = Some (?t\<lparr>VfsLock := m'\<rparr>)" using acquire_idle [OF release_once] by blast
    let ?u = "?t\<lparr>VfsLock := m'\<rparr>"
    have bu: "block_file F ?D Ctx (p + n) ?u" by (rule block_file_cong [OF bt]) simp_all
    have "(p + 2 * n) div b < ?N" using assms(9) by (simp add: less_mult_imp_div_less)
    also have "?N < 2 ^ 64" using unsigned_less [of "TotalBlocks (Disks (Drv s) Ctx)", where 'a = nat] by simp
    finally have "int (p + 2 * n) div BlockSize ?D < 2 ^ 64" unfolding ops(1) by (simp only: zdiv_int [symmetric]) simp
    then obtain w where w: "DevVfsLseek F (int (p + 2 * n)) 0 ?u = Some (int (p + 2 * n), w)" "block_file F ?D Ctx (p + 2 * n) w"
      using seek_set [OF bu] by blast
    let ?w = "vfs_release (w\<lparr>Files := (Files w)(F := (Files w F)\<lparr>fOffset := int (p + 2 * n)\<rparr>)\<rparr>)"
    have sk: "DevVfsLseek F 0 1 ?u = Some (int (p + 2 * n), w)"
      using w(1) off by (simp add: seek_current [of ?u F "p + 2 * n"])
    have tb: "Option.bind (node_ops (dev_tables T) (fNode (Files ?u F)) ?u) op_Lseek = Some (\<lambda>F o' w s. the (DevVfsLseek F o' w s))"
      unfolding tab(2) [symmetric] by (rule op) (use same in \<open>simp_all add: advance_def vfs_release_def\<close>)
    have "VfsLseek (dev_tables T) F 0 1 ?t = Some (int (p + 2 * n), ?w)"
      by (rule VfsLseek_step [OF m' F tb]) (use sk in simp_all)
    moreover have "block_file F ?D Ctx (p + 2 * n) ?w" by (rule block_file_cong [OF w(2)]) (simp_all add: vfs_release_def)
    ultimately show ?thesis by blast
  qed
  ultimately show ?thesis by blast
qed

definition demo_dev_tables :: "string list drivers devfs tables" where
  "demo_dev_tables = \<lparr>VOps = (\<lambda>_. no_vnode_ops), SOps = (\<lambda>_. \<lparr>sop_Sync = None, sop_StatFs = None, sop_Release = None, sop_Umount = None\<rparr>),
     MountHooks = (\<lambda>k d opts s. (0, s))\<rparr>"

theorem VfsRead_device_offset_doubled_witness:
  "\<exists>x t u. VfsRead (dev_tables demo_dev_tables) 5 True 3 (demo_dev_file (DiskOps 4) 2) = Some ((3, x), t) \<and> VfsLseek (dev_tables demo_dev_tables) 5 0 1 t = Some (8, u) \<and>
     block_file 5 (DiskOps 4) 1 5 t \<and> block_file 5 (DiskOps 4) 1 8 u"
proof -
  have b: "BlockSize (DiskOps 4) = 4" by (simp add: DiskOps_def)
  have n: "2 + 2 * 3 < unat (TotalBlocks (Disks demo_drivers 1)) * 4" by (simp add: demo_drivers_def)
  then show ?thesis
    using VfsRead_device_offset_doubled [where F = 5 and b = 4 and Ctx = 1 and p = 2 and s = "demo_dev_file (DiskOps 4) 2" and n = 3 and T = demo_dev_tables and
        media = "\<lambda>d. d" and rd = demo_read and wr = demo_write and sound = demo_sound] demo_dev_file_open [OF b, of 2] demo_disk_ok
    by simp blast
qed

section \<open>The driver modules\<close>

text \<open>C34: the driver modules of the root directory are loaded in the order of their numbers. Every entry that is named like a
  module is installed once, under its path; those with a numeric prefix come first, in ascending order, and those without
  one last.\<close>

theorem InitRamDiskDevDrvs_order:
  assumes "VfsReaddir T (Some ''/'') True 128 s = Some ((int n, Es), u)" "lock_held k u" "k + 1 < 2 ^ 31"
    and "list_all (\<lambda>E. length (DeName E) \<le> 254) (take n Es)"
  shows "\<exists>Mods v. InitRamDiskDevDrvs T Install s = load_modules Install Mods v \<and> lock_held k v \<and>
    mset Mods = mset (map module_at (filter is_module (map DeName (take n Es)))) \<and> sorted_wrt loads_before Mods"
proof -
  have "list_all (\<lambda>n. length n \<le> 254) (map DeName (take n Es))" using assms(4) by (simp add: list.pred_map comp_def)
  then obtain v where v: "collect_modules (map DeName (take n Es)) [] u = Some (map module_at (filter is_module (map DeName (take n Es))), v)" "lock_held k v"
    using collect_modules_at [OF assms(2,3), where Mods = "[]"] by auto
  let ?M = "sort_modules (map module_at (filter is_module (map DeName (take n Es))))"
  have "InitRamDiskDevDrvs T Install s = load_modules Install ?M v"
    using assms(1) v(1) by (simp add: InitRamDiskDevDrvs_def)
  then show ?thesis using v(2) sort_modules_correct by (intro exI [of _ ?M] exI [of _ v]) simp
qed

definition demo_root_dir :: "vfs tables" where
  "demo_root_dir = demo_tables\<lparr>VOps := (\<lambda>_. no_vnode_ops\<lparr>op_Readdir := Some (\<lambda>d n s.
     ((4, map (\<lambda>x. \<lparr>DeName = x, DeType = VNodeFILE, DeIno = 0\<rparr>) [''ps2.ko'', ''10-ahci.ko'', ''init'', ''2-pci.ko'']), s))\<rparr>)\<rparr>"

theorem InitRamDiskDevDrvs_order_witness:
  "\<exists>Mods v. InitRamDiskDevDrvs demo_root_dir (\<lambda>p s. Some (0, s)) demo_vfs = load_modules (\<lambda>p s. Some (0, s)) Mods v \<and>
     mset Mods = {#(''/ps2.ko'', -1), (''/10-ahci.ko'', 10), (''/2-pci.ko'', 2)#} \<and> sorted_wrt loads_before Mods"
proof -
  let ?Es = "map (\<lambda>x. \<lparr>DeName = x, DeType = VNodeFILE, DeIno = 0\<rparr>) [''ps2.ko'', ''10-ahci.ko'', ''init'', ''2-pci.ko''] :: VfsDirEnt list"
  obtain u where u: "VfsReaddir demo_root_dir (Some ''/'') True 128 demo_vfs = Some ((int 4, ?Es), u)" "lock_held 1 u"
    by (simp add: VfsReaddir_def VfsResolve_def readdir_node_def node_ops_def demo_root_dir_def demo_tables_def no_vnode_ops_def demo_vfs_def
        vfs_acquire_def AcquireMutex_def vfs_release_def ReleaseMutex_def lock_held_def)
  have M: "map module_at (filter is_module (map DeName (take 4 ?Es))) = [(''/ps2.ko'', -1), (''/10-ahci.ko'', 10), (''/2-pci.ko'', 2)]"
    by (simp add: module_at_def module_seq_def is_module_def is_dec_def digits_long_def)
  show ?thesis
    using InitRamDiskDevDrvs_order [OF u(1,2), of "\<lambda>p s. Some (0, s)"] unfolding M by simp blast
qed

end
