(* ===== verification/Spec2Isabelle.thy ===== *)
theory Spec2Isabelle
  imports ProcessSpec PrintfSpec PMM CString RamMount PosixFd KHeapSpec VMMSpec ThreadSpec DeviceSpec
begin

text \<open>
  A verification library of AxeialOS, a 64-bit x86 kernel written in C (\<^verbatim>\<open>src/Kernel\<close>).

  \<^bold>\<open>The program.\<close> The kernel is a set of managers, each with its own global state. Physical pages come from a bitmap
  (\<^verbatim>\<open>PMM\<close>); the slab heap (\<^verbatim>\<open>KHeap\<close>) and the page tables (\<^verbatim>\<open>VMM\<close>) are built on them. Threads are heap objects that
  the timer interrupt moves between the queues of a CPU (\<^verbatim>\<open>AxeThreads\<close>, \<^verbatim>\<open>Timers\<close>, \<^verbatim>\<open>Interrupts\<close>). Files are reached through
  a switch (\<^verbatim>\<open>VFS\<close>) that dispatches to a RAM file system, filled from the cpio archive the boot loader passes
  (\<^verbatim>\<open>RamFS\<close>, \<^verbatim>\<open>BootImg\<close>), and to the device file system (\<^verbatim>\<open>DevFS\<close>), behind which are disks, partitions and buses
  (\<^verbatim>\<open>BlocksDevs\<close>, \<^verbatim>\<open>CharsDevs\<close>). Descriptors and pipes (\<^verbatim>\<open>Proc/ProcFD.c\<close>) lie on top of the switch. Spin locks, mutexes and
  semaphores (\<^verbatim>\<open>Sync\<close>) are used throughout, the string library (\<^verbatim>\<open>KrnlLibs/String.c\<close>) and formatted output (\<^verbatim>\<open>!Debug\<close>) too.

  \<^bold>\<open>The theories\<close>, in the order of the imports; each opens with a text on its own state and conventions.
  \<^item> \<open>Prelude\<close>: word types, counting loops on words, bit and list facts, byte-addressed memory. \<open>Memory\<close>: little-endian
    loads and stores on it.
  \<^item> \<open>Sync\<close>: \<^verbatim>\<open>Spinlocks.c\<close>, \<^verbatim>\<open>Mutexes.c\<close>, \<^verbatim>\<open>SemaPhores.c\<close>, as functions of one CPU and as interleaved steps of threads; the locale \<open>exclusion\<close>.
  \<^item> \<open>CString\<close>: \<^verbatim>\<open>String.c\<close> on memory.
  \<^item> \<open>PMM\<close>: \<^verbatim>\<open>PMM.c\<close>, \<^verbatim>\<open>Bitmap.c\<close>, \<^verbatim>\<open>MemMap.c\<close>, \<^verbatim>\<open>HHDM.c\<close>; the locale \<open>page_allocator\<close>.
  \<^item> \<open>KHeap\<close>, \<open>KHeapSpec\<close>: \<^verbatim>\<open>KHeap.c\<close>, \<^verbatim>\<open>Slab.c\<close> with their lists in memory; the locale \<open>object_heap\<close>.
  \<^item> \<open>VMM\<close>, \<open>VMMSpec\<close>: \<^verbatim>\<open>VMM.c\<close>, \<^verbatim>\<open>Pages.c\<close>, with the tables in memory; the locale \<open>page_mapper\<close>.
  \<^item> \<open>AxeThreads\<close>, \<open>ThreadQueues\<close>, \<open>ThreadSched\<close>, \<open>ThreadSwitch\<close>, \<open>ThreadSpec\<close>: \<^verbatim>\<open>ThreadMGR.c\<close>, \<^verbatim>\<open>Scheduler.c\<close>, \<^verbatim>\<open>TimerCtl.c\<close>,
    \<^verbatim>\<open>IRQHandler.c\<close> and the interrupt stubs of \<^verbatim>\<open>IDT.c\<close>; the abstract scheduler on lists and the locale \<open>driven\<close>.
  \<^item> \<open>VFS\<close>, \<open>Walk\<close>: \<^verbatim>\<open>VFS.c\<close>; the locale \<open>vnode_lookup\<close>.
  \<^item> \<open>RamFS\<close>, \<open>BootImage\<close>, \<open>RamMount\<close>: \<^verbatim>\<open>RamFS/\<close>, \<^verbatim>\<open>VfsRamFs.c\<close>, \<^verbatim>\<open>ParseImage.c\<close>.
  \<^item> \<open>PosixFd\<close>: \<^verbatim>\<open>ProcFD.c\<close>.
  \<^item> \<open>Devices\<close>, \<open>DeviceRegistry\<close>, \<open>DeviceStreams\<close>, \<open>DeviceFiles\<close>, \<open>DeviceSpec\<close>: \<^verbatim>\<open>DevFS.c\<close>, \<^verbatim>\<open>DevInitMgr.c\<close>, \<^verbatim>\<open>BlocksDevs/\<close>, \<^verbatim>\<open>CharsDevs/\<close>;
    the locale \<open>block_device\<close>, interpreted on disks and on partitions.
  \<^item> \<open>Printf\<close>, \<open>PrintfSpec\<close>: \<^verbatim>\<open>!Debug/Printf.c\<close>, \<^verbatim>\<open>!Debug/Log.c\<close>, up to the characters they put on the console.
  \<^item> \<open>Process\<close>, \<open>ProcessSpec\<close>: \<^verbatim>\<open>Proc.c\<close> without \<^verbatim>\<open>PosixProcExecve\<close>, and the directory entries of \<^verbatim>\<open>ProcFS.c\<close>; its state holds those of
    the switch, the descriptors, the threads and the address spaces.

  \<^bold>\<open>Conventions.\<close> A C function is a HOL function of the same name, a static helper without its underscores; the globals it uses
  are the fields of a record that it takes and returns. Machine integers are words of their width, or integers where the code
  never comes near the bounds of the type and the comment of the theory says so. \<open>None\<close> is a call that does not come back:
  a lock its own CPU holds, a list with a cycle, an access through a null pointer. Recursive loops are functions with a
  termination proof where the C loop ends, and \<open>partial_function\<close>s where it may not; no fuel is used, so that a theorem
  that a routine returns says so by an equation with \<open>Some\<close>. Tables of function pointers, drivers and what the boot
  loader hands over are arguments. The calls that report to the console change no state the other components read, and are left
  out of them.

  \<^bold>\<open>What the lemmas show.\<close> For each manager: an invariant that its operations keep (\<open>pmm_inv\<close>, \<open>heap_ok\<close>, \<open>space_inv\<close>, \<open>sched_ok\<close>,
  \<open>tree_ok\<close>, \<open>reg_ok\<close>, the table invariant of the descriptors); what each operation does on every branch; and an abstract
  reading of the state on which the operations act as one would expect (free pages, live blocks, a partial map of pages, queues as
  lists, a map from paths to contents, a byte stream, the bytes of a disk). The contracts between managers are locales, and
  each is interpreted on the definitions of the manager that provides it. The properties of this theory span components.

  \<^bold>\<open>What modelling showed.\<close> Several theorems state what the code does where it is not what it means to do: among them the
  registers that the interrupt frame mixes up (\<open>CreateThread_argument\<close>), the thread that is resumed after it has been
  freed (\<open>ThreadExit_resumes_freed\<close>), the list of threads that is cut (\<open>ThreadExecute_truncates_list\<close>), the pages that a large block
  leaks (\<open>KFree_large_leaks\<close>), the pipe freed under its writer (\<open>PosixClose_frees_shared_pipe\<close>), and the offset of
  a device file that is counted twice (\<open>VfsRead_device_offset_doubled\<close>), and the conversions of \<^verbatim>\<open>KrnPrintf\<close> that lose
  digits (\<open>KrnPrintf_conversion_faults\<close>), and the exit of a process that waits for its own lock
  (\<open>process_exit_hangs\<close>), and the mutex that lets in a second thread of its owner's CPU (\<open>mutex_mutual_exclusion\<close>).

  \<^bold>\<open>Where the managers meet.\<close> The switch and the file systems allocate from a budget of fresh pointers (\<open>kmalloc\<close>), which is
  all they see of the heap; threads are allocated from the modelled heap itself. Interference between threads and CPUs is modelled
  for the primitives of \<open>Sync\<close>, and for the rest by the assumption that a routine runs under the lock it takes; interrupts come
  between the routines of the scheduler.

  \<^bold>\<open>Not modelled.\<close>
  \<^item> Pure output: console, fonts, serial line, the Dump and debug routines, the exception screen.
  \<^item> Programming of devices and processor tables (APIC, HPET, PIT, GDT, IDT and TSS set-up, start-up of the other CPUs): port and
    register accesses whose effect is outside the source.
  \<^item> Loading an executable (\<^verbatim>\<open>PosixProcExecve\<close>), the files below \<^verbatim>\<open>/proc\<close>, the system call table, the module linker, the loadable modules
    and firmware files: program logic that the library does not reach yet.
  \<^item> The C library of user space (vendored) and the demonstration programs.
\<close>

text \<open>C1: the boot image, from the loader's module to a reader. When the archive is well formed, the
  switch has just been initialised and the heap lasts, \<^verbatim>\<open>BootMountRamFs\<close> succeeds; then \<^verbatim>\<open>VfsOpen\<close> of the path
  of any non-empty archived file (names of at most 255 bytes) gives a handle, \<^verbatim>\<open>VfsRead\<close> through it returns
  exactly the archived bytes, and the mutex of the switch is free again.\<close>

theorem boot_image_readable:
  assumes "archive_ok es tr rest" "ramfs_fresh s" "boot_ready s" "e \<in> set es" "\<not> is_dir e" "ceData e \<noteq> []"
    and "\<forall>c \<in> set (path_segs (ceName e)). length c \<le> 255"
    and "blocks_for es + 4 * length (path_segs (ceName e)) + 7 \<le> HeapLeft s"
  shows "\<exists>t F u v. BootMountRamFs T (Some (archive es tr rest)) (word_of_nat (length (archive es tr rest))) s = Some (0, t) \<and>
     VfsOpen (ram_tables T) (Some (CHR ''/'' # ceName e)) fl t = Some (F, u) \<and> F \<noteq> 0 \<and>
     VfsRead (ram_tables T) F True (int (length (ceData e))) u = Some ((int (length (ceData e)), ceData e), v) \<and> lock_idle v"
  by (rule boot_open_read [OF assms])

theorem boot_image_readable_witness:
  "\<exists>t F u v. BootMountRamFs demo_ram_tables (Some (archive demo_entries demo_trailer []))
       (word_of_nat (length (archive demo_entries demo_trailer []))) demo_ramfs = Some (0, t) \<and>
     VfsOpen (ram_tables demo_ram_tables) (Some ''/etc/motd'') 0 t = Some (F, u) \<and>
     VfsRead (ram_tables demo_ram_tables) F True 5 u = Some ((5, ''hello''), v)"
proof -
  let ?e = "demo_entry 0x81A4 ''etc/motd'' ''hello''"
  have e: "?e \<in> set demo_entries" "\<not> is_dir ?e" "ceData ?e = ''hello''" "ceName ?e = ''etc/motd''"
    by (simp_all add: demo_entries_def is_dir_def demo_entry_def)
  have "boot_ready demo_ramfs" by (simp add: boot_ready_def lock_idle_def demo_ramfs_def)
  moreover have "\<forall>c \<in> set (path_segs (ceName ?e)). length c \<le> 255" by (simp add: e path_segs_def leaf_list_def)
  moreover have "blocks_for demo_entries + 4 * length (path_segs (ceName ?e)) + 7 \<le> HeapLeft demo_ramfs"
    by (simp add: blocks_for_def demo_entries_def demo_entry_def demo_ramfs_def path_segs_def leaf_list_def)
  ultimately show ?thesis
    using boot_image_readable [OF demo_archive_ok demo_fresh _ e(1,2), of demo_ram_tables 0] e(3,4) by auto
qed

end
